(* ===== verification/JS_Base.thy ===== *)
theory JS_Base
  imports Main "HOL-Library.AList"
begin

section \<open>Shared vocabulary: JavaScript values, strings, ordered maps, errors\<close>

text \<open>
  Everything the component theories share.  A value of TypeScript type \<open>unknown\<close> is a
  \<open>jsval\<close>.  Strings are Isabelle strings, so the model covers the code points below 256; the
  patterns of the code accept ASCII only, and the case mappings and the white space of those code
  points are written out.  A \<open>Map\<close> of the source is an association list in insertion order,
  changed by \<open>AList.update\<close> (an existing key keeps its place, a new key goes last) and
  \<open>AList.delete\<close>.  A time is its number of milliseconds, and an ISO timestamp is represented by
  the time it prints, since \<open>toISOString\<close> is injective on the times a \<open>Date\<close> can hold.  A thrown
  error is the left value of a sum.  Integer arithmetic of the source is done on doubles and then
  checked with \<open>Number.isSafeInteger\<close>: a sum of two safe integers that is itself not safe is
  rounded to a double that is not safe either, so \<open>int\<close> with the same check is faithful.
\<close>

named_theorems code_defs \<open>definitions of the pure helpers, for evaluation\<close>

subsection \<open>Values of unknown type\<close>

text \<open>
  \<open>JFrac n\<close> is a finite number that is not an integer, \<open>n\<close> its truncation; \<open>JNonFinite\<close> stands for
  \<open>NaN\<close> and the infinities; \<open>JDate None\<close> is an invalid \<open>Date\<close>.
\<close>

datatype jsval =
    JUndef | JNull | JBool bool | JInt int | JFrac int | JNonFinite | JStr string
  | JArr "jsval list" | JObj "(string \<times> jsval) list" | JDate "int option" | JFun

fun is_object :: "jsval \<Rightarrow> bool" where
  "is_object (JArr _) = True"
| "is_object (JObj _) = True"
| "is_object (JDate _) = True"
| "is_object _ = False"

fun jget :: "jsval \<Rightarrow> string \<Rightarrow> jsval" where
  "jget (JObj kvs) k = (case map_of kvs k of Some v \<Rightarrow> v | None \<Rightarrow> JUndef)"
| "jget _ k = JUndef"

definition nullish :: "jsval \<Rightarrow> bool" where
  "nullish v \<longleftrightarrow> v = JUndef \<or> v = JNull"

definition js_or_else :: "jsval \<Rightarrow> jsval \<Rightarrow> jsval" where \<comment> \<open>\<open>a ?? b\<close>\<close>
  "js_or_else a b = (if nullish a then b else a)"

definition js_default :: "jsval \<Rightarrow> jsval \<Rightarrow> jsval" where \<comment> \<open>a destructuring default\<close>
  "js_default a b = (if a = JUndef then b else a)"

definition opt_js :: "string option \<Rightarrow> jsval" where
  "opt_js x = (case x of None \<Rightarrow> JNull | Some s \<Rightarrow> JStr s)"

definition max_safe :: int where
  "max_safe = 9007199254740991"

definition is_safe_int :: "int \<Rightarrow> bool" where
  "is_safe_int n \<longleftrightarrow> - max_safe \<le> n \<and> n \<le> max_safe"

definition max_date :: int where
  "max_date = 8640000000000000"

definition date_ok :: "int \<Rightarrow> bool" where
  "date_ok t \<longleftrightarrow> - max_date \<le> t \<and> t \<le> max_date"

text \<open>\<open>new Date(v)\<close>; what \<open>Date.parse\<close> makes of a string is the parameter \<open>pd\<close>.  An array would be printed
  and then parsed; it is taken as invalid.\<close>

fun to_date :: "(string \<Rightarrow> int option) \<Rightarrow> jsval \<Rightarrow> int option" where
  "to_date pd (JDate d) = d"
| "to_date pd (JStr s) = pd s"
| "to_date pd (JInt n) = (if date_ok n then Some n else None)"
| "to_date pd (JFrac n) = (if date_ok n then Some n else None)"
| "to_date pd JNull = Some 0"
| "to_date pd (JBool b) = Some (if b then 1 else 0)"
| "to_date pd _ = None"

subsection \<open>Errors\<close>

datatype err_class =
    TenantContextErr | AuthorizationErr | DelegationErr | QuotaErr | AdminToolsErr
  | MailQueueErr | MailPolicyErr | MailCoreErr | MailScannerErr | ImapIdleErr
  | SmtpClientErr | SmtpCommandErr | TotpErr | RecoveryErr | RetentionErr | WebSecurityErr | PasswordErr | AbuseErr | AccountErr | CardDavErr | CalDavErr
  | JsRangeErr | JsTypeErr | OtherErr

text \<open>The class of the error, its \<open>code\<close> and its HTTP \<open>status\<close> (0 where the class has none).\<close>

datatype err = Err (err_class: err_class) (err_code: string) (err_status: nat)

type_synonym 'a res = "err + 'a"

definition rangeError :: err where \<comment> \<open>thrown by \<open>toISOString\<close>\<close>
  "rangeError = Err JsRangeErr [] 0"

definition bindE :: "'a res \<Rightarrow> ('a \<Rightarrow> 'b res) \<Rightarrow> 'b res" where
  "bindE m k = (case m of Inl e \<Rightarrow> Inl e | Inr x \<Rightarrow> k x)"

text \<open>Run a pure check inside a stateful operation: an error leaves the state as it is.\<close>

definition liftE :: "'a res \<Rightarrow> 's \<Rightarrow> ('a \<Rightarrow> 'b res \<times> 's) \<Rightarrow> 'b res \<times> 's" where
  "liftE m s k = (case m of Inl e \<Rightarrow> (Inl e, s) | Inr x \<Rightarrow> k x)"

text \<open>Stateful operations composed: an error ends the composition, with the state it left.\<close>

definition bindS :: "('s \<Rightarrow> 'a res \<times> 's) \<Rightarrow> ('a \<Rightarrow> 's \<Rightarrow> 'b res \<times> 's) \<Rightarrow> 's \<Rightarrow> 'b res \<times> 's" where
  "bindS m k s = (case m s of (Inl e, t) \<Rightarrow> (Inl e, t) | (Inr x, t) \<Rightarrow> k x t)"

definition pureS :: "'a res \<Rightarrow> 's \<Rightarrow> 'a res \<times> 's" where
  "pureS r s = (r, s)"

definition is_ok :: "'a res \<Rightarrow> bool" where
  "is_ok r \<longleftrightarrow> (case r of Inl _ \<Rightarrow> False | Inr _ \<Rightarrow> True)"

fun mapE :: "('a \<Rightarrow> 'b res) \<Rightarrow> 'a list \<Rightarrow> 'b list res" where
  "mapE f [] = Inr []"
| "mapE f (x # xs) = bindE (f x) (\<lambda>y. bindE (mapE f xs) (\<lambda>ys. Inr (y # ys)))"

lemma bindE_simps [simp]:
  "bindE (Inl e) k = Inl e"
  "bindE (Inr x) k = k x"
  by (simp_all add: bindE_def)

lemma bindE_Inr_iff [simp]: "bindE m k = Inr y \<longleftrightarrow> (\<exists>x. m = Inr x \<and> k x = Inr y)"
  by (cases m) auto

lemma bindE_Inl_iff: "bindE m k = Inl e \<longleftrightarrow> m = Inl e \<or> (\<exists>x. m = Inr x \<and> k x = Inl e)"
  by (cases m) auto

lemma liftE_simps [simp]:
  "liftE (Inl e) s k = (Inl e, s)"
  "liftE (Inr x) s k = k x"
  by (simp_all add: liftE_def)

lemma liftE_Inr_iff [simp]:
  "liftE m s k = (Inr y, s') \<longleftrightarrow> (\<exists>x. m = Inr x \<and> k x = (Inr y, s'))"
  by (cases m) auto

lemma liftE_cases:
  assumes "liftE m s k = (r, s')"
  obtains (Err) e where "m = Inl e" "r = Inl e" "s' = s"
  | (Ok) x where "m = Inr x" "k x = (r, s')"
  using assms by (cases m) auto

lemma liftE_state: "snd (liftE m s k) = s \<or> (\<exists>x. m = Inr x \<and> liftE m s k = k x)"
  by (cases m) auto

text \<open>What holds of the state a stateful operation leaves, one check after the other.\<close>

lemma snd_liftE: "P s \<Longrightarrow> (\<And>x. m = Inr x \<Longrightarrow> P (snd (k x))) \<Longrightarrow> P (snd (liftE m s k))"
  by (cases m) auto

lemma snd_liftE2: "P s \<Longrightarrow> (\<And>x y. m = Inr (x, y) \<Longrightarrow> P (snd (k x y))) \<Longrightarrow> P (snd (liftE m s (\<lambda>(x, y). k x y)))"
  by (cases m) auto

lemma snd_liftE3: "P s \<Longrightarrow> (\<And>x y z. m = Inr (x, y, z) \<Longrightarrow> P (snd (k x y z))) \<Longrightarrow> P (snd (liftE m s (\<lambda>(x, y, z). k x y z)))"
  by (cases m) auto

lemma snd_if: "(c \<Longrightarrow> P (snd p)) \<Longrightarrow> (\<not> c \<Longrightarrow> P (snd q)) \<Longrightarrow> P (snd (if c then p else q))"
  by simp

lemma snd_option: "(x = None \<Longrightarrow> P (snd p)) \<Longrightarrow> (\<And>y. x = Some y \<Longrightarrow> P (snd (q y))) \<Longrightarrow>
    P (snd (case x of None \<Rightarrow> p | Some y \<Rightarrow> q y))"
  by (cases x) auto

lemma bindS_Inr: "bindS m k s = (Inr y, u) \<longleftrightarrow> (\<exists>x t. m s = (Inr x, t) \<and> k x t = (Inr y, u))"
  by (auto simp: bindS_def split: prod.splits sum.splits)

lemma bindS_cases:
  assumes "bindS m k s = (r, u)"
  obtains (Err) e where "m s = (Inl e, u)" "r = Inl e"
  | (Ok) x t where "m s = (Inr x, t)" "k x t = (r, u)"
  using assms by (auto simp: bindS_def split: prod.split_asm sum.split_asm)

lemma pureS_iff [simp]: "pureS r s = (q, t) \<longleftrightarrow> q = r \<and> t = s"
  by (auto simp: pureS_def)

lemmas state_defs [code_defs] = bindS_def pureS_def

lemma is_ok_simps [simp]: "is_ok (Inl e) = False" "is_ok (Inr x) = True"
  by (simp_all add: is_ok_def)

lemma is_ok_iff: "is_ok r \<longleftrightarrow> (\<exists>x. r = Inr x)"
  by (cases r) auto

text \<open>A guard that throws, read off a successful result, in a pure and in a stateful operation.\<close>

lemma guard_iff:
  "(if c then Inl e else m) = Inr y \<longleftrightarrow> \<not> c \<and> m = Inr y"
  "(if c then (Inl e, s) else p) = (Inr y, s') \<longleftrightarrow> \<not> c \<and> p = (Inr y, s')"
  "(if c then m else Inl e) = Inr y \<longleftrightarrow> c \<and> m = Inr y"
  by auto

text \<open>The run-time checks of a value of unknown type: a string or an integer with a property, an array.\<close>

definition need_str :: "(string \<Rightarrow> bool) \<Rightarrow> err \<Rightarrow> jsval \<Rightarrow> string res" where
  "need_str ok e v = (case v of JStr s \<Rightarrow> if ok s then Inr s else Inl e | _ \<Rightarrow> Inl e)"

definition need_int :: "(int \<Rightarrow> bool) \<Rightarrow> err \<Rightarrow> jsval \<Rightarrow> int res" where
  "need_int ok e v = (case v of JInt n \<Rightarrow> if is_safe_int n \<and> ok n then Inr n else Inl e | _ \<Rightarrow> Inl e)"

definition need_arr :: "err \<Rightarrow> jsval \<Rightarrow> jsval list res" where
  "need_arr e v = (case v of JArr vs \<Rightarrow> Inr vs | _ \<Rightarrow> Inl e)"

definition needE :: "bool \<Rightarrow> err \<Rightarrow> unit res" where
  "needE c e = (if c then Inr () else Inl e)"

definition opt_of :: "(jsval \<Rightarrow> 'a res) \<Rightarrow> jsval \<Rightarrow> 'a option res" where \<comment> \<open>\<open>null\<close> and \<open>undefined\<close> stand for nothing\<close>
  "opt_of f v = (if nullish v then Inr None else bindE (f v) (\<lambda>x. Inr (Some x)))"

definition js_str :: "jsval \<Rightarrow> string option" where
  "js_str v = (case v of JStr s \<Rightarrow> Some s | _ \<Rightarrow> None)"

lemma need_Inr [simp]:
  "need_str ok e v = Inr s \<longleftrightarrow> v = JStr s \<and> ok s"
  "need_int okn e v = Inr n \<longleftrightarrow> v = JInt n \<and> is_safe_int n \<and> okn n"
  "need_arr e v = Inr vs \<longleftrightarrow> v = JArr vs"
  "needE c e = Inr u \<longleftrightarrow> c"
  "opt_of f v = Inr y \<longleftrightarrow> (if nullish v then y = None else \<exists>x. f v = Inr x \<and> y = Some x)"
  by (auto simp: need_str_def need_int_def need_arr_def needE_def opt_of_def split: jsval.splits)

lemma need_Inl:
  "need_str ok e v = Inl d \<Longrightarrow> d = e"
  "need_int okn e v = Inl d \<Longrightarrow> d = e"
  "need_arr e v = Inl d \<Longrightarrow> d = e"
  "needE c e = Inl d \<longleftrightarrow> \<not> c \<and> d = e"
  by (auto simp: need_str_def need_int_def need_arr_def needE_def split: jsval.splits if_splits)

lemma js_str_Some [simp]: "js_str v = Some s \<longleftrightarrow> v = JStr s"
  by (auto simp: js_str_def split: jsval.splits)

lemma js_str_JStr [simp]: "js_str (JStr s) = Some s"
  by simp

lemmas need_defs [code_defs] = need_str_def need_int_def need_arr_def needE_def opt_of_def js_str_def

lemma mapE_set: "mapE f xs = Inr ys \<Longrightarrow> y \<in> set ys \<Longrightarrow> \<exists>x\<in>set xs. f x = Inr y"
  by (induction xs arbitrary: ys) auto

lemma mapE_length: "mapE f xs = Inr ys \<Longrightarrow> length ys = length xs"
  by (induction xs arbitrary: ys) auto

subsection \<open>Characters and strings\<close>

definition ccode :: "char \<Rightarrow> nat" where
  "ccode c = of_char c"

definition is_digit :: "char \<Rightarrow> bool" where
  "is_digit c \<longleftrightarrow> 48 \<le> ccode c \<and> ccode c \<le> 57"

definition is_lower :: "char \<Rightarrow> bool" where
  "is_lower c \<longleftrightarrow> 97 \<le> ccode c \<and> ccode c \<le> 122"

definition is_upper :: "char \<Rightarrow> bool" where
  "is_upper c \<longleftrightarrow> 65 \<le> ccode c \<and> ccode c \<le> 90"

definition is_alnum :: "char \<Rightarrow> bool" where
  "is_alnum c \<longleftrightarrow> is_lower c \<or> is_upper c \<or> is_digit c"

definition is_lowdig :: "char \<Rightarrow> bool" where
  "is_lowdig c \<longleftrightarrow> is_lower c \<or> is_digit c"

definition is_space :: "char \<Rightarrow> bool" where \<comment> \<open>\<open>\s\<close> and \<open>trim\<close>\<close>
  "is_space c \<longleftrightarrow> (9 \<le> ccode c \<and> ccode c \<le> 13) \<or> ccode c = 32 \<or> ccode c = 160"

definition is_printable :: "char \<Rightarrow> bool" where
  "is_printable c \<longleftrightarrow> 32 \<le> ccode c \<and> ccode c \<le> 126"

definition is_line_break :: "char \<Rightarrow> bool" where
  "is_line_break c \<longleftrightarrow> ccode c = 10 \<or> ccode c = 13"

definition lower_char :: "char \<Rightarrow> char" where
  "lower_char c = (let n = ccode c in
     if (65 \<le> n \<and> n \<le> 90) \<or> (192 \<le> n \<and> n \<le> 222 \<and> n \<noteq> 215) then char_of (n + 32) else c)"

definition lower :: "string \<Rightarrow> string" where
  "lower s = map lower_char s"

text \<open>Upper case: the sharp s becomes two letters; the two code points below 256 whose upper case
  is above 255 are left alone (no pattern of the code accepts either form).\<close>

definition upper_char :: "char \<Rightarrow> string" where
  "upper_char c = (let n = ccode c in
     if n = 223 then ''SS''
     else if (97 \<le> n \<and> n \<le> 122) \<or> (224 \<le> n \<and> n \<le> 254 \<and> n \<noteq> 247) then [char_of (n - 32)] else [c])"

definition upper :: "string \<Rightarrow> string" where
  "upper s = concat (map upper_char s)"

definition trim :: "string \<Rightarrow> string" where
  "trim s = rev (dropWhile is_space (rev (dropWhile is_space s)))"

fun split_by :: "(char \<Rightarrow> bool) \<Rightarrow> string \<Rightarrow> string list" where
  "split_by p [] = [[]]"
| "split_by p (c # cs) =
     (if p c then [] # split_by p cs
      else (case split_by p cs of [] \<Rightarrow> [[c]] | w # ws \<Rightarrow> (c # w) # ws))"

definition starts_with :: "string \<Rightarrow> string \<Rightarrow> bool" where
  "starts_with p s \<longleftrightarrow> take (length p) s = p"

definition ends_with :: "string \<Rightarrow> string \<Rightarrow> bool" where
  "ends_with p s \<longleftrightarrow> starts_with (rev p) (rev s)"

fun contains_str :: "string \<Rightarrow> string \<Rightarrow> bool" where
  "contains_str p [] = (p = [])"
| "contains_str p (c # cs) = (starts_with p (c # cs) \<or> contains_str p cs)"

text \<open>\<open>^[p][q]{0,n}$\<close>, the shape of most identifier patterns, and \<open>^[q]{1,n}$\<close>.\<close>

definition head_tail :: "(char \<Rightarrow> bool) \<Rightarrow> (char \<Rightarrow> bool) \<Rightarrow> nat \<Rightarrow> string \<Rightarrow> bool" where
  "head_tail p q n s = (case s of [] \<Rightarrow> False | c # cs \<Rightarrow> p c \<and> length cs \<le> n \<and> list_all q cs)"

definition run_of :: "(char \<Rightarrow> bool) \<Rightarrow> nat \<Rightarrow> string \<Rightarrow> bool" where
  "run_of q n s \<longleftrightarrow> s \<noteq> [] \<and> length s \<le> n \<and> list_all q s"

definition one_of :: "string \<Rightarrow> char \<Rightarrow> bool" where
  "one_of cs c \<longleftrightarrow> c \<in> set cs"

text \<open>\<open>[A-Za-z0-9][A-Za-z0-9._:@/-]{0,127}\<close>, the actor and user identifiers.\<close>

definition id_char :: "char \<Rightarrow> bool" where
  "id_char c \<longleftrightarrow> is_alnum c \<or> one_of ''._:@/-'' c"

definition actor_id_ok :: "string \<Rightarrow> bool" where
  "actor_id_ok s \<longleftrightarrow> head_tail is_alnum id_char 127 s"

definition byte_length :: "string \<Rightarrow> nat" where \<comment> \<open>in UTF-8\<close>
  "byte_length s = sum_list (map (\<lambda>c. if ccode c < 128 then 1 else 2) s)"

lemmas char_defs [code_defs] = ccode_def is_digit_def is_lower_def is_upper_def is_alnum_def
  is_lowdig_def is_space_def is_printable_def is_line_break_def lower_char_def one_of_def
  id_char_def

lemmas string_defs [code_defs] = lower_def upper_def upper_char_def trim_def starts_with_def
  ends_with_def head_tail_def run_of_def actor_id_ok_def byte_length_def

lemma actor_id_nonempty: "actor_id_ok s \<Longrightarrow> s \<noteq> []"
  by (auto simp: actor_id_ok_def head_tail_def)

lemma actor_id_length: "actor_id_ok s \<Longrightarrow> length s \<le> 128"
  by (cases s) (auto simp: actor_id_ok_def head_tail_def)

lemma lower_char_idem [simp]: "lower_char (lower_char c) = lower_char c"
proof -
  have "of_char c < (256::nat)" by simp
  then show ?thesis by (auto simp: lower_char_def ccode_def Let_def)
qed

lemma lower_idem [simp]: "lower (lower s) = lower s"
  by (simp add: lower_def)

lemma split_by_word: "list_all (\<lambda>c. \<not> p c) w \<Longrightarrow> p d \<Longrightarrow> split_by p (w @ d # s) = w # split_by p s"
  by (induction w) auto

lemma split_by_last: "list_all (\<lambda>c. \<not> p c) w \<Longrightarrow> split_by p w = [w]"
  by (induction w) auto

lemma split_by_nonempty [simp]: "split_by p s \<noteq> []"
  by (induction s) (auto split: list.splits)

text \<open>Keys made of several identifiers with NUL between them, \<open>`${a}\u0000${b}`\<close>.\<close>

fun nul_join :: "string list \<Rightarrow> string" where
  "nul_join [] = []"
| "nul_join [w] = w"
| "nul_join (w # ws) = w @ CHR 0x00 # nul_join ws"

definition nul_free :: "string \<Rightarrow> bool" where
  "nul_free s \<longleftrightarrow> list_all (\<lambda>c. c \<noteq> CHR 0x00) s"

lemma nul_join_split: "ws \<noteq> [] \<Longrightarrow> list_all nul_free ws \<Longrightarrow> split_by (\<lambda>c. c = CHR 0x00) (nul_join ws) = ws"
  by (induction ws rule: nul_join.induct) (auto simp: nul_free_def split_by_last split_by_word)

lemma nul_join_inject:
  assumes "nul_join vs = nul_join ws" "vs \<noteq> []" "ws \<noteq> []" "list_all nul_free vs" "list_all nul_free ws"
  shows "vs = ws"
  using assms by (metis nul_join_split)

lemma head_tail_nul_free:
  assumes "head_tail p q n s" and "\<not> p (CHR 0x00)" and "\<not> q (CHR 0x00)"
  shows "nul_free s"
  using assms unfolding head_tail_def nul_free_def by (auto simp: list_all_iff split: list.splits)

lemma actor_id_nul_free: "actor_id_ok s \<Longrightarrow> nul_free s"
  unfolding actor_id_ok_def by (erule head_tail_nul_free) code_simp+

subsection \<open>Decimal numbers and padded identifiers\<close>

fun dec :: "nat \<Rightarrow> string" where
  "dec n = (if n < 10 then [char_of (48 + n)] else dec (n div 10) @ [char_of (48 + n mod 10)])"

declare dec.simps [simp del]

definition undec :: "string \<Rightarrow> nat" where
  "undec s = foldl (\<lambda>a c. 10 * a + (ccode c - 48)) 0 s"

definition pad8 :: "nat \<Rightarrow> string" where \<comment> \<open>\<open>String(n).padStart(8, '0')\<close>\<close>
  "pad8 n = replicate (8 - length (dec n)) (CHR ''0'') @ dec n"

lemma char_of_digits [simp]:
  "char_of (48::nat) = CHR ''0''" "char_of (49::nat) = CHR ''1''" "char_of (50::nat) = CHR ''2''"
  "char_of (51::nat) = CHR ''3''" "char_of (52::nat) = CHR ''4''" "char_of (53::nat) = CHR ''5''"
  "char_of (54::nat) = CHR ''6''" "char_of (55::nat) = CHR ''7''" "char_of (56::nat) = CHR ''8''"
  "char_of (57::nat) = CHR ''9''"
  by code_simp+

lemma undec_snoc: "undec (s @ [c]) = 10 * undec s + (ccode c - 48)"
  by (simp add: undec_def)

lemma undec_dec [simp]: "undec (dec n) = n"
proof (induction n rule: dec.induct)
  case (1 n)
  show ?case
  proof (cases "n < 10")
    case True
    then show ?thesis by (subst dec.simps) (simp add: undec_def ccode_def)
  next
    case False
    with 1 have "undec (dec (n div 10)) = n div 10" by simp
    with False show ?thesis by (subst dec.simps) (simp add: undec_snoc ccode_def)
  qed
qed

lemma undec_zeros: "undec (replicate k (CHR ''0'') @ s) = undec s"
  by (induction k) (simp_all add: undec_def ccode_def)

lemma undec_pad8 [simp]: "undec (pad8 n) = n"
  by (simp add: pad8_def undec_zeros)

lemma pad8_inject [simp]: "pad8 m = pad8 n \<longleftrightarrow> m = n"
  by (metis undec_pad8)

lemma dec_digits: "list_all is_digit (dec n)"
proof (induction n rule: dec.induct)
  case (1 n)
  have d: "is_digit (char_of (48 + m))" if "m < 10" for m :: nat
    using that by (simp add: is_digit_def ccode_def)
  show ?case
  proof (cases "n < 10")
    case True
    then show ?thesis by (subst dec.simps) (simp add: d)
  next
    case False
    with 1 d [of "n mod 10"] show ?thesis by (subst dec.simps) simp
  qed
qed

lemma pad8_digits: "list_all is_digit (pad8 n)"
proof -
  have "is_digit (CHR ''0'')" by (simp add: is_digit_def ccode_def)
  then show ?thesis using dec_digits [of n] by (auto simp: pad8_def list_all_iff)
qed

lemma length_dec_le: "0 < k \<Longrightarrow> length (dec n) \<le> k \<longleftrightarrow> n < 10 ^ k"
proof (induction k arbitrary: n)
  case 0
  then show ?case by simp
next
  case (Suc k)
  have pos: "length (dec m) \<ge> 1" for m by (subst dec.simps) simp
  show ?case
  proof (cases "n < 10")
    case True
    have "(10::nat) \<le> 10 ^ Suc k" by simp
    with True have "n < 10 ^ Suc k" by linarith
    with True show ?thesis by (subst dec.simps) simp
  next
    case False
    then have len: "length (dec n) = Suc (length (dec (n div 10)))"
      by (subst dec.simps) simp
    show ?thesis
    proof (cases "k = 0")
      case True
      moreover have "\<not> n < 10 ^ Suc 0" using False by simp
      ultimately show ?thesis using len pos [of "n div 10"] by (simp del: length_greater_0_conv length_0_conv)
    next
      case k: False
      then have "length (dec (n div 10)) \<le> k \<longleftrightarrow> n div 10 < 10 ^ k"
        using Suc.IH by simp
      also have "\<dots> \<longleftrightarrow> n < 10 ^ Suc k" by (simp add: div_less_iff_less_mult mult.commute)
      finally show ?thesis by (simp add: len)
    qed
  qed
qed

lemma pad8_length: "length (pad8 n) = 8 \<longleftrightarrow> n < 100000000"
  using length_dec_le [of 8 n] by (auto simp: pad8_def)

subsection \<open>Sets and stable sorting of lists\<close>

primrec dedup :: "'a list \<Rightarrow> 'a list" where \<comment> \<open>\<open>[...new Set(xs)]\<close>\<close>
  "dedup [] = []"
| "dedup (x # xs) = x # filter (\<lambda>y. y \<noteq> x) (dedup xs)"

primrec ins_by :: "('a \<Rightarrow> 'a \<Rightarrow> bool) \<Rightarrow> 'a \<Rightarrow> 'a list \<Rightarrow> 'a list" where
  "ins_by le x [] = [x]"
| "ins_by le x (y # ys) = (if le x y then x # y # ys else y # ins_by le x ys)"

definition sort_by :: "('a \<Rightarrow> 'a \<Rightarrow> bool) \<Rightarrow> 'a list \<Rightarrow> 'a list" where
  "sort_by le xs = foldr (ins_by le) xs []"

fun str_le :: "string \<Rightarrow> string \<Rightarrow> bool" where \<comment> \<open>the order of \<open>sort()\<close>\<close>
  "str_le [] _ = True"
| "str_le (x # xs) [] = False"
| "str_le (x # xs) (y # ys) = (if x = y then str_le xs ys else ccode x < ccode y)"

lemma set_dedup [simp]: "set (dedup xs) = set xs"
  by (induction xs) auto

lemma distinct_dedup [simp]: "distinct (dedup xs)"
  by (induction xs) auto

lemma dedup_distinct: "distinct xs \<Longrightarrow> dedup xs = xs"
  by (induction xs) (auto simp: filter_id_conv)

lemma dedup_nil [simp]: "dedup xs = [] \<longleftrightarrow> xs = []"
  by (cases xs) auto

lemma set_ins_by [simp]: "set (ins_by le x ys) = insert x (set ys)"
  by (induction ys) auto

lemma length_ins_by [simp]: "length (ins_by le x ys) = Suc (length ys)"
  by (induction ys) auto

lemma set_sort_by [simp]: "set (sort_by le xs) = set xs"
  by (induction xs) (auto simp: sort_by_def)

lemma length_sort_by [simp]: "length (sort_by le xs) = length xs"
  by (induction xs) (auto simp: sort_by_def)

lemma sorted_wrt_ins_by:
  assumes "transp le" and "\<And>a b. le a b \<or> le b a"
  shows "sorted_wrt le ys \<Longrightarrow> sorted_wrt le (ins_by le x ys)"
proof (induction ys)
  case Nil
  then show ?case by simp
next
  case (Cons y ys)
  then show ?case using assms by (auto dest: transpD)
qed

lemma sorted_wrt_sort_by:
  assumes "transp le" and "\<And>a b. le a b \<or> le b a"
  shows "sorted_wrt le (sort_by le xs)"
  by (induction xs) (auto simp: sort_by_def intro: sorted_wrt_ins_by [OF assms])

subsection \<open>Ordered maps\<close>

definition keys :: "('k \<times> 'v) list \<Rightarrow> 'k list" where
  "keys m = map fst m"

lemma map_of_update [simp]: "map_of (AList.update k v m) = (map_of m)(k \<mapsto> v)"
  by (rule update_conv')

lemma map_of_delete [simp]: "map_of (AList.delete k m) = (map_of m)(k := None)"
  by (rule delete_conv')

lemma distinct_keys_update [simp]:
  "distinct (map fst m) \<Longrightarrow> distinct (map fst (AList.update k v m))"
  by (rule distinct_update)

lemma distinct_keys_delete [simp]:
  "distinct (map fst m) \<Longrightarrow> distinct (map fst (AList.delete k m))"
  by (rule distinct_delete)

lemma set_update_alist:
  "distinct (map fst m) \<Longrightarrow> set (AList.update k v m) = {p \<in> set m. fst p \<noteq> k} \<union> {(k, v)}"
proof (induction m)
  case Nil
  then show ?case by simp
next
  case (Cons p m)
  then show ?case by (cases p) (auto simp: rev_image_eqI)
qed

lemma find_in: "find P xs = Some x \<Longrightarrow> P x \<and> x \<in> set xs"
  by (induction xs) (auto split: if_split_asm)

lemma update_new_key: "k \<notin> set (map fst m) \<Longrightarrow> AList.update k v m = m @ [(k, v)]"
  by (induction m) auto

lemma map_of_in_set: "map_of m k = Some v \<Longrightarrow> (k, v) \<in> set m"
  by (rule map_of_SomeD)

text \<open>How a sum over a map changes when one entry does.\<close>

lemma sum_list_update_new:
  "map_of m k = None \<Longrightarrow> sum_list (map f (AList.update k v m)) = sum_list (map f m) + (f (k, v) :: int)"
  by (induction m) (auto split: if_splits)

lemma sum_list_update_old:
  "map_of m k = Some w \<Longrightarrow>
   sum_list (map f (AList.update k v m)) = sum_list (map f m) - f (k, w) + (f (k, v) :: int)"
proof (induction m)
  case Nil
  then show ?case by simp
next
  case (Cons p m)
  then show ?case by (cases p) (auto split: if_splits)
qed

end
