(* ===== verification/Tenant_Context.thy ===== *)
theory Tenant_Context
  imports JS_Base
begin

section \<open>The tenant context\<close>

text \<open>
  \<open>src/integrations/tenant-context.ts\<close>: the canonical context every component asks for before it
  does anything.  A context is accepted only when it is already canonical, so whatever a caller
  passes is exactly what the callee uses.
\<close>

datatype role = Provider | TenantMaster | UserRole | Monitor

definition role_name :: "role \<Rightarrow> string" where
  "role_name r = (case r of Provider \<Rightarrow> ''provider'' | TenantMaster \<Rightarrow> ''tenant_master''
     | UserRole \<Rightarrow> ''user'' | Monitor \<Rightarrow> ''monitor'')"

definition ROLES :: "role list" where
  "ROLES = [Provider, TenantMaster, UserRole, Monitor]"

definition parse_role :: "jsval \<Rightarrow> role option" where
  "parse_role v = (case v of JStr s \<Rightarrow> find (\<lambda>r. role_name r = s) ROLES | _ \<Rightarrow> None)"

record tenant_context =
  tc_tenantId :: string
  tc_domain :: string
  tc_actorId :: "string option"
  tc_role :: role

subsection \<open>Patterns\<close>

definition tenant_id_ok :: "string \<Rightarrow> bool" where
  "tenant_id_ok s \<longleftrightarrow> head_tail is_lowdig (\<lambda>c. is_lowdig c \<or> one_of ''._-'' c) 63 s"

definition domain_label_ok :: "string \<Rightarrow> bool" where
  "domain_label_ok w \<longleftrightarrow> run_of (\<lambda>c. is_alnum c \<or> c = CHR ''-'') 63 w \<and> is_alnum (hd w) \<and> is_alnum (last w)"

definition domain_ok :: "string \<Rightarrow> bool" where
  "domain_ok s \<longleftrightarrow> 1 \<le> length s \<and> length s \<le> 253
     \<and> list_all domain_label_ok (split_by (\<lambda>c. c = CHR ''.'') s)"

lemmas tenant_pattern_defs [code_defs] = tenant_id_ok_def domain_label_ok_def domain_ok_def

subsection \<open>Building and checking a context\<close>

definition contextError :: err where
  "contextError = Err TenantContextErr [] 0"

definition requiredPattern :: "jsval \<Rightarrow> (string \<Rightarrow> bool) \<Rightarrow> string res" where
  "requiredPattern v ok = (case v of JStr s \<Rightarrow> if ok s then Inr s else Inl contextError | _ \<Rightarrow> Inl contextError)"

text \<open>The destructuring defaults \<open>actorId = null\<close> and \<open>role = 'user'\<close> apply to \<open>undefined\<close> only.\<close>

definition createTenantContext :: "jsval \<Rightarrow> tenant_context res" where
  "createTenantContext input =
     bindE (requiredPattern (jget input ''domain'') domain_ok) (\<lambda>d.
     case parse_role (js_default (jget input ''role'') (JStr ''user'')) of
       None \<Rightarrow> Inl contextError
     | Some r \<Rightarrow>
         bindE (requiredPattern (jget input ''tenantId'') tenant_id_ok) (\<lambda>t.
         bindE (case js_default (jget input ''actorId'') JNull of
                  JNull \<Rightarrow> Inr None
                | v \<Rightarrow> bindE (requiredPattern v actor_id_ok) (\<lambda>a. Inr (Some a))) (\<lambda>a.
         Inr \<lparr>tc_tenantId = t, tc_domain = lower d, tc_actorId = a, tc_role = r\<rparr>)))"

definition assertTenantContext :: "jsval \<Rightarrow> tenant_context res" where
  "assertTenantContext v =
     (if \<not> is_object v then Inl contextError
      else if jget v ''tenantId'' = JUndef then Inl contextError
      else bindE (createTenantContext v) (\<lambda>c.
        if jget v ''domain'' \<noteq> JStr (tc_domain c) \<or> jget v ''role'' \<noteq> JStr (role_name (tc_role c))
           \<or> jget v ''actorId'' \<noteq> opt_js (tc_actorId c)
        then Inl contextError else Inr c))"

definition assertTenantAccess :: "jsval \<Rightarrow> jsval \<Rightarrow> tenant_context res" where
  "assertTenantAccess v requested =
     bindE (assertTenantContext v) (\<lambda>c.
       if requested \<noteq> JStr (tc_tenantId c) then Inl contextError else Inr c)"

definition tenantScope :: "jsval \<Rightarrow> string res" where
  "tenantScope v = bindE (assertTenantContext v) (\<lambda>c. Inr (tc_tenantId c))"

definition context_js :: "tenant_context \<Rightarrow> jsval" where \<comment> \<open>the frozen context as a value again\<close>
  "context_js c = JObj [(''tenantId'', JStr (tc_tenantId c)), (''domain'', JStr (tc_domain c)),
     (''actorId'', opt_js (tc_actorId c)), (''role'', JStr (role_name (tc_role c)))]"

lemmas context_defs [code_defs] = createTenantContext_def assertTenantContext_def
  assertTenantAccess_def tenantScope_def context_js_def requiredPattern_def parse_role_def
  role_name_def ROLES_def js_default_def opt_js_def contextError_def

subsection \<open>Canonical contexts\<close>

definition canonical_context :: "tenant_context \<Rightarrow> bool" where
  "canonical_context c \<longleftrightarrow> tenant_id_ok (tc_tenantId c) \<and> domain_ok (tc_domain c)
     \<and> lower (tc_domain c) = tc_domain c
     \<and> (case tc_actorId c of None \<Rightarrow> True | Some a \<Rightarrow> actor_id_ok a)"

lemma role_name_inject [simp]: "role_name r = role_name s \<longleftrightarrow> r = s"
  by (cases r; cases s) (simp_all add: role_name_def)

lemma parse_role_name [simp]: "parse_role (JStr (role_name r)) = Some r"
  by (cases r) (simp_all add: parse_role_def ROLES_def role_name_def)

lemma parse_role_Some: "parse_role v = Some r \<Longrightarrow> v = JStr (role_name r)"
  by (auto simp: parse_role_def ROLES_def split: jsval.splits if_splits)

lemma requiredPattern_Inr [simp]: "requiredPattern v ok = Inr s \<longleftrightarrow> v = JStr s \<and> ok s"
  by (auto simp: requiredPattern_def split: jsval.splits)

lemma opt_js_inject [simp]: "opt_js a = opt_js b \<longleftrightarrow> a = b"
  by (auto simp: opt_js_def split: option.splits)

lemma createTenantContext_Inr:
  assumes "createTenantContext v = Inr c"
  shows "jget v ''tenantId'' = JStr (tc_tenantId c)" "tenant_id_ok (tc_tenantId c)"
    "\<exists>d. jget v ''domain'' = JStr d \<and> domain_ok d \<and> tc_domain c = lower d"
    "case tc_actorId c of None \<Rightarrow> True | Some a \<Rightarrow> actor_id_ok a"
  using assms
  by (auto simp: createTenantContext_def split: option.splits jsval.splits)

lemma assertTenantContext_canonical:
  assumes "assertTenantContext v = Inr c" shows "canonical_context c"
proof -
  from assms have mk: "createTenantContext v = Inr c" and d: "jget v ''domain'' = JStr (tc_domain c)"
    by (auto simp: assertTenantContext_def split: if_splits)
  show ?thesis using createTenantContext_Inr [OF mk] d by (auto simp: canonical_context_def)
qed

lemma assertTenantContext_same:
  assumes "assertTenantContext v = Inr c"
  shows "jget v ''tenantId'' = JStr (tc_tenantId c)" "jget v ''role'' = JStr (role_name (tc_role c))"
    "jget v ''actorId'' = opt_js (tc_actorId c)" "jget v ''domain'' = JStr (tc_domain c)" "is_object v"
  using assms createTenantContext_Inr(1) [of v c] by (auto simp: assertTenantContext_def split: if_splits)

text \<open>Conversely any object whose four fields are canonical is accepted as it is.\<close>

lemma assertTenantContext_ok:
  assumes "canonical_context c" "is_object v" "jget v ''tenantId'' = JStr (tc_tenantId c)"
    "jget v ''role'' = JStr (role_name (tc_role c))" "jget v ''actorId'' = opt_js (tc_actorId c)"
    "jget v ''domain'' = JStr (tc_domain c)"
  shows "assertTenantContext v = Inr c"
proof -
  have "createTenantContext v = Inr c"
    using assms by (cases c)
      (auto simp: createTenantContext_def canonical_context_def requiredPattern_def js_default_def
        opt_js_def split: option.splits)
  then show ?thesis using assms by (simp add: assertTenantContext_def)
qed

lemma assertTenantContext_context_js [simp]:
  "canonical_context c \<Longrightarrow> assertTenantContext (context_js c) = Inr c"
  by (rule assertTenantContext_ok) (simp_all add: context_js_def)

lemma assertTenantAccess_Inr:
  "assertTenantAccess v t = Inr c \<longleftrightarrow> assertTenantContext v = Inr c \<and> t = JStr (tc_tenantId c)"
  by (auto simp: assertTenantAccess_def)

lemma assertTenantContext_Inl: "assertTenantContext v = Inl e \<Longrightarrow> e = contextError"
  by (auto simp: assertTenantContext_def createTenantContext_def requiredPattern_def bindE_Inl_iff
      split: if_splits option.splits jsval.splits)

lemma assertTenantAccess_Inl: "assertTenantAccess v t = Inl e \<Longrightarrow> e = contextError"
  by (auto simp: assertTenantAccess_def bindE_Inl_iff dest: assertTenantContext_Inl split: if_splits)

end
