(* ===== verification/Rbac.thy ===== *)
theory Rbac
  imports Tenant_Context
begin

section \<open>Role-based authorization\<close>

text \<open>
  \<open>src/core/admin/rbac.ts\<close>: the normalisation of an actor and \<open>authorize\<close>, the decision every
  administrative operation goes through.  The delegation store that \<open>authorize\<close> consults is an
  argument, a function from the actor, the owner and the permission to \<open>Some\<close> of the answer, or
  \<open>None\<close> when the store throws; theory Delegation supplies the real one.
\<close>

record admin_actor =
  aa_tenantId :: string
  aa_domain :: string
  aa_actorId :: string
  aa_userId :: "string option"
  aa_role :: role

type_synonym delegation_access = "admin_actor \<Rightarrow> string option \<Rightarrow> string \<Rightarrow> bool option"

record authorization_request =
  rq_permission :: jsval
  rq_targetTenantId :: jsval
  rq_targetUserId :: jsval
  rq_resource :: "string option"
  rq_content :: bool
  rq_delegationStore :: "delegation_access option"
  rq_masterLogAccess :: bool
  rq_policyField :: "string option"

text \<open>The defaults of the destructured request.\<close>

definition default_request :: authorization_request where
  "default_request = \<lparr>rq_permission = JUndef, rq_targetTenantId = JUndef, rq_targetUserId = JNull,
     rq_resource = None, rq_content = False, rq_delegationStore = None, rq_masterLogAccess = False,
     rq_policyField = None\<rparr>"

record decision =
  de_tenantId :: string
  de_actorId :: string
  de_actorRole :: role
  de_targetUserId :: "string option"
  de_permission :: string
  de_resource :: "string option"
  de_content :: bool
  de_policyField :: "string option"

subsection \<open>Tables\<close>

definition CONTENT_RESOURCES :: "string list" where
  "CONTENT_RESOURCES = [''mail'', ''mailbox'', ''message'', ''calendar'', ''contacts'', ''dav'', ''user_session'']"

definition CONTENT_PERMISSIONS :: "string list" where
  "CONTENT_PERMISSIONS = [''content.read'', ''content.write'']"

definition ADMIN_ROLES :: "string list" where
  "ADMIN_ROLES = [''provider'', ''tenant_master'', ''user'', ''monitor'']"

definition PROVIDER_PERMISSIONS :: "string list" where
  "PROVIDER_PERMISSIONS = [''tenant.read'', ''tenant.manage'', ''policy.read'', ''policy.manage'',
     ''user.read'', ''user.manage'', ''alias.read'', ''alias.manage'', ''quota.read'', ''quota.manage'',
     ''delegation.read'', ''delegation.manage'', ''queue.read'', ''queue.action'', ''service.read'',
     ''metrics.read'', ''audit.read'', ''log.read'', ''mfa.reset.user'', ''recovery.reset.user'']"

definition MASTER_PERMISSIONS :: "string list" where
  "MASTER_PERMISSIONS = [''tenant.read'', ''policy.read'', ''policy.manage'', ''user.read'',
     ''user.manage'', ''alias.read'', ''alias.manage'', ''quota.read'', ''quota.manage'',
     ''delegation.read'', ''delegation.manage'', ''queue.read'', ''service.read'', ''metrics.read'',
     ''audit.read'', ''log.read'', ''mfa.reset.user'', ''recovery.reset.user'']"

definition USER_PERMISSIONS :: "string list" where
  "USER_PERMISSIONS = [''user.read.self'', ''user.update.self'', ''quota.read'', ''content.read'',
     ''content.write'', ''session.read'', ''session.revoke'', ''mfa.manage.self'',
     ''recovery.manage.self'', ''backup.request.self'', ''delegation.manage.self'', ''audit.read.self'']"

definition MONITOR_PERMISSIONS :: "string list" where
  "MONITOR_PERMISSIONS = [''tenant.read'', ''quota.read'', ''queue.read'', ''service.read'',
     ''metrics.read'', ''audit.read'']"

definition PERMISSION_MATRIX :: "role \<Rightarrow> string list" where
  "PERMISSION_MATRIX r = (case r of Provider \<Rightarrow> PROVIDER_PERMISSIONS
     | TenantMaster \<Rightarrow> MASTER_PERMISSIONS | UserRole \<Rightarrow> USER_PERMISSIONS | Monitor \<Rightarrow> MONITOR_PERMISSIONS)"

lemmas permission_tables [code_defs] = CONTENT_RESOURCES_def CONTENT_PERMISSIONS_def ADMIN_ROLES_def
  PROVIDER_PERMISSIONS_def MASTER_PERMISSIONS_def USER_PERMISSIONS_def MONITOR_PERMISSIONS_def
  PERMISSION_MATRIX_def

subsection \<open>Checks\<close>

definition authorizationError :: "string \<Rightarrow> nat \<Rightarrow> err" where
  "authorizationError code status = Err AuthorizationErr code status"

definition assertSafeActorId :: "jsval \<Rightarrow> string res" where
  "assertSafeActorId v = (case v of JStr s \<Rightarrow> if actor_id_ok s then Inr s
       else Inl (authorizationError ''INVALID_ACTOR'' 400)
     | _ \<Rightarrow> Inl (authorizationError ''INVALID_ACTOR'' 400))"

definition assertSafeUserId :: "jsval \<Rightarrow> string res" where
  "assertSafeUserId v = (case v of JStr s \<Rightarrow> if actor_id_ok s then Inr s
       else Inl (authorizationError ''INVALID_USER'' 400)
     | _ \<Rightarrow> Inl (authorizationError ''INVALID_USER'' 400))"

definition normalizeActor :: "jsval \<Rightarrow> admin_actor res" where
  "normalizeActor actor =
     (if jget actor ''role'' \<noteq> JUndef \<and> (\<forall>r\<in>set ADMIN_ROLES. jget actor ''role'' \<noteq> JStr r)
      then Inl (authorizationError ''ROLE_DENIED'' 403)
      else case assertTenantContext actor of
        Inl _ \<Rightarrow> Inl (authorizationError ''AUTHENTICATION_REQUIRED'' 401)
      | Inr c \<Rightarrow>
          if role_name (tc_role c) \<notin> set ADMIN_ROLES then Inl (authorizationError ''ROLE_DENIED'' 403)
          else bindE (assertSafeActorId (js_or_else (opt_js (tc_actorId c)) (jget actor ''userId''))) (\<lambda>a.
               bindE (if tc_role c = UserRole
                      then bindE (assertSafeUserId (js_or_else (jget actor ''userId'') (JStr a))) (\<lambda>u.
                        if u \<noteq> a then Inl (authorizationError ''ACTOR_SCOPE_MISMATCH'' 403) else Inr (Some u))
                      else Inr None) (\<lambda>u.
               Inr \<lparr>aa_tenantId = tc_tenantId c, aa_domain = tc_domain c, aa_actorId = a,
                    aa_userId = u, aa_role = tc_role c\<rparr>)))"

definition permission_name_ok :: "string \<Rightarrow> bool" where
  "permission_name_ok s = (let ws = split_by (\<lambda>c. c = CHR ''.'') s in
     2 \<le> length ws \<and> length ws \<le> 4
     \<and> list_all (\<lambda>w. w \<noteq> [] \<and> is_lower (hd w) \<and> list_all is_lowdig w) ws)"

definition assertPermission :: "jsval \<Rightarrow> string res" where
  "assertPermission v = (case v of JStr s \<Rightarrow> if permission_name_ok s then Inr s
       else Inl (authorizationError ''INVALID_PERMISSION'' 400)
     | _ \<Rightarrow> Inl (authorizationError ''INVALID_PERMISSION'' 400))"

definition targetMatchesActor :: "admin_actor \<Rightarrow> string option \<Rightarrow> bool" where
  "targetMatchesActor a t \<longleftrightarrow> t = None \<or> t = aa_userId a"

definition isContentRequest :: "string \<Rightarrow> string option \<Rightarrow> bool \<Rightarrow> bool" where
  "isContentRequest p r content \<longleftrightarrow> content \<or> p \<in> set CONTENT_PERMISSIONS
     \<or> (case r of Some s \<Rightarrow> s \<in> set CONTENT_RESOURCES | None \<Rightarrow> False)"

definition canDelegateContent :: "admin_actor \<Rightarrow> string option \<Rightarrow> string \<Rightarrow> delegation_access option \<Rightarrow> bool" where
  "canDelegateContent a t p store =
     (case store of None \<Rightarrow> False
      | Some canAccess \<Rightarrow>
          aa_role a = UserRole \<and> p \<in> set CONTENT_PERMISSIONS
          \<and> canAccess a t (if p = ''content.write'' then ''write'' else ''read'') = Some True)"

definition assertAdminActor :: "jsval \<Rightarrow> admin_actor res" where
  "assertAdminActor = normalizeActor"

subsection \<open>The decision\<close>

definition authorize :: "jsval \<Rightarrow> authorization_request \<Rightarrow> decision res" where
  "authorize actor rq =
     bindE (normalizeActor actor) (\<lambda>c.
     bindE (assertPermission (rq_permission rq)) (\<lambda>p.
     bindE (if nullish (rq_targetUserId rq) then Inr None
            else bindE (assertSafeUserId (rq_targetUserId rq)) (\<lambda>u. Inr (Some u))) (\<lambda>user.
     if js_default (rq_targetTenantId rq) (JStr (aa_tenantId c)) \<noteq> JStr (aa_tenantId c)
     then Inl (authorizationError ''CROSS_TENANT_DENIED'' 403)
     else let wants = isContentRequest p (rq_resource rq) (rq_content rq) in
     if wants \<and> aa_role c \<noteq> UserRole
     then Inl (authorizationError ''CONTENT_ACCESS_DENIED'' 403)
     else if p \<notin> set (PERMISSION_MATRIX (aa_role c))
     then Inl (authorizationError ''PERMISSION_DENIED'' 403)
     else let target = (case user of None \<Rightarrow> aa_userId c | Some u \<Rightarrow> Some u) in
     if aa_role c = UserRole \<and> \<not> targetMatchesActor c target
        \<and> \<not> canDelegateContent c target p (rq_delegationStore rq)
     then Inl (authorizationError ''USER_SCOPE_DENIED'' 403)
     else if aa_role c = UserRole \<and> \<not> wants \<and> user \<noteq> None \<and> \<not> targetMatchesActor c user
     then Inl (authorizationError ''USER_SCOPE_DENIED'' 403)
     else if aa_role c = TenantMaster \<and> (p = ''audit.read'' \<or> p = ''log.read'')
             \<and> \<not> rq_masterLogAccess rq
     then Inl (authorizationError ''MASTER_LOG_ACCESS_DISABLED'' 403)
     else if aa_role c = TenantMaster
             \<and> (rq_policyField rq = Some ''masterLogAccess'' \<or> rq_policyField rq = Some ''grossQuotaBytes'')
     then Inl (authorizationError ''POLICY_FIELD_DENIED'' 403)
     else Inr \<lparr>de_tenantId = aa_tenantId c, de_actorId = aa_actorId c, de_actorRole = aa_role c,
               de_targetUserId = target, de_permission = p, de_resource = rq_resource rq,
               de_content = wants, de_policyField = rq_policyField rq\<rparr>)))"

definition canAuthorize :: "jsval \<Rightarrow> authorization_request \<Rightarrow> bool" where
  "canAuthorize actor rq = is_ok (authorize actor rq)"

definition isContentResource :: "jsval \<Rightarrow> bool" where
  "isContentResource v = (case v of JStr s \<Rightarrow> s \<in> set CONTENT_RESOURCES | _ \<Rightarrow> False)"

lemmas rbac_defs [code_defs] = normalizeActor_def assertSafeActorId_def assertSafeUserId_def
  authorizationError_def permission_name_ok_def assertPermission_def targetMatchesActor_def
  isContentRequest_def canDelegateContent_def assertAdminActor_def authorize_def
  canAuthorize_def default_request_def nullish_def js_or_else_def

subsection \<open>Actors\<close>

definition actor_js :: "admin_actor \<Rightarrow> jsval" where \<comment> \<open>the frozen actor as a value again\<close>
  "actor_js a = JObj [(''tenantId'', JStr (aa_tenantId a)), (''domain'', JStr (aa_domain a)),
     (''actorId'', JStr (aa_actorId a)), (''userId'', opt_js (aa_userId a)),
     (''role'', JStr (role_name (aa_role a)))]"

definition canonical_actor :: "admin_actor \<Rightarrow> bool" where
  "canonical_actor a \<longleftrightarrow> tenant_id_ok (aa_tenantId a) \<and> domain_ok (aa_domain a)
     \<and> lower (aa_domain a) = aa_domain a \<and> actor_id_ok (aa_actorId a)
     \<and> aa_userId a = (if aa_role a = UserRole then Some (aa_actorId a) else None)"

lemma assertSafeUserId_Inr [simp]: "assertSafeUserId v = Inr s \<longleftrightarrow> v = JStr s \<and> actor_id_ok s"
  by (auto simp: assertSafeUserId_def split: jsval.splits)

lemma assertSafeActorId_Inr [simp]: "assertSafeActorId v = Inr s \<longleftrightarrow> v = JStr s \<and> actor_id_ok s"
  by (auto simp: assertSafeActorId_def split: jsval.splits)

lemma assertPermission_Inr [simp]: "assertPermission v = Inr s \<longleftrightarrow> v = JStr s \<and> permission_name_ok s"
  by (auto simp: assertPermission_def split: jsval.splits)

lemma role_name_admin [simp]: "role_name r \<in> set ADMIN_ROLES"
  by (cases r) (simp_all add: role_name_def ADMIN_ROLES_def)

lemma normalizeActor_InrE:
  assumes "normalizeActor v = Inr a"
  obtains c where "assertTenantContext v = Inr c" "aa_tenantId a = tc_tenantId c"
    "aa_domain a = tc_domain c" "aa_role a = tc_role c"
    "js_or_else (opt_js (tc_actorId c)) (jget v ''userId'') = JStr (aa_actorId a)"
    "actor_id_ok (aa_actorId a)"
    "aa_userId a = (if tc_role c = UserRole then Some (aa_actorId a) else None)"
  using assms
  by (auto simp: normalizeActor_def split: if_splits sum.splits)

lemma normalizeActor_canonical: "normalizeActor v = Inr a \<Longrightarrow> canonical_actor a"
  by (erule normalizeActor_InrE)
     (auto simp: canonical_actor_def canonical_context_def dest!: assertTenantContext_canonical)

lemma normalizeActor_actor_js [simp]:
  assumes "canonical_actor a" shows "normalizeActor (actor_js a) = Inr a"
proof -
  let ?c = "\<lparr>tc_tenantId = aa_tenantId a, tc_domain = aa_domain a,
    tc_actorId = Some (aa_actorId a), tc_role = aa_role a\<rparr>"
  have "assertTenantContext (actor_js a) = Inr ?c"
    using assms by (intro assertTenantContext_ok)
      (auto simp: canonical_context_def canonical_actor_def actor_js_def opt_js_def)
  then show ?thesis using assms
    by (cases a) (auto simp: normalizeActor_def actor_js_def canonical_actor_def js_or_else_def
        nullish_def opt_js_def)
qed

lemma canonical_actor_ids: "canonical_actor a \<Longrightarrow> actor_id_ok (aa_actorId a)"
  by (simp add: canonical_actor_def)

subsection \<open>What a decision guarantees\<close>

lemma authorize_InrE:
  assumes "authorize v rq = Inr d"
  obtains c p where "normalizeActor v = Inr c" "rq_permission rq = JStr p"
    "p \<in> set (PERMISSION_MATRIX (aa_role c))"
    "de_tenantId d = aa_tenantId c" "de_actorId d = aa_actorId c" "de_actorRole d = aa_role c"
    "de_permission d = p" "de_resource d = rq_resource rq" "de_policyField d = rq_policyField rq"
    "de_content d = isContentRequest p (rq_resource rq) (rq_content rq)"
    "rq_targetTenantId rq = JUndef \<or> rq_targetTenantId rq = JStr (aa_tenantId c)"
    "aa_role c \<noteq> UserRole \<Longrightarrow> \<not> isContentRequest p (rq_resource rq) (rq_content rq)"
    "nullish (rq_targetUserId rq) \<and> de_targetUserId d = aa_userId c
     \<or> (\<exists>u. rq_targetUserId rq = JStr u \<and> de_targetUserId d = Some u)"
    "aa_role c = UserRole \<Longrightarrow> targetMatchesActor c (de_targetUserId d)
       \<or> canDelegateContent c (de_targetUserId d) p (rq_delegationStore rq)"
    "aa_role c = TenantMaster \<Longrightarrow> (p = ''audit.read'' \<or> p = ''log.read'') \<Longrightarrow> rq_masterLogAccess rq"
    "aa_role c = TenantMaster \<Longrightarrow> rq_policyField rq \<noteq> Some ''masterLogAccess''
       \<and> rq_policyField rq \<noteq> Some ''grossQuotaBytes''"
proof -
  from assms obtain c p user where c: "normalizeActor v = Inr c" and p: "rq_permission rq = JStr p"
    and user: "(if nullish (rq_targetUserId rq) then Inr None
       else bindE (assertSafeUserId (rq_targetUserId rq)) (\<lambda>u. Inr (Some u))) = Inr user"
    and rest: "authorize v rq = Inr d"
    unfolding authorize_def by auto
  let ?w = "isContentRequest p (rq_resource rq) (rq_content rq)"
  let ?t = "case user of None \<Rightarrow> aa_userId c | Some u \<Rightarrow> Some u"
  have pok: "permission_name_ok p" using assms p unfolding authorize_def by auto
  have tenant: "js_default (rq_targetTenantId rq) (JStr (aa_tenantId c)) = JStr (aa_tenantId c)"
    and admin: "aa_role c \<noteq> UserRole \<Longrightarrow> \<not> ?w"
    and perm: "p \<in> set (PERMISSION_MATRIX (aa_role c))"
    and scope: "aa_role c = UserRole \<Longrightarrow> targetMatchesActor c ?t
       \<or> canDelegateContent c ?t p (rq_delegationStore rq)"
    and log: "aa_role c = TenantMaster \<Longrightarrow> (p = ''audit.read'' \<or> p = ''log.read'') \<Longrightarrow> rq_masterLogAccess rq"
    and field: "aa_role c = TenantMaster \<Longrightarrow> rq_policyField rq \<noteq> Some ''masterLogAccess''
       \<and> rq_policyField rq \<noteq> Some ''grossQuotaBytes''"
    and d: "d = \<lparr>de_tenantId = aa_tenantId c, de_actorId = aa_actorId c, de_actorRole = aa_role c,
       de_targetUserId = ?t, de_permission = p, de_resource = rq_resource rq,
       de_content = ?w, de_policyField = rq_policyField rq\<rparr>"
    using rest unfolding authorize_def Let_def c p user assertPermission_def
    by (simp_all add: pok split: if_split_asm)
  have "nullish (rq_targetUserId rq) \<and> ?t = aa_userId c
     \<or> (\<exists>u. rq_targetUserId rq = JStr u \<and> ?t = Some u)"
    using user by (auto split: if_splits)
  with that [of c p] c p tenant admin perm scope log field d show ?thesis
    by (simp add: js_default_def split: if_split_asm)
qed

lemma authorize_decision_content:
  assumes "authorize v rq = Inr d" "de_content d" shows "de_actorRole d = UserRole"
  using assms by (auto elim!: authorize_InrE)

lemma authorize_permission:
  assumes "authorize v rq = Inr d" "normalizeActor v = Inr c" "rq_permission rq = JStr p"
  shows "p \<in> set (PERMISSION_MATRIX (aa_role c))"
  using assms(1) by (rule authorize_InrE) (use assms(2,3) in simp)

lemma content_permission_not_admin:
  "r \<noteq> UserRole \<Longrightarrow> set (PERMISSION_MATRIX r) \<inter> set CONTENT_PERMISSIONS = {}"
  by (cases r) (simp_all add: permission_tables)

text \<open>An administrative request (no content, no protected field) by an actor whose role has the
  permission succeeds; the other components use it to run the checks they make.\<close>

lemma authorize_admin_ok:
  assumes "canonical_actor c" "permission_name_ok p" "p \<in> set (PERMISSION_MATRIX (aa_role c))"
    "aa_role c \<noteq> UserRole" "\<not> isContentRequest p r False"
    "aa_role c = TenantMaster \<Longrightarrow> p \<noteq> ''audit.read'' \<and> p \<noteq> ''log.read''"
    "nullish t \<or> (\<exists>u. t = JStr u \<and> actor_id_ok u)"
  shows "is_ok (authorize (actor_js c)
     (default_request\<lparr>rq_permission := JStr p, rq_targetUserId := t, rq_resource := r\<rparr>))"
  using assms
  by (auto simp: authorize_def default_request_def Let_def js_default_def assertPermission_def
      assertSafeUserId_def nullish_def)

subsection \<open>The contract of a delegation store\<close>

text \<open>
  What \<open>authorize\<close> relies on from the store it is handed: an answer \<open>true\<close> for another owner means
  that the store holds a grant of that permission, in the actor's tenant, to that user.
\<close>

locale delegation_contract =
  fixes can_access :: delegation_access
    and granted :: "string \<Rightarrow> string \<Rightarrow> string \<Rightarrow> string \<Rightarrow> bool" \<comment> \<open>tenant, owner, delegate, permission\<close>
  assumes answers_only_grants:
    "\<lbrakk>canonical_actor a; aa_userId a = Some u; u \<noteq> owner; can_access a (Some owner) p = Some True\<rbrakk>
     \<Longrightarrow> granted (aa_tenantId a) owner u p"
begin

lemma other_users_content_needs_a_grant:
  assumes "authorize v rq = Inr d" "rq_delegationStore rq = Some can_access"
    "de_actorRole d = UserRole" "de_targetUserId d = Some owner" "owner \<noteq> de_actorId d"
  shows "de_permission d \<in> set CONTENT_PERMISSIONS
    \<and> granted (de_tenantId d) owner (de_actorId d)
        (if de_permission d = ''content.write'' then ''write'' else ''read'')"
  using assms(1)
proof (rule authorize_InrE)
  fix c p
  assume c: "normalizeActor v = Inr c"
    and d: "de_tenantId d = aa_tenantId c" "de_actorId d = aa_actorId c" "de_actorRole d = aa_role c"
      "de_permission d = p"
    and scope: "aa_role c = UserRole \<Longrightarrow> targetMatchesActor c (de_targetUserId d)
       \<or> canDelegateContent c (de_targetUserId d) p (rq_delegationStore rq)"
  have can: "canonical_actor c" using c by (rule normalizeActor_canonical)
  have u: "aa_userId c = Some (aa_actorId c)" using can d assms(3) by (simp add: canonical_actor_def)
  have "canDelegateContent c (Some owner) p (Some can_access)"
    using scope d u assms by (auto simp: targetMatchesActor_def)
  then show ?thesis
    using answers_only_grants [OF can u] assms(5) d by (auto simp: canDelegateContent_def)
qed

end

subsection \<open>Example actors\<close>

definition example_actor :: "role \<Rightarrow> string \<Rightarrow> jsval" where \<comment> \<open>used by the closed instances\<close>
  "example_actor r a = JObj [(''tenantId'', JStr ''t1''), (''domain'', JStr ''t1.test''),
     (''actorId'', JStr a), (''role'', JStr (role_name r))]"

end
