(* ===== verification/Quota.thy ===== *)
theory Quota
  imports Rbac
begin

section \<open>The quota ledger\<close>

text \<open>
  \<open>src/core/admin/quota.ts\<close>: the tenant's gross quota, the allocation and the usage of each user,
  and the reservations that delivery makes before it acknowledges a message.  The closure
  variables of \<open>createQuotaLedger\<close> are the record \<open>ledger\<close>; an operation returns its result and the
  new ledger, and an operation that throws returns the ledger it left behind.
\<close>

record reservation =
  rv_tenantId :: string
  rv_userId :: string
  rv_sizeBytes :: int
  rv_released :: bool

record ledger =
  lg_tenantId :: string
  lg_gross :: int
  lg_allocations :: "(string \<times> int) list"
  lg_usage :: "(string \<times> int) list"
  lg_sequence :: nat
  lg_reservations :: "(string \<times> reservation) list"

record allocation =
  al_userId :: string
  al_allocatedQuotaBytes :: int
  al_usedBytes :: int
  al_remainingBytes :: int

record quota_snapshot =
  sn_tenantId :: string
  sn_grossQuotaBytes :: int
  sn_allocatedQuotaBytes :: int
  sn_remainingQuotaBytes :: int
  sn_users :: "allocation list"

datatype reserve_result =
    Reserved (reserved_id: string) (reserved_user: string) (reserved_size: int)
  | NotReserved (refuse_reason: string) (refused_user: string)

datatype release_result = Released string | AlreadyReleased string

subsection \<open>Checks\<close>

definition quotaError :: "string \<Rightarrow> nat \<Rightarrow> err" where
  "quotaError code status = Err QuotaErr code status"

definition assertBytes :: "bool \<Rightarrow> jsval \<Rightarrow> int res" where
  "assertBytes positive v = (case v of JInt n \<Rightarrow>
       if is_safe_int n \<and> (if positive then 0 < n else 0 \<le> n) then Inr n
       else Inl (quotaError ''INVALID_QUOTA'' 400)
     | _ \<Rightarrow> Inl (quotaError ''INVALID_QUOTA'' 400))"

definition assertTenantId :: "jsval \<Rightarrow> string res" where
  "assertTenantId v = (case v of JStr s \<Rightarrow>
       if tenant_id_ok s then Inr s else Inl (quotaError ''INVALID_TENANT'' 400)
     | _ \<Rightarrow> Inl (quotaError ''INVALID_TENANT'' 400))"

definition cloneAllocation :: "string \<Rightarrow> int \<Rightarrow> int \<Rightarrow> allocation" where
  "cloneAllocation u allocated used = \<lparr>al_userId = u, al_allocatedQuotaBytes = allocated,
     al_usedBytes = used, al_remainingBytes = allocated - used\<rparr>"

definition get0 :: "(string \<times> int) list \<Rightarrow> string \<Rightarrow> int" where \<comment> \<open>\<open>m.get(k) ?? 0\<close>\<close>
  "get0 m k = (case map_of m k of None \<Rightarrow> 0 | Some n \<Rightarrow> n)"

text \<open>The running total, checked after every addition.\<close>

fun sum_checked :: "int \<Rightarrow> string option \<Rightarrow> (string \<times> int) list \<Rightarrow> int res" where
  "sum_checked acc ex [] = Inr acc"
| "sum_checked acc ex ((u, n) # m) =
     (if Some u = ex then sum_checked acc ex m
      else if \<not> is_safe_int (acc + n) then Inl (quotaError ''QUOTA_OVERFLOW'' 500)
      else sum_checked (acc + n) ex m)"

definition totalAllocated :: "ledger \<Rightarrow> string option \<Rightarrow> int res" where
  "totalAllocated l ex = sum_checked 0 ex (lg_allocations l)"

definition assertSameTenant :: "ledger \<Rightarrow> jsval \<Rightarrow> tenant_context res" where
  "assertSameTenant l ctx = (case assertTenantContext ctx of
       Inl _ \<Rightarrow> Inl (quotaError ''AUTHENTICATION_REQUIRED'' 401)
     | Inr c \<Rightarrow> if tc_tenantId c \<noteq> lg_tenantId l then Inl (quotaError ''CROSS_TENANT_DENIED'' 403) else Inr c)"

definition assertLedgerTenant :: "ledger \<Rightarrow> admin_actor \<Rightarrow> admin_actor res" where
  "assertLedgerTenant l a =
     (if aa_tenantId a \<noteq> lg_tenantId l then Inl (quotaError ''CROSS_TENANT_DENIED'' 403) else Inr a)"

definition requireKnownUser :: "ledger \<Rightarrow> jsval \<Rightarrow> string res" where
  "requireKnownUser l v = bindE (assertSafeUserId v) (\<lambda>u.
     if map_of (lg_allocations l) u = None then Inl (quotaError ''NOT_FOUND'' 404) else Inr u)"

definition setAllocation :: "ledger \<Rightarrow> string \<Rightarrow> jsval \<Rightarrow> ledger res" where
  "setAllocation l u v =
     bindE (assertBytes False v) (\<lambda>n.
     bindE (totalAllocated l (Some u)) (\<lambda>others.
     if \<not> is_safe_int (others + n) then Inl (quotaError ''QUOTA_OVERFLOW'' 500)
     else if lg_gross l < others + n then Inl (quotaError ''QUOTA_EXCEEDED'' 409)
     else Inr (l\<lparr>lg_allocations := AList.update u n (lg_allocations l),
                lg_usage := (if map_of (lg_usage l) u = None then AList.update u 0 (lg_usage l)
                             else lg_usage l)\<rparr>)))"

definition ledger_actor :: "ledger \<Rightarrow> jsval \<Rightarrow> admin_actor res" where
  "ledger_actor l actor = bindE (assertAdminActor actor) (assertLedgerTenant l)"

subsection \<open>Creation\<close>

definition addInitialUser :: "ledger \<Rightarrow> jsval \<Rightarrow> ledger res" where
  "addInitialUser l v =
     (if \<not> is_object v \<or> (case v of JArr _ \<Rightarrow> True | _ \<Rightarrow> False) then Inl (quotaError ''INVALID_USER'' 400)
      else bindE (assertSafeUserId (jget v ''userId'')) (\<lambda>u.
           if map_of (lg_allocations l) u \<noteq> None then Inl (quotaError ''CONFLICT'' 409)
           else bindE (setAllocation l u (js_or_else (jget v ''allocatedQuotaBytes'') (JInt 0))) (\<lambda>l1.
                bindE (assertBytes False (js_or_else (jget v ''usedBytes'') (JInt 0))) (\<lambda>used.
                if get0 (lg_allocations l1) u < used then Inl (quotaError ''INVALID_USAGE'' 400)
                else Inr (l1\<lparr>lg_usage := AList.update u used (lg_usage l1)\<rparr>)))))"

fun addInitialUsers :: "ledger \<Rightarrow> jsval list \<Rightarrow> ledger res" where
  "addInitialUsers l [] = Inr l"
| "addInitialUsers l (v # vs) = bindE (addInitialUser l v) (\<lambda>l1. addInitialUsers l1 vs)"

definition createQuotaLedger :: "jsval \<Rightarrow> jsval \<Rightarrow> jsval list \<Rightarrow> ledger res" where
  "createQuotaLedger tenantId grossQuotaBytes initialUsers =
     bindE (assertTenantId tenantId) (\<lambda>t.
     bindE (assertBytes True grossQuotaBytes) (\<lambda>g.
     addInitialUsers \<lparr>lg_tenantId = t, lg_gross = g, lg_allocations = [], lg_usage = [],
        lg_sequence = 0, lg_reservations = []\<rparr> initialUsers))"

subsection \<open>Operations\<close>

definition read :: "ledger \<Rightarrow> jsval \<Rightarrow> jsval \<Rightarrow> allocation res" where
  "read l actor userId =
     bindE (ledger_actor l actor) (\<lambda>c.
     bindE (requireKnownUser l (if userId = JUndef then opt_js (aa_userId c) else userId)) (\<lambda>u.
     bindE (authorize (actor_js c) (default_request\<lparr>rq_permission := JStr ''quota.read'',
              rq_targetUserId := JStr u, rq_resource := Some ''quota''\<rparr>)) (\<lambda>_.
     Inr (cloneAllocation u (get0 (lg_allocations l) u) (get0 (lg_usage l) u)))))"

definition registerUser :: "ledger \<Rightarrow> jsval \<Rightarrow> jsval \<Rightarrow> jsval \<Rightarrow> allocation res \<times> ledger" where
  "registerUser l actor userId allocated =
     liftE (ledger_actor l actor) l (\<lambda>c.
     liftE (assertSafeUserId userId) l (\<lambda>u.
     liftE (authorize (actor_js c) (default_request\<lparr>rq_permission := JStr ''user.manage'',
              rq_targetUserId := JStr u\<rparr>)) l (\<lambda>_.
     if map_of (lg_allocations l) u \<noteq> None then (Inl (quotaError ''CONFLICT'' 409), l)
     else liftE (setAllocation l u (js_default allocated (JInt 0))) l (\<lambda>l1.
          (read l1 (actor_js c) (JStr u), l1)))))"

definition allocate :: "ledger \<Rightarrow> jsval \<Rightarrow> jsval \<Rightarrow> jsval \<Rightarrow> allocation res \<times> ledger" where
  "allocate l actor userId allocated =
     liftE (ledger_actor l actor) l (\<lambda>c.
     liftE (requireKnownUser l userId) l (\<lambda>u.
     liftE (authorize (actor_js c) (default_request\<lparr>rq_permission := JStr ''quota.manage'',
              rq_targetUserId := JStr u, rq_resource := Some ''quota''\<rparr>)) l (\<lambda>_.
     liftE (assertBytes False allocated) l (\<lambda>requested.
     if requested < get0 (lg_usage l) u then (Inl (quotaError ''ALLOCATION_BELOW_USAGE'' 409), l)
     else liftE (setAllocation l u (JInt requested)) l (\<lambda>l1.
          (read l1 (actor_js c) (JStr u), l1))))))"

definition snapshot :: "ledger \<Rightarrow> jsval \<Rightarrow> quota_snapshot res" where
  "snapshot l actor =
     bindE (ledger_actor l actor) (\<lambda>c.
     bindE (authorize (actor_js c) (default_request\<lparr>rq_permission := JStr ''quota.read'',
              rq_resource := Some ''quota''\<rparr>)) (\<lambda>_.
     bindE (totalAllocated l None) (\<lambda>total.
     Inr \<lparr>sn_tenantId = lg_tenantId l, sn_grossQuotaBytes = lg_gross l,
          sn_allocatedQuotaBytes = total, sn_remainingQuotaBytes = lg_gross l - total,
          sn_users = map (\<lambda>u. cloneAllocation u (get0 (lg_allocations l) u) (get0 (lg_usage l) u))
            (sort_by str_le (keys (lg_allocations l)))\<rparr>)))"

definition reservation_id :: "nat \<Rightarrow> string" where
  "reservation_id n = ''quota-'' @ pad8 n"

definition reserve :: "ledger \<Rightarrow> jsval \<Rightarrow> jsval \<Rightarrow> jsval \<Rightarrow> reserve_result res \<times> ledger" where
  "reserve l ctx userId sizeBytes =
     liftE (assertSameTenant l ctx) l (\<lambda>_.
     liftE (requireKnownUser l userId) l (\<lambda>u.
     liftE (assertBytes False (js_default sizeBytes (JInt 0))) l (\<lambda>size.
     let used = get0 (lg_usage l) u; allocated = get0 (lg_allocations l) u in
     if allocated - used < size then (Inr (NotReserved ''quota_exceeded'' u), l)
     else if \<not> is_safe_int (used + size) then (Inr (NotReserved ''quota_overflow'' u), l)
     else let n = Suc (lg_sequence l); rid = reservation_id n in
       (Inr (Reserved rid u size),
        l\<lparr>lg_usage := AList.update u (used + size) (lg_usage l), lg_sequence := n,
          lg_reservations := AList.update rid
            \<lparr>rv_tenantId = lg_tenantId l, rv_userId = u, rv_sizeBytes = size, rv_released = False\<rparr> (lg_reservations l)\<rparr>))))"

text \<open>\<open>/^quota-[0-9]{8}$/\<close>: exactly eight digits, while \<open>padStart\<close> only gives at least eight.\<close>

definition reservation_id_ok :: "string \<Rightarrow> bool" where
  "reservation_id_ok s \<longleftrightarrow> take 6 s = ''quota-'' \<and> length (drop 6 s) = 8 \<and> list_all is_digit (drop 6 s)"

definition release :: "ledger \<Rightarrow> jsval \<Rightarrow> jsval \<Rightarrow> release_result res \<times> ledger" where
  "release l ctx rid =
     liftE (assertSameTenant l ctx) l (\<lambda>_.
     case rid of
       JStr s \<Rightarrow>
         if \<not> reservation_id_ok s then (Inl (quotaError ''INVALID_RESERVATION'' 400), l)
         else (case map_of (lg_reservations l) s of
             None \<Rightarrow> (Inl (quotaError ''NOT_FOUND'' 404), l)
           | Some r \<Rightarrow>
               if rv_tenantId r \<noteq> lg_tenantId l then (Inl (quotaError ''NOT_FOUND'' 404), l)
               else if rv_released r then (Inr (AlreadyReleased s), l)
               else (Inr (Released s),
                 l\<lparr>lg_usage := AList.update (rv_userId r)
                     (max 0 (get0 (lg_usage l) (rv_userId r) - rv_sizeBytes r)) (lg_usage l),
                   lg_reservations := AList.update s (r\<lparr>rv_released := True\<rparr>) (lg_reservations l)\<rparr>))
     | _ \<Rightarrow> (Inl (quotaError ''INVALID_RESERVATION'' 400), l))"

definition grossQuota :: "ledger \<Rightarrow> int" where
  "grossQuota l = lg_gross l"

lemmas quota_defs [code_defs] = quotaError_def assertBytes_def assertTenantId_def cloneAllocation_def
  get0_def totalAllocated_def assertSameTenant_def assertLedgerTenant_def requireKnownUser_def
  setAllocation_def ledger_actor_def addInitialUser_def createQuotaLedger_def read_def
  registerUser_def allocate_def snapshot_def reservation_id_def reserve_def reservation_id_ok_def
  release_def grossQuota_def

subsection \<open>The invariant\<close>

definition outstanding_of :: "(string \<times> reservation) list \<Rightarrow> string \<Rightarrow> int" where
  "outstanding_of rs u = sum_list (map (\<lambda>(k, r).
     if rv_userId r = u \<and> \<not> rv_released r then rv_sizeBytes r else 0) rs)"

definition outstanding :: "ledger \<Rightarrow> string \<Rightarrow> int" where
  "outstanding l u = outstanding_of (lg_reservations l) u"

definition total_of :: "(string \<times> int) list \<Rightarrow> int" where
  "total_of m = sum_list (map snd m)"

definition domains_ok :: "ledger \<Rightarrow> bool" where
  "domains_ok l \<longleftrightarrow> (\<forall>u. (map_of (lg_usage l) u = None) = (map_of (lg_allocations l) u = None))"

definition bounds_ok :: "ledger \<Rightarrow> bool" where
  "bounds_ok l \<longleftrightarrow> (\<forall>u. outstanding l u \<le> get0 (lg_usage l) u \<and> get0 (lg_usage l) u \<le> get0 (lg_allocations l) u)"

definition reservation_ok :: "ledger \<Rightarrow> string \<Rightarrow> reservation \<Rightarrow> bool" where
  "reservation_ok l k r \<longleftrightarrow> (\<exists>n. 0 < n \<and> n \<le> lg_sequence l \<and> k = reservation_id n)
     \<and> 0 \<le> rv_sizeBytes r \<and> rv_tenantId r = lg_tenantId l
     \<and> map_of (lg_allocations l) (rv_userId r) \<noteq> None"

definition reservations_ok :: "ledger \<Rightarrow> bool" where
  "reservations_ok l \<longleftrightarrow> distinct (map fst (lg_reservations l))
     \<and> (\<forall>(k, r)\<in>set (lg_reservations l). reservation_ok l k r)"

definition allocations_ok :: "ledger \<Rightarrow> bool" where
  "allocations_ok l \<longleftrightarrow> distinct (map fst (lg_allocations l)) \<and> (\<forall>(u, n)\<in>set (lg_allocations l). 0 \<le> n)
     \<and> total_of (lg_allocations l) \<le> lg_gross l"

definition ledger_ok :: "ledger \<Rightarrow> bool" where
  "ledger_ok l \<longleftrightarrow> 0 < lg_gross l \<and> lg_gross l \<le> max_safe \<and> allocations_ok l \<and> domains_ok l
     \<and> bounds_ok l \<and> reservations_ok l"

lemma ledger_okD:
  assumes "ledger_ok l"
  shows "0 < lg_gross l" "lg_gross l \<le> max_safe" "allocations_ok l" "domains_ok l" "bounds_ok l"
    "reservations_ok l" "distinct (map fst (lg_allocations l))" "distinct (map fst (lg_reservations l))"
    "\<forall>(k, r)\<in>set (lg_reservations l). 0 \<le> rv_sizeBytes r"
    "outstanding l u \<le> get0 (lg_usage l) u" "get0 (lg_usage l) u \<le> get0 (lg_allocations l) u"
    "map_of (lg_allocations l) u = None \<Longrightarrow> map_of (lg_usage l) u = None"
    "total_of (lg_allocations l) \<le> lg_gross l"
  using assms
  by (auto simp: ledger_ok_def allocations_ok_def reservations_ok_def bounds_ok_def domains_ok_def
      reservation_ok_def)

lemma reservation_id_inject [simp]: "reservation_id m = reservation_id n \<longleftrightarrow> m = n"
  by (simp add: reservation_id_def)

lemma reservation_id_ok_iff: "reservation_id_ok (reservation_id n) \<longleftrightarrow> n < 100000000"
proof -
  have "drop 6 (reservation_id n) = pad8 n" and "take 6 (reservation_id n) = ''quota-''"
    by (simp_all add: reservation_id_def)
  then show ?thesis by (simp add: reservation_id_ok_def pad8_length pad8_digits)
qed

lemma assertBytes_Inr [simp]:
  "assertBytes pos v = Inr n \<longleftrightarrow> v = JInt n \<and> is_safe_int n \<and> (if pos then 0 < n else 0 \<le> n)"
  by (auto simp: assertBytes_def split: jsval.splits)

lemma get0_update [simp]: "get0 (AList.update u n m) v = (if v = u then n else get0 m v)"
  by (simp add: get0_def)

lemma total_of_nonneg: "\<forall>(u, n)\<in>set m. 0 \<le> n \<Longrightarrow> 0 \<le> total_of m"
  by (induction m) (auto simp: total_of_def)

lemma total_of_update:
  "total_of (AList.update u n m) = total_of m - get0 m u + n"
proof (cases "map_of m u")
  case None
  then show ?thesis using sum_list_update_new [of m u snd n] by (simp add: total_of_def get0_def)
next
  case (Some w)
  then show ?thesis using sum_list_update_old [of m u w snd n] by (simp add: total_of_def get0_def)
qed

lemma get0_le_total: "\<forall>(u, n)\<in>set m. 0 \<le> n \<Longrightarrow> get0 m u \<le> total_of m"
proof (induction m)
  case Nil
  then show ?case by (simp add: get0_def total_of_def)
next
  case (Cons p m)
  then show ?case using total_of_nonneg [of m]
    by (cases p) (auto simp: get0_def total_of_def split: if_splits option.splits)
qed

lemma sum_checked_Inr:
  "sum_checked acc ex m = Inr s \<Longrightarrow> distinct (map fst m) \<Longrightarrow>
   s = acc + total_of m - (case ex of None \<Rightarrow> 0 | Some u \<Rightarrow> get0 m u)"
proof (induction acc ex m rule: sum_checked.induct)
  case (1 acc ex)
  then show ?case by (simp add: total_of_def get0_def split: option.splits)
next
  case (2 acc ex u n m)
  have "map_of m u = None" using "2.prems"(2) by (simp add: map_of_eq_None_iff)
  then have "get0 m u = 0" by (simp add: get0_def)
  with 2 show ?case
    by (cases "Some u = ex") (auto simp: total_of_def get0_def split: if_splits option.splits)
qed

lemma sum_checked_ok:
  "\<forall>(u, n)\<in>set m. 0 \<le> n \<Longrightarrow> 0 \<le> acc \<Longrightarrow> acc + total_of m \<le> max_safe \<Longrightarrow> \<exists>s. sum_checked acc ex m = Inr s"
proof (induction acc ex m rule: sum_checked.induct)
  case (1 acc ex)
  then show ?case by simp
next
  case (2 acc ex u n m)
  have "0 \<le> total_of m" using "2.prems"(1) by (intro total_of_nonneg) auto
  with 2 show ?case by (auto simp: total_of_def is_safe_int_def max_safe_def)
qed

lemma outstanding_update_new:
  "map_of rs k = None \<Longrightarrow> outstanding_of (AList.update k r rs) u =
   outstanding_of rs u + (if rv_userId r = u \<and> \<not> rv_released r then rv_sizeBytes r else 0)"
  unfolding outstanding_of_def
  using sum_list_update_new [of rs k "\<lambda>(k, r). if rv_userId r = u \<and> \<not> rv_released r then rv_sizeBytes r else 0" r]
  by simp

lemma outstanding_update_old:
  "map_of rs k = Some w \<Longrightarrow> outstanding_of (AList.update k r rs) u =
   outstanding_of rs u - (if rv_userId w = u \<and> \<not> rv_released w then rv_sizeBytes w else 0)
     + (if rv_userId r = u \<and> \<not> rv_released r then rv_sizeBytes r else 0)"
  unfolding outstanding_of_def
  using sum_list_update_old [of rs k w "\<lambda>(k, r). if rv_userId r = u \<and> \<not> rv_released r then rv_sizeBytes r else 0" r]
  by simp

subsection \<open>Every operation keeps the invariant\<close>

lemma setAllocation_InrE:
  assumes "setAllocation l u v = Inr l1" "distinct (map fst (lg_allocations l))"
  obtains n where "v = JInt n" "0 \<le> n" "total_of (AList.update u n (lg_allocations l)) \<le> lg_gross l"
    "l1 = l\<lparr>lg_allocations := AList.update u n (lg_allocations l),
       lg_usage := (if map_of (lg_usage l) u = None then AList.update u 0 (lg_usage l) else lg_usage l)\<rparr>"
proof -
  from assms(1) obtain n others where v: "v = JInt n" "0 \<le> n"
    and others: "totalAllocated l (Some u) = Inr others" and le: "others + n \<le> lg_gross l"
    and l1: "l1 = l\<lparr>lg_allocations := AList.update u n (lg_allocations l),
       lg_usage := (if map_of (lg_usage l) u = None then AList.update u 0 (lg_usage l) else lg_usage l)\<rparr>"
    unfolding setAllocation_def by (auto split: if_split_asm)
  have "others = total_of (lg_allocations l) - get0 (lg_allocations l) u"
    using sum_checked_Inr [OF others [unfolded totalAllocated_def] assms(2)] by simp
  with le have tot: "total_of (AList.update u n (lg_allocations l)) \<le> lg_gross l"
    by (simp add: total_of_update)
  from v tot l1 show ?thesis by (rule that)
qed

lemma ledger_ok_setAllocation:
  assumes ok: "ledger_ok l" and set: "setAllocation l u (JInt n) = Inr l1" and ge: "get0 (lg_usage l) u \<le> n"
  shows "ledger_ok l1"
proof -
  note d = ledger_okD(7) [OF ok]
  obtain m where m: "JInt n = JInt m" "0 \<le> m"
    and tot: "total_of (AList.update u m (lg_allocations l)) \<le> lg_gross l"
    and l1: "l1 = l\<lparr>lg_allocations := AList.update u m (lg_allocations l),
       lg_usage := (if map_of (lg_usage l) u = None then AList.update u 0 (lg_usage l) else lg_usage l)\<rparr>"
    by (rule setAllocation_InrE [OF set d])
  have use: "get0 (lg_usage l1) w = get0 (lg_usage l) w" for w
    by (simp add: l1 get0_def)
  have "allocations_ok l1"
    using ledger_okD(3) [OF ok] tot m
    by (auto simp: allocations_ok_def l1 set_update_alist [OF d])
  moreover have "domains_ok l1" using ledger_okD(4) [OF ok] by (simp add: domains_ok_def l1)
  moreover have "bounds_ok l1" unfolding bounds_ok_def use
    using ledger_okD(5) [OF ok] ge m by (simp add: bounds_ok_def l1 outstanding_def)
  moreover have "reservations_ok l1"
    using ledger_okD(6) [OF ok] by (fastforce simp: reservations_ok_def reservation_ok_def l1)
  ultimately show ?thesis using ledger_okD(1,2) [OF ok] by (simp add: ledger_ok_def l1)
qed

lemma requireKnownUser_Inr [simp]:
  "requireKnownUser l v = Inr u \<longleftrightarrow> v = JStr u \<and> actor_id_ok u \<and> map_of (lg_allocations l) u \<noteq> None"
  by (auto simp: requireKnownUser_def)

lemma ledger_ok_register:
  assumes ok: "ledger_ok l" and reg: "registerUser l actor u v = (r, l1)"
  shows "ledger_ok l1"
proof (cases "l1 = l")
  case True
  with ok show ?thesis by simp
next
  case False
  with reg obtain c w where new: "map_of (lg_allocations l) w = None"
    and set: "setAllocation l w (js_default v (JInt 0)) = Inr l1"
    unfolding registerUser_def by (auto elim!: liftE_cases split: if_split_asm)
  from set obtain n where n: "js_default v (JInt 0) = JInt n" "0 \<le> n"
    using ledger_okD(7) [OF ok] by (auto elim!: setAllocation_InrE)
  have "map_of (lg_usage l) w = None" using new by (rule ledger_okD(12) [OF ok])
  then have "get0 (lg_usage l) w = 0" by (simp add: get0_def)
  with n set show ?thesis by (intro ledger_ok_setAllocation [OF ok, of w n]) simp_all
qed

lemma ledger_ok_allocate:
  assumes ok: "ledger_ok l" and al: "allocate l actor u v = (r, l1)"
  shows "ledger_ok l1"
proof (cases "l1 = l")
  case True
  with ok show ?thesis by simp
next
  case False
  with al obtain w n where "get0 (lg_usage l) w \<le> n" "setAllocation l w (JInt n) = Inr l1"
    unfolding allocate_def by (auto simp: not_less elim!: liftE_cases split: if_split_asm)
  then show ?thesis by (intro ledger_ok_setAllocation [OF ok])
qed

lemma reserve_Reserved:
  assumes "reserve l ctx v sz = (Inr (Reserved rid u n), l1)"
  shows "v = JStr u" "0 \<le> n" "map_of (lg_allocations l) u \<noteq> None"
    "n \<le> get0 (lg_allocations l) u - get0 (lg_usage l) u"
    "rid = reservation_id (Suc (lg_sequence l))"
    "l1 = l\<lparr>lg_usage := AList.update u (get0 (lg_usage l) u + n) (lg_usage l),
       lg_sequence := Suc (lg_sequence l), lg_reservations := AList.update rid
         \<lparr>rv_tenantId = lg_tenantId l, rv_userId = u, rv_sizeBytes = n, rv_released = False\<rparr>
         (lg_reservations l)\<rparr>"
    "\<exists>c. assertSameTenant l ctx = Inr c"
  using assms unfolding reserve_def Let_def by (auto split: if_split_asm)

lemma reserve_other:
  assumes "reserve l ctx v sz = (r, l1)" "\<nexists>rid u size. r = Inr (Reserved rid u size)"
  shows "l1 = l"
  using assms unfolding reserve_def Let_def by (auto elim!: liftE_cases split: if_split_asm)

lemma assertSameTenant_cong:
  "lg_tenantId l' = lg_tenantId l \<Longrightarrow> assertSameTenant l' ctx = assertSameTenant l ctx"
  by (simp only: assertSameTenant_def)

lemma fresh_reservation:
  "ledger_ok l \<Longrightarrow> map_of (lg_reservations l) (reservation_id (Suc (lg_sequence l))) = None"
  by (auto simp: ledger_ok_def reservations_ok_def reservation_ok_def map_of_eq_None_iff)

lemma ledger_ok_reserve:
  assumes ok: "ledger_ok l" and rs: "reserve l ctx v sz = (r, l1)"
  shows "ledger_ok l1"
proof (cases "\<exists>rid u n. r = Inr (Reserved rid u n)")
  case False
  with rs have "l1 = l" by (intro reserve_other) auto
  with ok show ?thesis by simp
next
  case True
  then obtain rid u n where r: "r = Inr (Reserved rid u n)" by auto
  note res = reserve_Reserved [OF rs [unfolded r]]
  note d = ledger_okD(8) [OF ok]
  have out: "outstanding l1 w = outstanding l w + (if w = u then n else 0)" for w
    using fresh_reservation [OF ok] by (auto simp: res(5,6) outstanding_def outstanding_update_new)
  have "bounds_ok l1" unfolding bounds_ok_def out
    using ledger_okD(10,11) [OF ok] res(4) by (simp add: res(6))
  moreover have "reservations_ok l1"
    using ledger_okD(6) [OF ok] res(2,3,5)
    by (fastforce simp: res(6) reservations_ok_def reservation_ok_def set_update_alist [OF d])
  moreover have "domains_ok l1"
    using ledger_okD(4) [OF ok] res(3) by (simp add: res(6) domains_ok_def)
  ultimately show ?thesis using ledger_okD(1-3) [OF ok] by (simp add: ledger_ok_def allocations_ok_def res(6))
qed

lemma release_Released:
  assumes "release l ctx v = (Inr (Released s), l1)"
  obtains r where "v = JStr s" "map_of (lg_reservations l) s = Some r" "\<not> rv_released r"
    "l1 = l\<lparr>lg_usage := AList.update (rv_userId r)
        (max 0 (get0 (lg_usage l) (rv_userId r) - rv_sizeBytes r)) (lg_usage l),
      lg_reservations := AList.update s (r\<lparr>rv_released := True\<rparr>) (lg_reservations l)\<rparr>"
  using assms unfolding release_def by (auto split: if_split_asm jsval.splits option.splits)

lemma release_other:
  assumes "release l ctx v = (r, l1)" "\<nexists>s. r = Inr (Released s)" shows "l1 = l"
  using assms unfolding release_def
  by (auto elim!: liftE_cases split: if_split_asm jsval.splits option.splits)

lemma outstanding_nonneg:
  assumes "\<forall>(k, r)\<in>set rs. 0 \<le> rv_sizeBytes r" shows "0 \<le> outstanding_of rs u"
  unfolding outstanding_of_def using assms by (intro sum_list_nonneg) auto

lemma outstanding_ge:
  assumes "\<forall>(k, r)\<in>set rs. 0 \<le> rv_sizeBytes r" "map_of rs k = Some r" "\<not> rv_released r"
  shows "rv_sizeBytes r \<le> outstanding_of rs (rv_userId r)"
  using assms
proof (induction rs)
  case Nil
  then show ?case by simp
next
  case (Cons p rs)
  have "0 \<le> outstanding_of rs (rv_userId r)"
    using Cons.prems(1) by (intro outstanding_nonneg) auto
  with Cons show ?case
    by (cases p) (auto simp: outstanding_of_def split: if_splits)
qed

lemma ledger_ok_release:
  assumes ok: "ledger_ok l" and rl: "release l ctx v = (r, l1)"
  shows "ledger_ok l1"
proof (cases "\<exists>s. r = Inr (Released s)")
  case False
  with rl have "l1 = l" by (intro release_other) auto
  with ok show ?thesis by simp
next
  case True
  then obtain s where "r = Inr (Released s)" by auto
  then obtain rv where found: "map_of (lg_reservations l) s = Some rv" and nr: "\<not> rv_released rv"
    and l1: "l1 = l\<lparr>lg_usage := AList.update (rv_userId rv)
        (max 0 (get0 (lg_usage l) (rv_userId rv) - rv_sizeBytes rv)) (lg_usage l),
      lg_reservations := AList.update s (rv\<lparr>rv_released := True\<rparr>) (lg_reservations l)\<rparr>"
    using rl by (auto elim!: release_Released)
  note d = ledger_okD(8) [OF ok] and sizes = ledger_okD(9) [OF ok]
  have mem: "(s, rv) \<in> set (lg_reservations l)" using found by (rule map_of_in_set)
  then have rv: "reservation_ok l s rv" using ledger_okD(6) [OF ok] by (auto simp: reservations_ok_def)
  then have pos: "0 \<le> rv_sizeBytes rv" by (simp add: reservation_ok_def)
  have "rv_sizeBytes rv \<le> outstanding l (rv_userId rv)"
    unfolding outstanding_def by (rule outstanding_ge [OF sizes found nr])
  then have use: "get0 (lg_usage l1) w = get0 (lg_usage l) w - (if w = rv_userId rv then rv_sizeBytes rv else 0)" for w
    using ledger_okD(10) [OF ok, of "rv_userId rv"] by (auto simp: l1)
  have out: "outstanding l1 w = outstanding l w - (if w = rv_userId rv then rv_sizeBytes rv else 0)" for w
    using nr by (auto simp: l1 outstanding_def outstanding_update_old [OF found])
  have alloc: "lg_allocations l1 = lg_allocations l" by (simp add: l1)
  have "bounds_ok l1" unfolding bounds_ok_def out use alloc
    using ledger_okD(10,11) [OF ok] pos by (auto simp: diff_le_eq intro: add_increasing2)
  moreover have "reservations_ok l1"
    using ledger_okD(6) [OF ok] rv
    by (fastforce simp: l1 reservations_ok_def reservation_ok_def set_update_alist [OF d])
  moreover have "domains_ok l1"
    using ledger_okD(4) [OF ok] rv by (simp add: l1 domains_ok_def reservation_ok_def)
  ultimately show ?thesis using ledger_okD(1-3) [OF ok] by (simp add: ledger_ok_def allocations_ok_def l1)
qed

subsection \<open>Reachable ledgers\<close>

inductive ledger_step :: "ledger \<Rightarrow> ledger \<Rightarrow> bool" where
  register: "registerUser l actor u v = (r, l1) \<Longrightarrow> ledger_step l l1"
| allocate: "allocate l actor u v = (r, l1) \<Longrightarrow> ledger_step l l1"
| reserve: "reserve l ctx u v = (r, l1) \<Longrightarrow> ledger_step l l1"
| release: "release l ctx rid = (r, l1) \<Longrightarrow> ledger_step l l1"

lemma ledger_step_ok: "ledger_step l l1 \<Longrightarrow> ledger_ok l \<Longrightarrow> ledger_ok l1"
  by (induction rule: ledger_step.induct)
     (auto intro: ledger_ok_register ledger_ok_allocate ledger_ok_reserve ledger_ok_release)

lemma setAllocation_frame:
  "setAllocation l u v = Inr l1 \<Longrightarrow> lg_gross l1 = lg_gross l \<and> lg_tenantId l1 = lg_tenantId l
     \<and> lg_reservations l1 = lg_reservations l \<and> lg_sequence l1 = lg_sequence l"
  by (auto simp: setAllocation_def split: if_split_asm)

lemma ledger_step_frame:
  "ledger_step l l1 \<Longrightarrow> lg_gross l1 = lg_gross l \<and> lg_tenantId l1 = lg_tenantId l"
proof (induction rule: ledger_step.induct)
  case (register l actor u v r l1)
  then show ?case unfolding registerUser_def
    by (auto elim!: liftE_cases dest: setAllocation_frame split: if_split_asm)
next
  case (allocate l actor u v r l1)
  then show ?case unfolding allocate_def
    by (auto elim!: liftE_cases dest: setAllocation_frame split: if_split_asm)
next
  case (reserve l ctx u v r l1)
  then show ?case unfolding reserve_def Let_def by (auto elim!: liftE_cases split: if_split_asm)
next
  case (release l ctx rid r l1)
  then show ?case unfolding release_def
    by (auto elim!: liftE_cases split: if_split_asm jsval.splits option.splits)
qed

lemma addInitialUser_ok:
  assumes ok: "ledger_ok l" and empty: "lg_reservations l = []" and add: "addInitialUser l v = Inr l2"
  shows "ledger_ok l2 \<and> lg_reservations l2 = [] \<and> lg_gross l2 = lg_gross l \<and> lg_tenantId l2 = lg_tenantId l"
proof -
  from add obtain u n l1 used where new: "map_of (lg_allocations l) u = None"
    and set: "setAllocation l u n = Inr l1" and used: "0 \<le> used" "used \<le> get0 (lg_allocations l1) u"
    and l2: "l2 = l1\<lparr>lg_usage := AList.update u used (lg_usage l1)\<rparr>"
    unfolding addInitialUser_def by (auto simp: not_less split: if_split_asm)
  have "map_of (lg_usage l) u = None" using new by (rule ledger_okD(12) [OF ok])
  then have z: "get0 (lg_usage l) u = 0" by (simp add: get0_def)
  obtain k where k: "n = JInt k" "0 \<le> k" "map_of (lg_allocations l1) u \<noteq> None"
    using set ledger_okD(7) [OF ok] by (auto elim!: setAllocation_InrE)
  have ok1: "ledger_ok l1"
    using set k z by (intro ledger_ok_setAllocation [OF ok, of u k]) simp_all
  have fr: "lg_reservations l1 = []" "lg_gross l1 = lg_gross l" "lg_tenantId l1 = lg_tenantId l"
    using setAllocation_frame [OF set] empty by simp_all
  have "bounds_ok l2"
    using ledger_okD(5) [OF ok1] used fr by (simp add: l2 bounds_ok_def outstanding_def outstanding_of_def)
  moreover have "domains_ok l2"
    using ledger_okD(4) [OF ok1] k by (simp add: l2 domains_ok_def)
  ultimately show ?thesis using ok1 fr
    by (simp add: l2 ledger_ok_def allocations_ok_def reservations_ok_def)
qed

lemma addInitialUsers_ok:
  "addInitialUsers l vs = Inr l2 \<Longrightarrow> ledger_ok l \<Longrightarrow> lg_reservations l = [] \<Longrightarrow>
   ledger_ok l2 \<and> lg_gross l2 = lg_gross l \<and> lg_tenantId l2 = lg_tenantId l"
proof (induction vs arbitrary: l)
  case Nil
  then show ?case by simp
next
  case (Cons v vs)
  then obtain l1 where l1: "addInitialUser l v = Inr l1" and rest: "addInitialUsers l1 vs = Inr l2" by auto
  from addInitialUser_ok [OF Cons.prems(2,3) l1] Cons.IH [OF rest] show ?case by simp
qed

lemma createQuotaLedger_ok:
  assumes "createQuotaLedger t g us = Inr l"
  shows "ledger_ok l" "g = JInt (lg_gross l)" "t = JStr (lg_tenantId l)"
proof -
  from assms obtain ti gi where g: "g = JInt gi" "is_safe_int gi" "0 < gi" and t: "t = JStr ti"
    and us: "addInitialUsers \<lparr>lg_tenantId = ti, lg_gross = gi, lg_allocations = [], lg_usage = [],
      lg_sequence = 0, lg_reservations = []\<rparr> us = Inr l" (is "addInitialUsers ?l0 us = _")
    unfolding createQuotaLedger_def assertTenantId_def by (auto split: jsval.splits if_split_asm)
  have "ledger_ok ?l0" using g
    by (simp add: ledger_ok_def allocations_ok_def domains_ok_def bounds_ok_def reservations_ok_def
        total_of_def outstanding_def outstanding_of_def get0_def is_safe_int_def)
  from addInitialUsers_ok [OF us this] g t
  show "ledger_ok l" "g = JInt (lg_gross l)" "t = JStr (lg_tenantId l)" by simp_all
qed

lemma reachable_ledger_ok: "ledger_step\<^sup>*\<^sup>* l0 l \<Longrightarrow> ledger_ok l0 \<Longrightarrow> ledger_ok l"
  by (induction rule: rtranclp_induct) (auto intro: ledger_step_ok)

lemma reachable_frame:
  "ledger_step\<^sup>*\<^sup>* l0 l \<Longrightarrow> lg_gross l = lg_gross l0 \<and> lg_tenantId l = lg_tenantId l0"
  by (induction rule: rtranclp_induct) (auto dest: ledger_step_frame)

lemma ledger_ok_usage: "ledger_ok l \<Longrightarrow> 0 \<le> get0 (lg_usage l) u \<and> get0 (lg_usage l) u \<le> get0 (lg_allocations l) u"
proof -
  assume ok: "ledger_ok l"
  have "0 \<le> outstanding l u"
    unfolding outstanding_def by (rule outstanding_nonneg) (rule ledger_okD(9) [OF ok])
  with ledger_okD(10,11) [OF ok, of u] show ?thesis by simp
qed

subsection \<open>A concrete ledger\<close>

definition example_ledger :: "nat \<Rightarrow> int \<Rightarrow> ledger" where
  "example_ledger n used = \<lparr>lg_tenantId = ''t1'', lg_gross = 1000,
     lg_allocations = [(''ada'', 600), (''bob'', 300)], lg_usage = [(''ada'', used), (''bob'', 0)],
     lg_sequence = n, lg_reservations = []\<rparr>"

definition example_initial :: "jsval list" where
  "example_initial = [JObj [(''userId'', JStr ''ada''), (''allocatedQuotaBytes'', JInt 600), (''usedBytes'', JInt 100)],
     JObj [(''userId'', JStr ''bob''), (''allocatedQuotaBytes'', JInt 300)]]"

lemma example_create:
  "createQuotaLedger (JStr ''t1'') (JInt 1000) example_initial = Inr (example_ledger 0 100)"
  by code_simp

lemma example_reserve:
  "reserve (example_ledger 0 100) (example_actor UserRole ''ada'') (JStr ''ada'') (JInt 50)
   = (Inr (Reserved ''quota-00000001'' ''ada'' 50), (example_ledger 1 150)\<lparr>lg_reservations :=
       [(''quota-00000001'', \<lparr>rv_tenantId = ''t1'', rv_userId = ''ada'', rv_sizeBytes = 50, rv_released = False\<rparr>)]\<rparr>)"
  by code_simp

lemma example_reserve_any:
  "reserve (example_ledger n 100) (example_actor UserRole ''ada'') (JStr ''ada'') (JInt 50)
   = (Inr (Reserved (reservation_id (Suc n)) ''ada'' 50), (example_ledger (Suc n) 150)\<lparr>lg_reservations :=
       [(reservation_id (Suc n), \<lparr>rv_tenantId = ''t1'', rv_userId = ''ada'', rv_sizeBytes = 50, rv_released = False\<rparr>)]\<rparr>)"
proof -
  have "is_ok (assertSameTenant (example_ledger 0 100) (example_actor UserRole ''ada''))" by code_simp
  then obtain c where c: "assertSameTenant (example_ledger n 100) (example_actor UserRole ''ada'') = Inr c"
    using assertSameTenant_cong [of "example_ledger 0 100" "example_ledger n 100"]
    by (auto simp: is_ok_iff example_ledger_def)
  have "actor_id_ok ''ada''" by code_simp
  with c show ?thesis
    by (simp add: reserve_def requireKnownUser_def assertSafeUserId_def example_ledger_def
        js_default_def assertBytes_def is_safe_int_def max_safe_def get0_def Let_def)
qed

lemma example_ledger_ok: "ledger_ok (example_ledger 0 100)"
  using createQuotaLedger_ok(1) [OF example_create] .

subsection \<open>Properties\<close>

text \<open>C1 The tenant ceiling: in every ledger reachable from a fresh one by any sequence of
  registrations, allocations, reservations and releases, failed ones included, the allocations sum
  to at most the gross quota the ledger was created with, and no user's usage is negative or above
  the user's allocation.\<close>

theorem quota_ceiling:
  assumes "createQuotaLedger t g us = Inr l0" and "ledger_step\<^sup>*\<^sup>* l0 l"
  shows "g = JInt (lg_gross l) \<and> total_of (lg_allocations l) \<le> lg_gross l
     \<and> (\<forall>u. 0 \<le> get0 (lg_usage l) u \<and> get0 (lg_usage l) u \<le> get0 (lg_allocations l) u)"
proof -
  have "ledger_ok l" using createQuotaLedger_ok(1) [OF assms(1)] assms(2) by (auto intro: reachable_ledger_ok)
  then show ?thesis
    using createQuotaLedger_ok(2) [OF assms(1)] reachable_frame [OF assms(2)]
      ledger_okD(13) [of l] ledger_ok_usage [of l] by simp
qed

lemma quota_ceiling_witness:
  "\<exists>l. ledger_step\<^sup>*\<^sup>* (example_ledger 0 100) l \<and> get0 (lg_usage l) ''ada'' = 150
     \<and> JInt 1000 = JInt (lg_gross l) \<and> total_of (lg_allocations l) \<le> lg_gross l"
proof -
  note step = r_into_rtranclp [of ledger_step, OF ledger_step.reserve [OF example_reserve]]
  from quota_ceiling [OF example_create step] step show ?thesis
    by (intro exI conjI) (assumption, simp_all add: example_ledger_def get0_def)
qed

text \<open>C2  On a well-formed ledger, a reservation that is granted with a number below 100000000 (ids from #100000000 on are not accepted by release) and is released immediately afterwards leaves every user's usage as it was before the reservation (the clipping at zero loses no bytes) and the allocations untouched; a second release right after the first reports that it already happened and changes nothing.\<close>

theorem reserve_release_roundtrip:
  assumes ok: "ledger_ok l" and rs: "reserve l ctx v sz = (Inr (Reserved rid u n), l1)"
    and small: "lg_sequence l1 < 100000000"
  shows "\<exists>l2. release l1 ctx (JStr rid) = (Inr (Released rid), l2)
     \<and> (\<forall>w. get0 (lg_usage l2) w = get0 (lg_usage l) w) \<and> lg_allocations l2 = lg_allocations l
     \<and> release l2 ctx (JStr rid) = (Inr (AlreadyReleased rid), l2)"
proof -
  note res = reserve_Reserved [OF rs]
  obtain c where c: "assertSameTenant l ctx = Inr c" using res(7) by auto
  note same = assertSameTenant_cong [of _ l ctx, unfolded c]
  let ?r = "\<lparr>rv_tenantId = lg_tenantId l, rv_userId = u, rv_sizeBytes = n, rv_released = False\<rparr>"
  define l2 where "l2 = l1\<lparr>lg_usage := AList.update u (max 0 (get0 (lg_usage l1) u - n)) (lg_usage l1),
    lg_reservations := AList.update rid (?r\<lparr>rv_released := True\<rparr>) (lg_reservations l1)\<rparr>"
  have same1: "assertSameTenant l1 ctx = Inr c" and same2: "assertSameTenant l2 ctx = Inr c"
    by (simp_all add: same l2_def res(6))
  have rid: "reservation_id_ok rid" using small res(5,6) by (simp add: reservation_id_ok_iff)
  have look1: "map_of (lg_reservations l1) rid = Some ?r" and ten1: "lg_tenantId l1 = lg_tenantId l"
    and al1: "lg_allocations l1 = lg_allocations l" and us1: "\<And>w. get0 (lg_usage l1) w = get0 (lg_usage l) w + (if w = u then n else 0)"
    by (simp_all add: res(6))
  have "0 \<le> get0 (lg_usage l) u" using ledger_ok_usage [OF ok] by blast
  then have "\<forall>w. get0 (lg_usage l2) w = get0 (lg_usage l) w" by (simp add: l2_def us1)
  moreover have "release l1 ctx (JStr rid) = (Inr (Released rid), l2)"
    by (simp add: release_def same1 rid look1 ten1 l2_def)
  moreover have "release l2 ctx (JStr rid) = (Inr (AlreadyReleased rid), l2)"
    by (simp add: release_def same2 rid) (simp add: l2_def ten1)
  moreover have "lg_allocations l2 = lg_allocations l" by (simp add: l2_def al1)
  ultimately show ?thesis by blast
qed

lemma reserve_release_roundtrip_witness:
  "\<exists>l1 l2. release l1 (example_actor UserRole ''ada'') (JStr ''quota-00000001'')
       = (Inr (Released ''quota-00000001''), l2) \<and> get0 (lg_usage l2) ''ada'' = 100"
  using reserve_release_roundtrip [OF example_ledger_ok example_reserve]
  by (force simp: example_ledger_def get0_def)

text \<open>The eight digits of a reservation id are not enough: \<open>padStart(8)\<close> never truncates, but
  \<open>release\<close> accepts exactly eight digits, so from reservation number 100000000 on a reservation
  that was granted can never be released and its bytes stay charged.\<close>

theorem reservation_id_overflow:
  assumes rs: "reserve l ctx v sz = (Inr (Reserved rid u n), l1)" and big: "100000000 \<le> lg_sequence l1"
  shows "release l1 ctx (JStr rid) = (Inl (quotaError ''INVALID_RESERVATION'' 400), l1)"
proof -
  note res = reserve_Reserved [OF rs]
  have "lg_tenantId l1 = lg_tenantId l" by (simp add: res(6))
  then obtain c where "assertSameTenant l1 ctx = Inr c"
    using res(7) assertSameTenant_cong [of l1 l ctx] by auto
  moreover have "\<not> reservation_id_ok rid" using big res(5,6) by (simp add: reservation_id_ok_iff)
  ultimately show ?thesis by (simp add: release_def)
qed

lemma reservation_id_overflow_witness:
  "\<exists>l1. reserve (example_ledger 99999999 100) (example_actor UserRole ''ada'') (JStr ''ada'') (JInt 50)
       = (Inr (Reserved ''quota-100000000'' ''ada'' 50), l1)
     \<and> release l1 (example_actor UserRole ''ada'') (JStr ''quota-100000000'')
       = (Inl (quotaError ''INVALID_RESERVATION'' 400), l1)"
proof -
  have "reservation_id (Suc 99999999) = ''quota-100000000''"
    by (simp add: reservation_id_def pad8_def dec.simps)
  then show ?thesis
    using reservation_id_overflow [OF example_reserve_any [of 99999999]] example_reserve_any [of 99999999]
    by (simp add: example_ledger_def)
qed

text \<open>The second read of \<open>registerUser\<close> and \<open>allocate\<close> cannot fail, so an error means that nothing
  was stored.\<close>

lemma read_after:
  assumes "ledger_actor l a = Inr c" "lg_tenantId l1 = lg_tenantId l"
    "map_of (lg_allocations l1) u \<noteq> None" "actor_id_ok u" "aa_role c \<noteq> UserRole"
    "''quota.read'' \<in> set (PERMISSION_MATRIX (aa_role c))"
  shows "is_ok (read l1 (actor_js c) (JStr u))"
proof -
  have can: "canonical_actor c" and t: "aa_tenantId c = lg_tenantId l1"
    using assms(1,2) normalizeActor_canonical
    by (auto simp: ledger_actor_def assertAdminActor_def assertLedgerTenant_def split: if_split_asm)
  have "is_ok (authorize (actor_js c) (default_request\<lparr>rq_permission := JStr ''quota.read'',
      rq_targetUserId := JStr u, rq_resource := Some ''quota''\<rparr>))"
  proof (rule authorize_admin_ok [OF can _ assms(6,5)])
    show "permission_name_ok ''quota.read''" by code_simp
    show "\<not> isContentRequest ''quota.read'' (Some ''quota'') False" by code_simp
  qed (simp_all add: assms(4))
  then show ?thesis using can t assms(3,4)
    by (auto simp: read_def ledger_actor_def assertAdminActor_def assertLedgerTenant_def is_ok_iff)
qed

lemma manager_roles:
  assumes "p \<in> set (PERMISSION_MATRIX r)" "p = ''user.manage'' \<or> p = ''quota.manage''"
  shows "r \<noteq> UserRole \<and> ''quota.read'' \<in> set (PERMISSION_MATRIX r)"
  using assms by (cases r) (auto simp: permission_tables)

lemma setAllocation_known:
  "setAllocation l u v = Inr l1 \<Longrightarrow> map_of (lg_allocations l1) u \<noteq> None"
  by (auto simp: setAllocation_def split: if_split_asm)

text \<open>All or nothing: a registration, an allocation, a reservation or a release that throws leaves
  the ledger exactly as it was, although the first two read the new allocation back after they
  have stored it.\<close>

theorem quota_errors_change_nothing:
  "(registerUser l a u v = (Inl e1, l1) \<longrightarrow> l1 = l) \<and> (allocate l a u v = (Inl e2, l2) \<longrightarrow> l2 = l)
   \<and> (reserve l ctx u v = (Inl e3, l3) \<longrightarrow> l3 = l) \<and> (release l ctx rid = (Inl e4, l4) \<longrightarrow> l4 = l)"
proof (intro conjI impI)
  assume reg: "registerUser l a u v = (Inl e1, l1)"
  show "l1 = l"
  proof (rule ccontr)
    assume "l1 \<noteq> l"
    with reg obtain c w d where c: "ledger_actor l a = Inr c" and w: "actor_id_ok w"
      and d: "authorize (actor_js c) (default_request\<lparr>rq_permission := JStr ''user.manage'',
              rq_targetUserId := JStr w\<rparr>) = Inr d"
      and set: "setAllocation l w (js_default v (JInt 0)) = Inr l1"
      and bad: "read l1 (actor_js c) (JStr w) = Inl e1"
      unfolding registerUser_def by (auto elim!: liftE_cases split: if_split_asm)
    have can: "canonical_actor c" using c normalizeActor_canonical
      by (auto simp: ledger_actor_def assertAdminActor_def assertLedgerTenant_def split: if_split_asm)
    have "''user.manage'' \<in> set (PERMISSION_MATRIX (aa_role c))"
      by (rule authorize_permission [OF d normalizeActor_actor_js [OF can]]) (simp add: default_request_def)
    from manager_roles [OF this] have "is_ok (read l1 (actor_js c) (JStr w))"
      using setAllocation_frame [OF set] setAllocation_known [OF set] w by (intro read_after [OF c]) auto
    with bad show False by simp
  qed
next
  assume al: "allocate l a u v = (Inl e2, l2)"
  show "l2 = l"
  proof (rule ccontr)
    assume "l2 \<noteq> l"
    with al obtain c w n d where c: "ledger_actor l a = Inr c" and w: "actor_id_ok w"
      and d: "authorize (actor_js c) (default_request\<lparr>rq_permission := JStr ''quota.manage'',
              rq_targetUserId := JStr w, rq_resource := Some ''quota''\<rparr>) = Inr d"
      and set: "setAllocation l w (JInt n) = Inr l2" and bad: "read l2 (actor_js c) (JStr w) = Inl e2"
      unfolding allocate_def by (auto elim!: liftE_cases split: if_split_asm)
    have can: "canonical_actor c" using c normalizeActor_canonical
      by (auto simp: ledger_actor_def assertAdminActor_def assertLedgerTenant_def split: if_split_asm)
    have "''quota.manage'' \<in> set (PERMISSION_MATRIX (aa_role c))"
      by (rule authorize_permission [OF d normalizeActor_actor_js [OF can]]) (simp add: default_request_def)
    from manager_roles [OF this] have "is_ok (read l2 (actor_js c) (JStr w))"
      using setAllocation_frame [OF set] setAllocation_known [OF set] w by (intro read_after [OF c]) auto
    with bad show False by simp
  qed
next
  assume "reserve l ctx u v = (Inl e3, l3)"
  then show "l3 = l" by (rule reserve_other) simp
next
  assume "release l ctx rid = (Inl e4, l4)"
  then show "l4 = l" by (rule release_other) simp
qed

lemma quota_errors_change_nothing_witness:
  "registerUser (example_ledger 0 100) (example_actor TenantMaster ''root'') (JStr ''eve'') (JInt 101)
     = (Inl (quotaError ''QUOTA_EXCEEDED'' 409), example_ledger 0 100)"
proof -
  have "fst (registerUser (example_ledger 0 100) (example_actor TenantMaster ''root'') (JStr ''eve'') (JInt 101))
     = Inl (quotaError ''QUOTA_EXCEEDED'' 409)" by code_simp
  then show ?thesis
    using quota_errors_change_nothing [of "example_ledger 0 100" "example_actor TenantMaster ''root''"
        "JStr ''eve''" "JInt 101" "quotaError ''QUOTA_EXCEEDED'' 409"]
    by (metis prod.collapse)
qed

text \<open>What an ordinary user can see: \<open>read\<close> refuses another user's allocation, but \<open>snapshot\<close> asks
  for the permission alone, so any user of the tenant obtains the allocation and the usage of every
  user of the ledger.\<close>

theorem snapshot_discloses_other_users:
  assumes ok: "ledger_ok l" and c: "canonical_actor c" "aa_role c = UserRole" "aa_tenantId c = lg_tenantId l"
    and w: "actor_id_ok w" "w \<noteq> aa_actorId c" "map_of (lg_allocations l) w = Some n"
  shows "read l (actor_js c) (JStr w) = Inl (authorizationError ''USER_SCOPE_DENIED'' 403)
     \<and> (\<exists>s. snapshot l (actor_js c) = Inr s \<and> cloneAllocation w n (get0 (lg_usage l) w) \<in> set (sn_users s))"
proof
  have la: "ledger_actor l (actor_js c) = Inr c"
    using c by (simp add: ledger_actor_def assertAdminActor_def assertLedgerTenant_def)
  have p: "permission_name_ok ''quota.read''" "''quota.read'' \<in> set (PERMISSION_MATRIX UserRole)"
    "\<not> isContentRequest ''quota.read'' (Some ''quota'') False"
    "''quota.read'' \<notin> set CONTENT_PERMISSIONS" by code_simp+
  show "read l (actor_js c) (JStr w) = Inl (authorizationError ''USER_SCOPE_DENIED'' 403)"
    using la c w p by (simp add: read_def requireKnownUser_def assertSafeUserId_def authorize_def
        default_request_def assertPermission_def nullish_def js_default_def targetMatchesActor_def
        canDelegateContent_def canonical_actor_def Let_def normalizeActor_actor_js [OF c(1)])
  have au: "is_ok (authorize (actor_js c) (default_request\<lparr>rq_permission := JStr ''quota.read'', rq_resource := Some ''quota''\<rparr>))"
    using c p by (simp add: authorize_def default_request_def assertPermission_def nullish_def
        js_default_def targetMatchesActor_def Let_def)
  obtain t where "totalAllocated l None = Inr t"
    using sum_checked_ok [of "lg_allocations l" 0 None] ledger_okD(2,3,13) [OF ok]
    by (auto simp: totalAllocated_def allocations_ok_def)
  moreover have "get0 (lg_allocations l) w = n" "w \<in> set (keys (lg_allocations l))"
    using w(3) map_of_in_set [OF w(3)] by (force simp: get0_def keys_def)+
  ultimately show "\<exists>s. snapshot l (actor_js c) = Inr s
      \<and> cloneAllocation w n (get0 (lg_usage l) w) \<in> set (sn_users s)"
    using la au by (force simp: snapshot_def is_ok_iff)
qed

lemma snapshot_discloses_other_users_witness:
  "\<exists>s. snapshot (example_ledger 0 100) (actor_js \<lparr>aa_tenantId = ''t1'', aa_domain = ''t1.test'',
       aa_actorId = ''bob'', aa_userId = Some ''bob'', aa_role = UserRole\<rparr>) = Inr s
     \<and> cloneAllocation ''ada'' 600 100 \<in> set (sn_users s)"
proof -
  let ?c = "\<lparr>aa_tenantId = ''t1'', aa_domain = ''t1.test'', aa_actorId = ''bob'',
     aa_userId = Some ''bob'', aa_role = UserRole\<rparr>"
  have "canonical_actor ?c" "actor_id_ok ''ada''" by code_simp+
  from snapshot_discloses_other_users [OF example_ledger_ok this(1) _ _ this(2), of 600] show ?thesis
    by (simp add: example_ledger_def get0_def)
qed

end
