(* ===== verification/Delegation.thy ===== *)
theory Delegation
  imports Rbac
begin

section \<open>Delegation of content access\<close>

text \<open>
  \<open>src/core/admin/delegation.ts\<close>: the store of delegations, one per owner, that decides whether a
  user may read or write another user's content.  The two closure variables \<open>records\<close> and \<open>history\<close>
  are the record \<open>delegation_store\<close>; each operation takes the value its clock returns as \<open>clk\<close>.
  \<open>pd\<close> is \<open>Date.parse\<close> and \<open>lc\<close> the order of \<open>localeCompare\<close>.
\<close>

record delegation_record =
  dr_tenantId :: string
  dr_ownerUserId :: string
  dr_delegateUserId :: string
  dr_permissions :: "string list"
  dr_forced :: bool
  dr_policySource :: string
  dr_reason :: "string option"
  dr_createdAt :: int
  dr_updatedAt :: int
  dr_expiresAt :: "int option"
  dr_actorId :: string

record delegation_input =
  di_ownerUserId :: jsval
  di_delegateUserId :: jsval
  di_permissions :: jsval
  di_expiresAt :: jsval
  di_reason :: jsval
  di_forced :: jsval

datatype delegation_action = DCreated | DUpdated | DRevoked

record delegation_event =
  dv_eventType :: delegation_action
  dv_tenantId :: string
  dv_actorId :: string
  dv_actorRole :: role
  dv_ownerUserId :: string
  dv_delegateUserId :: string
  dv_permissions :: "string list"
  dv_forced :: bool
  dv_result :: string
  dv_reason :: "string option"
  dv_occurredAt :: int

record delegation_view = \<comment> \<open>what \<open>cloneDelegation\<close> hands out\<close>
  dw_record :: delegation_record
  dw_expired :: bool

record delegation_store =
  ds_records :: "(string \<times> delegation_record) list"
  ds_history :: "delegation_event list"

subsection \<open>Normalisation\<close>

definition PERMISSION_SET :: "string list" where
  "PERMISSION_SET = [''read'', ''write'']"

definition delegationError :: "string \<Rightarrow> nat \<Rightarrow> err" where
  "delegationError code status = Err DelegationErr code status"

fun permission_items :: "jsval list \<Rightarrow> string list option" where
  "permission_items [] = Some []"
| "permission_items (JStr s # vs) =
     (if s \<in> set PERMISSION_SET then map_option (\<lambda>ss. s # ss) (permission_items vs) else None)"
| "permission_items (_ # vs) = None"

definition normalizePermissions :: "jsval \<Rightarrow> string list res" where
  "normalizePermissions v = (case v of
       JArr vs \<Rightarrow> (case permission_items vs of
           None \<Rightarrow> Inl (delegationError ''INVALID_PERMISSIONS'' 400)
         | Some [] \<Rightarrow> Inl (delegationError ''INVALID_PERMISSIONS'' 400)
         | Some ss \<Rightarrow> Inr (sort_by str_le (dedup (if ''write'' \<in> set ss then ss @ [''read''] else ss))))
     | _ \<Rightarrow> Inl (delegationError ''INVALID_PERMISSIONS'' 400))"

definition reason_ok :: "string \<Rightarrow> bool" where
  "reason_ok s \<longleftrightarrow> run_of is_printable 256 s"

definition normalizeReason :: "jsval \<Rightarrow> bool \<Rightarrow> string option res" where
  "normalizeReason v required =
     (if v = JUndef \<or> v = JNull \<or> v = JStr [] then
        (if required then Inl (delegationError ''REASON_REQUIRED'' 400) else Inr None)
      else (case v of
          JStr s \<Rightarrow> if reason_ok (trim s) then Inr (Some (trim s))
                    else Inl (delegationError ''INVALID_REASON'' 400)
        | _ \<Rightarrow> Inl (delegationError ''INVALID_REASON'' 400)))"

fun timestamp_type :: "jsval \<Rightarrow> bool" where
  "timestamp_type (JDate _) = True"
| "timestamp_type (JStr _) = True"
| "timestamp_type (JInt _) = True"
| "timestamp_type (JFrac _) = True"
| "timestamp_type JNonFinite = True"
| "timestamp_type _ = False"

definition normalizeTimestamp :: "(string \<Rightarrow> int option) \<Rightarrow> jsval \<Rightarrow> int option res" where
  "normalizeTimestamp pd v =
     (if v = JNull \<or> v = JUndef then Inr None
      else if \<not> timestamp_type v then Inl (delegationError ''INVALID_TIMESTAMP'' 400)
      else (case to_date pd v of
          None \<Rightarrow> Inl (delegationError ''INVALID_TIMESTAMP'' 400)
        | Some t \<Rightarrow> Inr (Some t)))"

definition is_expired :: "delegation_record \<Rightarrow> int \<Rightarrow> bool" where
  "is_expired r now = (case dr_expiresAt r of None \<Rightarrow> False | Some e \<Rightarrow> e \<le> now)"

definition cloneDelegation :: "delegation_record \<Rightarrow> int \<Rightarrow> delegation_view" where
  "cloneDelegation r now = \<lparr>dw_record = r, dw_expired = is_expired r now\<rparr>"

definition isActive :: "delegation_record \<Rightarrow> int \<Rightarrow> bool" where
  "isActive r now = (case dr_expiresAt r of None \<Rightarrow> True | Some e \<Rightarrow> now < e)"

subsection \<open>The store\<close>

definition createDelegationStore :: delegation_store where
  "createDelegationStore = \<lparr>ds_records = [], ds_history = []\<rparr>"

definition delegation_now :: "(string \<Rightarrow> int option) \<Rightarrow> jsval \<Rightarrow> int res" where
  "delegation_now pd clk = (case to_date pd clk of
       None \<Rightarrow> Inl (delegationError ''CLOCK_INVALID'' 500) | Some t \<Rightarrow> Inr t)"

definition assertTenantOwner :: "jsval \<Rightarrow> jsval \<Rightarrow> (admin_actor \<times> string) res" where
  "assertTenantOwner actor ownerUserId =
     bindE (normalizeActor actor) (\<lambda>c.
     bindE (assertSafeUserId ownerUserId) (\<lambda>owner.
     if aa_role c = UserRole \<and> aa_userId c \<noteq> Some owner
     then Inl (delegationError ''OWNER_SCOPE_DENIED'' 403)
     else if aa_role c \<noteq> UserRole \<and> aa_role c \<noteq> TenantMaster
     then Inl (delegationError ''ROLE_DENIED'' 403)
     else Inr (c, owner)))"

definition appendHistory :: "delegation_record \<Rightarrow> delegation_action \<Rightarrow> admin_actor \<Rightarrow> string option \<Rightarrow>
    delegation_event list \<Rightarrow> delegation_event list" where
  "appendHistory r action c reason h = h @ [\<lparr>dv_eventType = action, dv_tenantId = dr_tenantId r,
     dv_actorId = aa_actorId c, dv_actorRole = aa_role c, dv_ownerUserId = dr_ownerUserId r,
     dv_delegateUserId = dr_delegateUserId r, dv_permissions = dr_permissions r,
     dv_forced = dr_forced r, dv_result = ''success'', dv_reason = reason,
     dv_occurredAt = (if action = DCreated then dr_createdAt r else dr_updatedAt r)\<rparr>]"

definition put_record :: "string \<Rightarrow> delegation_record \<Rightarrow> delegation_action \<Rightarrow> admin_actor \<Rightarrow> string option \<Rightarrow>
    delegation_store \<Rightarrow> delegation_store" where
  "put_record owner r action c reason s =
     \<lparr>ds_records = AList.update owner r (ds_records s),
      ds_history = appendHistory r action c reason (ds_history s)\<rparr>"

definition expiry_in_future :: "int option \<Rightarrow> int \<Rightarrow> bool" where
  "expiry_in_future e now = (case e of None \<Rightarrow> True | Some t \<Rightarrow> now < t)"

definition createDelegation :: "(string \<Rightarrow> int option) \<Rightarrow> jsval \<Rightarrow> jsval \<Rightarrow> delegation_input \<Rightarrow>
    delegation_store \<Rightarrow> delegation_view res \<times> delegation_store" where
  "createDelegation pd clk actor i s =
     liftE (assertTenantOwner actor (di_ownerUserId i)) s (\<lambda>(c, owner).
     liftE (assertSafeUserId (di_delegateUserId i)) s (\<lambda>delegate.
     if owner = delegate then (Inl (delegationError ''SELF_DELEGATION'' 400), s)
     else let isMaster = (aa_role c = TenantMaster) in
     if isMaster \<and> js_default (di_forced i) (JBool False) \<noteq> JBool True
     then (Inl (delegationError ''FORCED_FLAG_REQUIRED'' 400), s)
     else if \<not> isMaster \<and> js_default (di_forced i) (JBool False) = JBool True
     then (Inl (delegationError ''FORCED_FLAG_DENIED'' 403), s)
     else liftE (delegation_now pd clk) s (\<lambda>now.
     liftE (normalizeTimestamp pd (js_default (di_expiresAt i) JNull)) s (\<lambda>expiry.
     if \<not> expiry_in_future expiry now then (Inl (delegationError ''INVALID_EXPIRY'' 400), s)
     else liftE (normalizeReason (js_default (di_reason i) JNull) isMaster) s (\<lambda>reason.
     if (case map_of (ds_records s) owner of None \<Rightarrow> False | Some r \<Rightarrow> isActive r now)
     then (Inl (delegationError ''ACTIVE_DELEGATE_EXISTS'' 409), s)
     else liftE (normalizePermissions (js_default (di_permissions i) (JArr [JStr ''read'']))) s (\<lambda>ps.
     let r = \<lparr>dr_tenantId = aa_tenantId c, dr_ownerUserId = owner, dr_delegateUserId = delegate,
        dr_permissions = ps, dr_forced = isMaster,
        dr_policySource = (if isMaster then ''master_forced'' else ''user_delegated''),
        dr_reason = reason, dr_createdAt = now, dr_updatedAt = now, dr_expiresAt = expiry,
        dr_actorId = aa_actorId c\<rparr>
     in (Inr (cloneDelegation r now), put_record owner r DCreated c reason s)))))))"

text \<open>The guards \<open>update\<close> and \<open>revoke\<close> share, in the order of the code.\<close>

definition active_record :: "(string \<Rightarrow> int option) \<Rightarrow> jsval \<Rightarrow> jsval \<Rightarrow> jsval \<Rightarrow> delegation_store \<Rightarrow>
    (admin_actor \<times> string \<times> delegation_record \<times> int) res" where
  "active_record pd clk actor ownerUserId s =
     bindE (assertTenantOwner actor ownerUserId) (\<lambda>(c, owner).
     bindE (delegation_now pd clk) (\<lambda>now.
     case map_of (ds_records s) owner of
       None \<Rightarrow> Inl (delegationError ''NOT_FOUND'' 404)
     | Some r \<Rightarrow>
         if \<not> isActive r now then Inl (delegationError ''NOT_FOUND'' 404)
         else if dr_tenantId r \<noteq> aa_tenantId c then Inl (delegationError ''CROSS_TENANT_DENIED'' 403)
         else if dr_forced r \<and> aa_role c = UserRole
         then Inl (delegationError ''FORCED_DELEGATION_LOCKED'' 403)
         else Inr (c, owner, r, now)))"

definition updateDelegation :: "(string \<Rightarrow> int option) \<Rightarrow> jsval \<Rightarrow> jsval \<Rightarrow> jsval \<Rightarrow> delegation_input \<Rightarrow>
    delegation_store \<Rightarrow> delegation_view res \<times> delegation_store" where
  "updateDelegation pd clk actor ownerUserId i s =
     liftE (active_record pd clk actor ownerUserId s) s (\<lambda>(c, owner, r, now).
     liftE (if di_delegateUserId i = JUndef then Inr (dr_delegateUserId r)
            else assertSafeUserId (di_delegateUserId i)) s (\<lambda>delegate.
     if delegate = owner then (Inl (delegationError ''SELF_DELEGATION'' 400), s)
     else liftE (if di_expiresAt i = JUndef then Inr (dr_expiresAt r)
                 else normalizeTimestamp pd (di_expiresAt i)) s (\<lambda>expiry.
     if \<not> expiry_in_future expiry now then (Inl (delegationError ''INVALID_EXPIRY'' 400), s)
     else liftE (if di_reason i = JUndef then Inr (dr_reason r)
                 else normalizeReason (di_reason i) (dr_forced r)) s (\<lambda>reason.
     liftE (if di_permissions i = JUndef then Inr (dr_permissions r)
            else normalizePermissions (di_permissions i)) s (\<lambda>ps.
     let r1 = r\<lparr>dr_delegateUserId := delegate, dr_permissions := ps, dr_expiresAt := expiry,
        dr_reason := reason, dr_updatedAt := now, dr_actorId := aa_actorId c\<rparr>
     in (Inr (cloneDelegation r1 now), put_record owner r1 DUpdated c reason s))))))"

definition revokeDelegation :: "(string \<Rightarrow> int option) \<Rightarrow> jsval \<Rightarrow> jsval \<Rightarrow> jsval \<Rightarrow> jsval \<Rightarrow>
    delegation_store \<Rightarrow> delegation_view res \<times> delegation_store" where
  "revokeDelegation pd clk actor ownerUserId reason s =
     liftE (active_record pd clk actor ownerUserId s) s (\<lambda>(c, owner, r, now).
     liftE (normalizeReason (js_default reason (JStr ''owner_revoked'')) True) s (\<lambda>why.
     let r1 = r\<lparr>dr_expiresAt := Some now, dr_updatedAt := now, dr_actorId := aa_actorId c\<rparr>
     in (Inr (cloneDelegation r1 now), put_record owner r1 DRevoked c why s)))"

definition canAccess :: "(string \<Rightarrow> int option) \<Rightarrow> jsval \<Rightarrow> jsval \<Rightarrow> jsval \<Rightarrow> string \<Rightarrow> delegation_store \<Rightarrow> bool res" where
  "canAccess pd clk actor ownerUserId permission s = (case normalizeActor actor of
       Inl _ \<Rightarrow> Inr False
     | Inr c \<Rightarrow>
         if aa_role c \<noteq> UserRole then Inr False
         else (case assertSafeUserId ownerUserId of
             Inl _ \<Rightarrow> Inr False
           | Inr owner \<Rightarrow>
               if permission \<notin> set PERMISSION_SET then Inr False
               else if aa_userId c = Some owner then Inr True
               else (case map_of (ds_records s) owner of
                   None \<Rightarrow> Inr False
                 | Some r \<Rightarrow>
                     if dr_tenantId r \<noteq> aa_tenantId c \<or> Some (dr_delegateUserId r) \<noteq> aa_userId c
                     then Inr False
                     else bindE (delegation_now pd clk) (\<lambda>now.
                       if \<not> isActive r now then Inr False
                       else Inr (permission \<in> set (dr_permissions r))))))"

definition getDelegation :: "(string \<Rightarrow> int option) \<Rightarrow> jsval \<Rightarrow> jsval \<Rightarrow> jsval \<Rightarrow> delegation_store \<Rightarrow> delegation_view res" where
  "getDelegation pd clk actor ownerUserId s =
     bindE (normalizeActor actor) (\<lambda>c.
     bindE (assertSafeUserId ownerUserId) (\<lambda>owner.
     case map_of (ds_records s) owner of
       None \<Rightarrow> Inl (delegationError ''NOT_FOUND'' 404)
     | Some r \<Rightarrow>
         if dr_tenantId r \<noteq> aa_tenantId c then Inl (delegationError ''NOT_FOUND'' 404)
         else if aa_role c = UserRole \<and> aa_userId c \<noteq> Some owner \<and> aa_userId c \<noteq> Some (dr_delegateUserId r)
         then Inl (authorizationError ''USER_SCOPE_DENIED'' 403)
         else if aa_role c = Monitor then Inl (delegationError ''ROLE_DENIED'' 403)
         else bindE (delegation_now pd clk) (\<lambda>now. Inr (cloneDelegation r now))))"

definition listDelegations :: "(string \<Rightarrow> int option) \<Rightarrow> (string \<Rightarrow> string \<Rightarrow> bool) \<Rightarrow> jsval \<Rightarrow> jsval \<Rightarrow>
    delegation_store \<Rightarrow> delegation_view list res" where
  "listDelegations pd lc clk actor s =
     bindE (normalizeActor actor) (\<lambda>c.
     if aa_role c \<noteq> Provider \<and> aa_role c \<noteq> TenantMaster then Inl (delegationError ''ROLE_DENIED'' 403)
     else bindE (delegation_now pd clk) (\<lambda>now.
     Inr (map (\<lambda>r. cloneDelegation r now)
       (sort_by (\<lambda>a b. lc (dr_ownerUserId a) (dr_ownerUserId b))
         (filter (\<lambda>r. dr_tenantId r = aa_tenantId c) (map snd (ds_records s)))))))"

definition delegationEvents :: "jsval \<Rightarrow> bool \<Rightarrow> delegation_store \<Rightarrow> delegation_event list res" where
  "delegationEvents actor masterLogAccess s =
     bindE (normalizeActor actor) (\<lambda>c.
     if aa_role c \<noteq> Provider \<and> aa_role c \<noteq> TenantMaster then Inl (delegationError ''ROLE_DENIED'' 403)
     else if aa_role c = TenantMaster \<and> \<not> masterLogAccess
     then Inl (delegationError ''MASTER_LOG_ACCESS_DISABLED'' 403)
     else Inr (filter (\<lambda>e. dv_tenantId e = aa_tenantId c) (ds_history s)))"

lemmas delegation_defs [code_defs] = delegationError_def normalizePermissions_def reason_ok_def
  normalizeReason_def normalizeTimestamp_def is_expired_def cloneDelegation_def isActive_def
  delegation_now_def assertTenantOwner_def appendHistory_def put_record_def expiry_in_future_def
  createDelegation_def active_record_def updateDelegation_def revokeDelegation_def canAccess_def
  getDelegation_def listDelegations_def delegationEvents_def PERMISSION_SET_def createDelegationStore_def

subsection \<open>Normalisation\<close>

lemma permission_items_set: "permission_items vs = Some ss \<Longrightarrow> set ss \<subseteq> set PERMISSION_SET"
  by (induction vs arbitrary: ss rule: permission_items.induct) (auto split: if_split_asm)

lemma normalizePermissions_Inr:
  assumes "normalizePermissions v = Inr ps"
  shows "ps \<noteq> []" "set ps \<subseteq> set PERMISSION_SET" "''write'' \<in> set ps \<Longrightarrow> ''read'' \<in> set ps"
proof -
  from assms obtain vs where v: "v = JArr vs" by (cases v) (auto simp: normalizePermissions_def)
  with assms obtain ss where items: "permission_items vs = Some ss" and ss1: "ss \<noteq> []"
    by (auto simp: normalizePermissions_def split: option.split_asm list.split_asm)
  have ss: "ss \<noteq> []" "set ss \<subseteq> set PERMISSION_SET"
    using ss1 permission_items_set [OF items] by auto
  have ps: "ps = sort_by str_le (dedup (if ''write'' \<in> set ss then ss @ [''read''] else ss))"
    using assms v items ss1 by (cases ss) (auto simp: normalizePermissions_def)
  have set: "set ps = set ss \<union> (if ''write'' \<in> set ss then {''read''} else {})"
    by (simp add: ps)
  show "ps \<noteq> []" using set ss(1) by (auto simp flip: set_empty)
  show "set ps \<subseteq> set PERMISSION_SET" using set ss(2) by (auto simp: PERMISSION_SET_def)
  show "''read'' \<in> set ps" if "''write'' \<in> set ps" using that set by (auto split: if_splits)
qed

lemma normalizePermissions_ok:
  "normalizePermissions v = Inr ps \<Longrightarrow> ps \<noteq> [] \<and> set ps \<subseteq> set PERMISSION_SET
     \<and> (''write'' \<in> set ps \<longrightarrow> ''read'' \<in> set ps)"
  using normalizePermissions_Inr by blast

lemma normalizeReason_required: "normalizeReason v True = Inr r \<Longrightarrow> r \<noteq> None"
  by (auto simp: normalizeReason_def split: jsval.splits if_split_asm)

lemma isActive_not_expired: "isActive r now \<longleftrightarrow> \<not> is_expired r now"
  by (auto simp: isActive_def is_expired_def split: option.splits)

lemma assertTenantOwner_InrE:
  assumes "assertTenantOwner actor v = Inr (c, owner)"
  obtains "normalizeActor actor = Inr c" "v = JStr owner" "actor_id_ok owner"
    "aa_role c = TenantMaster \<or> aa_role c = UserRole \<and> aa_userId c = Some owner"
  using assms by (auto simp: assertTenantOwner_def split: if_split_asm)

lemma active_record_InrE:
  assumes "active_record pd clk actor v s = Inr (c, owner, r, now)"
  obtains "assertTenantOwner actor v = Inr (c, owner)" "to_date pd clk = Some now"
    "map_of (ds_records s) owner = Some r" "isActive r now" "dr_tenantId r = aa_tenantId c"
    "\<not> (dr_forced r \<and> aa_role c = UserRole)"
proof -
  from assms have a: "assertTenantOwner actor v = Inr (c, owner)" and n: "delegation_now pd clk = Inr now"
    and m: "map_of (ds_records s) owner = Some r" and "isActive r now" "dr_tenantId r = aa_tenantId c"
    "\<not> (dr_forced r \<and> aa_role c = UserRole)"
    by (auto simp: active_record_def split: option.split_asm if_split_asm)
  moreover from n have "to_date pd clk = Some now"
    by (auto simp: delegation_now_def split: option.split_asm)
  ultimately show ?thesis by (intro that)
qed

subsection \<open>The invariant of the records\<close>

text \<open>
  Keyed by its owner, who is not the delegate; a nonempty set of permissions in which writing
  implies reading; forced exactly when the tenant master made it, and then with a reason.
\<close>

definition delegation_ok :: "string \<Rightarrow> delegation_record \<Rightarrow> bool" where
  "delegation_ok owner r \<longleftrightarrow> dr_ownerUserId r = owner \<and> dr_delegateUserId r \<noteq> owner
     \<and> actor_id_ok owner \<and> actor_id_ok (dr_delegateUserId r)
     \<and> dr_permissions r \<noteq> [] \<and> set (dr_permissions r) \<subseteq> set PERMISSION_SET
     \<and> (''write'' \<in> set (dr_permissions r) \<longrightarrow> ''read'' \<in> set (dr_permissions r))
     \<and> dr_policySource r = (if dr_forced r then ''master_forced'' else ''user_delegated'')
     \<and> (dr_forced r \<longrightarrow> dr_reason r \<noteq> None)"

definition store_ok :: "delegation_store \<Rightarrow> bool" where
  "store_ok s \<longleftrightarrow> distinct (map fst (ds_records s))
     \<and> (\<forall>owner r. map_of (ds_records s) owner = Some r \<longrightarrow> delegation_ok owner r)"

lemma store_okD:
  assumes "store_ok s" "map_of (ds_records s) owner = Some r"
  shows "delegation_ok owner r"
  using assms by (simp add: store_ok_def)

lemma store_ok_put:
  "store_ok s \<Longrightarrow> delegation_ok owner r \<Longrightarrow> store_ok (put_record owner r act c why s)"
  by (simp add: store_ok_def put_record_def)

lemma store_ok_create:
  assumes ok: "store_ok s" and step: "createDelegation pd clk actor i s = (res, s1)"
  shows "store_ok s1"
proof (cases res)
  case (Inl e)
  then have "s1 = s" using step unfolding createDelegation_def Let_def
    by (auto elim!: liftE_cases split: prod.splits if_split_asm)
  with ok show ?thesis by simp
next
  case (Inr w)
  with step obtain c owner delegate reason ps now expiry where
    o: "assertTenantOwner actor (di_ownerUserId i) = Inr (c, owner)"
    and del: "actor_id_ok delegate" "owner \<noteq> delegate"
    and why: "normalizeReason (js_default (di_reason i) JNull) (aa_role c = TenantMaster) = Inr reason"
    and ps: "normalizePermissions (js_default (di_permissions i) (JArr [JStr ''read''])) = Inr ps"
    and s1: "s1 = put_record owner \<lparr>dr_tenantId = aa_tenantId c, dr_ownerUserId = owner,
        dr_delegateUserId = delegate, dr_permissions = ps, dr_forced = (aa_role c = TenantMaster),
        dr_policySource = (if aa_role c = TenantMaster then ''master_forced'' else ''user_delegated''),
        dr_reason = reason, dr_createdAt = now, dr_updatedAt = now, dr_expiresAt = expiry,
        dr_actorId = aa_actorId c\<rparr> DCreated c reason s"
    unfolding createDelegation_def Let_def by (auto simp: guard_iff split: prod.splits)
  have "aa_role c = TenantMaster \<Longrightarrow> reason \<noteq> None"
    using why by (auto dest: normalizeReason_required)
  then show ?thesis unfolding s1
    using o del normalizePermissions_Inr [OF ps]
    by (intro store_ok_put [OF ok]) (auto simp: delegation_ok_def elim!: assertTenantOwner_InrE)
qed

lemma store_ok_update:
  assumes ok: "store_ok s" and step: "updateDelegation pd clk actor v i s = (res, s1)"
  shows "store_ok s1"
proof (cases res)
  case (Inl e)
  then have "s1 = s" using step unfolding updateDelegation_def Let_def
    by (auto elim!: liftE_cases split: prod.splits if_split_asm)
  with ok show ?thesis by simp
next
  case (Inr w)
  with step obtain c owner r now delegate expiry reason ps where
    a: "active_record pd clk actor v s = Inr (c, owner, r, now)"
    and del: "(if di_delegateUserId i = JUndef then Inr (dr_delegateUserId r)
        else assertSafeUserId (di_delegateUserId i)) = Inr delegate" "delegate \<noteq> owner"
    and why: "(if di_reason i = JUndef then Inr (dr_reason r)
        else normalizeReason (di_reason i) (dr_forced r)) = Inr reason"
    and ps: "(if di_permissions i = JUndef then Inr (dr_permissions r)
        else normalizePermissions (di_permissions i)) = Inr ps"
    and s1: "s1 = put_record owner (r\<lparr>dr_delegateUserId := delegate, dr_permissions := ps,
        dr_expiresAt := expiry, dr_reason := reason, dr_updatedAt := now,
        dr_actorId := aa_actorId c\<rparr>) DUpdated c reason s"
    unfolding updateDelegation_def Let_def by (auto simp: guard_iff split: prod.splits)
  from a have old: "delegation_ok owner r"
    by (rule active_record_InrE) (auto intro: store_okD [OF ok])
  have "actor_id_ok delegate" using del old by (auto simp: delegation_ok_def split: if_split_asm)
  moreover have "dr_forced r \<Longrightarrow> reason \<noteq> None"
    using why old normalizeReason_required unfolding delegation_ok_def by (metis sum.inject(2))
  moreover have "ps \<noteq> [] \<and> set ps \<subseteq> set PERMISSION_SET \<and> (''write'' \<in> set ps \<longrightarrow> ''read'' \<in> set ps)"
    using ps old normalizePermissions_Inr by (auto simp: delegation_ok_def split: if_split_asm)
  ultimately show ?thesis unfolding s1 using old del
    by (intro store_ok_put [OF ok]) (simp add: delegation_ok_def)
qed

lemma store_ok_revoke:
  assumes ok: "store_ok s" and step: "revokeDelegation pd clk actor v why s = (res, s1)"
  shows "store_ok s1"
proof (cases res)
  case (Inl e)
  then have "s1 = s" using step unfolding revokeDelegation_def Let_def
    by (auto elim!: liftE_cases split: prod.splits)
  with ok show ?thesis by simp
next
  case (Inr w)
  with step obtain c owner r now reason where
    a: "active_record pd clk actor v s = Inr (c, owner, r, now)"
    and s1: "s1 = put_record owner (r\<lparr>dr_expiresAt := Some now, dr_updatedAt := now,
        dr_actorId := aa_actorId c\<rparr>) DRevoked c reason s"
    unfolding revokeDelegation_def Let_def by (auto split: prod.splits)
  from a have "delegation_ok owner r"
    by (rule active_record_InrE) (auto intro: store_okD [OF ok])
  then show ?thesis unfolding s1
    by (intro store_ok_put [OF ok]) (simp add: delegation_ok_def)
qed

text \<open>The stores reachable by any interleaving of the operations, whatever the clocks return.\<close>

inductive delegation_reach :: "delegation_store \<Rightarrow> bool" where
  fresh: "delegation_reach createDelegationStore"
| by_create: "delegation_reach s \<Longrightarrow> delegation_reach (snd (createDelegation pd clk actor i s))"
| by_update: "delegation_reach s \<Longrightarrow> delegation_reach (snd (updateDelegation pd clk actor v i s))"
| by_revoke: "delegation_reach s \<Longrightarrow> delegation_reach (snd (revokeDelegation pd clk actor v why s))"

lemma delegation_reach_ok: "delegation_reach s \<Longrightarrow> store_ok s"
proof (induction rule: delegation_reach.induct)
  case fresh
  show ?case by (simp add: store_ok_def createDelegationStore_def)
qed (metis store_ok_create store_ok_update store_ok_revoke surjective_pairing)+

text \<open>In every store reachable by creations, updates and revocations, each owner has at most one
  record, filed under that owner: the delegate is someone else, the permissions are a nonempty
  subset of read and write in which write implies read, the policy source tells who made it, and a
  delegation forced by the tenant master has a reason.\<close>

theorem delegation_records_ok:
  assumes "delegation_reach s"
  shows "distinct (map fst (ds_records s))
    \<and> (\<forall>owner r. map_of (ds_records s) owner = Some r \<longrightarrow> delegation_ok owner r)"
  using delegation_reach_ok [OF assms] by (auto simp: store_ok_def)

subsection \<open>The store as the delegation contract of \<open>authorize\<close>\<close>

definition store_access :: "(string \<Rightarrow> int option) \<Rightarrow> jsval \<Rightarrow> delegation_store \<Rightarrow> delegation_access" where
  "store_access pd clk s a t p =
     (case canAccess pd clk (actor_js a) (opt_js t) p s of Inl _ \<Rightarrow> None | Inr b \<Rightarrow> Some b)"

definition store_grants :: "(string \<Rightarrow> int option) \<Rightarrow> jsval \<Rightarrow> delegation_store \<Rightarrow>
    string \<Rightarrow> string \<Rightarrow> string \<Rightarrow> string \<Rightarrow> bool" where
  "store_grants pd clk s tenant owner delegate p =
     (case (map_of (ds_records s) owner, to_date pd clk) of
        (Some r, Some now) \<Rightarrow> dr_tenantId r = tenant \<and> dr_delegateUserId r = delegate
          \<and> isActive r now \<and> p \<in> set (dr_permissions r)
      | _ \<Rightarrow> False)"

lemma canAccess_True:
  assumes "canAccess pd clk actor v p s = Inr True"
  obtains c owner where "normalizeActor actor = Inr c" "v = JStr owner" "aa_role c = UserRole"
    "aa_userId c = Some owner \<or> (\<exists>u. aa_userId c = Some u \<and> store_grants pd clk s (aa_tenantId c) owner u p)"
proof -
  from assms obtain c owner where c: "normalizeActor actor = Inr c" "v = JStr owner" "aa_role c = UserRole"
    and rest: "aa_userId c = Some owner \<or> (\<exists>r now. map_of (ds_records s) owner = Some r
       \<and> to_date pd clk = Some now \<and> dr_tenantId r = aa_tenantId c
       \<and> aa_userId c = Some (dr_delegateUserId r) \<and> isActive r now \<and> p \<in> set (dr_permissions r))"
    by (auto simp: canAccess_def delegation_now_def split: sum.split_asm if_split_asm option.split_asm)
  then show ?thesis by (intro that [OF c]) (auto simp: store_grants_def)
qed

interpretation ds: delegation_contract "store_access pd clk s" "store_grants pd clk s" for pd clk s
proof unfold_locales
  fix a u owner p
  assume can: "canonical_actor a" and u: "aa_userId a = Some u" "u \<noteq> owner"
    and yes: "store_access pd clk s a (Some owner) p = Some True"
  from yes have "canAccess pd clk (actor_js a) (opt_js (Some owner)) p s = Inr True"
    by (auto simp: store_access_def split: sum.split_asm)
  then show "store_grants pd clk s (aa_tenantId a) owner u p"
    by (rule canAccess_True) (use can u in \<open>auto simp: opt_js_def\<close>)
qed

subsection \<open>Properties\<close>

text \<open>C3 The content of another user: whenever \<open>authorize\<close>, asked with the delegation store, lets a
  user act on a user other than themselves, the permission is a content permission and the store
  holds an active record of that owner, of the same tenant, naming the actor as the delegate, with
  the permission asked for (read for \<open>content.read\<close>, write for \<open>content.write\<close>).\<close>

theorem foreign_content_needs_active_delegation:
  assumes "authorize v rq = Inr d" "rq_delegationStore rq = Some (store_access pd clk s)"
    "de_actorRole d = UserRole" "de_targetUserId d = Some owner" "owner \<noteq> de_actorId d"
  shows "de_permission d \<in> {''content.read'', ''content.write''}
    \<and> (\<exists>r now. map_of (ds_records s) owner = Some r \<and> to_date pd clk = Some now
        \<and> dr_tenantId r = de_tenantId d \<and> dr_delegateUserId r = de_actorId d \<and> isActive r now
        \<and> (if de_permission d = ''content.write'' then ''write'' else ''read'') \<in> set (dr_permissions r))"
  using ds.other_users_content_needs_a_grant [OF assms]
  by (auto simp: store_grants_def CONTENT_PERMISSIONS_def split: option.splits)

definition example_pd :: "string \<Rightarrow> int option" where \<comment> \<open>a \<open>Date.parse\<close> that accepts nothing\<close>
  "example_pd s = None"

definition example_delegation :: delegation_store where
  "example_delegation = \<lparr>ds_records = [(''ada'', \<lparr>dr_tenantId = ''t1'', dr_ownerUserId = ''ada'',
     dr_delegateUserId = ''bob'', dr_permissions = [''read''], dr_forced = False,
     dr_policySource = ''user_delegated'', dr_reason = None, dr_createdAt = 1000, dr_updatedAt = 1000,
     dr_expiresAt = None, dr_actorId = ''ada''\<rparr>)],
     ds_history = [\<lparr>dv_eventType = DCreated, dv_tenantId = ''t1'', dv_actorId = ''ada'',
       dv_actorRole = UserRole, dv_ownerUserId = ''ada'', dv_delegateUserId = ''bob'',
       dv_permissions = [''read''], dv_forced = False, dv_result = ''success'', dv_reason = None,
       dv_occurredAt = 1000\<rparr>]\<rparr>"

definition example_delegation_input :: delegation_input where
  "example_delegation_input = \<lparr>di_ownerUserId = JStr ''ada'', di_delegateUserId = JStr ''bob'',
     di_permissions = JUndef, di_expiresAt = JUndef, di_reason = JUndef, di_forced = JUndef\<rparr>"

lemma example_delegation_created:
  "snd (createDelegation example_pd (JInt 1000) (example_actor UserRole ''ada'') example_delegation_input
     createDelegationStore) = example_delegation"
  by code_simp

lemma example_delegation_reach: "delegation_reach example_delegation"
  using by_create [OF fresh, of example_pd "JInt 1000" "example_actor UserRole ''ada''" example_delegation_input]
  by (simp add: example_delegation_created)

lemma delegation_records_ok_witness:
  "delegation_ok ''ada'' (snd (hd (ds_records example_delegation)))"
  using delegation_records_ok [OF example_delegation_reach, THEN conjunct2, THEN spec, of "''ada''"]
  by (simp add: example_delegation_def)

definition example_content_request :: "delegation_store \<Rightarrow> authorization_request" where
  "example_content_request s = default_request\<lparr>rq_permission := JStr ''content.read'',
     rq_targetUserId := JStr ''ada'', rq_delegationStore := Some (store_access example_pd (JInt 2000) s)\<rparr>"

lemma example_content_authorized:
  "authorize (example_actor UserRole ''bob'') (example_content_request example_delegation)
   = Inr \<lparr>de_tenantId = ''t1'', de_actorId = ''bob'', de_actorRole = UserRole,
       de_targetUserId = Some ''ada'', de_permission = ''content.read'', de_resource = None,
       de_content = True, de_policyField = None\<rparr>"
  by code_simp

lemma foreign_content_needs_active_delegation_witness:
  "\<exists>r. map_of (ds_records example_delegation) ''ada'' = Some r \<and> isActive r 2000
     \<and> dr_delegateUserId r = ''bob''"
  using foreign_content_needs_active_delegation [OF example_content_authorized, of example_pd "JInt 2000" example_delegation "''ada''"]
  by (auto simp: example_content_request_def date_ok_def max_date_def)

text \<open>Revocation is effective at once: after a successful revocation no user but the owner is given
  access to the owner's content at that time or later, with either permission and in any tenant.\<close>

theorem revoked_means_no_access:
  assumes rev: "revokeDelegation pd clk actor (JStr owner) why s = (Inr w, s1)"
    and now: "to_date pd clk = Some now" and later: "to_date pd clk' = Some t" "now \<le> t"
    and other: "normalizeActor user = Inr c" "aa_userId c \<noteq> Some owner"
  shows "canAccess pd clk' user (JStr owner) p s1 = Inr False"
proof -
  obtain c0 o0 r n0 reason where a: "active_record pd clk actor (JStr owner) s = Inr (c0, o0, r, n0)"
    and s0: "s1 = put_record o0 (r\<lparr>dr_expiresAt := Some n0, dr_updatedAt := n0,
        dr_actorId := aa_actorId c0\<rparr>) DRevoked c0 reason s"
    using rev unfolding revokeDelegation_def Let_def by (auto split: prod.splits)
  from a have "o0 = owner" "n0 = now" by (rule active_record_InrE; use now in \<open>auto elim: assertTenantOwner_InrE\<close>)+
  note s1 = s0 [unfolded this]
  have "map_of (ds_records s1) owner = Some (r\<lparr>dr_expiresAt := Some now, dr_updatedAt := now,
      dr_actorId := aa_actorId c0\<rparr>)" by (simp add: s1 put_record_def)
  with later other show ?thesis
    by (auto simp: canAccess_def isActive_def delegation_now_def split: sum.splits)
qed

lemma revoked_means_no_access_witness:
  "canAccess example_pd (JInt 3000) (example_actor UserRole ''bob'') (JStr ''ada'') ''read''
     (snd (revokeDelegation example_pd (JInt 3000) (example_actor UserRole ''ada'') (JStr ''ada'') JUndef example_delegation))
   = Inr False"
proof -
  have "is_ok (fst (revokeDelegation example_pd (JInt 3000) (example_actor UserRole ''ada'') (JStr ''ada'')
     JUndef example_delegation))" by code_simp
  then obtain w s1 where r: "revokeDelegation example_pd (JInt 3000) (example_actor UserRole ''ada'')
     (JStr ''ada'') JUndef example_delegation = (Inr w, s1)"
    by (metis is_ok_iff surjective_pairing)
  have "normalizeActor (example_actor UserRole ''bob'') = Inr \<lparr>aa_tenantId = ''t1'', aa_domain = ''t1.test'',
     aa_actorId = ''bob'', aa_userId = Some ''bob'', aa_role = UserRole\<rparr>" by code_simp
  from revoked_means_no_access [OF r _ _ _ this, of 3000 "JInt 3000" 3000 "''read''"] r show ?thesis
    by (simp add: date_ok_def max_date_def)
qed

text \<open>The store is keyed by the owner's id alone: an active delegation of one tenant makes every
  \<open>create\<close> for a user of another tenant with the same id fail, although \<open>get\<close> tells that tenant that
  no delegation exists and \<open>revoke\<close> refuses to remove it.\<close>

theorem delegation_blocks_other_tenant:
  assumes held: "map_of (ds_records s) owner = Some r" "isActive r now"
    and owner: "assertTenantOwner actor (JStr owner) = Inr (c, owner)" "dr_tenantId r \<noteq> aa_tenantId c"
    and now: "to_date pd clk = Some now" and inp: "di_ownerUserId i = JStr owner"
  shows "\<not> is_ok (fst (createDelegation pd clk actor i s)) \<and> snd (createDelegation pd clk actor i s) = s
     \<and> getDelegation pd clk actor (JStr owner) s = Inl (delegationError ''NOT_FOUND'' 404)
     \<and> revokeDelegation pd clk actor (JStr owner) why s = (Inl (delegationError ''CROSS_TENANT_DENIED'' 403), s)"
proof (intro conjI)
  show "\<not> is_ok (fst (createDelegation pd clk actor i s))"
    using held owner now inp unfolding createDelegation_def Let_def
    by (auto simp: is_ok_def delegation_now_def liftE_def split: sum.splits)
  show "snd (createDelegation pd clk actor i s) = s"
    using held owner now inp unfolding createDelegation_def Let_def
    by (auto simp: delegation_now_def liftE_def split: sum.splits)
  show "getDelegation pd clk actor (JStr owner) s = Inl (delegationError ''NOT_FOUND'' 404)"
    using held owner by (auto simp: getDelegation_def assertSafeUserId_def elim!: assertTenantOwner_InrE)
  show "revokeDelegation pd clk actor (JStr owner) why s = (Inl (delegationError ''CROSS_TENANT_DENIED'' 403), s)"
    using held owner now by (simp add: revokeDelegation_def active_record_def delegation_now_def)
qed

definition example_other_tenant :: jsval where
  "example_other_tenant = JObj [(''tenantId'', JStr ''t2''), (''domain'', JStr ''t2.test''),
     (''actorId'', JStr ''ada''), (''role'', JStr ''user'')]"

lemma delegation_blocks_other_tenant_witness:
  "\<not> is_ok (fst (createDelegation example_pd (JInt 2000) example_other_tenant example_delegation_input example_delegation))
   \<and> is_ok (fst (createDelegation example_pd (JInt 2000) example_other_tenant example_delegation_input createDelegationStore))"
proof
  have "assertTenantOwner example_other_tenant (JStr ''ada'') = Inr (\<lparr>aa_tenantId = ''t2'',
     aa_domain = ''t2.test'', aa_actorId = ''ada'', aa_userId = Some ''ada'', aa_role = UserRole\<rparr>, ''ada'')"
    by code_simp
  from delegation_blocks_other_tenant [OF _ _ this, of example_delegation _ 2000 example_pd "JInt 2000" example_delegation_input]
  show "\<not> is_ok (fst (createDelegation example_pd (JInt 2000) example_other_tenant example_delegation_input example_delegation))"
    by (simp add: example_delegation_def example_delegation_input_def isActive_def date_ok_def max_date_def)
  show "is_ok (fst (createDelegation example_pd (JInt 2000) example_other_tenant example_delegation_input createDelegationStore))"
    by code_simp
qed

end
