(* ===== verification/Admin_Tools.thy ===== *)
theory Admin_Tools
  imports Rbac
begin

section \<open>The audit ledger and the administration tools\<close>

text \<open>
  \<open>src/core/admin/admin-tools.ts\<close>: the metadata-only audit store, bounded to its newest events, and
  the authorization wrapper around the queue adapter and the audit store.  The queue adapter is an
  argument: a function from the actor and the options to the value its \<open>view\<close> returns, or the error
  it throws.  \<open>pd\<close> is \<open>Date.parse\<close>, \<open>ns\<close> the decimal text JavaScript gives a number.
\<close>

record audit_input =
  ai_eventType :: jsval
  ai_subjectId :: jsval
  ai_resourceId :: jsval
  ai_action :: jsval
  ai_result :: jsval
  ai_reason :: jsval
  ai_requestId :: jsval
  ai_correlationId :: jsval
  ai_occurredAt :: jsval
  ai_metadata :: jsval

record audit_event =
  av_eventType :: string
  av_tenantId :: string
  av_actorId :: string
  av_actorRole :: role
  av_subjectId :: "string option"
  av_resourceId :: "string option"
  av_action :: "string option"
  av_result :: string
  av_reason :: "string option"
  av_requestId :: "string option"
  av_correlationId :: "string option"
  av_occurredAt :: int
  av_metadata :: "(string \<times> jsval) list"

record audit_query =
  aq_eventType :: jsval
  aq_subjectUserId :: jsval
  aq_limit :: jsval
  aq_masterLogAccess :: bool

record audit_store =
  au_maxEvents :: nat
  au_events :: "audit_event list"

subsection \<open>What may be written\<close>

definition adminToolsError :: "string \<Rightarrow> nat \<Rightarrow> err" where
  "adminToolsError code status = Err AdminToolsErr code status"

definition SAFE_METADATA_KEYS :: "string list" where
  "SAFE_METADATA_KEYS = [''action'', ''changedFields'', ''correlationId'', ''count'', ''queueId'',
     ''reason'', ''requestId'', ''resourceId'', ''sizeBytes'', ''sourceNetwork'', ''state'',
     ''statusCode'', ''subjectId'', ''targetUserId'', ''userAgent'']"

definition SENSITIVE_WORDS :: "string list" where
  "SENSITIVE_WORDS = [''authorization'', ''cookie'', ''credential'', ''private'', ''secret'',
     ''password'', ''passphrase'', ''token'', ''body'', ''content'', ''message'', ''payload'',
     ''attachment'', ''raw'', ''dsn'', ''key'']"

definition sensitive_key :: "string \<Rightarrow> bool" where \<comment> \<open>the pattern has the flag \<open>i\<close>\<close>
  "sensitive_key k \<longleftrightarrow> list_ex (\<lambda>w. contains_str w (lower k)) SENSITIVE_WORDS"

definition RESULT_VALUES :: "string list" where
  "RESULT_VALUES = [''success'', ''failure'', ''denied'', ''deferred'']"

definition list_item_ok :: "jsval \<Rightarrow> bool" where
  "list_item_ok v = (case v of JStr s \<Rightarrow> run_of (\<lambda>c. is_alnum c \<or> one_of ''_.:-'' c) 96 s | _ \<Rightarrow> False)"

definition safe_value :: "jsval \<Rightarrow> bool" where
  "safe_value v = (case v of JNull \<Rightarrow> True | JBool _ \<Rightarrow> True | JInt n \<Rightarrow> is_safe_int n
     | JStr s \<Rightarrow> length s \<le> 256 \<and> \<not> list_ex is_line_break s
     | JArr vs \<Rightarrow> length vs \<le> 64 \<and> list_all list_item_ok vs
     | _ \<Rightarrow> False)"

definition cloneValue :: "jsval \<Rightarrow> jsval res" where
  "cloneValue v = (if safe_value v then Inr v else Inl (adminToolsError ''UNSAFE_AUDIT_DATA'' 400))"

fun normalizeEntries :: "(string \<times> jsval) list \<Rightarrow> (string \<times> jsval) list res" where
  "normalizeEntries [] = Inr []"
| "normalizeEntries ((k, v) # kvs) =
     (if k \<notin> set SAFE_METADATA_KEYS \<or> sensitive_key k
      then Inl (adminToolsError ''SENSITIVE_AUDIT_DATA'' 400)
      else bindE (cloneValue v) (\<lambda>w. bindE (normalizeEntries kvs) (\<lambda>ws. Inr ((k, w) # ws))))"

definition normalizeMetadata :: "jsval \<Rightarrow> (string \<times> jsval) list res" where
  "normalizeMetadata v = (case js_default v (JObj []) of
       JObj kvs \<Rightarrow> normalizeEntries kvs
     | JDate _ \<Rightarrow> Inr []
     | _ \<Rightarrow> Inl (adminToolsError ''INVALID_AUDIT_DATA'' 400))"

definition event_type_ok :: "string \<Rightarrow> bool" where
  "event_type_ok s = (let ws = split_by (one_of ''._-'') s in
     2 \<le> length ws \<and> length ws \<le> 6 \<and> length s \<le> 96 \<and> hd ws \<noteq> [] \<and> is_lower (hd (hd ws))
     \<and> list_all (\<lambda>w. w \<noteq> [] \<and> list_all is_lowdig w) ws)"

definition normalizeEventType :: "jsval \<Rightarrow> string res" where
  "normalizeEventType v = (case v of JStr s \<Rightarrow> if event_type_ok s then Inr s
       else Inl (adminToolsError ''INVALID_AUDIT_DATA'' 400)
     | _ \<Rightarrow> Inl (adminToolsError ''INVALID_AUDIT_DATA'' 400))"

definition audit_reason_ok :: "string \<Rightarrow> bool" where
  "audit_reason_ok s \<longleftrightarrow> run_of (\<lambda>c. is_alnum c \<or> one_of ''_.: -'' c) 256 s"

definition auditReason :: "jsval \<Rightarrow> string option res" where
  "auditReason v = (if nullish v then Inr None else (case v of
       JStr s \<Rightarrow> if audit_reason_ok (trim s) then Inr (Some (trim s))
                 else Inl (adminToolsError ''INVALID_AUDIT_DATA'' 400)
     | _ \<Rightarrow> Inl (adminToolsError ''INVALID_AUDIT_DATA'' 400)))"

definition request_id_ok :: "string \<Rightarrow> bool" where
  "request_id_ok s \<longleftrightarrow> head_tail is_alnum (\<lambda>c. is_alnum c \<or> one_of ''._:-'' c) 127 s"

definition normalizeRequestId :: "jsval \<Rightarrow> string option res" where
  "normalizeRequestId v = (if nullish v then Inr None else (case v of
       JStr s \<Rightarrow> if request_id_ok s then Inr (Some s) else Inl (adminToolsError ''INVALID_AUDIT_DATA'' 400)
     | _ \<Rightarrow> Inl (adminToolsError ''INVALID_AUDIT_DATA'' 400)))"

definition auditTimestamp :: "(string \<Rightarrow> int option) \<Rightarrow> jsval \<Rightarrow> int res" where
  "auditTimestamp pd v = (case to_date pd v of
       None \<Rightarrow> Inl (adminToolsError ''INVALID_AUDIT_DATA'' 400) | Some t \<Rightarrow> Inr t)"

text \<open>The checks of \<open>subjectId\<close> and \<open>resourceId\<close>, and that of \<open>action\<close>.\<close>

definition short_id :: "jsval \<Rightarrow> string option res" where
  "short_id v = (case js_default v JNull of JNull \<Rightarrow> Inr None
     | JStr s \<Rightarrow> if length s \<le> 128 then Inr (Some s) else Inl (adminToolsError ''INVALID_AUDIT_DATA'' 400)
     | _ \<Rightarrow> Inl (adminToolsError ''INVALID_AUDIT_DATA'' 400))"

definition action_ok :: "nat \<Rightarrow> string \<Rightarrow> bool" where
  "action_ok n s \<longleftrightarrow> head_tail is_lower (\<lambda>c. is_lowdig c \<or> one_of ''_.:-'' c) n s"

definition audit_action :: "jsval \<Rightarrow> string option res" where
  "audit_action v = (case js_default v JNull of JNull \<Rightarrow> Inr None
     | JStr s \<Rightarrow> if action_ok 95 s then Inr (Some s) else Inl (adminToolsError ''INVALID_AUDIT_DATA'' 400)
     | _ \<Rightarrow> Inl (adminToolsError ''INVALID_AUDIT_DATA'' 400))"

definition audit_result :: "jsval \<Rightarrow> string res" where
  "audit_result v = (case js_default v (JStr ''success'') of
       JStr s \<Rightarrow> if s \<in> set RESULT_VALUES then Inr s else Inl (adminToolsError ''INVALID_AUDIT_DATA'' 400)
     | _ \<Rightarrow> Inl (adminToolsError ''INVALID_AUDIT_DATA'' 400))"

subsection \<open>The audit store\<close>

definition createAuditStore :: "jsval \<Rightarrow> audit_store res" where
  "createAuditStore maxEvents = (case js_default maxEvents (JInt 10000) of
       JInt n \<Rightarrow> if 1 \<le> n \<and> n \<le> 1000000 then Inr \<lparr>au_maxEvents = nat n, au_events = []\<rparr>
                 else Inl (adminToolsError ''INVALID_CONFIGURATION'' 500)
     | _ \<Rightarrow> Inl (adminToolsError ''INVALID_CONFIGURATION'' 500))"

text \<open>\<open>events.push(event)\<close> and the \<open>splice\<close> that keeps the newest \<open>maxEvents\<close>.\<close>

definition push_event :: "audit_store \<Rightarrow> audit_event \<Rightarrow> audit_store" where
  "push_event s e = (let es = au_events s @ [e] in
     s\<lparr>au_events := (if au_maxEvents s < length es then drop (length es - au_maxEvents s) es else es)\<rparr>)"

definition audit_event_of :: "(string \<Rightarrow> int option) \<Rightarrow> jsval \<Rightarrow> jsval \<Rightarrow> audit_input \<Rightarrow> audit_event res" where
  "audit_event_of pd clk actor i =
     bindE (assertAdminActor actor) (\<lambda>c.
     bindE (normalizeEventType (ai_eventType i)) (\<lambda>ty.
     bindE (audit_result (ai_result i)) (\<lambda>res.
     bindE (short_id (ai_subjectId i)) (\<lambda>sub.
     bindE (short_id (ai_resourceId i)) (\<lambda>rsc.
     bindE (audit_action (ai_action i)) (\<lambda>act.
     bindE (auditTimestamp pd (js_or_else (ai_occurredAt i) clk)) (\<lambda>at.
     bindE (auditReason (ai_reason i)) (\<lambda>why.
     bindE (normalizeRequestId (ai_requestId i)) (\<lambda>rid.
     bindE (normalizeRequestId (ai_correlationId i)) (\<lambda>cid.
     bindE (normalizeMetadata (ai_metadata i)) (\<lambda>md.
     Inr \<lparr>av_eventType = ty, av_tenantId = aa_tenantId c, av_actorId = aa_actorId c,
          av_actorRole = aa_role c, av_subjectId = sub, av_resourceId = rsc, av_action = act,
          av_result = res, av_reason = why, av_requestId = rid, av_correlationId = cid,
          av_occurredAt = at, av_metadata = md\<rparr>)))))))))))"

definition auditRecord :: "(string \<Rightarrow> int option) \<Rightarrow> jsval \<Rightarrow> jsval \<Rightarrow> audit_input \<Rightarrow> audit_store \<Rightarrow>
    audit_event res \<times> audit_store" where
  "auditRecord pd clk actor i s =
     liftE (audit_event_of pd clk actor i) s (\<lambda>e. (Inr e, push_event s e))"

definition requested_subject :: "(jsval \<Rightarrow> string) \<Rightarrow> jsval \<Rightarrow> string option res" where
  "requested_subject ns v = (case js_default v JNull of JNull \<Rightarrow> Inr None | JStr s \<Rightarrow> Inr (Some s)
     | JBool b \<Rightarrow> Inr (Some (if b then ''true'' else ''false''))
     | JInt n \<Rightarrow> Inr (Some (ns (JInt n))) | JFrac n \<Rightarrow> Inr (Some (ns (JFrac n)))
     | JNonFinite \<Rightarrow> Inr (Some (ns JNonFinite))
     | _ \<Rightarrow> Inl (adminToolsError ''INVALID_AUDIT_DATA'' 400))"

definition audit_limit :: "jsval \<Rightarrow> nat res" where
  "audit_limit v = (case js_default v (JInt 100) of
       JInt n \<Rightarrow> if 1 \<le> n \<and> n \<le> 1000 then Inr (nat n) else Inl (adminToolsError ''INVALID_LIMIT'' 400)
     | _ \<Rightarrow> Inl (adminToolsError ''INVALID_LIMIT'' 400))"

definition audit_visible :: "admin_actor \<Rightarrow> string option \<Rightarrow> string option \<Rightarrow> audit_event \<Rightarrow> bool" where
  "audit_visible c ty sub e \<longleftrightarrow> av_tenantId e = aa_tenantId c \<and> (ty = None \<or> ty = Some (av_eventType e))
     \<and> (if aa_role c \<noteq> UserRole then sub = None \<or> av_subjectId e = sub
        else av_actorId e = aa_actorId c \<or> av_subjectId e = aa_userId c)"

definition last_n :: "nat \<Rightarrow> 'a list \<Rightarrow> 'a list" where \<comment> \<open>\<open>slice(-n)\<close> for \<open>n > 0\<close>\<close>
  "last_n n xs = drop (length xs - n) xs"

definition auditView :: "(jsval \<Rightarrow> string) \<Rightarrow> jsval \<Rightarrow> audit_query \<Rightarrow> audit_store \<Rightarrow> audit_event list res" where
  "auditView ns actor q s =
     bindE (assertAdminActor actor) (\<lambda>c.
     bindE (audit_limit (aq_limit q)) (\<lambda>n.
     bindE (requested_subject ns (aq_subjectUserId q)) (\<lambda>sub.
     bindE (if aa_role c = UserRole
            then (if sub \<noteq> None \<and> sub \<noteq> aa_userId c
                  then Inl (authorizationError ''USER_SCOPE_DENIED'' 403)
                  else authorize (actor_js c) (default_request\<lparr>rq_permission := JStr ''audit.read.self'',
                    rq_targetUserId := opt_js (aa_userId c), rq_resource := Some ''audit''\<rparr>))
            else authorize (actor_js c) (default_request\<lparr>rq_permission := JStr ''audit.read'',
                    rq_resource := Some ''audit'', rq_masterLogAccess := aq_masterLogAccess q\<rparr>)) (\<lambda>_.
     bindE (if js_default (aq_eventType q) JNull = JNull then Inr None
            else bindE (normalizeEventType (aq_eventType q)) (\<lambda>ty. Inr (Some ty))) (\<lambda>ty.
     Inr (rev (last_n n (filter (audit_visible c ty sub) (au_events s)))))))))"

definition auditSize :: "audit_store \<Rightarrow> nat" where
  "auditSize s = length (au_events s)"

subsection \<open>The administration tools\<close>

definition QUEUE_FIELDS :: "string list" where
  "QUEUE_FIELDS = [''queueId'', ''tenantId'', ''sender'', ''recipients'', ''sizeBytes'', ''state'',
     ''attempts'', ''createdAt'', ''updatedAt'', ''nextAttemptAt'', ''reason'']"

definition sanitizeQueueEntry :: "jsval \<Rightarrow> jsval res" where
  "sanitizeQueueEntry e = (if \<not> is_object e then Inl (adminToolsError ''QUEUE_ADAPTER_INVALID'' 500)
     else Inr (JObj (map (\<lambda>k. (k, jget e k)) (filter (\<lambda>k. jget e k \<noteq> JUndef) QUEUE_FIELDS))))"

record admin_tools =
  at_queue :: "(admin_actor \<Rightarrow> jsval \<Rightarrow> jsval res) option"
  at_audit :: "audit_store option"
  at_masterLogAccess :: bool

record queue_action =
  qa_tenantId :: string
  qa_actorId :: string
  qa_action :: string
  qa_queueId :: "string option"

definition viewQueue :: "admin_tools \<Rightarrow> jsval \<Rightarrow> jsval \<Rightarrow> jsval list res" where
  "viewQueue t actor options =
     bindE (assertAdminActor actor) (\<lambda>c.
     bindE (authorize (actor_js c) (default_request\<lparr>rq_permission := JStr ''queue.read'',
              rq_resource := Some ''mail_queue''\<rparr>)) (\<lambda>_.
     case at_queue t of
       None \<Rightarrow> Inl (adminToolsError ''QUEUE_UNAVAILABLE'' 503)
     | Some view \<Rightarrow> bindE (view c options) (\<lambda>es. case es of
           JArr vs \<Rightarrow> mapE sanitizeQueueEntry vs
         | _ \<Rightarrow> Inl (adminToolsError ''QUEUE_ADAPTER_INVALID'' 500))))"

definition authorizeQueueAction :: "jsval \<Rightarrow> jsval \<Rightarrow> jsval \<Rightarrow> queue_action res" where
  "authorizeQueueAction actor action queueId =
     bindE (assertAdminActor actor) (\<lambda>c.
     bindE (authorize (actor_js c) (default_request\<lparr>rq_permission := JStr ''queue.action'',
              rq_resource := Some ''mail_queue''\<rparr>)) (\<lambda>_.
     bindE (case js_default action (JStr ''retry'') of
         JStr s \<Rightarrow> if action_ok 63 s then Inr s else Inl (adminToolsError ''INVALID_ACTION'' 400)
       | _ \<Rightarrow> Inl (adminToolsError ''INVALID_ACTION'' 400)) (\<lambda>a.
     bindE (case js_default queueId JNull of
         JNull \<Rightarrow> Inr None
       | JStr s \<Rightarrow> if request_id_ok s then Inr (Some s) else Inl (adminToolsError ''INVALID_QUEUE_ID'' 400)
       | _ \<Rightarrow> Inl (adminToolsError ''INVALID_QUEUE_ID'' 400)) (\<lambda>i.
     Inr \<lparr>qa_tenantId = aa_tenantId c, qa_actorId = aa_actorId c, qa_action = a, qa_queueId = i\<rparr>))))"

definition viewAudit :: "(jsval \<Rightarrow> string) \<Rightarrow> admin_tools \<Rightarrow> jsval \<Rightarrow> audit_query \<Rightarrow> audit_event list res" where
  "viewAudit ns t actor q = (case at_audit t of
       None \<Rightarrow> Inl (adminToolsError ''AUDIT_UNAVAILABLE'' 503)
     | Some s \<Rightarrow> bindE (assertAdminActor actor) (\<lambda>c.
         auditView ns (actor_js c) (q\<lparr>aq_masterLogAccess := at_masterLogAccess t\<rparr>) s))"

definition recordAudit :: "(string \<Rightarrow> int option) \<Rightarrow> jsval \<Rightarrow> admin_tools \<Rightarrow> jsval \<Rightarrow> audit_input \<Rightarrow>
    audit_event res \<times> admin_tools" where
  "recordAudit pd clk t actor i = (case at_audit t of
       None \<Rightarrow> (Inl (adminToolsError ''AUDIT_UNAVAILABLE'' 503), t)
     | Some s \<Rightarrow> (case auditRecord pd clk actor i s of (r, s1) \<Rightarrow> (r, t\<lparr>at_audit := Some s1\<rparr>)))"

lemmas admin_tools_defs [code_defs] = adminToolsError_def SAFE_METADATA_KEYS_def SENSITIVE_WORDS_def
  sensitive_key_def RESULT_VALUES_def list_item_ok_def safe_value_def cloneValue_def
  normalizeMetadata_def event_type_ok_def normalizeEventType_def audit_reason_ok_def auditReason_def
  request_id_ok_def normalizeRequestId_def auditTimestamp_def short_id_def action_ok_def
  audit_action_def audit_result_def createAuditStore_def push_event_def audit_event_of_def
  auditRecord_def requested_subject_def audit_limit_def audit_visible_def last_n_def auditView_def
  auditSize_def QUEUE_FIELDS_def sanitizeQueueEntry_def viewQueue_def authorizeQueueAction_def
  viewAudit_def recordAudit_def

subsection \<open>The audit invariant\<close>

definition audit_event_ok :: "audit_event \<Rightarrow> bool" where
  "audit_event_ok e \<longleftrightarrow> event_type_ok (av_eventType e) \<and> tenant_id_ok (av_tenantId e)
     \<and> actor_id_ok (av_actorId e) \<and> av_result e \<in> set RESULT_VALUES
     \<and> (\<forall>(k, v)\<in>set (av_metadata e). k \<in> set SAFE_METADATA_KEYS \<and> \<not> sensitive_key k \<and> safe_value v)"

definition audit_ok :: "audit_store \<Rightarrow> bool" where
  "audit_ok s \<longleftrightarrow> 1 \<le> au_maxEvents s \<and> length (au_events s) \<le> au_maxEvents s
     \<and> (\<forall>e\<in>set (au_events s). audit_event_ok e)"

lemma normalizeEntries_safe:
  "normalizeEntries kvs = Inr ws \<Longrightarrow>
   \<forall>(k, v)\<in>set ws. k \<in> set SAFE_METADATA_KEYS \<and> \<not> sensitive_key k \<and> safe_value v"
  by (induction kvs arbitrary: ws rule: normalizeEntries.induct)
     (auto simp: cloneValue_def split: if_split_asm)

lemma normalizeMetadata_safe:
  "normalizeMetadata v = Inr ws \<Longrightarrow>
   \<forall>(k, v)\<in>set ws. k \<in> set SAFE_METADATA_KEYS \<and> \<not> sensitive_key k \<and> safe_value v"
  unfolding normalizeMetadata_def using normalizeEntries_safe by (fastforce split: jsval.split_asm)

lemma audit_event_of_ok:
  assumes "audit_event_of pd clk actor i = Inr e" shows "audit_event_ok e"
proof -
  from assms obtain c ty res md where c: "normalizeActor actor = Inr c"
    and ty: "normalizeEventType (ai_eventType i) = Inr ty" and res: "audit_result (ai_result i) = Inr res"
    and md: "normalizeMetadata (ai_metadata i) = Inr md"
    and e: "av_eventType e = ty" "av_tenantId e = aa_tenantId c" "av_actorId e = aa_actorId c"
      "av_result e = res" "av_metadata e = md"
    unfolding audit_event_of_def assertAdminActor_def by auto
  have "event_type_ok ty" using ty by (auto simp: normalizeEventType_def split: jsval.split_asm if_split_asm)
  moreover have "res \<in> set RESULT_VALUES"
    using res by (auto simp: audit_result_def split: jsval.split_asm if_split_asm)
  ultimately show ?thesis
    using normalizeActor_canonical [OF c] normalizeMetadata_safe [OF md] e
    by (simp add: audit_event_ok_def canonical_actor_def)
qed

lemma push_event_events:
  "au_events (push_event s e) = last_n (au_maxEvents s) (au_events s @ [e])"
  by (auto simp: push_event_def last_n_def Let_def)

lemma set_last_n: "set (last_n n xs) \<subseteq> set xs"
  unfolding last_n_def by (rule set_drop_subset)

lemma length_last_n [simp]: "length (last_n n xs) = min n (length xs)"
  by (simp add: last_n_def)

lemma audit_ok_push:
  assumes "audit_ok s" "audit_event_ok e" shows "audit_ok (push_event s e)"
proof -
  have "set (au_events (push_event s e)) \<subseteq> insert e (set (au_events s))"
    using set_last_n [of "au_maxEvents s" "au_events s @ [e]"] by (simp add: push_event_events)
  moreover have "au_maxEvents (push_event s e) = au_maxEvents s" by (simp add: push_event_def Let_def)
  ultimately show ?thesis using assms by (auto simp: audit_ok_def push_event_events)
qed

inductive audit_reach :: "nat \<Rightarrow> audit_store \<Rightarrow> bool" where
  started: "createAuditStore v = Inr s \<Longrightarrow> audit_reach (au_maxEvents s) s"
| recorded: "audit_reach n s \<Longrightarrow> audit_reach n (snd (auditRecord pd clk actor i s))"

lemma audit_reach_ok: "audit_reach n s \<Longrightarrow> audit_ok s \<and> au_maxEvents s = n"
proof (induction rule: audit_reach.induct)
  case (started v s)
  then show ?case by (auto simp: createAuditStore_def audit_ok_def split: jsval.split_asm if_split_asm)
next
  case (recorded n s pd clk actor i)
  show ?case
  proof (cases "audit_event_of pd clk actor i")
    case (Inl e)
    with recorded show ?thesis by (simp add: auditRecord_def)
  next
    case (Inr e)
    with recorded audit_ok_push [OF _ audit_event_of_ok [OF Inr]] show ?thesis
      by (simp add: auditRecord_def) (simp add: push_event_def Let_def)
  qed
qed

subsection \<open>Properties\<close>

text \<open>The specification of the store: an unbounded log of the accepted events, of which the store
  keeps the newest \<open>maxEvents\<close>.\<close>

type_synonym audit_call = "jsval \<times> jsval \<times> audit_input"

fun accepted :: "(string \<Rightarrow> int option) \<Rightarrow> audit_call list \<Rightarrow> audit_event list" where
  "accepted pd [] = []"
| "accepted pd ((clk, actor, i) # cs) = (case audit_event_of pd clk actor i of
     Inl _ \<Rightarrow> accepted pd cs | Inr e \<Rightarrow> e # accepted pd cs)"

fun record_all :: "(string \<Rightarrow> int option) \<Rightarrow> audit_call list \<Rightarrow> audit_store \<Rightarrow> audit_store" where
  "record_all pd [] s = s"
| "record_all pd ((clk, actor, i) # cs) s = record_all pd cs (snd (auditRecord pd clk actor i s))"

lemma last_n_last_n_append: "last_n n (last_n n xs @ ys) = last_n n (xs @ ys)"
  by (cases "n \<le> length xs") (simp_all add: last_n_def add.commute)

text \<open>The bounded buffer refines the unbounded log: after any sequence of calls, failed ones
  included, the store holds exactly the newest \<open>maxEvents\<close> events of the log of accepted events, in
  order; nothing else is lost, duplicated or reordered.\<close>

theorem audit_store_is_newest_window:
  assumes "audit_ok s"
  shows "au_events (record_all pd cs s) = last_n (au_maxEvents s) (au_events s @ accepted pd cs)"
  using assms
proof (induction cs arbitrary: s rule: accepted.induct)
  case (1 pd)
  then show ?case by (simp add: audit_ok_def last_n_def)
next
  case (2 pd clk actor i cs)
  show ?case
  proof (cases "audit_event_of pd clk actor i")
    case (Inl e)
    with 2 show ?thesis by (simp add: auditRecord_def)
  next
    case (Inr e)
    have "au_maxEvents (push_event s e) = au_maxEvents s" by (simp add: push_event_def Let_def)
    with 2 Inr audit_ok_push [OF 2(3) audit_event_of_ok [OF Inr]] show ?thesis
      by (simp add: auditRecord_def push_event_events last_n_last_n_append)
  qed
qed

definition example_audit_input :: "string \<Rightarrow> audit_input" where
  "example_audit_input sub = \<lparr>ai_eventType = JStr ''user.updated'', ai_subjectId = JStr sub,
     ai_resourceId = JUndef, ai_action = JStr ''update'', ai_result = JUndef, ai_reason = JUndef,
     ai_requestId = JUndef, ai_correlationId = JUndef, ai_occurredAt = JUndef,
     ai_metadata = JObj [(''count'', JInt 2)]\<rparr>"

definition example_audit_store :: audit_store where
  "example_audit_store = \<lparr>au_maxEvents = 1, au_events = []\<rparr>"

definition example_audit_call :: "string \<Rightarrow> audit_call" where
  "example_audit_call sub = (JInt 5000, example_actor Provider ''ops'', example_audit_input sub)"

lemma example_audit_created: "createAuditStore (JInt 1) = Inr example_audit_store"
  by code_simp

lemma example_audit_reach: "audit_reach 1 example_audit_store"
  using audit_reach.started [OF example_audit_created] by (simp add: example_audit_store_def)

lemma audit_store_is_newest_window_witness:
  "map av_subjectId (au_events (record_all Map.empty
     [example_audit_call ''ada'', example_audit_call ''bob''] example_audit_store)) = [Some ''bob'']"
proof -
  have "map av_subjectId (last_n (au_maxEvents example_audit_store) (au_events example_audit_store @
     accepted Map.empty [example_audit_call ''ada'', example_audit_call ''bob''])) = [Some ''bob'']"
    by code_simp
  moreover have "audit_ok example_audit_store" using audit_reach_ok [OF example_audit_reach] by blast
  ultimately show ?thesis by (simp only: audit_store_is_newest_window)
qed

text \<open>The ledger is metadata only: every event of every reachable store was written by an actor with
  a valid identity, has a known result, and its metadata has allowed keys only, none of which
  matches the pattern of sensitive names, with values that are flags, safe integers, short strings
  on one line or short lists of plain identifiers; and the store never exceeds its bound.\<close>

theorem audit_ledger_is_metadata_only:
  assumes "audit_reach n s"
  shows "length (au_events s) \<le> n \<and> (\<forall>e\<in>set (au_events s). event_type_ok (av_eventType e)
     \<and> tenant_id_ok (av_tenantId e) \<and> actor_id_ok (av_actorId e) \<and> av_result e \<in> set RESULT_VALUES
     \<and> (\<forall>(k, v)\<in>set (av_metadata e). k \<in> set SAFE_METADATA_KEYS \<and> \<not> sensitive_key k \<and> safe_value v))"
  using audit_reach_ok [OF assms] by (auto simp: audit_ok_def audit_event_ok_def)

lemma audit_ledger_is_metadata_only_witness:
  "length (au_events (snd (auditRecord Map.empty (JInt 5000) (example_actor Provider ''ops'')
      (example_audit_input ''ada'') example_audit_store))) \<le> 1"
  using audit_ledger_is_metadata_only [OF audit_reach.recorded [OF example_audit_reach]] by blast

text \<open>Who sees what: a view returns at most 1000 events, all of the actor's own tenant; a user gets
  only the events they caused or that are about them, a tenant master gets any only when the policy
  opens the logs to the master, and the newest event comes first.\<close>

theorem audit_view_scope:
  assumes v: "auditView ns actor q s = Inr es" and c: "normalizeActor actor = Inr c"
  shows "length es \<le> 1000 \<and> (\<forall>e\<in>set es. e \<in> set (au_events s) \<and> av_tenantId e = aa_tenantId c
      \<and> (aa_role c = UserRole \<longrightarrow> av_actorId e = aa_actorId c \<or> av_subjectId e = Some (aa_actorId c)))
     \<and> (aa_role c = TenantMaster \<longrightarrow> aq_masterLogAccess q)
     \<and> (\<exists>ty sub n. es = rev (last_n n (filter (audit_visible c ty sub) (au_events s))))"
proof -
  from v c obtain n sub ty dcn where n: "audit_limit (aq_limit q) = Inr n"
    and auth: "(if aa_role c = UserRole
            then (if sub \<noteq> None \<and> sub \<noteq> aa_userId c
                  then Inl (authorizationError ''USER_SCOPE_DENIED'' 403)
                  else authorize (actor_js c) (default_request\<lparr>rq_permission := JStr ''audit.read.self'',
                    rq_targetUserId := opt_js (aa_userId c), rq_resource := Some ''audit''\<rparr>))
            else authorize (actor_js c) (default_request\<lparr>rq_permission := JStr ''audit.read'',
                    rq_resource := Some ''audit'', rq_masterLogAccess := aq_masterLogAccess q\<rparr>)) = Inr dcn"
    and es: "es = rev (last_n n (filter (audit_visible c ty sub) (au_events s)))"
    unfolding auditView_def assertAdminActor_def by auto
  have can: "canonical_actor c" by (rule normalizeActor_canonical [OF c])
  have "n \<le> 1000" using n by (auto simp: audit_limit_def split: jsval.split_asm if_split_asm)
  then have len: "length es \<le> 1000" by (simp add: es)
  have sub: "set es \<subseteq> {e \<in> set (au_events s). audit_visible c ty sub e}"
    unfolding es using set_last_n [of n "filter (audit_visible c ty sub) (au_events s)"] by simp
  have "aa_role c = TenantMaster \<Longrightarrow> aq_masterLogAccess q"
  proof -
    assume m: "aa_role c = TenantMaster"
    with auth have "authorize (actor_js c) (default_request\<lparr>rq_permission := JStr ''audit.read'',
       rq_resource := Some ''audit'', rq_masterLogAccess := aq_masterLogAccess q\<rparr>) = Inr dcn" by simp
    then show ?thesis
      by (rule authorize_InrE) (use m can in \<open>simp add: default_request_def\<close>)
  qed
  with len sub es can show ?thesis
    by (auto simp: audit_visible_def canonical_actor_def)
qed

definition example_audit_query :: audit_query where
  "example_audit_query = \<lparr>aq_eventType = JUndef, aq_subjectUserId = JUndef, aq_limit = JUndef,
     aq_masterLogAccess = False\<rparr>"

lemma audit_view_scope_witness:
  "\<exists>es. auditView (\<lambda>_. []) (example_actor UserRole ''bob'') example_audit_query
     (record_all Map.empty [example_audit_call ''ada'', example_audit_call ''bob'']
        \<lparr>au_maxEvents = 5, au_events = []\<rparr>) = Inr es
     \<and> length es = 1 \<and> (\<forall>e\<in>set es. av_subjectId e = Some ''bob'' \<or> av_actorId e = ''bob'')"
proof -
  let ?s = "record_all Map.empty [example_audit_call ''ada'', example_audit_call ''bob'']
     \<lparr>au_maxEvents = 5, au_events = []\<rparr>"
  have "(case auditView (\<lambda>_. []) (example_actor UserRole ''bob'') example_audit_query ?s of
      Inl _ \<Rightarrow> False | Inr es \<Rightarrow> length es = 1)" by code_simp
  then obtain es where es: "auditView (\<lambda>_. []) (example_actor UserRole ''bob'') example_audit_query ?s = Inr es"
    "length es = 1" by (auto split: sum.split_asm)
  have "normalizeActor (example_actor UserRole ''bob'') = Inr \<lparr>aa_tenantId = ''t1'', aa_domain = ''t1.test'',
     aa_actorId = ''bob'', aa_userId = Some ''bob'', aa_role = UserRole\<rparr>" by code_simp
  from audit_view_scope [OF es(1) this] es show ?thesis by auto
qed

end
