(* ===== verification/Mail_Queue.thy ===== *)
theory Mail_Queue
  imports Tenant_Context
begin

section \<open>The mail queue\<close>

text \<open>
  \<open>src/core/mail/mail-queue.ts\<close>: the delivery queue, a state machine per item with bounded attempts
  and exponential backoff.  The closure of \<open>createMailQueue\<close> is the record \<open>mail_queue\<close>.  Every call of
  \<open>clock()\<close> is an argument of its own, the time of the \<open>Date\<close> it returns or \<open>None\<close> for an invalid one,
  on which \<open>toISOString\<close> throws a \<open>RangeError\<close>; the code assigns to the entry before some of those
  calls, so a failing operation returns the queue as it was left.  \<open>fid\<close> is what the injected id
  factory returns, \<open>None\<close> when there is none.
\<close>

datatype queue_state = Queued | Delivering | Deferred | Delivered | Bounced | Quarantined

definition state_name :: "queue_state \<Rightarrow> string" where
  "state_name s = (case s of Queued \<Rightarrow> ''queued'' | Delivering \<Rightarrow> ''delivering''
     | Deferred \<Rightarrow> ''deferred'' | Delivered \<Rightarrow> ''delivered'' | Bounced \<Rightarrow> ''bounced''
     | Quarantined \<Rightarrow> ''quarantined'')"

record public_entry =
  qe_queueId :: string
  qe_tenantId :: string
  qe_sender :: string
  qe_recipients :: "string list"
  qe_sizeBytes :: int
  qe_state :: queue_state
  qe_attempts :: nat
  qe_createdAt :: int
  qe_updatedAt :: int
  qe_nextAttemptAt :: int
  qe_reason :: string

record queue_entry = public_entry +
  qe_messageRef :: jsval

record mail_queue =
  mq_maxAttempts :: nat
  mq_retryBaseMs :: int
  mq_entries :: "(string \<times> queue_entry) list"
  mq_sequence :: nat

subsection \<open>Checks\<close>

definition queueError :: "string \<Rightarrow> err" where
  "queueError code = Err MailQueueErr code 0"

definition safeReason :: "string \<Rightarrow> string" where
  "safeReason s = (if run_of (\<lambda>c. is_alnum c \<or> one_of ''_.:-'' c) 96 s then s else ''unspecified'')"

definition clonePublic :: "queue_entry \<Rightarrow> public_entry" where
  "clonePublic e = \<lparr>qe_queueId = qe_queueId e, qe_tenantId = qe_tenantId e, qe_sender = qe_sender e,
     qe_recipients = qe_recipients e, qe_sizeBytes = qe_sizeBytes e, qe_state = qe_state e,
     qe_attempts = qe_attempts e, qe_createdAt = qe_createdAt e, qe_updatedAt = qe_updatedAt e,
     qe_nextAttemptAt = qe_nextAttemptAt e, qe_reason = qe_reason e\<rparr>"

subsection \<open>Operations\<close>

definition createMailQueue :: "jsval \<Rightarrow> jsval \<Rightarrow> mail_queue res" where
  "createMailQueue maxAttempts retryBaseMs =
     bindE (need_int (\<lambda>n. 1 \<le> n \<and> n \<le> 100) (queueError ''INVALID_INPUT'') (js_default maxAttempts (JInt 5))) (\<lambda>n.
     bindE (need_int (\<lambda>b. 1000 \<le> b) (queueError ''INVALID_INPUT'') (js_default retryBaseMs (JInt 60000))) (\<lambda>b.
     Inr \<lparr>mq_maxAttempts = nat n, mq_retryBaseMs = b, mq_entries = [], mq_sequence = 0\<rparr>))"

definition queue_get :: "mail_queue \<Rightarrow> string \<Rightarrow> queue_entry res" where
  "queue_get q i = (case map_of (mq_entries q) i of
     None \<Rightarrow> Inl (queueError ''NOT_FOUND'') | Some e \<Rightarrow> Inr e)"

definition queue_put :: "string \<Rightarrow> queue_entry \<Rightarrow> mail_queue \<Rightarrow> mail_queue" where
  "queue_put i e q = q\<lparr>mq_entries := AList.update i e (mq_entries q)\<rparr>"

definition default_queue_id :: "nat \<Rightarrow> string" where
  "default_queue_id n = ''q-'' @ pad8 n"

definition new_entry :: "string \<Rightarrow> string \<Rightarrow> string \<Rightarrow> string list \<Rightarrow> int \<Rightarrow> int \<Rightarrow> string option \<Rightarrow> jsval \<Rightarrow> queue_entry" where
  "new_entry i tenant s rs n t reason messageRef = \<lparr>qe_queueId = i, qe_tenantId = tenant, qe_sender = s,
     qe_recipients = dedup rs, qe_sizeBytes = n, qe_state = Queued, qe_attempts = 0, qe_createdAt = t,
     qe_updatedAt = t, qe_nextAttemptAt = t,
     qe_reason = safeReason (case reason of None \<Rightarrow> ''accepted'' | Some r \<Rightarrow> r),
     qe_messageRef = js_default messageRef JNull\<rparr>"

definition enqueue_input :: "int option \<Rightarrow> jsval \<Rightarrow> jsval \<Rightarrow> string list option \<Rightarrow> jsval \<Rightarrow>
    (string \<times> string \<times> string list \<times> int \<times> int) res" where
  "enqueue_input clk ctx sender recipients sizeBytes =
     bindE (assertTenantContext ctx) (\<lambda>c.
     bindE (need_str (\<lambda>s. s \<noteq> []) (queueError ''INVALID_INPUT'') sender) (\<lambda>s.
     case recipients of None \<Rightarrow> Inl (queueError ''INVALID_INPUT'')
     | Some rs \<Rightarrow>
         if rs = [] then Inl (queueError ''INVALID_INPUT'')
         else bindE (need_int (\<lambda>n. 0 \<le> n) (queueError ''INVALID_INPUT'') (js_default sizeBytes (JInt 0))) (\<lambda>n.
           case clk of None \<Rightarrow> Inl rangeError | Some t \<Rightarrow> Inr (tc_tenantId c, s, rs, n, t))))"

definition enqueue :: "string option \<Rightarrow> int option \<Rightarrow> jsval \<Rightarrow> jsval \<Rightarrow> string list option \<Rightarrow> jsval \<Rightarrow>
    jsval \<Rightarrow> string option \<Rightarrow> mail_queue \<Rightarrow> public_entry res \<times> mail_queue" where
  "enqueue fid clk ctx sender recipients sizeBytes messageRef reason q =
     liftE (enqueue_input clk ctx sender recipients sizeBytes) q (\<lambda>(tenant, s, rs, n, t).
       let q1 = (if fid = None then q\<lparr>mq_sequence := Suc (mq_sequence q)\<rparr> else q);
           i = (case fid of None \<Rightarrow> default_queue_id (mq_sequence q1) | Some i \<Rightarrow> i);
           e = new_entry i tenant s rs n t reason messageRef
       in (Inr (clonePublic e), queue_put i e q1))"

definition claim :: "int option \<Rightarrow> string \<Rightarrow> jsval \<Rightarrow> mail_queue \<Rightarrow> queue_entry res \<times> mail_queue" where
  "claim clk i ctx q =
     liftE (queue_get q i) q (\<lambda>e.
     liftE (assertTenantAccess ctx (JStr (qe_tenantId e))) q (\<lambda>c.
     if qe_state e \<noteq> Queued \<and> qe_state e \<noteq> Deferred then (Inl (queueError ''INVALID_STATE''), q)
     else (case clk of
         None \<Rightarrow> (Inl rangeError, queue_put i (e\<lparr>qe_state := Delivering\<rparr>) q)
       | Some t \<Rightarrow> let e1 = e\<lparr>qe_state := Delivering, qe_updatedAt := t, qe_attempts := Suc (qe_attempts e)\<rparr>
           in (Inr (e1\<lparr>qe_tenantId := tc_tenantId c\<rparr>), queue_put i e1 q))))"

text \<open>The backoff is exact: a power of two times a safe integer is a double, and a sum that is not a
  safe integer is outside the range of a \<open>Date\<close> whichever way it is rounded.\<close>

definition backoff :: "mail_queue \<Rightarrow> nat \<Rightarrow> int" where
  "backoff q attempts = mq_retryBaseMs q * 2 ^ (attempts - 1)"

definition next_attempt :: "mail_queue \<Rightarrow> nat \<Rightarrow> int option \<Rightarrow> int option" where
  "next_attempt q attempts clk = (case clk of None \<Rightarrow> None
     | Some t \<Rightarrow> if date_ok (t + backoff q attempts) then Some (t + backoff q attempts) else None)"

definition defer_item :: "int option \<Rightarrow> int option \<Rightarrow> string \<Rightarrow> jsval \<Rightarrow> string option \<Rightarrow> mail_queue \<Rightarrow>
    public_entry res \<times> mail_queue" where
  "defer_item clk1 clk2 i ctx reason q =
     liftE (queue_get q i) q (\<lambda>e.
     liftE (assertTenantAccess ctx (JStr (qe_tenantId e))) q (\<lambda>_.
     if qe_state e \<noteq> Queued \<and> qe_state e \<noteq> Delivering \<and> qe_state e \<noteq> Deferred
     then (Inl (queueError ''INVALID_STATE''), q)
     else let st = (if mq_maxAttempts q \<le> qe_attempts e then Bounced else Deferred);
              e1 = e\<lparr>qe_state := st, qe_reason := safeReason (if st = Bounced then ''retry_exhausted''
                else (case reason of None \<Rightarrow> ''temporary_failure'' | Some r \<Rightarrow> r))\<rparr> in
     (case next_attempt q (qe_attempts e) clk1 of
        None \<Rightarrow> (Inl rangeError, queue_put i e1 q)
      | Some n \<Rightarrow> let e2 = e1\<lparr>qe_nextAttemptAt := n\<rparr> in
          (case clk2 of
             None \<Rightarrow> (Inl rangeError, queue_put i e2 q)
           | Some t \<Rightarrow> (Inr (clonePublic (e2\<lparr>qe_updatedAt := t\<rparr>)), queue_put i (e2\<lparr>qe_updatedAt := t\<rparr>) q)))))"

definition complete_item :: "int option \<Rightarrow> string \<Rightarrow> jsval \<Rightarrow> queue_state option \<Rightarrow> string option \<Rightarrow> mail_queue \<Rightarrow>
    public_entry res \<times> mail_queue" where
  "complete_item clk i ctx st reason q =
     liftE (queue_get q i) q (\<lambda>e.
     liftE (assertTenantAccess ctx (JStr (qe_tenantId e))) q (\<lambda>_.
     if st \<noteq> Some Delivered \<and> st \<noteq> Some Bounced \<and> st \<noteq> Some Quarantined
     then (Inl (queueError ''INVALID_STATE''), q)
     else let e1 = e\<lparr>qe_state := the st,
            qe_reason := safeReason (case reason of None \<Rightarrow> ''completed'' | Some r \<Rightarrow> r)\<rparr> in
     (case clk of
        None \<Rightarrow> (Inl rangeError, queue_put i e1 q)
      | Some t \<Rightarrow> (Inr (clonePublic (e1\<lparr>qe_updatedAt := t\<rparr>)), queue_put i (e1\<lparr>qe_updatedAt := t\<rparr>) q))))"

text \<open>The view; \<open>lct\<close> is the order \<open>localeCompare\<close> puts on the two timestamps.\<close>

definition view_queue :: "(int \<Rightarrow> int \<Rightarrow> bool) \<Rightarrow> jsval \<Rightarrow> string option \<Rightarrow> mail_queue \<Rightarrow> public_entry list res" where
  "view_queue lct ctx st q =
     bindE (assertTenantContext ctx) (\<lambda>c.
     if tc_role c = UserRole then Inl (queueError ''FORBIDDEN'')
     else Inr (map clonePublic (sort_by (\<lambda>a b. lct (qe_createdAt a) (qe_createdAt b))
       (filter (\<lambda>e. st = None \<or> st = Some (state_name (qe_state e)))
         (filter (\<lambda>e. qe_tenantId e = tc_tenantId c) (map snd (mq_entries q)))))))"

definition queue_size :: "(int \<Rightarrow> int \<Rightarrow> bool) \<Rightarrow> jsval \<Rightarrow> mail_queue \<Rightarrow> nat res" where
  "queue_size lct ctx q = bindE (view_queue lct ctx None q) (\<lambda>es. Inr (length es))"

lemmas mail_queue_defs [code_defs] = state_name_def queueError_def rangeError_def safeReason_def
  clonePublic_def createMailQueue_def queue_get_def queue_put_def default_queue_id_def new_entry_def enqueue_input_def enqueue_def
  claim_def backoff_def next_attempt_def defer_item_def complete_item_def view_queue_def queue_size_def

subsection \<open>How an operation moves one item\<close>

definition queue_state_of :: "mail_queue \<Rightarrow> string \<Rightarrow> queue_state option" where
  "queue_state_of q i = map_option qe_state (map_of (mq_entries q) i)"

lemma queue_put_simps [simp]:
  "mq_entries (queue_put i e q) = AList.update i e (mq_entries q)"
  "mq_maxAttempts (queue_put i e q) = mq_maxAttempts q"
  "mq_retryBaseMs (queue_put i e q) = mq_retryBaseMs q"
  "mq_sequence (queue_put i e q) = mq_sequence q"
  by (simp_all add: queue_put_def)

lemma queue_state_put [simp]:
  "queue_state_of (queue_put i e q) j = (if j = i then Some (qe_state e) else queue_state_of q j)"
  by (simp add: queue_state_of_def)

lemma queue_get_Inr [simp]: "queue_get q i = Inr e \<longleftrightarrow> map_of (mq_entries q) i = Some e"
  by (auto simp: queue_get_def split: option.splits)

lemma clonePublic_state [simp]: "qe_state (clonePublic e) = qe_state e"
  by (simp add: clonePublic_def)

subsection \<open>The life of an item\<close>

text \<open>
  The abstract machine of one item, on its state and its number of attempts, \<open>M\<close> being the maximum:
  the operations are simulated by it.  \<open>claim_stuck\<close> is a claim whose clock is invalid.
\<close>

inductive lifecycle :: "nat \<Rightarrow> queue_state \<times> nat \<Rightarrow> queue_state \<times> nat \<Rightarrow> bool" for M where
  claimed: "s = Queued \<or> s = Deferred \<Longrightarrow> lifecycle M (s, k) (Delivering, Suc k)"
| claim_stuck: "s = Queued \<or> s = Deferred \<Longrightarrow> lifecycle M (s, k) (Delivering, k)"
| retried: "s = Queued \<or> s = Delivering \<or> s = Deferred \<Longrightarrow> k < M \<Longrightarrow> lifecycle M (s, k) (Deferred, k)"
| exhausted: "s = Queued \<or> s = Delivering \<or> s = Deferred \<Longrightarrow> M \<le> k \<Longrightarrow> lifecycle M (s, k) (Bounced, k)"
| completed: "t = Delivered \<or> t = Bounced \<or> t = Quarantined \<Longrightarrow> lifecycle M (s, k) (t, k)"

inductive_cases lifecycleE: "lifecycle M (s, k) (t, l)"

inductive_simps lifecycle_simps: "lifecycle M (s, k) (t, l)"

definition same_item :: "queue_entry \<Rightarrow> queue_entry \<Rightarrow> bool" where
  "same_item e f \<longleftrightarrow> qe_queueId f = qe_queueId e \<and> qe_tenantId f = qe_tenantId e \<and> qe_sender f = qe_sender e
     \<and> qe_recipients f = qe_recipients e \<and> qe_sizeBytes f = qe_sizeBytes e
     \<and> qe_createdAt f = qe_createdAt e \<and> qe_messageRef f = qe_messageRef e"

text \<open>What an operation on item \<open>i\<close> with context \<open>ctx\<close> may do to a queue: nothing, or one step of that
  item, which is of the tenant of the context.\<close>

definition moves :: "jsval \<Rightarrow> string \<Rightarrow> mail_queue \<Rightarrow> mail_queue \<Rightarrow> bool" where
  "moves ctx i q q1 \<longleftrightarrow> q1 = q \<or> (\<exists>e f c. map_of (mq_entries q) i = Some e
     \<and> assertTenantAccess ctx (JStr (qe_tenantId e)) = Inr c \<and> q1 = queue_put i f q \<and> same_item e f
     \<and> lifecycle (mq_maxAttempts q) (qe_state e, qe_attempts e) (qe_state f, qe_attempts f))"

lemma moves_refl [simp]: "moves ctx i q q"
  by (simp add: moves_def)

lemma movesI:
  "\<lbrakk>map_of (mq_entries q) i = Some e; assertTenantAccess ctx (JStr (qe_tenantId e)) = Inr c; same_item e f;
    lifecycle (mq_maxAttempts q) (qe_state e, qe_attempts e) (qe_state f, qe_attempts f)\<rbrakk>
   \<Longrightarrow> moves ctx i q (queue_put i f q)"
  by (auto simp: moves_def)

lemma claim_moves: "claim clk i ctx q = (r, q1) \<Longrightarrow> moves ctx i q q1"
  by (auto simp: claim_def Let_def elim!: liftE_cases split: if_split_asm option.split_asm
      intro!: movesI simp: same_item_def lifecycle_simps)

lemma complete_moves: "complete_item clk i ctx st why q = (r, q1) \<Longrightarrow> moves ctx i q q1"
  by (auto simp: complete_item_def Let_def elim!: liftE_cases split: if_split_asm option.split_asm
      intro!: movesI simp: same_item_def lifecycle_simps)

lemma defer_moves: "defer_item clk1 clk2 i ctx why q = (r, q1) \<Longrightarrow> moves ctx i q q1"
  by (auto simp: defer_item_def Let_def elim!: liftE_cases split: if_split_asm option.split_asm
      intro!: movesI simp: same_item_def lifecycle_simps)

lemma moves_config:
  "moves ctx i q q1 \<Longrightarrow> mq_maxAttempts q1 = mq_maxAttempts q \<and> mq_sequence q1 = mq_sequence q
     \<and> mq_retryBaseMs q1 = mq_retryBaseMs q"
  by (auto simp: moves_def)

lemma moves_other: "moves ctx i q q1 \<Longrightarrow> j \<noteq> i \<Longrightarrow> map_of (mq_entries q1) j = map_of (mq_entries q) j"
  by (auto simp: moves_def)

subsection \<open>Results of the operations\<close>

lemma claim_Inr:
  assumes "claim clk i ctx q = (Inr e, q1)"
  shows "queue_state_of q i = Some Queued \<or> queue_state_of q i = Some Deferred"
    "queue_state_of q1 i = Some Delivering" "qe_state e = Delivering"
    "map_of (mq_entries q1) i = Some e"
    "\<exists>c. assertTenantAccess ctx (JStr (qe_tenantId e)) = Inr c"
  using assms by (auto simp: claim_def Let_def queue_state_of_def assertTenantAccess_Inr
      split: if_split_asm option.split_asm)

lemma defer_Inr:
  assumes "defer_item clk1 clk2 i ctx why q = (Inr e, q1)"
  shows "queue_state_of q1 i = Some (qe_state e)" "qe_state e = Deferred \<or> qe_state e = Bounced"
  using assms by (auto simp: defer_item_def Let_def split: if_split_asm option.split_asm)

lemma complete_Inr:
  assumes "complete_item clk i ctx st why q = (Inr e, q1)"
  shows "queue_state_of q1 i = st" "st = Some (qe_state e)"
    "qe_state e = Delivered \<or> qe_state e = Bounced \<or> qe_state e = Quarantined"
  using assms by (auto simp: complete_item_def Let_def guard_iff split: option.split_asm)

subsection \<open>The invariant of the queue\<close>

definition entry_ok :: "nat \<Rightarrow> string \<Rightarrow> queue_entry \<Rightarrow> bool" where
  "entry_ok M i e \<longleftrightarrow> qe_queueId e = i \<and> tenant_id_ok (qe_tenantId e) \<and> qe_sender e \<noteq> []
     \<and> qe_recipients e \<noteq> [] \<and> distinct (qe_recipients e) \<and> 0 \<le> qe_sizeBytes e
     \<and> qe_attempts e \<le> M \<and> (qe_state e = Queued \<or> qe_state e = Deferred \<longrightarrow> qe_attempts e < M)"

definition queue_ok :: "mail_queue \<Rightarrow> bool" where
  "queue_ok q \<longleftrightarrow> 1 \<le> mq_maxAttempts q
     \<and> (\<forall>i e. map_of (mq_entries q) i = Some e \<longrightarrow> entry_ok (mq_maxAttempts q) i e)"

definition default_ids :: "mail_queue \<Rightarrow> bool" where \<comment> \<open>only ids the sequence has handed out\<close>
  "default_ids q \<longleftrightarrow> (\<forall>i\<in>set (keys (mq_entries q)). \<exists>n\<le>mq_sequence q. i = default_queue_id n)"

lemma lifecycle_attempts:
  "lifecycle M (s, k) (t, l) \<Longrightarrow> k \<le> M \<Longrightarrow> (s = Queued \<or> s = Deferred \<longrightarrow> k < M) \<Longrightarrow>
   l \<le> M \<and> (t = Queued \<or> t = Deferred \<longrightarrow> l < M)"
  by (erule lifecycleE) auto

lemma queue_ok_moves:
  assumes "moves ctx i q q1" "queue_ok q" shows "queue_ok q1"
  using assms unfolding moves_def
proof (elim disjE exE conjE)
  fix e f c
  assume e: "map_of (mq_entries q) i = Some e" and q1: "q1 = queue_put i f q" and same: "same_item e f"
    and life: "lifecycle (mq_maxAttempts q) (qe_state e, qe_attempts e) (qe_state f, qe_attempts f)"
  have "entry_ok (mq_maxAttempts q) i e" using assms(2) e by (simp add: queue_ok_def)
  then have "entry_ok (mq_maxAttempts q) i f"
    using same lifecycle_attempts [OF life] by (simp add: entry_ok_def same_item_def)
  with assms(2) show ?thesis by (simp add: queue_ok_def q1)
qed simp

lemma default_ids_moves: "moves ctx i q q1 \<Longrightarrow> default_ids q \<Longrightarrow> default_ids q1"
proof (unfold moves_def, elim disjE exE conjE)
  fix e f c
  assume q: "default_ids q" and e: "map_of (mq_entries q) i = Some e" and q1: "q1 = queue_put i f q"
  have "i \<in> set (keys (mq_entries q))" using map_of_in_set [OF e] by (force simp: keys_def)
  with q show "default_ids q1" by (auto simp: default_ids_def q1 keys_def dom_update)
qed simp

lemma enqueue_input_Inr:
  assumes "enqueue_input clk ctx sender rcpts sz = Inr (tenant, s, rs, n, t)"
  shows "\<exists>c. assertTenantContext ctx = Inr c \<and> tenant = tc_tenantId c" "sender = JStr s" "s \<noteq> []"
    "rcpts = Some rs" "rs \<noteq> []" "0 \<le> n"
  using assms unfolding enqueue_input_def
  by (auto simp: guard_iff split: option.split_asm)

lemma enqueue_InrE:
  assumes "enqueue fid clk ctx sender rcpts sz ref why q = (Inr p, q1)"
  obtains tenant s rs n t i where "enqueue_input clk ctx sender rcpts sz = Inr (tenant, s, rs, n, t)"
    "i = (case fid of None \<Rightarrow> default_queue_id (Suc (mq_sequence q)) | Some j \<Rightarrow> j)"
    "p = clonePublic (new_entry i tenant s rs n t why ref)"
    "q1 = queue_put i (new_entry i tenant s rs n t why ref)
       (if fid = None then q\<lparr>mq_sequence := Suc (mq_sequence q)\<rparr> else q)"
proof -
  from assms obtain tenant s rs n t where inp: "enqueue_input clk ctx sender rcpts sz = Inr (tenant, s, rs, n, t)"
    by (auto simp: enqueue_def)
  show ?thesis
    by (rule that [OF inp refl])
      (use assms inp in \<open>simp_all add: enqueue_def Let_def split: option.split_asm\<close>)
qed

lemma enqueue_public:
  assumes "enqueue fid clk ctx sender rcpts sz ref why q = (Inr p, q1)"
  shows "sender = JStr (qe_sender p)" "rcpts \<noteq> None" "qe_recipients p = dedup (the rcpts)" "qe_state p = Queued"
    "\<exists>e. map_of (mq_entries q1) (qe_queueId p) = Some e \<and> clonePublic e = p"
proof -
  from assms obtain tenant s rs n t i where inp: "enqueue_input clk ctx sender rcpts sz = Inr (tenant, s, rs, n, t)"
    and p: "p = clonePublic (new_entry i tenant s rs n t why ref)"
    and q1: "q1 = queue_put i (new_entry i tenant s rs n t why ref)
       (if fid = None then q\<lparr>mq_sequence := Suc (mq_sequence q)\<rparr> else q)"
    by (rule enqueue_InrE)
  have f: "qe_sender p = s" "qe_recipients p = dedup rs" "qe_state p = Queued" "qe_queueId p = i"
    by (simp_all add: p clonePublic_def new_entry_def)
  note inp = enqueue_input_Inr [OF inp]
  show "sender = JStr (qe_sender p)" "rcpts \<noteq> None" "qe_recipients p = dedup (the rcpts)" "qe_state p = Queued"
    using inp f by simp_all
  have "map_of (mq_entries q1) i = Some (new_entry i tenant s rs n t why ref)" by (simp add: q1)
  then show "\<exists>e. map_of (mq_entries q1) (qe_queueId p) = Some e \<and> clonePublic e = p"
    unfolding f(4) by (intro exI conjI) (assumption, rule p [symmetric])
qed

lemma enqueue_Inl: "enqueue fid clk ctx sender rcpts sz ref why q = (Inl e, q1) \<Longrightarrow> q1 = q"
  by (auto simp: enqueue_def Let_def elim!: liftE_cases split: option.split_asm prod.split_asm)

lemma queue_ok_enqueue:
  assumes "enqueue fid clk ctx sender rcpts sz ref why q = (r, q1)" "queue_ok q"
  shows "queue_ok q1"
proof (cases r)
  case (Inl e)
  with assms show ?thesis using enqueue_Inl by blast
next
  case (Inr p)
  from assms(1) [unfolded Inr] show ?thesis
  proof (rule enqueue_InrE)
    fix tenant s rs n t i
    assume inp: "enqueue_input clk ctx sender rcpts sz = Inr (tenant, s, rs, n, t)"
      and q1: "q1 = queue_put i (new_entry i tenant s rs n t why ref)
        (if fid = None then q\<lparr>mq_sequence := Suc (mq_sequence q)\<rparr> else q)"
    note inp = enqueue_input_Inr [OF inp]
    have "tenant_id_ok tenant"
      using inp(1) by (auto simp: canonical_context_def dest: assertTenantContext_canonical)
    then show ?thesis using inp(2-) assms(2) unfolding q1
      by (auto simp: queue_ok_def entry_ok_def new_entry_def)
  qed
qed

inductive queue_reach :: "bool \<Rightarrow> mail_queue \<Rightarrow> bool" for own_ids where \<comment> \<open>\<open>own_ids\<close>: no id factory\<close>
  created: "createMailQueue ma rb = Inr q \<Longrightarrow> queue_reach own_ids q"
| enqueued: "queue_reach own_ids q \<Longrightarrow> (own_ids \<Longrightarrow> fid = None) \<Longrightarrow>
    queue_reach own_ids (snd (enqueue fid clk ctx sender rcpts sz ref why q))"
| by_claim: "queue_reach own_ids q \<Longrightarrow> queue_reach own_ids (snd (claim clk i ctx q))"
| by_defer: "queue_reach own_ids q \<Longrightarrow> queue_reach own_ids (snd (defer_item clk1 clk2 i ctx why q))"
| by_complete: "queue_reach own_ids q \<Longrightarrow> queue_reach own_ids (snd (complete_item clk i ctx st why q))"

lemma queue_reach_ok: "queue_reach own_ids q \<Longrightarrow> queue_ok q"
proof (induction rule: queue_reach.induct)
  case (created ma rb q)
  then show ?case by (auto simp: createMailQueue_def queue_ok_def)
next
  case (enqueued q fid clk ctx sender rcpts sz ref why)
  then show ?case by (metis queue_ok_enqueue surjective_pairing)
qed (metis queue_ok_moves claim_moves defer_moves complete_moves surjective_pairing)+

lemma default_ids_enqueue:
  assumes "enqueue None clk ctx sender rcpts sz ref why q = (r, q1)" "default_ids q"
  shows "default_ids q1"
proof (cases r)
  case (Inl e)
  with assms show ?thesis using enqueue_Inl by blast
next
  case (Inr p)
  from assms(1) [unfolded Inr] show ?thesis
  proof (rule enqueue_InrE)
    fix tenant s rs n t i
    assume i: "i = (case None of None \<Rightarrow> default_queue_id (Suc (mq_sequence q)) | Some j \<Rightarrow> j)"
      and q1: "q1 = queue_put i (new_entry i tenant s rs n t why ref)
        (if None = None then q\<lparr>mq_sequence := Suc (mq_sequence q)\<rparr> else q)"
    have "set (keys (mq_entries q1)) = insert (default_queue_id (Suc (mq_sequence q))) (set (keys (mq_entries q)))"
      by (simp add: q1 i keys_def dom_update)
    moreover have "mq_sequence q1 = Suc (mq_sequence q)" by (simp add: q1)
    ultimately show ?thesis using assms(2) unfolding default_ids_def by (metis insertE le_SucI order_refl)
  qed
qed

lemma queue_reach_default_ids: "queue_reach True q \<Longrightarrow> default_ids q"
proof (induction rule: queue_reach.induct)
  case (created ma rb q)
  then show ?case by (auto simp: createMailQueue_def default_ids_def keys_def)
next
  case (enqueued q fid clk ctx sender rcpts sz ref why)
  then show ?case by (metis default_ids_enqueue surjective_pairing)
qed (metis default_ids_moves claim_moves defer_moves complete_moves surjective_pairing)+

subsection \<open>The contract a delivery agent relies on\<close>

text \<open>
  \<open>MailQueueLike\<close> of \<open>smtp-queue-adapter.ts\<close>, the three operations the adapter calls, with what it
  takes for granted: a claim is exclusive, the outcome reported is the outcome stored, and the other
  items are left alone.
\<close>

locale delivery_queue =
  fixes do_claim :: "string \<Rightarrow> jsval \<Rightarrow> 'q \<Rightarrow> queue_entry res \<times> 'q"
    and do_defer :: "string \<Rightarrow> jsval \<Rightarrow> string option \<Rightarrow> 'q \<Rightarrow> public_entry res \<times> 'q"
    and do_complete :: "string \<Rightarrow> jsval \<Rightarrow> queue_state option \<Rightarrow> string option \<Rightarrow> 'q \<Rightarrow> public_entry res \<times> 'q"
    and item_at :: "'q \<Rightarrow> string \<Rightarrow> queue_entry option"
    and state_at :: "'q \<Rightarrow> string \<Rightarrow> queue_state option"
  assumes state_item: "state_at q i = map_option qe_state (item_at q i)"
    and claim_takes: "do_claim i ctx q = (Inr e, q1) \<Longrightarrow>
      (state_at q i = Some Queued \<or> state_at q i = Some Deferred) \<and> state_at q1 i = Some Delivering"
    and claim_refuses: "state_at q i \<noteq> Some Queued \<Longrightarrow> state_at q i \<noteq> Some Deferred \<Longrightarrow>
      \<exists>err. do_claim i ctx q = (Inl err, q)"
    and defer_sets: "do_defer i ctx why q = (Inr p, q1) \<Longrightarrow>
      state_at q1 i = Some (qe_state p) \<and> (qe_state p = Deferred \<or> qe_state p = Bounced)"
    and complete_sets: "do_complete i ctx st why q = (Inr p, q1) \<Longrightarrow>
      state_at q1 i = st \<and> st = Some (qe_state p)"
    and others_kept: "j \<noteq> i \<Longrightarrow> item_at (snd (do_claim i ctx q)) j = item_at q j"
      "j \<noteq> i \<Longrightarrow> item_at (snd (do_defer i ctx why q)) j = item_at q j"
      "j \<noteq> i \<Longrightarrow> item_at (snd (do_complete i ctx st why q)) j = item_at q j"
begin

lemma claimed_once:
  assumes "do_claim i ctx q = (Inr e, q1)"
  shows "\<exists>err. do_claim i ctx' q1 = (Inl err, q1)"
  using claim_takes [OF assms] by (intro claim_refuses) auto

lemma final_is_final:
  assumes "do_complete i ctx st why q = (Inr p, q1)" "st = Some Delivered \<or> st = Some Bounced \<or> st = Some Quarantined"
  shows "\<exists>err. do_claim i ctx' q1 = (Inl err, q1)"
  using complete_sets [OF assms(1)] assms(2) by (intro claim_refuses) auto

end

lemma claim_refused:
  assumes "queue_state_of q i \<noteq> Some Queued" "queue_state_of q i \<noteq> Some Deferred"
  shows "\<exists>err. claim clk i ctx q = (Inl err, q)"
proof (cases "map_of (mq_entries q) i")
  case None
  then show ?thesis by (simp add: claim_def queue_get_def)
next
  case (Some e)
  with assms show ?thesis
    by (cases "assertTenantAccess ctx (JStr (qe_tenantId e))")
       (auto simp: claim_def queue_get_def queue_state_of_def)
qed

interpretation mq: delivery_queue "claim clk" "defer_item clk1 clk2" "complete_item clk3" "\<lambda>q. map_of (mq_entries q)" queue_state_of
  for clk clk1 clk2 clk3
proof unfold_locales
  fix i ctx q e q1 assume "claim clk i ctx q = (Inr e, q1)"
  then show "(queue_state_of q i = Some Queued \<or> queue_state_of q i = Some Deferred)
      \<and> queue_state_of q1 i = Some Delivering" using claim_Inr by blast
next
  fix i ctx st why q p q1 assume "complete_item clk3 i ctx st why q = (Inr p, q1)"
  then show "queue_state_of q1 i = st \<and> st = Some (qe_state p)" using complete_Inr by blast
next
  fix i ctx why q p q1 assume "defer_item clk1 clk2 i ctx why q = (Inr p, q1)"
  then show "queue_state_of q1 i = Some (qe_state p) \<and> (qe_state p = Deferred \<or> qe_state p = Bounced)"
    using defer_Inr by blast
qed (use claim_refused in \<open>blast | simp add: queue_state_of_def moves_other [OF claim_moves [OF surjective_pairing]]
      moves_other [OF defer_moves [OF surjective_pairing]] moves_other [OF complete_moves [OF surjective_pairing]]\<close>)+

subsection \<open>A concrete queue\<close>

definition example_queue :: "nat \<Rightarrow> nat \<Rightarrow> queue_state \<Rightarrow> mail_queue" where \<comment> \<open>maximum, attempts, state\<close>
  "example_queue m k st = \<lparr>mq_maxAttempts = m, mq_retryBaseMs = 60000, mq_entries =
     [(''q-00000001'', \<lparr>qe_queueId = ''q-00000001'', qe_tenantId = ''t1'', qe_sender = ''a@t1.test'',
        qe_recipients = [''b@t1.test'', ''c@t1.test''], qe_sizeBytes = 10, qe_state = st, qe_attempts = k,
        qe_createdAt = 1000, qe_updatedAt = 1000, qe_nextAttemptAt = 1000, qe_reason = ''accepted'',
        qe_messageRef = JStr ''ref''\<rparr>)], mq_sequence = 1\<rparr>"

definition example_ctx :: jsval where
  "example_ctx = context_js \<lparr>tc_tenantId = ''t1'', tc_domain = ''t1.test'', tc_actorId = Some ''svc'', tc_role = Provider\<rparr>"

definition empty_queue :: mail_queue where
  "empty_queue = \<lparr>mq_maxAttempts = 5, mq_retryBaseMs = 60000, mq_entries = [], mq_sequence = 0\<rparr>"

lemma example_queue_created: "createMailQueue JUndef JUndef = Inr empty_queue"
  by code_simp

lemma example_queue_reach: "queue_reach True (example_queue 5 0 Queued)"
proof -
  have "snd (enqueue None (Some 1000) example_ctx (JStr ''a@t1.test'') (Some [''b@t1.test'', ''c@t1.test''])
     (JInt 10) (JStr ''ref'') None empty_queue) = example_queue 5 0 Queued" by code_simp
  with queue_reach.enqueued [OF queue_reach.created [OF example_queue_created, of True], of None "Some 1000"
      example_ctx "JStr ''a@t1.test''" "Some [''b@t1.test'', ''c@t1.test'']" "JInt 10" "JStr ''ref''" None]
  show ?thesis by simp
qed

lemma example_access: "assertTenantAccess example_ctx (JStr ''t1'') =
  Inr \<lparr>tc_tenantId = ''t1'', tc_domain = ''t1.test'', tc_actorId = Some ''svc'', tc_role = Provider\<rparr>"
  by code_simp

subsection \<open>Properties\<close>

text \<open>C11 Bounded delivery attempts: in every queue reachable by any sequence of operations, whatever the
  clocks and the id factory do, each item is filed under its own id, has recipients without
  duplicates, has been attempted at most \<open>maxAttempts\<close> times, and an item that can still be claimed
  has attempts left.\<close>

theorem queue_attempts_bounded:
  assumes "queue_reach own_ids q" "map_of (mq_entries q) i = Some e"
  shows "qe_queueId e = i \<and> qe_recipients e \<noteq> [] \<and> distinct (qe_recipients e)
    \<and> qe_attempts e \<le> mq_maxAttempts q
    \<and> (qe_state e = Queued \<or> qe_state e = Deferred \<longrightarrow> qe_attempts e < mq_maxAttempts q)"
  using queue_reach_ok [OF assms(1)] assms(2) by (auto simp: queue_ok_def entry_ok_def)

lemma queue_attempts_bounded_witness:
  "qe_attempts (snd (hd (mq_entries (example_queue 5 0 Queued)))) < 5"
  using queue_attempts_bounded [OF example_queue_reach, of "''q-00000001''"] by (simp add: example_queue_def)

text \<open>A claim is exclusive: while an item that was claimed has not been reported on, no claim of it
  succeeds, with any context and at any time, and the failed claim changes nothing.\<close>

theorem claim_is_exclusive:
  assumes "claim clk i ctx q = (Inr e, q1)"
  shows "qe_state e = Delivering \<and> (\<exists>err. claim clk' i ctx' q1 = (Inl err, q1))"
proof
  show "qe_state e = Delivering" using claim_Inr(3) [OF assms] .
  have "queue_state_of q1 i = Some Delivering" using mq.claim_takes [OF assms] by blast
  then show "\<exists>err. claim clk' i ctx' q1 = (Inl err, q1)" by (intro mq.claim_refuses) simp_all
qed

lemma claim_is_exclusive_witness:
  "\<exists>err. claim (Some 3000) ''q-00000001'' example_ctx
     (snd (claim (Some 2000) ''q-00000001'' example_ctx (example_queue 5 0 Queued))) =
     (Inl err, snd (claim (Some 2000) ''q-00000001'' example_ctx (example_queue 5 0 Queued)))"
proof -
  obtain e q1 where "claim (Some 2000) ''q-00000001'' example_ctx (example_queue 5 0 Queued) = (Inr e, q1)"
    by (simp add: claim_def example_queue_def example_access Let_def queue_get_def)
  from claim_is_exclusive [OF this, of "Some 3000" example_ctx] this show ?thesis by simp
qed

text \<open>Without an id factory an accepted message never replaces another one: the id is new, the items
  already queued stay as they are, and the new one goes last.\<close>

theorem enqueue_never_overwrites:
  assumes "queue_reach True q" "enqueue None clk ctx sender rcpts sz ref why q = (Inr p, q1)"
  shows "qe_queueId p \<notin> set (keys (mq_entries q))
    \<and> (\<exists>e. mq_entries q1 = mq_entries q @ [(qe_queueId p, e)] \<and> clonePublic e = p)"
  using assms(2)
proof (rule enqueue_InrE)
  fix tenant s rs n t i
  assume i: "i = (case None of None \<Rightarrow> default_queue_id (Suc (mq_sequence q)) | Some j \<Rightarrow> j)"
    and p: "p = clonePublic (new_entry i tenant s rs n t why ref)"
    and q1: "q1 = queue_put i (new_entry i tenant s rs n t why ref)
      (if None = None then q\<lparr>mq_sequence := Suc (mq_sequence q)\<rparr> else q)"
  have "i \<notin> set (keys (mq_entries q))"
    using queue_reach_default_ids [OF assms(1)] by (auto simp: default_ids_def i default_queue_id_def)
  moreover have "qe_queueId p = i" by (simp add: p clonePublic_def new_entry_def)
  ultimately show ?thesis by (auto simp: q1 p keys_def update_new_key)
qed

lemma enqueue_never_overwrites_witness:
  "length (mq_entries (snd (enqueue None (Some 2000) example_ctx (JStr ''a@t1.test'') (Some [''b@t1.test''])
     (JInt 10) JUndef None (example_queue 5 0 Queued)))) = 2"
proof -
  have "is_ok (fst (enqueue None (Some 2000) example_ctx (JStr ''a@t1.test'') (Some [''b@t1.test''])
     (JInt 10) JUndef None (example_queue 5 0 Queued)))" by code_simp
  then obtain p q1 where r: "enqueue None (Some 2000) example_ctx (JStr ''a@t1.test'') (Some [''b@t1.test''])
     (JInt 10) JUndef None (example_queue 5 0 Queued) = (Inr p, q1)"
    by (metis is_ok_iff surjective_pairing)
  from enqueue_never_overwrites [OF example_queue_reach r] r show ?thesis
    by (auto simp: example_queue_def)
qed

text \<open>A deferral is not atomic when the backoff leaves the range of a \<open>Date\<close>: the state and the
  reason are stored before \<open>toISOString\<close> throws, so the caller gets an error although the item is
  deferred; with the largest number of attempts the constructor admits and the default base this
  happens from the 39th attempt on.  As long as the backoff fits, the deferral succeeds.\<close>

theorem defer_backoff_overflow:
  assumes e: "map_of (mq_entries q) i = Some e" "assertTenantAccess ctx (JStr (qe_tenantId e)) = Inr c"
    and st: "qe_state e = Delivering" "qe_attempts e < mq_maxAttempts q"
  shows "(date_ok (t + backoff q (qe_attempts e)) \<longrightarrow>
      is_ok (fst (defer_item (Some t) (Some t) i ctx why q)))
    \<and> (\<not> date_ok (t + backoff q (qe_attempts e)) \<longrightarrow>
      defer_item (Some t) (Some t) i ctx why q = (Inl rangeError, queue_put i (e\<lparr>qe_state := Deferred,
        qe_reason := safeReason (case why of None \<Rightarrow> ''temporary_failure'' | Some r \<Rightarrow> r)\<rparr>) q))"
  using assms by (simp_all add: defer_item_def queue_get_def next_attempt_def Let_def)

lemma defer_backoff_overflow_witness:
  "defer_item (Some 1767225600000) (Some 1767225600000) ''q-00000001'' example_ctx None (example_queue 100 39 Delivering)
     = (Inl rangeError, queue_put ''q-00000001'' ((snd (hd (mq_entries (example_queue 100 39 Delivering))))
          \<lparr>qe_state := Deferred, qe_reason := safeReason ''temporary_failure''\<rparr>) (example_queue 100 39 Delivering))
   \<and> is_ok (fst (defer_item (Some 1767225600000) (Some 1767225600000) ''q-00000001'' example_ctx None
        (example_queue 100 38 Delivering)))"
proof
  note acc = example_access
  show "defer_item (Some 1767225600000) (Some 1767225600000) ''q-00000001'' example_ctx None (example_queue 100 39 Delivering)
     = (Inl rangeError, queue_put ''q-00000001'' ((snd (hd (mq_entries (example_queue 100 39 Delivering))))
          \<lparr>qe_state := Deferred, qe_reason := safeReason ''temporary_failure''\<rparr>) (example_queue 100 39 Delivering))"
    by (rule trans [OF defer_backoff_overflow [where e = "snd (hd (mq_entries (example_queue 100 39 Delivering)))"
        and c = "\<lparr>tc_tenantId = ''t1'', tc_domain = ''t1.test'', tc_actorId = Some ''svc'', tc_role = Provider\<rparr>", THEN conjunct2, THEN mp]])
       (simp_all add: example_queue_def acc backoff_def date_ok_def max_date_def)
  show "is_ok (fst (defer_item (Some 1767225600000) (Some 1767225600000) ''q-00000001'' example_ctx None
        (example_queue 100 38 Delivering)))"
    by (rule defer_backoff_overflow [where e = "snd (hd (mq_entries (example_queue 100 38 Delivering)))"
        and c = "\<lparr>tc_tenantId = ''t1'', tc_domain = ''t1.test'', tc_actorId = Some ''svc'', tc_role = Provider\<rparr>", THEN conjunct1, THEN mp])
       (simp_all add: example_queue_def acc backoff_def date_ok_def max_date_def)
qed

end
