(* ===== verification/Mail_Scanners.thy ===== *)
theory Mail_Scanners
  imports JS_Base
begin

section \<open>The scanner boundary\<close>

text \<open>
  \<open>src/core/mail/mail-scanners.ts\<close>: what is sent to Rspamd and ClamAV and what is made of their
  answers.  An endpoint is an argument: \<open>None\<close> when it is not configured, else a function from the
  metadata to the value it answers or the error it throws.
\<close>

datatype rspamd_action = RAccept | RNoAction | RSoftReject | RReject | RQuarantine | RUnavailable

datatype clamav_status = CClean | CInfected | CUnavailable

record scan_metadata =
  sm_sender :: "string option"
  sm_recipients :: "string list option"
  sm_sizeBytes :: "int option"
  sm_messageRef :: "string option"

record rspamd_verdict =
  rd_action :: rspamd_action
  rd_score :: jsval
  rd_symbols :: "string list"

record clamav_verdict =
  cl_status :: clamav_status
  cl_signature :: "string option"

definition scannerError :: "string \<Rightarrow> err" where
  "scannerError code = Err MailScannerErr code 0"

definition action_name :: "rspamd_action \<Rightarrow> string" where
  "action_name a = (case a of RAccept \<Rightarrow> ''accept'' | RNoAction \<Rightarrow> ''no_action'' | RSoftReject \<Rightarrow> ''soft_reject''
     | RReject \<Rightarrow> ''reject'' | RQuarantine \<Rightarrow> ''quarantine'' | RUnavailable \<Rightarrow> ''unavailable'')"

definition RSPAMD_ACTIONS :: "rspamd_action list" where
  "RSPAMD_ACTIONS = [RAccept, RNoAction, RSoftReject, RReject, RQuarantine, RUnavailable]"

definition clamav_name :: "clamav_status \<Rightarrow> string" where
  "clamav_name s = (case s of CClean \<Rightarrow> ''clean'' | CInfected \<Rightarrow> ''infected'' | CUnavailable \<Rightarrow> ''unavailable'')"

definition CLAMAV_STATUSES :: "clamav_status list" where
  "CLAMAV_STATUSES = [CClean, CInfected, CUnavailable]"

definition isRspamdAction :: "jsval \<Rightarrow> rspamd_action option" where
  "isRspamdAction v = (case js_str v of None \<Rightarrow> None | Some s \<Rightarrow> find (\<lambda>a. action_name a = s) RSPAMD_ACTIONS)"

definition isClamAvStatus :: "jsval \<Rightarrow> clamav_status option" where
  "isClamAvStatus v = (case js_str v of None \<Rightarrow> None | Some s \<Rightarrow> find (\<lambda>a. clamav_name a = s) CLAMAV_STATUSES)"

definition is_array :: "jsval \<Rightarrow> bool" where
  "is_array v = (case v of JArr _ \<Rightarrow> True | _ \<Rightarrow> False)"

definition asRecord :: "jsval \<Rightarrow> jsval" where
  "asRecord v = (if is_object v \<and> \<not> is_array v then v else JObj [])"

definition no_verdict :: "jsval \<Rightarrow> bool" where \<comment> \<open>the guard on the empty record\<close>
  "no_verdict v \<longleftrightarrow> \<not> is_object v \<or> is_array v"

definition normalizeScore :: "jsval \<Rightarrow> jsval res" where
  "normalizeScore v = (if nullish v then Inr JNull else (case v of
       JInt n \<Rightarrow> Inr (JInt n) | JFrac n \<Rightarrow> Inr (JFrac n)
     | _ \<Rightarrow> Inl (scannerError ''INVALID_VERDICT'')))"

definition strings_of :: "jsval \<Rightarrow> string list" where \<comment> \<open>the strings among the items of an array\<close>
  "strings_of v = (case v of JArr vs \<Rightarrow> List.map_filter js_str vs | _ \<Rightarrow> [])"

definition metadataOnly :: "jsval \<Rightarrow> scan_metadata" where
  "metadataOnly value = (let i = asRecord value in
     \<lparr>sm_sender = js_str (jget i ''sender''),
      sm_recipients = (if is_array (jget i ''recipients'')
        then Some (take 256 (strings_of (jget i ''recipients''))) else None),
      sm_sizeBytes = (case jget i ''sizeBytes'' of
        JInt n \<Rightarrow> if is_safe_int n \<and> 0 \<le> n then Some n else None | _ \<Rightarrow> None),
      sm_messageRef = js_str (jget i ''messageRef'')\<rparr>)"

definition symbol_ok :: "string \<Rightarrow> bool" where
  "symbol_ok s \<longleftrightarrow> run_of (\<lambda>c. is_upper c \<or> is_digit c \<or> one_of ''_.:-'' c) 64 s"

definition signature_ok :: "string \<Rightarrow> bool" where
  "signature_ok s \<longleftrightarrow> run_of (\<lambda>c. is_alnum c \<or> one_of ''_.:+/-'' c) 128 s"

definition normalizeRspamdVerdict :: "jsval \<Rightarrow> rspamd_verdict res" where
  "normalizeRspamdVerdict v =
     (if no_verdict v then Inl (scannerError ''INVALID_VERDICT'')
      else let i = asRecord v; status = jget i ''status'';
               candidate = js_or_else (jget i ''action'') (if status = JStr ''ok'' then JStr ''accept'' else status)
      in (case isRspamdAction candidate of
            None \<Rightarrow> Inl (scannerError ''INVALID_VERDICT'')
          | Some a \<Rightarrow> bindE (normalizeScore (jget i ''score'')) (\<lambda>sc.
              Inr \<lparr>rd_action = a, rd_score = sc,
                   rd_symbols = take 128 (filter symbol_ok (strings_of (jget i ''symbols'')))\<rparr>)))"

definition normalizeClamAvVerdict :: "jsval \<Rightarrow> clamav_verdict res" where
  "normalizeClamAvVerdict v =
     (let i = (case v of JStr s \<Rightarrow> JObj [(''status'', JStr s)] | _ \<Rightarrow> asRecord v) in
      if js_str v = None \<and> no_verdict v then Inl (scannerError ''INVALID_VERDICT'')
      else (case isClamAvStatus (jget i ''status'') of
          None \<Rightarrow> Inl (scannerError ''INVALID_VERDICT'')
        | Some s \<Rightarrow> Inr \<lparr>cl_status = s, cl_signature = (case js_str (jget i ''signature'') of
              Some g \<Rightarrow> if s = CInfected \<and> signature_ok g then Some g else None | None \<Rightarrow> None)\<rparr>))"

definition unavailableRspamdVerdict :: rspamd_verdict where
  "unavailableRspamdVerdict = \<lparr>rd_action = RUnavailable, rd_score = JNull, rd_symbols = []\<rparr>"

definition unavailableClamAvVerdict :: clamav_verdict where
  "unavailableClamAvVerdict = \<lparr>cl_status = CUnavailable, cl_signature = None\<rparr>"

type_synonym scan_endpoint = "(scan_metadata \<Rightarrow> jsval res) option"

definition rspamd_scan :: "scan_endpoint \<Rightarrow> jsval \<Rightarrow> rspamd_verdict" where
  "rspamd_scan endpoint msg = (case endpoint of None \<Rightarrow> unavailableRspamdVerdict
     | Some scan \<Rightarrow> (case bindE (scan (metadataOnly msg)) normalizeRspamdVerdict of
           Inl _ \<Rightarrow> unavailableRspamdVerdict | Inr v \<Rightarrow> v))"

definition clamav_scan :: "scan_endpoint \<Rightarrow> jsval \<Rightarrow> clamav_verdict" where
  "clamav_scan endpoint msg = (case endpoint of None \<Rightarrow> unavailableClamAvVerdict
     | Some scan \<Rightarrow> (case bindE (scan (metadataOnly msg)) normalizeClamAvVerdict of
           Inl _ \<Rightarrow> unavailableClamAvVerdict | Inr v \<Rightarrow> v))"

text \<open>A verdict as the value the mail core normalises once more.\<close>

definition rspamd_js :: "rspamd_verdict \<Rightarrow> jsval" where
  "rspamd_js v = JObj [(''action'', JStr (action_name (rd_action v))), (''score'', rd_score v),
     (''symbols'', JArr (map JStr (rd_symbols v)))]"

definition clamav_js :: "clamav_verdict \<Rightarrow> jsval" where
  "clamav_js v = JObj [(''status'', JStr (clamav_name (cl_status v))), (''signature'', opt_js (cl_signature v))]"

lemmas scanner_defs [code_defs] = scannerError_def action_name_def RSPAMD_ACTIONS_def clamav_name_def
  CLAMAV_STATUSES_def isRspamdAction_def isClamAvStatus_def is_array_def asRecord_def no_verdict_def
  normalizeScore_def strings_of_def metadataOnly_def symbol_ok_def signature_ok_def
  normalizeRspamdVerdict_def normalizeClamAvVerdict_def unavailableRspamdVerdict_def
  unavailableClamAvVerdict_def rspamd_scan_def clamav_scan_def rspamd_js_def clamav_js_def

subsection \<open>Normal verdicts\<close>

definition rspamd_normal :: "rspamd_verdict \<Rightarrow> bool" where
  "rspamd_normal v \<longleftrightarrow> length (rd_symbols v) \<le> 128 \<and> list_all symbol_ok (rd_symbols v)
     \<and> (case rd_score v of JNull \<Rightarrow> True | JInt _ \<Rightarrow> True | JFrac _ \<Rightarrow> True | _ \<Rightarrow> False)"

definition clamav_normal :: "clamav_verdict \<Rightarrow> bool" where
  "clamav_normal v \<longleftrightarrow> (case cl_signature v of None \<Rightarrow> True | Some g \<Rightarrow> cl_status v = CInfected \<and> signature_ok g)"

lemma isRspamdAction_name [simp]: "isRspamdAction (JStr (action_name a)) = Some a"
  by (cases a) (simp_all add: isRspamdAction_def RSPAMD_ACTIONS_def action_name_def)

lemma isClamAvStatus_name [simp]: "isClamAvStatus (JStr (clamav_name a)) = Some a"
  by (cases a) (simp_all add: isClamAvStatus_def CLAMAV_STATUSES_def clamav_name_def)

lemma normalizeScore_normal: "normalizeScore v = Inr w \<Longrightarrow>
    case w of JNull \<Rightarrow> True | JInt _ \<Rightarrow> True | JFrac _ \<Rightarrow> True | _ \<Rightarrow> False"
  by (cases v) (auto simp: normalizeScore_def nullish_def)

lemma normalizeRspamdVerdict_normal: "normalizeRspamdVerdict v = Inr w \<Longrightarrow> rspamd_normal w"
  by (auto simp: normalizeRspamdVerdict_def Let_def rspamd_normal_def list_all_iff
      dest!: in_set_takeD normalizeScore_normal split: if_split_asm option.split_asm)

lemma normalizeClamAvVerdict_normal: "normalizeClamAvVerdict v = Inr w \<Longrightarrow> clamav_normal w"
  by (auto simp: normalizeClamAvVerdict_def Let_def clamav_normal_def split: if_split_asm option.split_asm)

lemma rspamd_scan_normal: "rspamd_normal (rspamd_scan ep msg)"
  by (auto simp: rspamd_scan_def unavailableRspamdVerdict_def rspamd_normal_def
      split: option.splits sum.splits dest!: normalizeRspamdVerdict_normal [unfolded rspamd_normal_def])

lemma map_filter_js_str [simp]: "List.map_filter js_str (map JStr ss) = ss"
  by (induction ss) (simp_all add: List.map_filter_simps)

text \<open>The core normalises a verdict that the scanner has normalised already: nothing changes.\<close>

lemma normalizeRspamdVerdict_js [simp]:
  assumes "rspamd_normal v" shows "normalizeRspamdVerdict (rspamd_js v) = Inr v"
proof -
  have score: "normalizeScore (rd_score v) = Inr (rd_score v)"
    using assms by (cases "rd_score v") (simp_all add: rspamd_normal_def normalizeScore_def nullish_def)
  have "filter symbol_ok (rd_symbols v) = rd_symbols v" "take 128 (rd_symbols v) = rd_symbols v"
    using assms by (simp_all add: rspamd_normal_def filter_id_conv list_all_iff)
  then show ?thesis
    by (simp add: normalizeRspamdVerdict_def rspamd_js_def no_verdict_def asRecord_def is_array_def
        js_or_else_def nullish_def strings_of_def score)
qed

lemma normalizeClamAvVerdict_js [simp]:
  assumes "clamav_normal v" shows "normalizeClamAvVerdict (clamav_js v) = Inr v"
proof -
  obtain s g where v: "v = \<lparr>cl_status = s, cl_signature = g\<rparr>" by (cases v)
  show ?thesis using assms
    by (cases g) (simp_all add: v clamav_normal_def normalizeClamAvVerdict_def clamav_js_def no_verdict_def
      asRecord_def is_array_def opt_js_def js_str_def)
qed

end
