(* ===== verification/Imap_Idle.thy ===== *)
theory Imap_Idle
  imports Tenant_Context
begin

section \<open>The IDLE notification broker\<close>

text \<open>
  \<open>src/core/mail/imap-idle.ts\<close>: subscriptions of one user's mailbox and the events sent to them.  A
  callback is a value \<open>'h\<close> that names it; \<open>fails h e\<close> is the error the callback throws on the event,
  if it does.  \<open>notify\<close> returns, beside its result, the callbacks it called, in order.
\<close>

record idle_subscription =
  is_tenantId :: string
  is_userId :: string
  is_mailbox :: string

record idle_event =
  ie_eventId :: string
  ie_sequence :: nat
  ie_tenantId :: string
  ie_userId :: string
  ie_mailbox :: string
  ie_kind :: string
  ie_uidNext :: "int option"
  ie_occurredAt :: int

record 'h broker =
  br_subscriptions :: "(string \<times> (idle_subscription \<times> 'h)) list"
  br_subscriptionSequence :: nat
  br_eventSequence :: nat

record idle_notification =
  in_event :: idle_event
  in_delivered :: nat

subsection \<open>Checks\<close>

definition idleError :: "string \<Rightarrow> err" where
  "idleError code = Err ImapIdleErr code 0"

definition mailbox_ok :: "string \<Rightarrow> bool" where
  "mailbox_ok s \<longleftrightarrow> head_tail is_alnum (\<lambda>c. is_alnum c \<or> one_of ''._/-'' c) 127 s"

definition safeMailbox :: "jsval \<Rightarrow> string res" where
  "safeMailbox v = need_str mailbox_ok (idleError ''INVALID_INPUT'') v"

definition safeUserId :: "jsval \<Rightarrow> string res" where
  "safeUserId v = need_str (\<lambda>s. s \<noteq> [] \<and> length s \<le> 128) (idleError ''INVALID_INPUT'') v"

definition safeKind :: "jsval \<Rightarrow> string" where
  "safeKind v = (case js_str v of
     Some s \<Rightarrow> if head_tail (\<lambda>c. is_lower c \<or> is_upper c) (\<lambda>c. is_alnum c \<or> one_of ''_.:-'' c) 31 s
               then s else ''exists''
   | None \<Rightarrow> ''exists'')"

definition safeUidNext :: "jsval \<Rightarrow> int option" where
  "safeUidNext v = (case v of JInt n \<Rightarrow> if is_safe_int n \<and> 1 \<le> n then Some n else None | _ \<Rightarrow> None)"

subsection \<open>Operations\<close>

definition createImapIdleBroker :: "'h broker" where
  "createImapIdleBroker = \<lparr>br_subscriptions = [], br_subscriptionSequence = 0, br_eventSequence = 0\<rparr>"

text \<open>\<open>onEvent\<close> is \<open>None\<close> when it is not a function.  The sequence is advanced before the mailbox is
  checked.\<close>

definition subscribe :: "jsval \<Rightarrow> jsval \<Rightarrow> jsval \<Rightarrow> 'h option \<Rightarrow> 'h broker \<Rightarrow> string res \<times> 'h broker" where
  "subscribe ctx userId mailbox onEvent b =
     liftE (assertTenantContext ctx) b (\<lambda>c.
     liftE (safeUserId userId) b (\<lambda>u.
     case onEvent of
       None \<Rightarrow> (Inl (idleError ''INVALID_INPUT''), b)
     | Some h \<Rightarrow>
         if tc_role c = UserRole \<and> tc_actorId c \<noteq> Some u then (Inl (idleError ''FORBIDDEN''), b)
         else let b1 = b\<lparr>br_subscriptionSequence := Suc (br_subscriptionSequence b)\<rparr>;
                  i = ''idle-'' @ pad8 (br_subscriptionSequence b1) in
           liftE (safeMailbox (js_or_else mailbox (JStr ''INBOX''))) b1 (\<lambda>m.
           (Inr i, b1\<lparr>br_subscriptions := AList.update i
              (\<lparr>is_tenantId = tc_tenantId c, is_userId = u, is_mailbox = m\<rparr>, h) (br_subscriptions b1)\<rparr>))))"

definition close_subscription :: "string \<Rightarrow> 'h broker \<Rightarrow> 'h broker" where
  "close_subscription i b = b\<lparr>br_subscriptions := AList.delete i (br_subscriptions b)\<rparr>"

definition wants :: "idle_event \<Rightarrow> idle_subscription \<Rightarrow> bool" where
  "wants e s \<longleftrightarrow> is_tenantId s = ie_tenantId e \<and> is_userId s = ie_userId e \<and> is_mailbox s = ie_mailbox e"

text \<open>The loop over the subscriptions: the callbacks called, and the error of the first that throws.\<close>

fun notify_loop :: "('h \<Rightarrow> idle_event \<Rightarrow> err option) \<Rightarrow> idle_event \<Rightarrow> (string \<times> (idle_subscription \<times> 'h)) list \<Rightarrow>
    nat res \<times> 'h list" where
  "notify_loop fails e [] = (Inr 0, [])"
| "notify_loop fails e ((i, s, h) # ss) =
     (if \<not> wants e s then notify_loop fails e ss
      else (case fails h e of
          Some x \<Rightarrow> (Inl x, [h])
        | None \<Rightarrow> (case notify_loop fails e ss of
              (Inl x, hs) \<Rightarrow> (Inl x, h # hs)
            | (Inr n, hs) \<Rightarrow> (Inr (Suc n), h # hs))))"

definition idle_event_of :: "int \<Rightarrow> tenant_context \<Rightarrow> string \<Rightarrow> string \<Rightarrow> jsval \<Rightarrow> jsval \<Rightarrow> nat \<Rightarrow> idle_event" where
  "idle_event_of t c u m kind uidNext n = \<lparr>ie_eventId = ''idle-event-'' @ pad8 n, ie_sequence = n,
     ie_tenantId = tc_tenantId c, ie_userId = u, ie_mailbox = m, ie_kind = safeKind kind,
     ie_uidNext = safeUidNext (js_or_else uidNext JNull), ie_occurredAt = t\<rparr>"

definition notify :: "('h \<Rightarrow> idle_event \<Rightarrow> err option) \<Rightarrow> int option \<Rightarrow> jsval \<Rightarrow> jsval \<Rightarrow> jsval \<Rightarrow> jsval \<Rightarrow> jsval \<Rightarrow>
    'h broker \<Rightarrow> (idle_notification res \<times> 'h list) \<times> 'h broker" where
  "notify fails clk ctx userId mailbox kind uidNext b =
     (case bindE (assertTenantContext ctx) (\<lambda>c.
           bindE (safeUserId userId) (\<lambda>u.
           bindE (safeMailbox (js_or_else mailbox (JStr ''INBOX''))) (\<lambda>m. Inr (c, u, m)))) of
        Inl x \<Rightarrow> ((Inl x, []), b)
      | Inr (c, u, m) \<Rightarrow>
          let n = Suc (br_eventSequence b); b1 = b\<lparr>br_eventSequence := n\<rparr> in
          (case clk of
             None \<Rightarrow> ((Inl (Err JsRangeErr [] 0), []), b1)
           | Some t \<Rightarrow> let e = idle_event_of t c u m kind uidNext n in
               (case notify_loop fails e (br_subscriptions b1) of
                  (Inl x, hs) \<Rightarrow> ((Inl x, hs), b1)
                | (Inr k, hs) \<Rightarrow> ((Inr \<lparr>in_event = e, in_delivered = k\<rparr>, hs), b1))))"

definition count :: "'h broker \<Rightarrow> nat" where
  "count b = length (br_subscriptions b)"

lemmas idle_defs [code_defs] = idleError_def mailbox_ok_def safeMailbox_def safeUserId_def safeKind_def
  safeUidNext_def createImapIdleBroker_def subscribe_def close_subscription_def wants_def
  idle_event_of_def notify_def count_def

subsection \<open>Who is called\<close>

definition listeners :: "idle_event \<Rightarrow> 'h broker \<Rightarrow> 'h list" where \<comment> \<open>the specification\<close>
  "listeners e b = map (snd \<circ> snd) (filter (wants e \<circ> fst \<circ> snd) (br_subscriptions b))"

lemma notify_loop_ok:
  assumes "\<And>h. h \<in> set (map (snd \<circ> snd) ss) \<Longrightarrow> fails h e = None"
  shows "notify_loop fails e ss = (Inr (length (filter (wants e \<circ> fst \<circ> snd) ss)),
     map (snd \<circ> snd) (filter (wants e \<circ> fst \<circ> snd) ss))"
  using assms by (induction fails e ss rule: notify_loop.induct) auto

lemma notify_loop_prefix:
  "\<exists>ms. map (snd \<circ> snd) (filter (wants e \<circ> fst \<circ> snd) ss) = snd (notify_loop fails e ss) @ ms"
  by (induction fails e ss rule: notify_loop.induct) (auto split: option.splits prod.splits sum.splits)

lemma notify_InrE:
  assumes "notify fails clk ctx userId mailbox kind uidNext b = ((Inr r, hs), b1)"
  obtains c u m t where "assertTenantContext ctx = Inr c" "userId = JStr u"
    "in_event r = idle_event_of t c u m kind uidNext (Suc (br_eventSequence b))"
    "b1 = b\<lparr>br_eventSequence := Suc (br_eventSequence b)\<rparr>"
    "notify_loop fails (in_event r) (br_subscriptions b) = (Inr (in_delivered r), hs)"
  using assms
  by (auto simp: notify_def Let_def safeUserId_def split: sum.split_asm prod.split_asm option.split_asm)

lemma notify_sequence:
  "snd (notify fails clk ctx userId mailbox kind uidNext b) = b
   \<or> snd (notify fails clk ctx userId mailbox kind uidNext b) = b\<lparr>br_eventSequence := Suc (br_eventSequence b)\<rparr>"
  by (auto simp: notify_def Let_def split: sum.splits prod.splits option.splits)

text \<open>A log of notifications: any calls of the broker, with the event of each notification that
  succeeds.\<close>

inductive idle_run :: "'h broker \<Rightarrow> idle_event list \<Rightarrow> 'h broker \<Rightarrow> bool" where
  start: "idle_run b [] b"
| subscribes: "idle_run b es b1 \<Longrightarrow> idle_run b es (snd (subscribe ctx userId mailbox h b1))"
| closes: "idle_run b es b1 \<Longrightarrow> idle_run b es (close_subscription i b1)"
| notified: "idle_run b es b1 \<Longrightarrow> notify fails clk ctx userId mailbox kind uidNext b1 = ((Inr r, hs), b2) \<Longrightarrow>
    idle_run b (es @ [in_event r]) b2"
| failed: "idle_run b es b1 \<Longrightarrow> notify fails clk ctx userId mailbox kind uidNext b1 = ((Inl x, hs), b2) \<Longrightarrow>
    idle_run b es b2"

lemma subscribe_event_sequence [simp]:
  "br_eventSequence (snd (subscribe ctx userId mailbox h b)) = br_eventSequence b"
proof -
  obtain r b1 where "subscribe ctx userId mailbox h b = (r, b1)" by (rule prod.exhaust)
  then show ?thesis
    by (auto simp: subscribe_def Let_def elim!: liftE_cases split: option.split_asm if_split_asm)
qed

lemma idle_run_sequences:
  "idle_run b es b1 \<Longrightarrow> br_eventSequence b \<le> br_eventSequence b1
     \<and> sorted_wrt (<) (map ie_sequence es)
     \<and> (\<forall>e\<in>set es. br_eventSequence b < ie_sequence e \<and> ie_sequence e \<le> br_eventSequence b1
          \<and> ie_eventId e = ''idle-event-'' @ pad8 (ie_sequence e))"
proof (induction rule: idle_run.induct)
  case (notified b es b1 fails clk ctx userId mailbox kind uidNext r hs b2)
  from notified(2) show ?case
    by (rule notify_InrE)
       (use notified(3) in \<open>fastforce simp: sorted_wrt_append idle_event_of_def\<close>)
next
  case (failed b es b1 fails clk ctx userId mailbox kind uidNext x hs b2)
  have "b2 = b1 \<or> b2 = b1\<lparr>br_eventSequence := Suc (br_eventSequence b1)\<rparr>"
    using notify_sequence [of fails clk ctx userId mailbox kind uidNext b1] failed(2) by simp
  with failed(3) show ?case by (auto intro: le_SucI)
qed (auto simp: close_subscription_def)

lemma notify_loop_Inr:
  "notify_loop fails e ss = (Inr n, hs) \<Longrightarrow>
   hs = map (snd \<circ> snd) (filter (wants e \<circ> fst \<circ> snd) ss) \<and> n = length hs"
  by (induction fails e ss arbitrary: n hs rule: notify_loop.induct)
     (auto split: if_split_asm option.split_asm prod.split_asm sum.split_asm)

subsection \<open>Properties\<close>

text \<open>A notification reaches exactly the subscriptions of that mailbox of that user in the tenant of
  the context, each once and in the order they were made, and the count it returns is the number of
  callbacks called; nobody else's callback runs.\<close>

theorem notify_reaches_exactly_the_mailbox:
  assumes "notify fails clk ctx userId mailbox kind uidNext b = ((Inr r, hs), b1)"
  shows "hs = map (snd \<circ> snd) (filter (\<lambda>(i, s, h). is_tenantId s = ie_tenantId (in_event r)
        \<and> is_userId s = ie_userId (in_event r) \<and> is_mailbox s = ie_mailbox (in_event r)) (br_subscriptions b))
     \<and> in_delivered r = length hs \<and> userId = JStr (ie_userId (in_event r))
     \<and> (\<exists>c. assertTenantContext ctx = Inr c \<and> ie_tenantId (in_event r) = tc_tenantId c)
     \<and> br_subscriptions b1 = br_subscriptions b"
  using assms
proof (rule notify_InrE)
  fix c u m t
  assume c: "assertTenantContext ctx = Inr c" "userId = JStr u"
    and e: "in_event r = idle_event_of t c u m kind uidNext (Suc (br_eventSequence b))"
    and b1: "b1 = b\<lparr>br_eventSequence := Suc (br_eventSequence b)\<rparr>"
    and loop: "notify_loop fails (in_event r) (br_subscriptions b) = (Inr (in_delivered r), hs)"
  have "filter (wants (in_event r) \<circ> fst \<circ> snd) (br_subscriptions b) = filter (\<lambda>(i, s, h).
      is_tenantId s = ie_tenantId (in_event r) \<and> is_userId s = ie_userId (in_event r)
      \<and> is_mailbox s = ie_mailbox (in_event r)) (br_subscriptions b)"
    by (rule filter_cong) (auto simp: wants_def)
  with notify_loop_Inr [OF loop] have "hs = map (snd \<circ> snd) (filter (\<lambda>(i, s, h). is_tenantId s = ie_tenantId (in_event r)
        \<and> is_userId s = ie_userId (in_event r) \<and> is_mailbox s = ie_mailbox (in_event r)) (br_subscriptions b))
     \<and> in_delivered r = length hs" by simp
  with c e b1 show ?thesis by (simp add: idle_event_of_def)
qed

definition example_broker :: "nat broker" where
  "example_broker = \<lparr>br_subscriptions =
     [(''idle-00000001'', \<lparr>is_tenantId = ''t1'', is_userId = ''ada'', is_mailbox = ''INBOX''\<rparr>, 7),
      (''idle-00000002'', \<lparr>is_tenantId = ''t1'', is_userId = ''bob'', is_mailbox = ''INBOX''\<rparr>, 8)],
     br_subscriptionSequence = 2, br_eventSequence = 0\<rparr>"

definition example_idle_ctx :: jsval where
  "example_idle_ctx = context_js \<lparr>tc_tenantId = ''t1'', tc_domain = ''t1.test'', tc_actorId = None, tc_role = Provider\<rparr>"

definition example_notification :: idle_notification where
  "example_notification = \<lparr>in_event = \<lparr>ie_eventId = ''idle-event-00000001'', ie_sequence = 1, ie_tenantId = ''t1'',
     ie_userId = ''ada'', ie_mailbox = ''INBOX'', ie_kind = ''exists'', ie_uidNext = Some 5, ie_occurredAt = 1000\<rparr>,
     in_delivered = 1\<rparr>"

lemma example_notify:
  "notify (\<lambda>h e. None) (Some 1000) example_idle_ctx (JStr ''ada'') JUndef JUndef (JInt 5) example_broker
   = ((Inr example_notification, [7]), example_broker\<lparr>br_eventSequence := 1\<rparr>)"
  by code_simp

lemma notify_reaches_exactly_the_mailbox_witness:
  "map (snd \<circ> snd) (filter (\<lambda>(i, s, h). is_userId s = ''ada'') (br_subscriptions example_broker)) = [7]
   \<and> in_delivered example_notification = 1"
  using notify_reaches_exactly_the_mailbox [OF example_notify]
  by (simp add: example_broker_def example_notification_def)

text \<open>The broker's events are ordered and their ids are unique: over any run of subscriptions,
  cancellations and notifications, failed ones included, the sequence numbers of the events are
  strictly increasing and each event id is the one of its number, so no two events share an id.\<close>

theorem idle_events_strictly_ordered:
  assumes "idle_run b es b1"
  shows "sorted_wrt (<) (map ie_sequence es) \<and> distinct (map ie_eventId es)
     \<and> (\<forall>e\<in>set es. br_eventSequence b < ie_sequence e \<and> ie_sequence e \<le> br_eventSequence b1)"
proof -
  note run = idle_run_sequences [OF assms]
  have "distinct (map ie_sequence es)" using run by (simp add: strict_sorted_iff)
  then have "inj_on ie_sequence (set es)" "distinct es" by (simp_all add: distinct_map)
  moreover have "inj_on ie_eventId (set es)"
    using run \<open>inj_on ie_sequence (set es)\<close> by (auto simp: inj_on_def)
  ultimately show ?thesis using run by (simp add: distinct_map)
qed

lemma idle_events_strictly_ordered_witness:
  "sorted_wrt (<) (map ie_sequence [in_event example_notification])"
  using idle_events_strictly_ordered [OF notified [OF start example_notify]] by simp

end
