(* ===== verification/Text_Lines.thy ===== *)
theory Text_Lines
  imports JS_Base
begin

section \<open>Lines of a text\<close>

text \<open>
  What the mail and the groupware sources share about lines: the characters that end one, joining lines
  with CRLF, cutting a text at any of the three line ends, and the length of a text in UTF-8.
\<close>

definition CR :: char where "CR = CHR 0x0D"
definition LF :: char where "LF = CHR 0x0A"

definition CRLF :: string where
  "CRLF = [CR, LF]"

definition after_CR :: "string \<Rightarrow> string" where \<comment> \<open>a line feed after a carriage return belongs to it\<close>
  "after_CR cs = (case cs of d # ds \<Rightarrow> if d = LF then ds else cs | [] \<Rightarrow> cs)"

lemma length_after_CR [termination_simp]: "length (after_CR cs) \<le> length cs"
  by (auto simp: after_CR_def split: list.splits)

lemma set_after_CR: "set (after_CR cs) \<subseteq> set cs"
  by (auto simp: after_CR_def split: list.splits)

fun join_crlf :: "string list \<Rightarrow> string" where
  "join_crlf [] = []"
| "join_crlf [l] = l"
| "join_crlf (l # ls) = l @ CRLF @ join_crlf ls"

lemma CR_LF [simp]: "CR \<noteq> LF" "LF \<noteq> CR" "CR \<noteq> CHR ''.''" "LF \<noteq> CHR ''.''" "CHR ''.'' \<noteq> CR" "CHR ''.'' \<noteq> LF"
  by (simp_all add: CR_def LF_def)

definition no_crlf :: "string \<Rightarrow> bool" where \<comment> \<open>neither of the two characters\<close>
  "no_crlf l \<longleftrightarrow> CR \<notin> set l \<and> LF \<notin> set l"

text \<open>The lines of a text whose line ends are any of the three; the specification of the escaping.\<close>

fun text_lines :: "string \<Rightarrow> string list" where
  "text_lines [] = [[]]"
| "text_lines (c # cs) =
     (if c = CR then [] # text_lines (after_CR cs)
      else if c = LF then [] # text_lines cs
      else (case text_lines cs of l # ls \<Rightarrow> (c # l) # ls | [] \<Rightarrow> [[c]]))"

lemma text_lines_nonempty [simp]: "text_lines s \<noteq> []"
  by (induction s rule: text_lines.induct) (auto split: list.splits)

lemma text_lines_no_crlf: "l \<in> set (text_lines s) \<Longrightarrow> no_crlf l"
proof (induction s arbitrary: l rule: text_lines.induct)
  case 1
  then show ?case by (simp add: no_crlf_def)
next
  case (2 c cs)
  obtain m ms where ms: "text_lines cs = m # ms" by (cases "text_lines cs") auto
  show ?case
  proof (cases "c = CR \<or> c = LF")
    case True
    with 2 show ?thesis by (auto simp: no_crlf_def split: if_splits)
  next
    case False
    with 2 ms show ?thesis by (auto simp: no_crlf_def)
  qed
qed

lemma join_crlf_Cons: "ls \<noteq> [] \<Longrightarrow> join_crlf (l # ls) = l @ CRLF @ join_crlf ls"
  by (cases ls) simp_all

text \<open>\<open>replaceAll('\r\n', '\n').replaceAll('\r', '\n')\<close>, followed by \<open>split('\n')\<close>.\<close>

fun lf_newlines :: "string \<Rightarrow> string" where
  "lf_newlines [] = []"
| "lf_newlines (c # cs) = (if c = CR then LF # lf_newlines (after_CR cs) else c # lf_newlines cs)"

lemma lf_newlines_lines: "split_by (\<lambda>c. c = LF) (lf_newlines s) = text_lines s"
  by (induction s rule: lf_newlines.induct) auto

lemma text_lines_line: "no_crlf l \<Longrightarrow> text_lines (l @ CRLF @ r) = l # text_lines r"
  by (induction l) (auto simp: no_crlf_def CRLF_def after_CR_def)

lemma text_lines_join:
  "\<forall>l\<in>set ls. no_crlf l \<Longrightarrow> ls \<noteq> [] \<Longrightarrow> text_lines (join_crlf ls @ CRLF @ r) = ls @ text_lines r"
proof (induction ls rule: join_crlf.induct)
  case (3 l m ls)
  then show ?case by (simp add: text_lines_line)
qed (simp_all add: text_lines_line)

lemmas text_lines_defs [code_defs] = CR_def LF_def CRLF_def after_CR_def

end
