(* ===== verification/Utf8_Text.thy ===== *)
theory Utf8_Text
  imports JS_Base
begin

section \<open>Bytes that are read as UTF-8\<close>

text \<open>
  \<open>Buffer.toString('utf8')\<close>, by which \<open>src/core/mail/smtp-client.ts\<close> turns what the network delivers and
  a stored message into text: every malformed sequence of bytes, cut at the first byte that cannot
  belong to it, and a character that is not finished at the end give U+FFFD.  A byte is a character of
  the list it stands in.  A text has the code points below 256; one above stands in it as the character
  SUBSTITUTE (0x1A), as often as it has code units in JavaScript; the client looks for ASCII characters only,
  save for \<open>trim\<close> and \<open>toUpperCase\<close> of a capability.
\<close>

text \<open>A character that is not finished: the bytes still to come, its value so far, and the bounds of the next byte.\<close>

type_synonym utf8_state = "(nat \<times> nat \<times> nat \<times> nat) option"

definition utf8_lead :: "nat \<Rightarrow> utf8_state" where
  "utf8_lead n =
     (if 194 \<le> n \<and> n \<le> 223 then Some (1, n - 192, 128, 191)
      else if n = 224 then Some (2, 0, 160, 191)
      else if n = 237 then Some (2, 13, 128, 159)
      else if 225 \<le> n \<and> n \<le> 239 then Some (2, n - 224, 128, 191)
      else if n = 240 then Some (3, 0, 144, 191)
      else if n = 244 then Some (3, 4, 128, 143)
      else if 241 \<le> n \<and> n \<le> 243 then Some (3, n - 240, 128, 191)
      else None)"

definition utf8_start :: "nat \<Rightarrow> nat list \<times> utf8_state" where
  "utf8_start n = (if n < 128 then ([n], None) else if utf8_lead n = None then ([0xFFFD], None) else ([], utf8_lead n))"

definition utf8_step :: "utf8_state \<Rightarrow> nat \<Rightarrow> nat list \<times> utf8_state" where
  "utf8_step st n = (case st of None \<Rightarrow> utf8_start n
     | Some (need, v, lo, hi) \<Rightarrow>
         if lo \<le> n \<and> n \<le> hi
         then (if need \<le> 1 then ([64 * v + (n - 128)], None) else ([], Some (need - 1, 64 * v + (n - 128), 128, 191)))
         else (case utf8_start n of (out, st1) \<Rightarrow> (0xFFFD # out, st1)))"

fun utf8_run :: "utf8_state \<Rightarrow> string \<Rightarrow> nat list \<times> utf8_state" where
  "utf8_run st [] = ([], st)"
| "utf8_run st (c # cs) = (case utf8_step st (ccode c) of (out, st1) \<Rightarrow>
     case utf8_run st1 cs of (outs, st2) \<Rightarrow> (out @ outs, st2))"

definition utf8_points :: "string \<Rightarrow> nat list" where
  "utf8_points bytes = (case utf8_run None bytes of (out, st) \<Rightarrow> out @ (if st = None then [] else [0xFFFD]))"

definition point_text :: "nat \<Rightarrow> string" where
  "point_text n = (if n < 256 then [char_of n] else if n < 0x10000 then [CHR 0x1A] else [CHR 0x1A, CHR 0x1A])"

definition utf8_text :: "string \<Rightarrow> string" where
  "utf8_text bytes = concat (map point_text (utf8_points bytes))"

text \<open>The bytes do not end within a character.\<close>

definition utf8_whole :: "string \<Rightarrow> bool" where
  "utf8_whole bytes \<longleftrightarrow> snd (utf8_run None bytes) = None"

lemmas utf8_defs [code_defs] = utf8_lead_def utf8_start_def utf8_step_def utf8_points_def point_text_def utf8_text_def utf8_whole_def

subsection \<open>Cutting the bytes\<close>

lemma utf8_run_append: "utf8_run st (a @ b) = (case utf8_run st a of (out, st1) \<Rightarrow> case utf8_run st1 b of (outs, st2) \<Rightarrow> (out @ outs, st2))"
  by (induction a arbitrary: st) (auto split: prod.split)

lemma utf8_whole_append: "utf8_whole a \<Longrightarrow> utf8_whole (a @ b) \<longleftrightarrow> utf8_whole b"
  by (auto simp: utf8_whole_def utf8_run_append split: prod.split)

lemma utf8_text_append: "utf8_whole a \<Longrightarrow> utf8_text (a @ b) = utf8_text a @ utf8_text b"
  by (auto simp: utf8_whole_def utf8_text_def utf8_points_def utf8_run_append split: prod.split)

lemma utf8_text_concat: "\<forall>c\<in>set cs. utf8_whole c \<Longrightarrow> utf8_text (concat cs) = concat (map utf8_text cs)"
  by (induction cs) (auto simp: utf8_text_append, simp add: utf8_text_def utf8_points_def)

subsection \<open>Texts that are read back\<close>

definition utf8_char :: "char \<Rightarrow> string" where
  "utf8_char c = (let n = ccode c in if n < 128 then [c] else [char_of (192 + n div 64), char_of (128 + n mod 64)])"

definition utf8_bytes :: "string \<Rightarrow> string" where
  "utf8_bytes s = concat (map utf8_char s)"

lemma utf8_char_run: "utf8_run None (utf8_char c) = ([ccode c], None)"
proof (cases "ccode c < 128")
  case True
  then show ?thesis by (simp add: utf8_char_def utf8_step_def utf8_start_def)
next
  case False
  define a where "a = ccode c div 64"
  define b where "b = ccode c mod 64"
  have "ccode c < 256" unfolding ccode_def by simp
  with False have a: "2 \<le> a" "a < 4" and b: "b < 64" and n: "ccode c = 64 * a + b" unfolding a_def b_def by auto
  have code: "ccode (char_of m) = m" if "m < 256" for m :: nat using that by (simp add: ccode_def)
  have "utf8_char c = [char_of (192 + a), char_of (128 + b)]" using False by (simp add: utf8_char_def Let_def a_def b_def)
  then show ?thesis using a b code [of "192 + a"] code [of "128 + b"]
    by (simp add: utf8_step_def utf8_start_def utf8_lead_def n)
qed

theorem utf8_text_bytes: "utf8_text (utf8_bytes s) = s" "utf8_whole (utf8_bytes s)"
proof -
  have run: "utf8_run None (utf8_bytes s) = (map ccode s, None)"
    by (induction s) (simp_all add: utf8_bytes_def utf8_run_append utf8_char_run)
  have "concat (map point_text (map ccode s)) = s"
    by (induction s) (simp_all add: point_text_def ccode_def)
  with run show "utf8_text (utf8_bytes s) = s" by (simp add: utf8_text_def utf8_points_def)
  from run show "utf8_whole (utf8_bytes s)" by (simp add: utf8_whole_def)
qed

lemma utf8_ascii:
  assumes "list_all (\<lambda>c. ccode c < 128) s"
  shows "utf8_text s = s" "utf8_whole s"
proof -
  have "utf8_bytes s = s" using assms by (induction s) (simp_all add: utf8_bytes_def utf8_char_def)
  with utf8_text_bytes [of s] show "utf8_text s = s" "utf8_whole s" by simp_all
qed

end
