(* ===== verification/Smtp_Client.thy ===== *)
theory Smtp_Client
  imports Text_Lines Utf8_Text
begin

section \<open>The SMTP client\<close>

text \<open>
  \<open>src/core/mail/smtp-client.ts\<close>: the framing of the server's lines, the parsing of replies, the
  commands and the escaping of the message.  The closure variables are the record \<open>smtp\<close>.  The
  network is the list of events still to come, consumed whenever the client waits for a line: a chunk
  of bytes as one \<open>data\<close> event delivers it (decoded by itself, as \<open>onData\<close> does), the end of the connection, or a silence that lets the
  command time out; what the client writes is logged in \<open>sc_sent\<close>.  The outcomes of connecting, of the
  TLS handshake and of flushing the message are arguments.  Base 64 is the parameter \<open>b64\<close>.
\<close>

datatype net_event = Chunk string | Closed | Silence \<comment> \<open>the bytes of a chunk\<close>

datatype mail_content = TextContent string | BufferContent string \<comment> \<open>\<open>string | Buffer\<close>\<close>

datatype tls_mode = TlsImplicit | TlsStartTls | TlsNone

record smtp_response =
  sp_code :: nat
  sp_lines :: "string list"
  sp_message :: string

record smtp =
  sc_tls :: tls_mode
  sc_socket :: bool
  sc_buffer :: string
  sc_pending :: "string list"
  sc_events :: "net_event list"
  sc_sent :: "string list"

type_synonym 'a smtp_op = "smtp \<Rightarrow> 'a res \<times> smtp"

subsection \<open>Text\<close>

definition smtpClientError :: "string \<Rightarrow> err" where
  "smtpClientError code = Err SmtpClientErr code 0"

text \<open>A \<open>SmtpCommandError\<close>: its code is the code of the reply, and it is temporary for 4xx.\<close>

definition smtpCommandError :: "smtp_response \<Rightarrow> err" where
  "smtpCommandError r = Err SmtpCommandErr [] (sp_code r)"

definition unsafe_control :: "char \<Rightarrow> bool" where
  "unsafe_control c \<longleftrightarrow> c = CR \<or> c = LF \<or> ccode c = 0"

definition assertSafeAtom :: "jsval \<Rightarrow> string res" where
  "assertSafeAtom v = need_str (\<lambda>s. s \<noteq> [] \<and> \<not> list_ex unsafe_control s) (smtpClientError ''INVALID_INPUT'') v"

fun normalize_newlines :: "string \<Rightarrow> string" where \<comment> \<open>\<open>replace(/\r\n|\r|\n/gu, '\r\n')\<close>\<close>
  "normalize_newlines [] = []"
| "normalize_newlines (c # cs) =
     (if c = CR then CRLF @ normalize_newlines (after_CR cs)
      else if c = LF then CRLF @ normalize_newlines cs
      else c # normalize_newlines cs)"

text \<open>\<open>split('\r\n')\<close>, and the loop of \<open>onData\<close>: the complete lines and what follows the last of them.\<close>

fun crlf_split :: "string \<Rightarrow> string list \<times> string" where
  "crlf_split [] = ([], [])"
| "crlf_split (c # cs) =
     (if c = CR \<and> (case cs of d # _ \<Rightarrow> d = LF | [] \<Rightarrow> False)
      then (case crlf_split (tl cs) of (ls, b) \<Rightarrow> ([] # ls, b))
      else (case crlf_split cs of (l # ls, b) \<Rightarrow> ((c # l) # ls, b) | ([], b) \<Rightarrow> ([], c # b)))"

definition split_crlf :: "string \<Rightarrow> string list" where
  "split_crlf s = (case crlf_split s of (ls, b) \<Rightarrow> ls @ [b])"

definition stuff_line :: "string \<Rightarrow> string" where
  "stuff_line l = (case l of c # _ \<Rightarrow> if c = CHR ''.'' then CHR ''.'' # l else l | [] \<Rightarrow> l)"

definition dotStuff :: "string \<Rightarrow> string" where
  "dotStuff content = join_crlf (map stuff_line (split_crlf (normalize_newlines content)))"

subsection \<open>Reading replies\<close>

definition onData :: "string \<Rightarrow> string \<Rightarrow> string list \<times> string" where
  "onData buf chunk = crlf_split (buf @ utf8_text chunk)"

definition reply_line_ok :: "string \<Rightarrow> bool" where
  "reply_line_ok l \<longleftrightarrow> 4 \<le> length l \<and> list_all is_digit (take 3 l) \<and> (l ! 3 = CHR '' '' \<or> l ! 3 = CHR ''-'')"

fun join_lf :: "string list \<Rightarrow> string" where
  "join_lf [] = []"
| "join_lf [l] = l"
| "join_lf (l # ls) = l @ [LF] @ join_lf ls"

definition response_of :: "string list \<Rightarrow> smtp_response" where
  "response_of ls = \<lparr>sp_code = undec (take 3 (hd ls)), sp_lines = ls, sp_message = join_lf (map (drop 4) ls)\<rparr>"

text \<open>The loop of \<open>readResponse\<close> over \<open>readLine\<close>: on the lines pending, the buffer, the events and whether
  the socket is still there; \<open>acc\<close> holds the lines of the reply read so far.\<close>

fun read_loop :: "string list \<Rightarrow> string \<Rightarrow> net_event list \<Rightarrow> bool \<Rightarrow> string list \<Rightarrow>
    smtp_response res \<times> string list \<times> string \<times> net_event list \<times> bool" where
  "read_loop (l # ps) buf evs sock acc =
     (if \<not> reply_line_ok l then (Inl (smtpClientError ''PROTOCOL_ERROR''), ps, buf, evs, sock)
      else if l ! 3 = CHR '' '' then (Inr (response_of (acc @ [l])), ps, buf, evs, sock)
      else read_loop ps buf evs sock (acc @ [l]))"
| "read_loop [] buf [] sock acc = (Inl (smtpClientError ''TIMEOUT''), [], buf, [], sock)"
| "read_loop [] buf (Silence # evs) sock acc = (Inl (smtpClientError ''TIMEOUT''), [], buf, evs, sock)"
| "read_loop [] buf (Closed # evs) sock acc = (Inl (smtpClientError ''CONNECTION_CLOSED''), [], buf, evs, False)"
| "read_loop [] buf (Chunk c # evs) sock acc = (case onData buf c of (ls, b) \<Rightarrow> read_loop ls b evs sock acc)"

definition readResponse :: "smtp_response smtp_op" where
  "readResponse s = (case read_loop (sc_pending s) (sc_buffer s) (sc_events s) (sc_socket s) [] of
     (r, ps, buf, evs, sock) \<Rightarrow>
       (r, s\<lparr>sc_pending := ps, sc_buffer := buf, sc_events := evs, sc_socket := sock\<rparr>))"

definition expect :: "nat list \<Rightarrow> smtp_response smtp_op" where
  "expect codes = bindS readResponse (\<lambda>r.
     pureS (if sp_code r \<in> set codes then Inr r else Inl (smtpCommandError r)))"

definition sock_write :: "string \<Rightarrow> unit smtp_op" where
  "sock_write t s = (if \<not> sc_socket s then (Inl (smtpClientError ''NOT_CONNECTED''), s)
     else (Inr (), s\<lparr>sc_sent := sc_sent s @ [t]\<rparr>))"

definition runCommand :: "string \<Rightarrow> nat list \<Rightarrow> smtp_response smtp_op" where
  "runCommand t codes = bindS (sock_write (t @ CRLF)) (\<lambda>_. expect codes)"

subsection \<open>Commands\<close>

definition createSmtpClient :: "jsval \<Rightarrow> jsval \<Rightarrow> tls_mode option \<Rightarrow> net_event list \<Rightarrow> smtp res" where
  "createSmtpClient host port tls evs =
     bindE (assertSafeAtom host) (\<lambda>_.
     bindE (need_int (\<lambda>n. 1 \<le> n \<and> n \<le> 65535) (smtpClientError ''INVALID_INPUT'') port) (\<lambda>_.
     Inr \<lparr>sc_tls = (case tls of None \<Rightarrow> TlsStartTls | Some t \<Rightarrow> t), sc_socket = False, sc_buffer = [],
          sc_pending = [], sc_events = evs, sc_sent = []\<rparr>))"

definition smtp_connect :: "err option \<Rightarrow> smtp_response smtp_op" where
  "smtp_connect failure s = (case failure of Some e \<Rightarrow> (Inl e, s)
     | None \<Rightarrow> expect [220] (s\<lparr>sc_socket := True\<rparr>))"

definition ehlo :: "jsval \<Rightarrow> (smtp_response \<times> string list) smtp_op" where
  "ehlo host = bindS (pureS (assertSafeAtom host)) (\<lambda>h.
     bindS (runCommand (''EHLO '' @ h) [250]) (\<lambda>r.
     pureS (Inr (r, map (\<lambda>l. upper (drop 4 l)) (tl (sp_lines r))))))"

text \<open>The handshake replaces the socket: the buffer is cleared, the lines already split are not.\<close>

definition startTls :: "err option \<Rightarrow> smtp_response smtp_op" where
  "startTls handshake s =
     (if sc_tls s \<noteq> TlsStartTls then (Inl (smtpClientError ''CONFIGURATION''), s)
      else if \<not> sc_socket s then (Inl (smtpClientError ''NOT_CONNECTED''), s)
      else bindS (runCommand ''STARTTLS'' [220]) (\<lambda>r t.
        let u = t\<lparr>sc_buffer := []\<rparr> in
        (case handshake of Some e \<Rightarrow> (Inl e, u) | None \<Rightarrow> (Inr r, u\<lparr>sc_socket := True\<rparr>))) s)"

definition assertCredentials :: "jsval \<Rightarrow> jsval \<Rightarrow> (string \<times> string) res" where
  "assertCredentials user pass =
     bindE (assertSafeAtom user) (\<lambda>u. bindE (assertSafeAtom pass) (\<lambda>p. Inr (u, p)))"

definition is_command_error :: "err \<Rightarrow> bool" where
  "is_command_error e \<longleftrightarrow> err_class e = SmtpCommandErr"

definition is_temporary :: "err \<Rightarrow> bool" where
  "is_temporary e \<longleftrightarrow> 400 \<le> err_status e \<and> err_status e < 500"

definition authenticationFailed :: "err \<Rightarrow> err" where
  "authenticationFailed e = (if is_command_error e then smtpClientError ''AUTHENTICATION_FAILED'' else e)"

definition rethrow :: "(err \<Rightarrow> err) \<Rightarrow> 'a smtp_op \<Rightarrow> 'a smtp_op" where \<comment> \<open>\<open>try ... catch (e) { throw f(e) }\<close>\<close>
  "rethrow f m s = (case m s of (Inl e, t) \<Rightarrow> (Inl (f e), t) | (Inr x, t) \<Rightarrow> (Inr x, t))"

definition authLogin :: "(string \<Rightarrow> string) \<Rightarrow> jsval \<Rightarrow> jsval \<Rightarrow> smtp_response smtp_op" where
  "authLogin b64 user pass = bindS (pureS (assertCredentials user pass)) (\<lambda>(u, p).
     bindS (runCommand ''AUTH LOGIN'' [334]) (\<lambda>_.
     bindS (runCommand (b64 u) [334]) (\<lambda>_.
     rethrow authenticationFailed (runCommand (b64 p) [235]))))"

definition authPlain :: "(string \<Rightarrow> string) \<Rightarrow> jsval \<Rightarrow> jsval \<Rightarrow> smtp_response smtp_op" where
  "authPlain b64 user pass = bindS (pureS (assertCredentials user pass)) (\<lambda>(u, p).
     rethrow authenticationFailed
       (runCommand (''AUTH PLAIN '' @ b64 ([CHR 0x00] @ u @ [CHR 0x00] @ p)) [235]))"

text \<open>\<open>/^AUTH[ =](.+)$/u\<close> on the trimmed line, then \<open>split(/[ =]+/u)\<close>; the empty words a split may
  give at its ends are no mechanism.\<close>

definition mechanisms_of :: "string \<Rightarrow> string list" where
  "mechanisms_of capability = (let c = upper (trim capability) in
     if starts_with ''AUTH'' c \<and> 6 \<le> length c \<and> one_of '' ='' (c ! 4)
        \<and> \<not> list_ex (\<lambda>x. x = CR \<or> x = LF) (drop 5 c)
     then filter (\<lambda>w. w \<noteq> []) (split_by (one_of '' ='') (drop 5 c)) else [])"

definition authenticate :: "(string \<Rightarrow> string) \<Rightarrow> jsval \<Rightarrow> jsval \<Rightarrow> string list \<Rightarrow> smtp_response smtp_op" where
  "authenticate b64 user pass capabilities =
     (let ms = concat (map mechanisms_of capabilities) in
      if ''PLAIN'' \<in> set ms then authPlain b64 user pass
      else if ''LOGIN'' \<in> set ms then authLogin b64 user pass
      else pureS (Inl (smtpClientError ''AUTH_UNSUPPORTED'')))"

definition mailFrom :: "jsval \<Rightarrow> smtp_response smtp_op" where
  "mailFrom address = bindS (pureS (assertSafeAtom address)) (\<lambda>a.
     runCommand (''MAIL FROM:<'' @ a @ ''>'') [250])"

definition rcptTo :: "jsval \<Rightarrow> smtp_response smtp_op" where
  "rcptTo address = bindS (pureS (assertSafeAtom address)) (\<lambda>a.
     runCommand (''RCPT TO:<'' @ a @ ''>'') [250, 251])"

definition smtp_payload :: "string \<Rightarrow> string" where
  "smtp_payload body = dotStuff body @ CRLF @ ''.'' @ CRLF"

fun content_text :: "mail_content \<Rightarrow> string" where
  "content_text (TextContent s) = s"
| "content_text (BufferContent bytes) = utf8_text bytes"

definition smtp_data :: "bool \<Rightarrow> mail_content \<Rightarrow> smtp_response smtp_op" where
  "smtp_data flushed content = bindS (runCommand ''DATA'' [354]) (\<lambda>_.
     bindS (sock_write (smtp_payload (content_text content))) (\<lambda>_.
     if \<not> flushed then pureS (Inl (smtpClientError ''CONNECTION_CLOSED''))
     else rethrow (\<lambda>e. if is_command_error e then e else smtpClientError ''DATA_OUTCOME_UNKNOWN'') (expect [250])))"

definition smtp_close :: "smtp \<Rightarrow> smtp" where
  "smtp_close s = s\<lparr>sc_socket := False\<rparr>"

definition quit :: "smtp_response smtp_op" where
  "quit s = (case runCommand ''QUIT'' [221] s of (r, t) \<Rightarrow> (r, smtp_close t))"

lemmas smtp_defs [code_defs] = smtpClientError_def smtpCommandError_def
  unsafe_control_def assertSafeAtom_def split_crlf_def stuff_line_def dotStuff_def onData_def
  reply_line_ok_def response_of_def readResponse_def expect_def sock_write_def runCommand_def
  createSmtpClient_def smtp_connect_def ehlo_def startTls_def assertCredentials_def
  is_command_error_def is_temporary_def authenticationFailed_def rethrow_def authLogin_def
  authPlain_def mechanisms_of_def authenticate_def mailFrom_def rcptTo_def smtp_payload_def
  smtp_data_def smtp_close_def quit_def

subsection \<open>Framing\<close>

lemma crlf_split_line: "no_crlf l \<Longrightarrow> crlf_split (l @ CRLF @ r) = (case crlf_split r of (ls, b) \<Rightarrow> (l # ls, b))"
  by (induction l) (auto simp: no_crlf_def CRLF_def split: prod.splits)

lemma crlf_split_plain: "no_crlf l \<Longrightarrow> crlf_split l = ([], l)"
  by (induction l) (auto simp: no_crlf_def)

lemma crlf_split_join:
  "\<forall>l\<in>set ls. no_crlf l \<Longrightarrow> ls \<noteq> [] \<Longrightarrow> crlf_split (join_crlf ls @ CRLF @ r) = (case crlf_split r of (ms, b) \<Rightarrow> (ls @ ms, b))"
proof (induction ls rule: join_crlf.induct)
  case (3 l m ls)
  then show ?case by (simp add: crlf_split_line split: prod.splits)
qed (simp_all add: crlf_split_line)

lemma split_crlf_join: "\<forall>l\<in>set ls. no_crlf l \<Longrightarrow> ls \<noteq> [] \<Longrightarrow> split_crlf (join_crlf ls) = ls"
proof (induction ls rule: join_crlf.induct)
  case (2 l)
  then show ?case by (simp add: split_crlf_def crlf_split_plain)
next
  case (3 l m ls)
  then show ?case by (simp add: split_crlf_def crlf_split_line split: prod.splits)
qed simp

lemma normalize_newlines_lines: "normalize_newlines s = join_crlf (text_lines s)"
proof (induction s rule: normalize_newlines.induct)
  case (2 c cs)
  obtain m ms where ms: "text_lines cs = m # ms" by (cases "text_lines cs") auto
  show ?case
  proof (cases "c = CR \<or> c = LF")
    case True
    with 2 show ?thesis by (auto simp: join_crlf_Cons)
  next
    case False
    with 2 ms show ?thesis by (cases ms) (auto)
  qed
qed simp

lemma dotStuff_lines: "dotStuff s = join_crlf (map stuff_line (text_lines s))"
  using text_lines_no_crlf by (simp add: dotStuff_def normalize_newlines_lines split_crlf_join)

lemma stuff_line_no_crlf: "no_crlf l \<Longrightarrow> no_crlf (stuff_line l)"
  by (auto simp: stuff_line_def no_crlf_def split: list.splits)

subsection \<open>The message as a receiver reads it\<close>

text \<open>A receiver's view of a message: the lines up to the one that is a dot, with the escaping undone,
  and the lines that follow it.\<close>

definition unstuff :: "string \<Rightarrow> string" where
  "unstuff l = (case l of c # cs \<Rightarrow> if c = CHR ''.'' then cs else l | [] \<Rightarrow> l)"

definition receive_data :: "string list \<Rightarrow> string list \<times> string list" where
  "receive_data ls = (map unstuff (takeWhile (\<lambda>l. l \<noteq> ''.'') ls), tl (dropWhile (\<lambda>l. l \<noteq> ''.'') ls))"

lemma unstuff_stuff [simp]: "unstuff (stuff_line l) = l"
  by (auto simp: unstuff_def stuff_line_def split: list.splits)

lemma stuff_line_no_dot: "stuff_line l \<noteq> ''.''"
  by (auto simp: stuff_line_def split: list.splits)

lemma receive_stuffed: "receive_data (map stuff_line ls @ ''.'' # ms) = (ls, ms)"
  by (simp add: receive_data_def takeWhile_append dropWhile_append stuff_line_no_dot comp_def)

lemma no_crlf_dot: "no_crlf ''.''"
  by (simp add: no_crlf_def CR_def LF_def)

lemma smtp_payload_lines: "smtp_payload s = join_crlf (map stuff_line (text_lines s) @ [''.'']) @ CRLF"
proof -
  have "ls \<noteq> [] \<Longrightarrow> join_crlf (ls @ [m]) = join_crlf ls @ CRLF @ m" for ls and m
    by (induction ls rule: join_crlf.induct) simp_all
  then show ?thesis by (simp add: smtp_payload_def dotStuff_lines)
qed

lemma payload_lines_ok: "\<forall>l\<in>set (map stuff_line (text_lines s) @ [''.'']). no_crlf l"
  using stuff_line_no_crlf text_lines_no_crlf no_crlf_dot by auto

lemma after_CR_CRLF: "c \<noteq> LF \<Longrightarrow> after_CR (c # cs) = c # cs" "after_CR (LF # cs) = cs" "after_CR [] = []"
  by (simp_all add: after_CR_def)

subsection \<open>Framing of the replies\<close>

lemma crlf_split_nil: "crlf_split s = ([], b) \<Longrightarrow> b = s"
  by (induction s arbitrary: b rule: crlf_split.induct) (auto split: if_splits prod.splits list.splits)

lemma crlf_split_append:
  "crlf_split a = (ls, x) \<Longrightarrow> crlf_split (a @ b) = (case crlf_split (x @ b) of (ms, y) \<Rightarrow> (ls @ ms, y))"
proof (induction a arbitrary: ls x rule: crlf_split.induct)
  case (2 c cs)
  show ?case
  proof (cases "c = CR \<and> (case cs of d # _ \<Rightarrow> d = LF | [] \<Rightarrow> False)")
    case True
    then obtain ds where "c = CR" "cs = LF # ds" by (auto split: list.splits)
    with 2 show ?thesis by (auto split: prod.splits)
  next
    case False
    obtain ms y where ms: "crlf_split cs = (ms, y)" by (cases "crlf_split cs")
    show ?thesis
    proof (cases ms)
      case Nil
      with 2(3) False ms have "ls = []" by auto
      moreover from this crlf_split_nil 2(3) have "x = c # cs" by blast
      ultimately show ?thesis by (simp split: prod.split)
    next
      case (Cons m ns)
      then have "cs \<noteq> []" using ms by auto
      with False have "\<not> (c = CR \<and> (case cs @ b of d # _ \<Rightarrow> d = LF | [] \<Rightarrow> False))" by (cases cs) auto
      with 2 False ms Cons show ?thesis by (auto split: prod.splits)
    qed
  qed
qed simp

lemma crlf_split_remainder: "crlf_split s = (ls, b) \<Longrightarrow> crlf_split b = ([], b)"
  using crlf_split_append [of s ls b "[]"] by (cases "crlf_split b") (auto dest: crlf_split_nil)

text \<open>An eager reader: everything the network delivers up to its next end or silence is split at once.\<close>

fun absorb :: "string list \<Rightarrow> string \<Rightarrow> net_event list \<Rightarrow> string list \<times> string \<times> net_event list" where
  "absorb ps buf (Chunk c # evs) = (case onData buf c of (ls, b) \<Rightarrow> absorb (ps @ ls) b evs)"
| "absorb ps buf evs = (ps, buf, evs)"

definition unread :: "smtp \<Rightarrow> string list \<times> string \<times> net_event list" where
  "unread s = absorb (sc_pending s) (sc_buffer s) (sc_events s)"

lemma absorb_append: "absorb (ps @ qs) buf evs = (case absorb qs buf evs of (rs, b, es) \<Rightarrow> (ps @ rs, b, es))"
  by (induction qs buf evs arbitrary: rule: absorb.induct) (auto simp: split: prod.splits)

lemma absorb_chunks:
  assumes "crlf_split buf = ([], buf)" and "\<forall>c\<in>set cs. utf8_whole c"
  shows "absorb ps buf (map Chunk cs @ evs) = absorb ps buf (Chunk (concat cs) # evs)"
  using assms
proof (induction cs arbitrary: ps buf)
  case Nil
  then show ?case by (simp add: onData_def utf8_text_def utf8_points_def)
next
  case (Cons c cs)
  obtain ls b where b: "crlf_split (buf @ utf8_text c) = (ls, b)" by (cases "crlf_split (buf @ utf8_text c)")
  obtain ms y where y: "crlf_split (b @ utf8_text (concat cs)) = (ms, y)" by (cases "crlf_split (b @ utf8_text (concat cs))")
  from Cons.prems have c: "utf8_text (c @ concat cs) = utf8_text c @ utf8_text (concat cs)" by (simp add: utf8_text_append)
  from crlf_split_append [OF b, of "utf8_text (concat cs)"] y
  have "crlf_split (buf @ utf8_text c @ utf8_text (concat cs)) = (ls @ ms, y)" by simp
  with Cons.IH [OF crlf_split_remainder [OF b], of "ps @ ls"] Cons.prems b y c show ?case by (simp add: onData_def)
qed

lemma absorb_idem: "absorb ps buf evs = (qs, b, es) \<Longrightarrow> absorb rs b es = (rs, b, es)"
  by (induction ps buf evs rule: absorb.induct) (auto split: prod.splits)

text \<open>Reading line by line as the events come gives the reply of the eager reader, and leaves the same
  lines, remainder and events unread.\<close>

lemma read_loop_eager:
  assumes "read_loop ps buf evs sock acc = (r, ps1, b1, es1, k1)" "absorb ps buf evs = (qs, c, fs)"
  shows "\<exists>qs' c' fs'. read_loop qs c fs sock acc = (r, qs', c', fs', k1) \<and> absorb qs' c' fs' = absorb ps1 b1 es1"
  using assms
proof (induction ps buf evs sock acc arbitrary: qs c fs rule: read_loop.induct)
  case (1 l ps buf evs sock acc)
  from 1(3) absorb_append [of "[l]" ps buf evs] obtain rs where
    rs: "qs = l # rs" "absorb ps buf evs = (rs, c, fs)" by (cases "absorb ps buf evs") auto
  moreover have "absorb rs c fs = absorb ps buf evs" using rs absorb_idem by metis
  ultimately show ?case using 1(1,2) by (auto split: if_splits)
qed (auto split: prod.splits)

lemma readResponse_eager:
  assumes "readResponse s = (r, t)" "unread s = (qs, c, fs)"
  shows "\<exists>qs' c' fs' k. read_loop qs c fs (sc_socket s) [] = (r, qs', c', fs', k)
    \<and> k = sc_socket t \<and> absorb qs' c' fs' = unread t"
proof -
  obtain q ps1 b1 es1 k1 where rl: "read_loop (sc_pending s) (sc_buffer s) (sc_events s) (sc_socket s) [] = (q, ps1, b1, es1, k1)"
    by (metis surj_pair)
  with read_loop_eager [OF this, of qs c fs] assms show ?thesis
    by (auto simp: readResponse_def unread_def)
qed

text \<open>Replies read one after the other, each an error or a reply.\<close>

fun read_replies :: "nat \<Rightarrow> smtp \<Rightarrow> smtp_response res list" where
  "read_replies 0 s = []"
| "read_replies (Suc n) s = (case readResponse s of (r, t) \<Rightarrow> r # read_replies n t)"

lemma same_unread_same_reply:
  assumes "unread s = unread t" "sc_socket s = sc_socket t" "readResponse s = (r, s1)" "readResponse t = (q, t1)"
  shows "r = q \<and> unread s1 = unread t1 \<and> sc_socket s1 = sc_socket t1"
proof -
  obtain qs c fs where u: "unread s = (qs, c, fs)" by (metis surj_pair)
  from readResponse_eager [OF assms(3) u] readResponse_eager [OF assms(4), of qs c fs] u assms(1,2)
  show ?thesis by (auto simp: Pair_inject)
qed

lemma same_unread_same_replies:
  "unread s = unread t \<Longrightarrow> sc_socket s = sc_socket t \<Longrightarrow> read_replies n s = read_replies n t"
proof (induction n arbitrary: s t)
  case (Suc n)
  obtain r s1 q t1 where st: "readResponse s = (r, s1)" "readResponse t = (q, t1)" by (metis surj_pair)
  from same_unread_same_reply [OF Suc.prems st] Suc.IH [of s1 t1]
  have "r = q" "read_replies n s1 = read_replies n t1" by blast+
  with st show ?case by simp
qed simp

subsection \<open>What is written\<close>

lemma assertSafeAtom_Inr: "assertSafeAtom v = Inr a \<Longrightarrow> v = JStr a \<and> a \<noteq> [] \<and> no_crlf a"
  by (auto simp: assertSafeAtom_def unsafe_control_def no_crlf_def list_ex_iff)

lemma readResponse_keeps: "readResponse s = (r, t) \<Longrightarrow> sc_sent t = sc_sent s \<and> sc_tls t = sc_tls s"
  by (auto simp: readResponse_def split: prod.splits)

lemma expect_keeps: "expect codes s = (r, t) \<Longrightarrow> sc_sent t = sc_sent s \<and> sc_tls t = sc_tls s"
  unfolding expect_def by (erule bindS_cases) (auto dest: readResponse_keeps)

lemma runCommand_sent:
  assumes "runCommand c codes s = (r, t)"
  shows "sc_sent t = (if sc_socket s then sc_sent s @ [c @ CRLF] else sc_sent s)"
  using assms unfolding runCommand_def
  by (rule bindS_cases) (auto simp: sock_write_def split: if_splits dest!: expect_keeps)

lemma guarded_command_sent:
  assumes "bindS (pureS (assertSafeAtom v)) (\<lambda>a. runCommand (p @ a @ q) codes) s = (r, t)"
  shows "sc_sent t = sc_sent s \<or> (\<exists>a. v = JStr a \<and> no_crlf a \<and> sc_sent t = sc_sent s @ [p @ a @ q @ CRLF])"
  using assms by (rule bindS_cases) (auto dest!: runCommand_sent assertSafeAtom_Inr assertSafeAtom_Inr [OF sym] split: if_splits)

lemma one_line: "no_crlf l \<Longrightarrow> text_lines (l @ CRLF) = [l, []]"
  using text_lines_line [of l "[]"] by simp

lemma no_crlf_append [simp]: "no_crlf (a @ b) \<longleftrightarrow> no_crlf a \<and> no_crlf b"
  by (auto simp: no_crlf_def)

lemma no_crlf_verbs [simp]: "no_crlf ''MAIL FROM:<''" "no_crlf ''RCPT TO:<''" "no_crlf ''>''" "no_crlf ''EHLO ''" "no_crlf []"
  by (simp_all add: no_crlf_def CR_def LF_def)

subsection \<open>A concrete session\<close>

definition example_smtp :: "net_event list \<Rightarrow> smtp" where
  "example_smtp evs = \<lparr>sc_tls = TlsStartTls, sc_socket = True, sc_buffer = [], sc_pending = [], sc_events = evs, sc_sent = []\<rparr>"

subsection \<open>Properties\<close>

text \<open>C15 The message is transparent: whatever the content, a receiver that undoes the escaping reads
  exactly its lines up to the line that is a dot, and what is sent after the message is all that
  follows; nothing in a content can end the message early.  This holds for a receiver that ends lines
  at the two-character line end and for a lenient one that also ends them at either character alone.\<close>

theorem smtp_data_transparent:
  "receive_data (fst (crlf_split (smtp_payload content @ next_command))) = (text_lines content, fst (crlf_split next_command))
   \<and> receive_data (text_lines (smtp_payload content @ next_command)) = (text_lines content, text_lines next_command)"
proof -
  let ?ls = "map stuff_line (text_lines content)"
  have "crlf_split (smtp_payload content @ next_command) = (case crlf_split next_command of (ms, b) \<Rightarrow> (?ls @ [''.''] @ ms, b))"
    using crlf_split_join [OF payload_lines_ok, of content next_command] by (simp add: smtp_payload_lines split: prod.split)
  moreover have "text_lines (smtp_payload content @ next_command) = ?ls @ [''.''] @ text_lines next_command"
    using text_lines_join [OF payload_lines_ok, of content next_command] by (simp add: smtp_payload_lines)
  ultimately show ?thesis using receive_stuffed by (auto split: prod.split)
qed

text \<open>C16  The replies do not depend on how the network cuts the stream, as long as it does not cut within a character: for a client whose buffer holds no complete line, as onData leaves it, two deliveries of the same bytes in different chunks, none of which ends within a UTF-8 character, followed by the same events, give the same sequence of replies and errors.\<close>

theorem replies_independent_of_chunking:
  assumes "crlf_split (sc_buffer s) = ([], sc_buffer s)" "concat cs = concat ds" "\<forall>c\<in>set cs \<union> set ds. utf8_whole c"
  shows "read_replies n (s\<lparr>sc_events := map Chunk cs @ evs\<rparr>) = read_replies n (s\<lparr>sc_events := map Chunk ds @ evs\<rparr>)"
  by (rule same_unread_same_replies) (use assms in \<open>simp_all add: unread_def absorb_chunks\<close>)

lemma replies_independent_of_chunking_witness:
  "read_replies 2 ((example_smtp [])\<lparr>sc_events := map Chunk [''250 '', [CHR 0xC3, CHR 0xA9] @ [CR], [LF] @ ''221 bye'' @ CRLF] @ [Closed]\<rparr>)
   = read_replies 2 ((example_smtp [])\<lparr>sc_events := map Chunk [''250 '' @ [CHR 0xC3, CHR 0xA9] @ CRLF @ ''221 bye'' @ CRLF] @ [Closed]\<rparr>)"
proof (rule replies_independent_of_chunking)
  show "\<forall>c\<in>set [''250 '', [CHR 0xC3, CHR 0xA9] @ [CR], [LF] @ ''221 bye'' @ CRLF]
      \<union> set [''250 '' @ [CHR 0xC3, CHR 0xA9] @ CRLF @ ''221 bye'' @ CRLF]. utf8_whole c"
    by code_simp
qed (simp_all add: example_smtp_def CRLF_def)

text \<open>Where a chunk ends within a character, the reply is not the one the server sent: each chunk is decoded by itself,
  so that the two bytes of an \<open>e\<close> with an acute accent become two characters U+FFFD.\<close>

text \<open>Where a chunk ends within a character, the reply is not the one the server sent: each chunk is decoded by itself,
  so that the two bytes of an \<open>e\<close> with an acute accent become two characters U+FFFD.\<close>

theorem split_character_changes_reply:
  "read_replies 1 (example_smtp (map Chunk [''250 '' @ [CHR 0xC3, CHR 0xA9] @ CRLF])) = [Inr (response_of [''250 '' @ [CHR 0xE9]])]
   \<and> read_replies 1 (example_smtp (map Chunk [''250 '' @ [CHR 0xC3], [CHR 0xA9] @ CRLF])) = [Inr (response_of [''250 '' @ [CHR 0x1A, CHR 0x1A]])]"
proof -
  have decoded: "utf8_text (''250 '' @ [CHR 0xC3, CHR 0xA9] @ CRLF) = ''250 '' @ [CHR 0xE9] @ CRLF"
    "utf8_text (''250 '' @ [CHR 0xC3]) = ''250 '' @ [CHR 0x1A]" "utf8_text ([CHR 0xA9] @ CRLF) = [CHR 0x1A] @ CRLF"
    by (simp_all add: utf8_defs CRLF_def CR_def LF_def ccode_def char_of_def bit_0)
  have "crlf_split (''250 '' @ [CHR 0xE9] @ CRLF) = ([''250 '' @ [CHR 0xE9]], [])" "crlf_split (''250 '' @ [CHR 0x1A]) = ([], ''250 '' @ [CHR 0x1A])"
    "crlf_split ((''250 '' @ [CHR 0x1A]) @ [CHR 0x1A] @ CRLF) = ([''250 '' @ [CHR 0x1A, CHR 0x1A]], [])"
    by code_simp+
  then have "onData [] (''250 '' @ [CHR 0xC3, CHR 0xA9] @ CRLF) = ([''250 '' @ [CHR 0xE9]], [])"
    "onData [] (''250 '' @ [CHR 0xC3]) = ([], ''250 '' @ [CHR 0x1A])"
    "onData (''250 '' @ [CHR 0x1A]) ([CHR 0xA9] @ CRLF) = ([''250 '' @ [CHR 0x1A, CHR 0x1A]], [])"
    by (simp_all only: onData_def decoded append_Nil)
  moreover have "reply_line_ok (''250 '' @ x) \<and> (''250 '' @ x) ! 3 = CHR '' ''" for x by (simp add: reply_line_ok_def is_digit_def ccode_def)
  ultimately show ?thesis by (simp add: readResponse_def example_smtp_def del: append_Cons)
qed

text \<open>A command is one line: a host name or address with a line end is refused before anything is
  written, and whatever is accepted is sent as a single line even for a receiver that ends lines at
  either character alone.\<close>

theorem commands_are_one_line:
  assumes "(f, pre, post) \<in> {(\<lambda>v s. snd (mailFrom v s), ''MAIL FROM:<'', ''>''),
      (\<lambda>v s. snd (rcptTo v s), ''RCPT TO:<'', ''>''), (\<lambda>v s. snd (ehlo v s), ''EHLO '', [])}"
    and "sc_sent (f v s) \<noteq> sc_sent s"
  shows "\<exists>a. v = JStr a \<and> sc_sent (f v s) = sc_sent s @ [pre @ a @ post @ CRLF]
    \<and> text_lines (pre @ a @ post @ CRLF) = [pre @ a @ post, []]"
proof -
  have ehlo: "\<exists>r t. bindS (pureS (assertSafeAtom v)) (\<lambda>a. runCommand (''EHLO '' @ a @ []) [250]) s = (r, t)
      \<and> t = snd (ehlo v s)"
    by (auto simp: ehlo_def bindS_def pureS_def split: sum.splits prod.splits)
  have "\<exists>r codes. bindS (pureS (assertSafeAtom v)) (\<lambda>a. runCommand (pre @ a @ post) codes) s = (r, f v s)"
    using assms(1) ehlo by (auto simp: mailFrom_def rcptTo_def) (metis surjective_pairing)+
  with guarded_command_sent assms(2) obtain a where "v = JStr a" "no_crlf a" "sc_sent (f v s) = sc_sent s @ [pre @ a @ post @ CRLF]"
    by blast
  moreover have "no_crlf pre" "no_crlf post" using assms(1) by auto
  ultimately show ?thesis using one_line [of "pre @ a @ post"] by simp
qed

lemma commands_are_one_line_witness:
  "text_lines (last (sc_sent (snd (mailFrom (JStr ''a@t1.test'') (example_smtp []))))) = [''MAIL FROM:<a@t1.test>'', []]"
proof -
  have sent: "sc_sent (snd (mailFrom (JStr ''a@t1.test'') (example_smtp []))) = [''MAIL FROM:<a@t1.test>'' @ CRLF]"
    by code_simp
  then have "sc_sent (snd (mailFrom (JStr ''a@t1.test'') (example_smtp []))) \<noteq> sc_sent (example_smtp [])"
    by (simp add: example_smtp_def)
  from commands_are_one_line [of "\<lambda>v s. snd (mailFrom v s)" "''MAIL FROM:<''" "''>''", OF _ this] sent
  show ?thesis by (auto simp: example_smtp_def simp del: text_lines.simps)
qed

text \<open>A reply injected before the handshake is taken for one that TLS protects: the handshake clears
  the buffer but not the lines that were already split, so when the plaintext peer appends a
  complete reply to its answer to STARTTLS, the client's next command is answered by it, whatever
  the authenticated server sends later.\<close>

theorem starttls_keeps_injected_reply:
  assumes "startTls None s = (Inr r, t)" "sc_pending t = [l]"
    and "reply_line_ok l" "l ! 3 = CHR '' ''" "undec (take 3 l) = 250" "assertSafeAtom host = Inr h"
  shows "fst (ehlo host (t\<lparr>sc_events := tls_events\<rparr>)) = Inr (response_of [l], [])
    \<and> sc_events (snd (ehlo host (t\<lparr>sc_events := tls_events\<rparr>))) = tls_events"
proof -
  have "sc_socket t"
    using assms(1) unfolding startTls_def
    by (auto simp: Let_def bindS_Inr guard_iff split: if_splits)
  with assms(2-) show ?thesis
    by (simp add: ehlo_def bindS_def pureS_def runCommand_def sock_write_def expect_def readResponse_def
        response_of_def)
qed

lemma starttls_keeps_injected_reply_witness:
  "fst (ehlo (JStr ''client'') ((snd (startTls None (example_smtp [Chunk (''220 go'' @ CRLF @ ''250 injected'' @ CRLF)])))
     \<lparr>sc_events := [Chunk []]\<rparr>)) = Inr (response_of [''250 injected''], [])"
proof -
  let ?s = "example_smtp [Chunk (''220 go'' @ CRLF @ ''250 injected'' @ CRLF)]"
  have "is_ok (fst (startTls None ?s))" by code_simp
  then obtain r t where t: "startTls None ?s = (Inr r, t)" by (metis is_ok_iff surjective_pairing)
  have "sc_pending (snd (startTls None ?s)) = [''250 injected'']" by code_simp
  with t have p: "sc_pending t = [''250 injected'']" by simp
  have "assertSafeAtom (JStr ''client'') = Inr ''client''" "reply_line_ok ''250 injected''"
    "''250 injected'' ! 3 = CHR '' ''" "undec (take 3 ''250 injected'') = 250" by code_simp+
  with starttls_keeps_injected_reply [OF t p, of "JStr ''client''" "''client''" "[Chunk []]"] t show ?thesis by simp
qed

end
