(* ===== verification/Smtp_Queue_Adapter.thy ===== *)
theory Smtp_Queue_Adapter
  imports Smtp_Client Mail_Queue
begin

section \<open>Delivery from the queue over SMTP\<close>

text \<open>
  \<open>src/core/mail/smtp-queue-adapter.ts\<close>.  The interface \<open>SmtpClient\<close> is the record \<open>smtp_ops\<close> of
  operations on a client state, and \<open>smtp_client_ops\<close> fills it with the client of \<open>smtp-client.ts\<close>; the
  three operations of \<open>MailQueueLike\<close> are arguments, and the laws they need are the locale
  \<open>delivery_queue\<close>.  \<open>deliver\<close> is split where the code goes from the client to the queue: \<open>attempt\<close> is
  what the \<open>try\<close> block does with the client, \<open>conclude\<close> what is then reported to the queue, errors of
  the queue included, which the same \<open>catch\<close> handles.  The credentials and the stored message are what
  the injected functions return.  The queue's clock may answer differently every time, so the calls of
  the handler are arguments of their own, \<open>h_defer\<close> and \<open>h_complete\<close>.
\<close>

record 'c smtp_ops =
  op_connect :: "'c \<Rightarrow> unit res \<times> 'c"
  op_ehlo :: "string \<Rightarrow> 'c \<Rightarrow> string list res \<times> 'c"
  op_startTls :: "'c \<Rightarrow> unit res \<times> 'c"
  op_authenticate :: "jsval \<Rightarrow> jsval \<Rightarrow> string list \<Rightarrow> 'c \<Rightarrow> unit res \<times> 'c"
  op_mailFrom :: "string \<Rightarrow> 'c \<Rightarrow> unit res \<times> 'c"
  op_rcptTo :: "string \<Rightarrow> 'c \<Rightarrow> unit res \<times> 'c"
  op_data :: "mail_content \<Rightarrow> 'c \<Rightarrow> unit res \<times> 'c"
  op_quit :: "'c \<Rightarrow> unit res \<times> 'c"
  op_close :: "'c \<Rightarrow> 'c"

type_synonym credentials = "(jsval \<times> jsval) option"

record rejected_recipient =
  rr_address :: string
  rr_code :: "nat option"

record delivery_result =
  dr_queueId :: string
  dr_state :: queue_state
  dr_accepted :: "string list"
  dr_rejected :: "rejected_recipient list"

text \<open>How the \<open>try\<close> block leaves the client: every recipient refused (for good or not), the message
  accepted, or an exception.\<close>

datatype outcome = AllRejected bool | Sent | Failed err

subsection \<open>The client side\<close>

definition smtp_client_ops :: "(string \<Rightarrow> string) \<Rightarrow> err option \<Rightarrow> err option \<Rightarrow> bool \<Rightarrow> smtp smtp_ops" where
  "smtp_client_ops b64 connfail handshake flushed = (let ok = \<lambda>m. bindS m (\<lambda>_. pureS (Inr ())) in
     \<lparr>op_connect = ok (smtp_connect connfail),
      op_ehlo = (\<lambda>h. bindS (ehlo (JStr h)) (\<lambda>(_, caps). pureS (Inr caps))),
      op_startTls = ok (startTls handshake),
      op_authenticate = (\<lambda>u p caps. ok (authenticate b64 u p caps)),
      op_mailFrom = (\<lambda>a. ok (mailFrom (JStr a))),
      op_rcptTo = (\<lambda>a. ok (rcptTo (JStr a))),
      op_data = (\<lambda>m. ok (smtp_data flushed m)),
      op_quit = ok quit,
      op_close = smtp_close\<rparr>)"

definition safeClose :: "'c smtp_ops \<Rightarrow> 'c \<Rightarrow> 'c" where
  "safeClose ops c = (case op_quit ops c of (Inr _, d) \<Rightarrow> d | (Inl _, d) \<Rightarrow> op_close ops d)"

text \<open>From connecting to \<open>MAIL FROM\<close>.\<close>

definition open_session :: "'c smtp_ops \<Rightarrow> bool \<Rightarrow> string \<Rightarrow> credentials res \<Rightarrow> string \<Rightarrow> 'c \<Rightarrow> unit res \<times> 'c" where
  "open_session ops starttls hostname creds sender =
     bindS (op_connect ops) (\<lambda>_.
     bindS (op_ehlo ops hostname) (\<lambda>caps0.
     bindS (if starttls then bindS (op_startTls ops) (\<lambda>_. op_ehlo ops hostname) else pureS (Inr caps0)) (\<lambda>caps.
     bindS (pureS creds) (\<lambda>cr.
     bindS (case cr of None \<Rightarrow> pureS (Inr ()) | Some (u, p) \<Rightarrow> op_authenticate ops u p caps) (\<lambda>_.
     op_mailFrom ops sender)))))"

fun rcpt_loop :: "'c smtp_ops \<Rightarrow> string list \<Rightarrow> 'c \<Rightarrow> string list \<times> rejected_recipient list \<times> 'c" where
  "rcpt_loop ops [] c = ([], [], c)"
| "rcpt_loop ops (r # rs) c = (case op_rcptTo ops r c of
     (Inr _, d) \<Rightarrow> (case rcpt_loop ops rs d of (acc, rej, z) \<Rightarrow> (r # acc, rej, z))
   | (Inl e, d) \<Rightarrow> (case rcpt_loop ops rs d of (acc, rej, z) \<Rightarrow>
       (acc, \<lparr>rr_address = r, rr_code = (if is_command_error e then Some (err_status e) else None)\<rparr> # rej, z)))"

definition permanentOnly :: "rejected_recipient list \<Rightarrow> bool" where
  "permanentOnly rej \<longleftrightarrow> rej \<noteq> [] \<and> list_all (\<lambda>x. case rr_code x of None \<Rightarrow> False | Some n \<Rightarrow> 500 \<le> n) rej"

definition attempt :: "'c smtp_ops \<Rightarrow> bool \<Rightarrow> string \<Rightarrow> credentials res \<Rightarrow> mail_content res \<Rightarrow> queue_entry \<Rightarrow> 'c \<Rightarrow>
    outcome \<times> string list \<times> rejected_recipient list \<times> 'c" where
  "attempt ops starttls hostname creds message claimed c =
     (case open_session ops starttls hostname creds (qe_sender claimed) c of
        (Inl e, d) \<Rightarrow> (Failed e, [], [], d)
      | (Inr _, d) \<Rightarrow>
         (case rcpt_loop ops (qe_recipients claimed) d of (acc, rej, z) \<Rightarrow>
            if acc = [] then (AllRejected (permanentOnly rej), acc, rej, safeClose ops z)
            else (case message of Inl e \<Rightarrow> (Failed e, acc, rej, z)
              | Inr payload \<Rightarrow> (case op_data ops payload z of
                    (Inl e, y) \<Rightarrow> (Failed e, acc, rej, y)
                  | (Inr _, y) \<Rightarrow> (Sent, acc, rej, safeClose ops y)))))"

subsection \<open>The queue side\<close>

type_synonym 'q defer_fn = "string \<Rightarrow> jsval \<Rightarrow> string option \<Rightarrow> 'q \<Rightarrow> public_entry res \<times> 'q"
type_synonym 'q complete_fn = "string \<Rightarrow> jsval \<Rightarrow> queue_state option \<Rightarrow> string option \<Rightarrow> 'q \<Rightarrow> public_entry res \<times> 'q"

definition outcome_unknown :: "err \<Rightarrow> bool" where
  "outcome_unknown e \<longleftrightarrow> err_code e = ''DATA_OUTCOME_UNKNOWN''"

definition on_error :: "'q defer_fn \<Rightarrow> 'q complete_fn \<Rightarrow> string \<Rightarrow> jsval \<Rightarrow> err \<Rightarrow> 'q \<Rightarrow> public_entry res \<times> 'q" where
  "on_error do_defer do_complete i ctx e q =
     (if outcome_unknown e then do_complete i ctx (Some Quarantined) (Some ''smtp_outcome_unknown'') q
      else if \<not> is_command_error e \<or> is_temporary e then do_defer i ctx (Some ''smtp_temporary_failure'') q
      else do_complete i ctx (Some Bounced) (Some ''smtp_rejected'') q)"

definition try_report :: "'q defer_fn \<Rightarrow> 'q complete_fn \<Rightarrow> string \<Rightarrow> jsval \<Rightarrow> outcome \<Rightarrow> 'q \<Rightarrow> public_entry res \<times> 'q" where
  "try_report do_defer do_complete i ctx out q = (case out of
     Failed e \<Rightarrow> (Inl e, q)
   | Sent \<Rightarrow> do_complete i ctx (Some Delivered) (Some ''smtp_delivered'') q
   | AllRejected permanent \<Rightarrow>
       if permanent then do_complete i ctx (Some Bounced) (Some ''smtp_rejected'') q
       else do_defer i ctx (Some ''smtp_temporary_failure'') q)"

text \<open>The report with the handler; \<open>True\<close> when the handler ran, which closes the client.\<close>

definition conclude :: "'q defer_fn \<Rightarrow> 'q complete_fn \<Rightarrow> 'q defer_fn \<Rightarrow> 'q complete_fn \<Rightarrow> string \<Rightarrow> jsval \<Rightarrow> outcome \<Rightarrow> 'q \<Rightarrow>
    public_entry res \<times> 'q \<times> bool" where
  "conclude do_defer do_complete h_defer h_complete i ctx out q =
     (case try_report do_defer do_complete i ctx out q of
        (Inr p, q1) \<Rightarrow> (Inr p, q1, False)
      | (Inl e, q1) \<Rightarrow> (case on_error h_defer h_complete i ctx e q1 of (r, q2) \<Rightarrow> (r, q2, True)))"

definition deliver :: "'c smtp_ops \<Rightarrow> (string \<Rightarrow> jsval \<Rightarrow> 'q \<Rightarrow> queue_entry res \<times> 'q) \<Rightarrow> 'q defer_fn \<Rightarrow>
    'q complete_fn \<Rightarrow> 'q defer_fn \<Rightarrow> 'q complete_fn \<Rightarrow> bool \<Rightarrow> string option \<Rightarrow> (jsval \<Rightarrow> queue_entry \<Rightarrow> credentials res) \<Rightarrow> (jsval \<Rightarrow> mail_content res) \<Rightarrow>
    'c res \<Rightarrow> jsval \<Rightarrow> string \<Rightarrow> 'q \<Rightarrow> delivery_result res \<times> 'q" where
  "deliver ops do_claim do_defer do_complete h_defer h_complete starttls hostname resolve readMessage client ctx i q =
     bindS (do_claim i ctx) (\<lambda>claimed. bindS (pureS client) (\<lambda>c q1.
       (case attempt ops starttls (case hostname of None \<Rightarrow> ''localhost'' | Some h \<Rightarrow> h)
               (resolve ctx claimed) (readMessage (qe_messageRef claimed)) claimed c of (out, acc, rej, _) \<Rightarrow>
        (case conclude do_defer do_complete h_defer h_complete i ctx out q1 of
           (Inl e, q2, _) \<Rightarrow> (Inl e, q2)
         | (Inr p, q2, _) \<Rightarrow> (Inr \<lparr>dr_queueId = i, dr_state = qe_state p, dr_accepted = acc, dr_rejected = rej\<rparr>, q2))))) q"

lemmas adapter_defs [code_defs] = smtp_client_ops_def safeClose_def open_session_def permanentOnly_def
  attempt_def outcome_unknown_def on_error_def try_report_def conclude_def deliver_def

subsection \<open>What an attempt can claim\<close>

lemma rcpt_loop_split:
  "rcpt_loop ops rs c = (acc, rej, d) \<Longrightarrow> set acc \<union> set (map rr_address rej) = set rs
    \<and> length acc + length rej = length rs"
proof (induction ops rs c arbitrary: acc rej d rule: rcpt_loop.induct)
  case (2 ops r rs c)
  then show ?case by (fastforce split: prod.split_asm sum.split_asm)
qed simp

text \<open>What \<open>attempt\<close> can return: only an accepted message counts as sent, for at least one recipient.\<close>

lemma attempt_cases:
  assumes "attempt ops starttls hostname creds message e c = (out, acc, rej, d)"
  obtains (early) err where "out = Failed err" "acc = []" "rej = []"
      "fst (open_session ops starttls hostname creds (qe_sender e) c) = Inl err"
  | (none) "out = AllRejected (permanentOnly rej)" "acc = []" "set (map rr_address rej) = set (qe_recipients e)"
  | (unread) err where "out = Failed err" "message = Inl err"
      "set acc \<union> set (map rr_address rej) = set (qe_recipients e)"
  | (failed) err payload z where "out = Failed err" "message = Inr payload" "acc \<noteq> []"
      "fst (op_data ops payload z) = Inl err"
      "set acc \<union> set (map rr_address rej) = set (qe_recipients e)"
  | (sent) payload z where "out = Sent" "message = Inr payload" "acc \<noteq> []"
      "is_ok (fst (op_data ops payload z))"
      "set acc \<union> set (map rr_address rej) = set (qe_recipients e)"
proof (cases "open_session ops starttls hostname creds (qe_sender e) c")
  case (Pair r z)
  obtain acc1 rej1 y where l: "rcpt_loop ops (qe_recipients e) z = (acc1, rej1, y)" by (metis surj_pair)
  note split = rcpt_loop_split [OF l]
  show ?thesis
  proof (cases r)
    case (Inl err)
    with Pair assms early show ?thesis by (auto simp: attempt_def)
  next
    case (Inr u)
    note a = assms [unfolded attempt_def Pair Inr prod.case sum.case l]
    show ?thesis
    proof (cases "acc1 = []")
      case True
      with a split none show ?thesis by auto
    next
      case False
      show ?thesis
      proof (cases message)
        case (Inl err)
        with False a split unread show ?thesis by auto
      next
        case msg: (Inr payload)
        obtain w x where w: "op_data ops payload y = (w, x)" by (metis surj_pair)
        show ?thesis
        proof (cases w)
          case (Inl err)
          with False a split msg w failed [of err payload y] show ?thesis by auto
        next
          case (Inr v)
          with False a split msg w sent [of payload y] show ?thesis by auto
        qed
      qed
    qed
  qed
qed

text \<open>What the server answers to each \<open>RCPT TO\<close> in turn, and the client it leaves; what the answers make of the recipients.\<close>

fun rcpt_answers :: "'c smtp_ops \<Rightarrow> string list \<Rightarrow> 'c \<Rightarrow> (string \<times> unit res) list \<times> 'c" where
  "rcpt_answers ops [] c = ([], c)"
| "rcpt_answers ops (r # rs) c = (case op_rcptTo ops r c of (a, d) \<Rightarrow> case rcpt_answers ops rs d of (as, z) \<Rightarrow> ((r, a) # as, z))"

definition taken :: "(string \<times> unit res) list \<Rightarrow> string list" where
  "taken as = map fst (filter (\<lambda>(_, a). is_ok a) as)"

definition refused :: "(string \<times> unit res) list \<Rightarrow> rejected_recipient list" where
  "refused as = concat (map (\<lambda>(r, a). case a of Inr _ \<Rightarrow> []
     | Inl e \<Rightarrow> [\<lparr>rr_address = r, rr_code = (if is_command_error e then Some (err_status e) else None)\<rparr>]) as)"

lemma rcpt_loop_answers: "rcpt_loop ops rs c = (case rcpt_answers ops rs c of (as, z) \<Rightarrow> (taken as, refused as, z))"
  by (induction rs arbitrary: c) (auto simp: taken_def refused_def split: prod.split sum.split)

text \<open>The report of a delivery against how its session was opened and what the server answered in it.\<close>

definition true_report :: "'c smtp_ops \<Rightarrow> mail_content res \<Rightarrow> string list \<Rightarrow> delivery_result \<Rightarrow> unit res \<times> 'c \<Rightarrow> bool" where
  "true_report ops message rs d session = (case session of
     (Inl _, _) \<Rightarrow> dr_accepted d = [] \<and> dr_rejected d = [] \<and> dr_state d \<noteq> Delivered
   | (Inr _, c) \<Rightarrow> (case rcpt_answers ops rs c of (as, c1) \<Rightarrow>
       dr_accepted d = taken as \<and> dr_rejected d = refused as
       \<and> (dr_state d = Delivered \<longrightarrow> dr_accepted d \<noteq> []
          \<and> (\<exists>payload. message = Inr payload \<and> is_ok (fst (op_data ops payload c1))))))"

lemma attempt_report:
  assumes "attempt ops starttls hostname creds message e c = (out, dr_accepted d, dr_rejected d, z)"
    and "dr_state d = Delivered \<Longrightarrow> out = Sent"
  shows "true_report ops message (qe_recipients e) d (open_session ops starttls hostname creds (qe_sender e) c)"
  using assms by (auto simp: true_report_def attempt_def rcpt_loop_answers split: sum.splits prod.splits if_splits)

lemma deliver_Inr:
  assumes "deliver ops do_claim do_defer do_complete h_defer h_complete starttls hostname resolve readMessage client ctx i q = (Inr d, q2)"
  obtains e q1 c out z p b where "do_claim i ctx q = (Inr e, q1)" "client = Inr c"
    "attempt ops starttls (case hostname of None \<Rightarrow> ''localhost'' | Some h \<Rightarrow> h) (resolve ctx e)
       (readMessage (qe_messageRef e)) e c = (out, dr_accepted d, dr_rejected d, z)"
    "conclude do_defer do_complete h_defer h_complete i ctx out q1 = (Inr p, q2, b)"
    "dr_queueId d = i" "dr_state d = qe_state p"
proof -
  let ?h = "case hostname of None \<Rightarrow> ''localhost'' | Some h \<Rightarrow> h"
  from assms obtain e q1 c where 1: "do_claim i ctx q = (Inr e, q1)" "client = Inr c"
    unfolding deliver_def bindS_Inr by auto
  obtain out acc rej z where 2: "attempt ops starttls ?h (resolve ctx e) (readMessage (qe_messageRef e)) e c = (out, acc, rej, z)"
    by (metis surj_pair)
  obtain r q3 b where 3: "conclude do_defer do_complete h_defer h_complete i ctx out q1 = (r, q3, b)" by (metis surj_pair)
  from assms 1 2 3 that [OF 1, of out z _ b] show thesis
    by (cases r) (auto simp: deliver_def bindS_def pureS_def)
qed

subsection \<open>The contract the adapter relies on\<close>

text \<open>The queue as the handler meets it again: the same queue, at another time.\<close>

locale delivery_agent =
  delivery_queue do_claim do_defer do_complete item_at state_at +
  handler: delivery_queue do_claim h_defer h_complete item_at state_at
  for do_claim :: "string \<Rightarrow> jsval \<Rightarrow> 'q \<Rightarrow> queue_entry res \<times> 'q"
    and do_defer do_complete h_defer h_complete item_at state_at
begin

lemma conclude_state:
  assumes "conclude do_defer do_complete h_defer h_complete i ctx out q = (Inr p, q1, b)"
  shows "state_at q1 i = Some (qe_state p)"
    and "qe_state p \<in> {Deferred, Delivered, Bounced, Quarantined}"
    and "qe_state p = Delivered \<Longrightarrow> out = Sent"
proof -
  have "state_at q1 i = Some (qe_state p) \<and> qe_state p \<in> {Deferred, Delivered, Bounced, Quarantined}
      \<and> (qe_state p = Delivered \<longrightarrow> out = Sent)"
  proof (cases "try_report do_defer do_complete i ctx out q")
    case (Pair r q2)
    show ?thesis
    proof (cases r)
      case (Inl e)
      with assms Pair have "on_error h_defer h_complete i ctx e q2 = (Inr p, q1)"
        by (auto simp: conclude_def split: prod.split_asm)
      then show ?thesis unfolding on_error_def
        by (auto split: if_split_asm dest: handler.defer_sets handler.complete_sets)
    next
      case (Inr p2)
      with assms Pair have "try_report do_defer do_complete i ctx out q = (Inr p, q1)" by (simp add: conclude_def)
      then show ?thesis unfolding try_report_def
        by (auto split: outcome.split_asm if_split_asm dest: defer_sets complete_sets)
    qed
  qed
  then show "state_at q1 i = Some (qe_state p)" "qe_state p \<in> {Deferred, Delivered, Bounced, Quarantined}"
    "qe_state p = Delivered \<Longrightarrow> out = Sent" by blast+
qed

lemma on_error_other: "j \<noteq> i \<Longrightarrow> item_at (snd (on_error h_defer h_complete i ctx e q)) j = item_at q j"
  by (simp add: on_error_def handler.others_kept)

lemma try_report_other: "j \<noteq> i \<Longrightarrow> item_at (snd (try_report do_defer do_complete i ctx out q)) j = item_at q j"
  by (simp add: try_report_def others_kept split: outcome.split)

lemma conclude_other:
  "j \<noteq> i \<Longrightarrow> item_at (fst (snd (conclude do_defer do_complete h_defer h_complete i ctx out q))) j = item_at q j"
  using try_report_other [of j i ctx out q] on_error_other [of j i ctx]
  by (auto simp: conclude_def split: prod.split sum.split) (metis snd_conv)+

lemma deliver_other:
  assumes "j \<noteq> i"
  shows "item_at (snd (deliver ops do_claim do_defer do_complete h_defer h_complete starttls hostname resolve readMessage client ctx i q)) j
    = item_at q j"
  using others_kept(1) [OF assms, of ctx q] conclude_other [OF assms, of ctx]
  by (auto simp: deliver_def bindS_def pureS_def split: prod.split sum.split) (metis fst_conv snd_conv)+

lemma deliver_reports:
  assumes "deliver ops do_claim do_defer do_complete h_defer h_complete starttls hostname resolve readMessage client ctx i q = (Inr d, q1)"
  shows "state_at q1 i = Some (dr_state d)" "dr_state d \<in> {Deferred, Delivered, Bounced, Quarantined}"
  using assms by (auto elim!: deliver_Inr dest: conclude_state)

lemma delivered_is_final:
  assumes "deliver ops do_claim do_defer do_complete h_defer h_complete starttls hostname resolve readMessage client ctx i q = (Inr d, q1)"
    and "dr_state d \<noteq> Deferred"
  shows "\<exists>err. do_claim i ctx' q1 = (Inl err, q1)"
  using deliver_reports [OF assms(1)] assms(2) by (intro claim_refuses) auto

end

interpretation ag: delivery_agent "claim clk" "defer_item clk1 clk2" "complete_item clk3"
    "defer_item clk4 clk5" "complete_item clk6" "\<lambda>q. map_of (mq_entries q)" queue_state_of
  for clk clk1 clk2 clk3 clk4 clk5 clk6
  by (intro delivery_agent.intro mq.delivery_queue_axioms)

subsection \<open>A concrete delivery\<close>

definition example_replies :: "string list \<Rightarrow> net_event list" where
  "example_replies ls = map (\<lambda>l. Chunk (l @ CRLF)) ls"

definition example_deliver :: "string list \<Rightarrow> int option \<Rightarrow> delivery_result res \<times> mail_queue" where
  "example_deliver replies clk =
     deliver (smtp_client_ops id None None True) (claim (Some 2000)) (defer_item (Some 2000) (Some 2000))
       (complete_item clk) (defer_item (Some 3000) (Some 3000)) (complete_item (Some 3000)) False None
       (\<lambda>_ _. Inr None) (\<lambda>_. Inr (TextContent ''hello''))
       (createSmtpClient (JStr ''mx'') (JInt 25) (Some TlsNone) (example_replies replies))
       example_ctx ''q-00000001'' (example_queue 5 0 Queued)"

text \<open>The second recipient is refused for the moment, the first one gets the message.\<close>

definition partial_replies :: "string list" where
  "partial_replies = [''220 mx'', ''250 mx'', ''250 sender'', ''250 first'', ''450 later'', ''354 go'', ''250 queued'', ''221 bye'']"

lemmas example_defs [code_defs] = example_replies_def example_deliver_def partial_replies_def

lemma example_partial:
  "fst (example_deliver partial_replies (Some 2500)) = Inr \<lparr>dr_queueId = ''q-00000001'', dr_state = Delivered,
     dr_accepted = [''b@t1.test''], dr_rejected = [\<lparr>rr_address = ''c@t1.test'', rr_code = Some 450\<rparr>]\<rparr>"
  by code_simp

definition example_claimed :: queue_entry where
  "example_claimed = (snd (hd (mq_entries (example_queue 5 1 Delivering))))\<lparr>qe_updatedAt := 2000\<rparr>"

definition example_client :: "string list \<Rightarrow> smtp" where
  "example_client replies = \<lparr>sc_tls = TlsNone, sc_socket = False, sc_buffer = [], sc_pending = [],
     sc_events = example_replies replies, sc_sent = []\<rparr>"

lemma example_claim: "fst (claim (Some 2000) ''q-00000001'' example_ctx (example_queue 5 0 Queued)) = Inr example_claimed"
  by code_simp

lemma example_created:
  "createSmtpClient (JStr ''mx'') (JInt 25) (Some TlsNone) (example_replies rs) = Inr (example_client rs)"
proof -
  have "assertSafeAtom (JStr ''mx'') = Inr ''mx''" by code_simp
  then show ?thesis
    by (simp add: createSmtpClient_def example_client_def need_int_def is_safe_int_def max_safe_def)
qed

lemma example_attempt:
  "fst (attempt (smtp_client_ops id None None True) False (case None of None \<Rightarrow> ''localhost'' | Some h \<Rightarrow> h)
     (Inr None) (Inr (TextContent ''hello'')) example_claimed (example_client partial_replies)) = Sent"
  by code_simp

subsection \<open>Properties\<close>

text \<open>C17 No second delivery: when the server has accepted the message, or the connection failed after the
  message was sent so that it may have, the item is left delivered or quarantined and no claim ever
  succeeds again, whatever the clock of the queue does while the outcome is reported and even when
  reporting it fails.\<close>

theorem no_retry_after_acceptance:
  assumes "claim clk i ctx q = (Inr e, q1)" "client = Inr c"
    and "attempt ops starttls (case hostname of None \<Rightarrow> ''localhost'' | Some h \<Rightarrow> h) (resolve ctx e)
       (readMessage (qe_messageRef e)) e c = (out, acc, rej, z)"
    and out: "out = Sent \<or> (\<exists>err. out = Failed err \<and> outcome_unknown err)"
    and "deliver ops (claim clk) (defer_item clk1 clk2) (complete_item clk3) (defer_item clk4 clk5) (complete_item clk6)
       starttls hostname resolve readMessage client ctx i q = (r, q2)"
  shows "(queue_state_of q2 i = Some Delivered \<or> queue_state_of q2 i = Some Quarantined)
    \<and> (\<exists>err. claim clk' i ctx' q2 = (Inl err, q2))"
proof -
  obtain t where acc: "assertTenantAccess ctx (JStr (qe_tenantId e)) = Inr t" "map_of (mq_entries q1) i = Some e"
    using claim_Inr [OF assms(1)] by blast
  obtain s q3 b where con: "conclude (defer_item clk1 clk2) (complete_item clk3) (defer_item clk4 clk5) (complete_item clk6) i ctx out q1 = (s, q3, b)"
    by (metis surj_pair)
  have "queue_state_of q3 i = Some Delivered \<or> queue_state_of q3 i = Some Quarantined"
    using con out acc
    by (auto simp: conclude_def try_report_def on_error_def complete_item_def defer_item_def queue_get_def Let_def
        rangeError_def outcome_unknown_def is_command_error_def queue_state_of_def split: option.split_asm if_split_asm)
  moreover have "q3 = q2"
    using assms(1-3,5) con by (auto simp: deliver_def bindS_def pureS_def split: sum.split_asm)
  ultimately show ?thesis using mq.claim_refuses by fastforce
qed

lemma no_retry_after_acceptance_witness:
  "queue_state_of (snd (example_deliver partial_replies None)) ''q-00000001'' \<in> {Some Delivered, Some Quarantined}"
proof -
  obtain q1 where q1: "claim (Some 2000) ''q-00000001'' example_ctx (example_queue 5 0 Queued) = (Inr example_claimed, q1)"
    using example_claim by (metis prod.collapse)
  obtain acc rej z where a: "attempt (smtp_client_ops id None None True) False
      (case None of None \<Rightarrow> ''localhost'' | Some h \<Rightarrow> h) (Inr None) (Inr (TextContent ''hello'')) example_claimed (example_client partial_replies)
      = (Sent, acc, rej, z)"
    using example_attempt by (metis prod.collapse)
  obtain r q2 where r: "example_deliver partial_replies None = (r, q2)" by (metis surj_pair)
  from no_retry_after_acceptance [where resolve = "\<lambda>_ _. Inr None" and readMessage = "\<lambda>_. Inr (TextContent ''hello'')",
      OF q1 example_created a _ r [unfolded example_deliver_def]] r show ?thesis by simp
qed

text \<open>C18  The adapter reports what happened: the state it returns is the state stored, never one in which the item is still being delivered, and every other item of the queue is kept as it was. If the session could not be opened, it lists no recipient and does not say delivered; otherwise it lists as accepted, in order, exactly the recipients whose RCPT TO the server accepted, and as rejected the others, each with the code of the server's reply if there was one, and it says delivered only when a recipient was accepted and the server then accepted the stored message.\<close>

theorem delivery_reports_what_happened:
  assumes "deliver ops (claim clk) (defer_item clk1 clk2) (complete_item clk3) (defer_item clk4 clk5) (complete_item clk6)
       starttls hostname resolve readMessage client ctx i q = (Inr d, q2)"
  shows "queue_state_of q2 i = Some (dr_state d) \<and> dr_state d \<in> {Deferred, Delivered, Bounced, Quarantined} \<and> dr_queueId d = i
    \<and> (\<forall>j. j \<noteq> i \<longrightarrow> map_of (mq_entries q2) j = map_of (mq_entries q) j)
    \<and> (\<exists>e q1 c. claim clk i ctx q = (Inr e, q1) \<and> client = Inr c
       \<and> true_report ops (readMessage (qe_messageRef e)) (qe_recipients e) d
           (open_session ops starttls (case hostname of None \<Rightarrow> ''localhost'' | Some h \<Rightarrow> h) (resolve ctx e) (qe_sender e) c))"
proof -
  let ?h = "case hostname of None \<Rightarrow> ''localhost'' | Some h \<Rightarrow> h"
  from assms obtain e q1 c out z p b where d: "claim clk i ctx q = (Inr e, q1)" "client = Inr c"
    "attempt ops starttls ?h (resolve ctx e) (readMessage (qe_messageRef e)) e c = (out, dr_accepted d, dr_rejected d, z)"
    "conclude (defer_item clk1 clk2) (complete_item clk3) (defer_item clk4 clk5) (complete_item clk6) i ctx out q1 = (Inr p, q2, b)"
    "dr_queueId d = i" "dr_state d = qe_state p" by (rule deliver_Inr)
  have sent: "dr_state d = Delivered \<Longrightarrow> out = Sent" using ag.conclude_state(3) [OF d(4)] d(6) by simp
  have others: "\<forall>j. j \<noteq> i \<longrightarrow> map_of (mq_entries q2) j = map_of (mq_entries q) j"
    using ag.deliver_other assms by (metis snd_conv)
  show ?thesis
    by (intro conjI exI [of _ e] exI [of _ q1] exI [of _ c] ag.deliver_reports [OF assms] d(1,2,5) others attempt_report [OF d(3) sent])
qed

lemma delivery_reports_what_happened_witness:
  "queue_state_of (snd (example_deliver partial_replies (Some 2500))) ''q-00000001'' = Some Delivered
    \<and> (\<exists>d e q1 c. fst (example_deliver partial_replies (Some 2500)) = Inr d \<and> dr_accepted d = [''b@t1.test'']
       \<and> claim (Some 2000) ''q-00000001'' example_ctx (example_queue 5 0 Queued) = (Inr e, q1)
       \<and> true_report (smtp_client_ops id None None True) (Inr (TextContent ''hello'')) (qe_recipients e) d
           (open_session (smtp_client_ops id None None True) False ''localhost'' (Inr None) (qe_sender e) c))"
proof -
  obtain d q2 where d: "example_deliver partial_replies (Some 2500) = (Inr d, q2)" "dr_state d = Delivered" "dr_accepted d = [''b@t1.test'']"
    using example_partial by (metis delivery_result.select_convs(2,3) prod.collapse)
  note r = delivery_reports_what_happened [OF d(1) [unfolded example_deliver_def]]
  from r d(1,2) have "queue_state_of (snd (example_deliver partial_replies (Some 2500))) ''q-00000001'' = Some Delivered" by simp
  moreover from r obtain e q1 c where "claim (Some 2000) ''q-00000001'' example_ctx (example_queue 5 0 Queued) = (Inr e, q1)"
    "true_report (smtp_client_ops id None None True) (Inr (TextContent ''hello'')) (qe_recipients e) d
       (open_session (smtp_client_ops id None None True) False ''localhost'' (Inr None) (qe_sender e) c)"
    by (elim conjE exE) (simp only: option.case)
  moreover have "fst (example_deliver partial_replies (Some 2500)) = Inr d" using d(1) by simp
  ultimately show ?thesis using d(3) by blast
qed

text \<open>A message accepted for some recipients is over for all of them: a recipient the server refused
  with a temporary code while it accepted another one is reported as rejected and its message is never
  tried again, since the item is completed as delivered.\<close>

theorem temporary_rejection_not_retried:
  assumes "deliver ops (claim clk) (defer_item clk1 clk2) (complete_item clk3) (defer_item clk4 clk5) (complete_item clk6)
       starttls hostname resolve readMessage client ctx i q = (Inr d, q2)"
    and "dr_state d = Delivered" "x \<in> set (dr_rejected d)" "rr_code x = Some n" "400 \<le> n" "n < 500"
  shows "(\<exists>e q1. claim clk i ctx q = (Inr e, q1) \<and> rr_address x \<in> set (qe_recipients e))
    \<and> (\<exists>err. claim clk' i ctx' q2 = (Inl err, q2))"
proof
  have "queue_state_of q2 i = Some Delivered" using ag.deliver_reports [OF assms(1)] assms(2) by simp
  then show "\<exists>err. claim clk' i ctx' q2 = (Inl err, q2)" by (intro mq.claim_refuses) simp_all
  from assms(1) obtain e q1 c out z where "claim clk i ctx q = (Inr e, q1)"
    "attempt ops starttls (case hostname of None \<Rightarrow> ''localhost'' | Some h \<Rightarrow> h) (resolve ctx e)
       (readMessage (qe_messageRef e)) e c = (out, dr_accepted d, dr_rejected d, z)" by (rule deliver_Inr)
  moreover from this(2) assms(3) have "rr_address x \<in> set (qe_recipients e)" by (cases rule: attempt_cases) auto
  ultimately show "\<exists>e q1. claim clk i ctx q = (Inr e, q1) \<and> rr_address x \<in> set (qe_recipients e)" by blast
qed

lemma temporary_rejection_not_retried_witness:
  "\<exists>err. claim (Some 9000) ''q-00000001'' example_ctx (snd (example_deliver partial_replies (Some 2500)))
     = (Inl err, snd (example_deliver partial_replies (Some 2500)))"
proof -
  obtain d q2 where d: "example_deliver partial_replies (Some 2500) = (Inr d, q2)" "dr_state d = Delivered"
    "dr_rejected d = [\<lparr>rr_address = ''c@t1.test'', rr_code = Some 450\<rparr>]"
    using example_partial by (metis delivery_result.select_convs prod.collapse)
  from temporary_rejection_not_retried [OF d(1) [unfolded example_deliver_def], of "hd (dr_rejected d)" 450
      "Some 9000" example_ctx] d show ?thesis by simp
qed

end
