(* ===== verification/Byte_Codec.thy ===== *)
theory Byte_Codec
  imports JS_Base "HOL-Library.Word"
begin

section \<open>Bytes in groups of bits\<close>

unbundle bit_operations_syntax

text \<open>
  The loops of \<open>encodeBase32\<close>, \<open>decodeBase32\<close> (\<open>src/core/auth/totp.ts\<close>) and \<open>generateRecoveryCode\<close>
  (\<open>src/core/auth/recovery-codes.ts\<close>), on the 32-bit integers JavaScript's bitwise operators work with:
  an accumulator that is shifted and never masked, and the number of its low bits still to be
  written.  The group size is the parameter \<open>k\<close>, 5 for base 32; 6 gives what Node's \<open>base64url\<close> prints
  and reads.  The codec is proved correct against the bits of its input, in spite of the overflow of
  the accumulator.
\<close>

type_synonym bytes = "8 word list"

subsection \<open>The loops\<close>

text \<open>The inner loop of the encoder: the groups that are complete, and how many bits stay.\<close>

fun drain :: "nat \<Rightarrow> 32 word \<Rightarrow> nat \<Rightarrow> nat list \<times> nat" where
  "drain k buf bits = (if k = 0 \<or> bits < k then ([], bits)
     else (case drain k buf (bits - k) of (out, left) \<Rightarrow>
       (unat (drop_bit (bits - k) buf AND mask k) # out, left)))"

declare drain.simps [simp del]

fun enc_groups :: "nat \<Rightarrow> bytes \<Rightarrow> 32 word \<Rightarrow> nat \<Rightarrow> nat list" where
  "enc_groups k [] buf bits = (if 0 < bits then [unat (push_bit (k - bits) buf AND mask k)] else [])"
| "enc_groups k (b # bs) buf bits =
     (let buf1 = push_bit 8 buf OR ucast b in
      case drain k buf1 (bits + 8) of (out, left) \<Rightarrow> out @ enc_groups k bs buf1 left)"

fun dec_groups :: "nat \<Rightarrow> nat list \<Rightarrow> 32 word \<Rightarrow> nat \<Rightarrow> bytes" where
  "dec_groups k [] buf bits = []"
| "dec_groups k (v # vs) buf bits =
     (let buf1 = push_bit k buf OR of_nat v in
      if 8 \<le> bits + k then ucast (drop_bit (bits + k - 8) buf1) # dec_groups k vs buf1 (bits + k - 8)
      else dec_groups k vs buf1 (bits + k))"

definition enc_alphabet :: "nat \<Rightarrow> string \<Rightarrow> bytes \<Rightarrow> string" where
  "enc_alphabet k alphabet bs = map (\<lambda>v. alphabet ! v) (enc_groups k bs 0 0)"

fun index_of :: "string \<Rightarrow> char \<Rightarrow> nat" where
  "index_of [] c = 0"
| "index_of (a # as) c = (if a = c then 0 else Suc (index_of as c))"

definition dec_alphabet :: "nat \<Rightarrow> string \<Rightarrow> string \<Rightarrow> bytes" where
  "dec_alphabet k alphabet s = dec_groups k (map (index_of alphabet) s) 0 0"

lemmas codec_defs [code_defs] = enc_alphabet_def dec_alphabet_def

subsection \<open>The low bits of a word, the most significant first\<close>

definition low :: "nat \<Rightarrow> 'a::len word \<Rightarrow> bool list" where
  "low k w = map (bit w) (rev [0..<k])"

lemma low_length [simp]: "length (low k w) = k"
  by (simp add: low_def)

lemma low_nth: "i < k \<Longrightarrow> low k w ! i = bit w (k - Suc i)"
  by (simp add: low_def rev_nth)

lemma low_shift_in:
  assumes "bits + j \<le> 32" "\<And>n. j \<le> n \<Longrightarrow> \<not> bit v n"
  shows "low (bits + j) (push_bit j (buf :: 32 word) OR v) = low bits buf @ low j v"
proof (rule nth_equalityI)
  fix i assume i: "i < length (low (bits + j) (push_bit j buf OR v))"
  show "low (bits + j) (push_bit j buf OR v) ! i = (low bits buf @ low j v) ! i"
  proof (cases "i < bits")
    case True
    then have "bits + j - Suc i - j = bits - Suc i" "j \<le> bits + j - Suc i" "bits + j - Suc i < 32"
      using assms(1) by simp_all
    with True assms i show ?thesis by (simp add: low_nth nth_append bit_or_iff bit_push_bit_iff)
  next
    case False
    then have "bits + j - Suc i = j - Suc (i - bits)" "\<not> j \<le> bits + j - Suc i" using i by simp_all
    with False assms i show ?thesis by (simp add: low_nth nth_append bit_or_iff bit_push_bit_iff)
  qed
qed simp

lemma low_split:
  assumes "k \<le> bits" "bits \<le> 32"
  shows "low bits (buf :: 32 word) = low k (drop_bit (bits - k) buf) @ low (bits - k) buf"
  using assms
  by (intro nth_equalityI) (auto simp: low_nth nth_append bit_drop_bit_eq)

lemma low_mask: "low k (w AND mask k) = low k (w :: 32 word)"
  by (intro nth_equalityI) (auto simp: low_nth bit_and_iff bit_mask_iff dest: bit_imp_le_length)

lemma low_ucast8: "low 8 (ucast (b :: 8 word) :: 32 word) = low 8 b" "low 8 (ucast (w :: 32 word) :: 8 word) = low 8 w"
  by (intro nth_equalityI; auto simp: low_nth bit_ucast_iff)+

lemma low8_inj: "low 8 (a :: 8 word) = low 8 b \<Longrightarrow> a = b"
proof (rule bit_word_eqI)
  fix n assume "low 8 a = low 8 b" "n < LENGTH(8)"
  then show "bit a n = bit b n" using low_nth [of "7 - n" 8 a] low_nth [of "7 - n" 8 b] by simp
qed

text \<open>A group of \<open>k\<close> bits given as its value.\<close>

definition group_bits :: "nat \<Rightarrow> nat \<Rightarrow> bool list" where
  "group_bits k v = low k (of_nat v :: 32 word)"

lemma group_bits_length [simp]: "length (group_bits k v) = k"
  by (simp add: group_bits_def)

lemma group_bits_word: "group_bits k (unat (w AND mask k)) = low k (w :: 32 word)"
  by (simp add: group_bits_def low_mask)

subsection \<open>The encoder writes the bits of its input\<close>

lemma unat_group: "unat ((w :: 32 word) AND mask k) < 2 ^ k"
proof -
  have "unat (w AND mask k) = take_bit k (unat w)" by (simp add: take_bit_eq_mask [symmetric] unsigned_take_bit_eq)
  then show ?thesis by simp
qed

lemma drain_groups:
  assumes "drain k buf bits = (out, left)" "0 < k" "bits \<le> 32"
  shows "low bits buf = concat (map (group_bits k) out) @ low left buf \<and> left < k \<and> (\<forall>v\<in>set out. v < 2 ^ k)"
  using assms
proof (induction k buf bits arbitrary: out rule: drain.induct)
  case (1 k buf bits)
  show ?case
  proof (cases "bits < k")
    case True
    with 1 show ?thesis by (simp add: drain.simps [of k buf bits])
  next
    case False
    obtain o2 l where d: "drain k buf (bits - k) = (o2, l)" by (metis surj_pair)
    with False 1(2,3) have "out = unat (drop_bit (bits - k) buf AND mask k) # o2" "l = left"
      by (simp_all add: drain.simps [of k buf bits])
    with 1(1) [OF _ d [unfolded \<open>l = left\<close>]] low_split [of k bits buf] False 1(3,4) show ?thesis
      by (simp add: group_bits_word unat_group)
  qed
qed

lemma byte_bits_beyond: "8 \<le> n \<Longrightarrow> \<not> bit (ucast (b :: 8 word) :: 32 word) n"
  by (auto simp: bit_ucast_iff dest: bit_imp_le_length)

lemma enc_groups_both:
  assumes "0 < k" "k \<le> 8" "bits < k"
  shows "(\<exists>p < k. concat (map (group_bits k) (enc_groups k bs buf bits))
      = low bits buf @ concat (map (low 8) bs) @ replicate p False) \<and> (\<forall>v\<in>set (enc_groups k bs buf bits). v < 2 ^ k)"
  using assms(3)
proof (induction bs arbitrary: buf bits)
  case Nil
  show ?case
  proof (cases "bits = 0")
    case True
    with assms show ?thesis by (auto simp: low_def intro: exI [of _ 0])
  next
    case False
    have "low (bits + (k - bits)) (push_bit (k - bits) buf OR 0) = low bits buf @ low (k - bits) (0 :: 32 word)"
      using Nil assms by (intro low_shift_in) simp_all
    moreover have "low (k - bits) (0 :: 32 word) = replicate (k - bits) False"
      by (intro nth_equalityI) (simp_all add: low_nth)
    ultimately show ?thesis using False Nil
      by (auto simp add: group_bits_word unat_group intro!: exI [of _ "k - bits"])
  qed
next
  case (Cons b bs)
  let ?b = "push_bit 8 buf OR ucast b"
  obtain out left where d: "drain k ?b (bits + 8) = (out, left)" by (metis surj_pair)
  have "bits + 8 \<le> 32" using Cons.prems assms(2) by linarith
  from drain_groups [OF d assms(1) this] have g: "low (bits + 8) ?b = concat (map (group_bits k) out) @ low left ?b"
    "left < k" "\<forall>v\<in>set out. v < 2 ^ k" by blast+
  have "low (bits + 8) ?b = low bits buf @ low 8 b"
    using low_shift_in [of bits 8 "ucast b" buf] \<open>bits + 8 \<le> 32\<close> by (simp add: byte_bits_beyond low_ucast8)
  with g(1) have bits: "concat (map (group_bits k) out) @ low left ?b = low bits buf @ low 8 b" by simp
  from Cons.IH [OF g(2), of ?b] obtain p where p: "p < k"
    "concat (map (group_bits k) (enc_groups k bs ?b left)) = low left ?b @ concat (map (low 8) bs) @ replicate p False"
    "\<forall>v\<in>set (enc_groups k bs ?b left). v < 2 ^ k" by blast
  have "concat (map (group_bits k) (enc_groups k (b # bs) buf bits))
      = (concat (map (group_bits k) out) @ low left ?b) @ concat (map (low 8) bs) @ replicate p False"
    using d p(2) by (simp add: Let_def)
  with bits have "concat (map (group_bits k) (enc_groups k (b # bs) buf bits))
      = low bits buf @ concat (map (low 8) (b # bs)) @ replicate p False" by simp
  moreover have "\<forall>v\<in>set (enc_groups k (b # bs) buf bits). v < 2 ^ k"
    using d p(3) g(3) by (auto simp: Let_def)
  ultimately show ?case using p(1) by blast
qed

lemmas enc_groups_bits = enc_groups_both [THEN conjunct1] enc_groups_both [THEN conjunct2]

subsection \<open>The decoder reads them back\<close>

lemma group_bits_beyond: "v < 2 ^ k \<Longrightarrow> k \<le> 8 \<Longrightarrow> k \<le> n \<Longrightarrow> \<not> bit (of_nat v :: 32 word) n"
  by (metis bit_iff_odd bit_of_nat_iff bit_take_bit_iff not_le take_bit_nat_eq_self_iff)

lemma dec_groups_bits:
  assumes "0 < k" "k \<le> 8" "\<forall>v\<in>set vs. v < 2 ^ k" "bits < 8"
  shows "\<exists>rest. low bits buf @ concat (map (group_bits k) vs) = concat (map (low 8) (dec_groups k vs buf bits)) @ rest
    \<and> length rest < 8"
  using assms(3,4)
proof (induction vs arbitrary: buf bits)
  case (Cons v vs)
  let ?b = "push_bit k buf OR of_nat v"
  have g: "low (bits + k) ?b = low bits buf @ group_bits k v"
    unfolding group_bits_def using Cons.prems assms(2) group_bits_beyond [OF _ assms(2)] by (intro low_shift_in) auto
  show ?case
  proof (cases "8 \<le> bits + k")
    case True
    have "low (bits + k) ?b = low 8 (ucast (drop_bit (bits + k - 8) ?b) :: 8 word) @ low (bits + k - 8) ?b"
      using True Cons.prems assms(2) by (simp add: low_ucast8 low_split [of 8 "bits + k" ?b])
    moreover have "bits + k - 8 < 8" using Cons.prems(2) assms(2) by linarith
    moreover from this obtain rest where "low (bits + k - 8) ?b @ concat (map (group_bits k) vs) =
        concat (map (low 8) (dec_groups k vs ?b (bits + k - 8))) @ rest" "length rest < 8"
      using Cons.IH [of "bits + k - 8" ?b] Cons.prems assms(2) by auto
    ultimately have "low bits buf @ concat (map (group_bits k) (v # vs)) =
        concat (map (low 8) (dec_groups k (v # vs) buf bits)) @ rest"
      using g True by (simp add: Let_def) (metis append.assoc)
    with \<open>length rest < 8\<close> show ?thesis by blast
  next
    case False
    then obtain rest where "low (bits + k) ?b @ concat (map (group_bits k) vs) =
        concat (map (low 8) (dec_groups k vs ?b (bits + k))) @ rest" "length rest < 8"
      using Cons.IH [of "bits + k" ?b] Cons.prems by auto
    with g False show ?thesis by (auto simp: Let_def)
  qed
qed auto

lemma concat_bytes_inj:
  "concat (map (low 8) (as :: bytes)) @ r = concat (map (low 8) bs) @ s \<Longrightarrow> length r < 8 \<Longrightarrow> length s < 8 \<Longrightarrow> as = bs \<and> r = s"
proof (induction as arbitrary: bs)
  case Nil
  then show ?case
  proof (cases bs)
    case (Cons b bs')
    with Nil(1) have "length r = 8 + length (concat (map (low 8) bs') @ s)" by simp
    with Nil(2) show ?thesis by simp
  qed simp
next
  case (Cons a as)
  show ?case
  proof (cases bs)
    case Nil
    with Cons(2) have "low 8 a @ concat (map (low 8) as) @ r = s" by simp
    then have "length s = 8 + length (concat (map (low 8) as) @ r)" by (metis length_append low_length)
    with Cons(4) show ?thesis by simp
  next
    case (Cons b bs')
    with Cons.prems Cons.IH [of bs'] low8_inj [of a b] show ?thesis by simp
  qed
qed

text \<open>Decoding the groups of any bytes gives the bytes.\<close>

theorem dec_enc_groups:
  assumes "0 < k" "k \<le> 8"
  shows "dec_groups k (enc_groups k bs 0 0) 0 0 = bs"
proof -
  obtain p where "p < k" and e: "concat (map (group_bits k) (enc_groups k bs 0 0)) = concat (map (low 8) bs) @ replicate p False"
    using enc_groups_bits(1) [OF assms, of 0 bs 0] assms by (auto simp: low_def)
  obtain rest where "concat (map (group_bits k) (enc_groups k bs 0 0)) =
      concat (map (low 8) (dec_groups k (enc_groups k bs 0 0) 0 0)) @ rest" "length rest < 8"
    using dec_groups_bits [OF assms enc_groups_bits(2) [OF assms, of 0 bs 0], of 0 0] assms by (auto simp: low_def)
  with e concat_bytes_inj [of "dec_groups k (enc_groups k bs 0 0) 0 0" rest bs "replicate p False"] \<open>p < k\<close> assms(2)
  show ?thesis by simp
qed

lemma enc_groups_length:
  assumes "0 < k" "k \<le> 8"
  shows "length (enc_groups k bs 0 0) = (8 * length bs + (k - 1)) div k"
proof -
  obtain p where p: "p < k" "concat (map (group_bits k) (enc_groups k bs 0 0)) = concat (map (low 8) bs) @ replicate p False"
    using enc_groups_bits(1) [OF assms, of 0 bs 0] assms by (auto simp: low_def)
  have "length (concat (map (group_bits k) xs)) = k * length xs" for xs by (induction xs) simp_all
  moreover have "length (concat (map (low 8) bs)) = 8 * length bs" by (induction bs) simp_all
  ultimately have "k * length (enc_groups k bs 0 0) = 8 * length bs + p" using p(2) by (metis length_append length_replicate)
  with p(1) have "8 * length bs + (k - 1) = (k - 1 - p) + k * length (enc_groups k bs 0 0)" by linarith
  moreover have "(k - 1 - p) + k * n = n * k + (k - 1 - p)" for n by simp
  ultimately show ?thesis using assms(1) by simp
qed

lemma index_of_nth: "distinct as \<Longrightarrow> v < length as \<Longrightarrow> index_of as (as ! v) = v"
proof (induction as arbitrary: v)
  case (Cons a as)
  then show ?case by (cases v) auto
qed simp

text \<open>With an alphabet of distinct characters, the string codec is a round trip.\<close>

lemma dec_enc_alphabet:
  assumes "0 < k" "k \<le> 8" "distinct alphabet" "length alphabet = 2 ^ k"
  shows "dec_alphabet k alphabet (enc_alphabet k alphabet bs) = bs"
proof -
  have "map (index_of alphabet) (enc_alphabet k alphabet bs) = enc_groups k bs 0 0"
    using enc_groups_bits(2) [OF assms(1,2), of 0] assms
    by (auto simp: enc_alphabet_def comp_def index_of_nth intro!: map_idI)
  then show ?thesis by (simp add: dec_alphabet_def dec_enc_groups assms)
qed

lemma enc_alphabet_length: "0 < k \<Longrightarrow> k \<le> 8 \<Longrightarrow> length (enc_alphabet k alphabet bs) = (8 * length bs + (k - 1)) div k"
  by (simp add: enc_alphabet_def enc_groups_length)

lemma enc_alphabet_set:
  assumes "0 < k" "k \<le> 8" "length alphabet = 2 ^ k"
  shows "set (enc_alphabet k alphabet bs) \<subseteq> set alphabet"
  using enc_groups_bits(2) [OF assms(1,2), of 0] assms(1,3) by (auto simp: enc_alphabet_def)

end
