(* ===== verification/Auth_Factors.thy ===== *)
theory Auth_Factors
  imports Byte_Codec
begin

section \<open>What the second factors share\<close>

text \<open>
  \<open>src/core/auth/totp.ts\<close> and \<open>src/core/auth/recovery-codes.ts\<close> check identities, read the clock and
  count failed attempts in the same way, each with its own copy of the code.  The clock is the time
  it returns, truncated to an integer, or \<open>None\<close> when it is not a finite number; a rate limiter is the
  answer it gives, false when it throws.  The locale \<open>single_use\<close> is the contract of a factor whose
  proofs can be used once only.
\<close>

definition auth_id_ok :: "string \<Rightarrow> bool" where
  "auth_id_ok s \<longleftrightarrow> head_tail is_lowdig (\<lambda>c. is_lowdig c \<or> one_of ''._:@/-'' c) 127 s"

definition assertIdentityPart :: "(string \<Rightarrow> err) \<Rightarrow> jsval \<Rightarrow> string res" where
  "assertIdentityPart authError v = need_str auth_id_ok (authError ''INVALID_IDENTITY'') v"

definition url_char :: "char \<Rightarrow> bool" where
  "url_char c \<longleftrightarrow> is_alnum c \<or> one_of ''_-'' c"

definition factor_id_ok :: "string \<Rightarrow> string \<Rightarrow> bool" where
  "factor_id_ok prefix s \<longleftrightarrow> starts_with prefix s
     \<and> (let t = drop (length prefix) s in 16 \<le> length t \<and> length t \<le> 64 \<and> list_all url_char t)"

definition readTime :: "(string \<Rightarrow> err) \<Rightarrow> int option \<Rightarrow> int res" where
  "readTime authError clk = (case clk of None \<Rightarrow> Inl (authError ''INVALID_CLOCK'')
     | Some t \<Rightarrow> if t < 0 then Inl (authError ''INVALID_CLOCK'') else Inr t)"

definition assertRandomBytes :: "(string \<Rightarrow> err) \<Rightarrow> bytes option \<Rightarrow> nat \<Rightarrow> bytes res" where
  "assertRandomBytes authError rnd n = (case rnd of None \<Rightarrow> Inl (authError ''INVALID_RANDOM_SOURCE'')
     | Some bs \<Rightarrow> if length bs = n then Inr bs else Inl (authError ''INVALID_RANDOM_SOURCE''))"

definition auth_reason_ok :: "string \<Rightarrow> bool" where
  "auth_reason_ok s \<longleftrightarrow> 1 \<le> length s \<and> length s \<le> 128 \<and> \<not> list_ex is_line_break s"

definition base64url_alphabet :: string where
  "base64url_alphabet = ''ABCDEFGHIJKLMNOPQRSTUVWXYZabcdefghijklmnopqrstuvwxyz0123456789-_''"

definition base64url :: "bytes \<Rightarrow> string" where
  "base64url bs = enc_alphabet 6 base64url_alphabet bs"

text \<open>The loop over at most four candidates for a fresh identifier.\<close>

fun fresh_factor_id :: "(string \<Rightarrow> err) \<Rightarrow> string \<Rightarrow> bytes option list \<Rightarrow> string list \<Rightarrow> nat \<Rightarrow> string res" where
  "fresh_factor_id authError prefix rnds used 0 = Inl (authError ''FACTOR_GENERATION_FAILED'')"
| "fresh_factor_id authError prefix rnds used (Suc n) =
     bindE (assertRandomBytes authError (case rnds of [] \<Rightarrow> None | r # _ \<Rightarrow> r) 12) (\<lambda>bs.
       let candidate = prefix @ base64url bs in
       if candidate \<in> set used then fresh_factor_id authError prefix (tl rnds) used n else Inr candidate)"

subsection \<open>Failed attempts\<close>

record attempt_state =
  as_failed :: nat
  as_lockedUntil :: int

type_synonym attempts = "(string \<times> attempt_state) list"

definition record_failure :: "nat \<Rightarrow> int \<Rightarrow> string \<Rightarrow> int \<Rightarrow> attempts \<Rightarrow> int \<times> attempts" where
  "record_failure maxFailures lockoutMs i now ats =
     (let previous = (case map_of ats i of Some a \<Rightarrow> a | None \<Rightarrow> \<lparr>as_failed = 0, as_lockedUntil = 0\<rparr>);
          failed = as_failed previous + 1;
          lockedUntil = (if maxFailures \<le> failed then now + lockoutMs else as_lockedUntil previous)
      in (lockedUntil, AList.update i \<lparr>as_failed = failed, as_lockedUntil = lockedUntil\<rparr> ats))"

definition locked_at :: "attempts \<Rightarrow> string \<Rightarrow> int \<Rightarrow> bool" where
  "locked_at ats i now \<longleftrightarrow> (case map_of ats i of None \<Rightarrow> False | Some a \<Rightarrow> now < as_lockedUntil a)"

definition allow_attempt :: "bool \<Rightarrow> string \<Rightarrow> int \<Rightarrow> attempts \<Rightarrow> bool \<times> attempts" where
  "allow_attempt limiter i now ats =
     (if locked_at ats i now then (False, ats)
      else (limiter, (case map_of ats i of None \<Rightarrow> ats
        | Some a \<Rightarrow> if as_lockedUntil a \<noteq> 0 \<and> as_lockedUntil a \<le> now then AList.delete i ats else ats)))"

lemmas auth_defs [code_defs] = auth_id_ok_def assertIdentityPart_def url_char_def factor_id_ok_def
  readTime_def assertRandomBytes_def auth_reason_ok_def base64url_alphabet_def base64url_def
  record_failure_def locked_at_def allow_attempt_def

lemma assertIdentityPart_Inr [simp]: "assertIdentityPart f v = Inr s \<longleftrightarrow> v = JStr s \<and> auth_id_ok s"
  by (simp add: assertIdentityPart_def)

lemma readTime_Inr [simp]: "readTime f clk = Inr t \<longleftrightarrow> clk = Some t \<and> 0 \<le> t"
  by (auto simp: readTime_def split: option.splits)

lemma readTime_Some [simp]: "0 \<le> t \<Longrightarrow> readTime f (Some t) = Inr t"
  by simp

lemma assertRandomBytes_Inr [simp]: "assertRandomBytes f rnd n = Inr bs \<longleftrightarrow> rnd = Some bs \<and> length bs = n"
  by (auto simp: assertRandomBytes_def split: option.splits)

lemma fresh_factor_id_new: "fresh_factor_id f p rnds used n = Inr i \<Longrightarrow> i \<notin> set used"
  by (induction n arbitrary: rnds) (auto simp: Let_def split: if_split_asm)

lemma base64url_facts: "distinct base64url_alphabet" "length base64url_alphabet = 64"
  "list_all (\<lambda>c. url_char c \<and> c \<noteq> CHR ''.'') base64url_alphabet"
  by code_simp+

lemma base64url_chars: "list_all (\<lambda>c. url_char c \<and> c \<noteq> CHR ''.'') (base64url bs)"
  using enc_alphabet_set [of 6 base64url_alphabet bs] base64url_facts
  by (auto simp: base64url_def list_all_iff)

lemma base64url_length: "length (base64url bs) = (8 * length bs + 5) div 6"
  by (simp add: base64url_def enc_alphabet_length)

lemma base64url_nonempty: "bs \<noteq> [] \<Longrightarrow> base64url bs \<noteq> []"
proof
  assume "bs \<noteq> []" "base64url bs = []"
  then have "(8 * length bs + 5) div 6 = 0" "length bs \<noteq> 0"
    using enc_alphabet_length [of 6 base64url_alphabet bs] by (simp_all add: base64url_def)
  then show False by presburger
qed

lemma dec_base64url: "dec_alphabet 6 base64url_alphabet (base64url bs) = bs"
  using dec_enc_alphabet [of 6 base64url_alphabet bs] base64url_facts(1,2) by (simp add: base64url_def)

lemma upper_fixed: "\<forall>c\<in>set s. upper_char c = [c] \<Longrightarrow> upper s = s"
  by (induction s) (simp_all add: upper_def)

subsection \<open>Proofs that can be used once\<close>

text \<open>A run of labelled steps; the label is the proof a step has accepted, if it has.\<close>

inductive use_run :: "('s \<Rightarrow> 'k option \<Rightarrow> 's \<Rightarrow> bool) \<Rightarrow> 's \<Rightarrow> 'k list \<Rightarrow> 's \<Rightarrow> bool"
  for step :: "'s \<Rightarrow> 'k option \<Rightarrow> 's \<Rightarrow> bool" where
  run_none: "use_run step s [] s"
| run_other: "use_run step s ks t \<Longrightarrow> step t None u \<Longrightarrow> use_run step s ks u"
| run_use: "use_run step s ks t \<Longrightarrow> step t (Some k) u \<Longrightarrow> use_run step s (ks @ [k]) u"

locale single_use =
  fixes step :: "'s \<Rightarrow> 'k option \<Rightarrow> 's \<Rightarrow> bool"
    and spent :: "'s \<Rightarrow> 'k \<Rightarrow> bool"
    and good :: "'s \<Rightarrow> bool"
  assumes stays_good: "good s \<Longrightarrow> step s l t \<Longrightarrow> good t"
    and stays_spent: "good s \<Longrightarrow> step s l t \<Longrightarrow> spent s k \<Longrightarrow> spent t k"
    and spends: "good s \<Longrightarrow> step s (Some k) t \<Longrightarrow> \<not> spent s k \<and> spent t k"
begin

lemma run_spends:
  "use_run step s ks t \<Longrightarrow> good s \<Longrightarrow>
   good t \<and> (\<forall>k. spent s k \<longrightarrow> spent t k) \<and> (\<forall>k\<in>set ks. spent t k \<and> \<not> spent s k) \<and> distinct ks"
proof (induction rule: use_run.induct)
  case (run_other s ks t u)
  then show ?case using stays_good stays_spent by blast
next
  case (run_use s ks t k u)
  then have t: "good t" "\<And>j. spent s j \<Longrightarrow> spent t j" "\<And>j. j \<in> set ks \<Longrightarrow> spent t j \<and> \<not> spent s j" "distinct ks"
    by blast+
  have u: "good u" "\<And>j. spent t j \<Longrightarrow> spent u j" "\<not> spent t k" "spent u k"
    using stays_good [OF t(1) run_use(2)] stays_spent [OF t(1) run_use(2)] spends [OF t(1) run_use(2)] by blast+
  then have "k \<notin> set ks" "\<not> spent s k" using t by blast+
  with t u show ?case by auto
qed simp

lemma used_once: "use_run step s ks t \<Longrightarrow> good s \<Longrightarrow> distinct ks"
  using run_spends by blast

end

end
