(* ===== verification/Totp.thy ===== *)
theory Totp
  imports Auth_Factors
begin

section \<open>Time-based one-time passwords\<close>

text \<open>
  \<open>src/core/auth/totp.ts\<close>: base 32, the code of a counter, and the manager of \<open>createTotpManager\<close> with
  its two maps as the record \<open>totp_state\<close>.  The options are the record \<open>totp_options\<close>; HMAC, the secret
  protector and the random bytes are parameters.  \<open>Math.floor(now / 1000 / periodSeconds)\<close> is computed
  on doubles; for every time a \<open>Date\<close> can hold the roundings do not reach the next integer, so the
  model divides integers.  Audit events are the objects passed to the sink.
\<close>

definition totpError :: "string \<Rightarrow> err" where
  "totpError code = Err TotpErr code 0"

subsection \<open>Base 32\<close>

definition BASE32_ALPHABET :: string where
  "BASE32_ALPHABET = ''ABCDEFGHIJKLMNOPQRSTUVWXYZ234567''"

definition encodeBase32 :: "bytes \<Rightarrow> string res" where
  "encodeBase32 bs = (if bs = [] then Inl (totpError ''INVALID_SECRET'') else Inr (enc_alphabet 5 BASE32_ALPHABET bs))"

definition decodeBase32 :: "string \<Rightarrow> bytes res" where
  "decodeBase32 secret =
     (if length secret < 16 \<or> 128 < length secret then Inl (totpError ''INVALID_SECRET'')
      else let canonical = upper (filter (\<lambda>c. \<not> one_of '' =-'' c) secret) in
        if canonical = [] \<or> \<not> list_all (one_of BASE32_ALPHABET) canonical then Inl (totpError ''INVALID_SECRET'')
        else let output = dec_alphabet 5 BASE32_ALPHABET canonical in
          if length output < 10 \<or> 64 < length output then Inl (totpError ''INVALID_SECRET'') else Inr output)"

definition normalizeSecret :: "string \<Rightarrow> string res" where
  "normalizeSecret secret = bindE (decodeBase32 secret) encodeBase32"

subsection \<open>The code of a counter\<close>

type_synonym hmac = "string \<Rightarrow> bytes \<Rightarrow> bytes \<Rightarrow> bytes" \<comment> \<open>algorithm, key, message\<close>

definition counterBuffer :: "int \<Rightarrow> bytes" where
  "counterBuffer counter = map (\<lambda>i. of_int (counter div 256 ^ i)) (rev [0..<8])"

definition byte_at :: "bytes \<Rightarrow> nat \<Rightarrow> 32 word" where \<comment> \<open>\<open>undefined & m\<close> is 0\<close>
  "byte_at bs i = (if i < length bs then ucast (bs ! i) else 0)"

definition truncated_digest :: "bytes \<Rightarrow> nat" where
  "truncated_digest digest = (let offset = unat (byte_at digest (length digest - 1) AND 15) in
     unat (push_bit 24 (byte_at digest offset AND 127) OR push_bit 16 (byte_at digest (offset + 1) AND 255)
       OR push_bit 8 (byte_at digest (offset + 2) AND 255) OR (byte_at digest (offset + 3) AND 255)))"

definition padStart :: "nat \<Rightarrow> string \<Rightarrow> string" where
  "padStart n s = replicate (n - length s) CHR ''0'' @ s"

definition totp_parameters_ok :: "int \<Rightarrow> string \<Rightarrow> bool" where
  "totp_parameters_ok digits algorithm \<longleftrightarrow> 6 \<le> digits \<and> digits \<le> 8 \<and> algorithm \<in> {''sha1'', ''sha256'', ''sha512''}"

definition generateTotpCode :: "hmac \<Rightarrow> string \<Rightarrow> int \<Rightarrow> int \<Rightarrow> string \<Rightarrow> string res" where
  "generateTotpCode hm secret counter digits algorithm =
     (if \<not> is_safe_int counter \<or> counter < 0 then Inl (totpError ''INVALID_COUNTER'')
      else if \<not> totp_parameters_ok digits algorithm then Inl (totpError ''INVALID_TOTP_CONFIGURATION'')
      else bindE (decodeBase32 secret) (\<lambda>key.
        Inr (padStart (nat digits) (dec (truncated_digest (hm algorithm key (counterBuffer counter)) mod 10 ^ nat digits)))))"

definition assertCode :: "jsval \<Rightarrow> int \<Rightarrow> string option" where
  "assertCode code digits = (case js_str code of None \<Rightarrow> None
     | Some s \<Rightarrow> if int (length s) = digits \<and> list_all is_digit s \<and> 6 \<le> length s \<and> length s \<le> 8 then Some s else None)"

subsection \<open>The manager\<close>

datatype factor_status = Pending | Active | Revoked

record totp_meta =
  tf_factorId :: string
  tf_tenantId :: string
  tf_userId :: string
  tf_label :: string
  tf_status :: factor_status
  tf_createdAt :: int
  tf_confirmedAt :: "int option"
  tf_revokedAt :: "int option"
  tf_lastUsedAt :: "int option"

record totp_record = totp_meta +
  tf_lastUsedCounter :: "int option"
  tf_encryptedSecret :: string

type_synonym audit_object = "(string \<times> jsval) list"

record totp_state =
  ts_factors :: "(string \<times> totp_record) list"
  ts_attempts :: attempts
  ts_audit :: "audit_object list"

record totp_options =
  to_periodSeconds :: int
  to_digits :: int
  to_algorithm :: string
  to_window :: int
  to_maxFailures :: nat
  to_lockoutMs :: int
  to_hmac :: hmac
  to_encrypt :: "string \<Rightarrow> string res"
  to_decrypt :: "string \<Rightarrow> string res"

definition createTotpManager :: "totp_options \<Rightarrow> (string \<times> totp_record) list \<Rightarrow> totp_state res" where
  "createTotpManager opts factors =
     (if to_periodSeconds opts < 15 \<or> 300 < to_periodSeconds opts
        \<or> \<not> totp_parameters_ok (to_digits opts) (to_algorithm opts)
        \<or> to_window opts < 0 \<or> 2 < to_window opts \<or> to_maxFailures opts < 1 \<or> 20 < to_maxFailures opts
        \<or> \<not> is_safe_int (to_lockoutMs opts) \<or> to_lockoutMs opts < 1000
      then Inl (totpError ''INVALID_TOTP_CONFIGURATION'')
      else Inr \<lparr>ts_factors = factors, ts_attempts = [], ts_audit = []\<rparr>)"

datatype totp_result = Verified int int totp_meta | Refused string "int option"

definition totp_metadata :: "totp_record \<Rightarrow> totp_meta" where
  "totp_metadata r = \<lparr>tf_factorId = tf_factorId r, tf_tenantId = tf_tenantId r, tf_userId = tf_userId r,
     tf_label = tf_label r, tf_status = tf_status r, tf_createdAt = tf_createdAt r, tf_confirmedAt = tf_confirmedAt r,
     tf_revokedAt = tf_revokedAt r, tf_lastUsedAt = tf_lastUsedAt r\<rparr>"

definition put_factor :: "totp_record \<Rightarrow> totp_state \<Rightarrow> totp_state" where
  "put_factor r st = st\<lparr>ts_factors := AList.update (tf_factorId r) r (ts_factors st)\<rparr>"

definition totp_audit :: "string \<Rightarrow> totp_record \<Rightarrow> audit_object \<Rightarrow> totp_state \<Rightarrow> totp_state" where
  "totp_audit event r rest st = st\<lparr>ts_audit := ts_audit st @ [[(''eventType'', JStr event),
     (''tenantId'', JStr (tf_tenantId r)), (''userId'', JStr (tf_userId r)), (''factorId'', JStr (tf_factorId r))] @ rest]\<rparr>"

definition totp_scope :: "totp_record \<Rightarrow> jsval \<Rightarrow> jsval \<Rightarrow> unit res" where
  "totp_scope r tenant user =
     bindE (assertIdentityPart totpError tenant) (\<lambda>t. bindE (assertIdentityPart totpError user) (\<lambda>u.
     needE (tf_tenantId r = t \<and> tf_userId r = u) (totpError ''FACTOR_SCOPE_VIOLATION'')))"

definition emitFailure :: "totp_options \<Rightarrow> totp_record \<Rightarrow> string \<Rightarrow> int \<Rightarrow> totp_state \<Rightarrow> totp_result \<times> totp_state" where
  "emitFailure opts r reason now st =
     (case record_failure (to_maxFailures opts) (to_lockoutMs opts) (tf_factorId r) now (ts_attempts st) of (until, ats) \<Rightarrow>
       (Refused reason (if now < until then Some until else None),
        totp_audit ''auth.totp.verification_failed'' r
          [(''reason'', JStr reason), (''locked'', JBool (now < until)), (''occurredAt'', JInt now)]
          (st\<lparr>ts_attempts := ats\<rparr>)))"

fun find_counter :: "totp_options \<Rightarrow> string \<Rightarrow> string \<Rightarrow> int \<Rightarrow> int list \<Rightarrow> (int \<times> int) option res" where
  "find_counter opts secret code current [] = Inr None"
| "find_counter opts secret code current (offset # offsets) =
     (if current + offset < 0 then find_counter opts secret code current offsets
      else bindE (generateTotpCode (to_hmac opts) secret (current + offset) (to_digits opts) (to_algorithm opts)) (\<lambda>expected.
        if expected = code then Inr (Some (current + offset, offset))
        else find_counter opts secret code current offsets))"

definition accept_code :: "totp_record \<Rightarrow> int \<Rightarrow> int \<Rightarrow> int \<Rightarrow> totp_state \<Rightarrow> totp_result \<times> totp_state" where
  "accept_code r counter offset now st =
     (let r1 = r\<lparr>tf_lastUsedCounter := Some counter, tf_lastUsedAt := Some now\<rparr> in
      (Verified counter offset (totp_metadata r1),
       totp_audit ''auth.totp.verified'' r [(''occurredAt'', JInt now), (''timeStepOffset'', JInt offset)]
         (put_factor r1 (st\<lparr>ts_attempts := AList.delete (tf_factorId r) (ts_attempts st)\<rparr>))))"

definition evaluate :: "totp_options \<Rightarrow> bool \<Rightarrow> totp_record \<Rightarrow> jsval \<Rightarrow> int \<Rightarrow> bool \<Rightarrow> totp_state \<Rightarrow> totp_result res \<times> totp_state" where
  "evaluate opts limiter r code now allowPending st =
     (let refuse = (\<lambda>reason s. case emitFailure opts r reason now s of (x, s1) \<Rightarrow> (Inr x, s1)) in
      if tf_status r = Revoked then (Inr (Refused ''FACTOR_REVOKED'' None), st)
      else if \<not> allowPending \<and> tf_status r \<noteq> Active then (Inr (Refused ''FACTOR_NOT_ACTIVE'' None), st)
      else (case assertCode code (to_digits opts) of None \<Rightarrow> refuse ''INVALID_CODE'' st
      | Some c \<Rightarrow>
         (case allow_attempt limiter (tf_factorId r) now (ts_attempts st) of (allowed, ats) \<Rightarrow>
          let st1 = st\<lparr>ts_attempts := ats\<rparr> in
          if \<not> allowed then refuse ''RATE_LIMITED_OR_LOCKED'' st1
          else (case bindE (to_decrypt opts (tf_encryptedSecret r)) normalizeSecret of
             Inl _ \<Rightarrow> refuse ''SECRET_UNAVAILABLE'' st1
           | Inr secret \<Rightarrow>
              liftE (find_counter opts secret c (now div 1000 div to_periodSeconds opts) [- to_window opts .. to_window opts]) st1 (\<lambda>m.
                case m of None \<Rightarrow> refuse ''INVALID_CODE'' st1
                | Some (counter, offset) \<Rightarrow>
                   if (case tf_lastUsedCounter r of None \<Rightarrow> False | Some l \<Rightarrow> counter \<le> l) then refuse ''REPLAYED_CODE'' st1
                   else (case accept_code r counter offset now st1 of (x, s1) \<Rightarrow> (Inr x, s1)))))))"

definition totp_factor_id :: "jsval \<Rightarrow> string res" where
  "totp_factor_id v = need_str (factor_id_ok ''totp_'') (totpError ''INVALID_FACTOR'') v"

definition getFactor :: "jsval \<Rightarrow> totp_state \<Rightarrow> totp_meta option res" where
  "getFactor factorId st = bindE (totp_factor_id factorId) (\<lambda>i. Inr (map_option totp_metadata (map_of (ts_factors st) i)))"

definition normalizeLabel :: "jsval \<Rightarrow> string res" where
  "normalizeLabel v = (if v = JUndef then Inr ''user''
     else need_str (\<lambda>s. 1 \<le> length s \<and> length s \<le> 64 \<and> \<not> list_ex is_line_break s) (totpError ''INVALID_LABEL'') v)"

definition hex_digit :: "nat \<Rightarrow> char" where
  "hex_digit n = ''0123456789ABCDEF'' ! n"

text \<open>\<open>encodeURIComponent\<close> on characters below 128, the only ones an identity holds.\<close>

definition uri_component :: "string \<Rightarrow> string" where
  "uri_component s = concat (map (\<lambda>c. if is_alnum c \<or> one_of ''-_.!~*()'' c \<or> ccode c = 39 then [c]
     else [CHR ''%'', hex_digit (ccode c div 16), hex_digit (ccode c mod 16)]) s)"

record totp_enrollment =
  en_factor :: totp_meta
  en_secret :: string
  en_otpauthUri :: string

definition otpauth_uri :: "totp_options \<Rightarrow> string \<Rightarrow> string \<Rightarrow> string \<Rightarrow> string" where
  "otpauth_uri opts tenant user secret = ''otpauth://totp/'' @ uri_component ''Gulo Gulo'' @ '':''
     @ uri_component (user @ ''@'' @ tenant) @ ''?secret='' @ secret @ ''&issuer='' @ uri_component ''Gulo Gulo''
     @ ''&algorithm='' @ upper (to_algorithm opts) @ ''&digits='' @ dec (nat (to_digits opts))
     @ ''&period='' @ dec (nat (to_periodSeconds opts))"

definition enroll_record :: "totp_options \<Rightarrow> bytes option \<Rightarrow> bytes option list \<Rightarrow> int option \<Rightarrow>
    jsval \<Rightarrow> jsval \<Rightarrow> jsval \<Rightarrow> jsval \<Rightarrow> string list \<Rightarrow> (totp_record \<times> string) res" where
  "enroll_record opts rnd rnds clk tenant user label actor used =
     bindE (assertIdentityPart totpError tenant) (\<lambda>t.
     bindE (assertIdentityPart totpError user) (\<lambda>u.
     bindE (assertIdentityPart totpError (js_default actor user)) (\<lambda>a.
     bindE (needE (a = u) (totpError ''FACTOR_SCOPE_VIOLATION'')) (\<lambda>_.
     bindE (assertRandomBytes totpError rnd 20) (\<lambda>bs.
     bindE (encodeBase32 bs) (\<lambda>secret.
     bindE (fresh_factor_id totpError ''totp_'' rnds used 4) (\<lambda>i.
     bindE (readTime totpError clk) (\<lambda>now.
     bindE (normalizeLabel label) (\<lambda>l.
     bindE (to_encrypt opts secret) (\<lambda>enc.
     Inr (\<lparr>tf_factorId = i, tf_tenantId = t, tf_userId = u, tf_label = l, tf_status = Pending, tf_createdAt = now,
       tf_confirmedAt = None, tf_revokedAt = None, tf_lastUsedAt = None, tf_lastUsedCounter = None,
       tf_encryptedSecret = enc\<rparr>, secret)))))))))))"

definition totp_enroll :: "totp_options \<Rightarrow> bytes option \<Rightarrow> bytes option list \<Rightarrow> int option \<Rightarrow>
    jsval \<Rightarrow> jsval \<Rightarrow> jsval \<Rightarrow> jsval \<Rightarrow> totp_state \<Rightarrow> totp_enrollment res \<times> totp_state" where
  "totp_enroll opts rnd rnds clk tenant user label actor st =
     liftE (enroll_record opts rnd rnds clk tenant user label actor (keys (ts_factors st))) st (\<lambda>(r, secret).
       (Inr \<lparr>en_factor = totp_metadata r, en_secret = secret,
           en_otpauthUri = otpauth_uri opts (tf_tenantId r) (tf_userId r) secret\<rparr>,
        totp_audit ''auth.totp.enrolled'' r [(''status'', JStr ''pending''), (''occurredAt'', JInt (tf_createdAt r))]
          (put_factor r st)))"

text \<open>The checks of \<open>verify\<close>, \<open>confirmEnrollment\<close> and \<open>revoke\<close> up to the factor, \<open>None\<close> when it is unknown.\<close>

definition scoped_factor :: "jsval \<Rightarrow> jsval \<Rightarrow> jsval \<Rightarrow> totp_state \<Rightarrow> totp_record option res" where
  "scoped_factor factorId tenant user st = bindE (totp_factor_id factorId) (\<lambda>i.
     case map_of (ts_factors st) i of None \<Rightarrow> Inr None
     | Some r \<Rightarrow> bindE (totp_scope r tenant user) (\<lambda>_. Inr (Some r)))"

definition totp_verify :: "totp_options \<Rightarrow> bool \<Rightarrow> int option \<Rightarrow> jsval \<Rightarrow> jsval \<Rightarrow> jsval \<Rightarrow> jsval \<Rightarrow> totp_state \<Rightarrow>
    totp_result res \<times> totp_state" where
  "totp_verify opts limiter clk factorId tenant user code st =
     liftE (scoped_factor factorId tenant user st) st (\<lambda>f.
     case f of None \<Rightarrow> (Inr (Refused ''FACTOR_NOT_FOUND'' None), st)
     | Some r \<Rightarrow> liftE (readTime totpError clk) st (\<lambda>now. evaluate opts limiter r code now False st))"

datatype confirm_result = Confirmed totp_meta | NotConfirmed string "int option"

definition confirm_active :: "int option \<Rightarrow> string \<Rightarrow> totp_state \<Rightarrow> confirm_result res \<times> totp_state" where
  "confirm_active clk i st = (case map_of (ts_factors st) i of
     None \<Rightarrow> (Inl (totpError ''TOTP_ERROR''), st) \<comment> \<open>not reached: the factor is in the map\<close>
   | Some r \<Rightarrow> let r1 = r\<lparr>tf_status := Active\<rparr> in
       (case readTime totpError clk of Inl e \<Rightarrow> (Inl e, put_factor r1 st)
        | Inr t \<Rightarrow> let r2 = r1\<lparr>tf_confirmedAt := Some t\<rparr> in
           (Inr (Confirmed (totp_metadata r2)),
            totp_audit ''auth.totp.confirmed'' r2 [(''occurredAt'', JInt t)] (put_factor r2 st))))"

definition confirm_outcome :: "int option \<Rightarrow> string \<Rightarrow> totp_result res \<times> totp_state \<Rightarrow> confirm_result res \<times> totp_state" where
  "confirm_outcome clk i p = (case p of
     (Inl e, st) \<Rightarrow> (Inl e, st)
   | (Inr (Refused why until), st) \<Rightarrow> (Inr (NotConfirmed why until), st)
   | (Inr (Verified _ _ _), st) \<Rightarrow> confirm_active clk i st)"

definition totp_confirm :: "totp_options \<Rightarrow> bool \<Rightarrow> int option \<Rightarrow> int option \<Rightarrow> jsval \<Rightarrow> jsval \<Rightarrow> jsval \<Rightarrow> jsval \<Rightarrow> totp_state \<Rightarrow>
    confirm_result res \<times> totp_state" where
  "totp_confirm opts limiter clk1 clk2 factorId tenant user code st =
     liftE (assertIdentityPart totpError tenant) st (\<lambda>_. liftE (assertIdentityPart totpError user) st (\<lambda>_.
     liftE (scoped_factor factorId tenant user st) st (\<lambda>f.
     case f of None \<Rightarrow> (Inr (NotConfirmed ''FACTOR_NOT_FOUND'' None), st)
     | Some r \<Rightarrow>
        if tf_status r = Revoked then (Inr (NotConfirmed ''FACTOR_REVOKED'' None), st)
        else if tf_status r = Active then (Inr (NotConfirmed ''FACTOR_ALREADY_ACTIVE'' None), st)
        else liftE (readTime totpError clk1) st (\<lambda>now.
          confirm_outcome clk2 (tf_factorId r) (evaluate opts limiter r code now True st)))))"

datatype totp_revocation = TotpRevoked totp_meta | TotpNotRevoked string

definition revocation_input :: "bool \<Rightarrow> int option \<Rightarrow> jsval \<Rightarrow> jsval \<Rightarrow> string \<Rightarrow> jsval \<Rightarrow> (string \<times> string \<times> int) res" where
  "revocation_input authorizer clk user actor actorRole reason =
     bindE (assertIdentityPart totpError (js_default actor user)) (\<lambda>a.
     bindE (needE (if JStr a = user then actorRole = ''user'' else authorizer) (totpError ''FACTOR_SCOPE_VIOLATION'')) (\<lambda>_.
     bindE (need_str auth_reason_ok (totpError ''INVALID_REASON'') (js_default reason (JStr ''user_request''))) (\<lambda>why.
     bindE (readTime totpError clk) (\<lambda>now. Inr (a, why, now)))))"

definition totp_revoke :: "bool \<Rightarrow> int option \<Rightarrow> jsval \<Rightarrow> jsval \<Rightarrow> jsval \<Rightarrow> jsval \<Rightarrow> string option \<Rightarrow> jsval \<Rightarrow> totp_state \<Rightarrow>
    totp_revocation res \<times> totp_state" where
  "totp_revoke authorizer clk factorId tenant user actor role reason st =
     liftE (assertIdentityPart totpError tenant) st (\<lambda>_. liftE (assertIdentityPart totpError user) st (\<lambda>_.
     liftE (scoped_factor factorId tenant user st) st (\<lambda>f.
     case f of None \<Rightarrow> (Inr (TotpNotRevoked ''FACTOR_NOT_FOUND''), st)
     | Some r \<Rightarrow>
        let actorRole = (case role of None \<Rightarrow> ''user'' | Some x \<Rightarrow> x) in
        liftE (revocation_input authorizer clk user actor actorRole reason) st (\<lambda>(a, why, now).
          let r1 = r\<lparr>tf_status := Revoked, tf_revokedAt := Some now\<rparr> in
          (Inr (TotpRevoked (totp_metadata r1)),
           totp_audit ''auth.totp.revoked'' r [(''actorId'', JStr a), (''actorRole'', JStr actorRole),
               (''reason'', JStr why), (''occurredAt'', JInt now)]
             (put_factor r1 (st\<lparr>ts_attempts := AList.delete (tf_factorId r) (ts_attempts st)\<rparr>)))))))"

definition totp_list :: "jsval \<Rightarrow> jsval \<Rightarrow> totp_state \<Rightarrow> totp_meta list res" where
  "totp_list tenant user st =
     bindE (assertIdentityPart totpError tenant) (\<lambda>t. bindE (assertIdentityPart totpError user) (\<lambda>u.
     Inr (map totp_metadata (filter (\<lambda>r. tf_tenantId r = t \<and> tf_userId r = u) (map snd (ts_factors st))))))"

lemmas totp_defs [code_defs] = totpError_def BASE32_ALPHABET_def encodeBase32_def decodeBase32_def
  normalizeSecret_def counterBuffer_def byte_at_def truncated_digest_def padStart_def totp_parameters_ok_def
  generateTotpCode_def assertCode_def createTotpManager_def totp_metadata_def put_factor_def
  totp_audit_def totp_scope_def emitFailure_def accept_code_def evaluate_def totp_factor_id_def getFactor_def
  normalizeLabel_def hex_digit_def uri_component_def otpauth_uri_def enroll_record_def totp_enroll_def
  scoped_factor_def totp_verify_def confirm_active_def confirm_outcome_def revocation_input_def totp_confirm_def totp_revoke_def totp_list_def

subsection \<open>Base 32 and codes\<close>

lemma alphabet_facts: "distinct BASE32_ALPHABET" "length BASE32_ALPHABET = 32"
  "list_all (\<lambda>c. upper_char c = [c] \<and> \<not> one_of '' =-'' c \<and> one_of BASE32_ALPHABET c) BASE32_ALPHABET"
  by code_simp+

lemma base32_canonical:
  assumes "set s \<subseteq> set BASE32_ALPHABET"
  shows "upper (filter (\<lambda>c. \<not> one_of '' =-'' c) s) = s \<and> list_all (one_of BASE32_ALPHABET) s"
  using assms alphabet_facts(3) by (induction s) (auto simp: upper_def list_all_iff)

lemma encode_decode_base32:
  assumes "10 \<le> length bs" "length bs \<le> 64" "encodeBase32 bs = Inr s"
  shows "decodeBase32 s = Inr bs"
proof -
  have s: "s = enc_alphabet 5 BASE32_ALPHABET bs" using assms by (auto simp: encodeBase32_def guard_iff)
  have len: "length s = (8 * length bs + 4) div 5" by (simp add: s enc_alphabet_length)
  then have "16 \<le> length s" "length s \<le> 128" using assms by linarith+
  moreover from this have "s \<noteq> []" by auto
  moreover have "set s \<subseteq> set BASE32_ALPHABET" using enc_alphabet_set [of 5] alphabet_facts(2) by (simp add: s)
  moreover have "dec_alphabet 5 BASE32_ALPHABET s = bs"
    using dec_enc_alphabet [of 5 BASE32_ALPHABET bs] alphabet_facts by (simp add: s)
  ultimately show ?thesis using base32_canonical [of s] assms(1,2)
    by (simp add: decodeBase32_def Let_def)
qed

lemma normalizeSecret_encoded:
  assumes "10 \<le> length bs" "length bs \<le> 64" "encodeBase32 bs = Inr s"
  shows "normalizeSecret s = Inr s"
  using encode_decode_base32 [OF assms] assms(3) by (simp add: normalizeSecret_def)

lemma generated_code_format:
  assumes "generateTotpCode hm secret counter digits algorithm = Inr c"
  shows "assertCode (JStr c) digits = Some c"
proof -
  obtain n where c: "c = padStart (nat digits) (dec (n mod 10 ^ nat digits))" and d: "6 \<le> digits" "digits \<le> 8"
    using assms by (auto simp: generateTotpCode_def guard_iff totp_parameters_ok_def)
  have "0 < nat digits" using d by simp
  then have "length (dec (n mod 10 ^ nat digits)) \<le> nat digits" using length_dec_le by simp
  moreover have "is_digit CHR ''0''" by (simp add: is_digit_def ccode_def)
  ultimately show ?thesis using d dec_digits [of "n mod 10 ^ nat digits"]
    by (auto simp: assertCode_def c padStart_def list_all_iff)
qed

subsection \<open>What an evaluation does\<close>

lemma put_factor_simps [simp]:
  "ts_factors (put_factor r st) = AList.update (tf_factorId r) r (ts_factors st)"
  "ts_attempts (put_factor r st) = ts_attempts st"
  "ts_factors (totp_audit ev r xs st) = ts_factors st"
  "ts_attempts (totp_audit ev r xs st) = ts_attempts st"
  by (simp_all add: put_factor_def totp_audit_def)

lemma emitFailure_simps:
  assumes "emitFailure opts r why now st = (x, st1)"
  shows "ts_factors st1 = ts_factors st" "\<exists>u. x = Refused why u"
    "ts_attempts st1 = snd (record_failure (to_maxFailures opts) (to_lockoutMs opts) (tf_factorId r) now (ts_attempts st))"
  using assms by (auto simp: emitFailure_def split: prod.split_asm)

text \<open>The refusals that count as a failed attempt, and acceptance.\<close>

lemma evaluate_cases:
  assumes "evaluate opts limiter r code now pend st = (x, st1)"
  obtains (status) why where "x = Inr (Refused why None)" "st1 = st" "tf_status r \<noteq> Active"
  | (failed) why ats y where "x = Inr y" "emitFailure opts r why now (st\<lparr>ts_attempts := ats\<rparr>) = (y, st1)"
      "ats = ts_attempts st \<or> ats = snd (allow_attempt limiter (tf_factorId r) now (ts_attempts st))"
  | (thrown) e where "x = Inl e" "ts_factors st1 = ts_factors st"
      "ts_attempts st1 = snd (allow_attempt limiter (tf_factorId r) now (ts_attempts st))"
  | (accepted) c secret k d ats where "assertCode code (to_digits opts) = Some c" "allow_attempt limiter (tf_factorId r) now (ts_attempts st) = (True, ats)"
      "find_counter opts secret c (now div 1000 div to_periodSeconds opts) [- to_window opts .. to_window opts] = Inr (Some (k, d))"
      "\<forall>l. tf_lastUsedCounter r = Some l \<longrightarrow> l < k" "tf_status r \<noteq> Revoked" "pend \<or> tf_status r = Active"
      "x = Inr (fst (accept_code r k d now (st\<lparr>ts_attempts := ats\<rparr>)))" "st1 = snd (accept_code r k d now (st\<lparr>ts_attempts := ats\<rparr>))"
proof (cases "tf_status r = Revoked \<or> \<not> pend \<and> tf_status r \<noteq> Active")
  case True
  with assms have "x = Inr (Refused (if tf_status r = Revoked then ''FACTOR_REVOKED'' else ''FACTOR_NOT_ACTIVE'') None) \<and> st1 = st"
    by (auto simp: evaluate_def Let_def)
  with True show ?thesis by (intro status) auto
next
  case ok: False
  note ev = assms [unfolded evaluate_def Let_def]
  show ?thesis
  proof (cases "assertCode code (to_digits opts)")
    case None
    with ev ok show ?thesis by (cases "emitFailure opts r ''INVALID_CODE'' now st") (auto intro: failed [of _ "''INVALID_CODE''" "ts_attempts st"])
  next
    case code: (Some c)
    obtain al ats where al: "allow_attempt limiter (tf_factorId r) now (ts_attempts st) = (al, ats)" by (metis surj_pair)
    have fail: thesis if "(case emitFailure opts r why now (st\<lparr>ts_attempts := ats\<rparr>) of (y, s1) \<Rightarrow> (Inr y, s1)) = (x, st1)" for why
      using that al by (cases "emitFailure opts r why now (st\<lparr>ts_attempts := ats\<rparr>)") (auto intro: failed [of _ why ats])
    show ?thesis
    proof (cases al)
      case False
      with ev ok code al fail [of "''RATE_LIMITED_OR_LOCKED''"] show ?thesis by auto
    next
      case True
      show ?thesis
      proof (cases "bindE (to_decrypt opts (tf_encryptedSecret r)) normalizeSecret")
        case (Inl e)
        with ev ok code al True fail [of "''SECRET_UNAVAILABLE''"] show ?thesis by auto
      next
        case sec: (Inr secret)
        let ?m = "find_counter opts secret c (now div 1000 div to_periodSeconds opts) [- to_window opts .. to_window opts]"
        show ?thesis
        proof (cases ?m)
          case (Inl e)
          with ev ok code al True sec show ?thesis by (intro thrown [of e]) auto
        next
          case m: (Inr m)
          note ev1 = ev sec m
          show ?thesis
          proof (cases m)
            case None
            with ev1 ok code al True fail [of "''INVALID_CODE''"] show ?thesis by auto
          next
            case (Some kd)
            obtain k d where kd: "kd = (k, d)" by (cases kd)
            show ?thesis
            proof (cases "case tf_lastUsedCounter r of None \<Rightarrow> False | Some l \<Rightarrow> k \<le> l")
              case replay: True
              with ev1 ok code al True Some kd fail [of "''REPLAYED_CODE''"] show ?thesis by auto
            next
              case fresh: False
              with ev1 ok code al True Some kd show ?thesis
                by (intro accepted [of c ats secret k d]) (auto split: prod.split_asm option.split_asm)
            qed
          qed
        qed
      qed
    qed
  qed
qed

subsection \<open>Codes are used once\<close>

text \<open>The operations as a step relation; the label is the factor and the counter whose code was
  accepted, when the factor is used and when its enrollment is confirmed.\<close>

inductive totp_step :: "totp_options \<Rightarrow> totp_state \<Rightarrow> (string \<times> int) option \<Rightarrow> totp_state \<Rightarrow> bool" for opts where
  step_enroll: "totp_step opts st None (snd (totp_enroll opts rnd rnds clk tenant user label actor st))"
| step_verify: "totp_verify opts limiter clk factorId tenant user code st = (Inr (Verified c d m), st1) \<Longrightarrow>
    totp_step opts st (Some (tf_factorId m, c)) st1"
| step_refuse: "totp_verify opts limiter clk factorId tenant user code st = (r, st1) \<Longrightarrow>
    \<forall>c d m. r \<noteq> Inr (Verified c d m) \<Longrightarrow> totp_step opts st None st1"
| step_confirm: "totp_confirm opts limiter clk1 clk2 factorId tenant user code st = (Inr (Confirmed m), st1) \<Longrightarrow>
    map_of (ts_factors st1) (tf_factorId m) = Some r \<Longrightarrow> tf_lastUsedCounter r = Some c \<Longrightarrow>
    totp_step opts st (Some (tf_factorId m, c)) st1"
| step_unconfirmed: "totp_confirm opts limiter clk1 clk2 factorId tenant user code st = (r, st1) \<Longrightarrow>
    \<forall>m. r \<noteq> Inr (Confirmed m) \<Longrightarrow> totp_step opts st None st1"
| step_revoke: "totp_step opts st None (snd (totp_revoke authorizer clk factorId tenant user actor role reason st))"

definition factors_ok :: "totp_state \<Rightarrow> bool" where
  "factors_ok st \<longleftrightarrow> (\<forall>i r. map_of (ts_factors st) i = Some r \<longrightarrow> tf_factorId r = i)"

definition code_spent :: "totp_state \<Rightarrow> string \<times> int \<Rightarrow> bool" where
  "code_spent st k \<longleftrightarrow> (\<exists>r l. map_of (ts_factors st) (fst k) = Some r \<and> tf_lastUsedCounter r = Some l \<and> snd k \<le> l)"

definition advances :: "totp_state \<Rightarrow> totp_state \<Rightarrow> bool" where
  "advances st st1 \<longleftrightarrow> (factors_ok st \<longrightarrow> factors_ok st1) \<and> (\<forall>k. code_spent st k \<longrightarrow> code_spent st1 k)"

lemma advances_same: "ts_factors st1 = ts_factors st \<Longrightarrow> advances st st1"
  by (simp add: advances_def factors_ok_def code_spent_def)

lemma advances_trans: "advances s t \<Longrightarrow> advances t u \<Longrightarrow> advances s u"
  by (simp add: advances_def)

lemma advances_update:
  assumes "map_of (ts_factors st) (tf_factorId r) = Some r" "tf_factorId r1 = tf_factorId r"
    "\<And>l. tf_lastUsedCounter r = Some l \<Longrightarrow> \<exists>l1. tf_lastUsedCounter r1 = Some l1 \<and> l \<le> l1"
    "ts_factors st1 = AList.update (tf_factorId r) r1 (ts_factors st)"
  shows "advances st st1"
proof -
  have "factors_ok st1" if "factors_ok st" using that assms(2,4) by (auto simp: factors_ok_def update_conv')
  moreover have "code_spent st1 k" if "code_spent st k" for k
  proof (cases "fst k = tf_factorId r")
    case True
    with that assms(1) obtain l where "tf_lastUsedCounter r = Some l" "snd k \<le> l" by (auto simp: code_spent_def)
    with assms(3) [of l] True assms(4) show ?thesis by (fastforce simp: code_spent_def update_conv')
  next
    case False
    with that assms(4) show ?thesis by (auto simp: code_spent_def update_conv')
  qed
  ultimately show ?thesis by (simp add: advances_def)
qed

lemma accept_code_simps:
  "ts_factors (snd (accept_code r k d now st)) =
     AList.update (tf_factorId r) (r\<lparr>tf_lastUsedCounter := Some k, tf_lastUsedAt := Some now\<rparr>) (ts_factors st)"
  "fst (accept_code r k d now st) = Verified k d (totp_metadata (r\<lparr>tf_lastUsedCounter := Some k, tf_lastUsedAt := Some now\<rparr>))"
  by (simp_all add: accept_code_def Let_def)

lemma evaluate_advances:
  assumes "evaluate opts limiter r code now pend st = (x, st1)" "map_of (ts_factors st) (tf_factorId r) = Some r"
  shows "advances st st1"
    and "x = Inr (Verified c d m) \<Longrightarrow> tf_factorId m = tf_factorId r \<and> \<not> code_spent st (tf_factorId r, c)
      \<and> (\<exists>r1. map_of (ts_factors st1) (tf_factorId r) = Some r1 \<and> tf_lastUsedCounter r1 = Some c \<and> tf_factorId r1 = tf_factorId r)"
proof -
  from assms(1) have "advances st st1 \<and> (x = Inr (Verified c d m) \<longrightarrow> tf_factorId m = tf_factorId r \<and> \<not> code_spent st (tf_factorId r, c)
      \<and> (\<exists>r1. map_of (ts_factors st1) (tf_factorId r) = Some r1 \<and> tf_lastUsedCounter r1 = Some c \<and> tf_factorId r1 = tf_factorId r))"
  proof (cases rule: evaluate_cases)
    case (accepted code' secret k e ats)
    have "advances st st1"
      using assms(2) accepted by (intro advances_update [where r = r]) (auto simp: accept_code_simps intro: less_imp_le)
    with accepted assms(2) show ?thesis
      by (auto simp: accept_code_simps totp_metadata_def code_spent_def update_conv')
  next
    case (failed why ats y)
    with emitFailure_simps [OF failed(2)] show ?thesis by (auto intro: advances_same)
  next
    case (thrown e)
    then show ?thesis by (auto intro: advances_same)
  next
    case (status why)
    then show ?thesis by (auto intro: advances_same)
  qed
  then show "advances st st1" "x = Inr (Verified c d m) \<Longrightarrow> tf_factorId m = tf_factorId r \<and> \<not> code_spent st (tf_factorId r, c)
      \<and> (\<exists>r1. map_of (ts_factors st1) (tf_factorId r) = Some r1 \<and> tf_lastUsedCounter r1 = Some c \<and> tf_factorId r1 = tf_factorId r)"
    by blast+
qed

lemma scoped_factor_Some:
  assumes "scoped_factor factorId tenant user st = Inr (Some r)"
  shows "\<exists>i. factorId = JStr i \<and> map_of (ts_factors st) i = Some r"
    and "factors_ok st \<Longrightarrow> map_of (ts_factors st) (tf_factorId r) = Some r"
    and "tenant = JStr (tf_tenantId r)" "user = JStr (tf_userId r)"
  using assms by (auto simp: scoped_factor_def totp_factor_id_def totp_scope_def factors_ok_def split: option.split_asm)

lemma verify_cases:
  assumes "totp_verify opts limiter clk factorId tenant user code st = (x, st1)"
  obtains (nothing) "st1 = st" "\<forall>c d m. x \<noteq> Inr (Verified c d m)"
  | (evaluated) r now where "scoped_factor factorId tenant user st = Inr (Some r)" "clk = Some now"
      "evaluate opts limiter r code now False st = (x, st1)"
  using assms unfolding totp_verify_def
  by (elim liftE_cases) (auto split: option.split_asm elim: liftE_cases)

lemma confirm_active_advances:
  assumes "confirm_active clk i st = (x, st1)" "factors_ok st" "map_of (ts_factors st) i = Some r"
  shows "advances st st1 \<and> (\<forall>m. x = Inr (Confirmed m) \<longrightarrow> tf_factorId m = i \<and>
    (\<exists>r1. map_of (ts_factors st1) i = Some r1 \<and> tf_lastUsedCounter r1 = tf_lastUsedCounter r))"
proof -
  have "tf_factorId r = i" using assms(2,3) by (simp add: factors_ok_def)
  then have "\<exists>r1. tf_factorId r1 = i \<and> tf_lastUsedCounter r1 = tf_lastUsedCounter r \<and> ts_factors st1 = AList.update i r1 (ts_factors st)
      \<and> (\<forall>m. x = Inr (Confirmed m) \<longrightarrow> tf_factorId m = i)"
  proof (cases "readTime totpError clk")
    case (Inl e)
    with assms(1,3) \<open>tf_factorId r = i\<close> show ?thesis
      by (intro exI [of _ "r\<lparr>tf_status := Active\<rparr>"]) (auto simp: confirm_active_def Let_def)
  next
    case (Inr t)
    with assms(1,3) \<open>tf_factorId r = i\<close> show ?thesis
      by (intro exI [of _ "r\<lparr>tf_status := Active, tf_confirmedAt := Some t\<rparr>"])
         (auto simp: confirm_active_def Let_def totp_metadata_def simp del: readTime_Inr)
  qed
  then obtain r1 where r1: "tf_factorId r1 = i" "tf_lastUsedCounter r1 = tf_lastUsedCounter r"
    "ts_factors st1 = AList.update i r1 (ts_factors st)" "\<forall>m. x = Inr (Confirmed m) \<longrightarrow> tf_factorId m = i" by blast
  with \<open>tf_factorId r = i\<close> assms(3) have "advances st st1" by (intro advances_update [of st r r1]) auto
  with r1 show ?thesis by (auto simp: update_conv')
qed

lemma confirm_cases:
  assumes "totp_confirm opts limiter clk1 clk2 factorId tenant user code st = (x, st1)"
  shows "(st1 = st \<and> (\<forall>m. x \<noteq> Inr (Confirmed m)))
    \<or> (\<exists>r now. scoped_factor factorId tenant user st = Inr (Some r)
        \<and> confirm_outcome clk2 (tf_factorId r) (evaluate opts limiter r code now True st) = (x, st1))"
proof (cases "is_ok (assertIdentityPart totpError tenant) \<and> is_ok (assertIdentityPart totpError user)
    \<and> (\<exists>r. scoped_factor factorId tenant user st = Inr (Some r))")
  case False
  then have "st1 = st \<and> (\<forall>m. x \<noteq> Inr (Confirmed m))"
    using assms unfolding totp_confirm_def
    by (elim liftE_cases) (auto simp del: assertIdentityPart_Inr split: option.split_asm)
  then show ?thesis ..
next
  case True
  then obtain t u r where ok: "assertIdentityPart totpError tenant = Inr t" "assertIdentityPart totpError user = Inr u"
    "scoped_factor factorId tenant user st = Inr (Some r)" unfolding is_ok_iff by blast
  note c = assms [unfolded totp_confirm_def ok liftE_simps option.case]
  show ?thesis
  proof (cases "tf_status r = Pending")
    case True
    with c ok show ?thesis by (cases "readTime totpError clk1") (auto simp del: readTime_Inr)
  next
    case False
    with c show ?thesis by (cases "tf_status r") auto
  qed
qed

lemma confirm_advances:
  assumes "totp_confirm opts limiter clk1 clk2 factorId tenant user code st = (x, st1)" "factors_ok st"
  shows "advances st st1 \<and> (\<forall>m. x = Inr (Confirmed m) \<longrightarrow> (\<exists>r c. map_of (ts_factors st1) (tf_factorId m) = Some r
      \<and> tf_lastUsedCounter r = Some c \<and> \<not> code_spent st (tf_factorId m, c)))"
proof (cases "st1 = st \<and> (\<forall>m. x \<noteq> Inr (Confirmed m))")
  case True
  then show ?thesis by (simp add: advances_same)
next
  case False
    then obtain r now where evaluated: "scoped_factor factorId tenant user st = Inr (Some r)"
      "confirm_outcome clk2 (tf_factorId r) (evaluate opts limiter r code now True st) = (x, st1)"
      using confirm_cases [OF assms(1)] by blast
    obtain y st2 where ev0: "scoped_factor factorId tenant user st = Inr (Some r)"
      "evaluate opts limiter r code now True st = (y, st2)" "confirm_outcome clk2 (tf_factorId r) (y, st2) = (x, st1)"
      using evaluated by (metis surj_pair)
    have r: "map_of (ts_factors st) (tf_factorId r) = Some r" using scoped_factor_Some(2) [OF ev0(1)] assms(2) .
    note ev = evaluate_advances(1) [OF ev0(2) r]
    show ?thesis
    proof (cases "\<exists>c d m. y = Inr (Verified c d m)")
      case True
      then obtain c d m where y: "y = Inr (Verified c d m)" by blast
      from evaluate_advances(2) [OF ev0(2) r y] obtain r1 where r1: "\<not> code_spent st (tf_factorId r, c)"
        "map_of (ts_factors st2) (tf_factorId r) = Some r1" "tf_lastUsedCounter r1 = Some c" by blast
      have "factors_ok st2" using ev assms(2) by (simp add: advances_def)
      moreover have "confirm_active clk2 (tf_factorId r) st2 = (x, st1)" using ev0(3) y by (simp add: confirm_outcome_def)
      ultimately have con: "advances st2 st1" "\<And>m. x = Inr (Confirmed m) \<Longrightarrow> tf_factorId m = tf_factorId r \<and>
          (\<exists>r2. map_of (ts_factors st1) (tf_factorId r) = Some r2 \<and> tf_lastUsedCounter r2 = tf_lastUsedCounter r1)"
        using confirm_active_advances [OF _ _ r1(2)] by blast+
      have "\<exists>r c. map_of (ts_factors st1) (tf_factorId m) = Some r \<and> tf_lastUsedCounter r = Some c
          \<and> \<not> code_spent st (tf_factorId m, c)" if "x = Inr (Confirmed m)" for m
        using con(2) [OF that] r1(1,3) by auto
      with advances_trans [OF ev con(1)] show ?thesis by blast
    next
      case False
      with ev0(3) ev show ?thesis by (auto simp: confirm_outcome_def split: sum.split_asm totp_result.split_asm)
    qed
qed

lemma enroll_advances:
  assumes "totp_enroll opts rnd rnds clk tenant user label actor st = (x, st1)"
  shows "advances st st1"
proof (cases "enroll_record opts rnd rnds clk tenant user label actor (keys (ts_factors st))")
  case (Inl e)
  with assms show ?thesis by (auto simp: totp_enroll_def intro: advances_same)
next
  case (Inr p)
  obtain r s where p: "p = (r, s)" by (cases p)
  have "tf_factorId r \<notin> set (keys (ts_factors st))"
    using Inr p fresh_factor_id_new [of totpError "''totp_''" rnds "keys (ts_factors st)" 4 "tf_factorId r"]
    by (auto simp: enroll_record_def)
  then have "map_of (ts_factors st) (tf_factorId r) = None" by (simp add: keys_def map_of_eq_None_iff)
  moreover have "ts_factors st1 = AList.update (tf_factorId r) r (ts_factors st)"
    using assms Inr p by (auto simp: totp_enroll_def)
  ultimately show ?thesis by (auto simp: advances_def factors_ok_def code_spent_def update_conv')
qed

lemma revoke_advances:
  assumes "totp_revoke authorizer clk factorId tenant user actor role reason st = (x, st1)" "factors_ok st"
  shows "advances st st1"
proof -
  from assms(1) consider "st1 = st"
  | r t where "scoped_factor factorId tenant user st = Inr (Some r)"
      "ts_factors st1 = AList.update (tf_factorId r) (r\<lparr>tf_status := Revoked, tf_revokedAt := Some t\<rparr>) (ts_factors st)"
    unfolding totp_revoke_def
    by (auto simp: liftE_def Let_def split: sum.split_asm option.split_asm prod.split_asm)
  then show ?thesis
  proof cases
    case (2 r t)
    show ?thesis by (rule advances_update [OF scoped_factor_Some(2) [OF 2(1) assms(2)] _ _ 2(2)]) auto
  qed (simp add: advances_same)
qed

lemma verify_advances:
  assumes "totp_verify opts limiter clk factorId tenant user code st = (x, st1)" "factors_ok st"
  shows "advances st st1 \<and> (\<forall>c d m. x = Inr (Verified c d m) \<longrightarrow>
    \<not> code_spent st (tf_factorId m, c) \<and> code_spent st1 (tf_factorId m, c))"
  using assms(1)
proof (cases rule: verify_cases)
  case nothing
  then show ?thesis by (simp add: advances_same)
next
  case (evaluated r now)
  have r: "map_of (ts_factors st) (tf_factorId r) = Some r" using scoped_factor_Some(2) [OF evaluated(1)] assms(2) .
  from evaluate_advances [OF evaluated(3) r] show ?thesis by (auto simp: code_spent_def)
qed

lemma totp_step_advances:
  assumes "totp_step opts s l t" "factors_ok s"
  shows "advances s t \<and> (\<forall>k. l = Some k \<longrightarrow> \<not> code_spent s k \<and> code_spent t k)"
  using assms
proof (induction rule: totp_step.induct)
  case (step_enroll rnd rnds clk tenant user label actor st)
  then show ?case using enroll_advances [OF surjective_pairing] by simp
next
  case (step_verify limiter clk factorId tenant user code st c d m st1)
  then show ?case using verify_advances by blast
next
  case (step_refuse limiter clk factorId tenant user code st r st1)
  then show ?case using verify_advances by blast
next
  case (step_confirm limiter clk1 clk2 factorId tenant user code st m st1 r c)
  then show ?case using confirm_advances [of opts limiter clk1 clk2 factorId tenant user code st "Inr (Confirmed m)" st1]
    by (auto simp: code_spent_def)
next
  case (step_unconfirmed limiter clk1 clk2 factorId tenant user code st r st1)
  then show ?case using confirm_advances by blast
next
  case (step_revoke authorizer clk factorId tenant user actor role reason st)
  then show ?case using revoke_advances [OF surjective_pairing] by simp
qed

interpretation totp_codes: single_use "totp_step opts" code_spent factors_ok for opts
  by unfold_locales (use totp_step_advances in \<open>auto simp: advances_def\<close>)

subsection \<open>Confirmation succeeds\<close>

lemma find_counter_hit:
  assumes "\<And>w. w \<in> set os \<Longrightarrow> 0 \<le> cur + w \<Longrightarrow> is_safe_int (cur + w)"
    and "totp_parameters_ok (to_digits opts) (to_algorithm opts)" "decodeBase32 secret = Inr key"
    and "d \<in> set os" "generateTotpCode (to_hmac opts) secret (cur + d) (to_digits opts) (to_algorithm opts) = Inr c"
  shows "\<exists>k e. find_counter opts secret c cur os = Inr (Some (k, e))"
  using assms(1,4)
proof (induction os)
  case (Cons w os)
  have pos: "0 \<le> cur + d" using assms(5) by (simp add: generateTotpCode_def guard_iff)
  show ?case
  proof (cases "cur + w < 0")
    case True
    with pos have "d \<noteq> w" by auto
    with Cons True show ?thesis by simp
  next
    case False
    then have "is_safe_int (cur + w)" using Cons(2) by simp
    with assms(2,3) False obtain x where x: "generateTotpCode (to_hmac opts) secret (cur + w) (to_digits opts) (to_algorithm opts) = Inr x"
      by (auto simp: generateTotpCode_def)
    show ?thesis
    proof (cases "x = c")
      case True
      with x False show ?thesis by simp
    next
      case ne: False
      with x assms(5) have "d \<noteq> w" by auto
      with Cons x False ne show ?thesis by simp
    qed
  qed
qed simp

subsection \<open>The protector of the secrets\<close>

text \<open>\<open>createAesGcmSecretProtector\<close>: the layout of the payload; AES-GCM itself is a parameter, the
  encryption of a text under an initialisation vector as ciphertext and tag, and its inverse.\<close>

type_synonym gcm_encrypt = "bytes \<Rightarrow> bytes \<Rightarrow> bytes \<Rightarrow> bytes \<times> bytes" \<comment> \<open>key, iv, text\<close>
type_synonym gcm_decrypt = "bytes \<Rightarrow> bytes \<Rightarrow> bytes \<Rightarrow> bytes \<Rightarrow> bytes option" \<comment> \<open>key, iv, tag, ciphertext\<close>

definition bytes_of :: "string \<Rightarrow> bytes" where
  "bytes_of s = map (\<lambda>c. of_nat (ccode c)) s"

definition string_of :: "bytes \<Rightarrow> string" where
  "string_of bs = map (\<lambda>b. char_of (unat b)) bs"

definition base64UrlDecode :: "string \<Rightarrow> bytes res" where
  "base64UrlDecode s = (if s = [] \<or> \<not> list_all url_char s then Inl (totpError ''INVALID_SECRET_PAYLOAD'')
     else Inr (dec_alphabet 6 base64url_alphabet s))"

definition aes_key_ok :: "bytes \<Rightarrow> unit res" where
  "aes_key_ok key = needE (length key = 32) (totpError ''INVALID_SECRET_KEY'')"

definition aes_encrypt :: "gcm_encrypt \<Rightarrow> bytes \<Rightarrow> bytes option \<Rightarrow> string \<Rightarrow> string res" where
  "aes_encrypt enc key rnd secret =
     bindE (normalizeSecret secret) (\<lambda>canonical. bindE (assertRandomBytes totpError rnd 12) (\<lambda>iv.
       case enc key iv (bytes_of canonical) of (ciphertext, tag) \<Rightarrow>
         Inr (''v1.'' @ base64url iv @ ''.'' @ base64url tag @ ''.'' @ base64url ciphertext)))"

definition aes_decrypt :: "gcm_decrypt \<Rightarrow> bytes \<Rightarrow> string \<Rightarrow> string res" where
  "aes_decrypt open_box key payload = (case split_by (\<lambda>c. c = CHR ''.'') payload of
     [v, a, b, c] \<Rightarrow> if v \<noteq> ''v1'' then Inl (totpError ''INVALID_SECRET_PAYLOAD'')
       else bindE (base64UrlDecode a) (\<lambda>iv. bindE (base64UrlDecode b) (\<lambda>tag. bindE (base64UrlDecode c) (\<lambda>ciphertext.
         if length iv \<noteq> 12 \<or> length tag \<noteq> 16 \<or> ciphertext = [] then Inl (totpError ''INVALID_SECRET_PAYLOAD'')
         else (case open_box key iv tag ciphertext of None \<Rightarrow> Inl (Err OtherErr [] 0) | Some t \<Rightarrow> Inr (string_of t)))))
   | _ \<Rightarrow> Inl (totpError ''INVALID_SECRET_PAYLOAD''))"

lemmas protector_defs [code_defs] = bytes_of_def string_of_def base64UrlDecode_def aes_key_ok_def
  aes_encrypt_def aes_decrypt_def

lemma string_of_bytes_of: "string_of (bytes_of s) = s"
proof (induction s)
  case (Cons c s)
  have "unat (of_nat (ccode c) :: 8 word) = ccode c" by (simp add: ccode_def unat_of_nat)
  with Cons show ?case by (simp add: string_of_def bytes_of_def ccode_def)
qed (simp add: string_of_def bytes_of_def)

lemma base64UrlDecode_base64url: "bs \<noteq> [] \<Longrightarrow> base64UrlDecode (base64url bs) = Inr bs"
  using base64url_chars [of bs] base64url_nonempty [of bs] dec_enc_alphabet [of 6 base64url_alphabet bs] base64url_facts(1,2)
  by (auto simp: base64UrlDecode_def base64url_def list_all_iff)

lemma payload_parts:
  "split_by (\<lambda>c. c = CHR ''.'') (''v1.'' @ base64url a @ ''.'' @ base64url b @ ''.'' @ base64url c)
   = [''v1'', base64url a, base64url b, base64url c]"
proof -
  have "list_all (\<lambda>c. \<not> c = CHR ''.'') (base64url x)" for x
    using base64url_chars [of x] by (auto simp: list_all_iff)
  then show ?thesis by (simp add: split_by_word [where d = "CHR ''.''"] split_by_last)
qed

lemma payload_nonempty: "bytes_of s = [] \<longleftrightarrow> s = []"
  by (simp add: bytes_of_def)

subsection \<open>Enrolling\<close>

lemma fresh_factor_id_ok: "fresh_factor_id f ''totp_'' rnds used n = Inr i \<Longrightarrow> factor_id_ok ''totp_'' i"
proof (induction n arbitrary: rnds)
  case (Suc n)
  have "factor_id_ok ''totp_'' (''totp_'' @ base64url bs)" if "length bs = 12" for bs
    using base64url_chars [of bs] base64url_length [of bs] that
    by (auto simp: factor_id_ok_def starts_with_def list_all_iff)
  with Suc show ?case by (auto simp: Let_def split: if_split_asm)
qed simp

lemma enroll_InrE:
  assumes "totp_enroll opts rnd rnds clk tenant user label actor st = (Inr en, st1)"
  obtains r bs where "length bs = 20" "encodeBase32 bs = Inr (en_secret en)" "to_encrypt opts (en_secret en) = Inr (tf_encryptedSecret r)"
    "factor_id_ok ''totp_'' (tf_factorId r)" "tf_factorId (en_factor en) = tf_factorId r" "tf_status r = Pending" "tf_lastUsedCounter r = None"
    "tenant = JStr (tf_tenantId r)" "user = JStr (tf_userId r)" "auth_id_ok (tf_tenantId r)" "auth_id_ok (tf_userId r)"
    "map_of (ts_factors st1) (tf_factorId r) = Some r" "ts_attempts st1 = ts_attempts st"
proof -
  from assms obtain r s where p: "enroll_record opts rnd rnds clk tenant user label actor (keys (ts_factors st)) = Inr (r, s)"
    and en: "s = en_secret en" "tf_factorId (en_factor en) = tf_factorId r"
      "map_of (ts_factors st1) (tf_factorId r) = Some r" "ts_attempts st1 = ts_attempts st"
    by (auto simp: totp_enroll_def totp_metadata_def update_conv')
  from p obtain bs where "length bs = 20" "encodeBase32 bs = Inr s" "to_encrypt opts s = Inr (tf_encryptedSecret r)"
    "fresh_factor_id totpError ''totp_'' rnds (keys (ts_factors st)) 4 = Inr (tf_factorId r)"
    "tf_status r = Pending" "tf_lastUsedCounter r = None"
    "tenant = JStr (tf_tenantId r)" "user = JStr (tf_userId r)" "auth_id_ok (tf_tenantId r)" "auth_id_ok (tf_userId r)"
    unfolding enroll_record_def by auto
  with en fresh_factor_id_ok that show thesis by blast
qed

lemma scoped_factor_ok:
  assumes "map_of (ts_factors st) (tf_factorId r) = Some r" "factor_id_ok ''totp_'' (tf_factorId r)"
    "auth_id_ok (tf_tenantId r)" "auth_id_ok (tf_userId r)"
  shows "scoped_factor (JStr (tf_factorId r)) (JStr (tf_tenantId r)) (JStr (tf_userId r)) st = Inr (Some r)"
proof -
  have "totp_factor_id (JStr (tf_factorId r)) = Inr (tf_factorId r)" using assms(2) by (simp add: totp_factor_id_def)
  moreover have "totp_scope r (JStr (tf_tenantId r)) (JStr (tf_userId r)) = Inr ()" using assms(3,4) by (simp add: totp_scope_def)
  ultimately show ?thesis using assms(1) by (simp add: scoped_factor_def)
qed

lemma generate_total:
  assumes "is_safe_int k" "0 \<le> k" "totp_parameters_ok digits alg" "decodeBase32 secret = Inr key"
  shows "\<exists>c. generateTotpCode hm secret k digits alg = Inr c"
  using assms by (simp add: generateTotpCode_def)

lemma current_counter_bounds:
  fixes now p :: int
  assumes "0 \<le> now" "15 \<le> p"
  shows "0 \<le> now div 1000 div p" "now div 1000 div p \<le> now"
proof -
  have le: "a div b \<le> a" if "0 \<le> a" "1 \<le> b" for a b :: int
    using zdiv_mono2 [of a 1 b] that by simp
  have q: "0 \<le> now div 1000" using assms(1) by simp
  then show "0 \<le> now div 1000 div p" using assms(2) by (simp add: pos_imp_zdiv_nonneg_iff)
  show "now div 1000 div p \<le> now" using le [OF assms(1), of 1000] le [OF q, of p] assms(2) by linarith
qed

lemma evaluate_accepts:
  assumes "tf_status r = Active \<or> pend \<and> tf_status r = Pending" "tf_lastUsedCounter r = None" "\<not> locked_at (ts_attempts st) (tf_factorId r) now"
    and "to_decrypt opts (tf_encryptedSecret r) = Inr secret" "normalizeSecret secret = Inr secret" "decodeBase32 secret = Inr key"
    and "0 \<le> now" "now \<le> max_date" "totp_parameters_ok (to_digits opts) (to_algorithm opts)"
    and "15 \<le> to_periodSeconds opts" "0 \<le> to_window opts" "to_window opts \<le> 2"
    and "generateTotpCode (to_hmac opts) secret (now div 1000 div to_periodSeconds opts) (to_digits opts) (to_algorithm opts) = Inr c"
  shows "\<exists>k d st1. evaluate opts True r (JStr c) now pend st = (Inr (Verified k d (totp_metadata (r\<lparr>tf_lastUsedCounter := Some k, tf_lastUsedAt := Some now\<rparr>))), st1)
    \<and> ts_factors st1 = AList.update (tf_factorId r) (r\<lparr>tf_lastUsedCounter := Some k, tf_lastUsedAt := Some now\<rparr>) (ts_factors st)"
proof -
  let ?cur = "now div 1000 div to_periodSeconds opts"
  have cur: "?cur \<le> max_date" using current_counter_bounds [OF assms(7,10)] assms(8) by linarith
  have safe: "is_safe_int (?cur + w)" if "w \<in> set [- to_window opts .. to_window opts]" "0 \<le> ?cur + w" for w
    using that cur assms(12) by (simp add: is_safe_int_def max_safe_def max_date_def)
  have "0 \<in> set [- to_window opts .. to_window opts]" using assms(11) by simp
  from find_counter_hit [where cur = ?cur, OF safe assms(9,6) this] assms(13) obtain k d where
    f: "find_counter opts secret c ?cur [- to_window opts .. to_window opts] = Inr (Some (k, d))" by auto
  obtain ats where al: "allow_attempt True (tf_factorId r) now (ts_attempts st) = (True, ats)"
    using assms(3) by (simp add: allow_attempt_def)
  have st: "tf_status r \<noteq> Revoked \<and> (pend \<or> tf_status r = Active)" using assms(1) by auto
  let ?r1 = "r\<lparr>tf_lastUsedCounter := Some k, tf_lastUsedAt := Some now\<rparr>"
  have "evaluate opts True r (JStr c) now pend st = (Inr (fst (accept_code r k d now (st\<lparr>ts_attempts := ats\<rparr>))), snd (accept_code r k d now (st\<lparr>ts_attempts := ats\<rparr>)))"
    using st assms(2,4,5) generated_code_format [OF assms(13)] f al by (auto simp: evaluate_def Let_def split: prod.split)
  then show ?thesis by (auto simp: accept_code_simps)
qed

text \<open>The stored form of a secret is a round trip: with AES-GCM that opens what it sealed, and 16-byte
  tags, the payload made from any base 32 secret of 10 to 64 bytes is read back as that secret, which
  decodes to the same bytes; this covers the overflowing 32-bit accumulator of the base 32 loops.\<close>

theorem stored_secret_roundtrip:
  assumes gcm: "\<And>iv t c tag. seal key iv t = (c, tag) \<Longrightarrow> open_box key iv tag c = Some t \<and> length tag = 16 \<and> length c = length t"
    and "encodeBase32 bs = Inr secret" "10 \<le> length bs" "length bs \<le> 64" "length iv = 12"
  shows "\<exists>payload. aes_encrypt seal key (Some iv) secret = Inr payload \<and> aes_decrypt open_box key payload = Inr secret
    \<and> decodeBase32 secret = Inr bs"
proof -
  have norm: "normalizeSecret secret = Inr secret" and dec: "decodeBase32 secret = Inr bs"
    using normalizeSecret_encoded encode_decode_base32 assms(2-4) by blast+
  obtain c tag where c: "seal key iv (bytes_of secret) = (c, tag)" by (cases "seal key iv (bytes_of secret)")
  from dec have "16 \<le> length secret" by (auto simp: decodeBase32_def guard_iff)
  then have "bytes_of secret \<noteq> []" by (auto simp: payload_nonempty)
  with gcm [OF c] have ne: "c \<noteq> []" "tag \<noteq> []" "iv \<noteq> []" using assms(5) by auto
  have "aes_encrypt seal key (Some iv) secret = Inr (''v1.'' @ base64url iv @ ''.'' @ base64url tag @ ''.'' @ base64url c)"
    using norm assms(5) c by (simp add: aes_encrypt_def assertRandomBytes_def)
  moreover have "aes_decrypt open_box key (''v1.'' @ base64url iv @ ''.'' @ base64url tag @ ''.'' @ base64url c) = Inr secret"
    unfolding aes_decrypt_def payload_parts
    using gcm [OF c] ne assms(5) by (simp add: base64UrlDecode_base64url string_of_bytes_of)
  ultimately show ?thesis using dec by blast
qed

text \<open>What an enrollment and its confirmation need of the protector: that it reads back the secrets it is given,
  which are the base 32 text of 20 bytes.\<close>

definition protects :: "totp_options \<Rightarrow> bool" where
  "protects opts \<longleftrightarrow> (\<forall>bs s e. length bs = 20 \<and> encodeBase32 bs = Inr s \<and> to_encrypt opts s = Inr e \<longrightarrow> to_decrypt opts e = Inr s)"

text \<open>The AES-GCM protector is one that does.\<close>

lemma aes_protects:
  assumes gcm: "\<And>iv t c tag. seal key iv t = (c, tag) \<Longrightarrow> open_box key iv tag c = Some t \<and> length tag = 16 \<and> length c = length t"
    and opts: "to_encrypt opts = aes_encrypt seal key rnd" "to_decrypt opts = aes_decrypt open_box key"
  shows "protects opts"
  unfolding protects_def opts
proof (intro allI impI)
  fix bs s e assume a: "length bs = 20 \<and> encodeBase32 bs = Inr s \<and> aes_encrypt seal key rnd s = Inr e"
  then obtain iv where iv: "rnd = Some iv" "length iv = 12"
    by (auto simp: aes_encrypt_def assertRandomBytes_def split: option.splits if_splits)
  have "\<exists>payload. aes_encrypt seal key (Some iv) s = Inr payload \<and> aes_decrypt open_box key payload = Inr s \<and> decodeBase32 s = Inr bs"
    by (rule stored_secret_roundtrip [of seal key open_box]) (use a iv gcm in auto)
  with a iv show "aes_decrypt open_box key e = Inr s" by auto
qed

lemma confirm_succeeds:
  assumes "totp_enroll opts rnd rnds clk tenant user label actor st = (Inr en, st1)" "createTotpManager opts fs = Inr st0"
    and prot: "protects opts"
    and "\<not> locked_at (ts_attempts st) (tf_factorId (en_factor en)) now" "0 \<le> now" "now \<le> max_date" "0 \<le> later"
  obtains c m st2 k where "generateTotpCode (to_hmac opts) (en_secret en) (now div 1000 div to_periodSeconds opts) (to_digits opts) (to_algorithm opts) = Inr c"
    "totp_confirm opts True (Some now) (Some later) (JStr (tf_factorId (en_factor en))) tenant user (JStr c) st1 = (Inr (Confirmed m), st2)"
    "tf_status m = Active" "tf_factorId m = tf_factorId (en_factor en)"
    "\<exists>r. map_of (ts_factors st2) (tf_factorId m) = Some r \<and> tf_lastUsedCounter r = Some k"
  using assms(1)
proof (rule enroll_InrE)
  fix r bs
  assume r: "length bs = 20" "encodeBase32 bs = Inr (en_secret en)" "to_encrypt opts (en_secret en) = Inr (tf_encryptedSecret r)"
    "factor_id_ok ''totp_'' (tf_factorId r)" "tf_factorId (en_factor en) = tf_factorId r" "tf_status r = Pending" "tf_lastUsedCounter r = None"
    "tenant = JStr (tf_tenantId r)" "user = JStr (tf_userId r)" "auth_id_ok (tf_tenantId r)" "auth_id_ok (tf_userId r)"
    "map_of (ts_factors st1) (tf_factorId r) = Some r" "ts_attempts st1 = ts_attempts st"
  let ?cur = "now div 1000 div to_periodSeconds opts"
  have par: "totp_parameters_ok (to_digits opts) (to_algorithm opts)" "15 \<le> to_periodSeconds opts" "0 \<le> to_window opts" "to_window opts \<le> 2"
    using assms(2) by (auto simp: createTotpManager_def split: if_split_asm)
  have key: "decodeBase32 (en_secret en) = Inr bs" "normalizeSecret (en_secret en) = Inr (en_secret en)"
    using encode_decode_base32 [OF _ _ r(2)] normalizeSecret_encoded [OF _ _ r(2)] r(1) by simp_all
  have "is_safe_int ?cur" "0 \<le> ?cur" using current_counter_bounds [OF assms(5) par(2)] assms(6)
    by (simp_all add: is_safe_int_def max_safe_def max_date_def)
  from generate_total [OF this par(1) key(1)] obtain c where
    c: "generateTotpCode (to_hmac opts) (en_secret en) ?cur (to_digits opts) (to_algorithm opts) = Inr c" by blast
  have "\<not> locked_at (ts_attempts st1) (tf_factorId r) now" using assms(4) r by simp
  moreover have "to_decrypt opts (tf_encryptedSecret r) = Inr (en_secret en)" using prot r(1-3) by (auto simp: protects_def)
  ultimately have open': "\<not> locked_at (ts_attempts st1) (tf_factorId r) now" "to_decrypt opts (tf_encryptedSecret r) = Inr (en_secret en)" by blast+
  from evaluate_accepts [OF _ r(7) open' key(2,1) assms(5,6) par c, of True] r(6) obtain k d st2 where
    ev: "evaluate opts True r (JStr c) now True st1 = (Inr (Verified k d (totp_metadata (r\<lparr>tf_lastUsedCounter := Some k, tf_lastUsedAt := Some now\<rparr>))), st2)"
      "ts_factors st2 = AList.update (tf_factorId r) (r\<lparr>tf_lastUsedCounter := Some k, tf_lastUsedAt := Some now\<rparr>) (ts_factors st1)" by auto
  have "assertIdentityPart totpError tenant = Inr (tf_tenantId r)" "assertIdentityPart totpError user = Inr (tf_userId r)"
    using r by simp_all
  with scoped_factor_ok [OF r(12,4,10,11)] ev r(5,6,8,9) assms(5,7)
  obtain m st3 where "totp_confirm opts True (Some now) (Some later) (JStr (tf_factorId (en_factor en))) tenant user (JStr c) st1 = (Inr (Confirmed m), st3)"
    "tf_status m = Active" "tf_factorId m = tf_factorId r" "\<exists>r1. map_of (ts_factors st3) (tf_factorId r) = Some r1 \<and> tf_lastUsedCounter r1 = Some k"
    by (auto simp: totp_confirm_def confirm_outcome_def confirm_active_def readTime_def totp_metadata_def Let_def update_conv')
  with c r(5) that show thesis by metis
qed

subsection \<open>A concrete manager\<close>

definition example_totp :: totp_options where \<comment> \<open>a digest that ends in the message\<close>
  "example_totp = \<lparr>to_periodSeconds = 30, to_digits = 6, to_algorithm = ''sha1'', to_window = 1, to_maxFailures = 5,
     to_lockoutMs = 900000, to_hmac = (\<lambda>_ _ m. replicate 12 0 @ m),
     to_encrypt = aes_encrypt (\<lambda>_ _ t. (t, replicate 16 0)) (replicate 32 1) (Some (replicate 12 5)),
     to_decrypt = aes_decrypt (\<lambda>_ _ _ c. Some c) (replicate 32 1)\<rparr>"

lemma example_protects: "protects example_totp"
  by (rule aes_protects [where seal = "\<lambda>_ _ t. (t, replicate 16 0)"]) (auto simp: example_totp_def)

definition empty_totp :: totp_state where
  "empty_totp = \<lparr>ts_factors = [], ts_attempts = [], ts_audit = []\<rparr>"

lemma example_totp_created: "createTotpManager example_totp [] = Inr empty_totp"
  by (simp add: createTotpManager_def example_totp_def totp_parameters_ok_def is_safe_int_def max_safe_def empty_totp_def)

definition example_enroll :: "totp_enrollment res \<times> totp_state" where
  "example_enroll = totp_enroll example_totp (Some (replicate 20 7)) [Some (replicate 12 1)] (Some 1000)
     (JStr ''t1'') (JStr ''ada'') JUndef JUndef empty_totp"

lemma example_enrolled: "\<exists>en st. example_enroll = (Inr en, st)"
proof -
  have id: "assertIdentityPart totpError (JStr ''t1'') = Inr ''t1''" "assertIdentityPart totpError (JStr ''ada'') = Inr ''ada''"
    by code_simp+
  have "js_default JUndef (JStr ''ada'') = JStr ''ada''" by (simp add: js_default_def)
  moreover have "fresh_factor_id totpError ''totp_'' [Some (replicate 12 1)] [] 4 = Inr (''totp_'' @ base64url (replicate 12 1))"
    by (simp add: numeral_eq_Suc assertRandomBytes_def Let_def)
  moreover obtain secret e where "encodeBase32 (replicate 20 7) = Inr secret" "to_encrypt example_totp secret = Inr e"
  proof -
    obtain secret where b: "encodeBase32 (replicate 20 7) = Inr secret" by (simp add: encodeBase32_def)
    with stored_secret_roundtrip [of "\<lambda>_ _ t. (t, replicate 16 0)" "replicate 32 1" "\<lambda>_ _ _ c. Some c" "replicate 20 7" secret "replicate 12 5"]
    obtain e where "to_encrypt example_totp secret = Inr e" by (auto simp: example_totp_def)
    with b that show thesis by blast
  qed
  ultimately show ?thesis using id
    by (simp add: example_enroll_def totp_enroll_def enroll_record_def needE_def assertRandomBytes_def
        readTime_def normalizeLabel_def empty_totp_def keys_def)
qed

lemma example_confirmed:
  "\<exists>en st1 c m st2 k r. example_enroll = (Inr en, st1)
    \<and> generateTotpCode (to_hmac example_totp) (en_secret en) (100000 div 1000 div to_periodSeconds example_totp)
        (to_digits example_totp) (to_algorithm example_totp) = Inr c
    \<and> totp_confirm example_totp True (Some 100000) (Some 100001) (JStr (tf_factorId (en_factor en))) (JStr ''t1'') (JStr ''ada'')
        (JStr c) st1 = (Inr (Confirmed m), st2)
    \<and> map_of (ts_factors st2) (tf_factorId m) = Some r \<and> tf_lastUsedCounter r = Some k"
proof -
  obtain en st1 where en: "example_enroll = (Inr en, st1)" using example_enrolled by blast
  have "\<not> locked_at (ts_attempts empty_totp) (tf_factorId (en_factor en)) 100000" by (simp add: locked_at_def empty_totp_def)
  from confirm_succeeds [OF en [unfolded example_enroll_def] example_totp_created example_protects this, of 100001] en
  show ?thesis by (simp add: max_date_def) metis
qed

subsection \<open>Properties\<close>

text \<open>C19 A one-time password is used once: in any sequence of enrollments, confirmations, verifications
  and revocations, whatever the clock, the rate limiter and the cryptography answer, no factor accepts
  the code of the same time step twice, and none accepts one that was already used before.\<close>

theorem totp_codes_are_used_once:
  assumes "use_run (totp_step opts) st ks st1" "factors_ok st"
  shows "distinct ks \<and> (\<forall>k\<in>set ks. \<not> code_spent st k \<and> code_spent st1 k)"
  using totp_codes.run_spends [OF assms] by blast

lemma totp_codes_are_used_once_witness:
  "\<exists>k st1. use_run (totp_step example_totp) empty_totp [k] st1 \<and> code_spent st1 k"
proof -
  obtain en st1 c m st2 k r where e: "example_enroll = (Inr en, st1)"
    "totp_confirm example_totp True (Some 100000) (Some 100001) (JStr (tf_factorId (en_factor en))) (JStr ''t1'') (JStr ''ada'')
        (JStr c) st1 = (Inr (Confirmed m), st2)" "map_of (ts_factors st2) (tf_factorId m) = Some r" "tf_lastUsedCounter r = Some k"
    using example_confirmed by blast
  have "snd example_enroll = st1" by (simp only: e(1) snd_conv)
  moreover have "totp_step example_totp empty_totp None (snd example_enroll)" unfolding example_enroll_def by (rule step_enroll)
  ultimately have "totp_step example_totp empty_totp None st1" by (simp only:)
  from run_other [where step = "totp_step example_totp", OF run_none this]
  have "use_run (totp_step example_totp) empty_totp [] st1" .
  from run_use [where step = "totp_step example_totp", OF this step_confirm [OF e(2-4)]]
  have run: "use_run (totp_step example_totp) empty_totp [(tf_factorId m, k)] st2" by simp
  have "factors_ok empty_totp" by (simp add: factors_ok_def empty_totp_def)
  from totp_codes_are_used_once [OF run this] run show ?thesis by auto
qed



lemma stored_secret_roundtrip_witness:
  "\<exists>secret payload. encodeBase32 (replicate 20 9) = Inr secret
    \<and> aes_encrypt (\<lambda>_ _ t. (t, replicate 16 0)) (replicate 32 1) (Some (replicate 12 5)) secret = Inr payload
    \<and> aes_decrypt (\<lambda>_ _ _ c. Some c) (replicate 32 1) payload = Inr secret"
proof -
  obtain secret where "encodeBase32 (replicate 20 9) = Inr secret" by (simp add: encodeBase32_def)
  with stored_secret_roundtrip [of "\<lambda>_ _ t. (t, replicate 16 0)" "replicate 32 1" "\<lambda>_ _ _ c. Some c" "replicate 20 9" secret "replicate 12 5"]
  show ?thesis by auto
qed

end
