(* ===== verification/Recovery_Codes.thy ===== *)
theory Recovery_Codes
  imports Auth_Factors
begin

section \<open>Recovery codes\<close>

text \<open>
  \<open>src/core/auth/recovery-codes.ts\<close>: the one-time codes and the manager of
  \<open>createRecoveryCodeManager\<close>, its two maps as the record \<open>recovery_state\<close>.  The salted hash is the
  parameter \<open>hash\<close>, the random bytes are arguments, for each code the bytes it is made of and its
  salt.  A code is identified by its key in the map of its factor.
\<close>

definition recoveryError :: "string \<Rightarrow> err" where
  "recoveryError code = Err RecoveryErr code 0"

definition RECOVERY_CODE_ALPHABET :: string where
  "RECOVERY_CODE_ALPHABET = ''23456789ABCDEFGHJKLMNPQRSTUVWXYZ''"

type_synonym code_hash = "bytes \<Rightarrow> string \<Rightarrow> bytes"

record recovery_entry =
  re_salt :: bytes
  re_digest :: bytes
  re_usedAt :: "int option"

record recovery_record =
  rv_factorId :: string
  rv_tenantId :: string
  rv_userId :: string
  rv_createdAt :: int
  rv_revokedAt :: "int option"
  rv_usedAt :: "int option"
  rv_codes :: "(string \<times> recovery_entry) list"

record recovery_meta =
  rm_factorId :: string
  rm_tenantId :: string
  rm_userId :: string
  rm_createdAt :: int
  rm_revokedAt :: "int option"
  rm_usedAt :: "int option"
  rm_totalCodes :: nat
  rm_remainingCodes :: nat

record recovery_state =
  rs_factors :: "(string \<times> recovery_record) list"
  rs_attempts :: attempts
  rs_audit :: "(string \<times> jsval) list list"

record recovery_options =
  ro_count :: nat
  ro_maxFailures :: nat
  ro_lockoutMs :: int
  ro_hash :: code_hash

definition createRecoveryCodeManager :: "recovery_options \<Rightarrow> (string \<times> recovery_record) list \<Rightarrow> recovery_state res" where
  "createRecoveryCodeManager opts factors =
     (if ro_count opts < 5 \<or> 20 < ro_count opts \<or> ro_maxFailures opts < 1 \<or> 20 < ro_maxFailures opts
        \<or> \<not> is_safe_int (ro_lockoutMs opts) \<or> ro_lockoutMs opts < 1000
      then Inl (recoveryError ''INVALID_CONFIGURATION'')
      else Inr \<lparr>rs_factors = factors, rs_attempts = [], rs_audit = []\<rparr>)"

subsection \<open>Codes\<close>

definition generateRecoveryCode :: "bytes option \<Rightarrow> string res" where
  "generateRecoveryCode rnd = bindE (assertRandomBytes recoveryError rnd 10) (\<lambda>bs.
     let code = enc_alphabet 5 RECOVERY_CODE_ALPHABET bs in
     if length code \<noteq> 16 then Inl (recoveryError ''INVALID_RANDOM_SOURCE'')
     else Inr (take 4 code @ ''-'' @ take 4 (drop 4 code) @ ''-'' @ take 4 (drop 8 code) @ ''-'' @ take 4 (drop 12 code)))"

definition normalizeCode :: "jsval \<Rightarrow> string option" where
  "normalizeCode code = (case js_str code of None \<Rightarrow> None
     | Some s \<Rightarrow> let canonical = upper (filter (\<lambda>c. \<not> (is_space c \<or> c = CHR ''-'')) s) in
         if length canonical = 16 \<and> list_all (one_of RECOVERY_CODE_ALPHABET) canonical then Some canonical else None)"

definition recovery_metadata :: "recovery_record \<Rightarrow> recovery_meta" where
  "recovery_metadata r = \<lparr>rm_factorId = rv_factorId r, rm_tenantId = rv_tenantId r, rm_userId = rv_userId r,
     rm_createdAt = rv_createdAt r, rm_revokedAt = rv_revokedAt r, rm_usedAt = rv_usedAt r,
     rm_totalCodes = length (rv_codes r),
     rm_remainingCodes = length (filter (\<lambda>p. re_usedAt (snd p) = None) (rv_codes r))\<rparr>"

subsection \<open>Operations\<close>

definition put_recovery :: "recovery_record \<Rightarrow> recovery_state \<Rightarrow> recovery_state" where
  "put_recovery r st = st\<lparr>rs_factors := AList.update (rv_factorId r) r (rs_factors st)\<rparr>"

definition recovery_audit :: "string \<Rightarrow> recovery_record \<Rightarrow> (string \<times> jsval) list \<Rightarrow> recovery_state \<Rightarrow> recovery_state" where
  "recovery_audit event r rest st = st\<lparr>rs_audit := rs_audit st @ [[(''eventType'', JStr event),
     (''tenantId'', JStr (rv_tenantId r)), (''userId'', JStr (rv_userId r)), (''factorId'', JStr (rv_factorId r))] @ rest]\<rparr>"

definition assertUserActor :: "jsval \<Rightarrow> jsval \<Rightarrow> jsval \<Rightarrow> string option \<Rightarrow> (string \<times> string) res" where
  "assertUserActor tenant user actor role =
     bindE (assertIdentityPart recoveryError tenant) (\<lambda>t.
     bindE (assertIdentityPart recoveryError user) (\<lambda>u.
     bindE (assertIdentityPart recoveryError (js_default actor user)) (\<lambda>a.
     if a \<noteq> u \<or> (case role of None \<Rightarrow> False
          | Some x \<Rightarrow> x \<in> {''provider'', ''tenant_master'', ''master'', ''monitor'', ''admin''})
     then Inl (recoveryError ''FACTOR_SCOPE_VIOLATION'') else Inr (t, u))))"

definition code_key :: "nat \<Rightarrow> bytes \<Rightarrow> string" where
  "code_key i salt = dec i @ '':'' @ base64url salt"

text \<open>The loop of \<open>enroll\<close> from code number \<open>i\<close> on, with \<open>n\<close> codes to go.\<close>

fun issue_codes :: "code_hash \<Rightarrow> nat \<Rightarrow> nat \<Rightarrow> (bytes option \<times> bytes option) list \<Rightarrow> (string \<times> recovery_entry) list \<Rightarrow> string list \<Rightarrow>
    ((string \<times> recovery_entry) list \<times> string list) res" where
  "issue_codes hash 0 i rnds codes clear = Inr (codes, clear)"
| "issue_codes hash (Suc n) i rnds codes clear =
     (let (rc, rsalt) = (case rnds of [] \<Rightarrow> (None, None) | p # _ \<Rightarrow> p) in
      bindE (generateRecoveryCode rc) (\<lambda>clearCode.
      (case normalizeCode (JStr clearCode) of None \<Rightarrow> Inl (recoveryError ''INVALID_RANDOM_SOURCE'')
       | Some canonical \<Rightarrow> bindE (assertRandomBytes recoveryError rsalt 16) (\<lambda>salt.
           issue_codes hash n (Suc i) (tl rnds)
             (AList.update (code_key i salt) \<lparr>re_salt = salt, re_digest = hash salt canonical, re_usedAt = None\<rparr> codes)
             (clear @ [clearCode])))))"

definition recovery_record_of :: "recovery_options \<Rightarrow> bytes option list \<Rightarrow> int option \<Rightarrow> (bytes option \<times> bytes option) list \<Rightarrow>
    jsval \<Rightarrow> jsval \<Rightarrow> jsval \<Rightarrow> string option \<Rightarrow> string list \<Rightarrow> (recovery_record \<times> string list) res" where
  "recovery_record_of opts idrnds clk rnds tenant user actor role used =
     bindE (assertUserActor tenant user actor role) (\<lambda>(t, u).
     bindE (fresh_factor_id recoveryError ''recovery_'' idrnds used 4) (\<lambda>i.
     bindE (readTime recoveryError clk) (\<lambda>now.
     bindE (issue_codes (ro_hash opts) (ro_count opts) 0 rnds [] []) (\<lambda>(codes, clear).
     Inr (\<lparr>rv_factorId = i, rv_tenantId = t, rv_userId = u, rv_createdAt = now, rv_revokedAt = None, rv_usedAt = None,
       rv_codes = codes\<rparr>, clear)))))"

definition recovery_enroll :: "recovery_options \<Rightarrow> bytes option list \<Rightarrow> int option \<Rightarrow> (bytes option \<times> bytes option) list \<Rightarrow>
    jsval \<Rightarrow> jsval \<Rightarrow> jsval \<Rightarrow> string option \<Rightarrow> recovery_state \<Rightarrow> (recovery_meta \<times> string list) res \<times> recovery_state" where
  "recovery_enroll opts idrnds clk rnds tenant user actor role st =
     liftE (recovery_record_of opts idrnds clk rnds tenant user actor role (keys (rs_factors st))) st (\<lambda>(r, clear).
       (Inr (recovery_metadata r, clear),
        recovery_audit ''auth.recovery.issued'' r [(''count'', JInt (int (ro_count opts))), (''occurredAt'', JInt (rv_createdAt r))]
          (put_recovery r st)))"

datatype recovery_result = Recovered recovery_meta | NotRecovered string "int option"

definition recovery_failure :: "recovery_options \<Rightarrow> recovery_record \<Rightarrow> string \<Rightarrow> int \<Rightarrow> recovery_state \<Rightarrow> recovery_result \<times> recovery_state" where
  "recovery_failure opts r reason now st =
     (case record_failure (ro_maxFailures opts) (ro_lockoutMs opts) (rv_factorId r) now (rs_attempts st) of (until, ats) \<Rightarrow>
       (NotRecovered reason (if now < until then Some until else None),
        recovery_audit ''auth.recovery.failed'' r
          [(''reason'', JStr reason), (''locked'', JBool (now < until)), (''occurredAt'', JInt now)]
          (st\<lparr>rs_attempts := ats\<rparr>)))"

definition recovery_candidate :: "code_hash \<Rightarrow> recovery_record \<Rightarrow> string \<Rightarrow> (string \<times> recovery_entry) option" where
  "recovery_candidate hash r canonical =
     find (\<lambda>(k, e). re_usedAt e = None \<and> re_digest e = hash (re_salt e) canonical) (rv_codes r)"

definition use_code :: "recovery_record \<Rightarrow> string \<Rightarrow> recovery_entry \<Rightarrow> int \<Rightarrow> recovery_record" where
  "use_code r k e now = r\<lparr>rv_codes := AList.update k (e\<lparr>re_usedAt := Some now\<rparr>) (rv_codes r), rv_usedAt := Some now\<rparr>"

definition consume_record :: "recovery_options \<Rightarrow> bool \<Rightarrow> recovery_record \<Rightarrow> int \<Rightarrow> jsval \<Rightarrow> recovery_state \<Rightarrow> recovery_result \<times> recovery_state" where
  "consume_record opts limiter r now code st =
     (if rv_revokedAt r \<noteq> None then (NotRecovered ''FACTOR_REVOKED'' None, st)
      else (case allow_attempt limiter (rv_factorId r) now (rs_attempts st) of (allowed, ats) \<Rightarrow>
        let st1 = st\<lparr>rs_attempts := ats\<rparr> in
        if \<not> allowed then recovery_failure opts r ''RATE_LIMITED_OR_LOCKED'' now st1
        else (case normalizeCode code of None \<Rightarrow> recovery_failure opts r ''INVALID_CODE'' now st1
          | Some canonical \<Rightarrow> (case recovery_candidate (ro_hash opts) r canonical of
              None \<Rightarrow> recovery_failure opts r ''INVALID_CODE'' now st1
            | Some (k, e) \<Rightarrow> let r1 = use_code r k e now in
                (Recovered (recovery_metadata r1),
                 recovery_audit ''auth.recovery.used'' r
                   [(''remainingCodes'', JInt (int (rm_remainingCodes (recovery_metadata r1)))), (''occurredAt'', JInt now)]
                   (put_recovery r1 (st1\<lparr>rs_attempts := AList.delete (rv_factorId r) (rs_attempts st1)\<rparr>)))))))"

definition recovery_factor_id :: "jsval \<Rightarrow> string res" where
  "recovery_factor_id v = need_str (factor_id_ok ''recovery_'') (recoveryError ''INVALID_FACTOR'') v"

definition consume_input :: "jsval \<Rightarrow> jsval \<Rightarrow> jsval \<Rightarrow> int option \<Rightarrow> recovery_state \<Rightarrow> (recovery_record \<times> int) option res" where
  "consume_input factorId tenant user clk st =
     bindE (assertIdentityPart recoveryError tenant) (\<lambda>t.
     bindE (assertIdentityPart recoveryError user) (\<lambda>u.
     bindE (recovery_factor_id factorId) (\<lambda>i.
     (case map_of (rs_factors st) i of None \<Rightarrow> Inr None
      | Some r \<Rightarrow> bindE (needE (rv_tenantId r = t \<and> rv_userId r = u) (recoveryError ''FACTOR_SCOPE_VIOLATION'')) (\<lambda>_.
          bindE (readTime recoveryError clk) (\<lambda>now. Inr (Some (r, now))))))))"

definition recovery_consume :: "recovery_options \<Rightarrow> bool \<Rightarrow> int option \<Rightarrow> jsval \<Rightarrow> jsval \<Rightarrow> jsval \<Rightarrow> jsval \<Rightarrow> recovery_state \<Rightarrow>
    recovery_result res \<times> recovery_state" where
  "recovery_consume opts limiter clk factorId tenant user code st =
     liftE (consume_input factorId tenant user clk st) st (\<lambda>f.
     case f of None \<Rightarrow> (Inr (NotRecovered ''FACTOR_NOT_FOUND'' None), st)
     | Some (r, now) \<Rightarrow> (case consume_record opts limiter r now code st of (x, st1) \<Rightarrow> (Inr x, st1)))"

datatype recovery_revocation = RecoveryRevoked recovery_meta | RecoveryNotRevoked string

definition recovery_revoke_actor :: "bool \<Rightarrow> jsval \<Rightarrow> jsval \<Rightarrow> jsval \<Rightarrow> string \<Rightarrow> (string \<times> string \<times> string) res" where
  "recovery_revoke_actor authorizer tenant user actor role =
     bindE (assertIdentityPart recoveryError tenant) (\<lambda>t.
     bindE (assertIdentityPart recoveryError user) (\<lambda>u.
     bindE (assertIdentityPart recoveryError (js_default actor user)) (\<lambda>a.
     bindE (needE (if a = u then role = ''user'' else authorizer) (recoveryError ''FACTOR_SCOPE_VIOLATION'')) (\<lambda>_.
     Inr (t, u, a)))))"

definition recovery_revoke_input :: "bool \<Rightarrow> int option \<Rightarrow> jsval \<Rightarrow> jsval \<Rightarrow> jsval \<Rightarrow> jsval \<Rightarrow> string \<Rightarrow> jsval \<Rightarrow> recovery_state \<Rightarrow>
    (recovery_record \<times> string \<times> string \<times> int) option res" where
  "recovery_revoke_input authorizer clk factorId tenant user actor role reason st =
     bindE (recovery_revoke_actor authorizer tenant user actor role) (\<lambda>(t, u, a).
     bindE (recovery_factor_id factorId) (\<lambda>i.
     (case map_of (rs_factors st) i of None \<Rightarrow> Inr None
      | Some r \<Rightarrow> if rv_tenantId r \<noteq> t \<or> rv_userId r \<noteq> u then Inr None
          else bindE (need_str auth_reason_ok (recoveryError ''INVALID_REASON'') (js_default reason (JStr ''user_request''))) (\<lambda>why.
            bindE (readTime recoveryError clk) (\<lambda>now. Inr (Some (r, a, why, now)))))))"

definition recovery_revoke :: "bool \<Rightarrow> int option \<Rightarrow> jsval \<Rightarrow> jsval \<Rightarrow> jsval \<Rightarrow> jsval \<Rightarrow> string option \<Rightarrow> jsval \<Rightarrow> recovery_state \<Rightarrow>
    recovery_revocation res \<times> recovery_state" where
  "recovery_revoke authorizer clk factorId tenant user actor role reason st =
     (let actorRole = (case role of None \<Rightarrow> ''user'' | Some x \<Rightarrow> x) in
      liftE (recovery_revoke_input authorizer clk factorId tenant user actor actorRole reason st) st (\<lambda>f.
      case f of None \<Rightarrow> (Inr (RecoveryNotRevoked ''FACTOR_NOT_FOUND''), st)
      | Some (r, a, why, now) \<Rightarrow>
         let r1 = r\<lparr>rv_revokedAt := Some now\<rparr> in
         (Inr (RecoveryRevoked (recovery_metadata r1)),
          recovery_audit ''auth.recovery.revoked'' r [(''actorId'', JStr a), (''actorRole'', JStr actorRole),
              (''reason'', JStr why), (''occurredAt'', JInt now)]
            (put_recovery r1 (st\<lparr>rs_attempts := AList.delete (rv_factorId r) (rs_attempts st)\<rparr>)))))"

definition recovery_get :: "jsval \<Rightarrow> recovery_state \<Rightarrow> recovery_meta option res" where
  "recovery_get factorId st = bindE (recovery_factor_id factorId) (\<lambda>i.
     Inr (map_option recovery_metadata (map_of (rs_factors st) i)))"

definition recovery_list :: "jsval \<Rightarrow> jsval \<Rightarrow> recovery_state \<Rightarrow> recovery_meta list res" where
  "recovery_list tenant user st =
     bindE (assertIdentityPart recoveryError tenant) (\<lambda>t. bindE (assertIdentityPart recoveryError user) (\<lambda>u.
     Inr (map recovery_metadata (filter (\<lambda>r. rv_tenantId r = t \<and> rv_userId r = u) (map snd (rs_factors st))))))"

lemmas recovery_defs [code_defs] = recoveryError_def RECOVERY_CODE_ALPHABET_def createRecoveryCodeManager_def
  generateRecoveryCode_def normalizeCode_def recovery_metadata_def put_recovery_def recovery_audit_def
  assertUserActor_def code_key_def recovery_record_of_def recovery_enroll_def recovery_failure_def
  recovery_candidate_def use_code_def consume_record_def recovery_factor_id_def consume_input_def
  recovery_consume_def recovery_revoke_actor_def recovery_revoke_input_def recovery_revoke_def recovery_get_def recovery_list_def

subsection \<open>Codes are used once\<close>

text \<open>The operations as a step relation; the label is the factor and the key of the code accepted.\<close>

inductive recovery_step :: "recovery_options \<Rightarrow> recovery_state \<Rightarrow> (string \<times> string) option \<Rightarrow> recovery_state \<Rightarrow> bool" for opts where
  rstep_enroll: "recovery_step opts st None (snd (recovery_enroll opts idrnds clk rnds tenant user actor role st))"
| rstep_use: "recovery_consume opts limiter clk factorId tenant user code st = (Inr (Recovered m), st1) \<Longrightarrow>
    map_of (rs_factors st) (rm_factorId m) = Some r \<Longrightarrow> normalizeCode code = Some c \<Longrightarrow>
    recovery_candidate (ro_hash opts) r c = Some (k, e) \<Longrightarrow> recovery_step opts st (Some (rm_factorId m, k)) st1"
| rstep_refuse: "recovery_consume opts limiter clk factorId tenant user code st = (x, st1) \<Longrightarrow>
    \<forall>m. x \<noteq> Inr (Recovered m) \<Longrightarrow> recovery_step opts st None st1"
| rstep_revoke: "recovery_step opts st None (snd (recovery_revoke authorizer clk factorId tenant user actor role reason st))"

definition recovery_ok :: "recovery_state \<Rightarrow> bool" where
  "recovery_ok st \<longleftrightarrow> (\<forall>i r. map_of (rs_factors st) i = Some r \<longrightarrow> rv_factorId r = i \<and> distinct (keys (rv_codes r)))"

definition recovery_spent :: "recovery_state \<Rightarrow> string \<times> string \<Rightarrow> bool" where
  "recovery_spent st k \<longleftrightarrow> (\<exists>r e. map_of (rs_factors st) (fst k) = Some r \<and> map_of (rv_codes r) (snd k) = Some e \<and> re_usedAt e \<noteq> None)"

lemma put_recovery_simps [simp]:
  "rs_factors (put_recovery r st) = AList.update (rv_factorId r) r (rs_factors st)"
  "rs_factors (recovery_audit ev r xs st) = rs_factors st"
  by (simp_all add: put_recovery_def recovery_audit_def)

definition recovery_advances :: "recovery_state \<Rightarrow> recovery_state \<Rightarrow> bool" where
  "recovery_advances st st1 \<longleftrightarrow> (recovery_ok st \<longrightarrow> recovery_ok st1) \<and> (\<forall>k. recovery_spent st k \<longrightarrow> recovery_spent st1 k)"

lemma recovery_same: "rs_factors st1 = rs_factors st \<Longrightarrow> recovery_advances st st1"
  by (simp add: recovery_advances_def recovery_ok_def recovery_spent_def)

lemma recovery_advances_update:
  assumes "map_of (rs_factors st) i = Some r" "rv_factorId r1 = i"
    "distinct (keys (rv_codes r)) \<Longrightarrow> distinct (keys (rv_codes r1))"
    "\<And>k e. map_of (rv_codes r) k = Some e \<Longrightarrow> re_usedAt e \<noteq> None \<Longrightarrow> \<exists>e1. map_of (rv_codes r1) k = Some e1 \<and> re_usedAt e1 \<noteq> None"
    "rs_factors st1 = AList.update i r1 (rs_factors st)"
  shows "recovery_advances st st1"
proof -
  have "recovery_ok st1" if "recovery_ok st" using that assms by (auto simp: recovery_ok_def update_conv')
  moreover have "recovery_spent st1 k" if k: "recovery_spent st k" for k
  proof (cases "fst k = i")
    case True
    with k assms(1) obtain e where "map_of (rv_codes r) (snd k) = Some e" "re_usedAt e \<noteq> None" by (auto simp: recovery_spent_def)
    with assms(4) True assms(5) show ?thesis by (fastforce simp: recovery_spent_def update_conv')
  next
    case False
    with k assms(5) show ?thesis by (auto simp: recovery_spent_def update_conv')
  qed
  ultimately show ?thesis by (simp add: recovery_advances_def)
qed

lemma consume_input_Some:
  assumes "consume_input factorId tenant user clk st = Inr (Some (r, now))" "recovery_ok st"
  shows "map_of (rs_factors st) (rv_factorId r) = Some r" "clk = Some now" "distinct (keys (rv_codes r))"
  using assms by (auto simp: consume_input_def recovery_factor_id_def recovery_ok_def split: option.split_asm)

lemma recovery_failure_simps:
  assumes "recovery_failure opts r why now st = (x, st1)"
  shows "rs_factors st1 = rs_factors st" "\<exists>u. x = NotRecovered why u"
  using assms by (auto simp: recovery_failure_def split: prod.split_asm)

lemma consume_record_cases:
  assumes "consume_record opts limiter r now code st = (x, st1)"
  shows "(rs_factors st1 = rs_factors st \<and> (\<exists>why u. x = NotRecovered why u))
    \<or> (\<exists>c k e. normalizeCode code = Some c \<and> recovery_candidate (ro_hash opts) r c = Some (k, e)
        \<and> x = Recovered (recovery_metadata (use_code r k e now))
        \<and> rs_factors st1 = AList.update (rv_factorId r) (use_code r k e now) (rs_factors st))"
proof -
  obtain al ats where al: "allow_attempt limiter (rv_factorId r) now (rs_attempts st) = (al, ats)" by (metis surj_pair)
  have fail: "recovery_failure opts r why now (st\<lparr>rs_attempts := ats\<rparr>) = (x, st1) \<Longrightarrow>
      rs_factors st1 = rs_factors st \<and> (\<exists>why u. x = NotRecovered why u)" for why
    using recovery_failure_simps [of opts r why now "st\<lparr>rs_attempts := ats\<rparr>" x st1] by auto
  show ?thesis
  proof (cases "rv_revokedAt r = None \<and> al")
    case False
    with assms al fail show ?thesis by (auto simp: consume_record_def Let_def split: if_split_asm)
  next
    case True
    note c = assms [unfolded consume_record_def al prod.case Let_def]
    show ?thesis
    proof (cases "normalizeCode code")
      case None
      with c True fail show ?thesis by auto
    next
      case code: (Some cc)
      show ?thesis
      proof (cases "recovery_candidate (ro_hash opts) r cc")
        case None
        with c True code fail show ?thesis by auto
      next
        case (Some ke)
        with c True code show ?thesis by (cases ke) (auto simp: use_code_def)
      qed
    qed
  qed
qed

lemma candidate_entry:
  assumes "recovery_candidate hash r c = Some (k, e)" "distinct (keys (rv_codes r))"
  shows "map_of (rv_codes r) k = Some e" "re_usedAt e = None" "re_digest e = hash (re_salt e) c"
proof -
  have "(k, e) \<in> set (rv_codes r) \<and> re_usedAt e = None \<and> re_digest e = hash (re_salt e) c"
    using assms(1) by (auto simp: recovery_candidate_def find_Some_iff) (metis nth_mem)+
  with assms(2) show "map_of (rv_codes r) k = Some e" "re_usedAt e = None" "re_digest e = hash (re_salt e) c"
    by (auto simp: keys_def intro: map_of_is_SomeI)
qed

lemma use_code_advances:
  assumes "map_of (rs_factors st) (rv_factorId r) = Some r" "distinct (keys (rv_codes r))"
    "recovery_candidate hash r c = Some (k, e)"
    "rs_factors st1 = AList.update (rv_factorId r) (use_code r k e now) (rs_factors st)"
  shows "recovery_advances st st1 \<and> \<not> recovery_spent st (rv_factorId r, k) \<and> recovery_spent st1 (rv_factorId r, k)"
proof -
  note e = candidate_entry [OF assms(3,2)]
  have "recovery_advances st st1"
    using assms(1) _ _ _ assms(4)
    by (rule recovery_advances_update) (auto simp: use_code_def update_conv' keys_def intro: distinct_update)
  with e assms(1,4) show ?thesis by (auto simp: recovery_spent_def use_code_def update_conv')
qed

lemma consume_advances:
  assumes "recovery_consume opts limiter clk factorId tenant user code st = (x, st1)" "recovery_ok st"
  shows "recovery_advances st st1"
    and "x = Inr (Recovered m) \<Longrightarrow> map_of (rs_factors st) (rm_factorId m) = Some r \<Longrightarrow> normalizeCode code = Some c \<Longrightarrow>
      recovery_candidate (ro_hash opts) r c = Some (k, e) \<Longrightarrow>
      \<not> recovery_spent st (rm_factorId m, k) \<and> recovery_spent st1 (rm_factorId m, k)"
proof -
  have "recovery_advances st st1 \<and> (x = Inr (Recovered m) \<longrightarrow> map_of (rs_factors st) (rm_factorId m) = Some r \<longrightarrow>
      normalizeCode code = Some c \<longrightarrow> recovery_candidate (ro_hash opts) r c = Some (k, e) \<longrightarrow>
      \<not> recovery_spent st (rm_factorId m, k) \<and> recovery_spent st1 (rm_factorId m, k))"
  proof (cases "\<exists>r now. consume_input factorId tenant user clk st = Inr (Some (r, now))")
    case False
    then have "st1 = st \<and> x \<noteq> Inr (Recovered m)"
      using assms(1) unfolding recovery_consume_def
      by (cases "consume_input factorId tenant user clk st") (auto split: option.split_asm)
    then show ?thesis by (simp add: recovery_same)
  next
    case True
    then obtain q now where q: "consume_input factorId tenant user clk st = Inr (Some (q, now))" by blast
    note f = consume_input_Some [OF q assms(2)]
    obtain y where y: "consume_record opts limiter q now code st = (y, st1)" "x = Inr y"
      using assms(1) q by (auto simp: recovery_consume_def split: prod.split_asm)
    from consume_record_cases [OF y(1)] show ?thesis
    proof (elim disjE exE conjE)
      fix why u assume "rs_factors st1 = rs_factors st" "y = NotRecovered why u"
      with y show ?thesis by (simp add: recovery_same)
    next
      fix c' k' e'
      assume u: "normalizeCode code = Some c'" "recovery_candidate (ro_hash opts) q c' = Some (k', e')"
        "y = Recovered (recovery_metadata (use_code q k' e' now))"
        "rs_factors st1 = AList.update (rv_factorId q) (use_code q k' e' now) (rs_factors st)"
      from use_code_advances [OF f(1,3) u(2,4)] u y f show ?thesis
        by (auto simp: recovery_metadata_def use_code_def)
    qed
  qed
  then show "recovery_advances st st1" "x = Inr (Recovered m) \<Longrightarrow> map_of (rs_factors st) (rm_factorId m) = Some r \<Longrightarrow> normalizeCode code = Some c \<Longrightarrow>
      recovery_candidate (ro_hash opts) r c = Some (k, e) \<Longrightarrow>
      \<not> recovery_spent st (rm_factorId m, k) \<and> recovery_spent st1 (rm_factorId m, k)" by blast+
qed

lemma issue_codes_distinct:
  "issue_codes hash n i rnds codes clear = Inr (cs, cl) \<Longrightarrow> distinct (keys codes) \<Longrightarrow> distinct (keys cs)"
proof (induction n arbitrary: i rnds codes clear)
  case (Suc n)
  from Suc.prems(1) obtain r s canonical clearCode salt where
    "issue_codes hash n (Suc i) (tl rnds) (AList.update (code_key i salt)
       \<lparr>re_salt = salt, re_digest = hash salt canonical, re_usedAt = None\<rparr> codes) (clear @ [clearCode]) = Inr (cs, cl)"
    by (auto simp: Let_def split: prod.split_asm option.split_asm)
  from Suc.IH [OF this] Suc.prems(2) show ?case by (simp add: keys_def distinct_update)
qed simp

lemma recovery_enroll_advances:
  assumes "recovery_enroll opts idrnds clk rnds tenant user actor role st = (x, st1)"
  shows "recovery_advances st st1"
proof (cases "recovery_record_of opts idrnds clk rnds tenant user actor role (keys (rs_factors st))")
  case (Inl e)
  with assms show ?thesis by (simp add: recovery_enroll_def recovery_same)
next
  case (Inr p)
  obtain r s where p: "p = (r, s)" by (cases p)
  from Inr p have "fresh_factor_id recoveryError ''recovery_'' idrnds (keys (rs_factors st)) 4 = Inr (rv_factorId r)"
    "issue_codes (ro_hash opts) (ro_count opts) 0 rnds [] [] = Inr (rv_codes r, s)"
    by (auto simp: recovery_record_of_def)
  from fresh_factor_id_new [OF this(1)] issue_codes_distinct [OF this(2)]
  have "map_of (rs_factors st) (rv_factorId r) = None" "distinct (keys (rv_codes r))"
    by (simp_all add: keys_def map_of_eq_None_iff)
  moreover have "rs_factors st1 = AList.update (rv_factorId r) r (rs_factors st)"
    using assms Inr p by (auto simp: recovery_enroll_def)
  ultimately show ?thesis by (auto simp: recovery_advances_def recovery_ok_def recovery_spent_def update_conv')
qed

lemma recovery_revoke_advances:
  assumes "recovery_revoke authorizer clk factorId tenant user actor role reason st = (x, st1)" "recovery_ok st"
  shows "recovery_advances st st1"
proof -
  let ?in = "recovery_revoke_input authorizer clk factorId tenant user actor (case role of None \<Rightarrow> ''user'' | Some x \<Rightarrow> x) reason st"
  show ?thesis
  proof (cases "\<exists>r a why now. ?in = Inr (Some (r, a, why, now))")
    case True
    then obtain r a why now where r: "?in = Inr (Some (r, a, why, now))" by blast
    then obtain i where "map_of (rs_factors st) i = Some r"
      by (auto simp: recovery_revoke_input_def guard_iff split: option.split_asm if_split_asm)
    with assms(2) have "map_of (rs_factors st) (rv_factorId r) = Some r" by (simp add: recovery_ok_def)
    moreover have "rs_factors st1 = AList.update (rv_factorId r) (r\<lparr>rv_revokedAt := Some now\<rparr>) (rs_factors st)"
      using assms(1) r by (auto simp: recovery_revoke_def Let_def)
    ultimately show ?thesis
      by (intro recovery_advances_update [of st "rv_factorId r" r "r\<lparr>rv_revokedAt := Some now\<rparr>"]) auto
  next
    case False
    then have "st1 = st" using assms(1)
      by (cases ?in) (auto simp: recovery_revoke_def Let_def split: option.split_asm)
    then show ?thesis by (simp add: recovery_same)
  qed
qed

lemma recovery_step_advances:
  assumes "recovery_step opts s l t" "recovery_ok s"
  shows "recovery_advances s t \<and> (\<forall>k. l = Some k \<longrightarrow> \<not> recovery_spent s k \<and> recovery_spent t k)"
  using assms
proof (induction rule: recovery_step.induct)
  case (rstep_enroll st idrnds clk rnds tenant user actor role)
  then show ?case using recovery_enroll_advances [OF surjective_pairing] by simp
next
  case (rstep_use limiter clk factorId tenant user code st m st1 r c k e)
  from consume_advances(1) [OF rstep_use(1,5)] consume_advances(2) [OF rstep_use(1,5) refl rstep_use(2-4)]
  show ?case by simp
next
  case (rstep_refuse limiter clk factorId tenant user code st x st1)
  then show ?case using consume_advances(1) by blast
next
  case (rstep_revoke st authorizer clk factorId tenant user actor role reason)
  then show ?case using recovery_revoke_advances [OF surjective_pairing] by simp
qed

interpretation recovery: single_use "recovery_step opts" recovery_spent recovery_ok for opts
  by unfold_locales (use recovery_step_advances in \<open>auto simp: recovery_advances_def\<close>)

subsection \<open>Issued codes can be used\<close>

lemma takeWhile_dec: "takeWhile is_digit (dec n @ CHR '':'' # s) = dec n"
proof -
  have "\<not> is_digit CHR '':''" by (simp add: is_digit_def ccode_def)
  with dec_digits [of n] show ?thesis by (simp add: takeWhile_append list_all_iff)
qed

lemma code_key_index: "code_key i s = code_key j t \<Longrightarrow> i = j"
  using takeWhile_dec [of i "base64url s"] takeWhile_dec [of j "base64url t"]
  by (simp add: code_key_def) (metis undec_dec)

text \<open>What the loop has issued: one unused entry per code, holding the hash of the code.\<close>

definition issued :: "code_hash \<Rightarrow> (string \<times> recovery_entry) list \<Rightarrow> string list \<Rightarrow> bool" where
  "issued hash codes clear \<longleftrightarrow> length codes = length clear \<and> (\<forall>p\<in>set codes. re_usedAt (snd p) = None)
     \<and> (\<forall>k\<in>set (keys codes). \<exists>j<length clear. \<exists>salt. k = code_key j salt)
     \<and> (\<forall>c\<in>set clear. \<exists>k e canonical. (k, e) \<in> set codes \<and> normalizeCode (JStr c) = Some canonical \<and> re_digest e = hash (re_salt e) canonical)"

lemma issue_codes_issued:
  "issue_codes hash n (length clear) rnds codes clear = Inr (cs, cl) \<Longrightarrow> issued hash codes clear \<Longrightarrow>
   issued hash cs cl \<and> length cl = length clear + n"
proof (induction n arbitrary: rnds codes clear)
  case (Suc n)
  from Suc.prems(1) obtain clearCode canonical salt where
    n: "normalizeCode (JStr clearCode) = Some canonical" and
    r: "issue_codes hash n (Suc (length clear)) (tl rnds) (AList.update (code_key (length clear) salt)
       \<lparr>re_salt = salt, re_digest = hash salt canonical, re_usedAt = None\<rparr> codes) (clear @ [clearCode]) = Inr (cs, cl)"
    by (auto simp: Let_def split: prod.split_asm option.split_asm)
  let ?k = "code_key (length clear) salt"
  have "?k \<notin> set (keys codes)"
    using Suc.prems(2) code_key_index by (auto simp: issued_def) (metis less_irrefl)
  then have u: "AList.update ?k e codes = codes @ [(?k, e)]" for e by (simp add: update_new_key keys_def)
  let ?e = "\<lparr>re_salt = salt, re_digest = hash salt canonical, re_usedAt = None\<rparr>"
  note old = Suc.prems(2) [unfolded issued_def]
  have "\<exists>j<length (clear @ [clearCode]). \<exists>salt. k = code_key j salt" if "k \<in> set (keys (codes @ [(?k, ?e)]))" for k
  proof (cases "k = ?k")
    case True
    then show ?thesis by (intro exI [of _ "length clear"]) auto
  next
    case False
    with that have "k \<in> set (keys codes)" by (auto simp: keys_def)
    with old obtain j s where "j < length clear" "k = code_key j s" by blast
    then show ?thesis by (intro exI [of _ j]) auto
  qed
  moreover have "\<exists>k e canonical. (k, e) \<in> set (codes @ [(?k, ?e)]) \<and> normalizeCode (JStr c) = Some canonical \<and> re_digest e = hash (re_salt e) canonical"
    if c: "c \<in> set (clear @ [clearCode])" for c
  proof (cases "c = clearCode")
    case True
    with n show ?thesis by (intro exI [of _ ?k] exI [of _ ?e] exI [of _ canonical]) simp
  next
    case False
    with c have "c \<in> set clear" by simp
    with old obtain k e cc where "(k, e) \<in> set codes" "normalizeCode (JStr c) = Some cc" "re_digest e = hash (re_salt e) cc"
      by blast
    then show ?thesis by (intro exI [of _ k] exI [of _ e] exI [of _ cc]) simp
  qed
  moreover have "\<forall>p\<in>set (codes @ [(?k, ?e)]). re_usedAt (snd p) = None" "length (codes @ [(?k, ?e)]) = length (clear @ [clearCode])"
    using old by auto
  ultimately have "issued hash (codes @ [(?k, ?e)]) (clear @ [clearCode])"
    unfolding issued_def by blast
  with Suc.IH [of "clear @ [clearCode]" "tl rnds"] r u show ?case by simp
qed simp

lemma unused_after_use:
  assumes "distinct (map fst xs)" "(k, e) \<in> set xs" "re_usedAt e = None"
  shows "length (filter (\<lambda>p. re_usedAt (snd p) = None) (AList.update k (e\<lparr>re_usedAt := Some t\<rparr>) xs)) + 1
    = length (filter (\<lambda>p. re_usedAt (snd p) = None) xs)"
  using assms
proof (induction xs)
  case (Cons p xs)
  show ?case
  proof (cases "p = (k, e)")
    case False
    obtain k' e' where p: "p = (k', e')" by (cases p)
    from False Cons.prems have k: "(k, e) \<in> set xs" by auto
    with Cons.prems(1) have "k' \<noteq> k" by (force simp: p)
    with Cons.IH [OF _ k Cons.prems(3)] Cons.prems(1) show ?thesis by (simp add: p)
  qed (use Cons.prems in simp)
qed simp

lemma candidate_exists:
  assumes "(k, e) \<in> set (rv_codes r)" "re_usedAt e = None" "re_digest e = hash (re_salt e) c"
  shows "\<exists>k e. recovery_candidate hash r c = Some (k, e) \<and> (k, e) \<in> set (rv_codes r)"
proof -
  have "find (\<lambda>(k, e). re_usedAt e = None \<and> re_digest e = hash (re_salt e) c) (rv_codes r) \<noteq> None"
    using assms by (auto simp: find_None_iff)
  then obtain p where f: "recovery_candidate hash r c = Some p" by (auto simp: recovery_candidate_def)
  then obtain i where "i < length (rv_codes r)" "rv_codes r ! i = p"
    unfolding recovery_candidate_def find_Some_iff by blast
  then have "p \<in> set (rv_codes r)" by (metis nth_mem)
  with f show ?thesis by (cases p) blast
qed

lemma recovery_id_ok: "fresh_factor_id f ''recovery_'' rnds used n = Inr i \<Longrightarrow> factor_id_ok ''recovery_'' i"
proof (induction n arbitrary: rnds)
  case (Suc n)
  have "factor_id_ok ''recovery_'' (''recovery_'' @ base64url bs)" if "length bs = 12" for bs
    using base64url_chars [of bs] base64url_length [of bs] that
    by (auto simp: factor_id_ok_def starts_with_def list_all_iff)
  with Suc show ?case by (auto simp: Let_def split: if_split_asm)
qed simp

lemma recovery_enroll_InrE:
  assumes "recovery_enroll opts idrnds clk rnds tenant user actor role st = (Inr (m, clear), st1)"
  obtains r where "map_of (rs_factors st1) (rv_factorId r) = Some r" "rm_factorId m = rv_factorId r" "rv_revokedAt r = None"
    "rs_attempts st1 = rs_attempts st" "tenant = JStr (rv_tenantId r)" "user = JStr (rv_userId r)"
    "auth_id_ok (rv_tenantId r)" "auth_id_ok (rv_userId r)" "factor_id_ok ''recovery_'' (rv_factorId r)"
    "issued (ro_hash opts) (rv_codes r) clear" "length clear = ro_count opts" "distinct (keys (rv_codes r))"
proof -
  from assms obtain r where p: "recovery_record_of opts idrnds clk rnds tenant user actor role (keys (rs_factors st)) = Inr (r, clear)"
    and r: "m = recovery_metadata r" "map_of (rs_factors st1) (rv_factorId r) = Some r" "rs_attempts st1 = rs_attempts st"
    by (auto simp: recovery_enroll_def put_recovery_def recovery_audit_def update_conv')
  from p have q: "fresh_factor_id recoveryError ''recovery_'' idrnds (keys (rs_factors st)) 4 = Inr (rv_factorId r)"
    "issue_codes (ro_hash opts) (ro_count opts) 0 rnds [] [] = Inr (rv_codes r, clear)" "rv_revokedAt r = None"
    "tenant = JStr (rv_tenantId r)" "user = JStr (rv_userId r)" "auth_id_ok (rv_tenantId r)" "auth_id_ok (rv_userId r)"
    by (auto simp: recovery_record_of_def assertUserActor_def guard_iff)
  have "issued (ro_hash opts) [] []" by (simp add: issued_def keys_def)
  with issue_codes_issued [of "ro_hash opts" "ro_count opts" "[]" rnds "[]"] q(2)
  have "issued (ro_hash opts) (rv_codes r) clear" "length clear = ro_count opts" by auto
  with that [OF r(2)] r q recovery_id_ok [OF q(1)] issue_codes_distinct [OF q(2)] show thesis
    by (auto simp: recovery_metadata_def keys_def)
qed

lemma consume_succeeds:
  assumes "recovery_enroll opts idrnds clk0 rnds tenant user actor role st = (Inr (m, clear), st1)"
    and "\<not> locked_at (rs_attempts st) (rm_factorId m) now" "0 \<le> now" "c \<in> set clear"
    and "normalizeCode typed = normalizeCode (JStr c)"
  shows "\<exists>m1 st2. recovery_consume opts True (Some now) (JStr (rm_factorId m)) tenant user typed st1 = (Inr (Recovered m1), st2)
    \<and> rm_factorId m1 = rm_factorId m \<and> rm_remainingCodes m1 + 1 = ro_count opts"
  using assms(1)
proof (rule recovery_enroll_InrE)
  fix r
  assume r: "map_of (rs_factors st1) (rv_factorId r) = Some r" "rm_factorId m = rv_factorId r" "rv_revokedAt r = None"
    "rs_attempts st1 = rs_attempts st" "tenant = JStr (rv_tenantId r)" "user = JStr (rv_userId r)"
    "auth_id_ok (rv_tenantId r)" "auth_id_ok (rv_userId r)" "factor_id_ok ''recovery_'' (rv_factorId r)"
    "issued (ro_hash opts) (rv_codes r) clear" "length clear = ro_count opts" "distinct (keys (rv_codes r))"
  from r(10) assms(4) obtain k e canonical where c: "(k, e) \<in> set (rv_codes r)" "normalizeCode (JStr c) = Some canonical"
    "re_digest e = ro_hash opts (re_salt e) canonical" and unused: "\<forall>p\<in>set (rv_codes r). re_usedAt (snd p) = None"
    "length (rv_codes r) = length clear" unfolding issued_def by blast
  from candidate_exists [OF c(1), of "ro_hash opts" canonical] c(3) unused c(1) obtain k1 e1 where
    cand: "recovery_candidate (ro_hash opts) r canonical = Some (k1, e1)" "(k1, e1) \<in> set (rv_codes r)" by fastforce
  obtain ats where al: "allow_attempt True (rv_factorId r) now (rs_attempts st1) = (True, ats)"
    using assms(2) r(2,4) by (simp add: allow_attempt_def)
  have "assertIdentityPart recoveryError tenant = Inr (rv_tenantId r)" "assertIdentityPart recoveryError user = Inr (rv_userId r)"
    "recovery_factor_id (JStr (rm_factorId m)) = Inr (rv_factorId r)" using r by (simp_all add: recovery_factor_id_def)
  then have input: "consume_input (JStr (rm_factorId m)) tenant user (Some now) st1 = Inr (Some (r, now))"
    using r(1) assms(3) by (simp add: consume_input_def needE_def readTime_def)
  have "normalizeCode typed = Some canonical" using c(2) assms(5) by simp
  then obtain st2 where "consume_record opts True r now typed st1 = (Recovered (recovery_metadata (use_code r k1 e1 now)), st2)"
    using r(3) al cand(1) by (simp add: consume_record_def Let_def)
  moreover have "length (filter (\<lambda>p. re_usedAt (snd p) = None) (rv_codes r)) = ro_count opts"
    using unused r(11) by (simp add: filter_id_conv)
  then have "rm_remainingCodes (recovery_metadata (use_code r k1 e1 now)) + 1 = ro_count opts"
    using unused_after_use [OF _ cand(2), of now] r(12) unused(1) cand(2) by (auto simp: recovery_metadata_def use_code_def keys_def)
  ultimately show ?thesis using input r(2)
    by (simp add: recovery_consume_def recovery_metadata_def use_code_def)
qed

lemma spent_bounded:
  assumes "distinct ks" "\<forall>k\<in>set ks. recovery_spent st k" "map_of (rs_factors st) i = Some r"
  shows "length (filter (\<lambda>k. fst k = i) ks) \<le> length (rv_codes r)"
proof -
  have "snd ` set (filter (\<lambda>k. fst k = i) ks) \<subseteq> set (keys (rv_codes r))"
  proof (rule subsetI)
    fix b assume "b \<in> snd ` set (filter (\<lambda>k. fst k = i) ks)"
    then have "recovery_spent st (i, b)" using assms(2) by force
    with assms(3) obtain e where "map_of (rv_codes r) b = Some e" by (auto simp: recovery_spent_def)
    from map_of_SomeD [OF this] show "b \<in> set (keys (rv_codes r))" by (force simp: keys_def)
  qed
  moreover have "inj_on snd (set (filter (\<lambda>k. fst k = i) ks))" by (auto simp: inj_on_def)
  ultimately have "card (set (filter (\<lambda>k. fst k = i) ks)) \<le> card (set (keys (rv_codes r)))"
    using card_inj_on_le by blast
  moreover have "card (set (filter (\<lambda>k. fst k = i) ks)) = length (filter (\<lambda>k. fst k = i) ks)"
    using assms(1) by (intro distinct_card) simp
  moreover have "card (set (keys (rv_codes r))) \<le> length (rv_codes r)" using card_length [of "keys (rv_codes r)"] by (simp add: keys_def)
  ultimately show ?thesis by linarith
qed

subsection \<open>A concrete manager\<close>

definition example_recovery :: recovery_options where
  "example_recovery = \<lparr>ro_count = 5, ro_maxFailures = 5, ro_lockoutMs = 900000, ro_hash = (\<lambda>salt s. salt)\<rparr>"

definition empty_recovery :: recovery_state where
  "empty_recovery = \<lparr>rs_factors = [], rs_attempts = [], rs_audit = []\<rparr>"

definition example_issue :: "(recovery_meta \<times> string list) res \<times> recovery_state" where
  "example_issue = recovery_enroll example_recovery [Some (replicate 12 1)] (Some 1000)
     (replicate 5 (Some (replicate 10 0), Some (replicate 16 3))) (JStr ''t1'') (JStr ''ada'') JUndef None empty_recovery"

lemma recovery_alphabet: "length RECOVERY_CODE_ALPHABET = 32"
  "list_all (\<lambda>c. upper_char c = [c] \<and> \<not> is_space c \<and> c \<noteq> CHR ''-'' \<and> one_of RECOVERY_CODE_ALPHABET c) RECOVERY_CODE_ALPHABET"
  by code_simp+

lemma quarters:
  assumes "length s = 16"
  shows "take 4 s @ take 4 (drop 4 s) @ take 4 (drop 8 s) @ take 4 (drop 12 s) = s"
proof -
  have "take 4 (drop 12 s) = drop 12 s" using assms by simp
  moreover have "take 4 (drop 8 s) @ drop 12 s = drop 8 s" using append_take_drop_id [of 4 "drop 8 s", unfolded drop_drop] by simp
  moreover have "take 4 (drop 4 s) @ drop 8 s = drop 4 s" using append_take_drop_id [of 4 "drop 4 s", unfolded drop_drop] by simp
  moreover have "take 4 s @ drop 4 s = s" by (rule append_take_drop_id)
  ultimately show ?thesis by (simp only:)
qed

text \<open>A generated code is accepted in the form it is shown in.\<close>

lemma generated_recovery_code:
  assumes "length bs = 10"
  shows "\<exists>c. generateRecoveryCode (Some bs) = Inr c \<and> normalizeCode (JStr c) = Some (enc_alphabet 5 RECOVERY_CODE_ALPHABET bs)"
proof -
  let ?s = "enc_alphabet 5 RECOVERY_CODE_ALPHABET bs"
  let ?c = "take 4 ?s @ ''-'' @ take 4 (drop 4 ?s) @ ''-'' @ take 4 (drop 8 ?s) @ ''-'' @ take 4 (drop 12 ?s)"
  have len: "length ?s = 16" using assms by (simp add: enc_alphabet_length)
  have ok: "\<forall>c\<in>set ?s. upper_char c = [c] \<and> \<not> is_space c \<and> c \<noteq> CHR ''-'' \<and> one_of RECOVERY_CODE_ALPHABET c"
    using enc_alphabet_set [of 5 RECOVERY_CODE_ALPHABET bs] recovery_alphabet by (auto simp: list_all_iff)
  have part: "filter (\<lambda>c. \<not> (is_space c \<or> c = CHR ''-'')) (take n (drop m ?s)) = take n (drop m ?s)" for n m
    using ok by (intro filter_True) (auto dest: in_set_takeD in_set_dropD)
  have "filter (\<lambda>c. \<not> (is_space c \<or> c = CHR ''-'')) ?c = take 4 ?s @ take 4 (drop 4 ?s) @ take 4 (drop 8 ?s) @ take 4 (drop 12 ?s)"
    using part [of 4 0] part [of 4 4] part [of 4 8] part [of 4 12] by simp
  also have "\<dots> = ?s"
    by (rule quarters [OF len])
  finally have f: "filter (\<lambda>c. \<not> (is_space c \<or> c = CHR ''-'')) ?c = ?s" .
  have "upper ?s = ?s" using ok by (intro upper_fixed) simp
  then have "normalizeCode (JStr ?c) = Some ?s"
    using f len ok by (simp add: normalizeCode_def Let_def list_all_iff)
  moreover have "generateRecoveryCode (Some bs) = Inr ?c"
    using assms len by (simp add: generateRecoveryCode_def assertRandomBytes_def Let_def)
  ultimately show ?thesis by blast
qed

lemma issue_codes_total:
  assumes "length rnds = n" "\<forall>p\<in>set rnds. \<exists>a b. p = (Some a, Some b) \<and> length a = 10 \<and> length b = 16"
  shows "\<exists>cs cl. issue_codes hash n i rnds codes clear = Inr (cs, cl)"
  using assms
proof (induction n arbitrary: i rnds codes clear)
  case (Suc n)
  then obtain p ps where p: "rnds = p # ps" by (cases rnds) auto
  with Suc.prems obtain a b where ab: "p = (Some a, Some b)" "length a = 10" "length b = 16" by auto
  obtain c where c: "generateRecoveryCode (Some a) = Inr c" "normalizeCode (JStr c) = Some (enc_alphabet 5 RECOVERY_CODE_ALPHABET a)"
    using generated_recovery_code [OF ab(2)] by blast
  have "assertRandomBytes recoveryError (Some b) 16 = Inr b" using ab(3) by simp
  with Suc.IH [of ps] Suc.prems c ab p show ?case by simp
qed simp

lemma example_count: "ro_count example_recovery = 5"
  by (simp add: example_recovery_def)

lemma example_issued: "\<exists>m clear st. example_issue = (Inr (m, clear), st) \<and> clear \<noteq> []"
proof -
  have id: "assertUserActor (JStr ''t1'') (JStr ''ada'') JUndef None = Inr (''t1'', ''ada'')" by code_simp
  obtain cs cl where c: "issue_codes (ro_hash example_recovery) 5 0 (replicate 5 (Some (replicate 10 0), Some (replicate 16 3))) [] [] = Inr (cs, cl)"
    using issue_codes_total [of "replicate 5 (Some (replicate 10 0), Some (replicate 16 3))" 5 "ro_hash example_recovery" 0 "[]" "[]"] by auto
  have "issued (ro_hash example_recovery) [] []" by (simp add: issued_def keys_def)
  with issue_codes_issued [of "ro_hash example_recovery" 5 "[]" _ "[]" cs cl] c have "length cl = 5" by auto
  moreover have "fresh_factor_id recoveryError ''recovery_'' [Some (replicate 12 1)] [] 4 = Inr (''recovery_'' @ base64url (replicate 12 1))"
    by (simp add: numeral_eq_Suc assertRandomBytes_def Let_def)
  ultimately show ?thesis using id c
    by (auto simp: example_issue_def recovery_enroll_def recovery_record_of_def readTime_def empty_recovery_def keys_def example_count)
qed

lemma consume_step:
  assumes "recovery_consume opts limiter clk factorId tenant user code st = (Inr (Recovered m), st1)" "recovery_ok st"
  shows "\<exists>k. recovery_step opts st (Some (rm_factorId m, k)) st1"
proof -
  obtain r now where r: "consume_input factorId tenant user clk st = Inr (Some (r, now))"
    using assms(1) by (cases "consume_input factorId tenant user clk st") (auto simp: recovery_consume_def split: option.split_asm)
  with assms(1) have "consume_record opts limiter r now code st = (Recovered m, st1)"
    by (auto simp: recovery_consume_def split: prod.split_asm)
  from consume_record_cases [OF this] obtain c k e where c: "normalizeCode code = Some c"
    "recovery_candidate (ro_hash opts) r c = Some (k, e)" "m = recovery_metadata (use_code r k e now)" by auto
  then have "rm_factorId m = rv_factorId r" by (simp add: recovery_metadata_def use_code_def)
  with rstep_use [OF assms(1) _ c(1,2)] consume_input_Some(1) [OF r assms(2)] show ?thesis by auto
qed

lemma example_run: "\<exists>k st. use_run (recovery_step example_recovery) empty_recovery [k] st"
proof -
  obtain m clear st1 where e: "example_issue = (Inr (m, clear), st1)" "clear \<noteq> []" using example_issued by blast
  have ok: "recovery_ok empty_recovery" by (simp add: recovery_ok_def empty_recovery_def)
  have step: "recovery_step example_recovery empty_recovery None (snd example_issue)"
    unfolding example_issue_def by (rule rstep_enroll)
  have "snd example_issue = st1" by (simp only: e(1) snd_conv)
  with step have step1: "recovery_step example_recovery empty_recovery None st1" by (simp only:)
  have "\<not> locked_at (rs_attempts empty_recovery) (rm_factorId m) 2000" by (simp add: locked_at_def empty_recovery_def)
  from consume_succeeds [OF e(1) [unfolded example_issue_def] this, of "hd clear" "JStr (hd clear)"] e(2)
  obtain m1 st2 where "recovery_consume example_recovery True (Some 2000) (JStr (rm_factorId m)) (JStr ''t1'') (JStr ''ada'') (JStr (hd clear)) st1
    = (Inr (Recovered m1), st2)" by auto
  from consume_step [OF this recovery.stays_good [OF ok step1]]
  obtain k where "recovery_step example_recovery st1 (Some (rm_factorId m1, k)) st2" ..
  from run_use [where step = "recovery_step example_recovery", OF run_other [where step = "recovery_step example_recovery", OF run_none step1] this]
  show ?thesis by (simp only: append_Nil) blast
qed

subsection \<open>Properties\<close>

text \<open>C21 A recovery code is used once: in any sequence of enrollments, recoveries and revocations no code
  of a factor is accepted twice, none that was used before is accepted, and a factor is recovered at
  most as often as it has codes.\<close>

theorem recovery_codes_are_used_once:
  assumes "use_run (recovery_step opts) st ks st1" "recovery_ok st"
  shows "distinct ks \<and> (\<forall>k\<in>set ks. \<not> recovery_spent st k \<and> recovery_spent st1 k)
    \<and> (\<forall>i r. map_of (rs_factors st1) i = Some r \<longrightarrow> length (filter (\<lambda>k. fst k = i) ks) \<le> length (rv_codes r))"
  using recovery.run_spends [OF assms] spent_bounded [of ks st1] by blast

lemma recovery_codes_are_used_once_witness:
  "\<exists>k st1. use_run (recovery_step example_recovery) empty_recovery [k] st1 \<and> recovery_spent st1 k \<and> \<not> recovery_spent empty_recovery k"
proof -
  obtain k st where run: "use_run (recovery_step example_recovery) empty_recovery [k] st"
    using example_run by blast
  have "recovery_ok empty_recovery" by (simp add: recovery_ok_def empty_recovery_def)
  from recovery_codes_are_used_once [OF run this] run show ?thesis by (intro exI [of _ k] exI [of _ st]) simp
qed

text \<open>Every code handed out recovers the account: right after an enrollment, unless the attempts of the
  factor are locked, each of the codes given to the user is accepted however it is typed (case, spaces
  and dashes do not matter), and exactly one code less remains.\<close>

theorem issued_codes_recover:
  assumes "recovery_enroll opts idrnds clk0 rnds tenant user actor role st = (Inr (m, clear), st1)"
    and "\<not> locked_at (rs_attempts st) (rm_factorId m) now" "0 \<le> now" "c \<in> set clear"
    and "normalizeCode typed = normalizeCode (JStr c)"
  shows "\<exists>m1 st2. recovery_consume opts True (Some now) (JStr (rm_factorId m)) tenant user typed st1 = (Inr (Recovered m1), st2)
    \<and> rm_factorId m1 = rm_factorId m \<and> rm_remainingCodes m1 + 1 = ro_count opts"
  using consume_succeeds [OF assms] .

lemma issued_codes_recover_witness:
  "\<exists>m clear st1 m1 st2. example_issue = (Inr (m, clear), st1)
    \<and> recovery_consume example_recovery True (Some 2000) (JStr (rm_factorId m)) (JStr ''t1'') (JStr ''ada'') (JStr (hd clear)) st1 = (Inr (Recovered m1), st2)
    \<and> rm_remainingCodes m1 = 4"
proof -
  obtain m clear st1 where e: "example_issue = (Inr (m, clear), st1)" "clear \<noteq> []" using example_issued by blast
  have "\<not> locked_at (rs_attempts empty_recovery) (rm_factorId m) 2000" by (simp add: locked_at_def empty_recovery_def)
  from issued_codes_recover [OF e(1) [unfolded example_issue_def] this, of "hd clear" "JStr (hd clear)"] e
  show ?thesis by (simp add: example_count) metis
qed

end
