(* ===== verification/Web_Sessions.thy ===== *)
theory Web_Sessions
  imports Tenant_Context Auth_Factors
begin

section \<open>Web sessions\<close>

text \<open>
  \<open>src/web/security/session-manager.ts\<close>: the sessions of the web client and their cookie.  The store is
  an association list; every call of \<open>clock()\<close> is an argument of its own, the time it returns or
  \<open>None\<close>, and the random bytes are an argument, one list entry per call.  \<open>serializeSessionCookie\<close>
  compares objects: its argument \<open>same\<close> says whether the caller passed the very object that is stored.
  How a date prints as \<open>Expires\<close> is the parameter \<open>utc\<close>.
\<close>

record web_session =
  ws_sessionId :: string
  ws_userId :: string
  ws_tenantId :: string
  ws_domain :: string
  ws_actorId :: "string option"
  ws_role :: role
  ws_context :: tenant_context
  ws_createdAt :: int
  ws_lastSeenAt :: int
  ws_expiresAt :: int

record session_manager =
  sm_ttlMs :: int
  sm_cookieName :: string
  sm_sameSite :: string
  sm_store :: "(string \<times> web_session) list"

definition securityError :: "string \<Rightarrow> err" where
  "securityError code = Err WebSecurityErr code 0"

subsection \<open>Checks\<close>

definition session_id_ok :: "string \<Rightarrow> bool" where
  "session_id_ok s \<longleftrightarrow> length s = 43 \<and> list_all url_char s"

definition normalizeRandomBytes :: "bytes option \<Rightarrow> string res" where
  "normalizeRandomBytes rnd = bindE (assertRandomBytes securityError rnd 32) (\<lambda>bs. Inr (base64url bs))"

definition assertSessionId :: "jsval \<Rightarrow> string res" where
  "assertSessionId v = need_str session_id_ok (securityError ''SESSION_INVALID'') v"

definition assertUserId :: "jsval \<Rightarrow> string res" where
  "assertUserId v = need_str actor_id_ok (securityError ''INVALID_IDENTITY'') v"

definition assertTtl :: "int \<Rightarrow> jsval \<Rightarrow> int res" where
  "assertTtl maximum v = need_int (\<lambda>n. 1 \<le> n \<and> n \<le> maximum) (securityError ''INVALID_TTL'') v"

definition cookie_name_char :: "char \<Rightarrow> bool" where
  "cookie_name_char c \<longleftrightarrow> is_alnum c \<or> one_of ''!#$%&*+.^_`|~-'' c \<or> ccode c = 39"

definition cookie_config_ok :: "string \<Rightarrow> bool \<Rightarrow> string \<Rightarrow> string \<Rightarrow> bool \<Rightarrow> bool" where
  "cookie_config_ok name secure sameSite path has_domain \<longleftrightarrow> name \<noteq> [] \<and> list_all cookie_name_char name \<and> secure
     \<and> sameSite \<in> {''Strict'', ''Lax'', ''None''} \<and> path = ''/'' \<and> \<not> has_domain"

text \<open>One part of the header: its name and its value, if it has both.\<close>

definition cookie_part :: "string \<Rightarrow> (string \<times> string) option" where
  "cookie_part part = (let name = takeWhile (\<lambda>c. c \<noteq> CHR ''='') part in
     if CHR ''='' \<notin> set part \<or> name = [] then None
     else Some (trim name, trim (drop (Suc (length name)) part)))"

text \<open>The loop: \<open>None\<close> when the cookie occurs twice.\<close>

fun select_cookie :: "string \<Rightarrow> string list \<Rightarrow> string option \<Rightarrow> string option" where
  "select_cookie name [] selected = selected"
| "select_cookie name (part # parts) selected = (case cookie_part part of
     Some (n, v) \<Rightarrow>
       if n = name then (if selected \<noteq> None then None else select_cookie name parts (Some v))
       else select_cookie name parts selected
   | None \<Rightarrow> select_cookie name parts selected)"

definition parseCookieHeader :: "jsval \<Rightarrow> string \<Rightarrow> string option" where
  "parseCookieHeader header name = (case js_str header of None \<Rightarrow> None
     | Some s \<Rightarrow> if 8192 < byte_length s then None
         else select_cookie name (split_by (\<lambda>c. c = CHR '';'') s) None)"

subsection \<open>Operations\<close>

definition createSessionManager :: "jsval \<Rightarrow> string \<Rightarrow> bool \<Rightarrow> string \<Rightarrow> string \<Rightarrow> bool \<Rightarrow> session_manager res" where
  "createSessionManager ttlMs name secure sameSite path has_domain =
     bindE (assertTtl 2592000000 ttlMs) (\<lambda>ttl.
     if cookie_config_ok name secure sameSite path has_domain
     then Inr \<lparr>sm_ttlMs = ttl, sm_cookieName = name, sm_sameSite = sameSite, sm_store = []\<rparr>
     else Inl (securityError ''INVALID_COOKIE_CONFIGURATION''))"

fun fresh_session_id :: "bytes option list \<Rightarrow> string list \<Rightarrow> nat \<Rightarrow> string res" where
  "fresh_session_id rnds used 0 = Inl (securityError ''SESSION_GENERATION_FAILED'')"
| "fresh_session_id rnds used (Suc n) =
     bindE (normalizeRandomBytes (case rnds of [] \<Rightarrow> None | r # _ \<Rightarrow> r)) (\<lambda>candidate.
       if candidate \<in> set used then fresh_session_id (tl rnds) used n else Inr candidate)"

definition session_context :: "jsval \<Rightarrow> tenant_context res" where
  "session_context identity = (case createTenantContext (JObj [(''tenantId'', jget identity ''tenantId''),
       (''domain'', jget identity ''domain''),
       (''actorId'', js_or_else (jget identity ''actorId'') (jget identity ''userId'')),
       (''role'', js_or_else (jget identity ''role'') (JStr ''user''))]) of
     Inl _ \<Rightarrow> Inl (securityError ''INVALID_IDENTITY'') | Inr c \<Rightarrow> Inr c)"

definition new_session :: "session_manager \<Rightarrow> bytes option list \<Rightarrow> int option \<Rightarrow> jsval \<Rightarrow> web_session res" where
  "new_session sm rnds clk identity =
     (if identity = JUndef then Inl (securityError ''INVALID_IDENTITY'')
      else bindE (assertUserId (jget identity ''userId'')) (\<lambda>u.
        bindE (session_context identity) (\<lambda>c.
        bindE (readTime securityError clk) (\<lambda>now.
        bindE (fresh_session_id rnds (keys (sm_store sm)) 4) (\<lambda>i.
        Inr \<lparr>ws_sessionId = i, ws_userId = u, ws_tenantId = tc_tenantId c, ws_domain = tc_domain c,
          ws_actorId = tc_actorId c, ws_role = tc_role c, ws_context = c, ws_createdAt = now, ws_lastSeenAt = now,
          ws_expiresAt = now + sm_ttlMs sm\<rparr>)))))"

definition createSession :: "bytes option list \<Rightarrow> int option \<Rightarrow> jsval \<Rightarrow> session_manager \<Rightarrow> web_session res \<times> session_manager" where
  "createSession rnds clk identity sm = liftE (new_session sm rnds clk identity) sm (\<lambda>s.
     (Inr s, sm\<lparr>sm_store := AList.update (ws_sessionId s) s (sm_store sm)\<rparr>))"

definition drop_session :: "string \<Rightarrow> session_manager \<Rightarrow> session_manager" where
  "drop_session i sm = sm\<lparr>sm_store := AList.delete i (sm_store sm)\<rparr>"

definition getActiveSession :: "int option \<Rightarrow> jsval \<Rightarrow> session_manager \<Rightarrow> web_session option res \<times> session_manager" where
  "getActiveSession clk sessionId sm = (case js_str sessionId of None \<Rightarrow> (Inr None, sm)
     | Some i \<Rightarrow> if \<not> session_id_ok i then (Inr None, sm)
         else (case map_of (sm_store sm) i of None \<Rightarrow> (Inr None, sm)
           | Some s \<Rightarrow> liftE (readTime securityError clk) sm (\<lambda>now.
               if ws_expiresAt s \<le> now then (Inr None, drop_session i sm) else (Inr (Some s), sm))))"

definition serializeSessionCookie :: "(int \<Rightarrow> string) \<Rightarrow> int option \<Rightarrow> int option \<Rightarrow> bool \<Rightarrow> jsval \<Rightarrow> session_manager \<Rightarrow>
    string res \<times> session_manager" where
  "serializeSessionCookie utc clk1 clk2 same sessionId sm =
     liftE (assertSessionId sessionId) sm (\<lambda>i.
     bindS (getActiveSession clk1 (JStr i)) (\<lambda>f sm1. case f of
       None \<Rightarrow> (Inl (securityError ''SESSION_INVALID''), sm1)
     | Some s \<Rightarrow> if \<not> same then (Inl (securityError ''SESSION_INVALID''), sm1)
         else liftE (readTime securityError clk2) sm1 (\<lambda>now.
           (Inr (sm_cookieName sm1 @ ''='' @ i @ ''; Path=/; HttpOnly; Secure; SameSite='' @ sm_sameSite sm1
             @ ''; Max-Age='' @ dec (nat (max 0 ((ws_expiresAt s - now + 999) div 1000)))
             @ ''; Expires='' @ utc (ws_expiresAt s)), sm1))) sm)"

definition clearSessionCookie :: "session_manager \<Rightarrow> string" where
  "clearSessionCookie sm = sm_cookieName sm @ ''=; Path=/; HttpOnly; Secure; SameSite='' @ sm_sameSite sm
     @ ''; Max-Age=0; Expires=Thu, 01 Jan 1970 00:00:00 GMT''"

definition authenticateCookie :: "int option \<Rightarrow> jsval \<Rightarrow> session_manager \<Rightarrow> web_session option res \<times> session_manager" where
  "authenticateCookie clk header sm = (case parseCookieHeader header (sm_cookieName sm) of
     None \<Rightarrow> (Inr None, sm) | Some i \<Rightarrow> getActiveSession clk (JStr i) sm)"

definition requireSession :: "int option \<Rightarrow> jsval \<Rightarrow> session_manager \<Rightarrow> web_session res \<times> session_manager" where
  "requireSession clk header = bindS (authenticateCookie clk header) (\<lambda>f. case f of
     None \<Rightarrow> pureS (Inl (securityError ''SESSION_INVALID'')) | Some s \<Rightarrow> pureS (Inr s))"

definition invalidate :: "jsval \<Rightarrow> session_manager \<Rightarrow> bool \<times> session_manager" where
  "invalidate sessionId sm = (case js_str sessionId of None \<Rightarrow> (False, sm)
     | Some i \<Rightarrow> if session_id_ok i then (i \<in> set (keys (sm_store sm)), drop_session i sm) else (False, sm))"

definition logout :: "jsval \<Rightarrow> session_manager \<Rightarrow> (string option \<times> bool \<times> string) \<times> session_manager" where
  "logout header sm = (case parseCookieHeader header (sm_cookieName sm) of
     None \<Rightarrow> ((None, False, clearSessionCookie sm), sm)
   | Some i \<Rightarrow> (case invalidate (JStr i) sm of (b, sm1) \<Rightarrow> ((Some i, b, clearSessionCookie sm), sm1)))"

definition next_identity :: "web_session \<Rightarrow> jsval \<Rightarrow> jsval" where
  "next_identity s overrides = JObj [
     (''tenantId'', js_or_else (jget overrides ''tenantId'') (JStr (ws_tenantId s))),
     (''domain'', js_or_else (jget overrides ''domain'') (JStr (ws_domain s))),
     (''userId'', js_or_else (jget overrides ''userId'') (JStr (ws_userId s))),
     (''role'', js_or_else (jget overrides ''role'') (JStr (role_name (ws_role s)))),
     (''actorId'', js_or_else (jget overrides ''actorId'') (js_or_else (opt_js (ws_actorId s)) (JStr (ws_userId s))))]"

definition same_binding :: "web_session \<Rightarrow> jsval \<Rightarrow> bool" where
  "same_binding s identity \<longleftrightarrow> jget identity ''tenantId'' = JStr (ws_tenantId s) \<and> jget identity ''domain'' = JStr (ws_domain s)
     \<and> jget identity ''userId'' = JStr (ws_userId s) \<and> jget identity ''role'' = JStr (role_name (ws_role s))
     \<and> jget identity ''actorId'' = opt_js (ws_actorId s)"

definition rotate_session :: "bytes option list \<Rightarrow> int option \<Rightarrow> int option \<Rightarrow> jsval \<Rightarrow> jsval \<Rightarrow> session_manager \<Rightarrow> web_session res \<times> session_manager" where
  "rotate_session rnds clk1 clk2 sessionId overrides =
     bindS (getActiveSession clk1 sessionId) (\<lambda>f. case f of
       None \<Rightarrow> pureS (Inl (securityError ''SESSION_INVALID''))
     | Some old \<Rightarrow>
         if \<not> same_binding old (next_identity old overrides) then pureS (Inl (securityError ''SESSION_BINDING_VIOLATION''))
         else bindS (createSession rnds clk2 (next_identity old overrides)) (\<lambda>s sm.
           (Inr s, snd (invalidate (JStr (ws_sessionId old)) sm))))"

definition invalidateUserSessions :: "jsval \<Rightarrow> jsval \<Rightarrow> session_manager \<Rightarrow> nat res \<times> session_manager" where
  "invalidateUserSessions tenantId userId sm = liftE (assertUserId userId) sm (\<lambda>u.
     let hit = (\<lambda>p. JStr (ws_tenantId (snd p)) = tenantId \<and> ws_userId (snd p) = u) in
     (Inr (length (filter hit (sm_store sm))), sm\<lparr>sm_store := filter (\<lambda>p. \<not> hit p) (sm_store sm)\<rparr>))"

definition purgeExpired :: "int option \<Rightarrow> session_manager \<Rightarrow> nat res \<times> session_manager" where
  "purgeExpired clk sm = liftE (readTime securityError clk) sm (\<lambda>now.
     (Inr (length (filter (\<lambda>p. ws_expiresAt (snd p) \<le> now) (sm_store sm))),
      sm\<lparr>sm_store := filter (\<lambda>p. \<not> ws_expiresAt (snd p) \<le> now) (sm_store sm)\<rparr>))"

lemmas session_defs [code_defs] = securityError_def session_id_ok_def normalizeRandomBytes_def assertSessionId_def
  assertUserId_def assertTtl_def cookie_name_char_def cookie_config_ok_def cookie_part_def
  parseCookieHeader_def createSessionManager_def session_context_def new_session_def createSession_def drop_session_def
  getActiveSession_def serializeSessionCookie_def clearSessionCookie_def authenticateCookie_def requireSession_def
  invalidate_def logout_def next_identity_def same_binding_def rotate_session_def invalidateUserSessions_def purgeExpired_def

subsection \<open>Lookups\<close>

lemma getActiveSession_Some:
  assumes "getActiveSession clk v sm = (Inr (Some s), sm1)"
  shows "\<exists>i now. v = JStr i \<and> clk = Some now \<and> now < ws_expiresAt s \<and> map_of (sm_store sm) i = Some s \<and> sm1 = sm \<and> session_id_ok i"
  using assms by (auto simp: getActiveSession_def split: option.split_asm if_split_asm)

lemma getActiveSession_store:
  "getActiveSession clk v sm = (r, sm1) \<Longrightarrow> sm1 = sm \<or> (\<exists>i. sm1 = drop_session i sm)"
  by (auto simp: getActiveSession_def elim!: liftE_cases split: option.split_asm if_split_asm)

lemma new_session_Inr:
  assumes "new_session sm rnds clk identity = Inr s"
  shows "ws_sessionId s \<notin> set (keys (sm_store sm))" "session_id_ok (ws_sessionId s)"
    "ws_expiresAt s = ws_createdAt s + sm_ttlMs sm" "clk = Some (ws_createdAt s)"
    "jget identity ''userId'' = JStr (ws_userId s)" "jget identity ''tenantId'' = JStr (ws_tenantId s)"
    "lower (ws_domain s) = ws_domain s"
    "\<exists>c. session_context identity = Inr c \<and> ws_tenantId s = tc_tenantId c \<and> ws_domain s = tc_domain c
      \<and> ws_actorId s = tc_actorId c \<and> ws_role s = tc_role c"
proof -
  have fresh: "i \<notin> set used \<and> session_id_ok i" if "fresh_session_id rnds used n = Inr i" for rnds used n i
    using that
  proof (induction n arbitrary: rnds)
    case (Suc n)
    have "session_id_ok (base64url bs)" if "length bs = 32" for bs
      using that base64url_length [of bs] base64url_chars [of bs] by (auto simp: session_id_ok_def list_all_iff)
    with Suc show ?case by (auto simp: normalizeRandomBytes_def split: if_split_asm)
  qed simp
  from assms obtain c where c: "session_context identity = Inr c" "ws_tenantId s = tc_tenantId c" "ws_domain s = tc_domain c"
      "ws_actorId s = tc_actorId c" "ws_role s = tc_role c"
    and f: "fresh_session_id rnds (keys (sm_store sm)) 4 = Inr (ws_sessionId s)" "ws_expiresAt s = ws_createdAt s + sm_ttlMs sm"
      "clk = Some (ws_createdAt s)" "jget identity ''userId'' = JStr (ws_userId s)"
    by (auto simp: new_session_def assertUserId_def split: if_split_asm)
  from c(1) have "jget identity ''tenantId'' = JStr (tc_tenantId c)" "lower (tc_domain c) = tc_domain c"
    by (auto simp: session_context_def dest: createTenantContext_Inr(1,3) split: sum.split_asm)
  with c f fresh [OF f(1)] show "ws_sessionId s \<notin> set (keys (sm_store sm))" "session_id_ok (ws_sessionId s)"
    "ws_expiresAt s = ws_createdAt s + sm_ttlMs sm" "clk = Some (ws_createdAt s)"
    "jget identity ''userId'' = JStr (ws_userId s)" "jget identity ''tenantId'' = JStr (ws_tenantId s)"
    "lower (ws_domain s) = ws_domain s"
    "\<exists>c. session_context identity = Inr c \<and> ws_tenantId s = tc_tenantId c \<and> ws_domain s = tc_domain c
      \<and> ws_actorId s = tc_actorId c \<and> ws_role s = tc_role c" by auto
qed

subsection \<open>The invariant of the store\<close>

definition sessions_ok :: "session_manager \<Rightarrow> bool" where
  "sessions_ok sm \<longleftrightarrow> distinct (keys (sm_store sm)) \<and> (\<forall>(i, s)\<in>set (sm_store sm). ws_sessionId s = i \<and> session_id_ok i
     \<and> ws_expiresAt s = ws_createdAt s + sm_ttlMs sm \<and> lower (ws_domain s) = ws_domain s)"

inductive session_reach :: "session_manager \<Rightarrow> bool" where
  reach_new: "createSessionManager ttl name secure same path has_domain = Inr sm \<Longrightarrow> session_reach sm"
| reach_create: "session_reach sm \<Longrightarrow> session_reach (snd (createSession rnds clk identity sm))"
| reach_get: "session_reach sm \<Longrightarrow> session_reach (snd (getActiveSession clk v sm))"
| reach_serialize: "session_reach sm \<Longrightarrow> session_reach (snd (serializeSessionCookie utc clk1 clk2 same v sm))"
| reach_auth: "session_reach sm \<Longrightarrow> session_reach (snd (authenticateCookie clk h sm))"
| reach_invalidate: "session_reach sm \<Longrightarrow> session_reach (snd (invalidate v sm))"
| reach_logout: "session_reach sm \<Longrightarrow> session_reach (snd (logout h sm))"
| reach_rotate: "session_reach sm \<Longrightarrow> session_reach (snd (rotate_session rnds clk1 clk2 v overrides sm))"
| reach_user: "session_reach sm \<Longrightarrow> session_reach (snd (invalidateUserSessions t u sm))"
| reach_purge: "session_reach sm \<Longrightarrow> session_reach (snd (purgeExpired clk sm))"

lemma sessions_ok_sub:
  assumes "sessions_ok sm" "sm_ttlMs sm1 = sm_ttlMs sm" "sm_store sm1 = filter P (sm_store sm)"
  shows "sessions_ok sm1"
  using assms by (auto simp: sessions_ok_def keys_def distinct_map_filter)

lemma sessions_ok_drop: "sessions_ok sm \<Longrightarrow> sessions_ok (drop_session i sm)"
  by (rule sessions_ok_sub [where P = "\<lambda>(k, v). i \<noteq> k"]) (auto simp: drop_session_def AList.delete_eq)

lemma sessions_ok_create:
  assumes "createSession rnds clk identity sm = (r, sm1)" "sessions_ok sm"
  shows "sessions_ok sm1"
proof (cases "new_session sm rnds clk identity")
  case (Inl e)
  with assms show ?thesis by (simp add: createSession_def)
next
  case (Inr s)
  note n = new_session_Inr [OF Inr]
  have "sm1 = sm\<lparr>sm_store := sm_store sm @ [(ws_sessionId s, s)]\<rparr>"
    using assms(1) Inr n(1) by (simp add: createSession_def update_new_key keys_def)
  with assms(2) n show ?thesis by (auto simp: sessions_ok_def keys_def)
qed

lemma sessions_ok_get: "sessions_ok sm \<Longrightarrow> sessions_ok (snd (getActiveSession clk v sm))"
  using getActiveSession_store [OF surjective_pairing, of clk v sm] sessions_ok_drop by metis

lemma sessions_ok_invalidate: "sessions_ok sm \<Longrightarrow> sessions_ok (snd (invalidate v sm))"
  by (simp add: invalidate_def sessions_ok_drop split: option.split)

lemma sessions_ok_rotate:
  assumes "sessions_ok sm" "rotate_session rnds clk1 clk2 v overrides sm = (r, sm1)"
  shows "sessions_ok sm1"
  using assms(2) unfolding rotate_session_def
proof (cases rule: bindS_cases)
  case (Err e)
  then show ?thesis using sessions_ok_get [OF assms(1), of clk1 v] by simp
next
  case (Ok f t)
  have t: "sessions_ok t" using Ok(1) sessions_ok_get [OF assms(1), of clk1 v] by simp
  show ?thesis
  proof (cases f)
    case None
    with Ok t show ?thesis by simp
  next
    case (Some old)
    obtain q sm2 where q: "createSession rnds clk2 (next_identity old overrides) t = (q, sm2)" by (metis surj_pair)
    from sessions_ok_create [OF q t] Ok(2) Some t q show ?thesis
      by (auto simp: bindS_def sessions_ok_invalidate split: if_split_asm sum.split_asm)
  qed
qed

lemma session_reach_ok: "session_reach sm \<Longrightarrow> sessions_ok sm"
proof (induction rule: session_reach.induct)
  case (reach_new ttl name secure same path has_domain sm)
  then show ?case by (auto simp: createSessionManager_def sessions_ok_def keys_def split: if_split_asm)
next
  case (reach_create sm rnds clk identity)
  then show ?case using sessions_ok_create by (metis surjective_pairing)
next
  case (reach_get sm clk v)
  then show ?case by (simp add: sessions_ok_get)
next
  case (reach_serialize sm utc clk1 clk2 same v)
  obtain f sm1 where f: "getActiveSession clk1 v sm = (f, sm1)" by (metis surj_pair)
  with sessions_ok_get [OF reach_serialize.IH, of clk1 v] have "sessions_ok sm1" by simp
  with f reach_serialize.IH show ?case
    by (cases "assertSessionId v") (auto simp: serializeSessionCookie_def bindS_def assertSessionId_def liftE_def split: sum.split option.split)
next
  case (reach_auth sm clk h)
  then show ?case by (simp add: authenticateCookie_def sessions_ok_get split: option.split)
next
  case (reach_invalidate sm v)
  then show ?case by (simp add: sessions_ok_invalidate)
next
  case (reach_logout sm h)
  then show ?case using sessions_ok_invalidate [of sm] by (auto simp: logout_def split: option.split prod.split) (metis snd_conv)
next
  case (reach_rotate sm rnds clk1 clk2 v overrides)
  then show ?case using sessions_ok_rotate by (metis surjective_pairing)
next
  case (reach_user sm t u)
  then show ?case by (auto simp: invalidateUserSessions_def Let_def liftE_def intro: sessions_ok_sub split: sum.split)
next
  case (reach_purge sm clk)
  then show ?case by (auto simp: purgeExpired_def liftE_def intro: sessions_ok_sub split: sum.split)
qed

subsection \<open>Cookies\<close>

definition cookie_values :: "string \<Rightarrow> string list \<Rightarrow> string list" where
  "cookie_values name parts = concat (map (\<lambda>p. case cookie_part p of Some (n, v) \<Rightarrow> if n = name then [v] else [] | None \<Rightarrow> []) parts)"

definition only :: "'a list \<Rightarrow> 'a option" where
  "only xs = (case xs of [x] \<Rightarrow> Some x | _ \<Rightarrow> None)"

lemma select_cookie_only:
  "select_cookie name parts selected = only ((case selected of None \<Rightarrow> [] | Some v \<Rightarrow> [v]) @ cookie_values name parts)"
proof (induction parts arbitrary: selected)
  case Nil
  then show ?case by (simp add: only_def cookie_values_def split: option.split)
next
  case (Cons p ps)
  then show ?case
    by (cases "cookie_part p") (auto simp: cookie_values_def only_def split: option.split)
qed

subsection \<open>A concrete manager\<close>

definition example_sessions :: session_manager where
  "example_sessions = \<lparr>sm_ttlMs = 28800000, sm_cookieName = ''__Host-gulogulo-session'', sm_sameSite = ''Lax'', sm_store = []\<rparr>"

definition example_identity :: jsval where
  "example_identity = JObj [(''tenantId'', JStr ''t1''), (''domain'', JStr ''t1.test''), (''userId'', JStr ''ada'')]"

lemma example_sessions_reach: "session_reach example_sessions"
proof -
  have "createSessionManager (JInt 28800000) ''__Host-gulogulo-session'' True ''Lax'' ''/'' False = Inr example_sessions"
    by code_simp
  then show ?thesis by (rule reach_new)
qed

lemma example_session: "\<exists>s sm. createSession [Some (replicate 32 1)] (Some 1000) example_identity example_sessions = (Inr s, sm)"
proof -
  have "session_context example_identity = Inr \<lparr>tc_tenantId = ''t1'', tc_domain = ''t1.test'', tc_actorId = Some ''ada'', tc_role = UserRole\<rparr>"
    "assertUserId (jget example_identity ''userId'') = Inr ''ada''" by code_simp+
  moreover have "fresh_session_id [Some (replicate 32 1)] [] 4 = Inr (base64url (replicate 32 1))"
    by (simp add: numeral_eq_Suc normalizeRandomBytes_def)
  moreover have "example_identity \<noteq> JUndef" by (simp add: example_identity_def)
  ultimately show ?thesis
    by (simp add: createSession_def new_session_def readTime_def example_sessions_def keys_def)
qed

lemma session_map: "sessions_ok sm \<Longrightarrow> map_of (sm_store sm) i = Some s \<Longrightarrow>
    ws_sessionId s = i \<and> session_id_ok i \<and> ws_expiresAt s = ws_createdAt s + sm_ttlMs sm \<and> lower (ws_domain s) = ws_domain s"
  by (auto simp: sessions_ok_def dest!: map_of_SomeD)

lemma createSession_Inr:
  assumes "createSession rnds clk identity sm = (Inr s, sm1)"
  shows "new_session sm rnds clk identity = Inr s" "sm_store sm1 = sm_store sm @ [(ws_sessionId s, s)]"
    "sm_cookieName sm1 = sm_cookieName sm" "sm_ttlMs sm1 = sm_ttlMs sm"
proof -
  show n: "new_session sm rnds clk identity = Inr s" using assms by (auto simp: createSession_def)
  show "sm_store sm1 = sm_store sm @ [(ws_sessionId s, s)]" "sm_cookieName sm1 = sm_cookieName sm" "sm_ttlMs sm1 = sm_ttlMs sm"
    using assms n new_session_Inr(1) [OF n] by (auto simp: createSession_def update_new_key keys_def)
qed

text \<open>Rotation, unfolded: the session it starts from and the one it creates.\<close>

lemma rotate_InrE:
  assumes "rotate_session rnds clk1 clk2 v overrides sm = (Inr s, sm2)"
  obtains old sm1 now where "getActiveSession clk1 v sm = (Inr (Some old), sm)" "same_binding old (next_identity old overrides)"
    "createSession rnds clk2 (next_identity old overrides) sm = (Inr s, sm1)" "sm2 = snd (invalidate (JStr (ws_sessionId old)) sm1)"
proof -
  from assms obtain f t where f: "getActiveSession clk1 v sm = (Inr f, t)" unfolding rotate_session_def bindS_Inr by auto
  with assms obtain old where old: "f = Some old" by (cases f) (auto simp: rotate_session_def bindS_def)
  with f getActiveSession_Some have "t = sm" by blast
  with assms f old that show thesis
    by (auto simp: rotate_session_def bindS_def split: if_split_asm prod.split_asm sum.split_asm)
qed

lemma session_context_same:
  assumes "session_context (next_identity old overrides) = Inr c" "same_binding old (next_identity old overrides)"
  shows "tc_domain c = lower (ws_domain old) \<and> tc_role c = ws_role old \<and> tc_actorId c = ws_actorId old"
proof -
  let ?i = "next_identity old overrides"
  have b: "jget ?i ''domain'' = JStr (ws_domain old)" "jget ?i ''role'' = JStr (role_name (ws_role old))"
    "jget ?i ''actorId'' = opt_js (ws_actorId old)" using assms(2) by (simp_all add: same_binding_def)
  have "jget ?i ''actorId'' \<noteq> JNull" by (simp add: next_identity_def js_or_else_def nullish_def opt_js_def split: option.split)
  with b(3) obtain a where a: "ws_actorId old = Some a" by (auto simp: opt_js_def split: option.split_asm)
  have "createTenantContext (JObj [(''tenantId'', jget ?i ''tenantId''), (''domain'', JStr (ws_domain old)),
       (''actorId'', JStr a), (''role'', JStr (role_name (ws_role old)))]) = Inr c"
    using assms(1) b a by (auto simp: session_context_def js_or_else_def nullish_def opt_js_def split: sum.split_asm)
  then show ?thesis using a by (auto simp: createTenantContext_def js_default_def)
qed

subsection \<open>Properties\<close>

text \<open>C22 Who is authenticated: in every store reachable by any sequence of operations, the session a cookie
  header authenticates is stored under the identifier the header names, has not expired at the time of
  the request, and was created less than the configured lifetime ago.\<close>

theorem authenticated_session_is_live:
  assumes "session_reach sm" "authenticateCookie (Some now) header sm = (Inr (Some s), sm1)"
  shows "parseCookieHeader header (sm_cookieName sm) = Some (ws_sessionId s)
    \<and> map_of (sm_store sm) (ws_sessionId s) = Some s \<and> sm1 = sm
    \<and> now < ws_expiresAt s \<and> now < ws_createdAt s + sm_ttlMs sm"
proof -
  obtain i where i: "parseCookieHeader header (sm_cookieName sm) = Some i" "getActiveSession (Some now) (JStr i) sm = (Inr (Some s), sm1)"
    using assms(2) by (auto simp: authenticateCookie_def split: option.split_asm)
  from getActiveSession_Some [OF i(2)] have "map_of (sm_store sm) i = Some s" "now < ws_expiresAt s" "sm1 = sm" by auto
  with session_map [OF session_reach_ok [OF assms(1)]] i(1) show ?thesis by auto
qed

lemma example_header: "session_id_ok i \<Longrightarrow> parseCookieHeader (JStr (''__Host-gulogulo-session='' @ i)) ''__Host-gulogulo-session'' = Some i"
proof -
  assume ok: "session_id_ok i"
  have url: "ccode c < 128 \<and> c \<noteq> CHR '';'' \<and> c \<noteq> CHR ''='' \<and> \<not> is_space c" if "url_char c" for c
    using that by (auto simp: url_char_def is_alnum_def is_lower_def is_upper_def is_digit_def is_space_def one_of_def ccode_def)
  have chars: "\<forall>c\<in>set i. ccode c < 128 \<and> c \<noteq> CHR '';'' \<and> c \<noteq> CHR ''='' \<and> \<not> is_space c" and len: "length i = 43"
    using ok url by (auto simp: session_id_ok_def list_all_iff)
  let ?n = "''__Host-gulogulo-session''"
  have name: "\<forall>c\<in>set ?n. ccode c < 128 \<and> c \<noteq> CHR '';'' \<and> c \<noteq> CHR ''=''" "trim ?n = ?n" by code_simp+
  have ascii: "byte_length w = length w" if "\<forall>c\<in>set w. ccode c < 128" for w
    using that by (induction w) (simp_all add: byte_length_def)
  have "ccode CHR ''='' < 128" by (simp add: ccode_def)
  then have "byte_length (?n @ ''='' @ i) = length (?n @ ''='' @ i)" using chars name(1) by (intro ascii) auto
  then have "byte_length (?n @ ''='' @ i) \<le> 8192" using len by simp
  moreover have "split_by (\<lambda>c. c = CHR '';'') (?n @ ''='' @ i) = [?n @ ''='' @ i]"
  proof -
    have "split_by p w = [w]" if "list_all (\<lambda>c. \<not> p c) w" for p w using that by (induction w) auto
    then show ?thesis using chars name(1) by (auto simp: list_all_iff)
  qed
  moreover have "cookie_part (?n @ ''='' @ i) = Some (?n, i)"
  proof -
    have d: "dropWhile is_space w = w" if "\<forall>c\<in>set w. \<not> is_space c" for w using that by (cases w) simp_all
    have "trim i = i" using d [of i] d [of "rev i"] chars by (simp add: trim_def)
    then show ?thesis using name by (simp add: cookie_part_def Let_def)
  qed
  ultimately show ?thesis by (simp add: parseCookieHeader_def)
qed

lemma example_authenticated:
  "\<exists>s sm. session_reach sm \<and> sm_cookieName sm = ''__Host-gulogulo-session'' \<and> session_id_ok (ws_sessionId s)
    \<and> map_of (sm_store sm) (ws_sessionId s) = Some s \<and> ws_expiresAt s = 28801000
    \<and> createSession [Some (replicate 32 1)] (Some 1000) example_identity example_sessions = (Inr s, sm)"
proof -
  obtain s sm where e: "createSession [Some (replicate 32 1)] (Some 1000) example_identity example_sessions = (Inr s, sm)"
    using example_session by blast
  note c = createSession_Inr [OF e] and n = new_session_Inr [OF createSession_Inr(1) [OF e]]
  have "session_reach sm" using reach_create [OF example_sessions_reach, of "[Some (replicate 32 1)]" "Some 1000" example_identity] e by simp
  with c n e show ?thesis by (intro exI [of _ s] exI [of _ sm]) (simp add: example_sessions_def)
qed

lemma authenticated_session_is_live_witness:
  "\<exists>s sm. authenticateCookie (Some 2000) (JStr (''__Host-gulogulo-session='' @ ws_sessionId s)) sm = (Inr (Some s), sm) \<and> 2000 < ws_expiresAt s"
proof -
  obtain s sm where e: "session_reach sm" "sm_cookieName sm = ''__Host-gulogulo-session''" "session_id_ok (ws_sessionId s)"
    "map_of (sm_store sm) (ws_sessionId s) = Some s" "ws_expiresAt s = 28801000" using example_authenticated by blast
  have a: "authenticateCookie (Some 2000) (JStr (''__Host-gulogulo-session='' @ ws_sessionId s)) sm = (Inr (Some s), sm)"
    using e example_header [OF e(3)] by (simp add: authenticateCookie_def getActiveSession_def readTime_def)
  from authenticated_session_is_live [OF e(1) a] a show ?thesis by blast
qed

lemma example_rotates:
  assumes "createSession [Some (replicate 32 1)] (Some 1000) example_identity example_sessions = (Inr s, sm)"
  shows "\<exists>s2 sm2. rotate_session [Some (replicate 32 2)] (Some 2000) (Some 2001) (JStr (ws_sessionId s)) JUndef sm = (Inr s2, sm2)"
proof -
  note c = createSession_Inr [OF assms] and n = new_session_Inr [OF createSession_Inr(1) [OF assms]]
  have ctx: "session_context example_identity = Inr \<lparr>tc_tenantId = ''t1'', tc_domain = ''t1.test'', tc_actorId = Some ''ada'', tc_role = UserRole\<rparr>"
    by code_simp
  have s: "ws_tenantId s = ''t1''" "ws_domain s = ''t1.test''" "ws_actorId s = Some ''ada''" "ws_role s = UserRole" "ws_userId s = ''ada''"
    using n(5,8) ctx by (auto simp: example_identity_def)
  have id: "ws_sessionId s = base64url (replicate 32 1)"
    using c(1) by (auto simp: new_session_def example_sessions_def keys_def numeral_eq_Suc normalizeRandomBytes_def split: if_split_asm)
  have store: "sm_store sm = [(ws_sessionId s, s)]" using c(2) by (simp add: example_sessions_def)
  have get: "getActiveSession (Some 2000) (JStr (ws_sessionId s)) sm = (Inr (Some s), sm)"
    using n(2,3,4) store by (simp add: getActiveSession_def readTime_def example_sessions_def)
  let ?i = "next_identity s JUndef"
  have i: "?i = JObj [(''tenantId'', JStr ''t1''), (''domain'', JStr ''t1.test''), (''userId'', JStr ''ada''),
      (''role'', JStr ''user''), (''actorId'', JStr ''ada'')]"
    using s by (simp add: next_identity_def js_or_else_def nullish_def opt_js_def role_name_def)
  have "same_binding s ?i" using s i by (simp add: same_binding_def opt_js_def role_name_def)
  moreover have "session_context ?i = Inr \<lparr>tc_tenantId = ''t1'', tc_domain = ''t1.test'', tc_actorId = Some ''ada'', tc_role = UserRole\<rparr>"
    "assertUserId (jget ?i ''userId'') = Inr ''ada''" unfolding i by code_simp+
  moreover have "base64url (replicate 32 2) \<noteq> base64url (replicate 32 1)"
    using dec_enc_alphabet [of 6 base64url_alphabet "replicate 32 1"] dec_enc_alphabet [of 6 base64url_alphabet "replicate 32 2"] base64url_facts
    by (auto simp: base64url_def dest: arg_cong [where f = hd])
  then have "fresh_session_id [Some (replicate 32 2)] (keys (sm_store sm)) 4 = Inr (base64url (replicate 32 2))"
    using store id by (simp add: numeral_eq_Suc normalizeRandomBytes_def keys_def)
  moreover have "?i \<noteq> JUndef" by (simp add: i)
  ultimately have "\<exists>s2 sm2. createSession [Some (replicate 32 2)] (Some 2001) ?i sm = (Inr s2, sm2)"
    by (simp add: createSession_def new_session_def readTime_def)
  with get \<open>same_binding s ?i\<close> show ?thesis by (auto simp: rotate_session_def bindS_def)
qed

text \<open>Rotation replaces the identifier and nothing else: the new session belongs to the same tenant,
  domain, user, actor and role, its identifier was not in use, the old identifier no longer
  authenticates at any time, and the other sessions are as they were.\<close>

theorem rotation_replaces_the_identifier:
  assumes "session_reach sm" "rotate_session rnds clk1 clk2 v overrides sm = (Inr s, sm2)"
  shows "\<exists>old. v = JStr (ws_sessionId old) \<and> map_of (sm_store sm) (ws_sessionId old) = Some old
    \<and> ws_tenantId s = ws_tenantId old \<and> ws_domain s = lower (ws_domain old) \<and> ws_userId s = ws_userId old
    \<and> ws_actorId s = ws_actorId old \<and> ws_role s = ws_role old
    \<and> map_of (sm_store sm) (ws_sessionId s) = None \<and> map_of (sm_store sm2) (ws_sessionId s) = Some s
    \<and> getActiveSession clk' v sm2 = (Inr None, sm2)
    \<and> (\<forall>i. i \<noteq> ws_sessionId old \<longrightarrow> i \<noteq> ws_sessionId s \<longrightarrow> map_of (sm_store sm2) i = map_of (sm_store sm) i)"
  using assms(2)
proof (rule rotate_InrE)
  fix old sm1 now
  assume r: "getActiveSession clk1 v sm = (Inr (Some old), sm)" "same_binding old (next_identity old overrides)"
    "createSession rnds clk2 (next_identity old overrides) sm = (Inr s, sm1)" "sm2 = snd (invalidate (JStr (ws_sessionId old)) sm1)"
  from getActiveSession_Some [OF r(1)] obtain i where i: "v = JStr i" "map_of (sm_store sm) i = Some old" "session_id_ok i" by auto
  with session_map [OF session_reach_ok [OF assms(1)]] have old: "i = ws_sessionId old" by simp
  note c = createSession_Inr [OF r(3)]
  note n = new_session_Inr [OF c(1)]
  have sm2: "sm2 = drop_session i sm1" using r(4) i old by (simp add: invalidate_def)
  have new: "ws_sessionId s \<noteq> i" "map_of (sm_store sm) (ws_sessionId s) = None"
    using n(1) map_of_SomeD [OF i(2)] by (force simp: keys_def map_of_eq_None_iff)+
  then have maps: "map_of (sm_store sm2) (ws_sessionId s) = Some s" "map_of (sm_store sm2) i = None"
    "\<And>j. j \<noteq> i \<Longrightarrow> j \<noteq> ws_sessionId s \<Longrightarrow> map_of (sm_store sm2) j = map_of (sm_store sm) j"
    using c(2) by (auto simp: sm2 drop_session_def delete_conv' map_add_def split: option.split)
  obtain cc where "session_context (next_identity old overrides) = Inr cc" "ws_domain s = tc_domain cc" "ws_tenantId s = tc_tenantId cc"
    "ws_actorId s = tc_actorId cc" "ws_role s = tc_role cc" using n(8) by blast
  moreover have "jget (next_identity old overrides) ''userId'' = JStr (ws_userId old)"
    "jget (next_identity old overrides) ''tenantId'' = JStr (ws_tenantId old)" using r(2) by (simp_all add: same_binding_def)
  moreover have "tc_domain cc = lower (ws_domain old) \<and> tc_role cc = ws_role old \<and> tc_actorId cc = ws_actorId old"
    using session_context_same [OF _ r(2)] calculation(1) by blast
  ultimately have bind: "ws_tenantId s = ws_tenantId old" "ws_domain s = lower (ws_domain old)" "ws_userId s = ws_userId old"
    "ws_actorId s = ws_actorId old" "ws_role s = ws_role old" using n(5,6) by simp_all
  have dead: "getActiveSession clk' v sm2 = (Inr None, sm2)" using maps(2) i by (simp add: getActiveSession_def)
  show ?thesis
    by (rule exI [of _ old], intro conjI bind dead maps(1) new(2) allI impI)
       (use i old maps(3) in simp_all)
qed

lemma rotation_replaces_the_identifier_witness:
  "\<exists>(s :: web_session) sm s2 sm2. rotate_session [Some (replicate 32 2)] (Some 2000) (Some 2001) (JStr (ws_sessionId s)) JUndef sm = (Inr s2, sm2)
    \<and> ws_userId s2 = ''ada'' \<and> getActiveSession (Some 2002) (JStr (ws_sessionId s)) sm2 = (Inr None, sm2)"
proof -
  obtain s sm where e: "session_reach sm" "session_id_ok (ws_sessionId s)" "map_of (sm_store sm) (ws_sessionId s) = Some s" "ws_expiresAt s = 28801000"
    "createSession [Some (replicate 32 1)] (Some 1000) example_identity example_sessions = (Inr s, sm)" using example_authenticated by blast
  obtain s2 sm2 where r: "rotate_session [Some (replicate 32 2)] (Some 2000) (Some 2001) (JStr (ws_sessionId s)) JUndef sm = (Inr s2, sm2)"
    using example_rotates [OF e(5)] by blast
  from rotation_replaces_the_identifier [OF e(1) r, of "Some 2002"] obtain old where
    o: "JStr (ws_sessionId s) = JStr (ws_sessionId old)" "map_of (sm_store sm) (ws_sessionId old) = Some old" "ws_userId s2 = ws_userId old"
    "getActiveSession (Some 2002) (JStr (ws_sessionId s)) sm2 = (Inr None, sm2)" by blast
  then have "old = s" using e(3) by simp
  moreover note o(3)
  moreover have "ws_userId s = ''ada''"
    using new_session_Inr(5) [OF createSession_Inr(1) [OF e(5)]] by (simp add: example_identity_def)
  ultimately have "ws_userId s2 = ''ada''" by simp
  with r o(4) show ?thesis by blast
qed

text \<open>A cookie counts only when it is unambiguous: the value taken from a header is the value of the one
  part that carries the name of the session cookie; a header with no such part, or with two of them
  whatever their values, or longer than 8 KiB, authenticates nobody.\<close>

theorem cookie_is_unambiguous:
  "parseCookieHeader (JStr header) name =
     (if 8192 < byte_length header then None else only (cookie_values name (split_by (\<lambda>c. c = CHR '';'') header)))"
  by (simp add: parseCookieHeader_def select_cookie_only)

end
