(* ===== verification/Csrf.thy ===== *)
theory Csrf
  imports Web_Sessions
begin

section \<open>Request tokens\<close>

text \<open>
  \<open>src/web/security/csrf.ts\<close>: one-time tokens bound to a session.  A session is what the operations read
  of it, its identifier and its expiry; every call of the clock is an argument, as is the answer of
  \<open>isSessionActive\<close> (false when it throws).  The token store maps a session to its tokens in the order
  they were issued, keyed by their digest.  The code deletes expired tokens in place, also when the
  validation then fails.  The digest is a field of the manager; all digests have the same length, so
  \<open>timingSafeEqual\<close> is equality.
\<close>

record csrf_record =
  ct_digest :: bytes
  ct_issuedAt :: int
  ct_expiresAt :: int

type_synonym bucket = "(string \<times> csrf_record) list"

record csrf_manager =
  cm_ttlMs :: int
  cm_maxOutstanding :: nat
  cm_digest :: "string \<Rightarrow> bytes"
  cm_tokens :: "(string \<times> bucket) list"

type_synonym session_ref = "string \<times> int" \<comment> \<open>identifier, \<open>expiresAt\<close>\<close>

definition createCsrfManager :: "(string \<Rightarrow> bytes) \<Rightarrow> jsval \<Rightarrow> jsval \<Rightarrow> csrf_manager res" where
  "createCsrfManager digest ttlMs maxOutstanding =
     bindE (assertTtl 3600000 ttlMs) (\<lambda>ttl.
     bindE (need_int (\<lambda>n. 1 \<le> n \<and> n \<le> 256) (securityError ''INVALID_CONFIGURATION'') maxOutstanding) (\<lambda>n.
     Inr \<lparr>cm_ttlMs = ttl, cm_maxOutstanding = nat n, cm_digest = digest, cm_tokens = []\<rparr>))"

definition assertSession :: "session_ref \<Rightarrow> unit res" where
  "assertSession session = needE (session_id_ok (fst session)) (securityError ''SESSION_INVALID'')"

definition session_active :: "int option \<Rightarrow> bool \<Rightarrow> session_ref \<Rightarrow> bool res" where
  "session_active clk alive session = bindE (assertSession session) (\<lambda>_. bindE (readTime securityError clk) (\<lambda>now.
     Inr (now < snd session \<and> alive)))"

definition removeExpired :: "int \<Rightarrow> bucket \<Rightarrow> bucket" where
  "removeExpired now b = filter (\<lambda>p. \<not> ct_expiresAt (snd p) \<le> now) b"

fun evict_oldest :: "nat \<Rightarrow> bucket \<Rightarrow> bucket" where
  "evict_oldest maximum [] = []"
| "evict_oldest maximum (p # b) = (if maximum \<le> length (p # b) then evict_oldest maximum b else p # b)"

definition bucket_of :: "csrf_manager \<Rightarrow> string \<Rightarrow> bucket" where
  "bucket_of cm i = (case map_of (cm_tokens cm) i of None \<Rightarrow> [] | Some b \<Rightarrow> b)"

definition put_bucket :: "string \<Rightarrow> bucket \<Rightarrow> csrf_manager \<Rightarrow> csrf_manager" where
  "put_bucket i b cm = cm\<lparr>cm_tokens := AList.update i b (cm_tokens cm)\<rparr>"

definition drop_bucket :: "string \<Rightarrow> csrf_manager \<Rightarrow> csrf_manager" where
  "drop_bucket i cm = cm\<lparr>cm_tokens := AList.delete i (cm_tokens cm)\<rparr>"

definition issue_input :: "int option \<Rightarrow> int option \<Rightarrow> bool \<Rightarrow> bytes option \<Rightarrow> session_ref \<Rightarrow> (int \<times> string) res" where
  "issue_input clk1 clk2 alive rnd session =
     bindE (session_active clk1 alive session) (\<lambda>ok.
     bindE (needE ok (securityError ''SESSION_INVALID'')) (\<lambda>_.
     bindE (readTime securityError clk2) (\<lambda>now.
     bindE (normalizeRandomBytes rnd) (\<lambda>token. Inr (now, token)))))"

definition csrf_issue :: "int option \<Rightarrow> int option \<Rightarrow> bool \<Rightarrow> bytes option \<Rightarrow> session_ref \<Rightarrow> csrf_manager \<Rightarrow>
    (string \<times> int \<times> int) res \<times> csrf_manager" where
  "csrf_issue clk1 clk2 alive rnd session cm = liftE (issue_input clk1 clk2 alive rnd session) cm (\<lambda>(now, token).
     let d = cm_digest cm token;
         b = evict_oldest (cm_maxOutstanding cm) (removeExpired now (bucket_of cm (fst session)));
         e = \<lparr>ct_digest = d, ct_issuedAt = now, ct_expiresAt = now + cm_ttlMs cm\<rparr>
     in (Inr (token, now, now + cm_ttlMs cm), put_bucket (fst session) (AList.update (base64url d) e b) cm))"

definition csrfInvalid :: err where
  "csrfInvalid = securityError ''CSRF_INVALID''"

definition matching_token :: "bytes \<Rightarrow> bucket \<Rightarrow> (string \<times> csrf_record) option" where \<comment> \<open>the last match\<close>
  "matching_token d b = find (\<lambda>p. ct_digest (snd p) = d) (rev b)"

definition csrf_validate :: "int option \<Rightarrow> int option \<Rightarrow> bool \<Rightarrow> session_ref \<Rightarrow> jsval \<Rightarrow> bool \<Rightarrow> csrf_manager \<Rightarrow> unit res \<times> csrf_manager" where
  "csrf_validate clk1 clk2 alive session token consume cm =
     liftE (bindE (session_active clk1 alive session) (\<lambda>ok. bindE (needE ok csrfInvalid) (\<lambda>_. need_str session_id_ok csrfInvalid token))) cm (\<lambda>t.
     case map_of (cm_tokens cm) (fst session) of None \<Rightarrow> (Inl csrfInvalid, cm)
     | Some b0 \<Rightarrow> liftE (readTime securityError clk2) cm (\<lambda>now.
         let b = removeExpired now b0; cm1 = put_bucket (fst session) b cm in
         (case matching_token (cm_digest cm t) b of
            None \<Rightarrow> (Inl csrfInvalid, cm1)
          | Some (k, e) \<Rightarrow> if ct_expiresAt e \<le> now then (Inl csrfInvalid, cm1)
              else if \<not> consume then (Inr (), cm1)
              else let b1 = AList.delete k b in
                (Inr (), if b1 = [] then drop_bucket (fst session) cm1
                         else put_bucket (fst session) b1 cm1))))"

definition csrf_validateRequest :: "int option \<Rightarrow> int option \<Rightarrow> bool \<Rightarrow> session_ref \<Rightarrow> jsval \<Rightarrow> jsval \<Rightarrow> bool \<Rightarrow> csrf_manager \<Rightarrow>
    unit res \<times> csrf_manager" where
  "csrf_validateRequest clk1 clk2 alive session headerToken bodyToken consume cm =
     (if headerToken \<noteq> JUndef \<and> bodyToken \<noteq> JUndef \<and> headerToken \<noteq> bodyToken then (Inl csrfInvalid, cm)
      else csrf_validate clk1 clk2 alive session (js_or_else headerToken bodyToken) consume cm)"

definition csrf_revokeSession :: "jsval \<Rightarrow> csrf_manager \<Rightarrow> bool \<times> csrf_manager" where
  "csrf_revokeSession v cm = (case js_str v of None \<Rightarrow> (False, cm)
     | Some i \<Rightarrow> if session_id_ok i then (i \<in> set (keys (cm_tokens cm)), drop_bucket i cm)
         else (False, cm))"

definition csrf_purgeExpired :: "int option \<Rightarrow> csrf_manager \<Rightarrow> nat res \<times> csrf_manager" where
  "csrf_purgeExpired clk cm = liftE (readTime securityError clk) cm (\<lambda>now.
     let swept = map (\<lambda>(i, b). (i, removeExpired now b)) (cm_tokens cm) in
     (Inr (sum_list (map (\<lambda>(i, b). length b - length (removeExpired now b)) (cm_tokens cm))),
      cm\<lparr>cm_tokens := filter (\<lambda>p. snd p \<noteq> []) swept\<rparr>))"

definition csrf_size :: "csrf_manager \<Rightarrow> nat" where
  "csrf_size cm = sum_list (map (\<lambda>p. length (snd p)) (cm_tokens cm))"

lemmas csrf_defs [code_defs] = createCsrfManager_def assertSession_def session_active_def removeExpired_def
  bucket_of_def put_bucket_def drop_bucket_def issue_input_def csrf_issue_def csrfInvalid_def matching_token_def csrf_validate_def
  csrf_validateRequest_def csrf_revokeSession_def csrf_purgeExpired_def csrf_size_def

subsection \<open>The invariant\<close>

definition bucket_ok :: "nat \<Rightarrow> bucket \<Rightarrow> bool" where
  "bucket_ok n b \<longleftrightarrow> distinct (keys b) \<and> length b \<le> n \<and> (\<forall>(k, e)\<in>set b. k = base64url (ct_digest e))"

definition csrf_ok :: "csrf_manager \<Rightarrow> bool" where
  "csrf_ok cm \<longleftrightarrow> 1 \<le> cm_maxOutstanding cm \<and> distinct (keys (cm_tokens cm))
     \<and> (\<forall>(i, b)\<in>set (cm_tokens cm). bucket_ok (cm_maxOutstanding cm) b)"

inductive csrf_reach :: "csrf_manager \<Rightarrow> bool" where
  csrf_new: "createCsrfManager digest ttl n = Inr cm \<Longrightarrow> csrf_reach cm"
| csrf_issued: "csrf_reach cm \<Longrightarrow> csrf_reach (snd (csrf_issue clk1 clk2 alive rnd session cm))"
| csrf_validated: "csrf_reach cm \<Longrightarrow> csrf_reach (snd (csrf_validate clk1 clk2 alive session token consume cm))"
| csrf_revoked: "csrf_reach cm \<Longrightarrow> csrf_reach (snd (csrf_revokeSession v cm))"
| csrf_purged: "csrf_reach cm \<Longrightarrow> csrf_reach (snd (csrf_purgeExpired clk cm))"

lemma bucket_ok_filter: "bucket_ok n b \<Longrightarrow> bucket_ok n (filter P b)"
  by (auto simp: bucket_ok_def keys_def distinct_map_filter intro: order_trans [OF length_filter_le])

lemma bucket_ok_delete: "bucket_ok n b \<Longrightarrow> bucket_ok n (AList.delete k b)"
  by (simp add: AList.delete_eq bucket_ok_filter)

lemma evict_oldest_ok: "bucket_ok n b \<Longrightarrow> 1 \<le> n \<Longrightarrow> bucket_ok n (evict_oldest n b) \<and> length (evict_oldest n b) < n"
proof (induction n b rule: evict_oldest.induct)
  case (2 n p b)
  then show ?case by (auto simp: bucket_ok_def keys_def)
qed (simp add: bucket_ok_def keys_def)

lemma set_update_subset: "set (AList.update k v m) \<subseteq> insert (k, v) (set m)"
  by (induction m) auto

lemma csrf_ok_put:
  assumes "csrf_ok cm" "bucket_ok (cm_maxOutstanding cm) b"
  shows "csrf_ok (put_bucket i b cm)"
  using assms set_update_subset [of i b "cm_tokens cm"]
  by (auto simp: csrf_ok_def put_bucket_def keys_def distinct_update)

lemma csrf_ok_filter:
  assumes "csrf_ok cm" shows "csrf_ok (cm\<lparr>cm_tokens := filter P (cm_tokens cm)\<rparr>)"
  using assms by (auto simp: csrf_ok_def keys_def distinct_map_filter)

lemma csrf_ok_delete: "csrf_ok cm \<Longrightarrow> csrf_ok (drop_bucket i cm)"
  by (simp add: drop_bucket_def AList.delete_eq csrf_ok_filter)

lemma bucket_of_put [simp]: "bucket_of (put_bucket i b cm) i = b" "bucket_of (drop_bucket i cm) i = []"
  "cm_digest (drop_bucket i cm) = cm_digest cm"
  by (simp_all add: bucket_of_def put_bucket_def drop_bucket_def delete_conv')

lemma put_bucket_simps [simp]: "cm_maxOutstanding (put_bucket i b cm) = cm_maxOutstanding cm"
  "cm_tokens (put_bucket i b cm) = AList.update i b (cm_tokens cm)" "cm_digest (put_bucket i b cm) = cm_digest cm"
  by (simp_all add: put_bucket_def)

lemma bucket_ok_of: "csrf_ok cm \<Longrightarrow> bucket_ok (cm_maxOutstanding cm) (bucket_of cm i)"
  by (auto simp: csrf_ok_def bucket_of_def bucket_ok_def [of _ "[]"] keys_def split: option.split dest!: map_of_SomeD)

lemma csrf_issue_ok:
  assumes "csrf_ok cm" shows "csrf_ok (snd (csrf_issue clk1 clk2 alive rnd session cm))"
proof (cases "issue_input clk1 clk2 alive rnd session")
  case (Inr p)
  obtain now token where p: "p = (now, token)" by (cases p)
  let ?b = "evict_oldest (cm_maxOutstanding cm) (removeExpired now (bucket_of cm (fst session)))"
  have e: "bucket_ok (cm_maxOutstanding cm) ?b" "length ?b < cm_maxOutstanding cm"
    using evict_oldest_ok [OF bucket_ok_filter [OF bucket_ok_of [OF assms]]] assms by (simp_all add: removeExpired_def csrf_ok_def)
  have "bucket_ok (cm_maxOutstanding cm) (AList.update (base64url (ct_digest r)) r ?b)" for r
  proof -
    have "length (AList.update k v m) \<le> Suc (length m)" for k :: string and v :: csrf_record and m by (induction m) auto
    from this [of "base64url (ct_digest r)" r ?b] e set_update_subset [of "base64url (ct_digest r)" r ?b]
    show ?thesis by (auto simp: bucket_ok_def keys_def distinct_update)
  qed
  from this [of "\<lparr>ct_digest = cm_digest cm token, ct_issuedAt = now, ct_expiresAt = now + cm_ttlMs cm\<rparr>"] Inr p
  show ?thesis by (simp add: csrf_issue_def Let_def csrf_ok_put [OF assms])
qed (simp add: csrf_issue_def assms)

lemma csrf_validate_cases:
  assumes "csrf_validate clk1 clk2 alive session token consume cm = (r, cm1)"
  shows "(cm1 = cm \<and> (\<exists>e. r = Inl e))
    \<or> (\<exists>t now b0. token = JStr t \<and> clk2 = Some now \<and> map_of (cm_tokens cm) (fst session) = Some b0 \<and>
        (let b = removeExpired now b0 in
         (cm1 = put_bucket (fst session) b cm \<and> (r = Inr () \<longrightarrow> \<not> consume)) \<or>
         (\<exists>k e. matching_token (cm_digest cm t) b = Some (k, e) \<and> consume \<and> r = Inr ()
           \<and> cm1 = (if AList.delete k b = [] then drop_bucket (fst session) (put_bucket (fst session) b cm)
                    else put_bucket (fst session) (AList.delete k b) (put_bucket (fst session) b cm)))))"
proof -
  let ?in = "bindE (session_active clk1 alive session) (\<lambda>ok. bindE (needE ok csrfInvalid) (\<lambda>_. need_str session_id_ok csrfInvalid token))"
  show ?thesis
  proof (cases ?in)
    case (Inl e)
    with assms have "cm1 = cm \<and> r = Inl e" by (simp add: csrf_validate_def)
    then show ?thesis by blast
  next
    case (Inr t)
    then have t: "token = JStr t" by auto
    note v = assms [unfolded csrf_validate_def Inr liftE_simps]
    show ?thesis
    proof (cases "map_of (cm_tokens cm) (fst session)")
      case None
      with v show ?thesis by auto
    next
      case b0: (Some b0)
      show ?thesis
      proof (cases "readTime securityError clk2")
        case (Inl e)
        with v b0 show ?thesis by auto
      next
        case now: (Inr now)
        then have clk: "clk2 = Some now" by simp
        show ?thesis
        proof (cases "matching_token (cm_digest cm t) (removeExpired now b0)")
          case None
          with v b0 now t clk show ?thesis by (auto simp: Let_def)
        next
          case (Some ke)
          obtain k e where "ke = (k, e)" by (cases ke)
          with v b0 now t clk Some show ?thesis by (auto simp: Let_def split: if_split_asm)
        qed
      qed
    qed
  qed
qed

lemma csrf_validate_ok:
  assumes "csrf_ok cm" shows "csrf_ok (snd (csrf_validate clk1 clk2 alive session token consume cm))"
proof -
  obtain r cm1 where v: "csrf_validate clk1 clk2 alive session token consume cm = (r, cm1)" by (metis surj_pair)
  have b: "bucket_ok (cm_maxOutstanding cm) (removeExpired now b0)" if "map_of (cm_tokens cm) (fst session) = Some b0" for now b0
    using bucket_ok_filter [OF bucket_ok_of [OF assms, of "fst session"]] that by (simp add: bucket_of_def removeExpired_def)
  from csrf_validate_cases [OF v] assms b show ?thesis
    by (auto simp: v Let_def csrf_ok_put csrf_ok_delete bucket_ok_delete)
qed

lemma csrf_purge_ok:
  assumes "csrf_ok cm" shows "csrf_ok (snd (csrf_purgeExpired clk cm))"
proof -
  have "csrf_ok (cm\<lparr>cm_tokens := map (\<lambda>(i, b). (i, removeExpired now b)) (cm_tokens cm)\<rparr>)" for now
  proof -
    have "map fst (map (\<lambda>(i, b). (i, removeExpired now b)) (cm_tokens cm)) = map fst (cm_tokens cm)"
      by (simp add: comp_def case_prod_beta)
    with assms show ?thesis
      by (auto simp: csrf_ok_def keys_def removeExpired_def simp del: map_map intro!: bucket_ok_filter)
  qed
  from csrf_ok_filter [OF this] assms show ?thesis
    by (simp add: csrf_purgeExpired_def liftE_def Let_def split: sum.split)
qed

lemma csrf_purge_digest: "cm_digest (snd (csrf_purgeExpired clk cm)) = cm_digest cm"
  by (simp add: csrf_purgeExpired_def liftE_def Let_def split: sum.split)

lemma csrf_validate_digest: "cm_digest (snd (csrf_validate clk1 clk2 alive session token consume cm)) = cm_digest cm"
proof -
  obtain r cm1 where v: "csrf_validate clk1 clk2 alive session token consume cm = (r, cm1)" by (metis surj_pair)
  from csrf_validate_cases [OF v] show ?thesis by (auto simp: v Let_def)
qed

lemma csrf_reach_ok: "csrf_reach cm \<Longrightarrow> csrf_ok cm"
proof (induction rule: csrf_reach.induct)
  case (csrf_new digest ttl n cm)
  then show ?case by (auto simp: createCsrfManager_def csrf_ok_def keys_def)
next
  case (csrf_revoked cm v)
  then show ?case by (simp add: csrf_revokeSession_def csrf_ok_delete split: option.split)
qed (simp_all add: csrf_issue_ok csrf_validate_ok csrf_purge_ok)

subsection \<open>Spent tokens\<close>

text \<open>What happens after a token was used: any operations, as long as the random source does not give
  the same token once more.\<close>

inductive csrf_later :: "string \<Rightarrow> csrf_manager \<Rightarrow> csrf_manager \<Rightarrow> bool" for t where
  later_now: "csrf_later t cm cm"
| later_issue: "csrf_later t cm cm1 \<Longrightarrow> csrf_issue clk1 clk2 alive rnd session cm1 = (r, cm2) \<Longrightarrow>
    (\<And>t' a b. r = Inr (t', a, b) \<Longrightarrow> cm_digest cm1 t' \<noteq> cm_digest cm1 t) \<Longrightarrow> csrf_later t cm cm2"
| later_validate: "csrf_later t cm cm1 \<Longrightarrow> csrf_later t cm (snd (csrf_validate clk1 clk2 alive session token consume cm1))"
| later_revoke: "csrf_later t cm cm1 \<Longrightarrow> csrf_later t cm (snd (csrf_revokeSession v cm1))"
| later_purge: "csrf_later t cm cm1 \<Longrightarrow> csrf_later t cm (snd (csrf_purgeExpired clk cm1))"

definition token_gone :: "string \<Rightarrow> bytes \<Rightarrow> csrf_manager \<Rightarrow> bool" where
  "token_gone i d cm \<longleftrightarrow> csrf_ok cm \<and> (\<forall>p\<in>set (bucket_of cm i). ct_digest (snd p) \<noteq> d)"

lemma bucket_of_change: "bucket_of (put_bucket j b cm) i = (if i = j then b else bucket_of cm i)"
  "bucket_of (drop_bucket j cm) i = (if i = j then [] else bucket_of cm i)"
  by (auto simp: bucket_of_def put_bucket_def drop_bucket_def delete_conv')

lemma evict_oldest_sub: "set (evict_oldest n b) \<subseteq> set b"
  by (induction n b rule: evict_oldest.induct) auto

lemma token_gone_validate:
  assumes "token_gone i d cm" shows "token_gone i d (snd (csrf_validate clk1 clk2 alive session token consume cm))"
proof -
  obtain r cm1 where v: "csrf_validate clk1 clk2 alive session token consume cm = (r, cm1)" by (metis surj_pair)
  have sub: "set (bucket_of cm1 i) \<subseteq> set (bucket_of cm i)"
    using csrf_validate_cases [OF v]
    by (auto simp: Let_def bucket_of_change AList.delete_eq removeExpired_def bucket_of_def [of cm] split: if_split_asm)
  then show ?thesis using assms csrf_validate_ok [of cm clk1 clk2 alive session token consume] by (auto simp: token_gone_def v)
qed

lemma token_gone_issue:
  assumes "token_gone i (cm_digest cm t) cm" "csrf_issue clk1 clk2 alive rnd session cm = (r, cm2)"
    and new: "\<And>t' a b. r = Inr (t', a, b) \<Longrightarrow> cm_digest cm t' \<noteq> cm_digest cm t"
  shows "token_gone i (cm_digest cm t) cm2 \<and> cm_digest cm2 = cm_digest cm"
proof (cases "issue_input clk1 clk2 alive rnd session")
  case (Inl e)
  with assms show ?thesis by (simp add: csrf_issue_def)
next
  case (Inr p)
  obtain now token where p: "p = (now, token)" by (cases p)
  let ?b = "evict_oldest (cm_maxOutstanding cm) (removeExpired now (bucket_of cm (fst session)))"
  let ?e = "\<lparr>ct_digest = cm_digest cm token, ct_issuedAt = now, ct_expiresAt = now + cm_ttlMs cm\<rparr>"
  have i: "r = Inr (token, now, now + cm_ttlMs cm)" "cm2 = put_bucket (fst session) (AList.update (base64url (cm_digest cm token)) ?e ?b) cm"
    using assms(2) Inr p by (simp_all add: csrf_issue_def Let_def)
  have "csrf_ok cm2" using csrf_issue_ok [of cm clk1 clk2 alive rnd session] assms(1,2) by (simp add: token_gone_def)
  moreover have "set (bucket_of cm2 (fst session)) \<subseteq> insert (base64url (cm_digest cm token), ?e) (set (bucket_of cm (fst session)))"
    using set_update_subset [of "base64url (cm_digest cm token)" ?e ?b] evict_oldest_sub [of "cm_maxOutstanding cm" "removeExpired now (bucket_of cm (fst session))"]
    by (auto simp: i(2) removeExpired_def)
  ultimately show ?thesis using assms(1) new [OF i(1)] by (auto simp: token_gone_def bucket_of_change i(2))
qed

lemma map_of_swept: "distinct (map fst m) \<Longrightarrow> map_of (filter (\<lambda>p. snd p \<noteq> []) (map (\<lambda>(i, b). (i, f b)) m)) i =
    (case map_of m i of None \<Rightarrow> None | Some b \<Rightarrow> if f b = [] then None else Some (f b))"
proof (induction m)
  case (Cons p m)
  then have "f (snd p) = [] \<Longrightarrow> i = fst p \<Longrightarrow> map_of m i = None" by (auto simp: map_of_eq_None_iff)
  with Cons show ?case by (cases p) (auto split: option.splits)
qed simp

lemma token_gone_purge:
  assumes "token_gone i d cm" shows "token_gone i d (snd (csrf_purgeExpired clk cm))"
proof (cases "readTime securityError clk")
  case (Inl e)
  with assms show ?thesis by (simp add: csrf_purgeExpired_def)
next
  case (Inr now)
  have "distinct (map fst (cm_tokens cm))" using assms by (simp add: token_gone_def csrf_ok_def keys_def)
  from map_of_swept [OF this, of "removeExpired now"] Inr
  have "bucket_of (snd (csrf_purgeExpired clk cm)) i = removeExpired now (bucket_of cm i)"
    by (auto simp: csrf_purgeExpired_def Let_def bucket_of_def removeExpired_def split: option.split)
  then show ?thesis using assms csrf_purge_ok [of cm clk] by (auto simp: token_gone_def removeExpired_def)
qed

lemma csrf_later_gone:
  "csrf_later t cm cm1 \<Longrightarrow> token_gone i (cm_digest cm t) cm \<Longrightarrow>
   token_gone i (cm_digest cm1 t) cm1 \<and> cm_digest cm1 = cm_digest cm"
proof (induction rule: csrf_later.induct)
  case (later_issue cm cm1 clk1 clk2 alive rnd session r cm2)
  then show ?case using token_gone_issue [of i cm1 t clk1 clk2 alive rnd session r cm2] by auto
next
  case (later_validate cm cm1 clk1 clk2 alive session token consume)
  then have d: "cm_digest cm1 = cm_digest cm" and g: "token_gone i (cm_digest cm1 t) cm1" by blast+
  from g [unfolded d] show ?case by (simp add: csrf_validate_digest d token_gone_validate)
next
  case (later_revoke cm cm1 v)
  then show ?case
    by (auto simp: csrf_revokeSession_def token_gone_def csrf_ok_delete bucket_of_change split: option.split)
next
  case (later_purge cm cm1 clk)
  then have d: "cm_digest cm1 = cm_digest cm" and g: "token_gone i (cm_digest cm1 t) cm1" by blast+
  from g [unfolded d] show ?case by (simp add: csrf_purge_digest d token_gone_purge)
qed simp

lemma token_gone_rejects:
  assumes "token_gone (fst session) (cm_digest cm t) cm"
  shows "fst (csrf_validate clk1 clk2 alive session (JStr t) consume cm) \<noteq> Inr ()"
proof
  assume "fst (csrf_validate clk1 clk2 alive session (JStr t) consume cm) = Inr ()"
  then obtain m b1 p where "map_of (cm_tokens cm) (fst session) = Some b1" "matching_token (cm_digest cm t) (removeExpired m b1) = Some p"
    by (auto simp: csrf_validate_def Let_def liftE_def split: sum.split_asm option.split_asm if_split_asm)
  with find_in [OF this(2) [unfolded matching_token_def]] assms show False
    by (auto simp: token_gone_def bucket_of_def removeExpired_def)
qed

lemma csrf_use_gone:
  assumes "csrf_ok cm" "csrf_validate clk1 clk2 alive session (JStr t) True cm = (Inr (), cm1)"
  shows "token_gone (fst session) (cm_digest cm1 t) cm1"
proof -
  from csrf_validate_cases [OF assms(2)] obtain now b0 k e where v:
    "map_of (cm_tokens cm) (fst session) = Some b0" "matching_token (cm_digest cm t) (removeExpired now b0) = Some (k, e)"
    "cm1 = (if AList.delete k (removeExpired now b0) = [] then drop_bucket (fst session) (put_bucket (fst session) (removeExpired now b0) cm)
       else put_bucket (fst session) (AList.delete k (removeExpired now b0)) (put_bucket (fst session) (removeExpired now b0) cm))"
    unfolding Let_def by auto
  let ?b = "removeExpired now b0"
  have b: "bucket_ok (cm_maxOutstanding cm) ?b"
    using bucket_ok_filter [OF bucket_ok_of [OF assms(1), of "fst session"]] v(1) by (simp add: bucket_of_def removeExpired_def)
  have "(k, e) \<in> set ?b" "ct_digest e = cm_digest cm t"
    using find_in [OF v(2) [unfolded matching_token_def]] by simp_all
  with b have k: "k = base64url (cm_digest cm t)" by (auto simp: bucket_ok_def)
  have "bucket_of cm1 (fst session) = AList.delete k ?b" "cm_digest cm1 = cm_digest cm" using v(3) by simp_all
  then show ?thesis using b k csrf_validate_ok [OF assms(1), of clk1 clk2 alive session "JStr t" True] assms(2)
    by (auto simp: token_gone_def AList.delete_eq bucket_ok_def)
qed

lemma csrf_ok_bound: "csrf_ok cm \<Longrightarrow> map_of (cm_tokens cm) i = Some b \<Longrightarrow> length b \<le> cm_maxOutstanding cm"
  by (auto simp: csrf_ok_def bucket_ok_def dest!: map_of_SomeD)

subsection \<open>Properties\<close>

text \<open>C23 A request token is used once: in every manager reachable by any sequence of operations, after a
  consuming validation has succeeded, whatever operations follow (unless the random source gives a
  token of the same digest again), no validation of that token for that session succeeds, at any time
  and whatever the session is said to be; and no session ever has more tokens outstanding than the
  configured maximum.\<close>

theorem csrf_token_is_used_once:
  assumes "csrf_reach cm" "csrf_validate clk1 clk2 alive session (JStr t) True cm = (Inr (), cm1)" "csrf_later t cm1 cm2"
  shows "fst (csrf_validate clk3 clk4 alive' (fst session, expires) (JStr t) consume cm2) \<noteq> Inr ()
    \<and> (\<forall>i b. map_of (cm_tokens cm2) i = Some b \<longrightarrow> length b \<le> cm_maxOutstanding cm2)"
proof -
  note g = csrf_later_gone [OF assms(3) csrf_use_gone [OF csrf_reach_ok [OF assms(1)] assms(2)], THEN conjunct1]
  then show ?thesis using token_gone_rejects [of "(fst session, expires)" cm2 t] csrf_ok_bound [of cm2] by (simp add: token_gone_def)
qed

definition example_csrf :: csrf_manager where
  "example_csrf = \<lparr>cm_ttlMs = 900000, cm_maxOutstanding = 32, cm_digest = map (\<lambda>c. of_nat (ccode c)), cm_tokens = []\<rparr>"

lemma matching_token_exists:
  assumes "(k, e) \<in> set b" "ct_digest e = d" shows "\<exists>k e. matching_token d b = Some (k, e)"
proof (cases "matching_token d b")
  case None
  with assms show ?thesis by (simp add: matching_token_def find_None_iff)
next
  case (Some p)
  then show ?thesis by (cases p) blast
qed

lemma csrf_accepts_issued:
  assumes "csrf_issue (Some now) (Some now) True (Some bs) session cm = (Inr (token, t0, t1), cm1)"
    and "session_id_ok (fst session)" "0 \<le> now" "now < snd session" "0 < cm_ttlMs cm"
  shows "\<exists>cm2. csrf_validate (Some now) (Some now) True session (JStr token) True cm1 = (Inr (), cm2)"
proof -
  have ok: "issue_input (Some now) (Some now) True (Some bs) session = Inr (now, token)"
    and len: "length bs = 32" "token = base64url bs"
    using assms(1) by (auto simp: csrf_issue_def issue_input_def normalizeRandomBytes_def Let_def)
  have tok: "session_id_ok token"
    using len base64url_length [of bs] base64url_chars [of bs] by (auto simp: session_id_ok_def list_all_iff)
  let ?d = "cm_digest cm token" and ?e = "\<lparr>ct_digest = cm_digest cm token, ct_issuedAt = now, ct_expiresAt = now + cm_ttlMs cm\<rparr>"
  obtain b where b: "cm1 = put_bucket (fst session) (AList.update (base64url ?d) ?e b) cm"
    using assms(1) ok by (auto simp: csrf_issue_def Let_def)
  have "(base64url ?d, ?e) \<in> set (AList.update (base64url ?d) ?e b)" by (intro map_of_SomeD) simp
  with assms(5) have "(base64url ?d, ?e) \<in> set (removeExpired now (AList.update (base64url ?d) ?e b))" by (simp add: removeExpired_def)
  from matching_token_exists [OF this, of ?d]
  obtain k e where m: "matching_token ?d (removeExpired now (AList.update (base64url ?d) ?e b)) = Some (k, e)" by auto
  have "\<not> ct_expiresAt e \<le> now" using find_in [OF m [unfolded matching_token_def]] by (simp add: removeExpired_def)
  with m b assms(2-4) tok show ?thesis
    by (auto simp: csrf_validate_def session_active_def assertSession_def needE_def readTime_def need_str_def Let_def)
qed

lemma csrf_token_is_used_once_witness:
  "\<exists>token cm2. fst (csrf_validate (Some 3000) (Some 3000) True (base64url (replicate 32 1), 9000) (JStr token) True (snd (csrf_purgeExpired (Some 2500) cm2))) \<noteq> Inr ()
     \<and> (\<exists>cm1. csrf_validate (Some 2000) (Some 2000) True (base64url (replicate 32 1), 9000) (JStr token) True cm1 = (Inr (), cm2))"
proof -
  let ?s = "(base64url (replicate 32 1), 9000 :: int)"
  have sid: "session_id_ok (fst ?s)"
    using base64url_length [of "replicate 32 1"] base64url_chars [of "replicate 32 1"] by (auto simp: session_id_ok_def list_all_iff)
  have "createCsrfManager (map (\<lambda>c. of_nat (ccode c))) (JInt 900000) (JInt 32) = Inr example_csrf"
    by (simp add: createCsrfManager_def assertTtl_def need_int_def is_safe_int_def max_safe_def example_csrf_def)
  then have reach: "csrf_reach example_csrf" by (rule csrf_new)
  have "issue_input (Some 2000) (Some 2000) True (Some (replicate 32 5)) ?s = Inr (2000, base64url (replicate 32 5))"
    using sid by (simp add: issue_input_def session_active_def assertSession_def needE_def normalizeRandomBytes_def)
  then obtain token t0 t1 cm1 where i: "csrf_issue (Some 2000) (Some 2000) True (Some (replicate 32 5)) ?s example_csrf = (Inr (token, t0, t1), cm1)"
    by (simp add: csrf_issue_def Let_def)
  have r1: "csrf_reach cm1"
    using csrf_issued [OF reach, of "Some 2000" "Some 2000" True "Some (replicate 32 5)" ?s] i by simp
  obtain cm2 where v: "csrf_validate (Some 2000) (Some 2000) True ?s (JStr token) True cm1 = (Inr (), cm2)"
    using csrf_accepts_issued [OF i sid] by (auto simp: example_csrf_def)
  have later: "csrf_later token cm2 (snd (csrf_purgeExpired (Some 2500) cm2))" by (intro later_purge later_now)
  from csrf_token_is_used_once [OF r1 v later, of "Some 3000" "Some 3000" True 9000 True] v show ?thesis by auto
qed

end
