(* ===== verification/Session_Credentials.thy ===== *)
theory Session_Credentials
  imports Web_Sessions
begin

section \<open>Credentials of a session\<close>

text \<open>
  \<open>src/web/security/session-credential.ts\<close>: the login password kept, encrypted, while a session lives.
  HKDF and AES-256-GCM belong to \<open>node:crypto\<close> and are arguments: \<open>hkdf\<close> takes the input key, the salt,
  the info string and the length, \<open>seal\<close> the key, the nonce, the associated data and the text,
  \<open>open_box\<close> also the tag, and it fails when the tag does not fit.  Random bytes and the readings of the
  clock are arguments of the operations.
\<close>

type_synonym hkdf = "string \<Rightarrow> bytes \<Rightarrow> string \<Rightarrow> nat \<Rightarrow> bytes"
type_synonym aead_seal = "bytes \<Rightarrow> bytes \<Rightarrow> bytes \<Rightarrow> bytes \<Rightarrow> bytes \<times> bytes"
type_synonym aead_open = "bytes \<Rightarrow> bytes \<Rightarrow> bytes \<Rightarrow> bytes \<Rightarrow> bytes \<Rightarrow> bytes option"

record credential_entry =
  ce_iv :: bytes
  ce_authTag :: bytes
  ce_ciphertext :: bytes
  ce_expiresAt :: int

record credential_store =
  cs_salt :: bytes
  cs_entries :: "(string \<times> credential_entry) list"

text \<open>UTF-8 on the code points below 256; bytes that encode none of them read as a question mark.\<close>

fun utf8 :: "string \<Rightarrow> bytes" where
  "utf8 [] = []"
| "utf8 (c # s) = (if ccode c < 128 then [of_nat (ccode c)]
     else [of_nat (192 + ccode c div 64), of_nat (128 + ccode c mod 64)]) @ utf8 s"

fun utf8_read :: "bytes \<Rightarrow> string" where
  "utf8_read [] = []"
| "utf8_read [a] = [if unat a < 128 then char_of (unat a) else CHR ''?'']"
| "utf8_read (a # b # bs) =
     (if unat a < 128 then char_of (unat a) # utf8_read (b # bs)
      else if (unat a = 194 \<or> unat a = 195) \<and> 128 \<le> unat b \<and> unat b < 192
      then char_of ((unat a - 192) * 64 + (unat b - 128)) # utf8_read bs
      else CHR ''?'' # utf8_read (b # bs))"

definition createSessionCredentialStore :: "bytes option \<Rightarrow> credential_store res" where
  "createSessionCredentialStore rnd = bindE (assertRandomBytes securityError rnd 32) (\<lambda>salt.
     Inr \<lparr>cs_salt = salt, cs_entries = []\<rparr>)"

definition deriveKey :: "hkdf \<Rightarrow> credential_store \<Rightarrow> string \<Rightarrow> bytes" where
  "deriveKey hkdf cs i = hkdf i (cs_salt cs) ''gulogulo-session-credential-v1'' 32"

definition sweep :: "int \<Rightarrow> credential_store \<Rightarrow> credential_store" where
  "sweep now cs = cs\<lparr>cs_entries := filter (\<lambda>p. \<not> ce_expiresAt (snd p) \<le> now) (cs_entries cs)\<rparr>"

definition credential_input :: "int option \<Rightarrow> jsval \<Rightarrow> jsval \<Rightarrow> jsval \<Rightarrow> (string \<times> string \<times> int \<times> int) res" where
  "credential_input clk sessionId credential expiresAt =
     bindE (assertSessionId sessionId) (\<lambda>i.
     bindE (need_str (\<lambda>c. c \<noteq> [] \<and> byte_length c \<le> 1024) (securityError ''INVALID_CREDENTIAL'') credential) (\<lambda>c.
     bindE (readTime securityError clk) (\<lambda>now.
     bindE (need_int (\<lambda>t. now < t) (securityError ''INVALID_TTL'') expiresAt) (\<lambda>t.
     Inr (i, c, now, t)))))"

definition seal_entry :: "hkdf \<Rightarrow> aead_seal \<Rightarrow> credential_store \<Rightarrow> bytes \<Rightarrow> string \<Rightarrow> string \<Rightarrow> int \<Rightarrow> credential_entry" where
  "seal_entry hkdf seal cs iv i c t = (case seal (deriveKey hkdf cs i) iv (utf8 i) (utf8 c) of
     (ciphertext, tag) \<Rightarrow> \<lparr>ce_iv = iv, ce_authTag = tag, ce_ciphertext = ciphertext, ce_expiresAt = t\<rparr>)"

definition credential_set :: "hkdf \<Rightarrow> aead_seal \<Rightarrow> bytes option \<Rightarrow> int option \<Rightarrow> jsval \<Rightarrow> jsval \<Rightarrow> jsval \<Rightarrow> credential_store \<Rightarrow>
    unit res \<times> credential_store" where
  "credential_set hkdf seal rnd clk sessionId credential expiresAt cs =
     liftE (credential_input clk sessionId credential expiresAt) cs (\<lambda>(i, c, now, t).
     liftE (assertRandomBytes securityError rnd 12) (sweep now cs) (\<lambda>iv.
       (Inr (), (sweep now cs)\<lparr>cs_entries := AList.update i (seal_entry hkdf seal cs iv i c t) (cs_entries (sweep now cs))\<rparr>)))"

definition credential_lookup :: "int option \<Rightarrow> jsval \<Rightarrow> (string \<times> int) res" where
  "credential_lookup clk sessionId = bindE (assertSessionId sessionId) (\<lambda>i. bindE (readTime securityError clk) (\<lambda>now. Inr (i, now)))"

definition open_entry :: "hkdf \<Rightarrow> aead_open \<Rightarrow> string \<Rightarrow> credential_entry \<Rightarrow> credential_store \<Rightarrow> string option res \<times> credential_store" where
  "open_entry hkdf open_box i e cs =
     (case open_box (deriveKey hkdf cs i) (ce_iv e) (utf8 i) (ce_authTag e) (ce_ciphertext e) of
        None \<Rightarrow> (Inr None, cs\<lparr>cs_entries := AList.delete i (cs_entries cs)\<rparr>)
      | Some p \<Rightarrow> (Inr (Some (utf8_read p)), cs))"

definition credential_get :: "hkdf \<Rightarrow> aead_open \<Rightarrow> int option \<Rightarrow> jsval \<Rightarrow> credential_store \<Rightarrow> string option res \<times> credential_store" where
  "credential_get hkdf open_box clk sessionId cs = liftE (credential_lookup clk sessionId) cs (\<lambda>(i, now).
     case map_of (cs_entries (sweep now cs)) i of
       None \<Rightarrow> (Inr None, sweep now cs)
     | Some e \<Rightarrow> open_entry hkdf open_box i e (sweep now cs))"

definition credential_remove :: "jsval \<Rightarrow> credential_store \<Rightarrow> bool \<times> credential_store" where
  "credential_remove sessionId cs = (case js_str sessionId of None \<Rightarrow> (False, cs)
     | Some i \<Rightarrow> if session_id_ok i
         then (i \<in> set (keys (cs_entries cs)), cs\<lparr>cs_entries := AList.delete i (cs_entries cs)\<rparr>) else (False, cs))"

definition credential_size :: "credential_store \<Rightarrow> nat" where
  "credential_size cs = length (cs_entries cs)"

lemmas credential_defs [code_defs] = createSessionCredentialStore_def deriveKey_def sweep_def credential_input_def
  seal_entry_def credential_set_def credential_lookup_def open_entry_def credential_get_def credential_remove_def
  credential_size_def

subsection \<open>Text as bytes\<close>

lemma ccode_bound: "ccode c < 256"
  by (simp add: ccode_def)

lemma utf8_read_utf8: "utf8_read (utf8 s) = s"
proof (induction s)
  case (Cons c s)
  show ?case
  proof (cases "ccode c < 128")
    case True
    then have "unat (of_nat (ccode c) :: 8 word) = ccode c" by (simp add: unat_of_nat)
    then have c: "char_of (unat (of_nat (ccode c) :: 8 word)) = c" by (simp add: ccode_def)
    show ?thesis
    proof (cases "utf8 s")
      case Nil
      with True Cons c show ?thesis by (auto simp: unat_of_nat)
    next
      case (Cons b bs)
      with True c Cons.IH show ?thesis by (simp add: unat_of_nat)
    qed
  next
    case False
    let ?a = "of_nat (192 + ccode c div 64) :: 8 word" and ?b = "of_nat (128 + ccode c mod 64) :: 8 word"
    have q: "ccode c div 64 = 2 \<or> ccode c div 64 = 3" using False ccode_bound [of c] by linarith
    have a: "unat ?a = 192 + ccode c div 64" using q by (subst unat_of_nat) auto
    have b: "unat ?b = 128 + ccode c mod 64" using mod_less_divisor [of 64 "ccode c"] by (subst unat_of_nat) simp
    have "char_of ((unat ?a - 192) * 64 + (unat ?b - 128)) = c"
      unfolding a b by (simp add: ccode_def)
    moreover have "utf8 (c # s) = ?a # ?b # utf8 s" using False by simp
    moreover have "unat ?a = 194 \<or> unat ?a = 195" "\<not> unat ?a < 128" "128 \<le> unat ?b" "unat ?b < 192"
      unfolding a b using q by auto
    ultimately show ?thesis using Cons.IH by (simp only: utf8_read.simps if_True if_False simp_thms)
  qed
qed simp

subsection \<open>A stored credential\<close>

inductive credential_reach :: "hkdf \<Rightarrow> aead_seal \<Rightarrow> aead_open \<Rightarrow> credential_store \<Rightarrow> bool" for hkdf seal open_box where
  credential_new: "createSessionCredentialStore rnd = Inr cs \<Longrightarrow> credential_reach hkdf seal open_box cs"
| credential_stored: "credential_reach hkdf seal open_box cs \<Longrightarrow> credential_reach hkdf seal open_box (snd (credential_set hkdf seal rnd clk v c t cs))"
| credential_read: "credential_reach hkdf seal open_box cs \<Longrightarrow> credential_reach hkdf seal open_box (snd (credential_get hkdf open_box clk v cs))"
| credential_removed: "credential_reach hkdf seal open_box cs \<Longrightarrow> credential_reach hkdf seal open_box (snd (credential_remove v cs))"

text \<open>Runs that leave the entry of session \<open>i\<close> alone and end before time \<open>t\<close>; reading is allowed.\<close>

definition before :: "int \<Rightarrow> int option \<Rightarrow> bool" where
  "before t clk \<longleftrightarrow> (case clk of None \<Rightarrow> True | Some now \<Rightarrow> now < t)"

inductive credential_meanwhile :: "hkdf \<Rightarrow> aead_seal \<Rightarrow> aead_open \<Rightarrow> string \<Rightarrow> int \<Rightarrow> credential_store \<Rightarrow> credential_store \<Rightarrow> bool"
  for hkdf seal open_box i t where
  meanwhile_none: "credential_meanwhile hkdf seal open_box i t cs cs"
| meanwhile_set: "credential_meanwhile hkdf seal open_box i t cs cs1 \<Longrightarrow> before t clk \<Longrightarrow> v \<noteq> JStr i \<Longrightarrow>
    credential_meanwhile hkdf seal open_box i t cs (snd (credential_set hkdf seal rnd clk v c e cs1))"
| meanwhile_get: "credential_meanwhile hkdf seal open_box i t cs cs1 \<Longrightarrow> before t clk \<Longrightarrow>
    credential_meanwhile hkdf seal open_box i t cs (snd (credential_get hkdf open_box clk v cs1))"
| meanwhile_remove: "credential_meanwhile hkdf seal open_box i t cs cs1 \<Longrightarrow> v \<noteq> JStr i \<Longrightarrow>
    credential_meanwhile hkdf seal open_box i t cs (snd (credential_remove v cs1))"

lemma sweep_simps [simp]: "cs_salt (sweep now cs) = cs_salt cs" "deriveKey hkdf (sweep now cs) = deriveKey hkdf cs"
  by (simp_all add: sweep_def deriveKey_def fun_eq_iff)

lemma map_of_filter_kept: "map_of m i = Some e \<Longrightarrow> P e \<Longrightarrow> map_of (filter (\<lambda>p. P (snd p)) m) i = Some e"
  by (induction m) (auto split: if_split_asm)

lemma sweep_keeps: "map_of (cs_entries cs) i = Some e \<Longrightarrow> now < ce_expiresAt e \<Longrightarrow> map_of (cs_entries (sweep now cs)) i = Some e"
  unfolding sweep_def by (simp add: map_of_filter_kept [where P = "\<lambda>e. \<not> ce_expiresAt e \<le> now"])

lemma sweep_drops: "distinct (keys (cs_entries cs)) \<Longrightarrow> map_of (cs_entries cs) i = Some e \<Longrightarrow> ce_expiresAt e \<le> now \<Longrightarrow>
    map_of (cs_entries (sweep now cs)) i = None"
  by (force simp: sweep_def keys_def map_of_eq_None_iff dest: map_of_SomeD eq_key_imp_eq_value)

lemma sweep_distinct: "distinct (keys (cs_entries cs)) \<Longrightarrow> distinct (keys (cs_entries (sweep now cs)))"
  by (simp add: sweep_def keys_def distinct_map_filter)

lemma credential_set_cases:
  "snd (credential_set hkdf seal rnd clk v c t cs) = cs \<or>
   (\<exists>now. clk = Some now \<and> snd (credential_set hkdf seal rnd clk v c t cs) = sweep now cs) \<or>
   (\<exists>now i e. clk = Some now \<and> v = JStr i
      \<and> snd (credential_set hkdf seal rnd clk v c t cs) = (sweep now cs)\<lparr>cs_entries := AList.update i e (cs_entries (sweep now cs))\<rparr>)"
proof (cases "credential_input clk v c t")
  case (Inr p)
  obtain i c' now t' where p: "p = (i, c', now, t')" by (cases p)
  with Inr have "clk = Some now" "v = JStr i" by (auto simp: credential_input_def assertSessionId_def)
  moreover have "snd (liftE (assertRandomBytes securityError rnd 12) (sweep now cs) (\<lambda>iv. (Inr (), f iv))) \<in> insert (sweep now cs) (range f)" for f
    by (cases "assertRandomBytes securityError rnd 12") (simp_all del: assertRandomBytes_Inr)
  ultimately show ?thesis using Inr p by (fastforce simp: credential_set_def)
qed (simp add: credential_set_def)

lemma credential_get_cases:
  "snd (credential_get hkdf open_box clk v cs) = cs \<or>
   (\<exists>now. clk = Some now \<and> snd (credential_get hkdf open_box clk v cs) = sweep now cs) \<or>
   (\<exists>now i e. clk = Some now \<and> v = JStr i \<and> map_of (cs_entries (sweep now cs)) i = Some e
      \<and> open_box (deriveKey hkdf cs i) (ce_iv e) (utf8 i) (ce_authTag e) (ce_ciphertext e) = None
      \<and> snd (credential_get hkdf open_box clk v cs) = (sweep now cs)\<lparr>cs_entries := AList.delete i (cs_entries (sweep now cs))\<rparr>)"
proof (cases "credential_lookup clk v")
  case (Inr p)
  obtain i now where p: "p = (i, now)" by (cases p)
  with Inr have "clk = Some now" "v = JStr i" by (auto simp: credential_lookup_def assertSessionId_def)
  with Inr p show ?thesis
    by (auto simp: credential_get_def open_entry_def split: option.splits)
qed (simp add: credential_get_def)

lemma credential_remove_cases:
  "snd (credential_remove v cs) = cs \<or>
   (\<exists>j. v = JStr j \<and> snd (credential_remove v cs) = cs\<lparr>cs_entries := AList.delete j (cs_entries cs)\<rparr>)"
  by (auto simp: credential_remove_def split: option.split)

lemma distinct_keys: "distinct (keys m) \<Longrightarrow> distinct (keys (AList.update k v m))"
  "distinct (keys m) \<Longrightarrow> distinct (keys (AList.delete k m))"
  by (simp_all add: keys_def distinct_update distinct_delete)

lemma credential_reach_distinct: "credential_reach hkdf seal open_box cs \<Longrightarrow> distinct (keys (cs_entries cs))"
proof (induction rule: credential_reach.induct)
  case (credential_stored cs rnd clk v c t)
  then show ?case using credential_set_cases [of hkdf seal rnd clk v c t cs]
    by (auto simp: sweep_distinct distinct_keys)
next
  case (credential_read cs clk v)
  then show ?case using credential_get_cases [of hkdf open_box clk v cs]
    by (auto simp: sweep_distinct distinct_keys)
next
  case (credential_removed cs v)
  then show ?case by (auto simp: credential_remove_def distinct_keys split: option.split)
qed (auto simp: createSessionCredentialStore_def keys_def)

definition holds_credential :: "hkdf \<Rightarrow> aead_open \<Rightarrow> string \<Rightarrow> string \<Rightarrow> int \<Rightarrow> credential_store \<Rightarrow> bool" where
  "holds_credential hkdf open_box i c t cs \<longleftrightarrow> distinct (keys (cs_entries cs)) \<and>
     (\<exists>e. map_of (cs_entries cs) i = Some e \<and> ce_expiresAt e = t
        \<and> open_box (deriveKey hkdf cs i) (ce_iv e) (utf8 i) (ce_authTag e) (ce_ciphertext e) = Some (utf8 c))"

lemma deriveKey_entries [simp]: "deriveKey hkdf (cs\<lparr>cs_entries := es\<rparr>) = deriveKey hkdf cs"
  by (simp add: deriveKey_def fun_eq_iff)

lemma holds_credential_sweep: "holds_credential hkdf open_box i c t cs \<Longrightarrow> now < t \<Longrightarrow> holds_credential hkdf open_box i c t (sweep now cs)"
  by (auto simp: holds_credential_def sweep_distinct intro: sweep_keeps)

lemma holds_credential_other:
  assumes "holds_credential hkdf open_box i c t cs" "i \<noteq> j"
  shows "holds_credential hkdf open_box i c t (cs\<lparr>cs_entries := AList.update j e (cs_entries cs)\<rparr>)"
    "holds_credential hkdf open_box i c t (cs\<lparr>cs_entries := AList.delete j (cs_entries cs)\<rparr>)"
  using assms by (simp_all add: holds_credential_def distinct_keys)

lemma meanwhile_holds:
  "credential_meanwhile hkdf seal open_box i t cs cs1 \<Longrightarrow> holds_credential hkdf open_box i c t cs \<Longrightarrow> holds_credential hkdf open_box i c t cs1"
proof (induction rule: credential_meanwhile.induct)
  case (meanwhile_set cs cs1 clk v rnd c' e)
  then have h: "holds_credential hkdf open_box i c t cs1" by blast
  from credential_set_cases [of hkdf seal rnd clk v c' e cs1] meanwhile_set(2,3) show ?case
    by (elim disjE exE conjE)
       (use h holds_credential_sweep [OF h] holds_credential_other(1) in \<open>auto simp: before_def\<close>)
next
  case (meanwhile_get cs cs1 clk v)
  then have h: "holds_credential hkdf open_box i c t cs1" by blast
  show ?case using credential_get_cases [of hkdf open_box clk v cs1]
  proof (elim disjE exE conjE)
    fix now j e
    assume g: "clk = Some now" "map_of (cs_entries (sweep now cs1)) j = Some e"
      "open_box (deriveKey hkdf cs1 j) (ce_iv e) (utf8 j) (ce_authTag e) (ce_ciphertext e) = None"
      "snd (credential_get hkdf open_box clk v cs1) = (sweep now cs1)\<lparr>cs_entries := AList.delete j (cs_entries (sweep now cs1))\<rparr>"
    have s: "holds_credential hkdf open_box i c t (sweep now cs1)"
      using holds_credential_sweep [OF h] g(1) meanwhile_get(2) by (simp add: before_def)
    with g(2,3) have "i \<noteq> j" by (auto simp: holds_credential_def)
    from holds_credential_other(2) [OF s this] g(4) show ?thesis by simp
  qed (use h holds_credential_sweep [OF h] meanwhile_get(2) in \<open>auto simp: before_def\<close>)
next
  case (meanwhile_remove cs cs1 v)
  then have h: "holds_credential hkdf open_box i c t cs1" by blast
  from credential_remove_cases [of v cs1] show ?case
  proof (elim disjE exE conjE)
    fix j assume j: "v = JStr j" "snd (credential_remove v cs1) = cs1\<lparr>cs_entries := AList.delete j (cs_entries cs1)\<rparr>"
    with meanwhile_remove(2) have "i \<noteq> j" by blast
    from holds_credential_other(2) [OF h this] j(2) show ?thesis by simp
  qed (simp add: h)
qed

lemma credential_set_holds:
  assumes "\<And>k iv a p c tag. seal k iv a p = (c, tag) \<Longrightarrow> open_box k iv a tag c = Some p"
    and "distinct (keys (cs_entries cs))"
    and "credential_set hkdf seal rnd clk (JStr i) (JStr c) (JInt t) cs = (Inr (), cs1)"
  shows "holds_credential hkdf open_box i c t cs1 \<and> session_id_ok i"
proof -
  from assms(3) obtain now iv where s: "credential_input clk (JStr i) (JStr c) (JInt t) = Inr (i, c, now, t)" "session_id_ok i"
    "cs1 = (sweep now cs)\<lparr>cs_entries := AList.update i (seal_entry hkdf seal cs iv i c t) (cs_entries (sweep now cs))\<rparr>"
    by (auto simp: credential_set_def credential_input_def assertSessionId_def)
  have "open_box (deriveKey hkdf cs i) (ce_iv e) (utf8 i) (ce_authTag e) (ce_ciphertext e) = Some (utf8 c) \<and> ce_expiresAt e = t"
    if "e = seal_entry hkdf seal cs iv i c t" for e
    using assms(1) that by (cases "seal (deriveKey hkdf cs i) iv (utf8 i) (utf8 c)") (simp add: seal_entry_def)
  then show ?thesis using s(2) by (simp add: s(3) holds_credential_def distinct_keys sweep_distinct assms(2))
qed

lemma credential_get_held:
  assumes "holds_credential hkdf open_box i c t cs" "session_id_ok i" "0 \<le> now"
  shows "fst (credential_get hkdf open_box (Some now) (JStr i) cs) = Inr (if now < t then Some c else None)
    \<and> (t \<le> now \<longrightarrow> map_of (cs_entries (snd (credential_get hkdf open_box (Some now) (JStr i) cs))) i = None)"
proof -
  have l: "credential_lookup (Some now) (JStr i) = Inr (i, now)"
    using assms(2,3) by (simp add: credential_lookup_def assertSessionId_def need_str_def)
  show ?thesis
  proof (cases "now < t")
    case True
    then have "holds_credential hkdf open_box i c t (sweep now cs)" by (rule holds_credential_sweep [OF assms(1)])
    with l True show ?thesis by (auto simp: credential_get_def open_entry_def holds_credential_def utf8_read_utf8)
  next
    case False
    obtain e where e: "map_of (cs_entries cs) i = Some e" "ce_expiresAt e = t" "distinct (keys (cs_entries cs))"
      using assms(1) by (auto simp: holds_credential_def)
    then have "ce_expiresAt e \<le> now" using False by simp
    then have "map_of (cs_entries (sweep now cs)) i = None" by (rule sweep_drops [OF e(3,1)])
    with l False show ?thesis by (simp add: credential_get_def)
  qed
qed

subsection \<open>Property\<close>

text \<open>C24 A credential lives exactly as long as its session: with AES-GCM that opens what it sealed, a
  password stored for a session in a reachable store is read back unchanged, by any number of reads
  and whatever happens to other sessions in between, until the time it expires; from then on the read
  finds nothing and nothing of it is left in the store.\<close>

theorem credential_lives_until_expiry:
  assumes gcm: "\<And>k iv a p c tag. seal k iv a p = (c, tag) \<Longrightarrow> open_box k iv a tag c = Some p"
    and "credential_reach hkdf seal open_box cs"
    and "credential_set hkdf seal rnd clk (JStr i) (JStr c) (JInt t) cs = (Inr (), cs1)"
    and "credential_meanwhile hkdf seal open_box i t cs1 cs2" "0 \<le> now"
  shows "fst (credential_get hkdf open_box (Some now) (JStr i) cs2) = Inr (if now < t then Some c else None)
    \<and> (t \<le> now \<longrightarrow> map_of (cs_entries (snd (credential_get hkdf open_box (Some now) (JStr i) cs2))) i = None)"
proof -
  have "holds_credential hkdf open_box i c t cs1" "session_id_ok i"
    using credential_set_holds [OF gcm credential_reach_distinct [OF assms(2)] assms(3)] by simp_all
  with credential_get_held [OF meanwhile_holds [OF assms(4)] _ assms(5)] show ?thesis by blast
qed

definition example_seal :: aead_seal where
  "example_seal k iv a p = (p, k @ iv @ a)"

definition example_open :: aead_open where
  "example_open k iv a tag c = (if tag = k @ iv @ a then Some c else None)"

lemma credential_lives_until_expiry_witness:
  "\<exists>i cs. fst (credential_get (\<lambda>i salt info n. salt) example_open (Some 1500) (JStr i) cs) = Inr (Some ''pass-1'')
     \<and> fst (credential_get (\<lambda>i salt info n. salt) example_open (Some 2000) (JStr i) cs) = Inr None"
proof -
  let ?h = "\<lambda>i salt info n. salt" and ?i = "replicate 43 (CHR ''a'')" and ?cs = "\<lparr>cs_salt = replicate 32 1, cs_entries = []\<rparr>"
  have reach: "credential_reach ?h example_seal example_open ?cs"
    by (rule credential_new [of "Some (replicate 32 1)"]) (simp add: createSessionCredentialStore_def)
  have "credential_input (Some 1000) (JStr ?i) (JStr ''pass-1'') (JInt 2000) = Inr (?i, ''pass-1'', 1000, 2000)"
    by code_simp
  then obtain cs1 where set: "credential_set ?h example_seal (Some (replicate 12 7)) (Some 1000) (JStr ?i) (JStr ''pass-1'') (JInt 2000) ?cs = (Inr (), cs1)"
    by (simp add: credential_set_def)
  have "credential_meanwhile ?h example_seal example_open ?i 2000 cs1 (snd (credential_get ?h example_open (Some 1200) (JStr ?i) cs1))"
    by (intro meanwhile_get meanwhile_none) (simp add: before_def)
  from credential_lives_until_expiry [OF _ reach set this, of 1500] credential_lives_until_expiry [OF _ reach set this, of 2000]
  show ?thesis by (auto simp: example_seal_def example_open_def)
qed

end
