(* ===== verification/Passwords.thy ===== *)
theory Passwords
  imports Auth_Factors
begin

section \<open>Passwords\<close>

text \<open>
  \<open>src/core/auth/password-policy.ts\<close> and \<open>src/core/auth/password-hashing.ts\<close>: which passwords are accepted,
  and the stored form of a password.  \<open>scrypt\<close> belongs to \<open>node:crypto\<close> and is an argument: it takes the
  password, the salt and the three cost parameters, and fails when it throws.  Numbers read from a stored
  hash are natural numbers: a number too large for a double is out of range for the cost check anyway.
\<close>

subsection \<open>The policy\<close>

definition passwordPolicyError :: "string \<Rightarrow> err" where
  "passwordPolicyError code = Err PasswordErr code 0"

definition PASSWORD_SYMBOLS :: string where
  "PASSWORD_SYMBOLS = ''!#$%&'' @ [CHR 39] @ ''()*+,-./:;<=>?@['' @ [CHR 92] @ '']^_`{|}~''"

definition password_char :: "char \<Rightarrow> bool" where
  "password_char c \<longleftrightarrow> is_alnum c \<or> one_of PASSWORD_SYMBOLS c"

datatype password_check = Rejected string | Accepted int

definition validatePasswordExpiryDays :: "jsval \<Rightarrow> password_check" where
  "validatePasswordExpiryDays v = (case v of
     JInt n \<Rightarrow> if is_safe_int n \<and> 0 \<le> n \<and> n \<le> 9999 then Accepted n else Rejected ''PASSWORD_EXPIRY_OUT_OF_RANGE''
   | _ \<Rightarrow> Rejected ''PASSWORD_EXPIRY_OUT_OF_RANGE'')"

record password_policy =
  pp_minLength :: int
  pp_maxLength :: int
  pp_expiryDays :: int

definition policy_integer :: "jsval \<Rightarrow> int res" where
  "policy_integer v = need_int (\<lambda>_. True) (passwordPolicyError ''INVALID_POLICY'') v"

definition createPasswordPolicy :: "jsval \<Rightarrow> jsval \<Rightarrow> jsval \<Rightarrow> password_policy res" where
  "createPasswordPolicy minLength maxLength expiryDays =
     bindE (policy_integer (js_default minLength (JInt 8))) (\<lambda>lo.
     bindE (policy_integer (js_default maxLength (JInt 256))) (\<lambda>hi.
     bindE (needE (8 \<le> lo \<and> lo \<le> hi) (passwordPolicyError ''INVALID_POLICY'')) (\<lambda>_.
     bindE (needE (256 \<le> hi \<and> hi \<le> 1024) (passwordPolicyError ''INVALID_POLICY'')) (\<lambda>_.
     case validatePasswordExpiryDays (js_default expiryDays (JInt 0)) of
       Rejected _ \<Rightarrow> Inl (passwordPolicyError ''INVALID_POLICY'')
     | Accepted d \<Rightarrow> Inr \<lparr>pp_minLength = lo, pp_maxLength = hi, pp_expiryDays = d\<rparr>))))"

definition validate_password :: "password_policy \<Rightarrow> jsval \<Rightarrow> password_check" where
  "validate_password p v = (case js_str v of None \<Rightarrow> Rejected ''PASSWORD_NOT_STRING''
     | Some s \<Rightarrow>
         if int (length s) < pp_minLength p then Rejected ''PASSWORD_TOO_SHORT''
         else if pp_maxLength p < int (length s) then Rejected ''PASSWORD_TOO_LONG''
         else if \<not> (s \<noteq> [] \<and> list_all password_char s)
         then Rejected (if list_ex (\<lambda>c. 127 < ccode c) s then ''PASSWORD_NON_ASCII'' else ''PASSWORD_CHARACTER_NOT_ALLOWED'')
         else Accepted (pp_expiryDays p))"

definition check_res :: "password_check \<Rightarrow> int res" where
  "check_res r = (case r of Rejected code \<Rightarrow> Inl (passwordPolicyError code) | Accepted d \<Rightarrow> Inr d)"

definition assert_password :: "password_policy \<Rightarrow> jsval \<Rightarrow> int res" where
  "assert_password p v = check_res (validate_password p v)"

definition validateBaselinePassword :: "jsval \<Rightarrow> password_check res" where
  "validateBaselinePassword v = bindE (createPasswordPolicy JUndef JUndef JUndef) (\<lambda>p. Inr (validate_password p v))"

definition assertPasswordExpiryDays :: "jsval \<Rightarrow> int res" where
  "assertPasswordExpiryDays v = check_res (validatePasswordExpiryDays v)"

lemmas policy_defs [code_defs] = passwordPolicyError_def PASSWORD_SYMBOLS_def password_char_def validatePasswordExpiryDays_def
  policy_integer_def createPasswordPolicy_def validate_password_def check_res_def assert_password_def
  validateBaselinePassword_def assertPasswordExpiryDays_def

subsection \<open>The stored form\<close>

definition hashError :: "string \<Rightarrow> err" where
  "hashError code = Err PasswordErr code 0"

record hash_cost =
  hc_N :: nat
  hc_r :: nat
  hc_p :: nat

type_synonym scrypt = "string \<Rightarrow> bytes \<Rightarrow> hash_cost \<Rightarrow> bytes option"

definition cost_ok :: "hash_cost \<Rightarrow> bool" where
  "cost_ok c \<longleftrightarrow> 16384 \<le> hc_N c \<and> hc_N c \<le> 1048576 \<and> and (hc_N c) (hc_N c - 1) = 0
     \<and> 1 \<le> hc_r c \<and> hc_r c \<le> 32 \<and> 1 \<le> hc_p c \<and> hc_p c \<le> 8"

definition assertCost :: "hash_cost \<Rightarrow> hash_cost res" where
  "assertCost c = bindE (needE (cost_ok c) (hashError ''INVALID_HASH_CONFIGURATION'')) (\<lambda>_. Inr c)"

definition derive :: "scrypt \<Rightarrow> string \<Rightarrow> bytes \<Rightarrow> hash_cost \<Rightarrow> bytes res" where
  "derive scrypt password salt cost = (case scrypt password salt cost of
     None \<Rightarrow> Inl (hashError ''HASH_DERIVATION_FAILED'') | Some d \<Rightarrow> Inr d)"

text \<open>A field of the pattern: its label and then a number.\<close>

definition number_field :: "string \<Rightarrow> string \<Rightarrow> nat option" where
  "number_field label s = (let t = drop (length label) s in
     if starts_with label s \<and> t \<noteq> [] \<and> list_all is_digit t then Some (undec t) else None)"

definition parse_cost :: "string \<Rightarrow> hash_cost option" where
  "parse_cost s = (case split_by (\<lambda>c. c = CHR '','') s of
     [a, b, c] \<Rightarrow> (case (number_field ''N='' a, number_field ''r='' b, number_field ''p='' c) of
         (Some n, Some r, Some p) \<Rightarrow> Some \<lparr>hc_N = n, hc_r = r, hc_p = p\<rparr> | _ \<Rightarrow> None)
   | _ \<Rightarrow> None)"

definition url_field :: "string \<Rightarrow> bytes option" where
  "url_field s = (if s \<noteq> [] \<and> list_all url_char s then Some (dec_alphabet 6 base64url_alphabet s) else None)"

definition parse_fields :: "string \<Rightarrow> (nat \<times> hash_cost \<times> bytes \<times> bytes) option" where
  "parse_fields s = (case split_by (\<lambda>c. c = CHR ''$'') s of
     [a, v, c, x, y] \<Rightarrow> if a \<noteq> ''scrypt'' then None
       else (case (number_field ''v'' v, parse_cost c, url_field x, url_field y) of
         (Some n, Some cost, Some salt, Some digest) \<Rightarrow> Some (n, cost, salt, digest) | _ \<Rightarrow> None)
   | _ \<Rightarrow> None)"

definition parseHash :: "jsval \<Rightarrow> (hash_cost \<times> bytes \<times> bytes) option" where
  "parseHash encoded = (case js_str encoded of None \<Rightarrow> None
     | Some s \<Rightarrow> if 512 < length s then None
         else (case parse_fields s of None \<Rightarrow> None
           | Some (n, cost, salt, digest) \<Rightarrow>
               if n \<noteq> 1 \<or> \<not> cost_ok cost \<or> length salt \<noteq> 16 \<or> length digest \<noteq> 32 then None
               else Some (cost, salt, digest)))"

record password_hasher =
  ph_policy :: password_policy
  ph_cost :: hash_cost

definition createPasswordHasher :: "password_policy \<Rightarrow> hash_cost \<Rightarrow> password_hasher res" where
  "createPasswordHasher policy cost = bindE (assertCost cost) (\<lambda>c. Inr \<lparr>ph_policy = policy, ph_cost = c\<rparr>)"

definition hash_text :: "hash_cost \<Rightarrow> bytes \<Rightarrow> bytes \<Rightarrow> string" where
  "hash_text c salt digest = ''scrypt$v1$N='' @ dec (hc_N c) @ '',r='' @ dec (hc_r c) @ '',p='' @ dec (hc_p c)
     @ ''$'' @ base64url salt @ ''$'' @ base64url digest"

definition hash_password :: "scrypt \<Rightarrow> bytes option \<Rightarrow> password_hasher \<Rightarrow> string \<Rightarrow> string res" where
  "hash_password scrypt rnd h password =
     bindE (assert_password (ph_policy h) (JStr password)) (\<lambda>_.
     bindE (assertRandomBytes hashError rnd 16) (\<lambda>salt.
     bindE (derive scrypt password salt (ph_cost h)) (\<lambda>digest.
     Inr (hash_text (ph_cost h) salt digest))))"

datatype verification = HashInvalid | NotString | PasswordInvalid | Valid (needs_rehash: bool)

definition verify_password :: "scrypt \<Rightarrow> password_hasher \<Rightarrow> jsval \<Rightarrow> jsval \<Rightarrow> verification" where
  "verify_password scrypt h password encoded = (case js_str password of None \<Rightarrow> NotString
     | Some s \<Rightarrow> (case parseHash encoded of None \<Rightarrow> HashInvalid
         | Some (cost, salt, digest) \<Rightarrow> (case derive scrypt s salt cost of
             Inl _ \<Rightarrow> HashInvalid
           | Inr d \<Rightarrow> if d = digest then Valid (cost \<noteq> ph_cost h) else PasswordInvalid)))"

lemmas hashing_defs [code_defs] = hashError_def cost_ok_def assertCost_def derive_def number_field_def parse_cost_def
  url_field_def parse_fields_def parseHash_def createPasswordHasher_def hash_text_def hash_password_def verify_password_def

subsection \<open>Facts\<close>

lemma symbol_codes: "map ccode PASSWORD_SYMBOLS = [33] @ [35..<48] @ [58..<65] @ [91..<97] @ [123..<127]"
  by code_simp

lemma password_codes: "\<forall>n\<in>set [0..<256 :: nat].
    (48 \<le> n \<and> n \<le> 57 \<or> 97 \<le> n \<and> n \<le> 122 \<or> 65 \<le> n \<and> n \<le> 90 \<or> n = 33 \<or> 35 \<le> n \<and> n < 48 \<or> 58 \<le> n \<and> n < 65
      \<or> 91 \<le> n \<and> n < 97 \<or> 123 \<le> n \<and> n < 127) \<longleftrightarrow> (33 \<le> n \<and> n \<le> 126 \<and> n \<noteq> 34)"
  by code_simp

lemma password_char_iff: "password_char c \<longleftrightarrow> 33 \<le> ccode c \<and> ccode c \<le> 126 \<and> ccode c \<noteq> 34"
proof -
  have "inj ccode" by (simp add: inj_def ccode_def)
  then have "one_of PASSWORD_SYMBOLS c \<longleftrightarrow> ccode c \<in> set (map ccode PASSWORD_SYMBOLS)"
    by (auto simp: one_of_def inj_eq)
  then have "one_of PASSWORD_SYMBOLS c \<longleftrightarrow> ccode c = 33 \<or> 35 \<le> ccode c \<and> ccode c < 48 \<or> 58 \<le> ccode c \<and> ccode c < 65
      \<or> 91 \<le> ccode c \<and> ccode c < 97 \<or> 123 \<le> ccode c \<and> ccode c < 127"
    by (simp only: symbol_codes set_append set_upt Un_iff atLeastLessThan_iff list.set insert_iff empty_iff simp_thms disj_assoc)
  then have "password_char c \<longleftrightarrow> 48 \<le> ccode c \<and> ccode c \<le> 57 \<or> 97 \<le> ccode c \<and> ccode c \<le> 122 \<or> 65 \<le> ccode c \<and> ccode c \<le> 90
      \<or> ccode c = 33 \<or> 35 \<le> ccode c \<and> ccode c < 48 \<or> 58 \<le> ccode c \<and> ccode c < 65
      \<or> 91 \<le> ccode c \<and> ccode c < 97 \<or> 123 \<le> ccode c \<and> ccode c < 127"
    unfolding password_char_def is_alnum_def is_upper_def is_lower_def is_digit_def by blast
  moreover have "ccode c \<in> set [0..<256]" by (simp add: ccode_def del: upt_rec_numeral)
  ultimately show ?thesis using password_codes by blast
qed

lemma number_field_dec: "number_field label (label @ dec n) = Some n"
proof -
  have "dec n \<noteq> []" by (subst dec.simps) simp
  then show ?thesis by (simp add: number_field_def starts_with_def dec_digits)
qed

lemma digits_exclude: "list_all is_digit s \<Longrightarrow> \<not> is_digit x \<Longrightarrow> list_all (\<lambda>c. c \<noteq> x) s"
  by (auto simp: list_all_iff)

lemma parse_cost_text: "parse_cost (''N='' @ dec a @ '',r='' @ dec b @ '',p='' @ dec c) = Some \<lparr>hc_N = a, hc_r = b, hc_p = c\<rparr>"
proof -
  have d: "list_all (\<lambda>x. \<not> x = CHR '','') (dec n)" for n
    using digits_exclude [OF dec_digits] by (simp add: is_digit_def ccode_def)
  have "split_by (\<lambda>c. c = CHR '','') (''N='' @ dec a @ '',r='' @ dec b @ '',p='' @ dec c) = [''N='' @ dec a, ''r='' @ dec b, ''p='' @ dec c]"
    using d split_by_word [of "\<lambda>c. c = CHR '',''" "''N='' @ dec a" "CHR '',''"]
      split_by_word [of "\<lambda>c. c = CHR '',''" "''r='' @ dec b" "CHR '',''"] split_by_last [of "\<lambda>c. c = CHR '',''" "''p='' @ dec c"]
    by simp
  then show ?thesis using number_field_dec [of "''N=''" a] number_field_dec [of "''r=''" b] number_field_dec [of "''p=''" c]
    by (simp add: parse_cost_def)
qed

lemma url_field_base64url: "bs \<noteq> [] \<Longrightarrow> url_field (base64url bs) = Some bs"
  using base64url_chars [of bs] base64url_nonempty [of bs] by (auto simp: url_field_def dec_base64url list_all_iff)

lemma no_dollar: "list_all (\<lambda>x. \<not> x = CHR ''$'') (dec n)" "list_all (\<lambda>x. \<not> x = CHR ''$'') (base64url bs)"
proof -
  show "list_all (\<lambda>x. \<not> x = CHR ''$'') (dec n)"
    using digits_exclude [OF dec_digits] by (simp add: is_digit_def ccode_def)
  have "\<not> url_char (CHR ''$'')" by code_simp
  then show "list_all (\<lambda>x. \<not> x = CHR ''$'') (base64url bs)"
    using base64url_chars [of bs] by (auto simp: list_all_iff)
qed

lemma parse_fields_text:
  assumes "salt \<noteq> []" "digest \<noteq> []"
  shows "parse_fields (hash_text c salt digest) = Some (1, c, salt, digest)"
proof -
  let ?p = "\<lambda>c. c = CHR ''$''" and ?c = "''N='' @ dec (hc_N c) @ '',r='' @ dec (hc_r c) @ '',p='' @ dec (hc_p c)"
  have "split_by ?p (''scrypt'' @ CHR ''$'' # ''v1'' @ CHR ''$'' # ?c @ CHR ''$'' # base64url salt @ CHR ''$'' # base64url digest)
      = [''scrypt'', ''v1'', ?c, base64url salt, base64url digest]"
  proof -
    have "list_all (\<lambda>x. \<not> ?p x) ?c" using no_dollar(1) by simp
    then show ?thesis
      by (simp only: split_by_word [where p = ?p and d = "CHR ''$''"] split_by_last [where p = ?p] no_dollar list.pred_inject simp_thms char.inject)
  qed
  moreover have "number_field ''v'' ''v1'' = Some 1" by code_simp
  ultimately show ?thesis
    using parse_cost_text [of "hc_N c" "hc_r c" "hc_p c"] assms by (simp add: parse_fields_def hash_text_def url_field_base64url)
qed

lemma hash_text_length:
  assumes "cost_ok c" "length salt = 16" "length digest = 32"
  shows "length (hash_text c salt digest) \<le> 512"
proof -
  have "length (dec (hc_N c)) \<le> 7" "length (dec (hc_r c)) \<le> 2" "length (dec (hc_p c)) \<le> 1"
    using assms(1) by (simp_all add: length_dec_le cost_ok_def)
  then show ?thesis using assms(2,3) by (simp add: hash_text_def base64url_length)
qed

lemma parseHash_text:
  assumes "cost_ok c" "length salt = 16" "length digest = 32"
  shows "parseHash (JStr (hash_text c salt digest)) = Some (c, salt, digest)"
proof -
  have "parse_fields (hash_text c salt digest) = Some (1, c, salt, digest)"
    using assms by (intro parse_fields_text) auto
  then show ?thesis using hash_text_length [OF assms] assms by (simp add: parseHash_def)
qed

subsection \<open>Properties\<close>

text \<open>What a password is: under a policy made by \<open>createPasswordPolicy\<close> exactly the strings of the
  configured length are accepted whose characters are printable ASCII other than the space and the
  double quote, with the expiry of the policy; nothing shorter than 8 or longer than 1024 characters
  is ever accepted, whatever the policy.\<close>

theorem accepted_passwords:
  assumes "createPasswordPolicy minLength maxLength expiryDays = Inr p"
  shows "(validate_password p v = Accepted d \<longleftrightarrow>
      (\<exists>s. v = JStr s \<and> pp_minLength p \<le> int (length s) \<and> int (length s) \<le> pp_maxLength p
        \<and> (\<forall>c\<in>set s. 33 \<le> ccode c \<and> ccode c \<le> 126 \<and> ccode c \<noteq> 34) \<and> d = pp_expiryDays p))
    \<and> (validate_password p v = Accepted d \<longrightarrow> (\<exists>s. v = JStr s \<and> 8 \<le> length s \<and> length s \<le> 1024) \<and> 0 \<le> d \<and> d \<le> 9999)"
proof -
  have p: "8 \<le> pp_minLength p" "pp_maxLength p \<le> 1024" "0 \<le> pp_expiryDays p" "pp_expiryDays p \<le> 9999"
    using assms by (auto simp: createPasswordPolicy_def validatePasswordExpiryDays_def policy_integer_def
        split: password_check.splits jsval.splits if_splits)
  have v: "validate_password p v = Accepted d \<longleftrightarrow> (\<exists>s. v = JStr s \<and> pp_minLength p \<le> int (length s) \<and> int (length s) \<le> pp_maxLength p
      \<and> (\<forall>c\<in>set s. 33 \<le> ccode c \<and> ccode c \<le> 126 \<and> ccode c \<noteq> 34) \<and> d = pp_expiryDays p)"
    using p(1) by (auto simp: validate_password_def list_all_iff password_char_iff split: option.splits)
  then show ?thesis using p by auto
qed

lemma accepted_passwords_witness:
  "\<exists>p. createPasswordPolicy (JInt 12) JUndef (JInt 90) = Inr p
    \<and> validate_password p (JStr ''Gulo+Gulo-2026'') = Accepted 90 \<and> validate_password p (JStr ''Gulo Gulo 2026'') \<noteq> Accepted 90"
proof -
  have p: "createPasswordPolicy (JInt 12) JUndef (JInt 90) = Inr \<lparr>pp_minLength = 12, pp_maxLength = 256, pp_expiryDays = 90\<rparr>"
    by code_simp
  have "\<forall>c\<in>set ''Gulo+Gulo-2026''. 33 \<le> ccode c \<and> ccode c \<le> 126 \<and> ccode c \<noteq> 34" "CHR '' '' \<in> set ''Gulo Gulo 2026''" "\<not> 33 \<le> ccode (CHR '' '')"
    by code_simp+
  with p accepted_passwords [OF p, of "JStr ''Gulo+Gulo-2026''" 90] accepted_passwords [OF p, of "JStr ''Gulo Gulo 2026''" 90]
  show ?thesis by auto
qed

text \<open>C25 A stored password is read back: with a \<open>scrypt\<close> that returns 32 bytes, the text that \<open>hash\<close>
  returns parses to the salt, the digest and the cost it was made with, so the password verifies
  against it, another one does only when \<open>scrypt\<close> gives both the same digest, and a rehash is asked
  for exactly when the cost configured by then differs.\<close>

theorem hashed_password_verifies:
  assumes "\<And>pw salt c d. scrypt pw salt c = Some d \<Longrightarrow> length d = 32"
    and "createPasswordHasher policy cost = Inr h" "hash_password scrypt rnd h password = Inr s"
  shows "\<exists>salt digest. rnd = Some salt \<and> scrypt password salt cost = Some digest
    \<and> (\<forall>h' pw. verify_password scrypt h' (JStr pw) (JStr s) = (case scrypt pw salt cost of
        None \<Rightarrow> HashInvalid | Some d \<Rightarrow> if d = digest then Valid (cost \<noteq> ph_cost h') else PasswordInvalid))"
proof -
  from assms(2) have c: "ph_cost h = cost" "cost_ok cost" by (auto simp: createPasswordHasher_def assertCost_def)
  from assms(3) obtain salt digest where s: "rnd = Some salt" "length salt = 16" "scrypt password salt cost = Some digest"
    "s = hash_text cost salt digest"
    by (auto simp: hash_password_def derive_def c split: option.splits)
  with parseHash_text [OF c(2) s(2) assms(1) [OF s(3)]]
  have "verify_password scrypt h' (JStr pw) (JStr s) = (case scrypt pw salt cost of
        None \<Rightarrow> HashInvalid | Some d \<Rightarrow> if d = digest then Valid (cost \<noteq> ph_cost h') else PasswordInvalid)" for h' pw
    by (simp add: verify_password_def derive_def split: option.split)
  with s show ?thesis by blast
qed

definition example_scrypt :: scrypt where
  "example_scrypt pw salt c = Some (take 32 (salt @ map (\<lambda>x. of_nat (ccode x)) pw @ replicate 32 0))"

lemma hashed_password_verifies_witness:
  "\<exists>h s. verify_password example_scrypt h (JStr ''Gulo+Gulo-2026'') (JStr s) = Valid False
    \<and> verify_password example_scrypt h (JStr ''Gulo+Gulo-2027'') (JStr s) = PasswordInvalid"
proof -
  let ?p = "\<lparr>pp_minLength = 12, pp_maxLength = 256, pp_expiryDays = 90\<rparr>" and ?c = "\<lparr>hc_N = 16384, hc_r = 8, hc_p = 1\<rparr>"
  let ?h = "\<lparr>ph_policy = ?p, ph_cost = ?c\<rparr>"
  have h: "createPasswordHasher ?p ?c = Inr ?h" by (simp add: createPasswordHasher_def assertCost_def needE_def cost_ok_def)
  have "assert_password ?p (JStr ''Gulo+Gulo-2026'') = Inr 90" by code_simp
  then obtain s where s: "hash_password example_scrypt (Some (replicate 16 3)) ?h ''Gulo+Gulo-2026'' = Inr s"
    by (auto simp: hash_password_def derive_def example_scrypt_def)
  have len: "example_scrypt pw salt c = Some d \<Longrightarrow> length d = 32" for pw salt c d by (auto simp: example_scrypt_def)
  have ne: "example_scrypt ''Gulo+Gulo-2027'' (replicate 16 3) ?c \<noteq> example_scrypt ''Gulo+Gulo-2026'' (replicate 16 3) ?c"
    by code_simp
  obtain d1 d2 where d: "example_scrypt ''Gulo+Gulo-2027'' (replicate 16 3) ?c = Some d1" "example_scrypt ''Gulo+Gulo-2026'' (replicate 16 3) ?c = Some d2"
    by (simp add: example_scrypt_def)
  from hashed_password_verifies [of example_scrypt, OF len h s] d ne show ?thesis by (intro exI [of _ ?h] exI [of _ s]) auto
qed

end
