(* ===== verification/Abuse_Limits.thy ===== *)
theory Abuse_Limits
  imports JS_Base
begin

section \<open>Rate limits\<close>

text \<open>
  The first half of \<open>src/core/ops/abuse/index.ts\<close>: the checks of its arguments and the limiter with its
  three dimensions.  The buckets are an association list in insertion order, which is the order in
  which \<open>prune\<close> evicts them.  The digest of a subject, SHA-256 of \<open>node:crypto\<close>, is a field of the
  limiter; it takes the text that is hashed.  A time is what \<open>now\<close> holds or what the clock returns,
  a value of unknown type that must convert to a date.
\<close>

definition abuseError :: "string \<Rightarrow> err" where
  "abuseError code = Err AbuseErr code 0"

definition ABUSE_CHANNELS :: "string list" where
  "ABUSE_CHANNELS = [''http'', ''api'', ''mcp'', ''login'', ''recovery'', ''backup'', ''websocket'', ''dav'', ''smtp'', ''imap'']"

definition ABUSE_DIMENSIONS :: "string list" where
  "ABUSE_DIMENSIONS = [''tenant'', ''ip'', ''session'']"

definition ABUSE_SUBJECT_TYPES :: "string list" where
  "ABUSE_SUBJECT_TYPES = [''tenant'', ''ip'', ''session'', ''user'']"

subsection \<open>Checks\<close>

definition plain_object :: "jsval \<Rightarrow> (string \<times> jsval) list option" where
  "plain_object v = (case v of JObj kvs \<Rightarrow> Some kvs | _ \<Rightarrow> None)"

definition assertPlainObject :: "jsval \<Rightarrow> (string \<times> jsval) list res" where
  "assertPlainObject v = (case plain_object v of None \<Rightarrow> Inl (abuseError ''INVALID_INPUT'') | Some kvs \<Rightarrow> Inr kvs)"

definition assertString :: "(string \<Rightarrow> bool) \<Rightarrow> nat \<Rightarrow> jsval \<Rightarrow> string res" where
  "assertString pattern maximum v = need_str (\<lambda>s. s \<noteq> [] \<and> length s \<le> maximum \<and> pattern s) (abuseError ''INVALID_INPUT'') v"

definition assertId :: "jsval \<Rightarrow> string res" where
  "assertId v = assertString actor_id_ok 128 v"

definition reason_text_ok :: "string \<Rightarrow> bool" where
  "reason_text_ok s \<longleftrightarrow> head_tail is_alnum (\<lambda>c. is_alnum c \<or> one_of ''._:-'' c) 127 s"

definition dateable :: "jsval \<Rightarrow> bool" where
  "dateable v \<longleftrightarrow> (case v of JDate _ \<Rightarrow> True | JStr _ \<Rightarrow> True | JInt _ \<Rightarrow> True | JFrac _ \<Rightarrow> True | JNonFinite \<Rightarrow> True | _ \<Rightarrow> False)"

definition assertDate :: "(string \<Rightarrow> int option) \<Rightarrow> jsval \<Rightarrow> int res" where
  "assertDate pd v = (if \<not> dateable v then Inl (abuseError ''INVALID_TIMESTAMP'')
     else (case to_date pd v of None \<Rightarrow> Inl (abuseError ''INVALID_TIMESTAMP'') | Some t \<Rightarrow> Inr t))"

definition assertInteger :: "int \<Rightarrow> int \<Rightarrow> jsval \<Rightarrow> int res" where
  "assertInteger minimum maximum v = need_int (\<lambda>n. minimum \<le> n \<and> n \<le> maximum) (abuseError ''INVALID_NUMBER'') v"

definition assertChannel :: "jsval \<Rightarrow> string res" where
  "assertChannel v = need_str (\<lambda>s. s \<in> set ABUSE_CHANNELS) (abuseError ''INVALID_CHANNEL'') v"

definition assertSubjectType :: "jsval \<Rightarrow> string res" where
  "assertSubjectType v = need_str (\<lambda>s. s \<in> set ABUSE_SUBJECT_TYPES) (abuseError ''INVALID_SUBJECT'') v"

definition digestSubject :: "(string \<Rightarrow> string) \<Rightarrow> string \<Rightarrow> string \<Rightarrow> string" where
  "digestSubject sha256 subjectType value = sha256 (subjectType @ CHR 0x00 # value)"

subsection \<open>Limits\<close>

record rate_rule =
  rr_max :: int
  rr_windowMs :: int

type_synonym rate_limits = "(string \<times> (string \<times> rate_rule) list) list"

definition normalizeRateRule :: "jsval \<Rightarrow> rate_rule res" where
  "normalizeRateRule v = bindE (assertPlainObject v) (\<lambda>_.
     bindE (assertInteger 1 1000000 (jget v ''max'')) (\<lambda>m.
     bindE (assertInteger 1000 86400000 (jget v ''windowMs'')) (\<lambda>w.
     Inr \<lparr>rr_max = m, rr_windowMs = w\<rparr>)))"

definition makeChannelLimits :: "int \<Rightarrow> int \<Rightarrow> int \<Rightarrow> jsval" where
  "makeChannelLimits tenantMax ipMax sessionMax = JObj [
     (''tenant'', JObj [(''max'', JInt tenantMax), (''windowMs'', JInt 60000)]),
     (''ip'', JObj [(''max'', JInt ipMax), (''windowMs'', JInt 60000)]),
     (''session'', JObj [(''max'', JInt sessionMax), (''windowMs'', JInt 60000)])]"

definition DEFAULT_RATE_LIMITS :: jsval where
  "DEFAULT_RATE_LIMITS = JObj [
     (''http'', makeChannelLimits 600 120 120), (''api'', makeChannelLimits 300 120 120),
     (''mcp'', makeChannelLimits 120 30 60), (''login'', makeChannelLimits 60 10 10),
     (''recovery'', makeChannelLimits 30 5 5), (''backup'', makeChannelLimits 30 10 10),
     (''websocket'', makeChannelLimits 120 60 60), (''dav'', makeChannelLimits 300 60 120),
     (''smtp'', makeChannelLimits 600 60 120), (''imap'', makeChannelLimits 600 60 120)]"

definition normalize_channel :: "jsval \<Rightarrow> string \<Rightarrow> (string \<times> (string \<times> rate_rule) list) res" where
  "normalize_channel limits channel =
     (let configured = js_or_else (jget limits channel) (jget DEFAULT_RATE_LIMITS channel) in
      bindE (assertPlainObject configured) (\<lambda>_.
      bindE (mapE (\<lambda>d. bindE (normalizeRateRule (jget configured d)) (\<lambda>r. Inr (d, r))) ABUSE_DIMENSIONS) (\<lambda>rules.
      Inr (channel, rules))))"

definition normalizeLimits :: "jsval \<Rightarrow> rate_limits res" where
  "normalizeLimits limits = bindE (assertPlainObject limits) (\<lambda>_. mapE (normalize_channel limits) ABUSE_CHANNELS)"

definition rule_of :: "rate_limits \<Rightarrow> string \<Rightarrow> string \<Rightarrow> rate_rule" where
  "rule_of limits channel dimension = the (map_of (the (map_of limits channel)) dimension)"

subsection \<open>The limiter\<close>

record rate_identity =
  id_tenantId :: string
  id_ipAddress :: "string option"
  id_sessionId :: "string option"

record rate_bucket =
  rb_startedAt :: int
  rb_count :: int

record rate_limiter =
  rl_limits :: rate_limits
  rl_maxBuckets :: nat
  rl_sha256 :: "string \<Rightarrow> string"
  rl_buckets :: "(string \<times> rate_bucket) list"

record rate_input =
  ri_channel :: jsval
  ri_tenantId :: jsval
  ri_ipAddress :: jsval
  ri_sessionId :: jsval
  ri_cost :: jsval

definition optional_string :: "nat \<Rightarrow> jsval \<Rightarrow> string option res" where
  "optional_string maximum v = (case js_default v JNull of JNull \<Rightarrow> Inr None
     | w \<Rightarrow> bindE (assertString (\<lambda>_. True) maximum w) (\<lambda>s. Inr (Some s)))"

definition normalizeRateIdentity :: "jsval \<Rightarrow> jsval \<Rightarrow> jsval \<Rightarrow> rate_identity res" where
  "normalizeRateIdentity tenantId ipAddress sessionId =
     bindE (assertId tenantId) (\<lambda>t.
     bindE (optional_string 256 ipAddress) (\<lambda>ip.
     bindE (optional_string 512 sessionId) (\<lambda>s.
     Inr \<lparr>id_tenantId = t, id_ipAddress = ip, id_sessionId = s\<rparr>)))"

definition identityForDimension :: "rate_identity \<Rightarrow> string \<Rightarrow> string option" where
  "identityForDimension i dimension = (if dimension = ''tenant'' then Some (id_tenantId i)
     else if dimension = ''ip'' then id_ipAddress i else id_sessionId i)"

definition createRateLimiter :: "(string \<Rightarrow> string) \<Rightarrow> jsval \<Rightarrow> jsval \<Rightarrow> rate_limiter res" where
  "createRateLimiter sha256 limits maxBuckets =
     bindE (normalizeLimits (js_default limits DEFAULT_RATE_LIMITS)) (\<lambda>ls.
     bindE (assertInteger 100 1000000 (js_default maxBuckets (JInt 20000))) (\<lambda>n.
     Inr \<lparr>rl_limits = ls, rl_maxBuckets = nat n, rl_sha256 = sha256, rl_buckets = []\<rparr>))"

fun prune :: "nat \<Rightarrow> (string \<times> rate_bucket) list \<Rightarrow> (string \<times> rate_bucket) list" where
  "prune maximum [] = []"
| "prune maximum (b # bs) = (if maximum < length (b # bs) then prune maximum bs else b # bs)"

record observation =
  ob_dimension :: string
  ob_rule :: rate_rule
  ob_key :: string
  ob_bucket :: rate_bucket
  ob_limited :: bool

definition bucket_key :: "rate_limiter \<Rightarrow> string \<Rightarrow> string \<Rightarrow> string \<Rightarrow> string" where
  "bucket_key lim channel dimension subject =
     channel @ '':'' @ dimension @ '':'' @ digestSubject (rl_sha256 lim) dimension subject"

definition current_bucket :: "rate_rule \<Rightarrow> int \<Rightarrow> rate_bucket option \<Rightarrow> rate_bucket" where
  "current_bucket rule timestamp current = (case current of
     Some b \<Rightarrow> if timestamp - rb_startedAt b < rr_windowMs rule then b else \<lparr>rb_startedAt = timestamp, rb_count = 0\<rparr>
   | None \<Rightarrow> \<lparr>rb_startedAt = timestamp, rb_count = 0\<rparr>)"

definition observe :: "rate_limiter \<Rightarrow> string \<Rightarrow> int \<Rightarrow> int \<Rightarrow> string \<Rightarrow> string \<Rightarrow> observation" where
  "observe lim channel timestamp cost dimension subject =
     (let rule = rule_of (rl_limits lim) channel dimension;
          key = bucket_key lim channel dimension subject;
          bucket = current_bucket rule timestamp (map_of (rl_buckets lim) key)
      in \<lparr>ob_dimension = dimension, ob_rule = rule, ob_key = key, ob_bucket = bucket,
          ob_limited = rr_max rule < rb_count bucket + cost\<rparr>)"

definition observations :: "rate_limiter \<Rightarrow> string \<Rightarrow> rate_identity \<Rightarrow> int \<Rightarrow> int \<Rightarrow> observation list" where
  "observations lim channel i timestamp cost = concat (map (\<lambda>d. case identityForDimension i d of
     None \<Rightarrow> [] | Some subject \<Rightarrow> [observe lim channel timestamp cost d subject]) ABUSE_DIMENSIONS)"

definition charge_observation :: "int \<Rightarrow> observation \<Rightarrow> observation" where
  "charge_observation cost ob = ob\<lparr>ob_bucket := (ob_bucket ob)\<lparr>rb_count := rb_count (ob_bucket ob) + cost\<rparr>\<rparr>"

definition store_buckets :: "observation list \<Rightarrow> (string \<times> rate_bucket) list \<Rightarrow> (string \<times> rate_bucket) list" where
  "store_buckets obs bs = foldl (\<lambda>m ob. AList.update (ob_key ob) (ob_bucket ob) m) bs obs"

record rate_decision =
  rd_allowed :: bool
  rd_channel :: string
  rd_limitedBy :: "string list"
  rd_retryAfterMs :: int
  rd_remaining :: int
  rd_resetAt :: int
  rd_activeBuckets :: nat

definition rate_request :: "(string \<Rightarrow> int option) \<Rightarrow> jsval \<Rightarrow> rate_input \<Rightarrow> (string \<times> rate_identity \<times> int \<times> int) res" where
  "rate_request pd now i =
     bindE (assertChannel (ri_channel i)) (\<lambda>channel.
     bindE (normalizeRateIdentity (ri_tenantId i) (ri_ipAddress i) (ri_sessionId i)) (\<lambda>identity.
     bindE (assertInteger 1 1000000 (js_default (ri_cost i) (JInt 1))) (\<lambda>cost.
     bindE (assertDate pd now) (\<lambda>timestamp. Inr (channel, identity, cost, timestamp)))))"

definition retry_after :: "int \<Rightarrow> observation \<Rightarrow> int" where
  "retry_after timestamp ob = max 1 (rr_windowMs (ob_rule ob) - (timestamp - rb_startedAt (ob_bucket ob)))"

definition rate_decide :: "string \<Rightarrow> int \<Rightarrow> nat \<Rightarrow> observation list \<Rightarrow> rate_decision res" where
  "rate_decide channel timestamp active obs =
     (let resetAt = foldr max (map (\<lambda>ob. rb_startedAt (ob_bucket ob) + rr_windowMs (ob_rule ob)) obs) timestamp;
          left = map (\<lambda>ob. max 0 (rr_max (ob_rule ob) - rb_count (ob_bucket ob))) obs
      in if \<not> date_ok resetAt then Inl rangeError
         else Inr \<lparr>rd_allowed = filter ob_limited obs = [], rd_channel = channel,
           rd_limitedBy = map ob_dimension (filter ob_limited obs),
           rd_retryAfterMs = foldr max (map (retry_after timestamp) (filter ob_limited obs)) 0,
           rd_remaining = (if left = [] then 0 else foldr min (tl left) (hd left)), rd_resetAt = resetAt,
           rd_activeBuckets = active\<rparr>)"

definition limiter_step :: "string \<Rightarrow> rate_identity \<Rightarrow> int \<Rightarrow> int \<Rightarrow> rate_limiter \<Rightarrow> observation list \<times> rate_limiter" where
  "limiter_step channel identity cost timestamp lim =
     (let seen = observations lim channel identity timestamp cost;
          obs = (if filter ob_limited seen = [] then map (charge_observation cost) seen else seen);
          bs = (if filter ob_limited seen = [] then store_buckets obs (rl_buckets lim) else rl_buckets lim)
      in (obs, lim\<lparr>rl_buckets := prune (rl_maxBuckets lim) bs\<rparr>))"

definition rate_consume :: "(string \<Rightarrow> int option) \<Rightarrow> jsval \<Rightarrow> rate_input \<Rightarrow> rate_limiter \<Rightarrow> rate_decision res \<times> rate_limiter" where
  "rate_consume pd now i lim = liftE (rate_request pd now i) lim (\<lambda>(channel, identity, cost, timestamp).
     case limiter_step channel identity cost timestamp lim of (obs, lim1) \<Rightarrow>
       (rate_decide channel timestamp (length (rl_buckets lim1)) obs, lim1))"

text \<open>The snapshot counts the buckets by the first two parts of their keys.\<close>

definition key_part :: "nat \<Rightarrow> string \<Rightarrow> string option" where
  "key_part n key = (let parts = split_by (\<lambda>c. c = CHR '':'') key in if n < length parts then Some (parts ! n) else None)"

definition limiter_snapshot :: "rate_limiter \<Rightarrow> nat \<times> (string \<times> nat) list \<times> (string \<times> nat) list" where
  "limiter_snapshot lim = (let ks = keys (rl_buckets lim) in
     (length ks,
      map (\<lambda>ch. (ch, length (filter (\<lambda>k. key_part 0 k = Some ch) ks))) ABUSE_CHANNELS,
      map (\<lambda>d. (d, length (filter (\<lambda>k. key_part 1 k = Some d) ks))) ABUSE_DIMENSIONS))"

lemmas abuse_limit_defs [code_defs] = abuseError_def ABUSE_CHANNELS_def ABUSE_DIMENSIONS_def ABUSE_SUBJECT_TYPES_def
  plain_object_def assertPlainObject_def assertString_def assertId_def reason_text_ok_def dateable_def assertDate_def
  assertInteger_def assertChannel_def assertSubjectType_def digestSubject_def normalizeRateRule_def makeChannelLimits_def
  DEFAULT_RATE_LIMITS_def normalize_channel_def normalizeLimits_def rule_of_def optional_string_def
  normalizeRateIdentity_def identityForDimension_def createRateLimiter_def bucket_key_def current_bucket_def observe_def
  observations_def charge_observation_def store_buckets_def rate_request_def retry_after_def rate_decide_def limiter_step_def
  rate_consume_def key_part_def limiter_snapshot_def

subsection \<open>Keys\<close>

lemma abuse_words_plain: "list_all (\<lambda>w. list_all (\<lambda>c. c \<noteq> CHR '':'') w) (ABUSE_CHANNELS @ ABUSE_DIMENSIONS)"
  by code_simp

lemma split_bucket_key:
  assumes "ch \<in> set ABUSE_CHANNELS" "d \<in> set ABUSE_DIMENSIONS"
  shows "\<exists>rest. split_by (\<lambda>c. c = CHR '':'') (bucket_key lim ch d s) = ch # d # rest"
proof -
  have "list_all (\<lambda>c. \<not> c = CHR '':'') ch" "list_all (\<lambda>c. \<not> c = CHR '':'') d"
    using assms abuse_words_plain by (auto simp: list_all_iff)
  then show ?thesis
    using split_by_word [of "\<lambda>c. c = CHR '':''" ch "CHR '':''"] split_by_word [of "\<lambda>c. c = CHR '':''" d "CHR '':''"]
    by (simp add: bucket_key_def)
qed

lemma bucket_key_inject:
  assumes "ch \<in> set ABUSE_CHANNELS" "d \<in> set ABUSE_DIMENSIONS" "ch' \<in> set ABUSE_CHANNELS" "d' \<in> set ABUSE_DIMENSIONS"
    and "bucket_key lim ch d s = bucket_key lim ch' d' s'"
  shows "ch = ch' \<and> d = d'"
  using split_bucket_key [OF assms(1,2), of lim s] split_bucket_key [OF assms(3,4), of lim s'] assms(5) by auto

subsection \<open>What a step does to a bucket\<close>

lemma prune_drop: "prune n bs = drop (length bs - n) bs"
proof (induction n bs rule: prune.induct)
  case (2 n b bs)
  then show ?case by (cases "n < length (b # bs)") (auto simp: Suc_diff_le)
qed simp

lemma prune_fits [simp]: "length bs \<le> n \<Longrightarrow> prune n bs = bs"
  by (simp add: prune_drop)

lemma store_buckets_lookup:
  "map_of (store_buckets obs bs) k = (case find (\<lambda>ob. ob_key ob = k) (rev obs) of None \<Rightarrow> map_of bs k | Some ob \<Rightarrow> Some (ob_bucket ob))"
  unfolding store_buckets_def
  by (induction obs rule: rev_induct) auto

lemma store_buckets_length: "length (store_buckets obs bs) \<le> length bs + length obs"
proof -
  have u: "length (AList.update k v m) \<le> Suc (length m)" for k :: string and v :: rate_bucket and m by (induction m) auto
  have "length (foldl (\<lambda>m ob. AList.update (ob_key ob) (ob_bucket ob) m) bs obs) \<le> length bs + length obs" for obs :: "observation list"
  proof (induction obs rule: rev_induct)
    case (snoc ob obs)
    then show ?case using u [of "ob_key ob" "ob_bucket ob" "foldl (\<lambda>m ob. AList.update (ob_key ob) (ob_bucket ob) m) bs obs"] by simp
  qed simp
  then show ?thesis by (simp add: store_buckets_def)
qed

lemma observations_set:
  "ob \<in> set (observations lim ch i t cost) \<longleftrightarrow>
   (\<exists>d\<in>set ABUSE_DIMENSIONS. \<exists>s. identityForDimension i d = Some s \<and> ob = observe lim ch t cost d s)"
  by (auto simp: observations_def split: option.splits) (metis option.inject)+

lemma observations_length: "length (observations lim ch i t cost) \<le> 3"
  by (simp add: observations_def ABUSE_DIMENSIONS_def split: option.split)

lemma charge_observation_simps [simp]: "ob_key (charge_observation c ob) = ob_key ob" "ob_limited (charge_observation c ob) = ob_limited ob"
  "ob_bucket (charge_observation c ob) = (ob_bucket ob)\<lparr>rb_count := rb_count (ob_bucket ob) + c\<rparr>"
  by (simp_all add: charge_observation_def)

definition stored :: "string \<Rightarrow> rate_identity \<Rightarrow> int \<Rightarrow> int \<Rightarrow> rate_limiter \<Rightarrow> (string \<times> rate_bucket) list" where
  "stored ch i cost t lim = (let seen = observations lim ch i t cost in
     if filter ob_limited seen = [] then store_buckets (map (charge_observation cost) seen) (rl_buckets lim) else rl_buckets lim)"

lemma limiter_step_buckets: "snd (limiter_step ch i cost t lim) = lim\<lparr>rl_buckets := prune (rl_maxBuckets lim) (stored ch i cost t lim)\<rparr>"
  by (simp add: limiter_step_def stored_def Let_def)

lemma stored_length: "length (stored ch i cost t lim) \<le> length (rl_buckets lim) + 3"
  using store_buckets_length [of "map (charge_observation cost) (observations lim ch i t cost)" "rl_buckets lim"] observations_length [of lim ch i t cost]
  by (simp add: stored_def Let_def)

lemma observed_key:
  assumes "ch \<in> set ABUSE_CHANNELS" "d \<in> set ABUSE_DIMENSIONS" "ch' \<in> set ABUSE_CHANNELS"
    and "ob \<in> set (observations lim ch' i t cost)" "ob_key ob = bucket_key lim ch d s"
  shows "ob_rule ob = rule_of (rl_limits lim) ch d
    \<and> ob_bucket ob = current_bucket (rule_of (rl_limits lim) ch d) t (map_of (rl_buckets lim) (bucket_key lim ch d s))
    \<and> (ob_limited ob \<longleftrightarrow> rr_max (ob_rule ob) < rb_count (ob_bucket ob) + cost)"
proof -
  from assms(4) obtain d' s' where o: "d' \<in> set ABUSE_DIMENSIONS" "ob = observe lim ch' t cost d' s'"
    by (auto simp: observations_set)
  then have "ob_key ob = bucket_key lim ch' d' s'" by (simp add: observe_def Let_def)
  with assms(5) have "bucket_key lim ch' d' s' = bucket_key lim ch d s" by simp
  with bucket_key_inject [OF assms(3) o(1) assms(1,2)] have "ch' = ch" "d' = d" "bucket_key lim ch' d' s' = bucket_key lim ch d s" by blast+
  with o(2) show ?thesis by (simp add: observe_def Let_def)
qed

lemma stored_bucket:
  assumes "ch \<in> set ABUSE_CHANNELS" "d \<in> set ABUSE_DIMENSIONS" "ch' \<in> set ABUSE_CHANNELS"
    and k: "k = bucket_key lim ch d s" and rule: "rule = rule_of (rl_limits lim) ch d"
    and b: "b = current_bucket rule t (map_of (rl_buckets lim) k)"
  shows "map_of (stored ch' i cost t lim) k = map_of (rl_buckets lim) k
      \<and> \<not> (ch' = ch \<and> identityForDimension i d = Some s \<and> filter ob_limited (observations lim ch' i t cost) = [])
    \<or> rb_count b + cost \<le> rr_max rule \<and> map_of (stored ch' i cost t lim) k = Some (b\<lparr>rb_count := rb_count b + cost\<rparr>)"
proof (cases "filter ob_limited (observations lim ch' i t cost) = []")
  case False
  then show ?thesis by (simp add: stored_def Let_def)
next
  case True
  let ?obs = "observations lim ch' i t cost"
  have m: "map_of (stored ch' i cost t lim) k = (case find (\<lambda>ob. ob_key ob = k) (rev (map (charge_observation cost) ?obs)) of
      None \<Rightarrow> map_of (rl_buckets lim) k | Some ob \<Rightarrow> Some (ob_bucket ob))"
    using True by (simp add: stored_def store_buckets_lookup)
  show ?thesis
  proof (cases "find (\<lambda>ob. ob_key ob = k) (rev (map (charge_observation cost) ?obs))")
    case None
    then have none: "\<forall>ob\<in>set ?obs. ob_key ob \<noteq> k" by (auto simp: find_None_iff)
    have "\<not> (ch' = ch \<and> identityForDimension i d = Some s)"
    proof
      assume c: "ch' = ch \<and> identityForDimension i d = Some s"
      then have "observe lim ch t cost d s \<in> set ?obs" using assms(2) by (auto simp: observations_set)
      moreover have "ob_key (observe lim ch t cost d s) = k" by (simp add: observe_def Let_def k)
      ultimately show False using none by blast
    qed
    moreover have "map_of (stored ch' i cost t lim) k = map_of (rl_buckets lim) k" using m None by simp
    ultimately show ?thesis by blast
  next
    case (Some ob')
    from find_in [OF Some] obtain ob where ob: "ob \<in> set ?obs" "ob' = charge_observation cost ob" "ob_key ob = bucket_key lim ch d s" using k by auto
    note o = observed_key [OF assms(1-3) ob(1,3)]
    have "\<not> ob_limited ob" using True ob(1) by (auto simp: filter_empty_conv)
    with o have "rb_count b + cost \<le> rr_max rule" "ob_bucket ob' = b\<lparr>rb_count := rb_count b + cost\<rparr>"
      unfolding b rule k ob(2) by auto
    with m Some show ?thesis by simp
  qed
qed

subsection \<open>Runs of a limiter\<close>

definition granted :: "(string \<Rightarrow> int option) \<Rightarrow> string \<Rightarrow> string \<Rightarrow> string \<Rightarrow> jsval \<Rightarrow> rate_input \<Rightarrow> rate_decision res \<Rightarrow> int" where
  "granted pd ch d s now i r = (case rate_request pd now i of Inl _ \<Rightarrow> 0
     | Inr (ch', identity, cost, t) \<Rightarrow>
         if ch' = ch \<and> identityForDimension identity d = Some s \<and> (\<exists>x. r = Inr x \<and> rd_allowed x) then cost else 0)"

inductive limiter_reach :: "(string \<Rightarrow> int option) \<Rightarrow> rate_limiter \<Rightarrow> bool" for pd where
  limiter_new: "createRateLimiter sha256 limits maxBuckets = Inr lim \<Longrightarrow> limiter_reach pd lim"
| limiter_used: "limiter_reach pd lim \<Longrightarrow> limiter_reach pd (snd (rate_consume pd now i lim))"

text \<open>A run of requests between two times while the store has room, with the total cost granted to one subject.\<close>

inductive rate_run :: "(string \<Rightarrow> int option) \<Rightarrow> string \<Rightarrow> string \<Rightarrow> string \<Rightarrow> int \<Rightarrow> int \<Rightarrow> rate_limiter \<Rightarrow> int \<Rightarrow> rate_limiter \<Rightarrow> bool"
  for pd ch d s lo hi lim where
  rate_run_none: "rate_run pd ch d s lo hi lim 0 lim"
| rate_run_step: "rate_run pd ch d s lo hi lim n lim1 \<Longrightarrow> rate_consume pd now i lim1 = (r, lim2) \<Longrightarrow>
    (\<And>t. assertDate pd now = Inr t \<Longrightarrow> lo \<le> t \<and> t < hi) \<Longrightarrow>
    length (rl_buckets lim1) + 3 \<le> rl_maxBuckets lim1 \<Longrightarrow>
    rate_run pd ch d s lo hi lim (n + granted pd ch d s now i r) lim2"

definition counts_ok :: "rate_limiter \<Rightarrow> bool" where
  "counts_ok lim \<longleftrightarrow> (\<forall>ch\<in>set ABUSE_CHANNELS. \<forall>d\<in>set ABUSE_DIMENSIONS. \<forall>s b.
     map_of (rl_buckets lim) (bucket_key lim ch d s) = Some b \<longrightarrow>
       0 \<le> rb_count b \<and> rb_count b \<le> rr_max (rule_of (rl_limits lim) ch d))"

definition same_config :: "rate_limiter \<Rightarrow> rate_limiter \<Rightarrow> bool" where
  "same_config lim lim1 \<longleftrightarrow> rl_limits lim1 = rl_limits lim \<and> rl_sha256 lim1 = rl_sha256 lim \<and> rl_maxBuckets lim1 = rl_maxBuckets lim"

lemma same_config_key: "same_config lim lim1 \<Longrightarrow> bucket_key lim1 = bucket_key lim"
  by (intro ext) (simp add: same_config_def bucket_key_def)

lemma consume_cases:
  assumes "rate_consume pd now i lim = (r, lim1)"
  shows "(lim1 = lim \<and> (\<exists>e. rate_request pd now i = Inl e) \<and> (\<forall>x. r \<noteq> Inr x)) \<or>
    (\<exists>ch identity cost t. rate_request pd now i = Inr (ch, identity, cost, t) \<and> ch \<in> set ABUSE_CHANNELS \<and> 1 \<le> cost
      \<and> assertDate pd now = Inr t \<and> lim1 = lim\<lparr>rl_buckets := prune (rl_maxBuckets lim) (stored ch identity cost t lim)\<rparr>
      \<and> (\<forall>x. r = Inr x \<longrightarrow> rd_allowed x \<longrightarrow> filter ob_limited (observations lim ch identity t cost) = []))"
proof (cases "rate_request pd now i")
  case (Inl e)
  with assms show ?thesis by (auto simp: rate_consume_def)
next
  case (Inr p)
  obtain ch identity cost t where p: "p = (ch, identity, cost, t)" by (cases p)
  have c: "ch \<in> set ABUSE_CHANNELS" "1 \<le> cost" "assertDate pd now = Inr t"
    using Inr unfolding rate_request_def p by (auto simp: assertChannel_def assertInteger_def)
  obtain obs where s: "limiter_step ch identity cost t lim = (obs, lim1)" "r = rate_decide ch t (length (rl_buckets lim1)) obs"
    using assms Inr p by (auto simp: rate_consume_def split: prod.split_asm)
  then have "lim1 = lim\<lparr>rl_buckets := prune (rl_maxBuckets lim) (stored ch identity cost t lim)\<rparr>"
    using limiter_step_buckets [of ch identity cost t lim] by simp
  moreover have "filter ob_limited (observations lim ch identity t cost) = []" if "r = Inr x" "rd_allowed x" for x
  proof -
    have "filter ob_limited obs = []" using s(2) that by (auto simp: rate_decide_def Let_def split: if_split_asm)
    moreover have "obs = observations lim ch identity t cost \<or> filter ob_limited (observations lim ch identity t cost) = []"
      using s(1) by (auto simp: limiter_step_def Let_def split: if_split_asm)
    ultimately show ?thesis by metis
  qed
  ultimately show ?thesis using Inr p c by blast
qed

lemma consume_length:
  assumes "rate_consume pd now i lim = (r, lim1)" shows "length (rl_buckets lim1) \<le> length (rl_buckets lim) + 3"
  using consume_cases [OF assms]
proof (elim disjE exE conjE)
  fix ch identity cost t
  assume "lim1 = lim\<lparr>rl_buckets := prune (rl_maxBuckets lim) (stored ch identity cost t lim)\<rparr>"
  then show ?thesis using stored_length [of ch identity cost t lim] by (simp add: prune_drop)
qed simp

lemma consume_config: "rate_consume pd now i lim = (r, lim1) \<Longrightarrow> same_config lim lim1"
  by (drule consume_cases) (auto simp: same_config_def)

lemma bucket_step:
  assumes "ch \<in> set ABUSE_CHANNELS" "d \<in> set ABUSE_DIMENSIONS" and "rate_consume pd now i lim = (r, lim1)"
    and k: "k = bucket_key lim ch d s" and rule: "rule = rule_of (rl_limits lim) ch d"
    and room: "length (rl_buckets lim) + 3 \<le> rl_maxBuckets lim"
  shows "map_of (rl_buckets lim1) k = map_of (rl_buckets lim) k \<and> granted pd ch d s now i r = 0
    \<or> (\<exists>t cost. assertDate pd now = Inr t \<and> 1 \<le> cost \<and> 0 \<le> granted pd ch d s now i r \<and> granted pd ch d s now i r \<le> cost \<and>
        (let b = current_bucket rule t (map_of (rl_buckets lim) k) in
         rb_count b + cost \<le> rr_max rule \<and> map_of (rl_buckets lim1) k = Some (b\<lparr>rb_count := rb_count b + cost\<rparr>)))"
  using consume_cases [OF assms(3)]
proof (elim disjE exE conjE)
  fix ch' identity cost t
  assume q: "rate_request pd now i = Inr (ch', identity, cost, t)" "ch' \<in> set ABUSE_CHANNELS" "1 \<le> cost" "assertDate pd now = Inr t"
    "lim1 = lim\<lparr>rl_buckets := prune (rl_maxBuckets lim) (stored ch' identity cost t lim)\<rparr>"
    "\<forall>x. r = Inr x \<longrightarrow> rd_allowed x \<longrightarrow> filter ob_limited (observations lim ch' identity t cost) = []"
  let ?b = "current_bucket rule t (map_of (rl_buckets lim) k)"
  have m: "rl_buckets lim1 = stored ch' identity cost t lim"
    using q(5) stored_length [of ch' identity cost t lim] room by simp
  have g: "granted pd ch d s now i r = 0 \<or> granted pd ch d s now i r = cost \<and> ch' = ch \<and> identityForDimension identity d = Some s
      \<and> filter ob_limited (observations lim ch' identity t cost) = []"
    using q(1,6) by (auto simp: granted_def)
  from stored_bucket [OF assms(1,2) q(2) k rule refl, where t = t and i = identity and cost = cost] show ?thesis
  proof (elim disjE conjE)
    assume "map_of (stored ch' identity cost t lim) k = map_of (rl_buckets lim) k"
      "\<not> (ch' = ch \<and> identityForDimension identity d = Some s \<and> filter ob_limited (observations lim ch' identity t cost) = [])"
    with g m show ?thesis by auto
  next
    assume b: "rb_count ?b + cost \<le> rr_max rule" "map_of (stored ch' identity cost t lim) k = Some (?b\<lparr>rb_count := rb_count ?b + cost\<rparr>)"
    have "0 \<le> granted pd ch d s now i r \<and> granted pd ch d s now i r \<le> cost" using g q(3) by auto
    with b m q(3,4) show ?thesis unfolding Let_def by (intro disjI2 exI [of _ t] exI [of _ cost]) simp
  qed
qed (simp add: granted_def)

lemma current_bucket_cases:
  "current_bucket rule t cur = \<lparr>rb_startedAt = t, rb_count = 0\<rparr> \<or>
   (cur = Some (current_bucket rule t cur) \<and> t - rb_startedAt (current_bucket rule t cur) < rr_windowMs rule)"
  by (auto simp: current_bucket_def split: option.split)

definition run_bound :: "string \<Rightarrow> int \<Rightarrow> rate_rule \<Rightarrow> rate_limiter \<Rightarrow> int \<Rightarrow> rate_limiter \<Rightarrow> bool" where
  "run_bound k lo rule lim n lim1 \<longleftrightarrow> same_config lim lim1 \<and>
     (case map_of (rl_buckets lim1) k of
        None \<Rightarrow> n = 0 \<and> map_of (rl_buckets lim) k = None
      | Some b \<Rightarrow> 0 \<le> rb_count b \<and> rb_count b \<le> rr_max rule \<and>
          (lo \<le> rb_startedAt b \<and> n \<le> rb_count b + (if map_of (rl_buckets lim) k = None then 0 else rr_max rule)
           \<or> map_of (rl_buckets lim) k \<noteq> None \<and> n \<le> rb_count b))"

lemma run_bound_step:
  assumes "run_bound k lo rule lim n lim1" and "same_config lim1 lim2" and "lo \<le> t" "t < hi" "hi - lo \<le> rr_windowMs rule" "0 \<le> g" "g \<le> cost"
    and b: "b = current_bucket rule t (map_of (rl_buckets lim1) k)"
    and "rb_count b + cost \<le> rr_max rule" "map_of (rl_buckets lim2) k = Some (b\<lparr>rb_count := rb_count b + cost\<rparr>)"
  shows "run_bound k lo rule lim (n + g) lim2"
proof -
  have c: "same_config lim lim2" using assms(1,2) by (auto simp: run_bound_def same_config_def)
  from current_bucket_cases [of rule t "map_of (rl_buckets lim1) k"]
  consider (reset) "b = \<lparr>rb_startedAt = t, rb_count = 0\<rparr>" "map_of (rl_buckets lim1) k \<noteq> Some b"
    | (kept) "map_of (rl_buckets lim1) k = Some b"
    unfolding b by blast
  then show ?thesis
  proof cases
    case kept
    with assms(1,6,7,9,10) c show ?thesis by (auto simp: run_bound_def)
  next
    case reset
    show ?thesis
    proof (cases "map_of (rl_buckets lim1) k")
      case None
      with assms(1,3,6,7,9,10) reset(1) c show ?thesis by (simp add: run_bound_def)
    next
      case (Some b1)
      have "\<not> t - rb_startedAt b1 < rr_windowMs rule"
        using Some reset(2) b by (auto simp: current_bucket_def)
      then have "\<not> lo \<le> rb_startedAt b1" using assms(4,5) by linarith
      then have "map_of (rl_buckets lim) k \<noteq> None" "n \<le> rr_max rule"
        using assms(1) Some by (auto simp: run_bound_def)
      with assms(3,6,7,9,10) reset(1) c show ?thesis by (auto simp: run_bound_def)
    qed
  qed
qed

lemma rate_run_bound:
  assumes "ch \<in> set ABUSE_CHANNELS" "d \<in> set ABUSE_DIMENSIONS" and rule: "rule = rule_of (rl_limits lim) ch d"
    and k: "k = bucket_key lim ch d s" and "hi - lo \<le> rr_windowMs rule" "counts_ok lim"
  shows "rate_run pd ch d s lo hi lim n lim1 \<Longrightarrow> run_bound k lo rule lim n lim1"
proof (induction rule: rate_run.induct)
  case rate_run_none
  show ?case
  proof (cases "map_of (rl_buckets lim) k")
    case (Some b)
    have "0 \<le> rb_count b \<and> rb_count b \<le> rr_max rule"
      using assms(6) Some assms(1,2) unfolding counts_ok_def k rule by blast
    with Some show ?thesis by (simp add: run_bound_def same_config_def)
  qed (simp add: run_bound_def same_config_def)
next
  case (rate_run_step n lim1 now i r lim2)
  note ih = rate_run_step.IH
  have c1: "same_config lim lim1" using ih by (simp add: run_bound_def)
  have c2: "same_config lim1 lim2" by (rule consume_config [OF rate_run_step.hyps(2)])
  have k1: "k = bucket_key lim1 ch d s" "rule = rule_of (rl_limits lim1) ch d"
    using c1 same_config_key [OF c1] by (simp_all add: k rule same_config_def)
  from bucket_step [OF assms(1,2) rate_run_step.hyps(2) k1 rate_run_step.hyps(4)] show ?case
  proof (elim disjE exE conjE)
    assume "map_of (rl_buckets lim2) k = map_of (rl_buckets lim1) k" "granted pd ch d s now i r = 0"
    with ih c1 c2 show ?thesis by (simp add: run_bound_def same_config_def)
  next
    fix t cost
    assume t: "assertDate pd now = Inr t" "0 \<le> granted pd ch d s now i r" "granted pd ch d s now i r \<le> cost"
      "let b = current_bucket rule t (map_of (rl_buckets lim1) k) in
         rb_count b + cost \<le> rr_max rule \<and> map_of (rl_buckets lim2) k = Some (b\<lparr>rb_count := rb_count b + cost\<rparr>)"
    have "lo \<le> t" "t < hi" using rate_run_step.hyps(3) t(1) by blast+
    from run_bound_step [OF ih c2 this assms(5) t(2,3) refl] t(4) show ?thesis by (simp add: Let_def)
  qed
qed

lemma run_bound_total:
  "run_bound k lo rule lim n lim1 \<Longrightarrow> 0 \<le> rr_max rule \<Longrightarrow>
   n \<le> (if map_of (rl_buckets lim) k = None then 1 else 2) * rr_max rule"
  by (auto simp: run_bound_def split: option.split_asm if_split_asm)

subsection \<open>Reachable limiters\<close>

lemma prune_lookup: "distinct (keys bs) \<Longrightarrow> map_of (prune n bs) k = Some b \<Longrightarrow> map_of bs k = Some b"
proof -
  assume d: "distinct (keys bs)" and m: "map_of (prune n bs) k = Some b"
  from map_of_SomeD [OF m] have "(k, b) \<in> set bs" by (auto simp: prune_drop dest: in_set_dropD)
  with d show ?thesis by (simp add: keys_def)
qed

lemma store_buckets_distinct: "distinct (keys bs) \<Longrightarrow> distinct (keys (store_buckets obs bs))"
  unfolding store_buckets_def keys_def by (induction obs rule: rev_induct) auto

lemma stored_distinct: "distinct (keys (rl_buckets lim)) \<Longrightarrow> distinct (keys (stored ch i cost t lim))"
  by (simp add: stored_def Let_def store_buckets_distinct)

lemma prune_distinct: "distinct (keys bs) \<Longrightarrow> distinct (keys (prune n bs))"
  by (simp add: prune_drop keys_def flip: drop_map)

lemma prune_length: "length (prune n bs) \<le> n"
  by (simp add: prune_drop)

lemma mapE_keyed:
  "mapE f xs = Inr ys \<Longrightarrow> (\<And>x y. f x = Inr y \<Longrightarrow> fst y = x) \<Longrightarrow> k \<in> set xs \<Longrightarrow> \<exists>v. f k = Inr (k, v) \<and> map_of ys k = Some v"
proof (induction xs arbitrary: ys)
  case (Cons x xs)
  then obtain y zs where y: "f x = Inr y" "mapE f xs = Inr zs" "ys = y # zs" by auto
  obtain v where v: "y = (x, v)" using Cons.prems(2) [OF y(1)] by (cases y) simp
  show ?case
  proof (cases "k = x")
    case True
    then show ?thesis using y v by simp
  next
    case False
    then have "k \<in> set xs" using Cons.prems(3) by simp
    from Cons.IH [OF y(2) Cons.prems(2) this] False show ?thesis by (simp add: y(3) v)
  qed
qed simp

lemma normalized_rule:
  assumes "normalizeLimits limits = Inr ls" "ch \<in> set ABUSE_CHANNELS" "d \<in> set ABUSE_DIMENSIONS"
  shows "1 \<le> rr_max (rule_of ls ch d)"
proof -
  have m: "mapE (normalize_channel limits) ABUSE_CHANNELS = Inr ls" using assms(1) by (auto simp: normalizeLimits_def)
  obtain rules where r: "normalize_channel limits ch = Inr (ch, rules)" "map_of ls ch = Some rules"
    using mapE_keyed [OF m _ assms(2)] by (force simp: normalize_channel_def Let_def)
  define conf where "conf = js_or_else (jget limits ch) (jget DEFAULT_RATE_LIMITS ch)"
  have "mapE (\<lambda>d. bindE (normalizeRateRule (jget conf d)) (\<lambda>r. Inr (d, r))) ABUSE_DIMENSIONS = Inr rules"
    using r(1) by (auto simp: normalize_channel_def Let_def conf_def)
  from mapE_keyed [OF this _ assms(3)] obtain rule where "normalizeRateRule (jget conf d) = Inr rule" "map_of rules d = Some rule"
    by force
  then show ?thesis using r(2) by (auto simp: rule_of_def normalizeRateRule_def assertInteger_def)
qed

definition limiter_ok :: "rate_limiter \<Rightarrow> bool" where
  "limiter_ok lim \<longleftrightarrow> (\<forall>ch\<in>set ABUSE_CHANNELS. \<forall>d\<in>set ABUSE_DIMENSIONS. 1 \<le> rr_max (rule_of (rl_limits lim) ch d)) \<and> distinct (keys (rl_buckets lim)) \<and> length (rl_buckets lim) \<le> rl_maxBuckets lim \<and> counts_ok lim"

lemma current_bucket_count: "0 \<le> rb_count b \<Longrightarrow> 0 \<le> rb_count (current_bucket rule t (Some b))"
  "0 \<le> rb_count (current_bucket rule t None)"
  by (simp_all add: current_bucket_def)

lemma limiter_ok_consume:
  assumes "limiter_ok lim" shows "limiter_ok (snd (rate_consume pd now i lim))"
proof -
  obtain r lim1 where c: "rate_consume pd now i lim = (r, lim1)" by (metis surj_pair)
  from consume_cases [OF c] show ?thesis
  proof (elim disjE exE conjE)
    fix ch' identity cost t
    assume q: "ch' \<in> set ABUSE_CHANNELS" "1 \<le> cost" "lim1 = lim\<lparr>rl_buckets := prune (rl_maxBuckets lim) (stored ch' identity cost t lim)\<rparr>"
    have d: "distinct (keys (stored ch' identity cost t lim))" using assms by (simp add: limiter_ok_def stored_distinct)
    have key: "bucket_key lim1 = bucket_key lim" by (intro ext) (simp add: q(3) bucket_key_def)
    have "counts_ok lim1"
      unfolding counts_ok_def
    proof (intro ballI allI impI)
      fix ch d s b
      assume x: "ch \<in> set ABUSE_CHANNELS" "d \<in> set ABUSE_DIMENSIONS" "map_of (rl_buckets lim1) (bucket_key lim1 ch d s) = Some b"
      let ?k = "bucket_key lim ch d s" and ?rule = "rule_of (rl_limits lim) ch d"
      let ?b = "current_bucket ?rule t (map_of (rl_buckets lim) ?k)"
      have b: "map_of (stored ch' identity cost t lim) ?k = Some b"
        using x(3) prune_lookup [OF d, of "rl_maxBuckets lim" ?k b] by (simp only: key) (simp add: q(3))
      have old: "0 \<le> rb_count b' \<and> rb_count b' \<le> rr_max ?rule" if "map_of (rl_buckets lim) ?k = Some b'" for b'
        using assms x(1,2) that by (auto simp: limiter_ok_def counts_ok_def)
      have "0 \<le> rb_count ?b"
        using old current_bucket_count by (cases "map_of (rl_buckets lim) ?k") simp_all
      with stored_bucket [OF x(1,2) q(1) refl refl refl, where lim = lim and s = s and t = t and i = identity and cost = cost] b old q(2)
      show "0 \<le> rb_count b \<and> rb_count b \<le> rr_max (rule_of (rl_limits lim1) ch d)"
        by (auto simp: q(3))
    qed
    with c d assms show ?thesis by (simp add: limiter_ok_def q(3) prune_distinct prune_length)
  qed (simp add: c assms)
qed

lemma limiter_reach_ok: "limiter_reach pd lim \<Longrightarrow> limiter_ok lim"
proof (induction rule: limiter_reach.induct)
  case (limiter_new sha256 limits maxBuckets lim)
  then obtain ls n where l: "normalizeLimits (js_default limits DEFAULT_RATE_LIMITS) = Inr ls"
    "lim = \<lparr>rl_limits = ls, rl_maxBuckets = nat n, rl_sha256 = sha256, rl_buckets = []\<rparr>" by (auto simp: createRateLimiter_def)
  show ?case using normalized_rule [OF l(1)] by (simp add: l(2) limiter_ok_def counts_ok_def keys_def)
qed (rule limiter_ok_consume)

subsection \<open>Properties\<close>

text \<open>C26  In any stretch of time no longer than the window of a rule in which, at every request, the store has room for the new buckets (at most maxBuckets - 3 are held, so that prune evicts none that has not expired), the requests allowed to one subject of one channel cost at most twice the maximum of the rule, and at most the maximum itself when the stretch begins without a bucket for the subject; other traffic in between changes nothing of this.\<close>

theorem rate_limit_holds:
  assumes "limiter_reach pd lim" "ch \<in> set ABUSE_CHANNELS" "d \<in> set ABUSE_DIMENSIONS"
    and "rate_run pd ch d s lo hi lim n lim1" "hi - lo \<le> rr_windowMs (rule_of (rl_limits lim) ch d)"
  shows "n \<le> (if map_of (rl_buckets lim) (bucket_key lim ch d s) = None then 1 else 2) * rr_max (rule_of (rl_limits lim) ch d)"
proof -
  have ok: "counts_ok lim" "0 \<le> rr_max (rule_of (rl_limits lim) ch d)"
    using limiter_reach_ok [OF assms(1)] assms(2,3) by (force simp: limiter_ok_def)+
  from run_bound_total [OF rate_run_bound [OF assms(2,3) refl refl assms(5) ok(1) assms(4)] ok(2)] show ?thesis .
qed

definition example_limiter :: rate_limiter where
  "example_limiter = \<lparr>rl_limits = projr (normalizeLimits DEFAULT_RATE_LIMITS), rl_maxBuckets = 20000, rl_sha256 = id, rl_buckets = []\<rparr>"

definition example_login :: rate_input where
  "example_login = \<lparr>ri_channel = JStr ''login'', ri_tenantId = JStr ''t1'', ri_ipAddress = JStr ''192.0.2.1'', ri_sessionId = JUndef, ri_cost = JInt 8\<rparr>"

definition example_identity_rate :: rate_identity where
  "example_identity_rate = \<lparr>id_tenantId = ''t1'', id_ipAddress = Some ''192.0.2.1'', id_sessionId = None\<rparr>"

lemma default_limits_ok:
  "is_ok (normalizeLimits DEFAULT_RATE_LIMITS)"
  by code_simp

lemma login_ip_rule:
  "rule_of (rl_limits example_limiter) ''login'' ''ip'' = \<lparr>rr_max = 10, rr_windowMs = 60000\<rparr>"
  by code_simp

lemma login_request_1:
  "rate_request (\<lambda>_. None) (JInt 1000) example_login = Inr (''login'', example_identity_rate, 8, 1000)"
  by code_simp

lemma login_request_2:
  "rate_request (\<lambda>_. None) (JInt 60999) example_login = Inr (''login'', example_identity_rate, 8, 60999)"
  by code_simp

lemma login_tenant_rule:
  "rule_of (rl_limits example_limiter) ''login'' ''tenant'' = \<lparr>rr_max = 60, rr_windowMs = 60000\<rparr>"
  by code_simp

lemma example_observations:
  "map (\<lambda>ob. (ob_limited ob, rb_startedAt (ob_bucket ob), rr_windowMs (ob_rule ob))) (observations example_limiter ''login'' example_identity_rate 1000 8)
     = [(False, 1000, 60000), (False, 1000, 60000)]"
proof -
  have "rl_buckets example_limiter = []" by (simp add: example_limiter_def)
  then show ?thesis
    by (simp add: observations_def ABUSE_DIMENSIONS_def identityForDimension_def example_identity_rate_def observe_def Let_def
        current_bucket_def login_ip_rule login_tenant_rule)
qed

lemma example_first_granted:
  "granted (\<lambda>_. None) ''login'' ''ip'' ''192.0.2.1'' (JInt 1000) example_login (fst (rate_consume (\<lambda>_. None) (JInt 1000) example_login example_limiter)) = 8"
proof -
  obtain a b where ab: "observations example_limiter ''login'' example_identity_rate 1000 8 = [a, b]"
    and f: "\<not> ob_limited a" "\<not> ob_limited b" "rb_startedAt (ob_bucket a) = 1000" "rb_startedAt (ob_bucket b) = 1000"
      "rr_windowMs (ob_rule a) = 60000" "rr_windowMs (ob_rule b) = 60000"
    using example_observations by auto
  have "\<exists>x. fst (rate_consume (\<lambda>_. None) (JInt 1000) example_login example_limiter) = Inr x \<and> rd_allowed x"
    using f by (simp add: rate_consume_def login_request_1 limiter_step_def ab rate_decide_def Let_def charge_observation_def date_ok_def max_date_def)
  then show ?thesis by (simp add: granted_def login_request_1 example_identity_rate_def identityForDimension_def)
qed

lemma example_limiter_reach: "limiter_reach pd example_limiter"
proof -
  obtain ls where ls: "normalizeLimits DEFAULT_RATE_LIMITS = Inr ls" using default_limits_ok by (auto simp: is_ok_iff)
  show ?thesis
    by (rule limiter_new [of id JUndef JUndef])
       (simp add: createRateLimiter_def js_default_def ls example_limiter_def assertInteger_def need_int_def is_safe_int_def max_safe_def)
qed

lemma rate_limit_holds_witness:
  "granted (\<lambda>_. None) ''login'' ''ip'' ''192.0.2.1'' (JInt 1000) example_login
       (fst (rate_consume (\<lambda>_. None) (JInt 1000) example_login example_limiter)) = 8
   \<and> granted (\<lambda>_. None) ''login'' ''ip'' ''192.0.2.1'' (JInt 60999) example_login
       (fst (rate_consume (\<lambda>_. None) (JInt 60999) example_login (snd (rate_consume (\<lambda>_. None) (JInt 1000) example_login example_limiter)))) = 0"
proof -
  obtain r1 l1 where c1: "rate_consume (\<lambda>_. None) (JInt 1000) example_login example_limiter = (r1, l1)" by (metis surj_pair)
  obtain r2 l2 where c2: "rate_consume (\<lambda>_. None) (JInt 60999) example_login l1 = (r2, l2)" by (metis surj_pair)
  let ?run = "rate_run (\<lambda>_. None) ''login'' ''ip'' ''192.0.2.1'' 1000 61000 example_limiter"
  let ?g = "granted (\<lambda>_. None) ''login'' ''ip'' ''192.0.2.1''"
  have t: "assertDate (\<lambda>_. None) (JInt n) = Inr t \<Longrightarrow> t = n" for n t
    by (simp add: assertDate_def dateable_def split: option.splits if_splits)
  have time: "1000 \<le> t \<and> t < 61000" if "assertDate (\<lambda>_. None) (JInt n) = Inr t" "n = 1000 \<or> n = 60999" for n t
    using t [OF that(1)] that(2) by linarith
  have conf: "same_config example_limiter l1" by (rule consume_config [OF c1])
  have len: "length (rl_buckets l1) \<le> 3" using consume_length [OF c1] by (simp add: example_limiter_def)
  have "?run (0 + ?g (JInt 1000) example_login r1) l1"
    by (rule rate_run_step [OF rate_run_none c1]) (use time in \<open>blast, simp add: example_limiter_def\<close>)
  then have "?run (0 + ?g (JInt 1000) example_login r1 + ?g (JInt 60999) example_login r2) l2"
    by (rule rate_run_step [OF _ c2]) (use time len conf in \<open>blast, simp add: same_config_def example_limiter_def\<close>)
  from rate_limit_holds [OF example_limiter_reach _ _ this] login_ip_rule
  have "?g (JInt 1000) example_login r1 + ?g (JInt 60999) example_login r2 \<le> 10"
    by (simp add: ABUSE_CHANNELS_def ABUSE_DIMENSIONS_def example_limiter_def)
  moreover have "?g (JInt 1000) example_login r1 = 8" using example_first_granted c1 by simp
  moreover have "?g (JInt 60999) example_login r2 = 0 \<or> ?g (JInt 60999) example_login r2 = 8"
    by (simp add: granted_def login_request_2)
  ultimately show ?thesis using c1 c2 by simp
qed

end
