(* ===== verification/Abuse_Guard.thy ===== *)
theory Abuse_Guard
  imports Abuse_Limits
begin

section \<open>Lockout and quarantine\<close>

text \<open>
  The guard of \<open>src/core/ops/abuse/index.ts\<close>: failures are counted per subject, too many of them lock or
  quarantine it, and a check asks both before it charges the limiter.  Each call of the clock is an
  argument, as are the identifier of an audit event and whether the hook that receives it throws; the
  hook runs last, so what it throws leaves the state changed.  The operations build their audit event
  after they have changed the state, the way the code does.
\<close>

subsection \<open>Audit events\<close>

definition SENSITIVE_KEY_WORDS :: "string list" where
  "SENSITIVE_KEY_WORDS = [''authorization'', ''accesstoken'', ''access_token'', ''access-token'', ''refreshtoken'', ''refresh_token'',
     ''refresh-token'', ''session'', ''cookie'', ''password'', ''passphrase'', ''privatekey'', ''private_key'', ''private-key'',
     ''credential'', ''body'', ''payload'', ''content'', ''message'']"

fun has_secret :: "string \<Rightarrow> bool" where \<comment> \<open>\<open>secret(?!ref)\<close>\<close>
  "has_secret [] = False"
| "has_secret (c # s) = (starts_with ''secret'' (c # s) \<and> \<not> starts_with ''ref'' (drop 6 (c # s)) \<or> has_secret s)"

definition sensitive_name :: "string \<Rightarrow> bool" where
  "sensitive_name k \<longleftrightarrow> list_ex (\<lambda>w. contains_str w (lower k)) SENSITIVE_KEY_WORDS \<or> has_secret (lower k)"

fun assertMetadata :: "jsval \<Rightarrow> unit res" and assert_items :: "jsval list \<Rightarrow> unit res"
  and assert_fields :: "(string \<times> jsval) list \<Rightarrow> unit res" where
  "assertMetadata (JArr vs) = assert_items vs"
| "assertMetadata (JObj kvs) = assert_fields kvs"
| "assertMetadata JNull = Inr ()"
| "assertMetadata (JStr s) = Inr ()"
| "assertMetadata (JInt n) = Inr ()"
| "assertMetadata (JFrac n) = Inr ()"
| "assertMetadata JNonFinite = Inr ()"
| "assertMetadata (JBool b) = Inr ()"
| "assertMetadata JUndef = Inl (abuseError ''INVALID_METADATA'')"
| "assertMetadata (JDate d) = Inl (abuseError ''INVALID_METADATA'')"
| "assertMetadata JFun = Inl (abuseError ''INVALID_METADATA'')"
| "assert_items [] = Inr ()"
| "assert_items (v # vs) = bindE (assertMetadata v) (\<lambda>_. assert_items vs)"
| "assert_fields [] = Inr ()"
| "assert_fields ((k, v) # kvs) = (if sensitive_name k then Inl (abuseError ''SENSITIVE_DATA_FORBIDDEN'')
     else bindE (assertMetadata v) (\<lambda>_. assert_fields kvs))"

record abuse_event =
  ae_eventId :: string
  ae_action :: string
  ae_channel :: string
  ae_outcome :: string
  ae_tenantId :: string
  ae_subjectType :: "string option"
  ae_subjectDigest :: "string option"
  ae_reason :: string
  ae_details :: jsval
  ae_occurredAt :: int

record abuse_audit_input =
  ai_action :: jsval
  ai_channel :: jsval
  ai_outcome :: jsval
  ai_tenantId :: jsval
  ai_subjectType :: jsval
  ai_subject :: jsval
  ai_reason :: jsval
  ai_details :: jsval
  ai_occurredAt :: jsval

definition ABUSE_OUTCOMES :: "string list" where
  "ABUSE_OUTCOMES = [''allowed'', ''limited'', ''locked'', ''quarantined'', ''released'', ''rejected'']"

definition event_js :: "abuse_event \<Rightarrow> jsval" where
  "event_js e = JObj [(''schemaVersion'', JInt 1), (''eventType'', JStr ''abuse.control''), (''eventId'', JStr (ae_eventId e)),
     (''action'', JStr (ae_action e)), (''channel'', JStr (ae_channel e)), (''outcome'', JStr (ae_outcome e)),
     (''tenantId'', JStr (ae_tenantId e)), (''subjectType'', opt_js (ae_subjectType e)),
     (''subjectDigest'', opt_js (ae_subjectDigest e)), (''reason'', JStr (ae_reason e)), (''details'', ae_details e),
     (''occurredAt'', JInt (ae_occurredAt e))]"

definition event_subject :: "(string \<Rightarrow> string) \<Rightarrow> jsval \<Rightarrow> jsval \<Rightarrow> (string option \<times> string option) res" where
  "event_subject sha256 subjectType subject =
     (if js_default subjectType JNull = JNull then Inr (None, None)
      else bindE (assertSubjectType subjectType) (\<lambda>t. bindE (assertString (\<lambda>_. True) 512 subject) (\<lambda>s.
        Inr (Some t, Some (digestSubject sha256 t s)))))"

definition createAbuseAuditEvent :: "(string \<Rightarrow> int option) \<Rightarrow> (string \<Rightarrow> string) \<Rightarrow> string \<Rightarrow> abuse_audit_input \<Rightarrow> abuse_event res" where
  "createAbuseAuditEvent pd sha256 uuid i =
     bindE (assertString reason_text_ok 128 (ai_action i)) (\<lambda>action.
     bindE (assertChannel (ai_channel i)) (\<lambda>channel.
     bindE (need_str (\<lambda>s. s \<in> set ABUSE_OUTCOMES) (abuseError ''INVALID_AUDIT'') (ai_outcome i)) (\<lambda>outcome.
     bindE (assertId (ai_tenantId i)) (\<lambda>tenant.
     bindE (event_subject sha256 (ai_subjectType i) (ai_subject i)) (\<lambda>(subjectType, subjectDigest).
     bindE (assertString reason_text_ok 128 (ai_reason i)) (\<lambda>reason.
     bindE (assertPlainObject (ai_details i)) (\<lambda>_.
     bindE (assertMetadata (ai_details i)) (\<lambda>_.
     bindE (assertDate pd (ai_occurredAt i)) (\<lambda>occurredAt.
     let e = \<lparr>ae_eventId = uuid, ae_action = action, ae_channel = channel, ae_outcome = outcome, ae_tenantId = tenant,
         ae_subjectType = subjectType, ae_subjectDigest = subjectDigest, ae_reason = reason, ae_details = ai_details i,
         ae_occurredAt = occurredAt\<rparr>
     in bindE (assertMetadata (event_js e)) (\<lambda>_. Inr e))))))))))"

subsection \<open>The guard\<close>

record lockout_policy =
  lp_failureThreshold :: int
  lp_failureWindowMs :: int
  lp_lockoutMs :: int
  lp_quarantineThreshold :: int
  lp_quarantineMs :: int

record abuse_guard =
  ag_limiter :: rate_limiter
  ag_policy :: lockout_policy
  ag_failures :: "(string \<times> rate_bucket) list"
  ag_lockouts :: "(string \<times> int) list"
  ag_quarantines :: "(string \<times> int) list"

definition normalizeLockoutPolicy :: "jsval \<Rightarrow> lockout_policy res" where
  "normalizeLockoutPolicy v = bindE (assertPlainObject (js_default v (JObj []))) (\<lambda>_.
     bindE (assertInteger 1 1000 (js_or_else (jget v ''failureThreshold'') (JInt 5))) (\<lambda>a.
     bindE (assertInteger 1000 86400000 (js_or_else (jget v ''failureWindowMs'') (JInt 900000))) (\<lambda>b.
     bindE (assertInteger 1000 86400000 (js_or_else (jget v ''lockoutMs'') (JInt 900000))) (\<lambda>c.
     bindE (assertInteger 1 10000 (js_or_else (jget v ''quarantineThreshold'') (JInt 10))) (\<lambda>d.
     bindE (assertInteger 1000 604800000 (js_or_else (jget v ''quarantineMs'') (JInt 3600000))) (\<lambda>e.
     Inr \<lparr>lp_failureThreshold = a, lp_failureWindowMs = b, lp_lockoutMs = c, lp_quarantineThreshold = d, lp_quarantineMs = e\<rparr>))))))"

definition createAbuseGuard :: "(string \<Rightarrow> string) \<Rightarrow> jsval \<Rightarrow> jsval \<Rightarrow> abuse_guard res" where
  "createAbuseGuard sha256 limits lockoutPolicy =
     bindE (createRateLimiter sha256 limits JUndef) (\<lambda>lim.
     bindE (normalizeLockoutPolicy lockoutPolicy) (\<lambda>p.
     Inr \<lparr>ag_limiter = lim, ag_policy = p, ag_failures = [], ag_lockouts = [], ag_quarantines = []\<rparr>))"

record abuse_subject =
  su_tenantId :: jsval
  su_subjectType :: jsval
  su_subject :: jsval

definition subjectKey :: "abuse_guard \<Rightarrow> abuse_subject \<Rightarrow> string res" where
  "subjectKey g su = bindE (assertId (su_tenantId su)) (\<lambda>tenant.
     bindE (assertSubjectType (su_subjectType su)) (\<lambda>t.
     bindE (assertString (\<lambda>_. True) 512 (su_subject su)) (\<lambda>v.
     Inr (tenant @ '':'' @ t @ '':'' @ digestSubject (rl_sha256 (ag_limiter g)) t v))))"

record abuse_status =
  st_locked :: bool
  st_quarantined :: bool
  st_lockoutUntil :: "int option"
  st_quarantineUntil :: "int option"

definition st_blocked :: "abuse_status \<Rightarrow> bool" where
  "st_blocked s \<longleftrightarrow> st_locked s \<or> st_quarantined s"

definition until :: "(string \<times> int) list \<Rightarrow> string \<Rightarrow> int" where
  "until m k = (case map_of m k of None \<Rightarrow> 0 | Some t \<Rightarrow> t)"

definition iso_if :: "bool \<Rightarrow> int \<Rightarrow> int option res" where
  "iso_if b t = (if \<not> b then Inr None else if date_ok t then Inr (Some t) else Inl rangeError)"

definition guard_status :: "(string \<Rightarrow> int option) \<Rightarrow> jsval \<Rightarrow> abuse_subject \<Rightarrow> abuse_guard \<Rightarrow> abuse_status res" where
  "guard_status pd now su g =
     bindE (assertDate pd now) (\<lambda>t.
     bindE (subjectKey g su) (\<lambda>k.
     let locked = t < until (ag_lockouts g) k; quarantined = t < until (ag_quarantines g) k in
     bindE (iso_if locked (until (ag_lockouts g) k)) (\<lambda>l.
     bindE (iso_if quarantined (until (ag_quarantines g) k)) (\<lambda>q.
     Inr \<lparr>st_locked = locked, st_quarantined = quarantined, st_lockoutUntil = l, st_quarantineUntil = q\<rparr>))))"

definition emit_event :: "bool \<Rightarrow> abuse_event \<Rightarrow> abuse_event res" where
  "emit_event hook_throws e = (if hook_throws then Inl (Err OtherErr [] 0) else Inr e)"

definition audit_of :: "string \<Rightarrow> jsval \<Rightarrow> string \<Rightarrow> abuse_subject \<Rightarrow> jsval \<Rightarrow> jsval \<Rightarrow> int \<Rightarrow> abuse_audit_input" where
  "audit_of action channel outcome su reason details t = \<lparr>ai_action = JStr action, ai_channel = channel, ai_outcome = JStr outcome,
     ai_tenantId = su_tenantId su, ai_subjectType = su_subjectType su, ai_subject = su_subject su, ai_reason = reason,
     ai_details = details, ai_occurredAt = JInt t\<rparr>"

definition failure_bucket :: "abuse_guard \<Rightarrow> string \<Rightarrow> int \<Rightarrow> rate_bucket" where
  "failure_bucket g k t = (let b = (case map_of (ag_failures g) k of
       Some b \<Rightarrow> if t - rb_startedAt b < lp_failureWindowMs (ag_policy g) then b else \<lparr>rb_startedAt = t, rb_count = 0\<rparr>
     | None \<Rightarrow> \<lparr>rb_startedAt = t, rb_count = 0\<rparr>) in b\<lparr>rb_count := rb_count b + 1\<rparr>)"

record failure_report =
  fr_count :: int
  fr_locked :: bool
  fr_quarantined :: bool
  fr_lockoutUntil :: "int option"
  fr_quarantineUntil :: "int option"
  fr_audit :: abuse_event

definition failure_input :: "(string \<Rightarrow> int option) \<Rightarrow> jsval \<Rightarrow> jsval \<Rightarrow> jsval \<Rightarrow> abuse_subject \<Rightarrow> abuse_guard \<Rightarrow> (int \<times> string) res" where
  "failure_input pd now channel reason su g =
     bindE (assertDate pd now) (\<lambda>t.
     bindE (assertChannel channel) (\<lambda>_.
     bindE (assertString reason_text_ok 128 reason) (\<lambda>_.
     bindE (subjectKey g su) (\<lambda>k. Inr (t, k)))))"

definition note_failure :: "string \<Rightarrow> rate_bucket \<Rightarrow> int \<Rightarrow> bool \<Rightarrow> bool \<Rightarrow> abuse_guard \<Rightarrow> abuse_guard" where
  "note_failure k b t locked quarantined g = g\<lparr>ag_failures := AList.update k b (ag_failures g),
     ag_lockouts := (if locked then AList.update k (t + lp_lockoutMs (ag_policy g)) (ag_lockouts g) else ag_lockouts g),
     ag_quarantines := (if quarantined then AList.update k (t + lp_quarantineMs (ag_policy g)) (ag_quarantines g) else ag_quarantines g)\<rparr>"

definition recordFailure :: "(string \<Rightarrow> int option) \<Rightarrow> string \<Rightarrow> bool \<Rightarrow> jsval \<Rightarrow> jsval \<Rightarrow> jsval \<Rightarrow> abuse_subject \<Rightarrow> abuse_guard \<Rightarrow>
    failure_report res \<times> abuse_guard" where
  "recordFailure pd uuid hook_throws now channel0 reason0 su g =
     (let channel = js_default channel0 (JStr ''login''); reason = js_default reason0 (JStr ''authentication-failure'') in
      liftE (failure_input pd now channel reason su g) g (\<lambda>(t, k).
      let b = failure_bucket g k t; p = ag_policy g;
          locked = lp_failureThreshold p \<le> rb_count b; quarantined = lp_quarantineThreshold p \<le> rb_count b;
          g1 = note_failure k b t locked quarantined g;
          outcome = (if quarantined then ''quarantined'' else if locked then ''locked'' else ''rejected'')
      in (bindE (createAbuseAuditEvent pd (rl_sha256 (ag_limiter g)) uuid (audit_of ''abuse.failure'' channel outcome su reason
              (JObj [(''count'', JInt (rb_count b)), (''threshold'', JInt (lp_failureThreshold p))]) t)) (\<lambda>event.
          bindE (iso_if locked (t + lp_lockoutMs p)) (\<lambda>l.
          bindE (iso_if quarantined (t + lp_quarantineMs p)) (\<lambda>q.
          bindE (emit_event hook_throws event) (\<lambda>e.
          Inr \<lparr>fr_count = rb_count b, fr_locked = locked, fr_quarantined = quarantined, fr_lockoutUntil = l,
               fr_quarantineUntil = q, fr_audit = e\<rparr>)))), g1)))"

definition success_input :: "(string \<Rightarrow> int option) \<Rightarrow> jsval \<Rightarrow> jsval \<Rightarrow> abuse_subject \<Rightarrow> abuse_guard \<Rightarrow> (int \<times> string) res" where
  "success_input pd now channel su g =
     bindE (assertDate pd now) (\<lambda>t. bindE (assertChannel channel) (\<lambda>_. bindE (subjectKey g su) (\<lambda>k. Inr (t, k))))"

definition forget :: "string \<Rightarrow> bool \<Rightarrow> abuse_guard \<Rightarrow> abuse_guard" where
  "forget k quarantine_too g = g\<lparr>ag_failures := AList.delete k (ag_failures g), ag_lockouts := AList.delete k (ag_lockouts g),
     ag_quarantines := (if quarantine_too then AList.delete k (ag_quarantines g) else ag_quarantines g)\<rparr>"

definition recordSuccess :: "(string \<Rightarrow> int option) \<Rightarrow> string \<Rightarrow> bool \<Rightarrow> jsval \<Rightarrow> jsval \<Rightarrow> abuse_subject \<Rightarrow> abuse_guard \<Rightarrow>
    abuse_event res \<times> abuse_guard" where
  "recordSuccess pd uuid hook_throws now channel0 su g =
     (let channel = js_default channel0 (JStr ''login'') in
      liftE (success_input pd now channel su g) g (\<lambda>(t, k).
        (bindE (createAbuseAuditEvent pd (rl_sha256 (ag_limiter g)) uuid (audit_of ''abuse.recovery'' channel ''released'' su
            (JStr ''authenticated-success'') (JObj []) t)) (emit_event hook_throws), forget k False g)))"

definition quarantine_input :: "(string \<Rightarrow> int option) \<Rightarrow> jsval \<Rightarrow> jsval \<Rightarrow> jsval \<Rightarrow> jsval \<Rightarrow> abuse_subject \<Rightarrow> abuse_guard \<Rightarrow> (int \<times> int \<times> string) res" where
  "quarantine_input pd now channel duration reason su g =
     bindE (assertDate pd now) (\<lambda>t.
     bindE (assertChannel channel) (\<lambda>_.
     bindE (assertInteger 1000 604800000 duration) (\<lambda>ms.
     bindE (assertString reason_text_ok 128 reason) (\<lambda>_.
     bindE (subjectKey g su) (\<lambda>k. Inr (t, ms, k))))))"

definition quarantineSubject :: "(string \<Rightarrow> int option) \<Rightarrow> string \<Rightarrow> bool \<Rightarrow> jsval \<Rightarrow> jsval \<Rightarrow> jsval \<Rightarrow> jsval \<Rightarrow> abuse_subject \<Rightarrow> abuse_guard \<Rightarrow>
    (int \<times> abuse_event) res \<times> abuse_guard" where
  "quarantineSubject pd uuid hook_throws now channel0 duration0 reason0 su g =
     (let channel = js_default channel0 (JStr ''api''); reason = js_default reason0 (JStr ''operator-quarantine'');
          duration = js_default duration0 (JInt (lp_quarantineMs (ag_policy g))) in
      liftE (quarantine_input pd now channel duration reason su g) g (\<lambda>(t, ms, k).
        (bindE (createAbuseAuditEvent pd (rl_sha256 (ag_limiter g)) uuid (audit_of ''abuse.quarantine'' channel ''quarantined'' su
            reason (JObj [(''durationMs'', JInt ms)]) t)) (\<lambda>event.
         if \<not> date_ok (t + ms) then Inl rangeError else bindE (emit_event hook_throws event) (\<lambda>e. Inr (t + ms, e))),
         g\<lparr>ag_quarantines := AList.update k (t + ms) (ag_quarantines g)\<rparr>)))"

definition releaseSubject :: "(string \<Rightarrow> int option) \<Rightarrow> string \<Rightarrow> bool \<Rightarrow> jsval \<Rightarrow> jsval \<Rightarrow> jsval \<Rightarrow> abuse_subject \<Rightarrow> abuse_guard \<Rightarrow>
    abuse_event res \<times> abuse_guard" where
  "releaseSubject pd uuid hook_throws now channel0 reason0 su g =
     (let channel = js_default channel0 (JStr ''api''); reason = js_default reason0 (JStr ''operator-release'') in
      liftE (failure_input pd now channel reason su g) g (\<lambda>(t, k).
        (bindE (createAbuseAuditEvent pd (rl_sha256 (ag_limiter g)) uuid (audit_of ''abuse.release'' channel ''released'' su
            reason (JObj []) t)) (emit_event hook_throws), forget k True g)))"

subsection \<open>The check\<close>

datatype check_result = Blocked "string list" | Decided rate_decision

definition check_candidates :: "rate_identity \<Rightarrow> string option \<Rightarrow> (string \<times> string) list" where
  "check_candidates i user = concat (map (\<lambda>(t, v). case v of None \<Rightarrow> [] | Some s \<Rightarrow> [(t, s)])
     [(''tenant'', Some (id_tenantId i)), (''ip'', id_ipAddress i), (''session'', id_sessionId i), (''user'', user)])"

definition check_user :: "jsval \<Rightarrow> string option res" where
  "check_user v = (case js_default v JNull of JNull \<Rightarrow> Inr None | w \<Rightarrow> bindE (assertId w) (\<lambda>s. Inr (Some s)))"

fun blocked_by :: "(string \<Rightarrow> int option) \<Rightarrow> (nat \<Rightarrow> jsval) \<Rightarrow> nat \<Rightarrow> string \<Rightarrow> abuse_guard \<Rightarrow> (string \<times> string) list \<Rightarrow> string list res" where
  "blocked_by pd clk n tenant g [] = Inr []"
| "blocked_by pd clk n tenant g ((t, v) # cs) =
     bindE (guard_status pd (clk n) \<lparr>su_tenantId = JStr tenant, su_subjectType = JStr t, su_subject = JStr v\<rparr> g) (\<lambda>s.
     bindE (blocked_by pd clk (Suc n) tenant g cs) (\<lambda>ts. Inr (if st_blocked s then t # ts else ts)))"

definition guard_check :: "(string \<Rightarrow> int option) \<Rightarrow> (nat \<Rightarrow> jsval) \<Rightarrow> rate_input \<Rightarrow> jsval \<Rightarrow> abuse_guard \<Rightarrow> check_result res \<times> abuse_guard" where
  "guard_check pd clk i userId g =
     liftE (bindE (normalizeRateIdentity (ri_tenantId i) (ri_ipAddress i) (ri_sessionId i)) (\<lambda>identity.
            bindE (check_user userId) (\<lambda>user.
            let cs = check_candidates identity user in
            bindE (blocked_by pd clk 0 (id_tenantId identity) g cs) (\<lambda>ts. Inr (identity, length cs, ts))))) g
       (\<lambda>(identity, n, ts).
          if ts \<noteq> [] then (Inr (Blocked ts), g)
          else (case rate_consume pd (clk n) (i\<lparr>ri_tenantId := JStr (id_tenantId identity), ri_ipAddress := opt_js (id_ipAddress identity),
                 ri_sessionId := opt_js (id_sessionId identity)\<rparr>) (ag_limiter g) of
              (r, lim1) \<Rightarrow> (bindE r (\<lambda>x. Inr (Decided x)), g\<lparr>ag_limiter := lim1\<rparr>)))"

lemmas abuse_guard_defs [code_defs] = SENSITIVE_KEY_WORDS_def sensitive_name_def ABUSE_OUTCOMES_def event_js_def event_subject_def
  createAbuseAuditEvent_def normalizeLockoutPolicy_def createAbuseGuard_def subjectKey_def st_blocked_def until_def iso_if_def
  guard_status_def emit_event_def audit_of_def failure_bucket_def failure_input_def note_failure_def recordFailure_def
  success_input_def forget_def recordSuccess_def quarantine_input_def quarantineSubject_def releaseSubject_def
  check_candidates_def check_user_def guard_check_def

subsection \<open>A locked subject\<close>

lemma guard_status_locked:
  assumes "guard_status pd now su g = Inr s" "subjectKey g su = Inr k" "assertDate pd now = Inr t" "t < until (ag_lockouts g) k"
  shows "st_locked s"
  using assms by (auto simp: guard_status_def Let_def)

lemma iso_if_Inr: "iso_if b t = Inr x \<Longrightarrow> b \<Longrightarrow> date_ok t \<and> x = Some t"
  by (auto simp: iso_if_def split: if_split_asm)

lemma recordFailure_cases:
  "snd (recordFailure pd uuid hook now channel reason su g) = g \<or>
   (\<exists>t k b locked quarantined. assertDate pd now = Inr t \<and> subjectKey g su = Inr k \<and> b = failure_bucket g k t
      \<and> locked = (lp_failureThreshold (ag_policy g) \<le> rb_count b)
      \<and> snd (recordFailure pd uuid hook now channel reason su g) = note_failure k b t locked quarantined g)"
proof (cases "failure_input pd now (js_default channel (JStr ''login'')) (js_default reason (JStr ''authentication-failure'')) su g")
  case (Inr p)
  obtain t k where p: "p = (t, k)" by (cases p)
  with Inr have "assertDate pd now = Inr t" "subjectKey g su = Inr k" by (auto simp: failure_input_def)
  with Inr p show ?thesis by (auto simp: recordFailure_def Let_def)
qed (simp add: recordFailure_def Let_def)

lemma recordFailure_Inr:
  assumes "recordFailure pd uuid hook now channel reason su g = (Inr fr, g1)"
  shows "\<exists>t k. assertDate pd now = Inr t \<and> subjectKey g su = Inr k \<and> fr_count fr = rb_count (failure_bucket g k t)
    \<and> fr_locked fr = (lp_failureThreshold (ag_policy g) \<le> fr_count fr)
    \<and> g1 = note_failure k (failure_bucket g k t) t (fr_locked fr) (fr_quarantined fr) g"
  using assms by (auto simp: recordFailure_def failure_input_def Let_def)

inductive guard_run :: "(string \<Rightarrow> int option) \<Rightarrow> string \<Rightarrow> int \<Rightarrow> abuse_guard \<Rightarrow> abuse_guard \<Rightarrow> bool" for pd k lo g where
  guard_run_none: "guard_run pd k lo g g"
| guard_run_failure: "guard_run pd k lo g g1 \<Longrightarrow> (\<And>t. assertDate pd now = Inr t \<Longrightarrow> lo \<le> t) \<Longrightarrow>
    guard_run pd k lo g (snd (recordFailure pd uuid hook now channel reason su g1))"
| guard_run_success: "guard_run pd k lo g g1 \<Longrightarrow> subjectKey g1 su \<noteq> Inr k \<Longrightarrow>
    guard_run pd k lo g (snd (recordSuccess pd uuid hook now channel su g1))"
| guard_run_quarantine: "guard_run pd k lo g g1 \<Longrightarrow>
    guard_run pd k lo g (snd (quarantineSubject pd uuid hook now channel duration reason su g1))"
| guard_run_release: "guard_run pd k lo g g1 \<Longrightarrow> subjectKey g1 su \<noteq> Inr k \<Longrightarrow>
    guard_run pd k lo g (snd (releaseSubject pd uuid hook now channel reason su g1))"
| guard_run_check: "guard_run pd k lo g g1 \<Longrightarrow> guard_run pd k lo g (snd (guard_check pd clk i userId g1))"

definition same_guard :: "abuse_guard \<Rightarrow> abuse_guard \<Rightarrow> bool" where
  "same_guard g g1 \<longleftrightarrow> ag_policy g1 = ag_policy g \<and> rl_sha256 (ag_limiter g1) = rl_sha256 (ag_limiter g)"

lemma same_guard_key: "same_guard g g1 \<Longrightarrow> subjectKey g1 su = subjectKey g su"
  by (simp add: same_guard_def subjectKey_def)

lemma same_guard_trans: "same_guard g g1 \<Longrightarrow> same_guard g1 g2 \<Longrightarrow> same_guard g g2"
  by (simp add: same_guard_def)

lemma note_failure_simps [simp]:
  "same_guard g (note_failure k b t locked quarantined g)"
  "ag_failures (note_failure k b t locked quarantined g) = AList.update k b (ag_failures g)"
  "ag_lockouts (note_failure k b t locked quarantined g) = (if locked then AList.update k (t + lp_lockoutMs (ag_policy g)) (ag_lockouts g) else ag_lockouts g)"
  by (simp_all add: note_failure_def same_guard_def)

lemma recordSuccess_cases:
  "snd (recordSuccess pd uuid hook now channel su g) = g \<or>
   (\<exists>k. subjectKey g su = Inr k \<and> snd (recordSuccess pd uuid hook now channel su g) = forget k False g)"
proof (cases "success_input pd now (js_default channel (JStr ''login'')) su g")
  case (Inr p)
  obtain t k where p: "p = (t, k)" by (cases p)
  with Inr have "subjectKey g su = Inr k" by (auto simp: success_input_def)
  with Inr p show ?thesis by (auto simp: recordSuccess_def Let_def)
qed (simp add: recordSuccess_def Let_def)

lemma releaseSubject_cases:
  "snd (releaseSubject pd uuid hook now channel reason su g) = g \<or>
   (\<exists>k. subjectKey g su = Inr k \<and> snd (releaseSubject pd uuid hook now channel reason su g) = forget k True g)"
proof (cases "failure_input pd now (js_default channel (JStr ''api'')) (js_default reason (JStr ''operator-release'')) su g")
  case (Inr p)
  obtain t k where p: "p = (t, k)" by (cases p)
  with Inr have "subjectKey g su = Inr k" by (auto simp: failure_input_def)
  with Inr p show ?thesis by (auto simp: releaseSubject_def Let_def)
qed (simp add: releaseSubject_def Let_def)

lemma quarantineSubject_keeps:
  "same_guard g (snd (quarantineSubject pd uuid hook now channel duration reason su g))
   \<and> ag_lockouts (snd (quarantineSubject pd uuid hook now channel duration reason su g)) = ag_lockouts g"
  by (simp add: quarantineSubject_def Let_def liftE_def same_guard_def split: sum.split prod.split)

lemma guard_check_keeps:
  "same_guard g (snd (guard_check pd clk i userId g)) \<and> ag_lockouts (snd (guard_check pd clk i userId g)) = ag_lockouts g"
proof -
  have "rl_sha256 lim1 = rl_sha256 lim" if "rate_consume pd now j lim = (r, lim1)" for now j lim r lim1
    using consume_config [OF that] by (simp add: same_config_def)
  then show ?thesis
    by (auto simp: guard_check_def Let_def liftE_def same_guard_def split: sum.split prod.split)
qed

lemma forget_simps [simp]: "same_guard g (forget k b g)"
  "ag_lockouts (forget k b g) = AList.delete k (ag_lockouts g)"
  by (simp_all add: forget_def same_guard_def)

lemma until_update [simp]: "until (AList.update k t m) k' = (if k' = k then t else until m k')"
  "until (AList.delete k m) k' = (if k' = k then 0 else until m k')"
  by (auto simp: until_def)

lemma guard_run_locked:
  "guard_run pd k lo g g1 \<Longrightarrow> lo + lp_lockoutMs (ag_policy g) \<le> until (ag_lockouts g) k \<Longrightarrow>
   same_guard g g1 \<and> lo + lp_lockoutMs (ag_policy g) \<le> until (ag_lockouts g1) k"
proof (induction rule: guard_run.induct)
  case (guard_run_failure g1 now uuid hook channel reason su)
  from guard_run_failure have ih: "same_guard g g1" "lo + lp_lockoutMs (ag_policy g) \<le> until (ag_lockouts g1) k" by blast+
  show ?case using recordFailure_cases [of pd uuid hook now channel reason su g1]
  proof (elim disjE exE conjE)
    fix t k' b locked quarantined
    assume f: "assertDate pd now = Inr t" "snd (recordFailure pd uuid hook now channel reason su g1) = note_failure k' b t locked quarantined g1"
    have "lo \<le> t" using guard_run_failure.hyps(2) f(1) by blast
    moreover have "ag_policy g1 = ag_policy g" using ih(1) by (simp add: same_guard_def)
    ultimately show ?thesis using ih f(2) same_guard_trans [OF ih(1) note_failure_simps(1)] by simp
  qed (use ih in simp)
next
  case (guard_run_success g1 su uuid hook now channel)
  then have ih: "same_guard g g1" "lo + lp_lockoutMs (ag_policy g) \<le> until (ag_lockouts g1) k" by blast+
  show ?case using recordSuccess_cases [of pd uuid hook now channel su g1] ih same_guard_trans [OF ih(1)] guard_run_success.hyps(2)
    by auto
next
  case (guard_run_release g1 su uuid hook now channel reason)
  then have ih: "same_guard g g1" "lo + lp_lockoutMs (ag_policy g) \<le> until (ag_lockouts g1) k" by blast+
  show ?case using releaseSubject_cases [of pd uuid hook now channel reason su g1] ih same_guard_trans [OF ih(1)] guard_run_release.hyps(2)
    by auto
next
  case (guard_run_quarantine g1 uuid hook now channel duration reason su)
  then show ?case using quarantineSubject_keeps [of g1 pd uuid hook now channel duration reason su] same_guard_trans by auto
next
  case (guard_run_check g1 clk i userId)
  then show ?case using guard_check_keeps [of g1 pd clk i userId] same_guard_trans by auto
qed (simp add: same_guard_def)

lemma blocked_by_in:
  "blocked_by pd clk n tenant g cs = Inr ts \<Longrightarrow> (ty, v) \<in> set cs \<Longrightarrow>
   (\<And>m s. guard_status pd (clk m) \<lparr>su_tenantId = JStr tenant, su_subjectType = JStr ty, su_subject = JStr v\<rparr> g = Inr s \<Longrightarrow> st_blocked s) \<Longrightarrow>
   ty \<in> set ts"
proof (induction pd clk n tenant g cs arbitrary: ts rule: blocked_by.induct)
  case (2 pd clk n tenant g t v' cs)
  then show ?case by (auto split: if_split_asm)
qed simp

inductive failing :: "(string \<Rightarrow> int option) \<Rightarrow> abuse_subject \<Rightarrow> int \<Rightarrow> int \<Rightarrow> abuse_guard \<Rightarrow> nat \<Rightarrow> abuse_guard \<Rightarrow> bool" for pd su lo hi g where
  failing_none: "failing pd su lo hi g 0 g"
| failing_once: "failing pd su lo hi g n g1 \<Longrightarrow> recordFailure pd uuid hook now channel reason su g1 = (Inr fr, g2) \<Longrightarrow>
    assertDate pd now = Inr t \<Longrightarrow> lo \<le> t \<Longrightarrow> t < hi \<Longrightarrow> failing pd su lo hi g (Suc n) g2"

lemma failing_counts:
  assumes "subjectKey g su = Inr k" "map_of (ag_failures g) k = None" "hi - lo \<le> lp_failureWindowMs (ag_policy g)"
  shows "failing pd su lo hi g n g1 \<Longrightarrow> same_guard g g1 \<and>
    (if n = 0 then map_of (ag_failures g1) k = None
     else \<exists>b. map_of (ag_failures g1) k = Some b \<and> rb_count b = int n \<and> lo \<le> rb_startedAt b) \<and>
    (0 < n \<longrightarrow> lp_failureThreshold (ag_policy g) \<le> int n \<longrightarrow> lo + lp_lockoutMs (ag_policy g) \<le> until (ag_lockouts g1) k)"
proof (induction rule: failing.induct)
  case failing_none
  then show ?case using assms by (simp add: same_guard_def)
next
  case (failing_once n g1 uuid hook now channel reason fr g2 t)
  have same: "same_guard g g1" using failing_once.IH by blast
  then have pol: "ag_policy g1 = ag_policy g" by (simp add: same_guard_def)
  from recordFailure_Inr [OF failing_once.hyps(2)] obtain t' k' where r: "assertDate pd now = Inr t'" "subjectKey g1 su = Inr k'"
    "fr_count fr = rb_count (failure_bucket g1 k' t')" "fr_locked fr = (lp_failureThreshold (ag_policy g1) \<le> fr_count fr)"
    "g2 = note_failure k' (failure_bucket g1 k' t') t' (fr_locked fr) (fr_quarantined fr) g1" by blast
  have tk: "t' = t" "k' = k" using r(1,2) failing_once.hyps(3) assms(1) same_guard_key [OF same] by simp_all
  have b: "rb_count (failure_bucket g1 k t) = int (Suc n) \<and> lo \<le> rb_startedAt (failure_bucket g1 k t)"
  proof (cases "n = 0")
    case True
    then show ?thesis using failing_once.IH failing_once.hyps(4) by (simp add: failure_bucket_def Let_def)
  next
    case False
    then obtain b where b: "map_of (ag_failures g1) k = Some b" "rb_count b = int n" "lo \<le> rb_startedAt b"
      using failing_once.IH by auto
    have "t - rb_startedAt b < lp_failureWindowMs (ag_policy g1)" using b(3) failing_once.hyps(5) assms(3) unfolding pol by linarith
    with b show ?thesis by (simp add: failure_bucket_def Let_def)
  qed
  have "same_guard g g2" using same_guard_trans [OF same note_failure_simps(1)] r(5) by simp
  moreover have "map_of (ag_failures g2) k = Some (failure_bucket g1 k t)" using r(5) tk by simp
  moreover have "lo + lp_lockoutMs (ag_policy g) \<le> until (ag_lockouts g2) k" if "lp_failureThreshold (ag_policy g) \<le> int (Suc n)"
  proof -
    have "fr_locked fr" using r(3,4) b tk pol that by simp
    with r(5) tk pol failing_once.hyps(4) show ?thesis by simp
  qed
  ultimately show ?case using b by auto
qed

lemma check_blocks:
  assumes "guard_check pd clk i userId g = (Inr x, g1)" "subjectKey g su = Inr k"
    and "normalizeRateIdentity (ri_tenantId i) (ri_ipAddress i) (ri_sessionId i) = Inr identity" "check_user userId = Inr user"
    and su: "su = \<lparr>su_tenantId = JStr (id_tenantId identity), su_subjectType = JStr ty, su_subject = JStr v\<rparr>"
    and "(ty, v) \<in> set (check_candidates identity user)"
    and "\<And>m t. assertDate pd (clk m) = Inr t \<Longrightarrow> t < until (ag_lockouts g) k"
  shows "\<exists>ts. x = Blocked ts \<and> ty \<in> set ts \<and> g1 = g"
proof -
  have st: "guard_status pd (clk m) su g = Inr s \<Longrightarrow> st_blocked s" for m s
  proof -
    assume s: "guard_status pd (clk m) su g = Inr s"
    then obtain t where t: "assertDate pd (clk m) = Inr t" by (auto simp: guard_status_def)
    from guard_status_locked [OF s assms(2) t assms(7) [OF t]] show "st_blocked s" by (simp add: st_blocked_def)
  qed
  obtain ts where ts: "blocked_by pd clk 0 (id_tenantId identity) g (check_candidates identity user) = Inr ts"
    "ts \<noteq> [] \<longrightarrow> x = Blocked ts \<and> g1 = g"
    using assms(1,3,4) by (auto simp: guard_check_def Let_def liftE_def split: sum.split_asm if_split_asm prod.split_asm)
  from blocked_by_in [OF ts(1) assms(6) st [unfolded su]] have "ty \<in> set ts" .
  with ts(2) show ?thesis by auto
qed

lemma event_names_plain: "list_all (\<lambda>k. \<not> sensitive_name k) [''schemaVersion'', ''eventType'', ''eventId'', ''action'', ''channel'', ''outcome'',
    ''tenantId'', ''subjectType'', ''subjectDigest'', ''reason'', ''details'', ''occurredAt'', ''count'', ''threshold'', ''durationMs'']"
  by code_simp

lemma event_js_ok: "assertMetadata (ae_details e) = Inr () \<Longrightarrow> assertMetadata (event_js e) = Inr ()"
  using event_names_plain by (simp add: event_js_def opt_js_def split: option.split)

lemma action_names_ok: "list_all (\<lambda>a. a \<noteq> [] \<and> length a \<le> 128 \<and> reason_text_ok a) [''abuse.failure'', ''abuse.recovery'', ''abuse.quarantine'', ''abuse.release'',
    ''authenticated-success'', ''authentication-failure'', ''operator-quarantine'', ''operator-release'']"
  by code_simp

lemma audit_built:
  assumes "action \<in> set [''abuse.failure'', ''abuse.recovery'', ''abuse.quarantine'', ''abuse.release'']"
    and "outcome \<in> set ABUSE_OUTCOMES" "assertChannel channel = Inr c" "subjectKey g su = Inr k"
    and "assertString reason_text_ok 128 reason = Inr r" "assertMetadata (JObj kvs) = Inr ()" "date_ok t"
  shows "\<exists>e. createAbuseAuditEvent pd sha256 uuid (audit_of action channel outcome su reason (JObj kvs) t) = Inr e"
proof -
  from assms(4) obtain n ty v where s: "assertId (su_tenantId su) = Inr n" "su_subjectType su = JStr ty" "assertSubjectType (JStr ty) = Inr ty"
    "assertString (\<lambda>_. True) 512 (su_subject su) = Inr v"
    by (auto simp: subjectKey_def assertSubjectType_def)
  have "assertString reason_text_ok 128 (JStr action) = Inr action"
    using assms(1) action_names_ok by (auto simp: assertString_def need_str_def)
  moreover have "assertDate pd (JInt t) = Inr t" using assms(7) by (simp add: assertDate_def dateable_def)
  moreover have "need_str (\<lambda>s. s \<in> set ABUSE_OUTCOMES) (abuseError ''INVALID_AUDIT'') (JStr outcome) = Inr outcome"
    using assms(2) by (simp add: need_str_def)
  ultimately show ?thesis
    using assms(3,5,6) s
    by (simp add: createAbuseAuditEvent_def audit_of_def event_subject_def js_default_def assertPlainObject_def plain_object_def Let_def event_js_ok)
qed

lemma recordFailure_succeeds:
  assumes "assertDate pd now = Inr t" "subjectKey g su = Inr k" "date_ok t" "date_ok (t + lp_lockoutMs (ag_policy g))"
    "date_ok (t + lp_quarantineMs (ag_policy g))"
  shows "\<exists>fr. recordFailure pd uuid False now JUndef JUndef su g = (Inr fr, note_failure k (failure_bucket g k t) t (fr_locked fr) (fr_quarantined fr) g)
    \<and> fr_locked fr = (lp_failureThreshold (ag_policy g) \<le> rb_count (failure_bucket g k t))"
proof -
  have c: "assertChannel (JStr ''login'') = Inr ''login''" by (simp add: assertChannel_def need_str_def ABUSE_CHANNELS_def)
  have r: "assertString reason_text_ok 128 (JStr ''authentication-failure'') = Inr ''authentication-failure''"
    using action_names_ok by (simp add: assertString_def need_str_def)
  let ?b = "failure_bucket g k t" and ?p = "ag_policy g"
  let ?outcome = "if lp_quarantineThreshold ?p \<le> rb_count ?b then ''quarantined'' else if lp_failureThreshold ?p \<le> rb_count ?b then ''locked'' else ''rejected''"
  have m: "assertMetadata (JObj [(''count'', JInt x), (''threshold'', JInt y)]) = Inr ()" for x y using event_names_plain by simp
  have o: "?outcome \<in> set ABUSE_OUTCOMES" by (simp add: ABUSE_OUTCOMES_def)
  have "\<exists>e. createAbuseAuditEvent pd (rl_sha256 (ag_limiter g)) uuid (audit_of ''abuse.failure'' (JStr ''login'') ?outcome su
      (JStr ''authentication-failure'') (JObj [(''count'', JInt (rb_count ?b)), (''threshold'', JInt (lp_failureThreshold ?p))]) t) = Inr e"
    by (rule audit_built [OF _ o c assms(2) r m assms(3)]) simp
  then obtain e where "createAbuseAuditEvent pd (rl_sha256 (ag_limiter g)) uuid (audit_of ''abuse.failure'' (JStr ''login'') ?outcome su
      (JStr ''authentication-failure'') (JObj [(''count'', JInt (rb_count ?b)), (''threshold'', JInt (lp_failureThreshold ?p))]) t) = Inr e" by blast
  then show ?thesis
    using assms c r by (simp add: recordFailure_def failure_input_def js_default_def Let_def emit_event_def iso_if_def)
qed

subsection \<open>Properties\<close>

text \<open>C27 A lockout holds: once a failure was reported as locking a subject, then whatever happens afterwards,
  other than a success or a release of that very subject, its status is locked until the lockout time
  has passed since that failure, and every check of a request that carries the subject is refused with
  its type named and without charging the limiter.\<close>

theorem lockout_holds:
  assumes "recordFailure pd uuid hook now channel reason su g = (Inr fr, g1)" "fr_locked fr" "subjectKey g su = Inr k"
    and "assertDate pd now = Inr t" "guard_run pd k t g1 g2"
  shows "(guard_status pd now' su g2 = Inr s \<and> assertDate pd now' = Inr t' \<and> t' < t + lp_lockoutMs (ag_policy g) \<longrightarrow> st_locked s)
    \<and> (guard_check pd clk i userId g2 = (Inr x, g3)
       \<and> normalizeRateIdentity (ri_tenantId i) (ri_ipAddress i) (ri_sessionId i) = Inr identity \<and> check_user userId = Inr user
       \<and> su = \<lparr>su_tenantId = JStr (id_tenantId identity), su_subjectType = JStr ty, su_subject = JStr v\<rparr>
       \<and> (ty, v) \<in> set (check_candidates identity user)
       \<and> (\<forall>m u. assertDate pd (clk m) = Inr u \<longrightarrow> u < t + lp_lockoutMs (ag_policy g))
       \<longrightarrow> (\<exists>ts. x = Blocked ts \<and> ty \<in> set ts \<and> g3 = g2))"
proof -
  from recordFailure_Inr [OF assms(1)] assms(2-4) have g1: "g1 = note_failure k (failure_bucket g k t) t True (fr_quarantined fr) g"
    by auto
  then have "same_guard g g1" "t + lp_lockoutMs (ag_policy g1) \<le> until (ag_lockouts g1) k"
    by (simp_all add: note_failure_def same_guard_def)
  with guard_run_locked [OF assms(5)] have same: "same_guard g g2" and u: "t + lp_lockoutMs (ag_policy g) \<le> until (ag_lockouts g2) k"
    by (auto simp: same_guard_def)
  have key: "subjectKey g2 su = Inr k" using same_guard_key [OF same] assms(3) by simp
  show ?thesis
  proof (intro conjI impI; elim conjE)
    assume "guard_status pd now' su g2 = Inr s" "assertDate pd now' = Inr t'" "t' < t + lp_lockoutMs (ag_policy g)"
    with guard_status_locked [OF _ key] u show "st_locked s" by fastforce
  next
    assume a: "guard_check pd clk i userId g2 = (Inr x, g3)"
      "normalizeRateIdentity (ri_tenantId i) (ri_ipAddress i) (ri_sessionId i) = Inr identity" "check_user userId = Inr user"
      "su = \<lparr>su_tenantId = JStr (id_tenantId identity), su_subjectType = JStr ty, su_subject = JStr v\<rparr>"
      "(ty, v) \<in> set (check_candidates identity user)"
      "\<forall>m u. assertDate pd (clk m) = Inr u \<longrightarrow> u < t + lp_lockoutMs (ag_policy g)"
    show "\<exists>ts. x = Blocked ts \<and> ty \<in> set ts \<and> g3 = g2"
      by (rule check_blocks [OF a(1) key a(2-5)]) (use a(6) u in fastforce)
  qed
qed

definition example_guard :: abuse_guard where
  "example_guard = \<lparr>ag_limiter = example_limiter, ag_policy = \<lparr>lp_failureThreshold = 2, lp_failureWindowMs = 900000, lp_lockoutMs = 900000,
     lp_quarantineThreshold = 10, lp_quarantineMs = 3600000\<rparr>, ag_failures = [], ag_lockouts = [], ag_quarantines = []\<rparr>"

definition example_subject :: abuse_subject where
  "example_subject = \<lparr>su_tenantId = JStr ''t1'', su_subjectType = JStr ''user'', su_subject = JStr ''ada''\<rparr>"

lemma example_time: "assertDate pd (JInt n) = (if date_ok n then Inr n else Inl (abuseError ''INVALID_TIMESTAMP''))"
  by (simp add: assertDate_def dateable_def)

lemma example_subject_key: "ag_limiter g = example_limiter \<Longrightarrow> \<exists>k. subjectKey g example_subject = Inr k"
proof -
  have "assertId (JStr ''t1'') = Inr ''t1''" by code_simp
  then show ?thesis
    by (simp add: subjectKey_def example_subject_def assertSubjectType_def assertString_def need_str_def ABUSE_SUBJECT_TYPES_def)
qed

lemma example_failures:
  "\<exists>k fr1 g1 fr2 g2. subjectKey example_guard example_subject = Inr k
    \<and> recordFailure (\<lambda>_. None) ''e1'' False (JInt 1000) JUndef JUndef example_subject example_guard = (Inr fr1, g1)
    \<and> recordFailure (\<lambda>_. None) ''e2'' False (JInt 2000) JUndef JUndef example_subject g1 = (Inr fr2, g2)
    \<and> fr_locked fr2 \<and> subjectKey g1 example_subject = Inr k
    \<and> guard_status (\<lambda>_. None) (JInt 800000) example_subject g2 = Inr \<lparr>st_locked = True, st_quarantined = False, st_lockoutUntil = Some 902000, st_quarantineUntil = None\<rparr>"
proof -
  obtain k where k: "subjectKey example_guard example_subject = Inr k" using example_subject_key [of example_guard] by (auto simp: example_guard_def)
  have d: "date_ok 1000" "date_ok 2000" "date_ok 901000" "date_ok 3601000" "date_ok 902000" "date_ok 3602000" "date_ok 800000"
    by (simp_all add: date_ok_def max_date_def)
  have pol: "lp_lockoutMs (ag_policy example_guard) = 900000" "lp_quarantineMs (ag_policy example_guard) = 3600000"
    "lp_failureThreshold (ag_policy example_guard) = 2" "lp_failureWindowMs (ag_policy example_guard) = 900000" by (simp_all add: example_guard_def)
  obtain fr1 where f1: "recordFailure (\<lambda>_. None) ''e1'' False (JInt 1000) JUndef JUndef example_subject example_guard
      = (Inr fr1, note_failure k (failure_bucket example_guard k 1000) 1000 (fr_locked fr1) (fr_quarantined fr1) example_guard)"
    "fr_locked fr1 = (2 \<le> rb_count (failure_bucket example_guard k 1000))"
    using recordFailure_succeeds [of "\<lambda>_. None" "JInt 1000" 1000 example_guard example_subject k "''e1''"] k d pol by (auto simp: example_time)
  define g1 where "g1 = note_failure k (failure_bucket example_guard k 1000) 1000 (fr_locked fr1) (fr_quarantined fr1) example_guard"
  have b1: "failure_bucket example_guard k 1000 = \<lparr>rb_startedAt = 1000, rb_count = 1\<rparr>" by (simp add: failure_bucket_def example_guard_def)
  have same1: "same_guard example_guard g1" by (simp add: g1_def)
  have k1: "subjectKey g1 example_subject = Inr k" using same_guard_key [OF same1] k by simp
  have pol1: "ag_policy g1 = ag_policy example_guard" using same1 by (simp add: same_guard_def)
  have b2: "failure_bucket g1 k 2000 = \<lparr>rb_startedAt = 1000, rb_count = 2\<rparr>"
  proof -
    have "map_of (ag_failures g1) k = Some \<lparr>rb_startedAt = 1000, rb_count = 1\<rparr>" by (simp add: g1_def b1)
    then show ?thesis using pol(4) by (simp add: failure_bucket_def pol1)
  qed
  obtain fr2 where f2: "recordFailure (\<lambda>_. None) ''e2'' False (JInt 2000) JUndef JUndef example_subject g1
      = (Inr fr2, note_failure k (failure_bucket g1 k 2000) 2000 (fr_locked fr2) (fr_quarantined fr2) g1)"
    "fr_locked fr2 = (2 \<le> rb_count (failure_bucket g1 k 2000))"
    using recordFailure_succeeds [of "\<lambda>_. None" "JInt 2000" 2000 g1 example_subject k "''e2''"] k1 d pol by (auto simp: example_time pol1)
  have l2: "fr_locked fr2" using f2(2) b2 by simp
  have q2: "\<not> fr_quarantined fr2" "\<not> fr_quarantined fr1"
    using f1(1) f2(1) k k1 d b1 b2 pol1 by (auto simp: recordFailure_def failure_input_def example_time Let_def example_guard_def iso_if_def)
  let ?g2 = "note_failure k (failure_bucket g1 k 2000) 2000 (fr_locked fr2) (fr_quarantined fr2) g1"
  have k2: "subjectKey ?g2 example_subject = Inr k" using same_guard_key [OF note_failure_simps(1)] k1 by simp
  have u: "until (ag_lockouts ?g2) k = 902000" using l2 pol pol1 by simp
  have q: "until (ag_quarantines ?g2) k = 0" using q2 by (simp add: note_failure_def g1_def example_guard_def until_def)
  have "guard_status (\<lambda>_. None) (JInt 800000) example_subject ?g2 = Inr \<lparr>st_locked = True, st_quarantined = False, st_lockoutUntil = Some 902000, st_quarantineUntil = None\<rparr>"
    using k2 u q d by (simp add: guard_status_def example_time Let_def iso_if_def)
  with k k1 f1(1) f2(1) l2 show ?thesis unfolding g1_def [symmetric] by blast
qed

lemma lockout_holds_witness:
  "\<exists>g1 fr g2 s. recordFailure (\<lambda>_. None) ''e2'' False (JInt 2000) JUndef JUndef example_subject g1 = (Inr fr, g2)
     \<and> guard_status (\<lambda>_. None) (JInt 800000) example_subject g2 = Inr s \<and> st_locked s"
proof -
  from example_failures obtain k fr1 g1 fr2 g2 s where f: "recordFailure (\<lambda>_. None) ''e2'' False (JInt 2000) JUndef JUndef example_subject g1 = (Inr fr2, g2)"
    "fr_locked fr2" "subjectKey g1 example_subject = Inr k" "guard_status (\<lambda>_. None) (JInt 800000) example_subject g2 = Inr s"
    "recordFailure (\<lambda>_. None) ''e1'' False (JInt 1000) JUndef JUndef example_subject example_guard = (Inr fr1, g1)" by blast
  have d: "date_ok 2000" "date_ok 800000" by (simp_all add: date_ok_def max_date_def)
  from recordFailure_Inr [OF f(5)] have "ag_policy g1 = ag_policy example_guard" by (auto simp: note_failure_def)
  then have "lp_lockoutMs (ag_policy g1) = 900000" by (simp add: example_guard_def)
  with lockout_holds [OF f(1-3) _ guard_run_none, of 2000 "JInt 800000" s 800000] f(4) d have "st_locked s"
    by (simp add: example_time)
  with f(1,4) show ?thesis by blast
qed

text \<open>Enough failures lock: when a subject without a failure on record fails as often as the policy's
  threshold within the failure window, its status is locked for the lockout time from the beginning of
  that stretch, and stays so whatever happens other than a success or a release of the subject.\<close>

theorem failures_lock:
  assumes "subjectKey g su = Inr k" "map_of (ag_failures g) k = None" "hi - lo \<le> lp_failureWindowMs (ag_policy g)"
    and "failing pd su lo hi g n g1" "0 < n" "lp_failureThreshold (ag_policy g) \<le> int n" "guard_run pd k lo g1 g2"
    and "guard_status pd now su g2 = Inr s" "assertDate pd now = Inr t" "t < lo + lp_lockoutMs (ag_policy g)"
  shows "st_locked s"
proof -
  have f: "same_guard g g1" "lo + lp_lockoutMs (ag_policy g) \<le> until (ag_lockouts g1) k"
    using failing_counts [OF assms(1-4)] assms(5,6) by blast+
  then have "ag_policy g1 = ag_policy g" by (simp add: same_guard_def)
  with guard_run_locked [OF assms(7)] f have r: "same_guard g1 g2" "lo + lp_lockoutMs (ag_policy g) \<le> until (ag_lockouts g2) k" by simp_all
  have "subjectKey g2 su = Inr k" using same_guard_key [OF same_guard_trans [OF f(1) r(1)]] assms(1) by simp
  from guard_status_locked [OF assms(8) this assms(9)] r(2) assms(10) show ?thesis by simp
qed

lemma failures_lock_witness:
  "\<exists>g2 s. guard_status (\<lambda>_. None) (JInt 800000) example_subject g2 = Inr s \<and> st_locked s
     \<and> failing (\<lambda>_. None) example_subject 1000 3000 example_guard 2 g2"
proof -
  from example_failures obtain k fr1 g1 fr2 g2 s where f: "subjectKey example_guard example_subject = Inr k"
    "recordFailure (\<lambda>_. None) ''e1'' False (JInt 1000) JUndef JUndef example_subject example_guard = (Inr fr1, g1)"
    "recordFailure (\<lambda>_. None) ''e2'' False (JInt 2000) JUndef JUndef example_subject g1 = (Inr fr2, g2)"
    "guard_status (\<lambda>_. None) (JInt 800000) example_subject g2 = Inr s" by blast
  have d: "date_ok 1000" "date_ok 2000" "date_ok 800000" by (simp_all add: date_ok_def max_date_def)
  have "failing (\<lambda>_. None) example_subject 1000 3000 example_guard (Suc 0) g1"
    by (rule failing_once [OF failing_none f(2), of 1000]) (use d in \<open>simp_all add: example_time\<close>)
  then have run: "failing (\<lambda>_. None) example_subject 1000 3000 example_guard (Suc (Suc 0)) g2"
    by (rule failing_once [OF _ f(3), of _ _ _ _ 2000]) (use d in \<open>simp_all add: example_time\<close>)
  have "st_locked s"
    using failures_lock [OF f(1) _ _ run _ _ guard_run_none f(4)] d by (simp add: example_time example_guard_def)
  with f(4) run show ?thesis by (auto simp: numeral_2_eq_2)
qed

end
