(* ===== verification/Account_Lifecycle.thy ===== *)
theory Account_Lifecycle
  imports JS_Base
begin

section \<open>The account deletion lifecycle\<close>

text \<open>
  \<open>src/core/lifecycle/account-lifecycle.ts\<close>: the audited state machine of account deletion.  The store
  holds the accounts by tenant and user, the answers already given by operation identifier, and the
  audit events.  A call of \<open>now()\<close> is a value of unknown type and \<open>randomUUID()\<close> a string, both in the
  environment of an operation; an input is an object of unknown fields.  The operations change the
  stored account before they build the audit event, the way the code does, so an error raised in
  between leaves the change in place.
\<close>

subsection \<open>Data\<close>

datatype account_state = ActiveAccount | DeletionRequested | SoftDeleted | PurgePending | Purged

datatype account_resource = AliasesR | DelegationsR | FactorsR | BackupsR | MailboxR | DavCollectionsR | PreferencesR

definition DEFAULT_ACCOUNT_RECOVERY_DAYS :: int where
  "DEFAULT_ACCOUNT_RECOVERY_DAYS = 28"

definition ACCOUNT_RESOURCE_TYPES :: "account_resource list" where
  "ACCOUNT_RESOURCE_TYPES = [AliasesR, DelegationsR, FactorsR, BackupsR, MailboxR, DavCollectionsR, PreferencesR]"

fun resource_name :: "account_resource \<Rightarrow> string" where
  "resource_name AliasesR = ''aliases''"
| "resource_name DelegationsR = ''delegations''"
| "resource_name FactorsR = ''factors''"
| "resource_name BackupsR = ''backups''"
| "resource_name MailboxR = ''mailbox''"
| "resource_name DavCollectionsR = ''dav_collections''"
| "resource_name PreferencesR = ''preferences''"

definition resource_of :: "jsval \<Rightarrow> account_resource option" where
  "resource_of v = find (\<lambda>x. v = JStr (resource_name x)) ACCOUNT_RESOURCE_TYPES"

definition DAY_MS :: int where
  "DAY_MS = 24 * 60 * 60 * 1000"

record account_hold =
  ah_holdId :: string
  ah_reasonCode :: string
  ah_addedAt :: int

record account =
  ac_tenantId :: string
  ac_userId :: string
  ac_accountType :: string
  ac_state :: account_state
  ac_createdAt :: int
  ac_deletionRequestedAt :: "int option"
  ac_softDeletedAt :: "int option"
  ac_recoveryUntil :: "int option"
  ac_purgeQueuedAt :: "int option"
  ac_purgedAt :: "int option"
  ac_cleanupPlan :: "account_resource list"
  ac_holds :: "(string \<times> account_hold) list"
  ac_deletionRequestId :: "string option"

record public_account =
  pa_tenantId :: string
  pa_userId :: string
  pa_accountType :: string
  pa_state :: account_state
  pa_createdAt :: int
  pa_deletionRequestedAt :: "int option"
  pa_softDeletedAt :: "int option"
  pa_recoveryUntil :: "int option"
  pa_purgeQueuedAt :: "int option"
  pa_purgedAt :: "int option"
  pa_cleanupPlan :: "account_resource list"
  pa_activeHoldIds :: "string list"
  pa_deletionRequestId :: "string option"

record account_event =
  av_event :: string
  av_occurredAt :: int
  av_tenantId :: string
  av_userId :: string
  av_actorId :: string
  av_actorRole :: string
  av_operationId :: "string option"
  av_metadata :: jsval

text \<open>The answer of an operation; a field the code leaves out is \<open>None\<close>, \<open>False\<close> for \<open>idempotent\<close>.\<close>

record account_operation =
  ao_operation :: string
  ao_account :: public_account
  ao_audit :: "account_event option"
  ao_requestId :: "string option"
  ao_operationId :: "string option"
  ao_holdId :: "string option"
  ao_idempotent :: bool

record lifecycle_store =
  lc_recoveryDays :: int
  lc_accounts :: "(string \<times> account) list"
  lc_results :: "(string \<times> account_operation) list"
  lc_events :: "account_event list"

record lc_env =
  ev_uuid :: string
  ev_clock1 :: jsval
  ev_clock2 :: jsval

subsection \<open>Checks\<close>

definition accountError :: "string \<Rightarrow> err" where
  "accountError code = Err AccountErr code 0"

definition assertObject :: "jsval \<Rightarrow> jsval res" where
  "assertObject v = (case v of JObj _ \<Rightarrow> Inr v | JDate _ \<Rightarrow> Inr v | _ \<Rightarrow> Inl (accountError ''INVALID_INPUT''))"

definition assertAccountId :: "jsval \<Rightarrow> string res" where
  "assertAccountId v = need_str actor_id_ok (accountError ''INVALID_IDENTITY'') v"

definition operation_id_ok :: "string \<Rightarrow> bool" where
  "operation_id_ok s \<longleftrightarrow> head_tail is_alnum (\<lambda>c. is_alnum c \<or> one_of ''._:-'' c) 127 s"

definition assertOperationId :: "jsval \<Rightarrow> string res" where
  "assertOperationId v = need_str operation_id_ok (accountError ''INVALID_OPERATION_ID'') v"

definition assertReason :: "jsval \<Rightarrow> string res" where
  "assertReason v = need_str (run_of (\<lambda>c. \<not> is_line_break c) 256) (accountError ''INVALID_REASON'') v"

definition parseDate :: "(string \<Rightarrow> int option) \<Rightarrow> jsval \<Rightarrow> int res" where
  "parseDate pd v = (case to_date pd v of None \<Rightarrow> Inl (accountError ''INVALID_TIMESTAMP'') | Some t \<Rightarrow> Inr t)"

text \<open>\<open>parseDate(value, field, currentDate())\<close>: the clock is read and checked even when it is not used.\<close>

definition date_or_now :: "(string \<Rightarrow> int option) \<Rightarrow> jsval \<Rightarrow> jsval \<Rightarrow> int res" where
  "date_or_now pd clk v = bindE (parseDate pd clk) (\<lambda>now. parseDate pd (js_default v (JDate (Some now))))"

text \<open>\<open>value ?? currentDate()\<close>, where the clock is read only when needed.\<close>

definition value_or_now :: "(string \<Rightarrow> int option) \<Rightarrow> jsval \<Rightarrow> jsval \<Rightarrow> jsval res" where
  "value_or_now pd clk v = (if nullish v then bindE (parseDate pd clk) (\<lambda>now. Inr (JDate (Some now))) else Inr v)"

definition assertRecoveryDays :: "jsval \<Rightarrow> int res" where
  "assertRecoveryDays v = need_int (\<lambda>n. 1 \<le> n \<and> n \<le> 3650) (accountError ''INVALID_RECOVERY_POLICY'') v"

definition normalizeAccountActor :: "jsval \<Rightarrow> string option \<Rightarrow> (string \<times> string) res" where
  "normalizeAccountActor actor fallback =
     (if actor = JUndef then Inr (case fallback of None \<Rightarrow> (''account-lifecycle'', ''system'') | Some u \<Rightarrow> (u, ''user''))
      else bindE (assertObject actor) (\<lambda>a.
        bindE (assertAccountId (jget a ''actorId'')) (\<lambda>i.
        bindE (assertAccountId (js_or_else (jget a ''role'') (JStr ''system''))) (\<lambda>r. Inr (i, r)))))"

definition accountKey :: "string \<Rightarrow> string \<Rightarrow> string" where
  "accountKey tenantId userId = nul_join [tenantId, userId]"

definition confirmationFor :: "string \<Rightarrow> string" where
  "confirmationFor userId = ''DELETE:'' @ userId"

definition publicAccount :: "account \<Rightarrow> public_account" where
  "publicAccount a = \<lparr>pa_tenantId = ac_tenantId a, pa_userId = ac_userId a, pa_accountType = ac_accountType a,
     pa_state = ac_state a, pa_createdAt = ac_createdAt a, pa_deletionRequestedAt = ac_deletionRequestedAt a,
     pa_softDeletedAt = ac_softDeletedAt a, pa_recoveryUntil = ac_recoveryUntil a, pa_purgeQueuedAt = ac_purgeQueuedAt a,
     pa_purgedAt = ac_purgedAt a, pa_cleanupPlan = ac_cleanupPlan a, pa_activeHoldIds = keys (ac_holds a),
     pa_deletionRequestId = ac_deletionRequestId a\<rparr>"

definition createAuditEvent :: "(string \<Rightarrow> int option) \<Rightarrow> string \<Rightarrow> account \<Rightarrow> string \<times> string \<Rightarrow> jsval \<Rightarrow> string option
    \<Rightarrow> jsval \<Rightarrow> account_event res" where
  "createAuditEvent pd event a actor occurredAt operationId metadata = bindE (parseDate pd occurredAt) (\<lambda>t.
     Inr \<lparr>av_event = event, av_occurredAt = t, av_tenantId = ac_tenantId a, av_userId = ac_userId a, av_actorId = fst actor,
       av_actorRole = snd actor, av_operationId = operationId, av_metadata = metadata\<rparr>)"

definition plan_js :: "account_resource list \<Rightarrow> jsval" where
  "plan_js plan = JArr (map (\<lambda>x. JStr (resource_name x)) plan)"

definition normalizeCleanupPlan :: "jsval \<Rightarrow> account_resource list res" where
  "normalizeCleanupPlan plan = (let selected = (case plan of
       JUndef \<Rightarrow> map (\<lambda>x. JStr (resource_name x)) ACCOUNT_RESOURCE_TYPES | JArr vs \<Rightarrow> vs | _ \<Rightarrow> []) in
     if selected = [] then Inl (accountError ''INVALID_CLEANUP_PLAN'')
     else mapE (\<lambda>v. case resource_of v of None \<Rightarrow> Inl (accountError ''INVALID_CLEANUP_PLAN'') | Some x \<Rightarrow> Inr x) (dedup selected))"

definition normalizeResourceResults :: "account_resource list \<Rightarrow> jsval \<Rightarrow> jsval res" where
  "normalizeResourceResults plan v = bindE (assertObject v) (\<lambda>i.
     bindE (mapE (\<lambda>x. bindE (needE (jget i (resource_name x) = JStr ''purged'') (accountError ''PURGE_INCOMPLETE''))
       (\<lambda>_. Inr (resource_name x, JStr ''purged''))) plan) (\<lambda>kvs. Inr (JObj kvs)))"

definition requireState :: "account \<Rightarrow> account_state \<Rightarrow> unit res" where
  "requireState a expected = needE (ac_state a = expected) (accountError ''INVALID_STATE_TRANSITION'')"

definition assertAccountScope :: "jsval \<Rightarrow> (string \<times> string) res" where
  "assertAccountScope input = bindE (assertObject input) (\<lambda>i.
     bindE (assertAccountId (jget i ''tenantId'')) (\<lambda>t.
     bindE (assertAccountId (jget i ''userId'')) (\<lambda>u. Inr (t, u))))"

subsection \<open>The store\<close>

definition createAccountLifecycleStore :: "jsval \<Rightarrow> lifecycle_store res" where
  "createAccountLifecycleStore recoveryDays =
     bindE (assertRecoveryDays (js_default recoveryDays (JInt DEFAULT_ACCOUNT_RECOVERY_DAYS))) (\<lambda>d.
     Inr \<lparr>lc_recoveryDays = d, lc_accounts = [], lc_results = [], lc_events = []\<rparr>)"

definition requireAccount :: "lifecycle_store \<Rightarrow> string \<Rightarrow> string \<Rightarrow> account res" where
  "requireAccount s t u = (case map_of (lc_accounts s) (accountKey t u) of
     None \<Rightarrow> Inl (accountError ''ACCOUNT_NOT_FOUND'') | Some a \<Rightarrow> Inr a)"

definition put_account :: "string \<Rightarrow> account \<Rightarrow> lifecycle_store \<Rightarrow> lifecycle_store" where
  "put_account k a s = s\<lparr>lc_accounts := AList.update k a (lc_accounts s)\<rparr>"

definition appendAudit :: "account_event \<Rightarrow> lifecycle_store \<Rightarrow> lifecycle_store" where
  "appendAudit e s = s\<lparr>lc_events := lc_events s @ [e]\<rparr>"

definition account_result :: "string \<Rightarrow> account \<Rightarrow> account_event option \<Rightarrow> account_operation" where
  "account_result operation a audit = \<lparr>ao_operation = operation, ao_account = publicAccount a, ao_audit = audit,
     ao_requestId = None, ao_operationId = None, ao_holdId = None, ao_idempotent = False\<rparr>"

text \<open>The answers kept by operation: \<open>if (prior) return prior\<close>, and \<open>operationResults.set(key, output)\<close>.\<close>

definition operation_key :: "string \<Rightarrow> string \<Rightarrow> string \<Rightarrow> string \<Rightarrow> string" where
  "operation_key kind t u i = nul_join [kind, t, u, i]"

definition replay :: "string \<Rightarrow> lifecycle_store \<Rightarrow> (account_operation res \<times> lifecycle_store) \<Rightarrow> account_operation res \<times> lifecycle_store" where
  "replay k s body = (case map_of (lc_results s) k of Some r \<Rightarrow> (Inr r, s) | None \<Rightarrow> body)"

definition keep_result :: "string \<Rightarrow> account_operation \<Rightarrow> lifecycle_store \<Rightarrow> account_operation res \<times> lifecycle_store" where
  "keep_result k r s = (Inr r, s\<lparr>lc_results := AList.update k r (lc_results s)\<rparr>)"

subsection \<open>Operations\<close>

definition registerAccount :: "(string \<Rightarrow> int option) \<Rightarrow> lc_env \<Rightarrow> jsval \<Rightarrow> lifecycle_store \<Rightarrow> account_operation res \<times> lifecycle_store" where
  "registerAccount pd ev input s =
     liftE (assertAccountScope (js_default input (JObj []))) s (\<lambda>(t, u).
     liftE (assertAccountId (js_or_else (jget input ''accountType'') (JStr ''user''))) s (\<lambda>ty.
     if map_of (lc_accounts s) (accountKey t u) \<noteq> None then (Inl (accountError ''ACCOUNT_EXISTS''), s)
     else liftE (date_or_now pd (ev_clock1 ev) (jget input ''createdAt'')) s (\<lambda>created.
     liftE (normalizeCleanupPlan (jget input ''cleanupPlan'')) s (\<lambda>plan.
     let a = \<lparr>ac_tenantId = t, ac_userId = u, ac_accountType = ty, ac_state = ActiveAccount, ac_createdAt = created,
           ac_deletionRequestedAt = None, ac_softDeletedAt = None, ac_recoveryUntil = None, ac_purgeQueuedAt = None,
           ac_purgedAt = None, ac_cleanupPlan = plan, ac_holds = [], ac_deletionRequestId = None\<rparr>;
         s1 = put_account (accountKey t u) a s
     in liftE (normalizeAccountActor (jget input ''actor'') (Some u)) s1 (\<lambda>actor.
        liftE (value_or_now pd (ev_clock2 ev) (jget input ''createdAt'')) s1 (\<lambda>at.
        liftE (createAuditEvent pd ''account.registered'' a actor at None
          (JObj [(''accountType'', JStr ty), (''cleanupPlan'', plan_js plan)])) s1 (\<lambda>e.
        (Inr (account_result ''account_registered'' a (Some e)), appendAudit e s1))))))))"

definition requestDeletion :: "(string \<Rightarrow> int option) \<Rightarrow> lc_env \<Rightarrow> jsval \<Rightarrow> lifecycle_store \<Rightarrow> account_operation res \<times> lifecycle_store" where
  "requestDeletion pd ev input s =
     liftE (assertAccountScope (js_default input (JObj []))) s (\<lambda>(t, u).
     liftE (assertOperationId (js_or_else (jget input ''requestId'') (JStr (ev_uuid ev)))) s (\<lambda>request.
     replay (operation_key ''request'' t u request) s (
     if jget input ''confirmation'' \<noteq> JStr (confirmationFor u) then (Inl (accountError ''STRONG_CONFIRMATION_REQUIRED''), s)
     else liftE (normalizeAccountActor (jget input ''actor'') (Some u)) s (\<lambda>actor.
     liftE (assertReason (js_or_else (jget input ''reason'') (JStr ''user_requested''))) s (\<lambda>reason.
     liftE (assertRecoveryDays (js_or_else (jget input ''recoveryDays'') (JInt (lc_recoveryDays s)))) s (\<lambda>days.
     liftE (date_or_now pd (ev_clock1 ev) (jget input ''requestedAt'')) s (\<lambda>date.
     liftE (requireAccount s t u) s (\<lambda>a.
     liftE (requireState a ActiveAccount) s (\<lambda>_.
     if ac_holds a \<noteq> [] then (Inl (accountError ''ACCOUNT_ON_HOLD''), s)
     else let a1 = a\<lparr>ac_state := DeletionRequested, ac_deletionRequestedAt := Some date\<rparr>; until = date + days * DAY_MS in
       if \<not> date_ok until then (Inl rangeError, put_account (accountKey t u) a1 s)
       else let a2 = a1\<lparr>ac_recoveryUntil := Some until\<rparr> in
         liftE (normalizeCleanupPlan (js_or_else (jget input ''cleanupPlan'') (plan_js (ac_cleanupPlan a2)))) (put_account (accountKey t u) a2 s) (\<lambda>plan.
         let a3 = a2\<lparr>ac_cleanupPlan := plan, ac_deletionRequestId := Some request\<rparr>; s3 = put_account (accountKey t u) a3 s in
         liftE (createAuditEvent pd ''account.deletion_requested'' a3 actor (JDate (Some date)) (Some request)
           (JObj [(''reason'', JStr reason), (''recoveryUntil'', JInt until), (''recoveryDays'', JInt days),
             (''cleanupPlan'', plan_js plan)])) s3 (\<lambda>e.
         keep_result (operation_key ''request'' t u request)
           ((account_result ''deletion_requested'' a3 (Some e))\<lparr>ao_requestId := Some request\<rparr>) (appendAudit e s3))))))))))))"

definition softDeleteAccount :: "(string \<Rightarrow> int option) \<Rightarrow> lc_env \<Rightarrow> jsval \<Rightarrow> lifecycle_store \<Rightarrow> account_operation res \<times> lifecycle_store" where
  "softDeleteAccount pd ev input s =
     liftE (assertAccountScope (js_default input (JObj []))) s (\<lambda>(t, u).
     liftE (requireAccount s t u) s (\<lambda>a.
     liftE (requireState a DeletionRequested) s (\<lambda>_.
     if jget input ''confirmation'' \<noteq> JStr (confirmationFor u) then (Inl (accountError ''STRONG_CONFIRMATION_REQUIRED''), s)
     else if jget input ''requestId'' \<noteq> JUndef \<and> jget input ''requestId'' \<noteq> opt_js (ac_deletionRequestId a)
     then (Inl (accountError ''DELETION_REQUEST_MISMATCH''), s)
     else liftE (date_or_now pd (ev_clock1 ev) (jget input ''deletedAt'')) s (\<lambda>date.
     let a1 = a\<lparr>ac_state := SoftDeleted, ac_softDeletedAt := Some date\<rparr>; s1 = put_account (accountKey t u) a1 s in
     liftE (normalizeAccountActor (jget input ''actor'') (Some u)) s1 (\<lambda>actor.
     liftE (createAuditEvent pd ''account.soft_deleted'' a1 actor (JDate (Some date)) (ac_deletionRequestId a1)
       (JObj [(''recoveryUntil'', (case ac_recoveryUntil a1 of None \<Rightarrow> JNull | Some r \<Rightarrow> JInt r)),
         (''cleanupPlan'', plan_js (ac_cleanupPlan a1))])) s1 (\<lambda>e.
     (Inr (account_result ''soft_deleted'' a1 (Some e)), appendAudit e s1)))))))"

definition restoreAccount :: "(string \<Rightarrow> int option) \<Rightarrow> lc_env \<Rightarrow> jsval \<Rightarrow> lifecycle_store \<Rightarrow> account_operation res \<times> lifecycle_store" where
  "restoreAccount pd ev input s =
     liftE (assertAccountScope (js_default input (JObj []))) s (\<lambda>(t, u).
     liftE (assertOperationId (js_or_else (jget input ''operationId'') (JStr (ev_uuid ev)))) s (\<lambda>i.
     replay (operation_key ''restore'' t u i) s (
     liftE (requireAccount s t u) s (\<lambda>a.
     if ac_state a \<notin> {DeletionRequested, SoftDeleted, PurgePending} then (Inl (accountError ''ACCOUNT_NOT_RECOVERABLE''), s)
     else liftE (date_or_now pd (ev_clock1 ev) (jget input ''restoredAt'')) s (\<lambda>date.
     if (case ac_recoveryUntil a of None \<Rightarrow> False | Some r \<Rightarrow> r < date) then (Inl (accountError ''RECOVERY_WINDOW_EXPIRED''), s)
     else let a1 = a\<lparr>ac_state := ActiveAccount, ac_recoveryUntil := None, ac_purgeQueuedAt := None,
             ac_deletionRequestedAt := None, ac_softDeletedAt := None, ac_deletionRequestId := None\<rparr>;
           s1 = put_account (accountKey t u) a1 s in
       liftE (normalizeAccountActor (jget input ''actor'') (Some u)) s1 (\<lambda>actor.
       liftE (assertReason (js_or_else (jget input ''reason'') (JStr ''account_recovery''))) s1 (\<lambda>reason.
       liftE (createAuditEvent pd ''account.restored'' a1 actor (JDate (Some date)) (Some i)
         (JObj [(''reason'', JStr reason)])) s1 (\<lambda>e.
       keep_result (operation_key ''restore'' t u i)
         ((account_result ''account_restored'' a1 (Some e))\<lparr>ao_operationId := Some i\<rparr>) (appendAudit e s1)))))))))"

definition addAccountHold :: "(string \<Rightarrow> int option) \<Rightarrow> lc_env \<Rightarrow> jsval \<Rightarrow> lifecycle_store \<Rightarrow> account_operation res \<times> lifecycle_store" where
  "addAccountHold pd ev input s =
     liftE (assertAccountScope (js_default input (JObj []))) s (\<lambda>(t, u).
     liftE (assertOperationId (jget input ''holdId'')) s (\<lambda>h.
     liftE (assertReason (js_or_else (jget input ''reasonCode'') (JStr ''administrative_hold''))) s (\<lambda>reason.
     liftE (requireAccount s t u) s (\<lambda>a.
     if map_of (ac_holds a) h \<noteq> None
     then (Inr ((account_result ''account_hold_added'' a None)\<lparr>ao_holdId := Some h, ao_idempotent := True\<rparr>), s)
     else liftE (date_or_now pd (ev_clock1 ev) (jget input ''addedAt'')) s (\<lambda>added.
     let a1 = a\<lparr>ac_holds := AList.update h \<lparr>ah_holdId = h, ah_reasonCode = reason, ah_addedAt = added\<rparr> (ac_holds a)\<rparr>;
         s1 = put_account (accountKey t u) a1 s in
     liftE (normalizeAccountActor (jget input ''actor'') None) s1 (\<lambda>actor.
     liftE (value_or_now pd (ev_clock2 ev) (jget input ''addedAt'')) s1 (\<lambda>at.
     liftE (createAuditEvent pd ''account.hold_added'' a1 actor at None
       (JObj [(''holdId'', JStr h), (''reasonCode'', JStr reason)])) s1 (\<lambda>e.
     (Inr ((account_result ''account_hold_added'' a1 (Some e))\<lparr>ao_holdId := Some h\<rparr>), appendAudit e s1)))))))))"

definition releaseAccountHold :: "(string \<Rightarrow> int option) \<Rightarrow> lc_env \<Rightarrow> jsval \<Rightarrow> lifecycle_store \<Rightarrow> account_operation res \<times> lifecycle_store" where
  "releaseAccountHold pd ev input s =
     liftE (assertAccountScope (js_default input (JObj []))) s (\<lambda>(t, u).
     liftE (assertOperationId (jget input ''holdId'')) s (\<lambda>h.
     liftE (requireAccount s t u) s (\<lambda>a.
     if map_of (ac_holds a) h = None
     then (Inr ((account_result ''account_hold_released'' a None)\<lparr>ao_holdId := Some h, ao_idempotent := True\<rparr>), s)
     else let a1 = a\<lparr>ac_holds := AList.delete h (ac_holds a)\<rparr>; s1 = put_account (accountKey t u) a1 s in
       liftE (normalizeAccountActor (jget input ''actor'') None) s1 (\<lambda>actor.
       liftE (value_or_now pd (ev_clock1 ev) (jget input ''releasedAt'')) s1 (\<lambda>at.
       liftE (createAuditEvent pd ''account.hold_released'' a1 actor at None (JObj [(''holdId'', JStr h)])) s1 (\<lambda>e.
       (Inr ((account_result ''account_hold_released'' a1 (Some e))\<lparr>ao_holdId := Some h\<rparr>), appendAudit e s1)))))))"

definition queuePurge :: "(string \<Rightarrow> int option) \<Rightarrow> lc_env \<Rightarrow> jsval \<Rightarrow> lifecycle_store \<Rightarrow> account_operation res \<times> lifecycle_store" where
  "queuePurge pd ev input s =
     liftE (assertAccountScope (js_default input (JObj []))) s (\<lambda>(t, u).
     liftE (assertOperationId (js_or_else (jget input ''operationId'') (JStr (ev_uuid ev)))) s (\<lambda>i.
     replay (operation_key ''queue'' t u i) s (
     liftE (requireAccount s t u) s (\<lambda>a.
     liftE (requireState a SoftDeleted) s (\<lambda>_.
     liftE (date_or_now pd (ev_clock1 ev) (jget input ''queuedAt'')) s (\<lambda>date.
     if (case ac_recoveryUntil a of None \<Rightarrow> True | Some r \<Rightarrow> date < r) then (Inl (accountError ''RECOVERY_WINDOW_ACTIVE''), s)
     else if ac_holds a \<noteq> [] then (Inl (accountError ''ACCOUNT_ON_HOLD''), s)
     else let a1 = a\<lparr>ac_state := PurgePending, ac_purgeQueuedAt := Some date\<rparr>; s1 = put_account (accountKey t u) a1 s in
       liftE (normalizeAccountActor (jget input ''actor'') None) s1 (\<lambda>actor.
       liftE (createAuditEvent pd ''account.purge_queued'' a1 actor (JDate (Some date)) (Some i)
         (JObj [(''cleanupPlan'', plan_js (ac_cleanupPlan a1))])) s1 (\<lambda>e.
       keep_result (operation_key ''queue'' t u i)
         ((account_result ''purge_queued'' a1 (Some e))\<lparr>ao_operationId := Some i\<rparr>) (appendAudit e s1)))))))))"

definition completePurge :: "(string \<Rightarrow> int option) \<Rightarrow> lc_env \<Rightarrow> jsval \<Rightarrow> lifecycle_store \<Rightarrow> account_operation res \<times> lifecycle_store" where
  "completePurge pd ev input s =
     liftE (assertAccountScope (js_default input (JObj []))) s (\<lambda>(t, u).
     liftE (assertOperationId (js_or_else (jget input ''operationId'') (JStr (ev_uuid ev)))) s (\<lambda>i.
     replay (operation_key ''complete'' t u i) s (
     liftE (requireAccount s t u) s (\<lambda>a.
     liftE (requireState a PurgePending) s (\<lambda>_.
     if jget input ''confirmation'' \<noteq> JStr (''PURGE:'' @ u) then (Inl (accountError ''STRONG_CONFIRMATION_REQUIRED''), s)
     else if ac_holds a \<noteq> [] then (Inl (accountError ''ACCOUNT_ON_HOLD''), s)
     else liftE (normalizeResourceResults (ac_cleanupPlan a) (js_or_else (jget input ''resourceResults'') (JObj []))) s (\<lambda>results.
     liftE (date_or_now pd (ev_clock1 ev) (jget input ''completedAt'')) s (\<lambda>date.
     let a1 = a\<lparr>ac_state := Purged, ac_purgedAt := Some date\<rparr>; s1 = put_account (accountKey t u) a1 s in
     liftE (normalizeAccountActor (jget input ''actor'') None) s1 (\<lambda>actor.
     liftE (createAuditEvent pd ''account.purged'' a1 actor (JDate (Some date)) (Some i)
       (JObj [(''cleanupPlan'', plan_js (ac_cleanupPlan a1)), (''resourceResults'', results)])) s1 (\<lambda>e.
     keep_result (operation_key ''complete'' t u i)
       ((account_result ''account_purged'' a1 (Some e))\<lparr>ao_operationId := Some i\<rparr>) (appendAudit e s1))))))))))"

definition getAccount :: "jsval \<Rightarrow> lifecycle_store \<Rightarrow> public_account res" where
  "getAccount scope s = bindE (assertAccountScope scope) (\<lambda>(t, u).
     bindE (requireAccount s t u) (\<lambda>a. Inr (publicAccount a)))"

definition event_filter_ok :: "string \<Rightarrow> bool" where \<comment> \<open>\<open>^account\.[a-z_]+$\<close>\<close>
  "event_filter_ok x \<longleftrightarrow> starts_with ''account.'' x \<and> drop 8 x \<noteq> [] \<and> list_all (\<lambda>c. is_lower c \<or> c = CHR ''_'') (drop 8 x)"

definition undef_or :: "(jsval \<Rightarrow> 'a res) \<Rightarrow> jsval \<Rightarrow> 'a option res" where
  "undef_or f v = (if v = JUndef then Inr None else bindE (f v) (\<lambda>x. Inr (Some x)))"

definition getAuditEvents :: "jsval \<Rightarrow> lifecycle_store \<Rightarrow> account_event list res" where
  "getAuditEvents input s =
     bindE (undef_or assertAccountId (jget input ''tenantId'')) (\<lambda>t.
     bindE (undef_or assertAccountId (jget input ''userId'')) (\<lambda>u.
     if u \<noteq> None \<and> t = None then Inl (accountError ''INVALID_SCOPE'')
     else bindE (undef_or (need_str event_filter_ok (accountError ''INVALID_AUDIT_FILTER'')) (jget input ''event'')) (\<lambda>x.
     Inr (filter (\<lambda>e. (t = None \<or> t = Some (av_tenantId e)) \<and> (u = None \<or> u = Some (av_userId e))
       \<and> (x = None \<or> x = Some (av_event e))) (lc_events s)))))"

definition exportState :: "lifecycle_store \<Rightarrow> int \<times> public_account list" where
  "exportState s = (lc_recoveryDays s, map (\<lambda>p. publicAccount (snd p)) (lc_accounts s))"

subsection \<open>Calls\<close>

text \<open>The operations that change the store, as one function, so that a history is a sequence of calls.\<close>

datatype lc_op = RegisterAccount | RequestDeletion | SoftDeleteAccount | RestoreAccount | AddAccountHold
  | ReleaseAccountHold | QueuePurge | CompletePurge

fun lc_call :: "(string \<Rightarrow> int option) \<Rightarrow> lc_op \<Rightarrow> lc_env \<Rightarrow> jsval \<Rightarrow> lifecycle_store \<Rightarrow> account_operation res \<times> lifecycle_store" where
  "lc_call pd RegisterAccount ev i s = registerAccount pd ev i s"
| "lc_call pd RequestDeletion ev i s = requestDeletion pd ev i s"
| "lc_call pd SoftDeleteAccount ev i s = softDeleteAccount pd ev i s"
| "lc_call pd RestoreAccount ev i s = restoreAccount pd ev i s"
| "lc_call pd AddAccountHold ev i s = addAccountHold pd ev i s"
| "lc_call pd ReleaseAccountHold ev i s = releaseAccountHold pd ev i s"
| "lc_call pd QueuePurge ev i s = queuePurge pd ev i s"
| "lc_call pd CompletePurge ev i s = completePurge pd ev i s"

type_synonym lc_history = "(lc_op \<times> lc_env \<times> jsval) list"

fun lc_run :: "(string \<Rightarrow> int option) \<Rightarrow> lc_history \<Rightarrow> lifecycle_store \<Rightarrow> lifecycle_store" where
  "lc_run pd [] s = s"
| "lc_run pd ((x, ev, i) # h) s = lc_run pd h (snd (lc_call pd x ev i s))"

lemmas lifecycle_checks [code_defs] = accountError_def assertObject_def assertAccountId_def operation_id_ok_def
  assertOperationId_def assertReason_def parseDate_def date_or_now_def value_or_now_def assertRecoveryDays_def
  normalizeAccountActor_def accountKey_def confirmationFor_def publicAccount_def createAuditEvent_def plan_js_def
  normalizeCleanupPlan_def normalizeResourceResults_def requireState_def assertAccountScope_def

lemmas lifecycle_ops [code_defs] = registerAccount_def requestDeletion_def softDeleteAccount_def restoreAccount_def
  addAccountHold_def releaseAccountHold_def queuePurge_def completePurge_def

subsection \<open>The automaton of an account\<close>

text \<open>
  What a call may do to an account, with what the call must carry: the abstract machine the store
  implements.  Besides the eight intended changes there is the request for deletion that fails after
  the state has changed, because the recovery date cannot be printed or the cleanup plan is invalid.
\<close>

inductive account_change :: "lc_op \<Rightarrow> jsval \<Rightarrow> account option \<Rightarrow> account \<Rightarrow> bool" where
  ch_register: "account_change RegisterAccount i None \<lparr>ac_tenantId = t, ac_userId = u, ac_accountType = ty,
    ac_state = ActiveAccount, ac_createdAt = c, ac_deletionRequestedAt = None, ac_softDeletedAt = None,
    ac_recoveryUntil = None, ac_purgeQueuedAt = None, ac_purgedAt = None, ac_cleanupPlan = plan, ac_holds = [],
    ac_deletionRequestId = None\<rparr>" if "plan \<noteq> []" "distinct plan"
| ch_request: "account_change RequestDeletion i (Some a) (a\<lparr>ac_state := DeletionRequested,
    ac_deletionRequestedAt := Some d, ac_recoveryUntil := Some r, ac_cleanupPlan := plan, ac_deletionRequestId := q\<rparr>)"
    if "ac_state a = ActiveAccount" "ac_holds a = []" "jget i ''confirmation'' = JStr (confirmationFor (ac_userId a))"
      "d + DAY_MS \<le> r" "plan \<noteq> []" "distinct plan"
| ch_request_range: "account_change RequestDeletion i (Some a) (a\<lparr>ac_state := DeletionRequested, ac_deletionRequestedAt := Some d\<rparr>)"
    if "ac_state a = ActiveAccount" "ac_holds a = []" "jget i ''confirmation'' = JStr (confirmationFor (ac_userId a))"
| ch_request_plan: "account_change RequestDeletion i (Some a) (a\<lparr>ac_state := DeletionRequested,
    ac_deletionRequestedAt := Some d, ac_recoveryUntil := Some r\<rparr>)"
    if "ac_state a = ActiveAccount" "ac_holds a = []" "jget i ''confirmation'' = JStr (confirmationFor (ac_userId a))"
      "d + DAY_MS \<le> r"
| ch_soft_delete: "account_change SoftDeleteAccount i (Some a) (a\<lparr>ac_state := SoftDeleted, ac_softDeletedAt := Some d\<rparr>)"
    if "ac_state a = DeletionRequested" "jget i ''confirmation'' = JStr (confirmationFor (ac_userId a))"
| ch_restore: "account_change RestoreAccount i (Some a) (a\<lparr>ac_state := ActiveAccount, ac_recoveryUntil := None,
    ac_purgeQueuedAt := None, ac_deletionRequestedAt := None, ac_softDeletedAt := None, ac_deletionRequestId := None\<rparr>)"
    if "ac_state a \<in> {DeletionRequested, SoftDeleted, PurgePending}"
| ch_hold: "account_change AddAccountHold i (Some a) (a\<lparr>ac_holds := AList.update h x (ac_holds a)\<rparr>)"
| ch_release: "account_change ReleaseAccountHold i (Some a) (a\<lparr>ac_holds := AList.delete h (ac_holds a)\<rparr>)"
    if "jget i ''holdId'' = JStr h"
| ch_queue: "account_change QueuePurge i (Some a) (a\<lparr>ac_state := PurgePending, ac_purgeQueuedAt := Some d\<rparr>)"
    if "ac_state a = SoftDeleted" "\<exists>r\<le>d. ac_recoveryUntil a = Some r" "ac_holds a = []"
| ch_complete: "account_change CompletePurge i (Some a) (a\<lparr>ac_state := Purged, ac_purgedAt := Some d\<rparr>)"
    if "ac_state a = PurgePending" "jget i ''confirmation'' = JStr (''PURGE:'' @ ac_userId a)" "ac_holds a = []"
      "\<forall>x\<in>set (ac_cleanupPlan a). jget (jget i ''resourceResults'') (resource_name x) = JStr ''purged''"

inductive_cases account_changeE: "account_change x i b a"

text \<open>Each account is filed under its own key.\<close>

definition filed :: "lifecycle_store \<Rightarrow> bool" where
  "filed s \<longleftrightarrow> (\<forall>k a. map_of (lc_accounts s) k = Some a \<longrightarrow> k = accountKey (ac_tenantId a) (ac_userId a)
     \<and> actor_id_ok (ac_tenantId a) \<and> actor_id_ok (ac_userId a))"

definition call_effect :: "lc_op \<Rightarrow> jsval \<Rightarrow> lifecycle_store \<Rightarrow> lifecycle_store \<Rightarrow> bool" where
  "call_effect x i s s' \<longleftrightarrow> lc_accounts s' = lc_accounts s \<or>
     (\<exists>t u a. actor_id_ok t \<and> actor_id_ok u \<and> jget i ''tenantId'' = JStr t \<and> jget i ''userId'' = JStr u
        \<and> ac_tenantId a = t \<and> ac_userId a = u
        \<and> lc_accounts s' = AList.update (accountKey t u) a (lc_accounts s)
        \<and> account_change x i (map_of (lc_accounts s) (accountKey t u)) a)"

lemma snd_replay: "P s \<Longrightarrow> (map_of (lc_results s) k = None \<Longrightarrow> P (snd b)) \<Longrightarrow> P (snd (replay k s b))"
  by (auto simp: replay_def split: option.splits)

lemma scope_Inr [simp]: "assertAccountScope v = Inr p \<longleftrightarrow> actor_id_ok (fst p) \<and> actor_id_ok (snd p)
    \<and> jget v ''tenantId'' = JStr (fst p) \<and> jget v ''userId'' = JStr (snd p)"
  by (cases p; cases v) (auto simp: assertAccountScope_def assertObject_def assertAccountId_def)

lemma jget_default [simp]: "jget (js_default i (JObj [])) k = jget i k"
  by (simp add: js_default_def)

lemma lc_simps [simp]:
  "lc_accounts (put_account k a s) = AList.update k a (lc_accounts s)"
  "lc_results (put_account k a s) = lc_results s"
  "lc_events (put_account k a s) = lc_events s"
  "lc_recoveryDays (put_account k a s) = lc_recoveryDays s"
  "lc_accounts (appendAudit e s) = lc_accounts s"
  "lc_results (appendAudit e s) = lc_results s"
  "lc_events (appendAudit e s) = lc_events s @ [e]"
  "lc_recoveryDays (appendAudit e s) = lc_recoveryDays s"
  "lc_accounts (snd (keep_result k r s)) = lc_accounts s"
  "lc_events (snd (keep_result k r s)) = lc_events s"
  "lc_recoveryDays (snd (keep_result k r s)) = lc_recoveryDays s"
  "lc_results (snd (keep_result k r s)) = AList.update k r (lc_results s)"
  by (simp_all add: put_account_def appendAudit_def keep_result_def)

lemma requireAccount_Inr [simp]: "requireAccount s t u = Inr a \<longleftrightarrow> map_of (lc_accounts s) (accountKey t u) = Some a"
  by (simp add: requireAccount_def split: option.splits)

lemma requireState_Inr [simp]: "requireState a x = Inr z \<longleftrightarrow> ac_state a = x"
  by (simp add: requireState_def)

lemma recovery_days_Inr: "assertRecoveryDays v = Inr d \<Longrightarrow> 1 \<le> d \<and> d \<le> 3650"
  by (auto simp: assertRecoveryDays_def)


lemma resource_of_Some [simp]: "resource_of v = Some x \<longleftrightarrow> v = JStr (resource_name x)"
proof
  assume "resource_of v = Some x"
  then show "v = JStr (resource_name x)" unfolding resource_of_def by (auto dest: find_in)
next
  assume "v = JStr (resource_name x)"
  then show "resource_of v = Some x"
    by (cases x) (simp_all add: resource_of_def ACCOUNT_RESOURCE_TYPES_def)
qed

lemma plan_elems: "mapE (\<lambda>v. case resource_of v of None \<Rightarrow> Inl e | Some x \<Rightarrow> Inr x) vs = Inr plan \<Longrightarrow>
    vs = map (\<lambda>x. JStr (resource_name x)) plan"
  by (induction vs arbitrary: plan) (auto split: option.splits)

lemma cleanup_plan_Inr:
  assumes "normalizeCleanupPlan v = Inr plan"
  shows "plan \<noteq> [] \<and> distinct plan"
proof -
  from assms obtain vs where "vs \<noteq> []" and "dedup vs = map (\<lambda>x. JStr (resource_name x)) plan"
    by (auto simp: normalizeCleanupPlan_def Let_def split: if_splits dest: plan_elems)
  then show ?thesis using distinct_dedup [of vs] dedup_nil [of vs] by (auto simp: distinct_map)
qed

lemma resource_results_Inr:
  assumes "normalizeResourceResults plan v = Inr x" and "y \<in> set plan"
  shows "jget v (resource_name y) = JStr ''purged''"
proof -
  have *: "mapE (\<lambda>x. bindE (needE (q x) e) (\<lambda>_. Inr (g x))) ys = Inr zs \<Longrightarrow> y \<in> set ys \<Longrightarrow> q y" for q e g ys zs
    by (induction ys arbitrary: zs) auto
  from assms(1) obtain kvs where "assertObject v = Inr v" and "mapE (\<lambda>x. bindE (needE (jget v (resource_name x) = JStr ''purged'')
      (accountError ''PURGE_INCOMPLETE'')) (\<lambda>_. Inr (resource_name x, JStr ''purged''))) plan = Inr kvs"
    by (cases v) (auto simp: normalizeResourceResults_def assertObject_def)
  from * [OF this(2) assms(2)] show ?thesis .
qed

lemma filedD: "filed s \<Longrightarrow> map_of (lc_accounts s) k = Some a \<Longrightarrow>
    k = accountKey (ac_tenantId a) (ac_userId a) \<and> actor_id_ok (ac_tenantId a) \<and> actor_id_ok (ac_userId a)"
  by (simp add: filed_def)

lemma account_key_inject: "actor_id_ok t \<Longrightarrow> actor_id_ok u \<Longrightarrow> actor_id_ok t' \<Longrightarrow> actor_id_ok u' \<Longrightarrow>
    accountKey t u = accountKey t' u' \<longleftrightarrow> t = t' \<and> u = u'"
  using nul_join_inject [of "[t, u]" "[t', u']"] by (auto simp: accountKey_def actor_id_nul_free)

lemma filed_ids: "filed s \<Longrightarrow> actor_id_ok t \<Longrightarrow> actor_id_ok u \<Longrightarrow> map_of (lc_accounts s) (accountKey t u) = Some a \<Longrightarrow>
    ac_tenantId a = t \<and> ac_userId a = u"
  using filedD account_key_inject by metis

lemma effect_refl [simp]: "call_effect x i s s"
  by (simp add: call_effect_def)

lemma effect_simps:
  "call_effect x i s (appendAudit e s') = call_effect x i s s'"
  "call_effect x i s (snd (keep_result k r s')) = call_effect x i s s'"
  by (simp_all add: call_effect_def)

lemma effect_change:
  assumes "filed s" and "assertAccountScope (js_default i (JObj [])) = Inr (t, u)" and "requireAccount s t u = Inr a"
    and "ac_tenantId a = t \<Longrightarrow> ac_userId a = u \<Longrightarrow> account_change x i (Some a) b"
    and "ac_tenantId b = ac_tenantId a" "ac_userId b = ac_userId a"
  shows "call_effect x i s (put_account (accountKey t u) b s)"
  using assms filed_ids [OF assms(1), of t u a] unfolding call_effect_def by auto

lemma effect_new:
  assumes "assertAccountScope (js_default i (JObj [])) = Inr (t, u)" and "map_of (lc_accounts s) (accountKey t u) = None"
    and "account_change x i None b" and "ac_tenantId b = t" "ac_userId b = u"
  shows "call_effect x i s (put_account (accountKey t u) b s)"
  using assms unfolding call_effect_def by auto

text \<open>Peel the checks off an operation: one goal for each state it may leave.\<close>

lemmas effect_peel = snd_liftE2 [where P = "call_effect x i s" for x i s] snd_liftE [where P = "call_effect x i s" for x i s]
  snd_replay [where P = "call_effect x i s" for x i s] snd_if [where P = "call_effect x i s" for x i s]

lemma days_after: "assertRecoveryDays v = Inr n \<Longrightarrow> DAY_MS \<le> n * DAY_MS"
  by (drule recovery_days_Inr) (simp add: DAY_MS_def)

lemma purge_results_default: "normalizeResourceResults plan (js_or_else v (JObj [])) = Inr x \<Longrightarrow>
    r \<in> set plan \<Longrightarrow> jget v (resource_name r) = JStr ''purged''"
  by (drule (1) resource_results_Inr) (auto simp: js_or_else_def nullish_def split: if_splits)

lemma effect_request: "filed s \<Longrightarrow> call_effect RequestDeletion i s (snd (requestDeletion pd ev i s))"
  unfolding requestDeletion_def Let_def
  by (intro effect_peel; (simp only: effect_simps snd_conv effect_refl)?; (erule (2) effect_change)?;
    (rule account_change.intros)?; auto intro: days_after dest: cleanup_plan_Inr)

lemma effect_soft_delete: "filed s \<Longrightarrow> call_effect SoftDeleteAccount i s (snd (softDeleteAccount pd ev i s))"
  unfolding softDeleteAccount_def Let_def
  by (intro effect_peel; (simp only: effect_simps snd_conv effect_refl)?; (erule (2) effect_change)?;
    (rule account_change.intros)?; simp)

lemma effect_restore: "filed s \<Longrightarrow> call_effect RestoreAccount i s (snd (restoreAccount pd ev i s))"
  unfolding restoreAccount_def Let_def
  by (intro effect_peel; (simp only: effect_simps snd_conv effect_refl)?; (erule (2) effect_change)?;
    (rule account_change.intros)?; simp)

lemma effect_hold: "filed s \<Longrightarrow> call_effect AddAccountHold i s (snd (addAccountHold pd ev i s))"
  unfolding addAccountHold_def Let_def
  by (intro effect_peel; (simp only: effect_simps snd_conv effect_refl)?; (erule (2) effect_change)?;
    (rule account_change.intros)?; simp)

lemma effect_release: "filed s \<Longrightarrow> call_effect ReleaseAccountHold i s (snd (releaseAccountHold pd ev i s))"
  unfolding releaseAccountHold_def Let_def
  by (intro effect_peel; (simp only: effect_simps snd_conv effect_refl)?; (erule (2) effect_change)?;
    (rule account_change.intros)?; simp add: assertOperationId_def)

lemma effect_queue: "filed s \<Longrightarrow> call_effect QueuePurge i s (snd (queuePurge pd ev i s))"
  unfolding queuePurge_def Let_def
  by (intro effect_peel; (simp only: effect_simps snd_conv effect_refl)?; (erule (2) effect_change)?;
    (rule account_change.intros)?; auto split: option.splits)

lemma effect_complete: "filed s \<Longrightarrow> call_effect CompletePurge i s (snd (completePurge pd ev i s))"
  unfolding completePurge_def Let_def
  by (intro effect_peel; (simp only: effect_simps snd_conv effect_refl)?; (erule (2) effect_change)?;
    (rule account_change.intros)?; auto intro: purge_results_default)

lemma effect_register: "call_effect RegisterAccount i s (snd (registerAccount pd ev i s))"
  unfolding registerAccount_def Let_def
  by (intro effect_peel; (simp only: effect_simps snd_conv effect_refl not_not)?; (erule (1) effect_new)?;
    (rule account_change.intros)?; auto dest: cleanup_plan_Inr)

lemma call_has_effect: "filed s \<Longrightarrow> call_effect x i s (snd (lc_call pd x ev i s))"
  by (cases x) (simp_all add: effect_register effect_request effect_soft_delete effect_restore effect_hold effect_release
    effect_queue effect_complete)

lemma change_keeps_ids: "account_change x i (Some a) b \<Longrightarrow> ac_tenantId b = ac_tenantId a \<and> ac_userId b = ac_userId a"
  by (auto elim: account_changeE)

lemma filed_call: "filed s \<Longrightarrow> filed (snd (lc_call pd x ev i s))"
  using call_has_effect [of s x i pd ev] by (auto simp: filed_def call_effect_def split: if_splits)

subsection \<open>What a stored account looks like\<close>

definition deletion_window :: "account \<Rightarrow> bool" where
  "deletion_window a \<longleftrightarrow> (\<forall>r. ac_recoveryUntil a = Some r \<longrightarrow> (\<exists>d. ac_deletionRequestedAt a = Some d \<and> d + DAY_MS \<le> r))"

definition purge_due :: "account \<Rightarrow> bool" where
  "purge_due a \<longleftrightarrow> ac_softDeletedAt a \<noteq> None
     \<and> (\<exists>q. ac_purgeQueuedAt a = Some q \<and> (\<exists>r\<le>q. ac_recoveryUntil a = Some r))"

fun account_ok :: "account \<Rightarrow> bool" where
  "account_ok a = (ac_cleanupPlan a \<noteq> [] \<and> distinct (ac_cleanupPlan a) \<and> distinct (map fst (ac_holds a)) \<and> deletion_window a
     \<and> (case ac_state a of
          ActiveAccount \<Rightarrow> ac_deletionRequestedAt a = None \<and> ac_softDeletedAt a = None \<and> ac_recoveryUntil a = None
            \<and> ac_purgeQueuedAt a = None \<and> ac_purgedAt a = None
        | DeletionRequested \<Rightarrow> ac_deletionRequestedAt a \<noteq> None \<and> ac_softDeletedAt a = None \<and> ac_purgeQueuedAt a = None
            \<and> ac_purgedAt a = None
        | SoftDeleted \<Rightarrow> ac_deletionRequestedAt a \<noteq> None \<and> ac_softDeletedAt a \<noteq> None \<and> ac_purgeQueuedAt a = None
            \<and> ac_purgedAt a = None
        | PurgePending \<Rightarrow> purge_due a \<and> ac_purgedAt a = None
        | Purged \<Rightarrow> purge_due a \<and> ac_purgedAt a \<noteq> None))"

declare account_ok.simps [simp del]

lemma change_ok: "account_change x i b a \<Longrightarrow> (\<And>c. b = Some c \<Longrightarrow> account_ok c) \<Longrightarrow> account_ok a"
  by (erule account_changeE) (auto simp: account_ok.simps deletion_window_def purge_due_def split: account_state.splits)

definition lifecycle_ok :: "lifecycle_store \<Rightarrow> bool" where
  "lifecycle_ok s \<longleftrightarrow> filed s \<and> distinct (map fst (lc_accounts s)) \<and> (\<forall>k a. map_of (lc_accounts s) k = Some a \<longrightarrow> account_ok a)"

lemma lifecycle_ok_call:
  assumes "lifecycle_ok s"
  shows "lifecycle_ok (snd (lc_call pd x ev i s))"
proof -
  from assms have "filed s" by (simp add: lifecycle_ok_def)
  then have "filed (snd (lc_call pd x ev i s))" and "call_effect x i s (snd (lc_call pd x ev i s))"
    by (rule filed_call, rule call_has_effect)
  with assms show ?thesis
    by (auto simp: lifecycle_ok_def call_effect_def split: if_splits) (blast intro: change_ok map_of_in_set)
qed

lemma lifecycle_ok_run: "lifecycle_ok s \<Longrightarrow> lifecycle_ok (lc_run pd h s)"
  by (induction pd h s rule: lc_run.induct) (simp_all add: lifecycle_ok_call)

lemma lifecycle_ok_init: "createAccountLifecycleStore v = Inr s \<Longrightarrow> lifecycle_ok s"
  by (auto simp: createAccountLifecycleStore_def lifecycle_ok_def filed_def)

text \<open>C30  In every reachable store each account is filed under its own tenant and user, has a duplicate-free cleanup plan, and its dates are exactly those its state calls for.\<close>

theorem account_records_ok:
  assumes "createAccountLifecycleStore days = Inr s0"
  shows "lifecycle_ok (lc_run pd h s0)"
  using lifecycle_ok_run [OF lifecycle_ok_init [OF assms]] .

subsection \<open>The store implements the automaton\<close>

text \<open>The states of the accounts of a store, and what a call may do to the state of one account.\<close>

definition account_states :: "lifecycle_store \<Rightarrow> string \<times> string \<Rightarrow> account_state option" where
  "account_states s p = map_option ac_state (map_of (lc_accounts s) (accountKey (fst p) (snd p)))"

fun next_states :: "lc_op \<Rightarrow> account_state option \<Rightarrow> account_state list" where
  "next_states RegisterAccount None = [ActiveAccount]"
| "next_states RequestDeletion (Some ActiveAccount) = [DeletionRequested]"
| "next_states SoftDeleteAccount (Some DeletionRequested) = [SoftDeleted]"
| "next_states QueuePurge (Some SoftDeleted) = [PurgePending]"
| "next_states CompletePurge (Some PurgePending) = [Purged]"
| "next_states RestoreAccount (Some DeletionRequested) = [ActiveAccount]"
| "next_states RestoreAccount (Some SoftDeleted) = [ActiveAccount]"
| "next_states RestoreAccount (Some PurgePending) = [ActiveAccount]"
| "next_states AddAccountHold (Some x) = [x]"
| "next_states ReleaseAccountHold (Some x) = [x]"
| "next_states _ _ = []"

lemma change_next: "account_change x i b a \<Longrightarrow> ac_state a \<in> set (next_states x (map_option ac_state b))"
  by (erule account_changeE) auto

text \<open>C29  Whatever a call is given and whether it fails or not, it changes the state of no account but the one it names, and that only along the deletion automaton.\<close>

theorem lifecycle_refines_automaton:
  assumes "lifecycle_ok s" and "lc_call pd x ev i s = (r, s')" and "actor_id_ok t" and "actor_id_ok u"
  shows "account_states s' (t, u) = account_states s (t, u)
    \<or> jget i ''tenantId'' = JStr t \<and> jget i ''userId'' = JStr u
      \<and> (\<exists>x'\<in>set (next_states x (account_states s (t, u))). account_states s' (t, u) = Some x')"
proof -
  from assms have "call_effect x i s s'" using call_has_effect [of s x i pd ev] by (simp add: lifecycle_ok_def)
  then show ?thesis using assms(3,4)
    by (auto simp: call_effect_def account_states_def account_key_inject dest: change_next split: if_splits)
qed
subsection \<open>Purging\<close>

lemma change_purges: "account_change x i b a \<Longrightarrow> ac_state a = Purged \<Longrightarrow> (\<And>c. b = Some c \<Longrightarrow> ac_state c \<noteq> Purged) \<Longrightarrow>
    x = CompletePurge \<and> jget i ''confirmation'' = JStr (''PURGE:'' @ ac_userId a)
    \<and> (\<exists>c. b = Some c \<and> ac_state c = PurgePending \<and> ac_holds c = [] \<and> (\<forall>y\<in>set (ac_cleanupPlan c).
        jget (jget i ''resourceResults'') (resource_name y) = JStr ''purged''))"
  by (erule account_changeE) auto

text \<open>C28  In every reachable store an account becomes purged only by a completePurge that carries the purge confirmation and a purged result for every resource of its plan, without holds, after a request whose recovery window of at least a day had ended when the purge was queued.\<close>

theorem purge_needs_confirmed_request:
  assumes init: "createAccountLifecycleStore days = Inr s0" and s: "s = lc_run pd h s0"
    and call: "lc_call pd x ev i s = (r, s')" and ids: "actor_id_ok t" "actor_id_ok u"
    and now: "account_states s' (t, u) = Some Purged" and before: "account_states s (t, u) \<noteq> Some Purged"
  shows "x = CompletePurge \<and> jget i ''confirmation'' = JStr (''PURGE:'' @ u)
    \<and> (\<exists>a d e q. map_of (lc_accounts s) (accountKey t u) = Some a \<and> ac_state a = PurgePending \<and> ac_holds a = []
        \<and> (\<forall>y\<in>set (ac_cleanupPlan a). jget (jget i ''resourceResults'') (resource_name y) = JStr ''purged'')
        \<and> ac_deletionRequestedAt a = Some d \<and> ac_recoveryUntil a = Some e \<and> ac_purgeQueuedAt a = Some q
        \<and> d + DAY_MS \<le> e \<and> e \<le> q)"
proof -
  have ok: "lifecycle_ok s" unfolding s by (rule lifecycle_ok_run [OF lifecycle_ok_init [OF init]])
  then have "call_effect x i s s'" using call call_has_effect [of s x i pd ev] by (simp add: lifecycle_ok_def)
  with now before ids obtain b where u: "ac_userId b = u" and b: "ac_state b = Purged"
    and ch: "account_change x i (map_of (lc_accounts s) (accountKey t u)) b"
    by (auto simp: call_effect_def account_states_def account_key_inject split: if_splits)
  have "\<And>c. map_of (lc_accounts s) (accountKey t u) = Some c \<Longrightarrow> ac_state c \<noteq> Purged"
    using before by (auto simp: account_states_def)
  from change_purges [OF ch b this] u obtain a where x: "x = CompletePurge" "jget i ''confirmation'' = JStr (''PURGE:'' @ u)"
    and a: "map_of (lc_accounts s) (accountKey t u) = Some a" "ac_state a = PurgePending" "ac_holds a = []"
      "\<forall>y\<in>set (ac_cleanupPlan a). jget (jget i ''resourceResults'') (resource_name y) = JStr ''purged''" by auto
  from ok a(1) have "account_ok a" by (simp add: lifecycle_ok_def)
  with a(2) show ?thesis using x a by (auto simp: account_ok.simps purge_due_def deletion_window_def)
qed

text \<open>A purged account stays as it is, its holds apart.\<close>

lemma same_but_holds: "\<exists>hs. a = a\<lparr>ac_holds := hs\<rparr>" for a :: account
  by (rule exI [of _ "ac_holds a"]) simp

lemma change_purged: "account_change x i (Some a) b \<Longrightarrow> ac_state a = Purged \<Longrightarrow> \<exists>hs. b = a\<lparr>ac_holds := hs\<rparr>"
  by (erule account_changeE) auto

lemma purged_call:
  assumes "filed s" and "map_of (lc_accounts s) k = Some a" and "ac_state a = Purged"
  shows "\<exists>hs. map_of (lc_accounts (snd (lc_call pd x ev i s))) k = Some (a\<lparr>ac_holds := hs\<rparr>)"
  using call_has_effect [OF assms(1), of x i pd ev] assms(2,3)
  by (auto simp: call_effect_def split: if_splits) (blast intro: change_purged same_but_holds)+

theorem purged_is_final:
  assumes "lifecycle_ok s" and "map_of (lc_accounts s) (accountKey t u) = Some a" and "ac_state a = Purged"
  shows "\<exists>hs. map_of (lc_accounts (lc_run pd h s)) (accountKey t u) = Some (a\<lparr>ac_holds := hs\<rparr>)"
  using assms
proof (induction pd h s arbitrary: a rule: lc_run.induct)
  case (1 pd s a)
  then show ?case using same_but_holds [of a] by simp
next
  case (2 pd x ev i h s a)
  from purged_call [of s "accountKey t u" a pd x ev i] 2(2-4) obtain hs
    where "map_of (lc_accounts (snd (lc_call pd x ev i s))) (accountKey t u) = Some (a\<lparr>ac_holds := hs\<rparr>)"
    by (auto simp: lifecycle_ok_def)
  from 2(1) [OF lifecycle_ok_call [OF 2(2)] this] 2(4) show ?case by simp
qed

subsection \<open>Recovery\<close>

text \<open> Until the recovery window ends a requested, soft-deleted or purge-pending account can be restored: the call succeeds, clears the deletion and touches no other account.\<close>

theorem account_can_be_restored:
  assumes acc: "map_of (lc_accounts s) (accountKey t u) = Some a" and ids: "actor_id_ok t" "actor_id_ok u"
    and st: "ac_state a \<in> {DeletionRequested, SoftDeleted, PurgePending}"
    and clk: "to_date pd (ev_clock1 ev) = Some now"
    and window: "\<forall>r. ac_recoveryUntil a = Some r \<longrightarrow> now \<le> r"
    and op: "operation_id_ok i" "map_of (lc_results s) (operation_key ''restore'' t u i) = None"
  shows "\<exists>out s'. restoreAccount pd ev (JObj [(''tenantId'', JStr t), (''userId'', JStr u), (''operationId'', JStr i)]) s = (Inr out, s')
    \<and> (\<exists>b. map_of (lc_accounts s') (accountKey t u) = Some b \<and> ac_state b = ActiveAccount \<and> ac_recoveryUntil b = None
        \<and> ac_deletionRequestedAt b = None \<and> ac_softDeletedAt b = None \<and> ac_purgeQueuedAt b = None
        \<and> ac_cleanupPlan b = ac_cleanupPlan a \<and> ac_holds b = ac_holds a \<and> ao_account out = publicAccount b)
    \<and> (\<forall>k. k \<noteq> accountKey t u \<longrightarrow> map_of (lc_accounts s') k = map_of (lc_accounts s) k)"
proof -
  have scope: "assertAccountScope (JObj [(''tenantId'', JStr t), (''userId'', JStr u), (''operationId'', JStr i)]) = Inr (t, u)"
    using ids by simp
  have reason: "assertReason (JStr ''account_recovery'') = Inr ''account_recovery''" by code_simp
  have w: "\<not> (case ac_recoveryUntil a of None \<Rightarrow> False | Some r \<Rightarrow> r < now)" using window by (auto split: option.splits)
  show ?thesis
    using ids acc st clk op w reason
    by (simp add: restoreAccount_def scope js_default_def js_or_else_def nullish_def assertOperationId_def need_str_def replay_def
      requireAccount_def date_or_now_def parseDate_def normalizeAccountActor_def createAuditEvent_def Let_def keep_result_def
      account_result_def put_account_def appendAudit_def)
qed

subsection \<open>Repeated operations\<close>

text \<open>The kind and the identifier field of the operations whose answers are kept.\<close>

fun kept_operation :: "lc_op \<Rightarrow> (string \<times> string) option" where
  "kept_operation RequestDeletion = Some (''request'', ''requestId'')"
| "kept_operation RestoreAccount = Some (''restore'', ''operationId'')"
| "kept_operation QueuePurge = Some (''queue'', ''operationId'')"
| "kept_operation CompletePurge = Some (''complete'', ''operationId'')"
| "kept_operation _ = None"

definition call_id :: "string \<Rightarrow> lc_env \<Rightarrow> jsval \<Rightarrow> jsval" where
  "call_id f ev i = js_or_else (jget i f) (JStr (ev_uuid ev))"

definition answered :: "string \<Rightarrow> account_operation \<Rightarrow> lifecycle_store \<Rightarrow> bool" where
  "answered k r s \<longleftrightarrow> map_of (lc_results s) k = Some r"

lemmas answered_peel = snd_liftE2 [where P = "answered k r" for k r] snd_liftE [where P = "answered k r" for k r]
  snd_replay [where P = "answered k r" for k r] snd_if [where P = "answered k r" for k r]

lemma answered_simps [simp]:
  "answered k r (put_account k' a s) = answered k r s"
  "answered k r (appendAudit e s) = answered k r s"
  "answered k r s \<Longrightarrow> map_of (lc_results s) k' = None \<Longrightarrow> k' \<noteq> k"
  "answered k r (snd (keep_result k' r' s)) \<longleftrightarrow> (if k' = k then r' = r else answered k r s)"
  by (auto simp: answered_def)

lemma answered_call: "answered k r s \<Longrightarrow> answered k r (snd (lc_call pd x ev i s))"
  by (cases x; simp only: lc_call.simps lifecycle_ops Let_def; intro answered_peel; simp)

lemma answered_run: "answered k r s \<Longrightarrow> answered k r (lc_run pd h s)"
  by (induction pd h s rule: lc_run.induct) (simp_all add: answered_call)

lemma replay_Inr: "replay k s b = (Inr out, s') \<longleftrightarrow> (map_of (lc_results s) k = Some out \<and> s' = s)
    \<or> (map_of (lc_results s) k = None \<and> b = (Inr out, s'))"
  by (auto simp: replay_def split: option.splits)

lemma keep_result_Inr: "keep_result k r s = (Inr out, s') \<longleftrightarrow> out = r \<and> s' = s\<lparr>lc_results := AList.update k r (lc_results s)\<rparr>"
  by (auto simp: keep_result_def)

lemma call_stores_answer:
  assumes "lc_call pd x ev i s = (Inr out, s')" and "kept_operation x = Some (kind, f)"
  shows "\<exists>t u j. assertAccountScope (js_default i (JObj [])) = Inr (t, u) \<and> call_id f ev i = JStr j \<and> operation_id_ok j
    \<and> answered (operation_key kind t u j) out s'"
  using assms by (cases x)
    (auto simp: lifecycle_ops Let_def replay_Inr keep_result_Inr guard_iff call_id_def assertOperationId_def answered_def)

lemma answered_replays:
  assumes "kept_operation x = Some (kind, f)" and "assertAccountScope (js_default i (JObj [])) = Inr (t, u)"
    and "call_id f ev i = JStr j" "operation_id_ok j" and "answered (operation_key kind t u j) out s"
  shows "lc_call pd x ev i s = (Inr out, s)"
  using assms by (cases x) (auto simp: lifecycle_ops call_id_def assertOperationId_def need_str_def replay_def answered_def)

text \<open>C31  Once an operation with an identifier has succeeded, repeating it with that identifier gives the same answer and changes nothing, whatever happened in between.\<close>

theorem operation_replay:
  assumes "kept_operation x = Some (kind, f)" and "lc_call pd x ev i s = (Inr out, s')"
    and "jget j ''tenantId'' = jget i ''tenantId''" and "jget j ''userId'' = jget i ''userId''" and "call_id f ev' j = call_id f ev i"
  shows "lc_call pd x ev' j (lc_run pd h s') = (Inr out, lc_run pd h s')"
proof -
  from call_stores_answer [OF assms(2,1)] obtain t u k where *: "assertAccountScope (js_default i (JObj [])) = Inr (t, u)"
    "call_id f ev i = JStr k" "operation_id_ok k" "answered (operation_key kind t u k) out s'" by blast
  moreover have "assertAccountScope (js_default j (JObj [])) = Inr (t, u)" using * assms(3,4) by simp
  ultimately show ?thesis using answered_replays [OF assms(1)] answered_run assms(5) by metis
qed

subsection \<open>The audit trail\<close>

text \<open>A failed call leaves no trace; a successful one that changes anything is recorded by exactly one event.\<close>

definition silent :: "lifecycle_store \<Rightarrow> account_operation res \<times> lifecycle_store \<Rightarrow> bool" where
  "silent s p \<longleftrightarrow> (case fst p of
       Inl e \<Rightarrow> lc_events (snd p) = lc_events s \<and> lc_results (snd p) = lc_results s
     | Inr out \<Rightarrow> snd p = s \<or> (\<exists>e. ao_audit out = Some e \<and> lc_events (snd p) = lc_events s @ [e]
         \<and> av_tenantId e = pa_tenantId (ao_account out) \<and> av_userId e = pa_userId (ao_account out)))"

lemma silent_liftE:
  "lc_events s1 = lc_events s \<and> lc_results s1 = lc_results s \<Longrightarrow> (\<And>x. m = Inr x \<Longrightarrow> silent s (k x)) \<Longrightarrow> silent s (liftE m s1 k)"
  by (cases m) (auto simp: silent_def)

lemma silent_liftE2:
  "lc_events s1 = lc_events s \<and> lc_results s1 = lc_results s \<Longrightarrow> (\<And>x y. m = Inr (x, y) \<Longrightarrow> silent s (k x y)) \<Longrightarrow>
    silent s (liftE m s1 (\<lambda>(x, y). k x y))"
  by (cases m) (auto simp: silent_def)

lemma silent_replay: "silent s b \<Longrightarrow> silent s (replay k s b)"
  by (auto simp: replay_def silent_def split: option.splits)

lemma silent_if: "(c \<Longrightarrow> silent s p) \<Longrightarrow> (\<not> c \<Longrightarrow> silent s q) \<Longrightarrow> silent s (if c then p else q)"
  by simp

lemma silent_call: "silent s (lc_call pd x ev i s)"
  by (cases x; simp only: lc_call.simps lifecycle_ops Let_def;
      intro silent_liftE2 silent_liftE silent_replay silent_if;
      auto simp: silent_def keep_result_def account_result_def createAuditEvent_def publicAccount_def)

text \<open>C32  A call that fails writes neither an audit event nor an answer; a call that succeeds either changes nothing or appends exactly one event about its account.\<close>

theorem audit_trail:
  assumes "lc_call pd x ev i s = (r, s')"
  shows "case r of
      Inl e \<Rightarrow> lc_events s' = lc_events s \<and> lc_results s' = lc_results s
    | Inr out \<Rightarrow> s' = s \<or> (\<exists>e. ao_audit out = Some e \<and> lc_events s' = lc_events s @ [e]
        \<and> av_tenantId e = pa_tenantId (ao_account out) \<and> av_userId e = pa_userId (ao_account out))"
  using silent_call [of s pd x ev i] assms by (simp add: silent_def split: sum.splits)

text \<open>A request refused for its cleanup plan has started the deletion all the same, unrecorded.\<close>

theorem refused_deletion_still_counts:
  assumes acc: "map_of (lc_accounts s) (accountKey t u) = Some a" and ids: "actor_id_ok t" "actor_id_ok u"
    and st: "ac_state a = ActiveAccount" "ac_holds a = []"
    and op: "operation_id_ok q" "map_of (lc_results s) (operation_key ''request'' t u q) = None"
    and clk: "to_date pd (ev_clock1 ev) = Some now" and days: "1 \<le> lc_recoveryDays s" "lc_recoveryDays s \<le> 3650"
    and range: "date_ok (now + lc_recoveryDays s * DAY_MS)"
  shows "\<exists>s'. requestDeletion pd ev (JObj [(''tenantId'', JStr t), (''userId'', JStr u), (''requestId'', JStr q),
      (''confirmation'', JStr (confirmationFor u)), (''cleanupPlan'', JArr [])]) s = (Inl (accountError ''INVALID_CLEANUP_PLAN''), s')
    \<and> account_states s' (t, u) = Some DeletionRequested \<and> lc_events s' = lc_events s"
proof -
  have scope: "assertAccountScope (JObj [(''tenantId'', JStr t), (''userId'', JStr u), (''requestId'', JStr q),
      (''confirmation'', JStr (confirmationFor u)), (''cleanupPlan'', JArr [])]) = Inr (t, u)" using ids by simp
  have reason: "assertReason (JStr ''user_requested'') = Inr ''user_requested''" by code_simp
  have safe: "is_safe_int (lc_recoveryDays s)" using days by (simp add: is_safe_int_def max_safe_def)
  show ?thesis
    using ids acc st clk op reason days range safe
    by (simp add: requestDeletion_def scope js_default_def js_or_else_def nullish_def assertOperationId_def need_str_def replay_def
      requireAccount_def requireState_def needE_def assertRecoveryDays_def need_int_def date_or_now_def parseDate_def
      normalizeAccountActor_def normalizeCleanupPlan_def Let_def put_account_def account_states_def)
qed

subsection \<open>The theorems at a concrete store\<close>

definition noParse :: "string \<Rightarrow> int option" where
  "noParse = (\<lambda>_. None)"

definition exampleScope :: "(string \<times> jsval) list \<Rightarrow> jsval" where
  "exampleScope kvs = JObj ([(''tenantId'', JStr ''t''), (''userId'', JStr ''u'')] @ kvs)"

definition exampleEnv :: "int \<Rightarrow> lc_env" where
  "exampleEnv now = \<lparr>ev_uuid = ''op-1'', ev_clock1 = JInt now, ev_clock2 = JInt now\<rparr>"

definition exampleStore :: lifecycle_store where
  "exampleStore = \<lparr>lc_recoveryDays = 28, lc_accounts = [], lc_results = [], lc_events = []\<rparr>"

definition exampleHistory :: lc_history where
  "exampleHistory = [
     (RegisterAccount, exampleEnv 0, exampleScope [(''cleanupPlan'', JArr [JStr ''aliases'', JStr ''backups''])]),
     (RequestDeletion, exampleEnv 0, exampleScope [(''confirmation'', JStr ''DELETE:u''), (''recoveryDays'', JInt 1)]),
     (SoftDeleteAccount, exampleEnv 5, exampleScope [(''confirmation'', JStr ''DELETE:u'')]),
     (QueuePurge, exampleEnv 86400000, exampleScope [])]"

definition examplePurge :: jsval where
  "examplePurge = exampleScope [(''confirmation'', JStr ''PURGE:u''),
     (''resourceResults'', JObj [(''aliases'', JStr ''purged''), (''backups'', JStr ''purged'')])]"

lemma example_init: "createAccountLifecycleStore JUndef = Inr exampleStore"
  by code_simp

lemma example_pending: "account_states (lc_run noParse exampleHistory exampleStore) (''t'', ''u'') = Some PurgePending"
  by code_simp

lemma example_purged: "account_states (snd (lc_call noParse CompletePurge (exampleEnv 86400001) examplePurge
    (lc_run noParse exampleHistory exampleStore))) (''t'', ''u'') = Some Purged"
  by code_simp

definition examplePending :: lifecycle_store where
  "examplePending = lc_run noParse exampleHistory exampleStore"

definition examplePurged :: lifecycle_store where
  "examplePurged = snd (lc_call noParse CompletePurge (exampleEnv 86400001) examplePurge examplePending)"

lemma example_ok: "lifecycle_ok examplePending"
  unfolding examplePending_def by (rule lifecycle_ok_run [OF lifecycle_ok_init [OF example_init]])

lemma example_call: "lc_call noParse CompletePurge (exampleEnv 86400001) examplePurge examplePending
    = (fst (lc_call noParse CompletePurge (exampleEnv 86400001) examplePurge examplePending), examplePurged)"
  by (simp add: examplePurged_def)

lemma example_answer: "is_ok (fst (lc_call noParse CompletePurge (exampleEnv 86400001) examplePurge examplePending))"
  by code_simp

lemma example_states:
  "account_states examplePending (''t'', ''u'') = Some PurgePending"
  "account_states examplePurged (''t'', ''u'') = Some Purged"
  unfolding examplePending_def examplePurged_def by (rule example_pending, rule example_purged)

lemma example_ids: "actor_id_ok ''t''" "actor_id_ok ''u''" "operation_id_ok ''op-2''"
  by code_simp+

lemma example_window:
  "map_option ac_recoveryUntil (map_of (lc_accounts examplePending) (accountKey ''t'' ''u'')) = Some (Some 86400000)"
  by code_simp

lemma example_fresh: "map_of (lc_results examplePending) (operation_key ''restore'' ''t'' ''u'' ''op-2'') = None"
  by code_simp

theorem account_records_ok_witness: "lifecycle_ok (lc_run noParse exampleHistory exampleStore)
    \<and> account_states (lc_run noParse exampleHistory exampleStore) (''t'', ''u'') = Some PurgePending"
  using account_records_ok [OF example_init] example_pending by blast

theorem lifecycle_refines_automaton_witness:
  "account_states examplePurged (''t'', ''u'') = account_states examplePending (''t'', ''u'')
    \<or> jget examplePurge ''tenantId'' = JStr ''t'' \<and> jget examplePurge ''userId'' = JStr ''u''
      \<and> (\<exists>x'\<in>set (next_states CompletePurge (account_states examplePending (''t'', ''u''))). account_states examplePurged (''t'', ''u'') = Some x')"
  by (rule lifecycle_refines_automaton [OF example_ok example_call example_ids(1,2)])

theorem purge_needs_confirmed_request_witness:
  "account_states examplePurged (''t'', ''u'') = Some Purged \<and> jget examplePurge ''confirmation'' = JStr (''PURGE:'' @ ''u'')
    \<and> (\<exists>a. map_of (lc_accounts examplePending) (accountKey ''t'' ''u'') = Some a \<and> ac_state a = PurgePending)"
proof -
  have "account_states examplePending (''t'', ''u'') \<noteq> Some Purged" using example_states(1) by simp
  from purge_needs_confirmed_request [OF example_init examplePending_def example_call example_ids(1,2) example_states(2) this]
  show ?thesis using example_states(2) by blast
qed

theorem purged_is_final_witness:
  "account_states (lc_run noParse exampleHistory examplePurged) (''t'', ''u'') = Some Purged"
proof -
  obtain a where a: "map_of (lc_accounts examplePurged) (accountKey ''t'' ''u'') = Some a" "ac_state a = Purged"
    using example_states(2) by (auto simp: account_states_def)
  have "lifecycle_ok examplePurged" unfolding examplePurged_def by (rule lifecycle_ok_call [OF example_ok])
  from purged_is_final [OF this a, of noParse exampleHistory] a(2) show ?thesis
    by (auto simp: account_states_def)
qed

theorem account_can_be_restored_witness:
  "\<exists>out s'. restoreAccount noParse (exampleEnv 86400000)
      (JObj [(''tenantId'', JStr ''t''), (''userId'', JStr ''u''), (''operationId'', JStr ''op-2'')]) examplePending = (Inr out, s')
    \<and> pa_state (ao_account out) = ActiveAccount"
proof -
  obtain a where a: "map_of (lc_accounts examplePending) (accountKey ''t'' ''u'') = Some a" "ac_state a = PurgePending"
    using example_states(1) by (auto simp: account_states_def)
  have clk: "to_date noParse (ev_clock1 (exampleEnv 86400000)) = Some 86400000" by code_simp
  have st: "ac_state a \<in> {DeletionRequested, SoftDeleted, PurgePending}" using a(2) by simp
  have w: "\<forall>r. ac_recoveryUntil a = Some r \<longrightarrow> 86400000 \<le> r" using example_window a(1) by auto
  from account_can_be_restored [OF a(1) example_ids(1,2) st clk w example_ids(3) example_fresh]
  show ?thesis by (auto simp: publicAccount_def)
qed

theorem operation_replay_witness:
  "\<exists>out. fst (lc_call noParse CompletePurge (exampleEnv 86400001) examplePurge examplePending) = Inr out
    \<and> lc_call noParse CompletePurge (exampleEnv 9) (exampleScope []) (lc_run noParse exampleHistory examplePurged)
      = (Inr out, lc_run noParse exampleHistory examplePurged)"
proof -
  obtain out where out: "fst (lc_call noParse CompletePurge (exampleEnv 86400001) examplePurge examplePending) = Inr out"
    using example_answer by (auto simp: is_ok_iff)
  have k: "kept_operation CompletePurge = Some (''complete'', ''operationId'')" by simp
  have same: "jget (exampleScope []) ''tenantId'' = jget examplePurge ''tenantId''"
    "jget (exampleScope []) ''userId'' = jget examplePurge ''userId''"
    "call_id ''operationId'' (exampleEnv 9) (exampleScope []) = call_id ''operationId'' (exampleEnv 86400001) examplePurge"
    by code_simp+
  from operation_replay [OF k example_call [unfolded out] same] out show ?thesis by blast
qed

theorem audit_trail_witness:
  "\<exists>e. lc_events examplePurged = lc_events examplePending @ [e]"
proof -
  obtain out where out: "fst (lc_call noParse CompletePurge (exampleEnv 86400001) examplePurge examplePending) = Inr out"
    using example_answer by (auto simp: is_ok_iff)
  have "examplePurged \<noteq> examplePending" using example_states by auto
  with audit_trail [OF example_call] out show ?thesis by auto
qed

end
