(* ===== verification/VCard.thy ===== *)
theory VCard
  imports Text_Lines
begin

section \<open>vCard objects\<close>

text \<open>
  The parser of \<open>src/core/dav/carddav/carddav-store.ts\<close>: unfolding the lines of a vCard, the properties on
  them, and the checks a stored contact must pass.  A property line is cut where the pattern of the code
  cuts it: the value begins after the first colon, the parameters at the first semicolon before it, and a
  group ends with a dot, which no name contains.
\<close>

definition MAX_VCARD_BYTES :: int where
  "MAX_VCARD_BYTES = 256 * 1024"

definition MAX_VCARD_LINE_LENGTH :: int where
  "MAX_VCARD_LINE_LENGTH = 16 * 1024"

definition cardDavError :: "string \<Rightarrow> nat \<Rightarrow> err" where
  "cardDavError code status = Err CardDavErr code status"

record vcard_property =
  vp_name :: string
  vp_parameters :: string
  vp_value :: string

record parsed_vcard =
  pv_canonical :: string
  pv_version :: string
  pv_uid :: string
  pv_fullName :: string
  pv_mediaType :: string
  pv_propertyNames :: "string list"
  pv_emailCount :: nat
  pv_telCount :: nat

definition is_control :: "char \<Rightarrow> bool" where \<comment> \<open>\<open>\p{Cc}\<close>\<close>
  "is_control c \<longleftrightarrow> ccode c < 32 \<or> (127 \<le> ccode c \<and> ccode c \<le> 159)"

subsection \<open>Lines\<close>

definition folded :: "string \<Rightarrow> bool" where \<comment> \<open>\<open>^[ \t]\<close>\<close>
  "folded l \<longleftrightarrow> (case l of [] \<Rightarrow> False | c # _ \<Rightarrow> c = CHR '' '' \<or> ccode c = 9)"

text \<open>The loop over the raw lines; the lines so far are kept last first.\<close>

fun unfold_loop :: "string list \<Rightarrow> string list \<Rightarrow> string list res" where
  "unfold_loop done [] = Inr (rev done)"
| "unfold_loop done (l # ls) =
     (if MAX_VCARD_LINE_LENGTH < int (length l) then Inl (cardDavError ''VCARD_LINE_TOO_LONG'' 400)
      else if folded l then (case done of [] \<Rightarrow> Inl (cardDavError ''VCARD_INVALID'' 400)
        | d # ds \<Rightarrow> unfold_loop ((d @ tl l) # ds) ls)
      else unfold_loop (l # done) ls)"

definition drop_last_empty :: "string list \<Rightarrow> string list" where
  "drop_last_empty ls = (if ls \<noteq> [] \<and> last ls = [] then butlast ls else ls)"

definition unfoldVCardLines :: "string \<Rightarrow> string list res" where
  "unfoldVCardLines s = bindE (unfold_loop [] (drop_last_empty (split_by (\<lambda>c. c = LF) (lf_newlines s)))) (\<lambda>ls.
     if ls = [] then Inl (cardDavError ''VCARD_INVALID'' 400) else Inr ls)"

subsection \<open>Properties\<close>

definition property_token :: "string \<Rightarrow> bool" where \<comment> \<open>\<open>[A-Za-z][A-Za-z0-9-]*\<close>\<close>
  "property_token s \<longleftrightarrow> (case s of [] \<Rightarrow> False
     | c # cs \<Rightarrow> (is_lower c \<or> is_upper c) \<and> list_all (\<lambda>c. is_alnum c \<or> c = CHR ''-'') cs)"

definition property_name :: "string \<Rightarrow> string option" where \<comment> \<open>the name without its group\<close>
  "property_name s = (case split_by (\<lambda>c. c = CHR ''.'') s of
       [n] \<Rightarrow> if property_token n then Some n else None
     | [g, n] \<Rightarrow> if property_token g \<and> property_token n then Some n else None
     | _ \<Rightarrow> None)"

definition no_raw_control :: "string \<Rightarrow> bool" where
  "no_raw_control s \<longleftrightarrow> list_all (\<lambda>c. is_control c \<longrightarrow> ccode c = 9) s"

definition parseVCardProperty :: "string \<Rightarrow> vcard_property res" where
  "parseVCardProperty line = (let head = takeWhile (\<lambda>c. c \<noteq> CHR '':'') line; value = drop (Suc (length head)) line;
       parameters = dropWhile (\<lambda>c. c \<noteq> CHR '';'') head in
     if CHR '':'' \<notin> set line \<or> \<not> no_crlf value then Inl (cardDavError ''VCARD_INVALID'' 400)
     else (case property_name (takeWhile (\<lambda>c. c \<noteq> CHR '';'') head) of
         None \<Rightarrow> Inl (cardDavError ''VCARD_INVALID'' 400)
       | Some name \<Rightarrow> if \<not> no_raw_control parameters \<or> \<not> no_raw_control value then Inl (cardDavError ''VCARD_INVALID'' 400)
           else Inr \<lparr>vp_name = upper name, vp_parameters = parameters, vp_value = value\<rparr>))"

fun unescapeVCardText :: "string \<Rightarrow> string" where
  "unescapeVCardText [] = []"
| "unescapeVCardText [c] = [c]"
| "unescapeVCardText (c # d # s) =
     (if c = CHR 0x5C \<and> d \<in> set ''nNrR'' then LF # unescapeVCardText s
      else if c = CHR 0x5C \<and> (d \<in> set '',;'' \<or> d = CHR 0x5C) then d # unescapeVCardText s
      else c # unescapeVCardText (d # s))"

subsection \<open>Validation\<close>

definition named :: "string \<Rightarrow> vcard_property list \<Rightarrow> vcard_property list" where
  "named n ps = filter (\<lambda>p. vp_name p = n) ps"

definition check_vcard :: "string list \<Rightarrow> vcard_property list \<Rightarrow> parsed_vcard res" where
  "check_vcard lines ps =
     (if vp_name (hd ps) \<noteq> ''BEGIN'' \<or> vp_name (last ps) \<noteq> ''END'' then Inl (cardDavError ''VCARD_INVALID'' 400)
      else if length (named ''BEGIN'' ps) \<noteq> 1 \<or> length (named ''END'' ps) \<noteq> 1 then Inl (cardDavError ''VCARD_MULTIPLE_OBJECTS'' 400)
      else (case named ''VERSION'' ps of [v] \<Rightarrow>
        if vp_value v \<noteq> ''3.0'' \<and> vp_value v \<noteq> ''4.0'' then Inl (cardDavError ''VCARD_VERSION_INVALID'' 400)
        else (case named ''UID'' ps of [u] \<Rightarrow>
          if vp_value u = [] then Inl (cardDavError ''VCARD_UID_INVALID'' 400)
          else (case named ''FN'' ps of [f] \<Rightarrow>
            if trim (unescapeVCardText (vp_value f)) = [] then Inl (cardDavError ''VCARD_FN_INVALID'' 400)
            else let uid = unescapeVCardText (vp_value u) in
              if 256 < length uid \<or> \<not> no_crlf uid then Inl (cardDavError ''VCARD_UID_INVALID'' 400)
              else Inr \<lparr>pv_canonical = join_crlf lines @ CRLF, pv_version = vp_value v, pv_uid = uid,
                pv_fullName = unescapeVCardText (vp_value f), pv_mediaType = ''text/vcard; version='' @ vp_value v,
                pv_propertyNames = sort_by str_le (dedup (map vp_name (butlast (tl ps)))),
                pv_emailCount = length (named ''EMAIL'' ps), pv_telCount = length (named ''TEL'' ps)\<rparr>
          | _ \<Rightarrow> Inl (cardDavError ''VCARD_FN_INVALID'' 400))
        | _ \<Rightarrow> Inl (cardDavError ''VCARD_UID_INVALID'' 400))
      | _ \<Rightarrow> Inl (cardDavError ''VCARD_VERSION_INVALID'' 400)))"

definition validateVCardText :: "jsval \<Rightarrow> parsed_vcard res" where
  "validateVCardText v = (case v of JStr s \<Rightarrow>
       if MAX_VCARD_BYTES < int (byte_length s) then Inl (cardDavError ''VCARD_TOO_LARGE'' 413)
       else if CHR 0x00 \<in> set s then Inl (cardDavError ''VCARD_INVALID'' 400)
       else bindE (unfoldVCardLines s) (\<lambda>lines.
         if upper (hd lines) \<noteq> ''BEGIN:VCARD'' \<or> upper (last lines) \<noteq> ''END:VCARD'' then Inl (cardDavError ''VCARD_INVALID'' 400)
         else bindE (mapE parseVCardProperty lines) (check_vcard lines))
     | _ \<Rightarrow> Inl (cardDavError ''VCARD_INVALID'' 400))"

lemmas vcard_defs [code_defs] = MAX_VCARD_BYTES_def MAX_VCARD_LINE_LENGTH_def cardDavError_def is_control_def folded_def
  drop_last_empty_def unfoldVCardLines_def property_token_def property_name_def no_raw_control_def parseVCardProperty_def
  named_def check_vcard_def validateVCardText_def

subsection \<open>Accepted lines are clean\<close>

lemma split_by_set: "set s \<subseteq> {c. p c} \<union> \<Union> (set ` set (split_by p s))"
  by (induction s) (auto split: list.splits, blast)

lemma cut_at: "x \<in> set l \<Longrightarrow> l = takeWhile (\<lambda>c. c \<noteq> x) l @ x # drop (Suc (length (takeWhile (\<lambda>c. c \<noteq> x) l))) l"
  by (induction l) auto

lemma split_by_head: "hd (split_by p (c # s)) = [] \<or> (\<exists>w. hd (split_by p (c # s)) = c # w)"
  by (auto split: list.splits)

lemma token_clean: "property_token s \<Longrightarrow> c \<in> set s \<Longrightarrow> \<not> is_control c"
  by (cases s) (auto simp: property_token_def char_defs is_control_def list_all_iff)

lemma property_name_clean:
  assumes "property_name s = Some n" and "c \<in> set s"
  shows "\<not> is_control c"
proof -
  have dot: "\<not> is_control (CHR ''.'')" by code_simp
  from assms(1) have "\<forall>w\<in>set (split_by (\<lambda>c. c = CHR ''.'') s). property_token w"
    by (auto simp: property_name_def split: list.splits if_splits)
  with assms(2) split_by_set [of s "\<lambda>c. c = CHR ''.''"] dot show ?thesis by (auto dest: token_clean)
qed

lemma property_name_head:
  assumes "property_name s = Some n"
  shows "\<exists>c w. s = c # w \<and> (is_lower c \<or> is_upper c)"
proof (cases s)
  case Nil
  with assms show ?thesis by (simp add: property_name_def property_token_def)
next
  case (Cons c w)
  from assms have "property_token (hd (split_by (\<lambda>c. c = CHR ''.'') s))"
    by (auto simp: property_name_def split: list.splits if_splits)
  with split_by_head [of "\<lambda>c. c = CHR ''.''" c w] Cons show ?thesis
    by (auto simp: property_token_def)
qed

lemma parsed_line:
  assumes "parseVCardProperty l = Inr p"
  shows "no_raw_control l" and "\<not> folded l"
proof -
  let ?h = "takeWhile (\<lambda>c. c \<noteq> CHR '':'') l" and ?v = "drop (Suc (length (takeWhile (\<lambda>c. c \<noteq> CHR '':'') l))) l"
  from assms obtain n where colon: "CHR '':'' \<in> set l" and name: "property_name (takeWhile (\<lambda>c. c \<noteq> CHR '';'') ?h) = Some n"
    and clean: "no_raw_control (dropWhile (\<lambda>c. c \<noteq> CHR '';'') ?h)" "no_raw_control ?v"
    by (auto simp: parseVCardProperty_def Let_def split: if_splits option.splits)
  have sep: "l = ?h @ CHR '':'' # ?v" by (rule cut_at [OF colon])
  have head: "?h = takeWhile (\<lambda>c. c \<noteq> CHR '';'') ?h @ dropWhile (\<lambda>c. c \<noteq> CHR '';'') ?h" by simp
  have "no_raw_control (takeWhile (\<lambda>c. c \<noteq> CHR '';'') ?h)"
    using property_name_clean [OF name] by (auto simp: no_raw_control_def list_all_iff)
  with clean(1) have "no_raw_control (takeWhile (\<lambda>c. c \<noteq> CHR '';'') ?h @ dropWhile (\<lambda>c. c \<noteq> CHR '';'') ?h)"
    by (simp only: no_raw_control_def list_all_append)
  then have "no_raw_control ?h" by (simp only: takeWhile_dropWhile_id)
  moreover have "no_raw_control (CHR '':'' # ?v)" using clean(2) by (simp add: no_raw_control_def is_control_def ccode_def)
  ultimately have "no_raw_control (?h @ CHR '':'' # ?v)" by (simp only: no_raw_control_def list_all_append)
  then show "no_raw_control l" by (subst sep)
  obtain c w where "takeWhile (\<lambda>c. c \<noteq> CHR '';'') ?h = c # w" "is_lower c \<or> is_upper c"
    using property_name_head [OF name] by blast
  then have "?h = c # w @ dropWhile (\<lambda>c. c \<noteq> CHR '';'') ?h" by (subst head) (simp only: append_Cons)
  then obtain w' where "l = c # w'" by (subst (asm) sep) (metis append_Cons sep)
  then show "\<not> folded l" using \<open>is_lower c \<or> is_upper c\<close> by (auto simp: folded_def char_defs)
qed

lemma clean_no_crlf: "no_raw_control l \<Longrightarrow> no_crlf l"
  by (auto simp: no_raw_control_def no_crlf_def list_all_iff CR_def LF_def is_control_def ccode_def)

lemma clean_no_nul: "no_raw_control l \<Longrightarrow> CHR 0x00 \<notin> set l"
  by (auto simp: no_raw_control_def list_all_iff is_control_def ccode_def)

lemma unfold_plain:
  assumes "\<forall>l\<in>set ls. \<not> folded l \<and> int (length l) \<le> MAX_VCARD_LINE_LENGTH"
  shows "unfold_loop acc ls = Inr (rev acc @ ls)"
  using assms by (induction ls arbitrary: acc) auto

lemma set_join_crlf: "set (join_crlf ls) \<subseteq> {CR, LF} \<union> \<Union> (set ` set ls)"
  by (induction ls rule: join_crlf.induct) (auto simp: CRLF_def)

subsection \<open>What is stored of an accepted vCard\<close>

lemma validate_Inr:
  assumes "validateVCardText v = Inr p"
  obtains s lines ps where "v = JStr s" "int (byte_length s) \<le> MAX_VCARD_BYTES" "unfoldVCardLines s = Inr lines" "lines \<noteq> []"
    "upper (hd lines) = ''BEGIN:VCARD''" "upper (last lines) = ''END:VCARD''"
    "mapE parseVCardProperty lines = Inr ps" "check_vcard lines ps = Inr p"
  using assms by (auto simp: validateVCardText_def guard_iff unfoldVCardLines_def split: jsval.splits)

lemma check_canonical: "check_vcard lines ps = Inr p \<Longrightarrow> pv_canonical p = join_crlf lines @ CRLF"
  by (auto simp: check_vcard_def Let_def split: if_splits list.splits)

lemma mapE_parsed: "mapE parseVCardProperty lines = Inr ps \<Longrightarrow> l \<in> set lines \<Longrightarrow> \<exists>q. parseVCardProperty l = Inr q"
  by (induction lines arbitrary: ps) auto

text \<open> The canonical text stored of an accepted vCard is itself accepted, with the same result, unless unfolding has made a line or the text longer than the limits.\<close>

theorem vcard_canonical_roundtrip:
  assumes v: "validateVCardText v = Inr p" and size: "int (byte_length (pv_canonical p)) \<le> MAX_VCARD_BYTES"
    and len: "\<forall>l\<in>set (text_lines (pv_canonical p)). int (length l) \<le> MAX_VCARD_LINE_LENGTH"
  shows "validateVCardText (JStr (pv_canonical p)) = Inr p"
proof -
  obtain s lines ps where ne: "lines \<noteq> []" and ends: "upper (hd lines) = ''BEGIN:VCARD''" "upper (last lines) = ''END:VCARD''"
    and ps: "mapE parseVCardProperty lines = Inr ps" and chk: "check_vcard lines ps = Inr p"
    using v by (elim validate_Inr)
  have clean: "\<forall>l\<in>set lines. no_raw_control l \<and> \<not> folded l" using ps mapE_parsed parsed_line by metis
  have canon: "pv_canonical p = join_crlf lines @ CRLF" by (rule check_canonical [OF chk])
  have tl: "text_lines (pv_canonical p) = lines @ [[]]"
    unfolding canon using clean ne text_lines_join [of lines "[]"] by (simp add: clean_no_crlf)
  have nul: "CHR 0x00 \<notin> set (pv_canonical p)"
    using set_join_crlf [of lines] clean by (auto simp: canon CRLF_def CR_def LF_def dest: clean_no_nul)
  have "unfold_loop [] lines = Inr lines" using unfold_plain [of lines "[]"] clean len tl by simp
  then have "unfoldVCardLines (pv_canonical p) = Inr lines"
    using ne by (simp add: unfoldVCardLines_def lf_newlines_lines tl drop_last_empty_def)
  then show ?thesis using size nul ends ps chk by (simp add: validateVCardText_def)
qed

text \<open>The facts about an accepted vCard that the store relies on.\<close>

lemma unescape_nonempty: "s \<noteq> [] \<Longrightarrow> unescapeVCardText s \<noteq> []"
  by (cases s rule: unescapeVCardText.cases) auto

lemma accepted_vcard:
  assumes "validateVCardText v = Inr p"
  shows "pv_uid p \<noteq> [] \<and> length (pv_uid p) \<le> 256 \<and> no_crlf (pv_uid p) \<and> trim (pv_fullName p) \<noteq> []
    \<and> (pv_version p = ''3.0'' \<or> pv_version p = ''4.0'')"
  using assms by (auto elim!: validate_Inr simp: check_vcard_def Let_def unescape_nonempty split: if_splits list.splits)

definition exampleCard :: "string \<Rightarrow> jsval" where
  "exampleCard name = JStr (join_crlf [''BEGIN:VCARD'', ''VERSION:3.0'', ''UID:u1'', ''FN:'' @ name, '' and more'',
     ''EMAIL;TYPE=work:a@b'', ''END:VCARD''])"

definition exampleCanonical :: "string \<Rightarrow> string list" where
  "exampleCanonical name = [''BEGIN:VCARD'', ''VERSION:3.0'', ''UID:u1'', ''FN:'' @ name @ ''and more'',
     ''EMAIL;TYPE=work:a@b'', ''END:VCARD'']"

definition exampleParsed :: "string \<Rightarrow> parsed_vcard" where
  "exampleParsed name = \<lparr>pv_canonical = join_crlf (exampleCanonical name) @ CRLF, pv_version = ''3.0'', pv_uid = ''u1'',
     pv_fullName = name @ ''and more'', pv_mediaType = ''text/vcard; version=3.0'',
     pv_propertyNames = [''EMAIL'', ''FN'', ''UID'', ''VERSION''], pv_emailCount = 1, pv_telCount = 0\<rparr>"

lemma example_card: "validateVCardText (exampleCard ''A'') = Inr (exampleParsed ''A'')"
  by code_simp

lemma example_canonical_size: "int (byte_length (pv_canonical (exampleParsed ''A''))) \<le> MAX_VCARD_BYTES"
  by code_simp

lemma example_canonical_lines:
  "list_all (\<lambda>l. int (length l) \<le> MAX_VCARD_LINE_LENGTH) (text_lines (pv_canonical (exampleParsed ''A'')))"
  by code_simp

theorem vcard_canonical_roundtrip_witness:
  "validateVCardText (JStr (pv_canonical (exampleParsed ''A''))) = Inr (exampleParsed ''A'')"
  using vcard_canonical_roundtrip [OF example_card example_canonical_size] example_canonical_lines
  by (simp add: list_all_iff)

end
