(* ===== verification/Sync_Log.thy ===== *)
theory Sync_Log
  imports JS_Base
begin

section \<open>Synchronisation by a log of changes\<close>

text \<open>
  The contract both groupware stores offer to a client that keeps a copy: every change of a collection is
  logged under a rising version, and applying the changes after the version of a copy to that copy gives
  the collection.  The locale states what a store promises; the stores interpret it.
\<close>

type_synonym 'v log_entry = "nat \<times> string \<times> 'v option"

definition since :: "nat \<Rightarrow> 'v log_entry list \<Rightarrow> 'v log_entry list" where
  "since n log = filter (\<lambda>e. n < fst e) log"

definition apply_log :: "'v log_entry list \<Rightarrow> (string \<Rightarrow> 'v option) \<Rightarrow> string \<Rightarrow> 'v option" where
  "apply_log log m = foldl (\<lambda>m e. m(fst (snd e) := snd (snd e))) m log"

lemma apply_log_simps [simp]:
  "apply_log [] m = m"
  "apply_log (xs @ ys) m = apply_log ys (apply_log xs m)"
  "apply_log [(n, k, v)] m = m(k := v)"
  by (simp_all add: apply_log_def)

lemma since_simps [simp]:
  "since n [] = []"
  "since n (xs @ ys) = since n xs @ since n ys"
  by (simp_all add: since_def)

lemma since_old: "(\<And>e. e \<in> set log \<Longrightarrow> fst e \<le> n) \<Longrightarrow> since n log = []"
  by (force simp: since_def filter_empty_conv)

lemma since_new: "(\<And>e. e \<in> set log \<Longrightarrow> n < fst e) \<Longrightarrow> since n log = log"
  by (simp add: since_def filter_id_conv)

lemma sorted_since: "sorted (map fst log) \<Longrightarrow> \<exists>old. log = old @ since n log"
proof (induction log)
  case (Cons e log)
  show ?case
  proof (cases "n < fst e")
    case True
    with Cons.prems have "since n (e # log) = e # log" by (intro since_new) fastforce
    then show ?thesis by simp
  next
    case False
    from Cons obtain old where "log = old @ since n log" by auto
    with False have "e # log = (e # old) @ since n (e # log)" by (simp add: since_def)
    then show ?thesis by blast
  qed
qed simp

locale change_log =
  fixes ok :: "'s \<Rightarrow> bool" and step :: "'s \<Rightarrow> 's \<Rightarrow> bool"
    and revision :: "'s \<Rightarrow> nat" and log :: "'s \<Rightarrow> 'v log_entry list" and content :: "'s \<Rightarrow> string \<Rightarrow> 'v option"
  assumes step_ok: "ok s \<Longrightarrow> step s t \<Longrightarrow> ok t"
    and log_bound: "ok s \<Longrightarrow> e \<in> set (log s) \<Longrightarrow> fst e \<le> revision s"
    and step_logged: "ok s \<Longrightarrow> step s t \<Longrightarrow> revision s \<le> revision t
      \<and> (\<exists>es. log t = log s @ es \<and> content t = apply_log es (content s) \<and> (\<forall>e\<in>set es. revision s < fst e) \<and> sorted (map fst es))"
begin

lemma steps_ok: "step\<^sup>*\<^sup>* s t \<Longrightarrow> ok s \<Longrightarrow> ok t"
  by (induction rule: rtranclp_induct) (auto intro: step_ok)

lemma steps_revision: "step\<^sup>*\<^sup>* s t \<Longrightarrow> ok s \<Longrightarrow> revision s \<le> revision t"
proof (induction rule: rtranclp_induct)
  case (step t u)
  then show ?case using step_logged [of t u] steps_ok by fastforce
qed simp

lemma sync: "step\<^sup>*\<^sup>* s t \<Longrightarrow> ok s \<Longrightarrow> apply_log (since (revision s) (log t)) (content s) = content t"
proof (induction rule: rtranclp_induct)
  case base
  then show ?case using log_bound by (simp add: since_old)
next
  case (step t u)
  then have "ok t" and "revision s \<le> revision t" by (simp_all add: steps_ok steps_revision)
  with step_logged [of t u] step(2) obtain es where es: "log u = log t @ es" "content u = apply_log es (content t)"
    "\<forall>e\<in>set es. revision s < fst e" by fastforce
  then show ?case using step(3,4) by (simp add: since_new)
qed

text \<open>A log that starts empty holds the changes in their order, so what a changed key has after any version is what
  it has now.\<close>

lemma from_empty: "step\<^sup>*\<^sup>* s t \<Longrightarrow> ok s \<Longrightarrow> log s = [] \<Longrightarrow> sorted (map fst (log t)) \<and> content t = apply_log (log t) (content s)"
proof (induction rule: rtranclp_induct)
  case (step t u)
  then have t: "ok t" by (simp add: steps_ok)
  with step_logged [of t u] step(2) obtain es where es: "log u = log t @ es" "content u = apply_log es (content t)"
    "\<forall>e\<in>set es. revision t < fst e" "sorted (map fst es)" by blast
  have "\<forall>e\<in>set (log t). fst e \<le> revision t" using log_bound [OF t] by blast
  with step es show ?case by (fastforce simp: sorted_append)
qed simp

lemma changes_end_in_content:
  assumes "step\<^sup>*\<^sup>* s t" "ok s" "log s = []"
  shows "\<exists>m. content t = apply_log (since n (log t)) m"
proof -
  from from_empty [OF assms] have "sorted (map fst (log t))" and c: "content t = apply_log (log t) (content s)" by blast+
  from sorted_since [OF this(1)] obtain old where "log t = old @ since n (log t)" by blast
  with c show ?thesis by (metis apply_log_simps(2))
qed

end

end
