(* ===== verification/CardDav_Store.thy ===== *)
theory CardDav_Store
  imports VCard Sync_Log
begin

section \<open>The address books\<close>

text \<open>
  The store of \<open>src/core/dav/carddav/carddav-store.ts\<close>.  A request is an object of unknown fields.  The
  SHA-256 digest in base64url is the parameter \<open>digest\<close>, the order of \<open>localeCompare\<close> the parameter \<open>loc\<close>;
  the two readings of the clock an operation may make are arguments, values of unknown type.  A fraction
  between 0 and 1 the clock returns is taken as positive.  \<open>#touch\<close> reads the clock after the contact and
  the revision have changed, so a clock that fails there leaves a change that is not in the log.
\<close>

subsection \<open>Data\<close>

record card_contact =
  cc_href :: string
  cc_uid :: string
  cc_fullName :: string
  cc_vCard :: string
  cc_etag :: string
  cc_mediaType :: string
  cc_sizeBytes :: nat
  cc_createdAt :: int
  cc_updatedAt :: int
  cc_propertyNames :: "string list"
  cc_emailCount :: nat
  cc_telCount :: nat
  cc_revision :: nat
  cc_tenantId :: string
  cc_userId :: string
  cc_addressBookId :: string

datatype card_operation = ContactCreated | ContactUpdated | ContactDeleted

record card_change =
  ch_version :: nat
  ch_operation :: card_operation
  ch_href :: string
  ch_uid :: string
  ch_etag :: "string option"

record address_book =
  ab_tenantId :: string
  ab_userId :: string
  ab_addressBookId :: string
  ab_href :: string
  ab_displayName :: string
  ab_description :: string
  ab_color :: "string option"
  ab_createdAt :: int
  ab_updatedAt :: int
  ab_revision :: nat
  ab_contacts :: "(string \<times> card_contact) list"
  ab_changes :: "card_change list"

type_synonym card_store = "(string \<times> address_book) list"

record card_scope =
  cs_tenantId :: string
  cs_userId :: string

record contact_meta =
  cm_href :: string
  cm_uid :: string
  cm_fullName :: string
  cm_etag :: string
  cm_mediaType :: string
  cm_sizeBytes :: nat
  cm_createdAt :: int
  cm_updatedAt :: int
  cm_propertyNames :: "string list"
  cm_emailCount :: nat
  cm_telCount :: nat

record book_view =
  bv_addressBookId :: string
  bv_href :: string
  bv_displayName :: string
  bv_description :: string
  bv_color :: "string option"
  bv_etag :: string
  bv_syncToken :: string
  bv_supportedAddressData :: "string list"
  bv_createdAt :: int
  bv_updatedAt :: int

record sync_view =
  sy_addressBookId :: string
  sy_previousSyncToken :: "string option"
  sy_syncToken :: string
  sy_changes :: "card_change list"

subsection \<open>Checks\<close>

definition safe_text :: "(string \<Rightarrow> bool) \<Rightarrow> nat \<Rightarrow> bool \<Rightarrow> string \<Rightarrow> jsval \<Rightarrow> string res" where \<comment> \<open>\<open>assertString\<close>\<close>
  "safe_text pattern maxLength allowEmpty code v =
     need_str (\<lambda>s. (allowEmpty \<or> s \<noteq> []) \<and> length s \<le> maxLength \<and> \<not> list_ex is_control s \<and> pattern s) (cardDavError code 400) v"

definition readClock :: "jsval \<Rightarrow> int res" where
  "readClock v = (let bad = Inl (cardDavError ''INVALID_CLOCK'' 500) in
     case v of JDate (Some t) \<Rightarrow> if t < 0 then bad else Inr t | JInt t \<Rightarrow> if t < 0 then bad else Inr t
     | JFrac t \<Rightarrow> if t < 0 then bad else Inr t | _ \<Rightarrow> bad)"

definition clock_iso :: "jsval \<Rightarrow> int res" where \<comment> \<open>\<open>new Date(readClock(this.clock)).toISOString()\<close>\<close>
  "clock_iso v = bindE (readClock v) (\<lambda>t. if date_ok t then Inr t else Inl rangeError)"

definition normalizeScope :: "jsval \<Rightarrow> card_scope res" where
  "normalizeScope scope =
     (if \<not> is_object scope then Inl (cardDavError ''SCOPE_INVALID'' 401)
      else bindE (safe_text actor_id_ok 128 False ''INVALID_TENANTID'' (jget scope ''tenantId'')) (\<lambda>t.
        bindE (safe_text actor_id_ok 128 False ''INVALID_USERID'' (jget scope ''userId'')) (\<lambda>u.
        if jget scope ''role'' \<noteq> JUndef \<and> jget scope ''role'' \<noteq> JStr ''user'' then Inl (cardDavError ''SCOPE_ROLE_DENIED'' 403)
        else if jget scope ''targetUserId'' \<noteq> JUndef \<and> jget scope ''targetUserId'' \<noteq> JStr u
        then Inl (cardDavError ''SCOPE_TARGET_DENIED'' 403)
        else Inr \<lparr>cs_tenantId = t, cs_userId = u\<rparr>)))"

definition book_char :: "char \<Rightarrow> bool" where
  "book_char c \<longleftrightarrow> is_alnum c \<or> one_of ''._-'' c"

definition normalizeAddressBookId :: "jsval \<Rightarrow> string res" where
  "normalizeAddressBookId v = safe_text (head_tail is_alnum book_char 63) 64 False ''INVALID_ADDRESSBOOKID'' v"

definition href_ok :: "string \<Rightarrow> bool" where \<comment> \<open>\<open>HREF_PATTERN\<close> and the check against \<open>..\<close>\<close>
  "href_ok s \<longleftrightarrow> ends_with ''.vcf'' s \<and> head_tail is_alnum book_char 127 (take (length s - 4) s)
     \<and> \<not> contains_str ''..'' s \<and> \<not> list_ex (one_of ''%/'') s \<and> CHR 0x5C \<notin> set s"

definition normalizeHref :: "jsval \<Rightarrow> string res" where
  "normalizeHref v = safe_text href_ok 128 False ''INVALID_HREF'' v"

definition normalizeOptionalText :: "nat \<Rightarrow> string \<Rightarrow> jsval \<Rightarrow> string res" where
  "normalizeOptionalText maxLength code v = (if nullish v then Inr [] else safe_text (\<lambda>_. True) maxLength True code v)"

definition hex_char :: "char \<Rightarrow> bool" where
  "hex_char c \<longleftrightarrow> is_digit c \<or> (97 \<le> ccode c \<and> ccode c \<le> 102) \<or> (65 \<le> ccode c \<and> ccode c \<le> 70)"

definition color_ok :: "string \<Rightarrow> bool" where
  "color_ok s \<longleftrightarrow> (length s = 7 \<or> length s = 9) \<and> hd s = CHR ''#'' \<and> list_all hex_char (tl s)"

definition keyFor :: "card_scope \<Rightarrow> string \<Rightarrow> string" where
  "keyFor sc b = nul_join [cs_tenantId sc, cs_userId sc, b]"

definition scopeFingerprint :: "(string \<Rightarrow> string) \<Rightarrow> card_scope \<Rightarrow> string \<Rightarrow> string" where
  "scopeFingerprint digest sc b = take 22 (digest (nul_join [cs_tenantId sc, cs_userId sc, b]))"

definition CARD_DAV_SYNC_TOKEN_PREFIX :: string where
  "CARD_DAV_SYNC_TOKEN_PREFIX = ''urn:gulogulo:carddav:v1:''"

definition makeSyncToken :: "(string \<Rightarrow> string) \<Rightarrow> card_scope \<Rightarrow> string \<Rightarrow> nat \<Rightarrow> string" where
  "makeSyncToken digest sc b version = CARD_DAV_SYNC_TOKEN_PREFIX @ scopeFingerprint digest sc b @ '':'' @ dec version"

text \<open>\<open>SYNC_TOKEN_PATTERN\<close>: the fingerprint and the digits of a token.\<close>

definition token_char :: "char \<Rightarrow> bool" where
  "token_char c \<longleftrightarrow> is_alnum c \<or> one_of ''_-'' c"

definition match_token :: "string \<Rightarrow> (string \<times> string) option" where
  "match_token s = (let f = take 22 (drop 24 s); v = drop 47 s in
     if take 24 s = CARD_DAV_SYNC_TOKEN_PREFIX \<and> length f = 22 \<and> list_all token_char f \<and> take 1 (drop 46 s) = '':''
       \<and> v \<noteq> [] \<and> list_all is_digit v
     then Some (f, v) else None)"

definition parseSyncToken :: "(string \<Rightarrow> string) \<Rightarrow> jsval \<Rightarrow> card_scope \<Rightarrow> string \<Rightarrow> nat res" where
  "parseSyncToken digest token sc b = (case token of JStr s \<Rightarrow> (case match_token s of
         None \<Rightarrow> Inl (cardDavError ''SYNC_TOKEN_INVALID'' 409)
       | Some (f, v) \<Rightarrow> if f \<noteq> scopeFingerprint digest sc b then Inl (cardDavError ''SYNC_TOKEN_INVALID'' 409)
           else if is_safe_int (int (undec v)) then Inr (undec v) else Inl (cardDavError ''SYNC_TOKEN_INVALID'' 409))
     | _ \<Rightarrow> Inl (cardDavError ''SYNC_TOKEN_INVALID'' 400))"

definition quoted :: "string \<Rightarrow> string" where
  "quoted s = CHR 0x22 # s @ [CHR 0x22]"

definition makeEtag :: "(string \<Rightarrow> string) \<Rightarrow> string \<Rightarrow> string" where
  "makeEtag digest canonical = quoted (digest canonical)"

definition makeCollectionEtag :: "(string \<Rightarrow> string) \<Rightarrow> address_book \<Rightarrow> string" where
  "makeCollectionEtag digest b = quoted (digest (nul_join [ab_addressBookId b, ab_displayName b, ab_description b,
     (case ab_color b of None \<Rightarrow> ''null'' | Some c \<Rightarrow> c), dec (ab_revision b)]))"

definition matchesIfMatch :: "jsval \<Rightarrow> string \<Rightarrow> bool" where
  "matchesIfMatch ifMatch current = (case ifMatch of JStr s \<Rightarrow> s = ''*'' \<or>
       (s \<noteq> [] \<and> current \<in> set (map trim (split_by (\<lambda>c. c = CHR '','') s))) | _ \<Rightarrow> False)"

definition assertIfMatch :: "jsval \<Rightarrow> string \<Rightarrow> unit res" where
  "assertIfMatch ifMatch current =
     (if ifMatch = JUndef then Inl (cardDavError ''PRECONDITION_REQUIRED'' 428)
      else needE (matchesIfMatch ifMatch current) (cardDavError ''ETAG_MISMATCH'' 412))"

definition readVCardInput :: "jsval \<Rightarrow> jsval res" where
  "readVCardInput i = (let v = js_or_else (js_or_else (jget i ''vCard'') (jget i ''vcard'')) (jget i ''vcardText'') in
     if v = JUndef then Inl (cardDavError ''VCARD_REQUIRED'' 400) else Inr v)"

subsection \<open>Views\<close>

definition contactMetadata :: "card_contact \<Rightarrow> contact_meta" where
  "contactMetadata c = \<lparr>cm_href = cc_href c, cm_uid = cc_uid c, cm_fullName = cc_fullName c, cm_etag = cc_etag c,
     cm_mediaType = cc_mediaType c, cm_sizeBytes = cc_sizeBytes c, cm_createdAt = cc_createdAt c, cm_updatedAt = cc_updatedAt c,
     cm_propertyNames = cc_propertyNames c, cm_emailCount = cc_emailCount c, cm_telCount = cc_telCount c\<rparr>"

definition publicContact :: "card_contact \<Rightarrow> contact_meta \<times> string" where
  "publicContact c = (contactMetadata c, cc_vCard c)"

definition publicAddressBook :: "(string \<Rightarrow> string) \<Rightarrow> address_book \<Rightarrow> card_scope \<Rightarrow> book_view" where
  "publicAddressBook digest b sc = \<lparr>bv_addressBookId = ab_addressBookId b, bv_href = ab_href b, bv_displayName = ab_displayName b,
     bv_description = ab_description b, bv_color = ab_color b, bv_etag = makeCollectionEtag digest b,
     bv_syncToken = makeSyncToken digest sc (ab_addressBookId b) (ab_revision b),
     bv_supportedAddressData = [''text/vcard; version=3.0'', ''text/vcard; version=4.0''],
     bv_createdAt = ab_createdAt b, bv_updatedAt = ab_updatedAt b\<rparr>"

subsection \<open>Operations\<close>

type_synonym 'a card_op = "card_store \<Rightarrow> 'a res \<times> card_store"

definition getState :: "jsval \<Rightarrow> jsval \<Rightarrow> card_store \<Rightarrow> (card_scope \<times> string \<times> address_book) res" where
  "getState scopeInput idInput s = bindE (normalizeScope scopeInput) (\<lambda>sc.
     bindE (normalizeAddressBookId idInput) (\<lambda>i. (case map_of s (keyFor sc i) of
       None \<Rightarrow> Inl (cardDavError ''ADDRESS_BOOK_NOT_FOUND'' 404) | Some b \<Rightarrow> Inr (sc, i, b))))"

definition book_of :: "jsval \<Rightarrow> card_store \<Rightarrow> (card_scope \<times> string \<times> address_book) res" where
  "book_of i s = getState (jget i ''scope'') (jget i ''addressBookId'') s"

definition createAddressBook :: "(string \<Rightarrow> string) \<Rightarrow> jsval \<Rightarrow> jsval \<Rightarrow> book_view card_op" where
  "createAddressBook digest clk i s =
     liftE (normalizeScope (jget i ''scope'')) s (\<lambda>sc.
     liftE (normalizeAddressBookId (jget i ''addressBookId'')) s (\<lambda>bid.
     if map_of s (keyFor sc bid) \<noteq> None then (Inl (cardDavError ''ADDRESS_BOOK_EXISTS'' 409), s)
     else liftE (safe_text (\<lambda>_. True) 256 False ''INVALID_DISPLAYNAME'' (jget i ''displayName'')) s (\<lambda>name.
     liftE (normalizeOptionalText 2048 ''INVALID_DESCRIPTION'' (jget i ''description'')) s (\<lambda>desc.
     liftE (opt_of (safe_text color_ok 32 False ''INVALID_COLOR'') (jget i ''color'')) s (\<lambda>color.
     liftE (clock_iso clk) s (\<lambda>now.
     let b = \<lparr>ab_tenantId = cs_tenantId sc, ab_userId = cs_userId sc, ab_addressBookId = bid,
           ab_href = ''/addressbooks/'' @ bid @ ''/'', ab_displayName = name, ab_description = desc, ab_color = color,
           ab_createdAt = now, ab_updatedAt = now, ab_revision = 0, ab_contacts = [], ab_changes = []\<rparr>
     in (Inr (publicAddressBook digest b sc), AList.update (keyFor sc bid) b s)))))))"

definition getAddressBook :: "(string \<Rightarrow> string) \<Rightarrow> jsval \<Rightarrow> card_store \<Rightarrow> book_view res" where
  "getAddressBook digest i s = bindE (book_of i s) (\<lambda>(sc, bid, b). Inr (publicAddressBook digest b sc))"

definition listAddressBooks :: "(string \<Rightarrow> string) \<Rightarrow> (string \<Rightarrow> string \<Rightarrow> bool) \<Rightarrow> jsval \<Rightarrow> card_store \<Rightarrow> book_view list res" where
  "listAddressBooks digest loc i s = bindE (normalizeScope (jget i ''scope'')) (\<lambda>sc.
     Inr (sort_by (\<lambda>x y. loc (bv_addressBookId x) (bv_addressBookId y)) (map (\<lambda>b. publicAddressBook digest b sc)
       (filter (\<lambda>b. ab_tenantId b = cs_tenantId sc \<and> ab_userId b = cs_userId sc) (map snd s)))))"

definition deleteAddressBook :: "(string \<Rightarrow> string) \<Rightarrow> jsval \<Rightarrow> string card_op" where
  "deleteAddressBook digest i s = liftE (book_of i s) s (\<lambda>(sc, bid, b).
     liftE (assertIfMatch (jget i ''ifMatch'') (makeCollectionEtag digest b)) s (\<lambda>_. (Inr bid, AList.delete (keyFor sc bid) s)))"

definition findUid :: "address_book \<Rightarrow> string \<Rightarrow> card_contact option" where
  "findUid b uid = find (\<lambda>c. cc_uid c = uid) (map snd (ab_contacts b))"

definition buildContact :: "(string \<Rightarrow> string) \<Rightarrow> address_book \<Rightarrow> card_scope \<Rightarrow> string \<Rightarrow> string \<Rightarrow> parsed_vcard \<Rightarrow> int \<Rightarrow> card_contact" where
  "buildContact digest b sc bid href p now = \<lparr>cc_href = href, cc_uid = pv_uid p, cc_fullName = pv_fullName p,
     cc_vCard = pv_canonical p, cc_etag = makeEtag digest (pv_canonical p), cc_mediaType = pv_mediaType p,
     cc_sizeBytes = byte_length (pv_canonical p), cc_createdAt = now, cc_updatedAt = now, cc_propertyNames = pv_propertyNames p,
     cc_emailCount = pv_emailCount p, cc_telCount = pv_telCount p, cc_revision = ab_revision b + 1,
     cc_tenantId = cs_tenantId sc, cc_userId = cs_userId sc, cc_addressBookId = bid\<rparr>"

text \<open>\<open>#record\<close> with \<open>#touch\<close>: the revision is raised before the clock is read, the change logged after.\<close>

definition record_change :: "(string \<Rightarrow> string) \<Rightarrow> jsval \<Rightarrow> card_scope \<Rightarrow> string \<Rightarrow> card_contact \<Rightarrow> card_operation \<Rightarrow> string option
    \<Rightarrow> address_book \<Rightarrow> string res \<times> address_book" where
  "record_change digest clk sc bid c operation etag b = (let b1 = b\<lparr>ab_revision := ab_revision b + 1\<rparr> in
     liftE (clock_iso clk) b1 (\<lambda>now. (Inr (makeSyncToken digest sc bid (ab_revision b1)),
       b1\<lparr>ab_updatedAt := now, ab_changes := ab_changes b1 @ [\<lparr>ch_version = ab_revision b1, ch_operation = operation,
         ch_href = cc_href c, ch_uid = cc_uid c, ch_etag = etag\<rparr>]\<rparr>)))"

text \<open>Run an operation on a book inside the store: the book it leaves is stored, the error or result passed on.\<close>

definition in_book :: "string \<Rightarrow> 'a res \<times> address_book \<Rightarrow> card_store \<Rightarrow> 'a res \<times> card_store" where
  "in_book k p s = (fst p, AList.update k (snd p) s)"

definition store_contact :: "(string \<Rightarrow> string) \<Rightarrow> jsval \<Rightarrow> card_scope \<Rightarrow> string \<Rightarrow> card_operation \<Rightarrow> card_contact \<Rightarrow> address_book
    \<Rightarrow> (contact_meta \<times> string) card_op" where
  "store_contact digest clk sc bid operation c b s =
     in_book (keyFor sc bid) (bindS (record_change digest clk sc bid c operation (Some (cc_etag c))) (\<lambda>_ b2. (Inr (publicContact c), b2))
       (b\<lparr>ab_contacts := AList.update (cc_href c) c (ab_contacts b)\<rparr>)) s"

definition default_href :: "jsval \<Rightarrow> parsed_vcard \<Rightarrow> string res" where
  "default_href v p = normalizeHref (if v = JUndef then JStr (pv_uid p @ ''.vcf'') else v)"

definition createContact :: "(string \<Rightarrow> string) \<Rightarrow> jsval \<Rightarrow> jsval \<Rightarrow> jsval \<Rightarrow> (contact_meta \<times> string) card_op" where
  "createContact digest clk1 clk2 i s =
     liftE (book_of i s) s (\<lambda>(sc, bid, b).
     liftE (bindE (readVCardInput i) validateVCardText) s (\<lambda>p.
     liftE (default_href (jget i ''href'') p) s (\<lambda>href.
     if jget i ''ifNoneMatch'' \<noteq> JStr ''*'' then (Inl (cardDavError ''PRECONDITION_REQUIRED'' 428), s)
     else if map_of (ab_contacts b) href \<noteq> None then (Inl (cardDavError ''CONTACT_EXISTS'' 412), s)
     else if findUid b (pv_uid p) \<noteq> None then (Inl (cardDavError ''VCARD_UID_EXISTS'' 409), s)
     else liftE (clock_iso clk1) s (\<lambda>now.
     store_contact digest clk2 sc bid ContactCreated (buildContact digest b sc bid href p now) b s))))"

definition scope_js :: "card_scope \<Rightarrow> jsval" where
  "scope_js sc = JObj [(''tenantId'', JStr (cs_tenantId sc)), (''userId'', JStr (cs_userId sc))]"

definition putContact :: "(string \<Rightarrow> string) \<Rightarrow> jsval \<Rightarrow> jsval \<Rightarrow> jsval \<Rightarrow> (contact_meta \<times> string) card_op" where
  "putContact digest clk1 clk2 i s =
     liftE (book_of i s) s (\<lambda>(sc, bid, b).
     liftE (bindE (readVCardInput i) validateVCardText) s (\<lambda>p.
     liftE (default_href (jget i ''href'') p) s (\<lambda>href.
     (case map_of (ab_contacts b) href of
       None \<Rightarrow> if jget i ''ifNoneMatch'' = JStr ''*''
         then createContact digest clk1 clk2 (JObj [(''scope'', scope_js sc), (''addressBookId'', JStr bid), (''href'', JStr href),
           (''ifNoneMatch'', JStr ''*''), (''vCard'', JStr (pv_canonical p))]) s
         else (Inl (cardDavError ''CONTACT_NOT_FOUND'' 404), s)
     | Some old \<Rightarrow>
         if jget i ''ifNoneMatch'' \<noteq> JUndef then (Inl (cardDavError ''PRECONDITION_FAILED'' 412), s)
         else liftE (assertIfMatch (jget i ''ifMatch'') (cc_etag old)) s (\<lambda>_.
         if pv_uid p \<noteq> cc_uid old then (Inl (cardDavError ''VCARD_UID_IMMUTABLE'' 409), s)
         else if (case findUid b (pv_uid p) of None \<Rightarrow> False | Some other \<Rightarrow> cc_href other \<noteq> href)
         then (Inl (cardDavError ''VCARD_UID_EXISTS'' 409), s)
         else if makeEtag digest (pv_canonical p) = cc_etag old then (Inr (publicContact old), s)
         else liftE (clock_iso clk1) s (\<lambda>now.
         store_contact digest clk2 sc bid ContactUpdated
           ((buildContact digest b sc bid href p now)\<lparr>cc_createdAt := cc_createdAt old\<rparr>) b s))))))"

definition requireContact :: "jsval \<Rightarrow> card_store \<Rightarrow> (card_scope \<times> string \<times> address_book \<times> card_contact) res" where
  "requireContact i s = bindE (book_of i s) (\<lambda>(sc, bid, b). bindE (normalizeHref (jget i ''href'')) (\<lambda>href.
     case map_of (ab_contacts b) href of None \<Rightarrow> Inl (cardDavError ''CONTACT_NOT_FOUND'' 404) | Some c \<Rightarrow> Inr (sc, bid, b, c)))"

definition getContact :: "jsval \<Rightarrow> card_store \<Rightarrow> (contact_meta \<times> string) res" where
  "getContact i s = bindE (requireContact i s) (\<lambda>(sc, bid, b, c). Inr (publicContact c))"

definition getContactMetadata :: "jsval \<Rightarrow> card_store \<Rightarrow> contact_meta res" where
  "getContactMetadata i s = bindE (requireContact i s) (\<lambda>(sc, bid, b, c). Inr (contactMetadata c))"

definition sorted_contacts :: "(string \<Rightarrow> string \<Rightarrow> bool) \<Rightarrow> address_book \<Rightarrow> card_contact list" where
  "sorted_contacts loc b = sort_by (\<lambda>x y. loc (cc_href x) (cc_href y)) (map snd (ab_contacts b))"

definition listContacts :: "(string \<Rightarrow> string \<Rightarrow> bool) \<Rightarrow> jsval \<Rightarrow> card_store \<Rightarrow> contact_meta list res" where
  "listContacts loc i s = bindE (book_of i s) (\<lambda>(sc, bid, b). Inr (map contactMetadata (sorted_contacts loc b)))"

definition deleteContact :: "(string \<Rightarrow> string) \<Rightarrow> jsval \<Rightarrow> jsval \<Rightarrow> (string \<times> string) card_op" where
  "deleteContact digest clk i s =
     liftE (book_of i s) s (\<lambda>(sc, bid, b).
     liftE (normalizeHref (jget i ''href'')) s (\<lambda>href.
     (case map_of (ab_contacts b) href of None \<Rightarrow> (Inl (cardDavError ''CONTACT_NOT_FOUND'' 404), s)
     | Some c \<Rightarrow> liftE (assertIfMatch (jget i ''ifMatch'') (cc_etag c)) s (\<lambda>_.
         in_book (keyFor sc bid) (bindS (record_change digest clk sc bid c ContactDeleted None) (\<lambda>token b2. (Inr (href, token), b2))
           (b\<lparr>ab_contacts := AList.delete href (ab_contacts b)\<rparr>)) s))))"

definition full_changes :: "(string \<Rightarrow> string \<Rightarrow> bool) \<Rightarrow> address_book \<Rightarrow> card_change list" where
  "full_changes loc b = map (\<lambda>c. \<lparr>ch_version = cc_revision c, ch_operation = ContactCreated, ch_href = cc_href c, ch_uid = cc_uid c,
     ch_etag = Some (cc_etag c)\<rparr>) (sorted_contacts loc b)"

definition syncCollection :: "(string \<Rightarrow> string) \<Rightarrow> (string \<Rightarrow> string \<Rightarrow> bool) \<Rightarrow> jsval \<Rightarrow> card_store \<Rightarrow> sync_view res" where
  "syncCollection digest loc i s = bindE (book_of i s) (\<lambda>(sc, bid, b).
     let current = makeSyncToken digest sc bid (ab_revision b) in
     if nullish (jget i ''syncToken'')
     then Inr \<lparr>sy_addressBookId = bid, sy_previousSyncToken = None, sy_syncToken = current, sy_changes = full_changes loc b\<rparr>
     else bindE (parseSyncToken digest (jget i ''syncToken'') sc bid) (\<lambda>v.
       if ab_revision b < v then Inl (cardDavError ''SYNC_TOKEN_INVALID'' 409)
       else Inr \<lparr>sy_addressBookId = bid, sy_previousSyncToken = js_str (jget i ''syncToken''), sy_syncToken = current,
         sy_changes = filter (\<lambda>c. v < ch_version c) (ab_changes b)\<rparr>))"

definition exportAddressBookMetadata :: "(string \<Rightarrow> string) \<Rightarrow> (string \<Rightarrow> string \<Rightarrow> bool) \<Rightarrow> jsval \<Rightarrow> card_store
    \<Rightarrow> (book_view \<times> contact_meta list) res" where
  "exportAddressBookMetadata digest loc i s = bindE (book_of i s) (\<lambda>(sc, bid, b).
     Inr (publicAddressBook digest b sc, map contactMetadata (sorted_contacts loc b)))"

lemmas carddav_checks [code_defs] = safe_text_def readClock_def clock_iso_def normalizeScope_def book_char_def
  normalizeAddressBookId_def href_ok_def normalizeHref_def normalizeOptionalText_def hex_char_def color_ok_def keyFor_def
  scopeFingerprint_def CARD_DAV_SYNC_TOKEN_PREFIX_def makeSyncToken_def token_char_def match_token_def parseSyncToken_def
  quoted_def makeEtag_def makeCollectionEtag_def matchesIfMatch_def assertIfMatch_def readVCardInput_def

lemmas carddav_ops [code_defs] = contactMetadata_def publicContact_def publicAddressBook_def getState_def book_of_def
  createAddressBook_def getAddressBook_def listAddressBooks_def deleteAddressBook_def findUid_def buildContact_def
  record_change_def in_book_def store_contact_def default_href_def createContact_def scope_js_def putContact_def
  requireContact_def getContact_def getContactMetadata_def sorted_contacts_def listContacts_def deleteContact_def
  full_changes_def syncCollection_def exportAddressBookMetadata_def

subsection \<open>Calls\<close>

datatype card_call = CreateBook jsval jsval | DeleteBook jsval | CreateContact jsval jsval jsval
  | PutContact jsval jsval jsval | DeleteContact jsval jsval

fun card_run :: "(string \<Rightarrow> string) \<Rightarrow> card_call \<Rightarrow> card_store \<Rightarrow> card_store" where
  "card_run digest (CreateBook clk i) s = snd (createAddressBook digest clk i s)"
| "card_run digest (DeleteBook i) s = snd (deleteAddressBook digest i s)"
| "card_run digest (CreateContact clk1 clk2 i) s = snd (createContact digest clk1 clk2 i s)"
| "card_run digest (PutContact clk1 clk2 i) s = snd (putContact digest clk1 clk2 i s)"
| "card_run digest (DeleteContact clk i) s = snd (deleteContact digest clk i s)"

fun card_runs :: "(string \<Rightarrow> string) \<Rightarrow> card_call list \<Rightarrow> card_store \<Rightarrow> card_store" where
  "card_runs digest [] s = s"
| "card_runs digest (c # cs) s = card_runs digest cs (card_run digest c s)"

text \<open>The input of a call, and whether the clock it reads while it logs a change works.\<close>

fun card_input :: "card_call \<Rightarrow> jsval" where
  "card_input (CreateBook clk i) = i"
| "card_input (DeleteBook i) = i"
| "card_input (CreateContact clk1 clk2 i) = i"
| "card_input (PutContact clk1 clk2 i) = i"
| "card_input (DeleteContact clk i) = i"

fun log_clock_ok :: "card_call \<Rightarrow> bool" where
  "log_clock_ok (CreateContact clk1 clk2 i) = is_ok (clock_iso clk2)"
| "log_clock_ok (PutContact clk1 clk2 i) = is_ok (clock_iso clk2)"
| "log_clock_ok (DeleteContact clk i) = is_ok (clock_iso clk)"
| "log_clock_ok _ = True"

subsection \<open>What a call does to a book\<close>

inductive book_change :: "(string \<Rightarrow> string) \<Rightarrow> jsval \<Rightarrow> bool \<Rightarrow> address_book \<Rightarrow> address_book \<Rightarrow> bool" where
  bc_create: "book_change digest i logged b (b\<lparr>ab_contacts := AList.update (cc_href c) c (ab_contacts b),
      ab_revision := Suc (ab_revision b), ab_updatedAt := t, ab_changes := l\<rparr>)"
    if "map_of (ab_contacts b) (cc_href c) = None" "findUid b (cc_uid c) = None" "cc_revision c = Suc (ab_revision b)"
      "cc_etag c = makeEtag digest (cc_vCard c)"
      "if logged then \<exists>x u. l = ab_changes b @ [\<lparr>ch_version = Suc (ab_revision b), ch_operation = x, ch_href = cc_href c, ch_uid = u,
         ch_etag = Some (cc_etag c)\<rparr>] else l = ab_changes b"
| bc_update: "book_change digest i logged b (b\<lparr>ab_contacts := AList.update (cc_href c) c (ab_contacts b),
      ab_revision := Suc (ab_revision b), ab_updatedAt := t, ab_changes := l\<rparr>)"
    if "map_of (ab_contacts b) (cc_href c) = Some old" "cc_uid c = cc_uid old" "cc_revision c = Suc (ab_revision b)"
      "cc_etag c = makeEtag digest (cc_vCard c)" "matchesIfMatch (jget i ''ifMatch'') (cc_etag old)"
      "if logged then \<exists>x u. l = ab_changes b @ [\<lparr>ch_version = Suc (ab_revision b), ch_operation = x, ch_href = cc_href c, ch_uid = u,
         ch_etag = Some (cc_etag c)\<rparr>] else l = ab_changes b"
| bc_delete: "book_change digest i logged b (b\<lparr>ab_contacts := AList.delete h (ab_contacts b),
      ab_revision := Suc (ab_revision b), ab_updatedAt := t, ab_changes := l\<rparr>)"
    if "map_of (ab_contacts b) h = Some old" "matchesIfMatch (jget i ''ifMatch'') (cc_etag old)"
      "if logged then \<exists>x u. l = ab_changes b @ [\<lparr>ch_version = Suc (ab_revision b), ch_operation = x, ch_href = h, ch_uid = u,
         ch_etag = None\<rparr>] else l = ab_changes b"

inductive_cases book_changeE: "book_change digest i logged b b'"

definition contact_effect :: "(string \<Rightarrow> string) \<Rightarrow> jsval \<Rightarrow> bool \<Rightarrow> card_store \<Rightarrow> card_store \<Rightarrow> bool" where
  "contact_effect digest i logged s s' \<longleftrightarrow> s' = s \<or> (\<exists>sc bid b b'. book_of i s = Inr (sc, bid, b)
     \<and> s' = AList.update (keyFor sc bid) b' s \<and> book_change digest i logged b b')"

lemma effect_same [simp]: "contact_effect digest i logged s s"
  by (simp add: contact_effect_def)

text \<open>What \<open>#record\<close> leaves of a book, with its contacts already changed.\<close>

definition recorded :: "bool \<Rightarrow> string \<Rightarrow> string option \<Rightarrow> address_book \<Rightarrow> (string \<times> card_contact) list \<Rightarrow> address_book \<Rightarrow> bool" where
  "recorded logged h e b cs b' \<longleftrightarrow> (\<exists>t l. b' = b\<lparr>ab_contacts := cs, ab_revision := Suc (ab_revision b), ab_updatedAt := t, ab_changes := l\<rparr>
     \<and> (if logged then \<exists>x u. l = ab_changes b @ [\<lparr>ch_version = Suc (ab_revision b), ch_operation = x, ch_href = h, ch_uid = u,
          ch_etag = e\<rparr>] else l = ab_changes b))"

lemma record_change_recorded:
  "recorded (is_ok (clock_iso clk)) (cc_href c) e b cs (snd (record_change digest clk sc bid c x e (b\<lparr>ab_contacts := cs\<rparr>)))"
proof (cases "clock_iso clk")
  case (Inl err)
  then show ?thesis unfolding recorded_def
    by (intro exI [of _ "ab_updatedAt b"] exI [of _ "ab_changes b"]) (simp add: record_change_def)
next
  case (Inr t)
  then show ?thesis unfolding recorded_def by (auto simp: record_change_def)
qed

lemma bindS_snd: "snd (bindS m (\<lambda>x t. (f x, t)) s) = snd (m s)"
  by (auto simp: bindS_def split: prod.splits sum.splits)

lemma effect_recorded:
  assumes "book_of i s = Inr (sc, bid, b)" and "recorded logged h e b cs b'"
    and "\<And>t l. (if logged then \<exists>x u. l = ab_changes b @ [\<lparr>ch_version = Suc (ab_revision b), ch_operation = x, ch_href = h, ch_uid = u,
          ch_etag = e\<rparr>] else l = ab_changes b)
      \<Longrightarrow> book_change digest i logged b (b\<lparr>ab_contacts := cs, ab_revision := Suc (ab_revision b), ab_updatedAt := t, ab_changes := l\<rparr>)"
  shows "contact_effect digest i logged s (AList.update (keyFor sc bid) b' s)"
  using assms unfolding contact_effect_def recorded_def by blast

lemmas card_peel = snd_liftE3 [where P = "contact_effect digest i logged s" for digest i logged s]
  snd_liftE [where P = "contact_effect digest i logged s" for digest i logged s]
  snd_if [where P = "contact_effect digest i logged s" for digest i logged s]
  snd_option [where P = "contact_effect digest i logged s" for digest i logged s]

lemma built_contact [simp]:
  "cc_href (buildContact digest b sc bid href p now) = href"
  "cc_uid (buildContact digest b sc bid href p now) = pv_uid p"
  "cc_etag (buildContact digest b sc bid href p now) = makeEtag digest (cc_vCard (buildContact digest b sc bid href p now))"
  "cc_revision (buildContact digest b sc bid href p now) = Suc (ab_revision b)"
  by (simp_all add: buildContact_def)

lemma create_effect: "contact_effect digest i (is_ok (clock_iso clk2)) s (snd (createContact digest clk1 clk2 i s))"
  unfolding createContact_def store_contact_def in_book_def bindS_snd snd_conv fst_conv
  by (intro card_peel; (rule effect_same)?; simp only: snd_conv bindS_snd;
    (rule effect_recorded, assumption, rule record_change_recorded, rule bc_create)?; simp)

lemma scope_again: "normalizeScope v = Inr sc \<Longrightarrow> normalizeScope (scope_js sc) = Inr sc"
  by (auto simp: normalizeScope_def scope_js_def safe_text_def guard_iff)

lemma book_id_again: "normalizeAddressBookId v = Inr bid \<Longrightarrow> normalizeAddressBookId (JStr bid) = Inr bid"
  by (auto simp: normalizeAddressBookId_def safe_text_def)

lemma book_again:
  assumes "book_of i s = Inr (sc, bid, b)"
  shows "book_of (JObj [(''scope'', scope_js sc), (''addressBookId'', JStr bid), (''href'', h), (''ifNoneMatch'', n), (''vCard'', v)]) s = Inr (sc, bid, b)"
  using assms by (auto simp: book_of_def getState_def scope_again book_id_again split: option.split_asm)

lemma update_found: "assertIfMatch v e = Inr z \<Longrightarrow> matchesIfMatch v e"
  by (auto simp: assertIfMatch_def guard_iff)

text \<open>The contacts of a book are filed under their names, and no two have the same UID.\<close>

definition book_ok :: "(string \<Rightarrow> string) \<Rightarrow> address_book \<Rightarrow> bool" where
  "book_ok digest b \<longleftrightarrow> distinct (map fst (ab_contacts b))
     \<and> (\<forall>h c. map_of (ab_contacts b) h = Some c \<longrightarrow> cc_href c = h \<and> cc_revision c \<le> ab_revision b \<and> cc_etag c = makeEtag digest (cc_vCard c))
     \<and> (\<forall>h c h' c'. map_of (ab_contacts b) h = Some c \<longrightarrow> map_of (ab_contacts b) h' = Some c' \<longrightarrow> cc_uid c = cc_uid c' \<longrightarrow> h = h')
     \<and> sorted_wrt (<) (map ch_version (ab_changes b)) \<and> (\<forall>x\<in>set (ab_changes b). ch_version x \<le> ab_revision b)"

definition card_store_ok :: "(string \<Rightarrow> string) \<Rightarrow> card_store \<Rightarrow> bool" where
  "card_store_ok digest s \<longleftrightarrow> (\<forall>k b. map_of s k = Some b \<longrightarrow> book_ok digest b)"

lemma book_of_stored: "book_of i s = Inr (sc, bid, b) \<Longrightarrow> map_of s (keyFor sc bid) = Some b"
  by (auto simp: book_of_def getState_def split: option.split_asm)

lemma filed_contact: "card_store_ok digest s \<Longrightarrow> book_of i s = Inr (sc, bid, b) \<Longrightarrow> map_of (ab_contacts b) h = Some c \<Longrightarrow> cc_href c = h"
  by (drule book_of_stored) (auto simp: card_store_ok_def book_ok_def)

lemma delete_effect:
  assumes "card_store_ok digest s"
  shows "contact_effect digest i (is_ok (clock_iso clk)) s (snd (deleteContact digest clk i s))"
  unfolding deleteContact_def in_book_def
  by (intro card_peel; (rule effect_same)?; (simp only: snd_conv bindS_snd effect_same)?;
    (rule effect_recorded, assumption, rule record_change_recorded, rule bc_delete)?; (erule update_found)?;
    auto dest: filed_contact [OF assms])

lemma create_only: "book_change digest (JObj [(''scope'', sc), (''addressBookId'', bid), (''href'', h), (''ifNoneMatch'', n), (''vCard'', v)])
    logged b b' \<Longrightarrow> book_change digest i logged b b'"
  by (erule book_changeE) (auto simp: matchesIfMatch_def intro: bc_create)

lemma effect_again:
  assumes "book_of i s = Inr (sc, bid, b)"
    and "contact_effect digest (JObj [(''scope'', scope_js sc), (''addressBookId'', JStr bid), (''href'', h), (''ifNoneMatch'', n), (''vCard'', v)])
      logged s s'"
  shows "contact_effect digest i logged s s'"
  using assms book_again [OF assms(1)] create_only unfolding contact_effect_def by fastforce

lemma put_effect: "contact_effect digest i (is_ok (clock_iso clk2)) s (snd (putContact digest clk1 clk2 i s))"
  unfolding putContact_def store_contact_def in_book_def
  by (intro card_peel; (rule effect_same)?; (simp only: snd_conv bindS_snd effect_same)?;
    (rule effect_again, assumption, rule create_effect)?;
    (rule effect_recorded, assumption, rule record_change_recorded, rule bc_update)?; (erule update_found)?; simp)

subsection \<open>The invariant\<close>

lemma findUid_None: "findUid b u = None \<longleftrightarrow> (\<forall>p\<in>set (ab_contacts b). cc_uid (snd p) \<noteq> u)"
  by (auto simp: findUid_def find_None_iff)

lemma book_change_ok: "book_change digest i logged b b' \<Longrightarrow> book_ok digest b \<Longrightarrow> book_ok digest b'"
proof (induction rule: book_change.induct)
  case (bc_create b c digest logged l i t)
  then show ?case
    by (auto simp: book_ok_def findUid_None sorted_wrt_append less_Suc_eq_le intro: le_SucI split: if_splits)
next
  case (bc_update b c old digest i logged l t)
  then show ?case
    by (auto simp: book_ok_def sorted_wrt_append less_Suc_eq_le intro: le_SucI split: if_splits)
next
  case (bc_delete b h old i logged l t digest)
  then show ?case
    by (auto simp: book_ok_def sorted_wrt_append less_Suc_eq_le intro: le_SucI split: if_splits)
qed

text \<open>A store call leaves a book alone, changes it, creates it empty or deletes it.\<close>

definition names_book :: "jsval \<Rightarrow> string \<Rightarrow> bool" where
  "names_book i k \<longleftrightarrow> (\<exists>sc bid. normalizeScope (jget i ''scope'') = Inr sc \<and> normalizeAddressBookId (jget i ''addressBookId'') = Inr bid
     \<and> k = keyFor sc bid)"

lemma book_of_names: "book_of i s = Inr (sc, bid, b) \<Longrightarrow> names_book i (keyFor sc bid)"
  by (auto simp: book_of_def getState_def names_book_def split: option.split_asm)

definition empty_book :: "address_book \<Rightarrow> bool" where
  "empty_book b \<longleftrightarrow> ab_revision b = 0 \<and> ab_contacts b = [] \<and> ab_changes b = []"

definition book_created :: "jsval \<Rightarrow> card_store \<Rightarrow> card_store \<Rightarrow> bool" where
  "book_created i s s' \<longleftrightarrow> s' = s \<or> (\<exists>k b. names_book i k \<and> map_of s k = None \<and> empty_book b \<and> s' = AList.update k b s)"

lemma create_book_effect: "book_created i s (snd (createAddressBook digest clk i s))"
proof -
  have same: "book_created i s s" by (simp add: book_created_def)
  have new: "normalizeScope (jget i ''scope'') = Inr sc \<Longrightarrow> normalizeAddressBookId (jget i ''addressBookId'') = Inr bid \<Longrightarrow>
      \<not> map_of s (keyFor sc bid) \<noteq> None \<Longrightarrow> empty_book b \<Longrightarrow> book_created i s (AList.update (keyFor sc bid) b s)" for sc bid b
    unfolding book_created_def names_book_def by (intro disjI2 exI [of _ "keyFor sc bid"] exI [of _ b]) auto
  show ?thesis
    unfolding createAddressBook_def Let_def
    by (intro snd_liftE [where P = "book_created i s"] snd_if [where P = "book_created i s"]; (simp only: snd_conv)?;
      (rule same | (rule new, assumption, assumption, assumption, simp add: empty_book_def)))
qed

lemma delete_book_cases:
  obtains "snd (deleteAddressBook digest i s) = s" | k where "names_book i k" "snd (deleteAddressBook digest i s) = AList.delete k s"
proof -
  have "snd (deleteAddressBook digest i s) = s \<or> (\<exists>k. names_book i k \<and> snd (deleteAddressBook digest i s) = AList.delete k s)"
    unfolding deleteAddressBook_def liftE_def by (auto dest: book_of_names split: sum.splits)
  then show thesis using that by blast
qed

lemma call_cases:
  assumes "card_store_ok digest s"
  shows "map_of (card_run digest c s) k = map_of s k \<or> names_book (card_input c) k \<and> (
      (\<exists>b b'. map_of s k = Some b \<and> map_of (card_run digest c s) k = Some b' \<and> book_change digest (card_input c) (log_clock_ok c) b b')
    \<or> (\<exists>clk i b. c = CreateBook clk i \<and> map_of s k = None \<and> map_of (card_run digest c s) k = Some b \<and> empty_book b)
    \<or> (\<exists>i. c = DeleteBook i \<and> map_of (card_run digest c s) k = None))"
proof -
  have contact: "map_of s' k = map_of s k \<or> names_book i k \<and> (\<exists>b b'. map_of s k = Some b \<and> map_of s' k = Some b' \<and> book_change digest i logged b b')"
    if "contact_effect digest i logged s s'" for i logged s'
    using that unfolding contact_effect_def
  proof (elim disjE exE conjE)
    fix sc bid b b'
    assume "book_of i s = Inr (sc, bid, b)" and "s' = AList.update (keyFor sc bid) b' s" and "book_change digest i logged b b'"
    then show ?thesis by (cases "k = keyFor sc bid") (auto dest: book_of_names book_of_stored)
  qed simp
  show ?thesis
  proof (cases c)
    case (CreateBook clk i)
    then show ?thesis using create_book_effect [of i s digest clk] by (auto simp: book_created_def split: if_splits)
  next
    case (DeleteBook i)
    show ?thesis by (rule delete_book_cases [of digest i s]) (auto simp: DeleteBook)
  next
    case (CreateContact clk1 clk2 i)
    then have "contact_effect digest i (is_ok (clock_iso clk2)) s (card_run digest c s)" by (simp add: create_effect)
    from contact [OF this] show ?thesis by (auto simp: CreateContact)
  next
    case (PutContact clk1 clk2 i)
    then have "contact_effect digest i (is_ok (clock_iso clk2)) s (card_run digest c s)" by (simp add: put_effect)
    from contact [OF this] show ?thesis by (auto simp: PutContact)
  next
    case (DeleteContact clk i)
    then have "contact_effect digest i (is_ok (clock_iso clk)) s (card_run digest c s)" by (simp add: delete_effect [OF assms])
    from contact [OF this] show ?thesis by (auto simp: DeleteContact)
  qed
qed

lemma empty_book_ok: "empty_book b \<Longrightarrow> book_ok digest b"
  by (simp add: empty_book_def book_ok_def)

lemma card_store_ok_run:
  assumes "card_store_ok digest s"
  shows "card_store_ok digest (card_run digest c s)"
  unfolding card_store_ok_def
proof (intro allI impI)
  fix k b
  assume "map_of (card_run digest c s) k = Some b"
  with call_cases [OF assms, of c k] show "book_ok digest b"
    using assms by (auto simp: card_store_ok_def intro: book_change_ok empty_book_ok)
qed

lemma card_store_ok_runs: "card_store_ok digest s \<Longrightarrow> card_store_ok digest (card_runs digest cs s)"
  by (induction digest cs s rule: card_runs.induct) (simp_all add: card_store_ok_run)

text \<open> In every reachable store the contacts of a book are filed under their own names with distinct UIDs and the ETag of their content, and the log has rising versions up to the revision.\<close>

theorem address_books_ok: "card_store_ok digest (card_runs digest cs [])"
  by (rule card_store_ok_runs) (simp add: card_store_ok_def)
subsection \<open>Synchronisation\<close>

text \<open>The contents of a book as a client sees them, the ETag of each contact, and its log.\<close>

definition book_content :: "address_book \<Rightarrow> string \<Rightarrow> string option" where
  "book_content b h = map_option cc_etag (map_of (ab_contacts b) h)"

definition change_entry :: "card_change \<Rightarrow> string log_entry" where
  "change_entry c = (ch_version c, ch_href c, ch_etag c)"

definition book_log :: "address_book \<Rightarrow> string log_entry list" where
  "book_log b = map change_entry (ab_changes b)"

definition book_step :: "(string \<Rightarrow> string) \<Rightarrow> address_book \<Rightarrow> address_book \<Rightarrow> bool" where
  "book_step digest b b' \<longleftrightarrow> (\<exists>i. book_change digest i True b b')"

lemma book_step_logged:
  assumes "book_change digest i logged b b'" and "logged"
  shows "\<exists>es. book_log b' = book_log b @ es \<and> book_content b' = apply_log es (book_content b) \<and> (\<forall>e\<in>set es. ab_revision b < fst e)
    \<and> sorted (map fst es)"
  using assms
proof (induction rule: book_change.induct)
  case (bc_create b c digest logged l i t)
  then obtain x u where "l = ab_changes b @ [\<lparr>ch_version = Suc (ab_revision b), ch_operation = x, ch_href = cc_href c, ch_uid = u,
      ch_etag = Some (cc_etag c)\<rparr>]" by auto
  then show ?case
    by (intro exI [of _ "[(Suc (ab_revision b), cc_href c, Some (cc_etag c))]"]) (auto simp: book_log_def book_content_def change_entry_def)
next
  case (bc_update b c old digest i logged l t)
  then obtain x u where "l = ab_changes b @ [\<lparr>ch_version = Suc (ab_revision b), ch_operation = x, ch_href = cc_href c, ch_uid = u,
      ch_etag = Some (cc_etag c)\<rparr>]" by auto
  then show ?case
    by (intro exI [of _ "[(Suc (ab_revision b), cc_href c, Some (cc_etag c))]"]) (auto simp: book_log_def book_content_def change_entry_def)
next
  case (bc_delete b h old i logged l t digest)
  then obtain x u where "l = ab_changes b @ [\<lparr>ch_version = Suc (ab_revision b), ch_operation = x, ch_href = h, ch_uid = u,
      ch_etag = None\<rparr>]" by auto
  then show ?case
    by (intro exI [of _ "[(Suc (ab_revision b), h, None)]"]) (auto simp: book_log_def book_content_def change_entry_def)
qed

lemma book_change_revision: "book_change digest i logged b b' \<Longrightarrow> ab_revision b' = Suc (ab_revision b)"
  by (erule book_changeE) auto

interpretation book_sync: change_log "book_ok digest" "book_step digest" ab_revision book_log book_content for digest
proof
  fix s t
  assume "book_ok digest s" "book_step digest s t"
  then show "book_ok digest t" by (auto simp: book_step_def intro: book_change_ok)
next
  fix s e
  assume "book_ok digest s" "e \<in> set (book_log s)"
  then show "fst e \<le> ab_revision s" by (auto simp: book_ok_def book_log_def change_entry_def)
next
  fix s t
  assume "book_step digest s t"
  then obtain i where i: "book_change digest i True s t" by (auto simp: book_step_def)
  from book_step_logged [OF i] book_change_revision [OF i] show "ab_revision s \<le> ab_revision t
      \<and> (\<exists>es. book_log t = book_log s @ es \<and> book_content t = apply_log es (book_content s) \<and> (\<forall>e\<in>set es. ab_revision s < fst e)
      \<and> sorted (map fst es))"
    by auto
qed

text \<open>A history in which the log is kept: the clock works while a change is logged, and nobody deletes the book.\<close>

fun deletes_book :: "string \<Rightarrow> card_call \<Rightarrow> bool" where
  "deletes_book k (DeleteBook i) = names_book i k"
| "deletes_book k _ = False"

lemma book_evolves:
  assumes "card_store_ok digest s" and "\<forall>c\<in>set cs. log_clock_ok c \<and> \<not> deletes_book k c" and "map_of s k = Some b"
  shows "\<exists>b'. map_of (card_runs digest cs s) k = Some b' \<and> (book_step digest)\<^sup>*\<^sup>* b b'"
  using assms
proof (induction digest cs s arbitrary: b rule: card_runs.induct)
  case (1 digest s)
  then show ?case by auto
next
  case (2 digest c cs s)
  from call_cases [OF 2(2), of c k] 2(3,4) have "map_of (card_run digest c s) k = Some b
      \<or> (\<exists>b'. map_of (card_run digest c s) k = Some b' \<and> book_step digest b b')"
    by (auto simp: book_step_def)
  then obtain b' where b': "map_of (card_run digest c s) k = Some b'" "(book_step digest)\<^sup>*\<^sup>* b b'" by blast
  from 2(1) [OF card_store_ok_run [OF 2(2)] _ b'(1)] 2(3) b'(2) show ?case by (auto intro: rtranclp_trans)
qed

lemma match_made_token:
  assumes "length f = 22" and "list_all token_char f" and "v \<noteq> []" and "list_all is_digit v"
  shows "match_token (CARD_DAV_SYNC_TOKEN_PREFIX @ f @ '':'' @ v) = Some (f, v)"
proof -
  have p: "length CARD_DAV_SYNC_TOKEN_PREFIX = 24" by (simp add: CARD_DAV_SYNC_TOKEN_PREFIX_def)
  then show ?thesis using assms by (simp add: match_token_def Let_def)
qed

lemma parse_made_token:
  assumes "\<forall>x. 22 \<le> length (digest x) \<and> list_all token_char (digest x)" and "int n \<le> max_safe"
  shows "parseSyncToken digest (JStr (makeSyncToken digest sc b n)) sc b = Inr n"
proof -
  have f: "length (scopeFingerprint digest sc b) = 22" "list_all token_char (scopeFingerprint digest sc b)"
    using assms(1) by (auto simp: scopeFingerprint_def list_all_iff dest: in_set_takeD)
  have "dec n \<noteq> []" by (subst dec.simps) simp
  from match_made_token [OF f this dec_digits] assms(2) show ?thesis
    by (simp add: parseSyncToken_def makeSyncToken_def is_safe_int_def max_safe_def)
qed

text \<open>C33  A client that holds the contents of an address book at some version and its token gets, after any calls of anybody that keep the book and log their changes, exactly the changes that turn its copy into the present contents, and the token of those.\<close>

theorem sync_brings_copy_up_to_date:
  assumes digest: "\<forall>x. 22 \<le> length (digest x) \<and> list_all token_char (digest x)"
    and ok: "card_store_ok digest s" and before: "map_of s (keyFor sc bid) = Some b" "int (ab_revision b) \<le> max_safe"
    and history: "\<forall>c\<in>set cs. log_clock_ok c \<and> \<not> deletes_book (keyFor sc bid) c"
    and scope: "normalizeScope (jget i ''scope'') = Inr sc" "normalizeAddressBookId (jget i ''addressBookId'') = Inr bid"
    and token: "jget i ''syncToken'' = JStr (makeSyncToken digest sc bid (ab_revision b))"
  shows "\<exists>v b'. syncCollection digest loc i (card_runs digest cs s) = Inr v \<and> map_of (card_runs digest cs s) (keyFor sc bid) = Some b'
    \<and> apply_log (map change_entry (sy_changes v)) (book_content b) = book_content b'
    \<and> sy_syncToken v = makeSyncToken digest sc bid (ab_revision b')"
proof -
  obtain b' where b': "map_of (card_runs digest cs s) (keyFor sc bid) = Some b'" and steps: "(book_step digest)\<^sup>*\<^sup>* b b'"
    using book_evolves [OF ok history before(1)] by blast
  have bok: "book_ok digest b" using ok before(1) by (simp add: card_store_ok_def)
  have le: "ab_revision b \<le> ab_revision b'" by (rule book_sync.steps_revision [OF steps bok])
  have log: "map change_entry (filter (\<lambda>c. ab_revision b < ch_version c) (ab_changes b')) = since (ab_revision b) (book_log b')"
    by (simp add: since_def book_log_def filter_map o_def change_entry_def)
  have sync: "apply_log (since (ab_revision b) (book_log b')) (book_content b) = book_content b'"
    by (rule book_sync.sync [OF steps bok])
  show ?thesis
    using scope token b' le parse_made_token [OF digest before(2)] sync
    by (simp add: syncCollection_def book_of_def getState_def Let_def nullish_def log)
qed
subsection \<open>Concurrent changes\<close>

lemma change_needs_match:
  assumes "book_change digest i logged b b'" and "map_of (ab_contacts b) h = Some old" and "map_of (ab_contacts b') h \<noteq> Some old"
  shows "matchesIfMatch (jget i ''ifMatch'') (cc_etag old)"
  using assms by (induction rule: book_change.induct) (auto split: if_splits)

text \<open> Whatever call changes or removes a stored contact names that book and carries an If-Match that matches the contact's current ETag, and an update keeps its UID.\<close>

theorem no_lost_update:
  assumes "card_store_ok digest s" and "map_of s k = Some b" and "map_of (ab_contacts b) h = Some old"
    and "map_of (card_run digest c s) k = Some b'" and "map_of (ab_contacts b') h \<noteq> Some old"
  shows "(\<exists>m. jget (card_input c) ''ifMatch'' = JStr m \<and> (m = ''*'' \<or> cc_etag old \<in> set (map trim (split_by (\<lambda>c. c = CHR '','') m))))
    \<and> names_book (card_input c) k
    \<and> (\<forall>new. map_of (ab_contacts b') h = Some new \<longrightarrow> cc_uid new = cc_uid old)"
proof -
  from call_cases [OF assms(1), of c k] assms(2,3,4,5) have "book_change digest (card_input c) (log_clock_ok c) b b'"
    and "names_book (card_input c) k" by auto
  moreover from this(1) assms(3) have "\<forall>new. map_of (ab_contacts b') h = Some new \<longrightarrow> cc_uid new = cc_uid old"
    by (induction rule: book_change.induct) (auto split: if_splits)
  moreover have "matchesIfMatch v e \<Longrightarrow> \<exists>m. v = JStr m \<and> (m = ''*'' \<or> e \<in> set (map trim (split_by (\<lambda>c. c = CHR '','') m)))" for v e
    by (auto simp: matchesIfMatch_def split: jsval.splits)
  ultimately show ?thesis using change_needs_match assms(3,5) by metis
qed

subsection \<open>Isolation of users\<close>

lemma normalizeScope_Inr: "normalizeScope v = Inr sc \<Longrightarrow> jget v ''tenantId'' = JStr (cs_tenantId sc) \<and> jget v ''userId'' = JStr (cs_userId sc)
    \<and> actor_id_ok (cs_tenantId sc) \<and> actor_id_ok (cs_userId sc)"
  by (auto simp: normalizeScope_def safe_text_def guard_iff)

lemma book_id_nul_free: "normalizeAddressBookId v = Inr bid \<Longrightarrow> nul_free bid"
  unfolding normalizeAddressBookId_def safe_text_def need_Inr by (elim conjE, erule head_tail_nul_free) code_simp+

lemma key_inject: "normalizeScope v = Inr sc \<Longrightarrow> normalizeScope w = Inr sc' \<Longrightarrow> normalizeAddressBookId x = Inr a \<Longrightarrow>
    normalizeAddressBookId y = Inr b \<Longrightarrow> keyFor sc a = keyFor sc' b \<Longrightarrow> sc = sc' \<and> a = b"
  using nul_join_inject [of "[cs_tenantId sc, cs_userId sc, a]" "[cs_tenantId sc', cs_userId sc', b]"]
  by (auto simp: keyFor_def dest!: normalizeScope_Inr book_id_nul_free actor_id_nul_free intro: card_scope.equality)

lemma names_key:
  assumes "names_book j (keyFor sc bid)" and "normalizeScope v = Inr sc" and "normalizeAddressBookId x = Inr bid"
  shows "jget (jget j ''scope'') ''tenantId'' = JStr (cs_tenantId sc) \<and> jget (jget j ''scope'') ''userId'' = JStr (cs_userId sc)"
proof -
  from assms(1) obtain sc' bid' where *: "normalizeScope (jget j ''scope'') = Inr sc'" "normalizeAddressBookId (jget j ''addressBookId'') = Inr bid'"
    "keyFor sc bid = keyFor sc' bid'" by (auto simp: names_book_def)
  from key_inject [OF assms(2) *(1) assms(3) *(2,3)] normalizeScope_Inr [OF *(1)] show ?thesis by simp
qed

text \<open>C34  What a user reads from an address book does not depend on any calls made in the scope of other users or tenants.\<close>

theorem card_users_are_isolated:
  assumes "card_store_ok digest s" and "normalizeScope (jget i ''scope'') = Inr sc"
    and "\<forall>c\<in>set cs. jget (jget (card_input c) ''scope'') ''tenantId'' \<noteq> JStr (cs_tenantId sc)
      \<or> jget (jget (card_input c) ''scope'') ''userId'' \<noteq> JStr (cs_userId sc)"
  shows "getContact i (card_runs digest cs s) = getContact i s \<and> getAddressBook digest i (card_runs digest cs s) = getAddressBook digest i s
    \<and> listContacts loc i (card_runs digest cs s) = listContacts loc i s
    \<and> syncCollection digest loc i (card_runs digest cs s) = syncCollection digest loc i s"
proof -
  have same: "map_of (card_runs digest cs s) (keyFor sc bid) = map_of s (keyFor sc bid)"
    if "normalizeAddressBookId (jget i ''addressBookId'') = Inr bid" for bid
    using assms(1,3)
  proof (induction digest cs s rule: card_runs.induct)
    case (2 digest c cs s)
    have "\<not> names_book (card_input c) (keyFor sc bid)"
      using 2(3) names_key [OF _ assms(2) that, of "card_input c"] by auto
    with call_cases [OF 2(2), of c "keyFor sc bid"] have "map_of (card_run digest c s) (keyFor sc bid) = map_of s (keyFor sc bid)" by blast
    with 2(1) [OF card_store_ok_run [OF 2(2)]] 2(3) show ?case by simp
  qed simp
  have "book_of i (card_runs digest cs s) = book_of i s"
    using assms(2) same by (cases "normalizeAddressBookId (jget i ''addressBookId'')") (simp_all add: book_of_def getState_def)
  then show ?thesis
    by (simp add: getContact_def requireContact_def getAddressBook_def listContacts_def syncCollection_def)
qed

subsection \<open>The theorems at a concrete store\<close>

definition exDigest :: "string \<Rightarrow> string" where
  "exDigest s = replicate 22 (CHR ''A'')"

definition exScope :: card_scope where
  "exScope = \<lparr>cs_tenantId = ''t'', cs_userId = ''u''\<rparr>"

definition exRequest :: "(string \<times> jsval) list \<Rightarrow> jsval" where
  "exRequest kvs = JObj ([(''scope'', scope_js exScope), (''addressBookId'', JStr ''b'')] @ kvs)"

definition exCalls :: "string \<Rightarrow> card_call list" where
  "exCalls href = [CreateBook (JInt 1) (exRequest [(''displayName'', JStr ''Book'')]),
     CreateContact (JInt 2) (JInt 2) (exRequest [(''href'', JStr href), (''ifNoneMatch'', JStr ''*''), (''vCard'', exampleCard ''A'')])]"

definition exDelete :: card_call where
  "exDelete = DeleteContact (JInt 3) (exRequest [(''href'', JStr ''a.vcf''), (''ifMatch'', JStr ''*'')])"

definition exSync :: jsval where
  "exSync = exRequest [(''syncToken'', JStr (makeSyncToken exDigest exScope ''b'' 1))]"

definition exStore :: card_store where
  "exStore = card_runs exDigest (exCalls ''a.vcf'') []"

lemma exDigest_ok: "\<forall>x. 22 \<le> length (exDigest x) \<and> list_all token_char (exDigest x)"
  by (simp add: exDigest_def list_all_iff token_char_def char_defs)

lemma exStore_ok: "card_store_ok exDigest exStore"
  unfolding exStore_def by (rule address_books_ok)

lemma exScope_ok: "normalizeScope (jget (exRequest kvs) ''scope'') = Inr exScope"
  "normalizeAddressBookId (jget (exRequest kvs) ''addressBookId'') = Inr ''b''"
  unfolding exRequest_def by code_simp+

lemma exStore_book: "map_option (\<lambda>b. (ab_revision b, map_option cc_uid (map_of (ab_contacts b) ''a.vcf''))) (map_of exStore (keyFor exScope ''b''))
    = Some (1, Some ''u1'')"
  by code_simp

lemma exStore_deleted: "map_option (\<lambda>b. map_option cc_uid (map_of (ab_contacts b) ''a.vcf'')) (map_of (card_run exDigest exDelete exStore) (keyFor exScope ''b''))
    = Some None"
  by code_simp

lemma exDelete_logs: "log_clock_ok exDelete"
  by code_simp

text \<open>A token outlives its book: a book deleted and created again takes it for one of its own versions.\<close>

lemma old_token_accepted: "(case syncCollection exDigest str_le exSync (card_runs exDigest (exCalls ''a.vcf'' @
    [DeleteBook (exRequest [(''ifMatch'', JStr ''*'')])] @ exCalls ''b.vcf'') []) of Inr v \<Rightarrow> sy_changes v = [] | Inl _ \<Rightarrow> False)"
  by code_simp

lemma new_book_differs: "map_option (\<lambda>b. (map_option cc_uid (map_of (ab_contacts b) ''a.vcf''), map_option cc_uid (map_of (ab_contacts b) ''b.vcf'')))
    (map_of (card_runs exDigest (exCalls ''a.vcf'' @ [DeleteBook (exRequest [(''ifMatch'', JStr ''*'')])] @ exCalls ''b.vcf'') [])
      (keyFor exScope ''b'')) = Some (None, Some ''u1'')"
  by code_simp

theorem address_books_ok_witness: "card_store_ok exDigest exStore \<and> map_of exStore (keyFor exScope ''b'') \<noteq> None"
  using address_books_ok [of exDigest "exCalls ''a.vcf''"] exStore_book by (auto simp: exStore_def)

theorem sync_brings_copy_up_to_date_witness:
  "\<exists>b v b'. map_of exStore (keyFor exScope ''b'') = Some b \<and> syncCollection exDigest str_le exSync (card_runs exDigest [exDelete] exStore) = Inr v
    \<and> apply_log (map change_entry (sy_changes v)) (book_content b) = book_content b' \<and> book_content b ''a.vcf'' \<noteq> None \<and> book_content b' ''a.vcf'' = None"
proof -
  obtain b where b: "map_of exStore (keyFor exScope ''b'') = Some b" and r: "ab_revision b = 1" "book_content b ''a.vcf'' \<noteq> None"
    using exStore_book by (auto simp: book_content_def)
  have i: "normalizeScope (jget exSync ''scope'') = Inr exScope" "normalizeAddressBookId (jget exSync ''addressBookId'') = Inr ''b''"
    unfolding exSync_def by (rule exScope_ok)+
  have safe: "int (ab_revision b) \<le> max_safe" by (simp add: r max_safe_def)
  have h: "\<forall>c\<in>set [exDelete]. log_clock_ok c \<and> \<not> deletes_book (keyFor exScope ''b'') c"
    using exDelete_logs by (simp add: exDelete_def)
  have t: "jget exSync ''syncToken'' = JStr (makeSyncToken exDigest exScope ''b'' (ab_revision b))"
    by (simp add: exSync_def exRequest_def r)
  from sync_brings_copy_up_to_date [OF exDigest_ok exStore_ok b safe h i t, of str_le] obtain v b' where
    v: "syncCollection exDigest str_le exSync (card_runs exDigest [exDelete] exStore) = Inr v"
      "map_of (card_runs exDigest [exDelete] exStore) (keyFor exScope ''b'') = Some b'"
      "apply_log (map change_entry (sy_changes v)) (book_content b) = book_content b'" by blast
  moreover have "book_content b' ''a.vcf'' = None" using exStore_deleted v(2) by (auto simp: book_content_def)
  ultimately show ?thesis using b r(2) by blast
qed

theorem no_lost_update_witness:
  "(\<exists>m. jget (card_input exDelete) ''ifMatch'' = JStr m) \<and> names_book (card_input exDelete) (keyFor exScope ''b'')"
proof -
  obtain b old where b: "map_of exStore (keyFor exScope ''b'') = Some b" and o1: "map_of (ab_contacts b) ''a.vcf'' = Some old"
    using exStore_book by auto
  obtain b' where b': "map_of (card_run exDigest exDelete exStore) (keyFor exScope ''b'') = Some b'"
    and n: "map_of (ab_contacts b') ''a.vcf'' \<noteq> Some old"
    using exStore_deleted by auto
  from no_lost_update [OF exStore_ok b o1 b' n] show ?thesis by blast
qed

definition exOther :: card_call where
  "exOther = CreateBook (JInt 9) (JObj [(''scope'', scope_js \<lparr>cs_tenantId = ''t'', cs_userId = ''w''\<rparr>), (''addressBookId'', JStr ''b''),
     (''displayName'', JStr ''Other'')])"

theorem card_users_are_isolated_witness:
  "getContact (exRequest [(''href'', JStr ''a.vcf'')]) (card_runs exDigest [exOther] exStore) = getContact (exRequest [(''href'', JStr ''a.vcf'')]) exStore"
proof -
  have "\<forall>c\<in>set [exOther]. jget (jget (card_input c) ''scope'') ''tenantId'' \<noteq> JStr (cs_tenantId exScope)
      \<or> jget (jget (card_input c) ''scope'') ''userId'' \<noteq> JStr (cs_userId exScope)"
    by (simp add: exOther_def exScope_def scope_js_def)
  from card_users_are_isolated [OF exStore_ok exScope_ok(1) this] show ?thesis by blast
qed

end
