(* ===== verification/ICalendar.thy ===== *)
theory ICalendar
  imports Text_Lines
begin

section \<open>iCalendar objects\<close>

text \<open>
  The parser of \<open>src/core/dav/caldav/caldav-contract.ts\<close>: lines, properties with their parameters, the
  stack of open components, and the checks on the one event of a calendar object.  The code puts a
  component among the children of its parent when it begins, the model when it ends; the order of the
  children is the same and no unfinished tree is ever looked at.  A sequence number is kept exact where
  the code rounds it to a double.
\<close>

definition calDavError :: "string \<Rightarrow> nat \<Rightarrow> err" where
  "calDavError code status = Err CalDavErr code status"

abbreviation invalidICal :: err where
  "invalidICal \<equiv> calDavError ''INVALID_ICALENDAR'' 422"

definition MAX_ICALENDAR_BYTES :: int where "MAX_ICALENDAR_BYTES = 1048576"
definition MAX_ICALENDAR_LINES :: int where "MAX_ICALENDAR_LINES = 10000"
definition MAX_ICALENDAR_LINE_LENGTH :: int where "MAX_ICALENDAR_LINE_LENGTH = 8192"
definition MAX_COMPONENT_COUNT :: int where "MAX_COMPONENT_COUNT = 256"
definition MAX_COMPONENT_DEPTH :: int where "MAX_COMPONENT_DEPTH = 4"

subsection \<open>Lines\<close>

fun crlf_to_lf :: "string \<Rightarrow> string" where \<comment> \<open>\<open>replaceAll('\r\n', '\n')\<close>\<close>
  "crlf_to_lf [] = []"
| "crlf_to_lf [c] = [c]"
| "crlf_to_lf (c # d # s) = (if c = CR \<and> d = LF then LF # crlf_to_lf s else c # crlf_to_lf (d # s))"

definition ical_control :: "char \<Rightarrow> bool" where
  "ical_control c \<longleftrightarrow> ccode c < 9 \<or> ccode c = 11 \<or> ccode c = 12 \<or> (14 \<le> ccode c \<and> ccode c \<le> 31) \<or> ccode c = 127"

definition continuation :: "string \<Rightarrow> bool" where
  "continuation l \<longleftrightarrow> (case l of [] \<Rightarrow> False | c # _ \<Rightarrow> c = CHR '' '' \<or> ccode c = 9)"

fun unfold_ical :: "string list \<Rightarrow> string list \<Rightarrow> string list res" where
  "unfold_ical acc [] = Inr (rev acc)"
| "unfold_ical acc (l # ls) =
     (if continuation l then (case acc of [] \<Rightarrow> Inl invalidICal | d # ds \<Rightarrow> unfold_ical ((d @ tl l) # ds) ls)
      else unfold_ical (l # acc) ls)"

definition raw_lines :: "string \<Rightarrow> string list" where
  "raw_lines s = (let ls = split_by (\<lambda>c. c = LF) (crlf_to_lf s) in if last ls = [] then butlast ls else ls)"

definition canonicalLineEndings :: "jsval \<Rightarrow> (string list \<times> string) res" where
  "canonicalLineEndings v = bindE (need_str (\<lambda>s. s \<noteq> []) invalidICal v) (\<lambda>s.
     if MAX_ICALENDAR_BYTES < int (byte_length s) then Inl (calDavError ''ICALENDAR_TOO_LARGE'' 413)
     else if CR \<in> set s \<and> \<not> contains_str CRLF s then Inl invalidICal
     else let lines = raw_lines s in
       if MAX_ICALENDAR_LINES < int (length lines) then Inl (calDavError ''ICALENDAR_TOO_LARGE'' 413)
       else if list_ex (\<lambda>l. MAX_ICALENDAR_LINE_LENGTH < int (length l)) lines then Inl (calDavError ''ICALENDAR_TOO_LARGE'' 413)
       else if list_ex (list_ex ical_control) lines then Inl invalidICal
       else if lines = [] then Inl invalidICal
       else bindE (unfold_ical [] lines) (\<lambda>ls. Inr (ls, join_crlf ls @ CRLF)))"

subsection \<open>Properties\<close>

record ical_property =
  ip_name :: string
  ip_value :: string
  ip_parameters :: "(string \<times> string) list"

definition ical_name :: "string \<Rightarrow> bool" where \<comment> \<open>\<open>^[A-Z][A-Z0-9-]*$\<close>\<close>
  "ical_name s \<longleftrightarrow> (case s of [] \<Rightarrow> False | c # cs \<Rightarrow> is_upper c \<and> list_all (\<lambda>c. is_upper c \<or> is_digit c \<or> c = CHR ''-'') cs)"

text \<open>A text cut at the first occurrence of a character, if it does not begin with it.\<close>

definition cut_first :: "char \<Rightarrow> string \<Rightarrow> (string \<times> string) option" where
  "cut_first x s = (let a = takeWhile (\<lambda>c. c \<noteq> x) s in if x \<notin> set s \<or> a = [] then None else Some (a, drop (Suc (length a)) s))"

definition unquote :: "string \<Rightarrow> string res" where
  "unquote v = (let q = CHR 0x22 in
     if v = [] then Inl invalidICal
     else if hd v = q \<or> last v = q then (if hd v = q \<and> last v = q then Inr (butlast (tl v)) else Inl invalidICal)
     else Inr v)"

fun ical_parameters :: "string list \<Rightarrow> (string \<times> string) list \<Rightarrow> (string \<times> string) list res" where
  "ical_parameters [] m = Inr m"
| "ical_parameters (p # ps) m = (case cut_first (CHR ''='') p of
       None \<Rightarrow> Inl invalidICal
     | Some (k, v) \<Rightarrow> if \<not> ical_name (upper k) then Inl invalidICal
         else bindE (unquote v) (\<lambda>w. ical_parameters ps (AList.update (upper k) w m)))"

definition parseProperty :: "string \<Rightarrow> ical_property res" where
  "parseProperty line = (case cut_first (CHR '':'') line of
       None \<Rightarrow> Inl invalidICal
     | Some (head, value) \<Rightarrow> (let parts = split_by (\<lambda>c. c = CHR '';'') head; name = upper (hd parts) in
         if \<not> ical_name name then Inl invalidICal
         else bindE (ical_parameters (tl parts) []) (\<lambda>ps. Inr \<lparr>ip_name = name, ip_value = value, ip_parameters = ps\<rparr>)))"

definition param :: "ical_property \<Rightarrow> string \<Rightarrow> string option" where
  "param p k = map_of (ip_parameters p) k"

definition truthy_param :: "ical_property \<Rightarrow> string \<Rightarrow> string option" where
  "truthy_param p k = (case param p k of Some v \<Rightarrow> if v = [] then None else Some v | None \<Rightarrow> None)"

subsection \<open>Components\<close>

datatype ical_component = Component (co_name: string) (co_properties: "ical_property list") (co_children: "ical_component list")

definition SUPPORTED_COMPONENTS :: "string list" where
  "SUPPORTED_COMPONENTS = [''VCALENDAR'', ''VEVENT'', ''VTIMEZONE'', ''STANDARD'', ''DAYLIGHT'', ''VALARM'']"

definition component_char :: "char \<Rightarrow> bool" where
  "component_char c \<longleftrightarrow> is_alnum c \<or> c = CHR ''-''"

definition boundary :: "string \<Rightarrow> string \<Rightarrow> string option" where \<comment> \<open>\<open>^BEGIN:([A-Za-z0-9-]+)$\<close>, the same for \<open>END:\<close>\<close>
  "boundary p line = (let n = drop (length p) line in
     if starts_with p line \<and> n \<noteq> [] \<and> list_all component_char n then Some (upper n) else None)"

text \<open>Which components the code lets begin inside which.\<close>

definition may_nest :: "string \<Rightarrow> string \<Rightarrow> bool" where
  "may_nest parent name \<longleftrightarrow>
     (parent = ''VCALENDAR'' \<longrightarrow> name = ''VEVENT'' \<or> name = ''VTIMEZONE'')
   \<and> (parent = ''VTIMEZONE'' \<longrightarrow> name = ''STANDARD'' \<or> name = ''DAYLIGHT'')
   \<and> (parent = ''VEVENT'' \<longrightarrow> name = ''VALARM'') \<and> parent \<noteq> ''VALARM''"

text \<open>The stack of open components, the innermost first, the closed root and the number begun.\<close>

record parse_state =
  ps_stack :: "ical_component list"
  ps_root :: "ical_component option"
  ps_count :: int

definition begin_component :: "string \<Rightarrow> parse_state \<Rightarrow> parse_state res" where
  "begin_component name s =
     (if name \<notin> set SUPPORTED_COMPONENTS then Inl (calDavError ''UNSUPPORTED_COMPONENT'' 422)
      else if MAX_COMPONENT_COUNT < ps_count s + 1 then Inl (calDavError ''ICALENDAR_TOO_LARGE'' 413)
      else if MAX_COMPONENT_DEPTH \<le> int (length (ps_stack s)) then Inl (calDavError ''ICALENDAR_TOO_LARGE'' 413)
      else let ok = Inr (s\<lparr>ps_stack := Component name [] [] # ps_stack s, ps_count := ps_count s + 1\<rparr>) in
        (case ps_stack s of
          [] \<Rightarrow> if ps_root s \<noteq> None \<or> name \<noteq> ''VCALENDAR'' then Inl invalidICal else ok
        | parent # _ \<Rightarrow> if may_nest (co_name parent) name then ok else Inl invalidICal))"

definition end_component :: "string \<Rightarrow> parse_state \<Rightarrow> parse_state res" where
  "end_component name s = (case ps_stack s of
       [] \<Rightarrow> Inl invalidICal
     | c # st \<Rightarrow> if co_name c \<noteq> name then Inl invalidICal
         else (case st of [] \<Rightarrow> Inr (s\<lparr>ps_stack := [], ps_root := Some c\<rparr>)
           | Component n ps ch # st' \<Rightarrow> Inr (s\<lparr>ps_stack := Component n ps (ch @ [c]) # st'\<rparr>)))"

definition add_property :: "string \<Rightarrow> parse_state \<Rightarrow> parse_state res" where
  "add_property line s = (case ps_stack s of
       [] \<Rightarrow> Inl invalidICal
     | Component n ps ch # st \<Rightarrow> bindE (parseProperty line) (\<lambda>p. Inr (s\<lparr>ps_stack := Component n (ps @ [p]) ch # st\<rparr>)))"

definition component_line :: "string \<Rightarrow> parse_state \<Rightarrow> parse_state res" where
  "component_line line s = (case boundary ''BEGIN:'' line of
       Some n \<Rightarrow> begin_component n s
     | None \<Rightarrow> (case boundary ''END:'' line of Some n \<Rightarrow> end_component n s | None \<Rightarrow> add_property line s))"

fun component_loop :: "string list \<Rightarrow> parse_state \<Rightarrow> parse_state res" where
  "component_loop [] s = Inr s"
| "component_loop (l # ls) s = bindE (component_line l s) (component_loop ls)"

definition component_tree :: "string list \<Rightarrow> ical_component res" where
  "component_tree lines = bindE (component_loop lines \<lparr>ps_stack = [], ps_root = None, ps_count = 0\<rparr>) (\<lambda>s.
     case ps_root s of None \<Rightarrow> Inl invalidICal
     | Some root \<Rightarrow> if ps_stack s \<noteq> [] \<or> co_name root \<noteq> ''VCALENDAR'' then Inl invalidICal else Inr root)"

definition parseCalendarComponents :: "jsval \<Rightarrow> (ical_component \<times> string) res" where
  "parseCalendarComponents v = bindE (canonicalLineEndings v) (\<lambda>(lines, canonical).
     bindE (component_tree lines) (\<lambda>root. Inr (root, canonical)))"

subsection \<open>The event\<close>

record calendar_date =
  cd_value :: string
  cd_is_date :: bool
  cd_timeZone :: "string option"

record calendar_address =
  ca_address :: string
  ca_commonName :: "string option"
  ca_role :: string
  ca_partStat :: string

record ical_metadata =
  im_uid :: string
  im_summary :: string
  im_description :: string
  im_dtStart :: "calendar_date option"
  im_dtEnd :: "calendar_date option"
  im_duration :: "string option"
  im_timeZoneIds :: "string list"
  im_organizer :: "calendar_address option"
  im_attendees :: "calendar_address list"
  im_method :: "string option"
  im_sequence :: nat
  im_canonicalText :: string

definition properties_of :: "ical_component \<Rightarrow> string \<Rightarrow> ical_property list" where
  "properties_of c n = filter (\<lambda>p. ip_name p = n) (co_properties c)"

definition oneProperty :: "ical_component \<Rightarrow> string \<Rightarrow> bool \<Rightarrow> ical_property option res" where
  "oneProperty c n required = (case properties_of c n of
       [] \<Rightarrow> if required then Inl invalidICal else Inr None
     | [p] \<Rightarrow> Inr (Some p)
     | _ \<Rightarrow> Inl invalidICal)"

fun replace_pair :: "char \<Rightarrow> char \<Rightarrow> char \<Rightarrow> string \<Rightarrow> string" where
  "replace_pair a b r [] = []"
| "replace_pair a b r [c] = [c]"
| "replace_pair a b r (c # d # s) = (if c = a \<and> d = b then r # replace_pair a b r s else c # replace_pair a b r (d # s))"

definition unescapeText :: "string \<Rightarrow> string" where
  "unescapeText s = (let q = CHR 0x5C in
     replace_pair q q q (replace_pair q (CHR '';'') (CHR '';'') (replace_pair q (CHR '','') (CHR '','')
       (replace_pair q (CHR ''n'') LF (replace_pair q (CHR ''N'') LF s)))))"

definition tzid_ok :: "string \<Rightarrow> bool" where
  "tzid_ok s \<longleftrightarrow> head_tail is_alnum (\<lambda>c. is_alnum c \<or> one_of ''._+/-'' c) 127 s"

definition assertTzid :: "string \<Rightarrow> string res" where
  "assertTzid s = (if tzid_ok s then Inr s else Inl (calDavError ''INVALID_TIMEZONE'' 422))"

definition digits :: "nat \<Rightarrow> string \<Rightarrow> bool" where
  "digits n s \<longleftrightarrow> length s = n \<and> list_all is_digit s"

definition date_time_ok :: "string \<Rightarrow> bool" where \<comment> \<open>\<open>^\d{8}T\d{6}(Z)?$\<close>\<close>
  "date_time_ok s \<longleftrightarrow> digits 8 (take 8 s) \<and> take 1 (drop 8 s) = ''T'' \<and> digits 6 (take 6 (drop 9 s))
     \<and> (drop 15 s = [] \<or> drop 15 s = ''Z'')"

definition assertDateValue :: "ical_property option \<Rightarrow> calendar_date option res" where
  "assertDateValue po = (case po of None \<Rightarrow> Inr None
     | Some p \<Rightarrow>
         if map_option upper (param p ''VALUE'') = Some ''DATE'' then
           (if truthy_param p ''TZID'' \<noteq> None then Inl (calDavError ''INVALID_TIMEZONE'' 422)
            else if \<not> digits 8 (ip_value p) then Inl invalidICal
            else Inr (Some \<lparr>cd_value = ip_value p, cd_is_date = True, cd_timeZone = None\<rparr>))
         else if \<not> date_time_ok (ip_value p) then Inl invalidICal
         else let utc = ends_with ''Z'' (ip_value p) in
           if utc \<and> truthy_param p ''TZID'' \<noteq> None then Inl invalidICal
           else (case (case param p ''TZID'' of Some z \<Rightarrow> Some z | None \<Rightarrow> if utc then Some ''UTC'' else None) of
               None \<Rightarrow> Inr (Some \<lparr>cd_value = ip_value p, cd_is_date = False, cd_timeZone = None\<rparr>)
             | Some z \<Rightarrow> bindE (assertTzid z) (\<lambda>z. Inr (Some \<lparr>cd_value = ip_value p, cd_is_date = False, cd_timeZone = Some z\<rparr>))))"

definition mail_char :: "char \<Rightarrow> bool" where
  "mail_char c \<longleftrightarrow> \<not> is_space c \<and> \<not> one_of ''<>@'' c"

definition mailto_ok :: "string \<Rightarrow> bool" where \<comment> \<open>\<open>^mailto:[^\s<>@]+@[^\s<>@]+$\<close>, ignoring case\<close>
  "mailto_ok s \<longleftrightarrow> lower (take 7 s) = ''mailto:'' \<and> (case split_by (\<lambda>c. c = CHR ''@'') (drop 7 s) of
       [a, b] \<Rightarrow> a \<noteq> [] \<and> b \<noteq> [] \<and> list_all mail_char a \<and> list_all mail_char b | _ \<Rightarrow> False)"

definition ATTENDEE_ROLES :: "string list" where
  "ATTENDEE_ROLES = [''CHAIR'', ''REQ-PARTICIPANT'', ''OPT-PARTICIPANT'', ''NON-PARTICIPANT'']"

definition ATTENDEE_PARTSTAT :: "string list" where
  "ATTENDEE_PARTSTAT = [''NEEDS-ACTION'', ''ACCEPTED'', ''DECLINED'', ''TENTATIVE'', ''DELEGATED'', ''COMPLETED'', ''IN-PROCESS'']"

definition parseAddress :: "ical_property \<Rightarrow> calendar_address res" where
  "parseAddress p = (let bad = Inl (calDavError ''INVALID_ATTENDEE'' 422);
       role = map_option upper (param p ''ROLE''); stat = map_option upper (param p ''PARTSTAT'') in
     if \<not> mailto_ok (ip_value p) then bad
     else if (case role of None \<Rightarrow> False | Some r \<Rightarrow> r \<notin> set ATTENDEE_ROLES) then bad
     else if (case stat of None \<Rightarrow> False | Some r \<Rightarrow> r \<notin> set ATTENDEE_PARTSTAT) then bad
     else Inr \<lparr>ca_address = lower (ip_value p), ca_commonName = map_option unescapeText (truthy_param p ''CN''),
       ca_role = (case role of None \<Rightarrow> ''REQ-PARTICIPANT'' | Some r \<Rightarrow> r),
       ca_partStat = (case stat of None \<Rightarrow> ''NEEDS-ACTION'' | Some r \<Rightarrow> r)\<rparr>)"

definition opt_address :: "ical_property option \<Rightarrow> calendar_address option res" where
  "opt_address po = (case po of None \<Rightarrow> Inr None | Some p \<Rightarrow> bindE (parseAddress p) (\<lambda>a. Inr (Some a)))"

text \<open>\<open>(?:\d+H)?\<close> and the like: skip digits that are followed by the unit.\<close>

definition skip_unit :: "char \<Rightarrow> string \<Rightarrow> string" where
  "skip_unit u s = (let r = dropWhile is_digit s in
     if s \<noteq> [] \<and> is_digit (hd s) \<and> take 1 r = [u] then tl r else s)"

definition skip_seconds :: "string \<Rightarrow> string" where \<comment> \<open>\<open>(?:\d+(?:\.\d+)?S)?\<close>\<close>
  "skip_seconds s = (let r = dropWhile is_digit s; f = dropWhile is_digit (tl r) in
     if s = [] \<or> \<not> is_digit (hd s) then s
     else if take 1 r = ''S'' then tl r
     else if take 1 r = ''.'' \<and> tl r \<noteq> [] \<and> is_digit (hd (tl r)) \<and> take 1 f = ''S'' then tl f
     else s)"

definition duration_ok :: "string \<Rightarrow> bool" where
  "duration_ok s = (let s1 = (if s \<noteq> [] \<and> (hd s = CHR ''-'' \<or> hd s = CHR ''+'') then tl s else s) in
     if take 1 s1 \<noteq> ''P'' then False
     else let s2 = tl s1; days = skip_unit (CHR ''D'') s2 in
       (s2 \<noteq> [] \<and> skip_unit (CHR ''W'') s2 = []) \<or> days = []
       \<or> (take 1 days = ''T'' \<and> skip_seconds (skip_unit (CHR ''M'') (skip_unit (CHR ''H'') (tl days))) = []))"

definition offset_ok :: "string \<Rightarrow> bool" where \<comment> \<open>\<open>^[+-]\d{4}$\<close>\<close>
  "offset_ok s \<longleftrightarrow> s \<noteq> [] \<and> (hd s = CHR ''+'' \<or> hd s = CHR ''-'') \<and> digits 4 (tl s)"

text \<open>The loop over the components: the zone identifiers used, in order, and the zones defined.\<close>

fun used_zones :: "ical_property list \<Rightarrow> string list \<Rightarrow> string list res" where
  "used_zones [] ids = Inr ids"
| "used_zones (p # ps) ids = (case truthy_param p ''TZID'' of None \<Rightarrow> used_zones ps ids
     | Some z \<Rightarrow> bindE (assertTzid z) (\<lambda>z. used_zones ps (if z \<in> set ids then ids else ids @ [z])))"

definition zone_definition :: "ical_component \<Rightarrow> string list \<Rightarrow> string list res" where
  "zone_definition c defs =
     (if co_name c \<noteq> ''VTIMEZONE'' then Inr defs
      else bindE (oneProperty c ''TZID'' True) (\<lambda>zo. case zo of None \<Rightarrow> Inr defs | Some z \<Rightarrow>
        bindE (assertTzid (ip_value z)) (\<lambda>z.
        if z \<in> set defs then Inl (calDavError ''INVALID_TIMEZONE'' 422)
        else if list_ex (\<lambda>p. \<not> offset_ok (ip_value p)) (properties_of c ''TZOFFSETFROM'' @ properties_of c ''TZOFFSETTO'')
        then Inl (calDavError ''INVALID_TIMEZONE'' 422)
        else Inr (z # defs))))"

fun zone_loop :: "ical_component list \<Rightarrow> string list \<Rightarrow> string list \<Rightarrow> (string list \<times> string list) res" where
  "zone_loop [] ids defs = Inr (ids, defs)"
| "zone_loop (c # cs) ids defs = bindE (used_zones (co_properties c) ids) (\<lambda>ids1.
     bindE (zone_definition c defs) (\<lambda>defs1. zone_loop cs ids1 defs1))"

definition value_of :: "ical_property option \<Rightarrow> string" where
  "value_of po = (case po of None \<Rightarrow> [] | Some p \<Rightarrow> ip_value p)"

definition METHODS :: "string list" where
  "METHODS = [''PUBLISH'', ''REQUEST'', ''REPLY'', ''CANCEL'', ''ADD'', ''REFRESH'']"

definition event_of :: "ical_component \<Rightarrow> ical_component res" where
  "event_of root = bindE (oneProperty root ''VERSION'' True) (\<lambda>v.
     bindE (needE (value_of v = ''2.0'') invalidICal) (\<lambda>_.
     bindE (oneProperty root ''PRODID'' True) (\<lambda>_.
     (case filter (\<lambda>c. co_name c = ''VEVENT'') (co_children root) of [e] \<Rightarrow> Inr e | _ \<Rightarrow> Inl invalidICal))))"

definition event_times :: "ical_component \<Rightarrow> (calendar_date option \<times> calendar_date option \<times> string option) res" where
  "event_times e = bindE (bindE (oneProperty e ''DTSTART'' True) assertDateValue) (\<lambda>s.
     bindE (bindE (oneProperty e ''DTEND'' False) assertDateValue) (\<lambda>f.
     bindE (oneProperty e ''DURATION'' False) (\<lambda>d.
     if f \<noteq> None \<and> d \<noteq> None then Inl invalidICal
     else if (case d of None \<Rightarrow> False | Some p \<Rightarrow> \<not> duration_ok (ip_value p)) then Inl invalidICal
     else Inr (s, f, map_option ip_value d))))"

definition event_zones :: "ical_component \<Rightarrow> string list res" where
  "event_zones root = bindE (zone_loop (root # co_children root @ concat (map co_children (co_children root))) [] []) (\<lambda>(ids, defs).
     if list_ex (\<lambda>z. z \<noteq> ''UTC'' \<and> z \<notin> set defs) ids then Inl (calDavError ''TIMEZONE_UNDEFINED'' 422) else Inr ids)"

definition calendarMetadata :: "ical_component \<Rightarrow> string \<Rightarrow> ical_metadata res" where
  "calendarMetadata root canonical =
     bindE (event_of root) (\<lambda>e.
     bindE (oneProperty e ''UID'' True) (\<lambda>uid.
     bindE (needE (value_of uid \<noteq> [] \<and> length (value_of uid) \<le> 512) invalidICal) (\<lambda>_.
     bindE (event_times e) (\<lambda>(dtStart, dtEnd, duration).
     bindE (event_zones root) (\<lambda>zones.
     bindE (oneProperty e ''ORGANIZER'' False) (\<lambda>org.
     bindE (mapE parseAddress (properties_of e ''ATTENDEE'')) (\<lambda>attendees.
     bindE (opt_address org) (\<lambda>organizer.
     bindE (oneProperty e ''SEQUENCE'' False) (\<lambda>seq.
     bindE (needE (seq = None \<or> (value_of seq \<noteq> [] \<and> list_all is_digit (value_of seq))) invalidICal) (\<lambda>_.
     bindE (oneProperty root ''METHOD'' False) (\<lambda>met.
     bindE (needE (met = None \<or> upper (value_of met) \<in> set METHODS) (calDavError ''UNSUPPORTED_METHOD'' 422)) (\<lambda>_.
     bindE (oneProperty e ''SUMMARY'' False) (\<lambda>summary.
     bindE (oneProperty e ''DESCRIPTION'' False) (\<lambda>description.
     Inr \<lparr>im_uid = value_of uid, im_summary = unescapeText (value_of summary), im_description = unescapeText (value_of description),
       im_dtStart = dtStart, im_dtEnd = dtEnd, im_duration = duration, im_timeZoneIds = zones, im_organizer = organizer,
       im_attendees = attendees, im_method = map_option (\<lambda>m. upper (ip_value m)) met,
       im_sequence = (if seq = None then 0 else undec (value_of seq)), im_canonicalText = canonical\<rparr>))))))))))))))"

definition validateICalendar :: "jsval \<Rightarrow> ical_metadata res" where
  "validateICalendar v = bindE (parseCalendarComponents v) (\<lambda>(root, canonical). calendarMetadata root canonical)"

lemmas ical_defs [code_defs] = calDavError_def MAX_ICALENDAR_BYTES_def MAX_ICALENDAR_LINES_def MAX_ICALENDAR_LINE_LENGTH_def
  MAX_COMPONENT_COUNT_def MAX_COMPONENT_DEPTH_def ical_control_def continuation_def raw_lines_def canonicalLineEndings_def
  ical_name_def cut_first_def unquote_def parseProperty_def param_def truthy_param_def SUPPORTED_COMPONENTS_def
  component_char_def boundary_def may_nest_def begin_component_def end_component_def add_property_def component_line_def
  component_tree_def parseCalendarComponents_def properties_of_def oneProperty_def unescapeText_def tzid_ok_def assertTzid_def
  digits_def date_time_ok_def assertDateValue_def mail_char_def mailto_ok_def ATTENDEE_ROLES_def ATTENDEE_PARTSTAT_def
  parseAddress_def opt_address_def skip_unit_def skip_seconds_def duration_ok_def offset_ok_def zone_definition_def value_of_def
  METHODS_def event_of_def event_times_def event_zones_def calendarMetadata_def validateICalendar_def

subsection \<open>The canonical text is accepted again\<close>

lemma ical_name_head: "ical_name (upper s) \<Longrightarrow> \<not> continuation s"
proof (cases s)
  case (Cons c cs)
  assume "ical_name (upper s)"
  moreover have "c = CHR '' '' \<or> ccode c = 9 \<Longrightarrow> upper_char c = [c] \<and> \<not> is_upper c"
    by (auto simp: upper_char_def Let_def is_upper_def ccode_def)
  ultimately show ?thesis using Cons by (auto simp: continuation_def upper_def ical_name_def)
qed (simp add: continuation_def)

lemma boundary_plain: "boundary p line = Some n \<Longrightarrow> p \<noteq> [] \<Longrightarrow> line \<noteq> [] \<and> hd line = hd p"
  by (cases line; cases p) (auto simp: boundary_def starts_with_def Let_def split: if_splits)

lemma property_plain:
  assumes "parseProperty line = Inr p"
  shows "line \<noteq> [] \<and> \<not> continuation line"
proof -
  from assms obtain h v where cut: "cut_first (CHR '':'') line = Some (h, v)"
    and name: "ical_name (upper (hd (split_by (\<lambda>c. c = CHR '';'') h)))"
    by (auto simp: parseProperty_def Let_def guard_iff split: option.splits)
  from cut obtain c cs where h: "h = c # cs" and line: "\<exists>r. line = c # r"
    by (cases line) (auto simp: cut_first_def Let_def split: if_splits)
  have "\<not> continuation (hd (split_by (\<lambda>c. c = CHR '';'') h))" by (rule ical_name_head [OF name])
  moreover have "hd (split_by (\<lambda>c. c = CHR '';'') h) \<noteq> []" using name by (auto simp: ical_name_def upper_def)
  ultimately have "\<not> continuation [c]" using h by (auto simp: continuation_def split: list.splits if_splits)
  with line show ?thesis by (auto simp: continuation_def)
qed

lemma line_plain:
  assumes "component_line line s = Inr t"
  shows "line \<noteq> [] \<and> \<not> continuation line"
proof (cases "boundary ''BEGIN:'' line \<noteq> None \<or> boundary ''END:'' line \<noteq> None")
  case True
  then have "line \<noteq> [] \<and> (hd line = CHR ''B'' \<or> hd line = CHR ''E'')" using boundary_plain by fastforce
  then show ?thesis by (cases line) (auto simp: continuation_def ccode_def)
next
  case False
  with assms have "\<exists>p. parseProperty line = Inr p"
    by (auto simp: component_line_def add_property_def split: list.splits ical_component.splits)
  then show ?thesis using property_plain by blast
qed

lemma loop_plain: "component_loop ls s = Inr t \<Longrightarrow> \<forall>l\<in>set ls. l \<noteq> [] \<and> \<not> continuation l"
  by (induction ls arbitrary: s) (auto dest: line_plain)

lemma unfold_ical_plain: "\<forall>l\<in>set ls. \<not> continuation l \<Longrightarrow> unfold_ical acc ls = Inr (rev acc @ ls)"
  by (induction ls arbitrary: acc) auto

text \<open>Unfolding invents no characters.\<close>

lemma unfold_ical_chars: "unfold_ical acc ls = Inr us \<Longrightarrow> \<Union> (set ` set us) \<subseteq> \<Union> (set ` set acc) \<union> \<Union> (set ` set ls)"
proof (induction acc ls arbitrary: us rule: unfold_ical.induct)
  case (2 acc l ls)
  show ?case
  proof (cases "continuation l")
    case True
    with 2(3) obtain d ds where acc: "acc = d # ds" by (cases acc) auto
    have "set (tl l) \<subseteq> set l" by (cases l) auto
    with 2(1) [OF True acc, of us] 2(3) True acc show ?thesis by fastforce
  next
    case False
    with 2(2,3) show ?thesis by fastforce
  qed
qed auto

text \<open>A line of the code: no line feed, no control character; a carriage return may be left in it.\<close>

lemma split_by_free: "w \<in> set (split_by p s) \<Longrightarrow> list_all (\<lambda>c. \<not> p c) w"
  by (induction s arbitrary: w) (auto split: list.splits if_splits)

lemma crlf_to_lf_line: "LF \<notin> set l \<Longrightarrow> crlf_to_lf (l @ CRLF @ r) = l @ LF # crlf_to_lf r"
proof (induction l)
  case Nil
  then show ?case by (simp add: CRLF_def)
next
  case (Cons c l)
  then show ?case by (cases l) (auto simp: CRLF_def)
qed

lemma raw_lines_join:
  assumes "\<forall>l\<in>set ls. LF \<notin> set l" and "ls \<noteq> []"
  shows "raw_lines (join_crlf ls @ CRLF) = ls"
proof -
  have split: "split_by (\<lambda>c. c = LF) (l @ LF # s) = l # split_by (\<lambda>c. c = LF) s" if "LF \<notin> set l" for l s
    using that by (intro split_by_word) (auto simp: list_all_iff)
  have "split_by (\<lambda>c. c = LF) (crlf_to_lf (join_crlf ls @ CRLF)) = ls @ [[]]"
    using assms
  proof (induction ls rule: join_crlf.induct)
    case (2 l)
    then show ?case using crlf_to_lf_line [of l "[]"] by (simp add: split)
  next
    case (3 l m ls)
    then show ?case by (simp add: crlf_to_lf_line split)
  qed simp
  then show ?thesis using assms(2) by (simp add: raw_lines_def Let_def)
qed

lemma unfold_ical_length: "unfold_ical acc ls = Inr us \<Longrightarrow> length us \<le> length acc + length ls"
proof (induction acc ls arbitrary: us rule: unfold_ical.induct)
  case (2 acc l ls)
  show ?case
  proof (cases "continuation l")
    case True
    with 2(3) obtain d ds where acc: "acc = d # ds" by (cases acc) auto
    with 2(1) [OF True acc, of us] 2(3) True show ?thesis by simp
  next
    case False
    with 2(2) [OF False, of us] 2(3) show ?thesis by simp
  qed
qed auto

lemma contains_str_end: "p \<noteq> [] \<Longrightarrow> contains_str p (a @ p)"
proof (induction a)
  case Nil
  then show ?case by (cases p) (simp_all add: starts_with_def)
qed simp

lemma raw_lines_no_lf: "l \<in> set (raw_lines s) \<Longrightarrow> LF \<notin> set l"
  using split_by_free [of l "\<lambda>c. c = LF" "crlf_to_lf s"]
  by (auto simp: raw_lines_def Let_def list_all_iff dest: in_set_butlastD split: if_splits)

lemma canonical_lines:
  assumes "canonicalLineEndings v = Inr (us, canonical)"
  shows "canonical = join_crlf us @ CRLF" and "\<forall>l\<in>set us. LF \<notin> set l \<and> \<not> list_ex ical_control l"
    and "int (length us) \<le> MAX_ICALENDAR_LINES" and "us \<noteq> [] \<Longrightarrow> (\<forall>l\<in>set us. \<not> continuation l)
      \<Longrightarrow> int (byte_length canonical) \<le> MAX_ICALENDAR_BYTES
      \<Longrightarrow> \<forall>l\<in>set (raw_lines canonical). int (length l) \<le> MAX_ICALENDAR_LINE_LENGTH
      \<Longrightarrow> canonicalLineEndings (JStr canonical) = Inr (us, canonical)"
proof -
  from assms obtain s where count: "int (length (raw_lines s)) \<le> MAX_ICALENDAR_LINES"
    and ctl: "\<not> list_ex (list_ex ical_control) (raw_lines s)" and un: "unfold_ical [] (raw_lines s) = Inr us"
    and canon: "canonical = join_crlf us @ CRLF"
    by (auto simp: canonicalLineEndings_def Let_def guard_iff not_less intro: that)
  show c1: "canonical = join_crlf us @ CRLF" by (rule canon)
  have chars: "\<Union> (set ` set us) \<subseteq> \<Union> (set ` set (raw_lines s))" using unfold_ical_chars [OF un] by simp
  show c2: "\<forall>l\<in>set us. LF \<notin> set l \<and> \<not> list_ex ical_control l"
  proof
    fix l assume "l \<in> set us"
    then have "\<forall>c\<in>set l. \<exists>w\<in>set (raw_lines s). c \<in> set w" using chars by auto
    then show "LF \<notin> set l \<and> \<not> list_ex ical_control l" using ctl raw_lines_no_lf [of _ s] by (auto simp: list_ex_iff)
  qed
  show c3: "int (length us) \<le> MAX_ICALENDAR_LINES" using unfold_ical_length [OF un] count by simp
  assume ne: "us \<noteq> []" and plain: "\<forall>l\<in>set us. \<not> continuation l" and size: "int (byte_length canonical) \<le> MAX_ICALENDAR_BYTES"
    and len: "\<forall>l\<in>set (raw_lines canonical). int (length l) \<le> MAX_ICALENDAR_LINE_LENGTH"
  have raw: "raw_lines canonical = us" unfolding canon using raw_lines_join [of us] c2 ne by blast
  have crlf: "contains_str CRLF canonical" unfolding canon by (rule contains_str_end) (simp add: CRLF_def)
  have nonempty: "canonical \<noteq> []" by (simp add: canon CRLF_def)
  have ctl': "\<not> list_ex (list_ex ical_control) us" using c2 by (auto simp: list_ex_iff)
  have len': "\<not> list_ex (\<lambda>l. MAX_ICALENDAR_LINE_LENGTH < int (length l)) us" using len raw by (auto simp: list_ex_iff)
  have "unfold_ical [] us = Inr us" using unfold_ical_plain [OF plain, of "[]"] by simp
  with raw crlf nonempty ctl' len' size c3 ne canon show "canonicalLineEndings (JStr canonical) = Inr (us, canonical)"
    by (simp add: canonicalLineEndings_def Let_def need_str_def)
qed

lemma metadata_canonical: "calendarMetadata root canonical = Inr m \<Longrightarrow> im_canonicalText m = canonical"
  by (auto simp: calendarMetadata_def)

lemma tree_nonempty: "component_tree ls = Inr root \<Longrightarrow> ls \<noteq> []"
  by (auto simp: component_tree_def)

text \<open>C39  The canonical text stored of an accepted calendar object is itself accepted, with the same result, unless unfolding has made a line or the text longer than the limits.\<close>

theorem ical_canonical_roundtrip:
  assumes v: "validateICalendar v = Inr m" and size: "int (byte_length (im_canonicalText m)) \<le> MAX_ICALENDAR_BYTES"
    and len: "\<forall>l\<in>set (raw_lines (im_canonicalText m)). int (length l) \<le> MAX_ICALENDAR_LINE_LENGTH"
  shows "validateICalendar (JStr (im_canonicalText m)) = Inr m"
proof -
  from v obtain us canonical root where le: "canonicalLineEndings v = Inr (us, canonical)" and tree: "component_tree us = Inr root"
    and meta: "calendarMetadata root canonical = Inr m"
    by (auto simp: validateICalendar_def parseCalendarComponents_def)
  have canon: "im_canonicalText m = canonical" by (rule metadata_canonical [OF meta])
  from tree obtain t where "component_loop us \<lparr>ps_stack = [], ps_root = None, ps_count = 0\<rparr> = Inr t"
    by (auto simp: component_tree_def)
  then have plain: "\<forall>l\<in>set us. \<not> continuation l" using loop_plain by blast
  have "canonicalLineEndings (JStr canonical) = Inr (us, canonical)"
    using canonical_lines(4) [OF le tree_nonempty [OF tree] plain] size len by (simp add: canon)
  then show ?thesis using tree meta by (simp add: validateICalendar_def parseCalendarComponents_def canon)
qed

subsection \<open>What an accepted calendar object promises\<close>

text \<open>Every component is a known one and stands where the code lets it begin.\<close>

fun nested_ok :: "ical_component \<Rightarrow> bool" where
  "nested_ok (Component n ps ch) = (n \<in> set SUPPORTED_COMPONENTS \<and> (\<forall>c\<in>set ch. may_nest n (co_name c) \<and> nested_ok c))"

fun stack_nested :: "ical_component list \<Rightarrow> bool" where
  "stack_nested [] = True"
| "stack_nested [c] = (co_name c = ''VCALENDAR'')"
| "stack_nested (c # d # cs) = (may_nest (co_name d) (co_name c) \<and> stack_nested (d # cs))"

definition stack_ok :: "parse_state \<Rightarrow> bool" where
  "stack_ok s \<longleftrightarrow> (\<forall>c\<in>set (ps_stack s). nested_ok c) \<and> stack_nested (ps_stack s)
     \<and> (\<forall>c. ps_root s = Some c \<longrightarrow> nested_ok c \<and> co_name c = ''VCALENDAR'')"

lemma stack_nested_head: "stack_nested (Component n p a # cs) = stack_nested (Component n q b # cs)"
  by (cases cs) simp_all

lemma begin_ok: "begin_component n s = Inr t \<Longrightarrow> stack_ok s \<Longrightarrow> stack_ok t"
  by (cases "ps_stack s") (auto simp: begin_component_def Let_def guard_iff stack_ok_def)

lemma stack_nested_tail: "stack_nested (c # cs) \<Longrightarrow> stack_nested cs"
  by (cases cs) simp_all

lemma nested_child: "nested_ok (Component n ps ch) \<Longrightarrow> may_nest n (co_name c) \<Longrightarrow> nested_ok c \<Longrightarrow> nested_ok (Component n ps (ch @ [c]))"
  by auto

lemma end_ok:
  assumes "end_component n s = Inr t" and ok: "stack_ok s"
  shows "stack_ok t"
proof -
  from assms(1) obtain c st where s: "ps_stack s = c # st" and n: "co_name c = n"
    by (auto simp: end_component_def split: list.splits if_splits)
  show ?thesis
  proof (cases st)
    case Nil
    have t: "t = s\<lparr>ps_stack := [], ps_root := Some c\<rparr>" using assms(1) s n Nil by (simp add: end_component_def)
    from ok s Nil have "nested_ok c" "co_name c = ''VCALENDAR''" by (simp_all add: stack_ok_def)
    then show ?thesis by (simp add: t stack_ok_def)
  next
    case (Cons p st')
    obtain m ps ch where p: "p = Component m ps ch" by (cases p)
    have t: "t = s\<lparr>ps_stack := Component m ps (ch @ [c]) # st'\<rparr>" using assms(1) s n Cons p by (simp add: end_component_def)
    from ok s Cons p have "nested_ok (Component m ps ch)" "may_nest m (co_name c)" "nested_ok c" "stack_nested (Component m ps ch # st')"
      by (simp_all add: stack_ok_def del: nested_ok.simps)
    then have "nested_ok (Component m ps (ch @ [c]))" "stack_nested (Component m ps (ch @ [c]) # st')"
      using nested_child stack_nested_head by blast+
    with t ok s Cons show ?thesis by (simp add: stack_ok_def del: nested_ok.simps)
  qed
qed

lemma add_ok:
  assumes "add_property l s = Inr t" and ok: "stack_ok s"
  shows "stack_ok t"
proof -
  from assms(1) obtain m ps ch st p where s: "ps_stack s = Component m ps ch # st" and t: "t = s\<lparr>ps_stack := Component m (ps @ [p]) ch # st\<rparr>"
    by (auto simp: add_property_def split: list.splits ical_component.splits)
  with ok show ?thesis using stack_nested_head [of m ps ch st] by (auto simp: stack_ok_def)
qed

lemma line_ok: "component_line l s = Inr t \<Longrightarrow> stack_ok s \<Longrightarrow> stack_ok t"
  by (auto simp: component_line_def begin_ok end_ok add_ok split: option.splits)

lemma loop_ok: "component_loop ls s = Inr t \<Longrightarrow> stack_ok s \<Longrightarrow> stack_ok t"
  by (induction ls arbitrary: s) (auto dest: line_ok)

lemma tree_ok:
  assumes "component_tree ls = Inr root"
  shows "nested_ok root \<and> co_name root = ''VCALENDAR''"
proof -
  from assms obtain t where loop: "component_loop ls \<lparr>ps_stack = [], ps_root = None, ps_count = 0\<rparr> = Inr t" and "ps_root t = Some root"
    by (auto simp: component_tree_def split: option.splits if_splits)
  moreover have "stack_ok t" by (rule loop_ok [OF loop]) (simp add: stack_ok_def)
  ultimately show ?thesis by (simp add: stack_ok_def)
qed

subsection \<open>What the checks promise\<close>

lemma used_zones_spec:
  "used_zones ps ids = Inr ids' \<Longrightarrow> set ids \<subseteq> set ids' \<and> (\<forall>p\<in>set ps. \<forall>z. truthy_param p ''TZID'' = Some z \<longrightarrow> z \<in> set ids')"
proof (induction ps arbitrary: ids)
  case (Cons p ps)
  show ?case
  proof (cases "truthy_param p ''TZID''")
    case None
    with Cons show ?thesis by auto
  next
    case (Some z)
    with Cons.prems have "used_zones ps (if z \<in> set ids then ids else ids @ [z]) = Inr ids'"
      by (auto simp: assertTzid_def split: if_splits)
    from Cons.IH [OF this] Some show ?thesis by (auto split: if_splits)
  qed
qed simp

definition defined_zones :: "ical_component list \<Rightarrow> string set" where
  "defined_zones cs = {ip_value p |c p. c \<in> set cs \<and> co_name c = ''VTIMEZONE'' \<and> properties_of c ''TZID'' = [p]}"

lemma zone_definition_spec: "zone_definition c defs = Inr defs' \<Longrightarrow> set defs' \<subseteq> set defs \<union> defined_zones [c]"
  by (auto simp: zone_definition_def oneProperty_def assertTzid_def defined_zones_def split: if_splits list.splits option.splits)

lemma defined_zones_Cons: "defined_zones (c # cs) = defined_zones [c] \<union> defined_zones cs"
  by (auto simp: defined_zones_def)

lemma zone_loop_spec:
  "zone_loop cs ids defs = Inr (ids', defs') \<Longrightarrow> set ids \<subseteq> set ids' \<and> set defs' \<subseteq> set defs \<union> defined_zones cs
    \<and> (\<forall>c\<in>set cs. \<forall>p\<in>set (co_properties c). \<forall>z. truthy_param p ''TZID'' = Some z \<longrightarrow> z \<in> set ids')"
proof (induction cs arbitrary: ids defs)
  case (Cons c cs)
  from Cons.prems obtain i d where used: "used_zones (co_properties c) ids = Inr i" and def: "zone_definition c defs = Inr d"
    and loop: "zone_loop cs i d = Inr (ids', defs')" by auto
  from Cons.IH [OF loop] used_zones_spec [OF used] zone_definition_spec [OF def] show ?case
    unfolding defined_zones_Cons [of c cs] by auto
qed simp

text \<open>The components the code looks at for zones: the calendar, what is in it, and what is in those.\<close>

definition upper_components :: "ical_component \<Rightarrow> ical_component list" where
  "upper_components root = root # co_children root @ concat (map co_children (co_children root))"

lemma event_zones_spec:
  assumes "event_zones root = Inr zs"
  shows "set zs \<subseteq> insert ''UTC'' (defined_zones (upper_components root))"
    and "\<forall>c\<in>set (upper_components root). \<forall>p\<in>set (co_properties c). \<forall>z. truthy_param p ''TZID'' = Some z \<longrightarrow> z \<in> set zs"
proof -
  from assms obtain ds where "zone_loop (upper_components root) [] [] = Inr (zs, ds)" and "\<not> list_ex (\<lambda>z. z \<noteq> ''UTC'' \<and> z \<notin> set ds) zs"
    by (auto simp: event_zones_def upper_components_def guard_iff split: if_splits)
  with zone_loop_spec [of "upper_components root" "[]" "[]" zs ds]
  show "set zs \<subseteq> insert ''UTC'' (defined_zones (upper_components root))"
    and "\<forall>c\<in>set (upper_components root). \<forall>p\<in>set (co_properties c). \<forall>z. truthy_param p ''TZID'' = Some z \<longrightarrow> z \<in> set zs"
    by (auto simp: list_ex_iff)
qed

text \<open>C38  An accepted calendar object is a tree of known components nested as the code allows, with exactly one event, whose only UID has 1 to 512 characters, without both end and duration, and every time zone its upper components use is UTC or defined in it.\<close>

theorem accepted_calendar:
  assumes "validateICalendar v = Inr m"
  shows "\<exists>root e u. parseCalendarComponents v = Inr (root, im_canonicalText m) \<and> nested_ok root \<and> co_name root = ''VCALENDAR''
    \<and> filter (\<lambda>c. co_name c = ''VEVENT'') (co_children root) = [e]
    \<and> properties_of e ''UID'' = [u] \<and> im_uid m = ip_value u \<and> im_uid m \<noteq> [] \<and> length (im_uid m) \<le> 512
    \<and> (im_dtEnd m = None \<or> im_duration m = None)
    \<and> (\<forall>c\<in>set (upper_components root). \<forall>p\<in>set (co_properties c). \<forall>z. truthy_param p ''TZID'' = Some z
        \<longrightarrow> z = ''UTC'' \<or> z \<in> defined_zones (upper_components root))"
proof -
  from assms obtain root canonical where parse: "parseCalendarComponents v = Inr (root, canonical)" and meta: "calendarMetadata root canonical = Inr m"
    by (auto simp: validateICalendar_def)
  have tree: "nested_ok root \<and> co_name root = ''VCALENDAR''"
    using parse by (auto simp: parseCalendarComponents_def dest: tree_ok)
  from meta obtain e uid s f d where ev: "event_of root = Inr e" and uid: "oneProperty e ''UID'' True = Inr uid"
    and len: "value_of uid \<noteq> []" "length (value_of uid) \<le> 512" and times: "event_times e = Inr (s, f, d)"
    and zones: "event_zones root = Inr (im_timeZoneIds m)"
    and m: "im_uid m = value_of uid" "im_dtEnd m = f" "im_duration m = d" "im_canonicalText m = canonical"
    unfolding calendarMetadata_def by auto
  from ev have e: "filter (\<lambda>c. co_name c = ''VEVENT'') (co_children root) = [e]"
    by (auto simp: event_of_def split: list.splits)
  from uid len obtain u where u: "properties_of e ''UID'' = [u]" "uid = Some u"
    by (auto simp: oneProperty_def split: list.splits)
  have "f = None \<or> d = None" using times by (auto simp: event_times_def assertDateValue_def guard_iff split: option.splits)
  with parse tree e u len m show ?thesis using event_zones_spec [OF zones] by (auto simp: value_of_def)
qed

subsection \<open>An example\<close>

definition exampleCalendar :: jsval where
  "exampleCalendar = JStr (concat (map (\<lambda>l. l @ CRLF)
     [''BEGIN:VCALENDAR'', ''VERSION:2.0'', ''PRODID:-//x'', ''BEGIN:VEVENT'', ''UID:u1'', ''DTSTART:20260101T1000'',
      '' 00Z'', ''SUMMARY:a'', ''END:VEVENT'', ''END:VCALENDAR'']))"

definition exampleMeta :: ical_metadata where
  "exampleMeta = (case validateICalendar exampleCalendar of Inr m \<Rightarrow> m | Inl _ \<Rightarrow> \<lparr>im_uid = [], im_summary = [], im_description = [],
     im_dtStart = None, im_dtEnd = None, im_duration = None, im_timeZoneIds = [], im_organizer = None, im_attendees = [], im_method = None,
     im_sequence = 0, im_canonicalText = []\<rparr>)"

lemma exampleCalendar_ok: "is_ok (validateICalendar exampleCalendar)"
  by code_simp

lemma exampleMeta_ok: "validateICalendar exampleCalendar = Inr exampleMeta"
  using exampleCalendar_ok by (auto simp: exampleMeta_def is_ok_iff)

lemma exampleMeta_size: "int (byte_length (im_canonicalText exampleMeta)) \<le> MAX_ICALENDAR_BYTES"
  by code_simp

lemma exampleMeta_lines: "list_all (\<lambda>l. int (length l) \<le> MAX_ICALENDAR_LINE_LENGTH) (raw_lines (im_canonicalText exampleMeta))"
  by code_simp

theorem ical_canonical_roundtrip_witness:
  "validateICalendar (JStr (im_canonicalText exampleMeta)) = Inr exampleMeta"
  by (rule ical_canonical_roundtrip [OF exampleMeta_ok exampleMeta_size exampleMeta_lines [unfolded list_all_iff]])

theorem accepted_calendar_witness: "\<exists>root. parseCalendarComponents exampleCalendar = Inr (root, im_canonicalText exampleMeta) \<and> nested_ok root"
  using accepted_calendar [OF exampleMeta_ok] by blast

text \<open>An escaped backslash before an n is read as a line break, and a quoted parameter may not hold a colon.\<close>

lemma unescape_backslash_n: "unescapeText [CHR 0x5C, CHR 0x5C, CHR ''n''] = [CHR 0x5C, LF]"
  by code_simp

lemma quoted_colon_rejected: "parseProperty (''ATTENDEE;CN='' @ [CHR 0x22] @ ''a:b'' @ [CHR 0x22] @ '':mailto:a@b'') = Inl invalidICal"
  by code_simp

lemma bare_CR_kept: "canonicalLineEndings (JStr ([CHR ''a'', CR, CHR ''b''] @ CRLF)) = Inr ([[CHR ''a'', CR, CHR ''b'']], [CHR ''a'', CR, CHR ''b''] @ CRLF)"
  by code_simp

end
