(* ===== verification/CalDav_Store.thy ===== *)
theory CalDav_Store
  imports ICalendar Sync_Log
begin

section \<open>The calendars\<close>

text \<open>
  The store of \<open>src/core/dav/caldav/caldav-contract.ts\<close>: collections of calendar objects with one delegate
  each, conditional writes, and one log of changes for all collections under one rising revision.  Actor and
  request are values of unknown type.  What an operation takes from outside is one environment: the two
  readings of the clock it may make, what \<open>Date.parse\<close> makes of a text, the SHA-256 digest in hexadecimal,
  and what the audit function throws for an event.  The audit function is not modelled as calling the store.
  \<open>recordChange\<close> logs the change before it reads the clock, so the log is complete even when that fails.
\<close>

subsection \<open>Identifiers\<close>

definition cal_tenant_ok :: "string \<Rightarrow> bool" where
  "cal_tenant_ok s \<longleftrightarrow> head_tail is_lowdig (\<lambda>c. is_lowdig c \<or> one_of ''._-'' c) 63 s"

definition slug_ok :: "string \<Rightarrow> bool" where
  "slug_ok s \<longleftrightarrow> head_tail is_alnum (\<lambda>c. is_alnum c \<or> one_of ''._-'' c) 63 s"

definition canonicalTenantId :: "jsval \<Rightarrow> string res" where
  "canonicalTenantId v = need_str cal_tenant_ok (calDavError ''INVALID_TENANT'' 422) v"

definition canonicalUserId :: "jsval \<Rightarrow> string res" where
  "canonicalUserId v = need_str actor_id_ok (calDavError ''INVALID_USER'' 422) v"

definition canonicalCalendarSlug :: "jsval \<Rightarrow> string res" where
  "canonicalCalendarSlug v = need_str slug_ok (calDavError ''INVALID_CALENDAR_ID'' 422) v"

definition isoDate :: "(string \<Rightarrow> int option) \<Rightarrow> jsval \<Rightarrow> int res" where
  "isoDate pd v = (let bad = Inl (calDavError ''INVALID_TIMESTAMP'' 422);
       t = (case to_date pd v of Some t \<Rightarrow> Inr t | None \<Rightarrow> bad) in
     case v of JDate _ \<Rightarrow> t | JStr _ \<Rightarrow> t | JInt _ \<Rightarrow> t | JFrac _ \<Rightarrow> t | _ \<Rightarrow> bad)"

record cal_actor =
  da_tenantId :: string
  da_userId :: string

definition ACTOR_ROLES :: "string list" where
  "ACTOR_ROLES = [''provider'', ''tenant_master'', ''user'', ''monitor'']"

definition normalizeDavActor :: "jsval \<Rightarrow> string \<Rightarrow> cal_actor res" where \<comment> \<open>\<open>normalizeActor\<close>\<close>
  "normalizeDavActor actor tenant =
     (if \<not> is_object actor then Inl (calDavError ''AUTHENTICATION_REQUIRED'' 401)
      else bindE (canonicalTenantId (jget actor ''tenantId'')) (\<lambda>t.
        if t \<noteq> tenant then Inl (calDavError ''CROSS_TENANT_DENIED'' 403)
        else bindE (canonicalUserId (js_or_else (jget actor ''userId'') (jget actor ''actorId''))) (\<lambda>u.
        bindE (need_str (\<lambda>r. r \<in> set ACTOR_ROLES) (calDavError ''INVALID_ACTOR_ROLE'' 403) (jget actor ''role'')) (\<lambda>r.
        if r \<noteq> ''user'' then Inl (calDavError ''CONTENT_SCOPE_REQUIRED'' 403)
        else Inr \<lparr>da_tenantId = t, da_userId = u\<rparr>))))"

definition canonicalCalendarKey :: "string \<Rightarrow> string \<Rightarrow> string" where
  "canonicalCalendarKey owner slug = owner @ ''/'' @ slug"

abbreviation slash_parts :: "string \<Rightarrow> string list" where
  "slash_parts \<equiv> split_by (\<lambda>c. c = CHR ''/'')"

definition splitCalendarId :: "jsval \<Rightarrow> (string option \<times> string) res" where
  "splitCalendarId v = bindE (need_str (\<lambda>_. True) (calDavError ''INVALID_CALENDAR_ID'' 422) v) (\<lambda>s.
     case slash_parts s of
       [a] \<Rightarrow> bindE (canonicalCalendarSlug (JStr a)) (\<lambda>c. Inr (None, c))
     | [a, b] \<Rightarrow> bindE (canonicalUserId (JStr a)) (\<lambda>u. bindE (canonicalCalendarSlug (JStr b)) (\<lambda>c. Inr (Some u, c)))
     | _ \<Rightarrow> Inl (calDavError ''INVALID_CALENDAR_ID'' 422))"

subsection \<open>Percent encoding\<close>

definition uri_plain :: "char \<Rightarrow> bool" where
  "uri_plain c \<longleftrightarrow> is_alnum c \<or> one_of (CHR 0x27 # ''-_.!~*()'') c"

definition percent :: "nat \<Rightarrow> string" where
  "percent n = (let d = (\<lambda>k. ''0123456789ABCDEF'' ! k) in [CHR ''%'', d (n div 16), d (n mod 16)])"

definition uri_char :: "char \<Rightarrow> string" where
  "uri_char c = (let n = ccode c in if uri_plain c then [c] else if n < 128 then percent n
     else percent (192 + n div 64) @ percent (128 + n mod 64))"

definition encodeURIComponent :: "string \<Rightarrow> string" where
  "encodeURIComponent s = concat (map uri_char s)"

definition hex_value :: "char \<Rightarrow> nat option" where
  "hex_value c = (let n = ccode c in if is_digit c then Some (n - 48) else if 97 \<le> n \<and> n \<le> 102 then Some (n - 87)
     else if 65 \<le> n \<and> n \<le> 70 then Some (n - 55) else None)"

definition hex_pair :: "string \<Rightarrow> nat option" where
  "hex_pair s = (case s of [a, b] \<Rightarrow> (case (hex_value a, hex_value b) of (Some m, Some n) \<Rightarrow> Some (16 * m + n) | _ \<Rightarrow> None) | _ \<Rightarrow> None)"

text \<open>The characters of a text, those that were written with a percent sign marked.\<close>

fun uri_units :: "string \<Rightarrow> (bool \<times> nat) list option" where
  "uri_units [] = Some []"
| "uri_units (c # cs) =
     (if c = CHR ''%'' then (case hex_pair (take 2 cs) of None \<Rightarrow> None
        | Some n \<Rightarrow> map_option (\<lambda>us. (True, n) # us) (uri_units (drop 2 cs)))
      else map_option (\<lambda>us. (False, ccode c) # us) (uri_units cs))"

definition follow_bytes :: "nat \<Rightarrow> nat" where
  "follow_bytes n = (if 194 \<le> n \<and> n \<le> 223 then 1 else if 224 \<le> n \<and> n \<le> 239 then 2 else if 240 \<le> n \<and> n \<le> 244 then 3 else 0)"

definition utf8_value :: "nat \<Rightarrow> (bool \<times> nat) list \<Rightarrow> nat option" where
  "utf8_value n us = (let k = length us; v = foldl (\<lambda>a u. 64 * a + (snd u - 128)) (n mod (2 ^ (6 - k))) us in
     if list_all (\<lambda>u. fst u \<and> 128 \<le> snd u \<and> snd u \<le> 191) us \<and> (k = 2 \<longrightarrow> 2048 \<le> v) \<and> (k = 3 \<longrightarrow> 65536 \<le> v)
       \<and> v \<le> 1114111 \<and> \<not> (55296 \<le> v \<and> v \<le> 57343) then Some v else None)"

fun utf8_decode :: "(bool \<times> nat) list \<Rightarrow> nat list option" where
  "utf8_decode [] = Some []"
| "utf8_decode ((escaped, n) # us) =
     (if \<not> escaped \<or> n < 128 then map_option (\<lambda>vs. n # vs) (utf8_decode us)
      else let k = follow_bytes n in
        if k = 0 \<or> length us < k then None
        else (case utf8_value n (take k us) of None \<Rightarrow> None | Some v \<Rightarrow> map_option (\<lambda>vs. v # vs) (utf8_decode (drop k us))))"

text \<open>The code points of the decoded text; none where the code throws a \<open>URIError\<close>.\<close>

definition decodeURIComponent :: "string \<Rightarrow> nat list option" where
  "decodeURIComponent s = (case uri_units s of None \<Rightarrow> None | Some us \<Rightarrow> utf8_decode us)"

subsection \<open>Sync tokens\<close>

definition TOKEN_PREFIX :: string where
  "TOKEN_PREFIX = ''https://gulogulo.invalid/caldav/''"

definition makeToken :: "string \<Rightarrow> string \<Rightarrow> string \<Rightarrow> nat \<Rightarrow> string" where
  "makeToken tenant owner slug revision = TOKEN_PREFIX @ encodeURIComponent tenant @ ''/'' @ encodeURIComponent owner @ ''/'' @
     encodeURIComponent slug @ ''/sync/'' @ dec revision"

definition split_token :: "string \<Rightarrow> (string \<times> string \<times> string \<times> string) option" where \<comment> \<open>\<open>TOKEN_PATTERN\<close>\<close>
  "split_token s = (if \<not> starts_with TOKEN_PREFIX s then None
     else (case slash_parts (drop (length TOKEN_PREFIX) s) of
       [a, b, c, d, n] \<Rightarrow> if a \<noteq> [] \<and> b \<noteq> [] \<and> c \<noteq> [] \<and> d = ''sync'' \<and> n \<noteq> [] \<and> list_all is_digit n then Some (a, b, c, n) else None
     | _ \<Rightarrow> None))"

definition decodeToken :: "jsval \<Rightarrow> string \<Rightarrow> string \<Rightarrow> string \<Rightarrow> nat res" where
  "decodeToken v tenant owner slug =
     (if nullish v then Inr 0
      else let bad = Inl (calDavError ''INVALID_SYNC_TOKEN'' 400) in
        (case v of JStr s \<Rightarrow> (case split_token s of None \<Rightarrow> bad
          | Some (a, b, c, n) \<Rightarrow> (case (decodeURIComponent a, decodeURIComponent b, decodeURIComponent c) of
              (Some t, Some u, Some d) \<Rightarrow>
                if t \<noteq> map ccode tenant then Inl (calDavError ''CROSS_TENANT_DENIED'' 403)
                else if u \<noteq> map ccode owner \<or> d \<noteq> map ccode slug then Inl (calDavError ''SYNC_SCOPE_DENIED'' 403)
                else if \<not> is_safe_int (int (undec n)) then bad else Inr (undec n)
            | _ \<Rightarrow> bad))
         | _ \<Rightarrow> bad))"

subsection \<open>Times as text\<close>

definition padded :: "nat \<Rightarrow> int \<Rightarrow> string" where
  "padded k n = (let s = dec (nat n) in replicate (k - length s) (CHR ''0'') @ s)"

text \<open>Year, month and day of a day counted from the first of January 1970.\<close>

definition civil_date :: "int \<Rightarrow> int \<times> int \<times> int" where
  "civil_date days = (let z = days + 719468; era = z div 146097; doe = z mod 146097;
     yoe = (doe - doe div 1460 + doe div 36524 - doe div 146096) div 365; doy = doe - (365 * yoe + yoe div 4 - yoe div 100);
     mp = (5 * doy + 2) div 153; m = (if mp < 10 then mp + 3 else mp - 9)
   in (yoe + era * 400 + (if m \<le> 2 then 1 else 0), m, doy - (153 * mp + 2) div 5 + 1))"

definition toISOString :: "int \<Rightarrow> string" where
  "toISOString t = (let (y, m, d) = civil_date (t div 86400000); ms = t mod 86400000;
     year = (if 0 \<le> y \<and> y \<le> 9999 then padded 4 y else if y < 0 then ''-'' @ padded 6 (- y) else ''+'' @ padded 6 y)
   in year @ ''-'' @ padded 2 m @ ''-'' @ padded 2 d @ ''T'' @ padded 2 (ms div 3600000) @ '':'' @ padded 2 (ms div 60000 mod 60) @ '':'' @
     padded 2 (ms div 1000 mod 60) @ ''.'' @ padded 3 (ms mod 1000) @ ''Z'')"

subsection \<open>Data\<close>

record cal_acl =
  ac_delegateUserId :: string
  ac_permissions :: "string list"

record cal_object =
  ob_tenantId :: string
  ob_ownerUserId :: string
  ob_objectId :: string
  ob_uid :: string
  ob_ical :: string
  ob_metadata :: ical_metadata
  ob_etag :: string
  ob_createdAt :: int
  ob_updatedAt :: int

record calendar =
  cal_tenantId :: string
  cal_ownerUserId :: string
  cal_collectionId :: string
  cal_displayName :: string
  cal_description :: string
  cal_timezone :: string
  cal_color :: "string option"
  cal_href :: string
  cal_createdAt :: int
  cal_updatedAt :: int
  cal_syncToken :: string
  cal_acl :: "cal_acl option"
  cal_objects :: "(string \<times> cal_object) list"

record cal_change =
  lc_revision :: nat
  lc_calendarKey :: string
  lc_objectId :: string
  lc_object :: "cal_object option"
  lc_deleted :: bool

record cal_store =
  st_tenant :: string
  st_collections :: "(string \<times> calendar) list"
  st_changes :: "cal_change list"
  st_revision :: nat

record cal_event =
  ev_eventType :: string
  ev_tenantId :: string
  ev_actorId :: string
  ev_calendarId :: string
  ev_ownerUserId :: string
  ev_details :: "(string \<times> jsval) list"

text \<open>What a call takes from outside; without an audit function nothing is thrown.\<close>

record cal_env =
  ce_clock1 :: jsval
  ce_clock2 :: jsval
  ce_parse :: "string \<Rightarrow> int option"
  ce_sha :: "string \<Rightarrow> string"
  ce_audit :: "cal_event \<Rightarrow> err option"

record object_view =
  ov_href :: string
  ov_calendarId :: string
  ov_objectId :: string
  ov_tenantId :: string
  ov_ownerUserId :: string
  ov_uid :: string
  ov_etag :: string
  ov_metadata :: ical_metadata
  ov_createdAt :: int
  ov_updatedAt :: int
  ov_ical :: "string option"

record calendar_view =
  vw_calendarId :: string
  vw_collectionId :: string
  vw_href :: string
  vw_tenantId :: string
  vw_ownerUserId :: string
  vw_displayName :: string
  vw_description :: string
  vw_timezone :: string
  vw_color :: "string option"
  vw_permissions :: "string list"
  vw_acl :: "cal_acl list"
  vw_syncToken :: string
  vw_createdAt :: int
  vw_updatedAt :: int

record cal_sync =
  cv_calendarId :: string
  cv_objects :: "object_view list"
  cv_deletedObjectIds :: "string list"
  cv_syncToken :: string

subsection \<open>Views and permissions\<close>

definition calculateEtag :: "cal_env \<Rightarrow> string \<Rightarrow> string \<Rightarrow> string \<Rightarrow> string \<Rightarrow> string" where
  "calculateEtag env tenant key i text = CHR 0x22 # ce_sha env (nul_join [tenant, key, i, text]) @ [CHR 0x22]"

definition collectionEtag :: "cal_env \<Rightarrow> calendar \<Rightarrow> string" where
  "collectionEtag env c = CHR 0x22 # ce_sha env (nul_join [cal_displayName c, cal_description c, toISOString (cal_updatedAt c)]) @ [CHR 0x22]"

definition calendar_key :: "calendar \<Rightarrow> string" where
  "calendar_key c = canonicalCalendarKey (cal_ownerUserId c) (cal_collectionId c)"

definition publicAcl :: "calendar \<Rightarrow> cal_actor \<Rightarrow> cal_acl list" where
  "publicAcl c a = (case cal_acl c of None \<Rightarrow> []
     | Some l \<Rightarrow> if da_userId a = cal_ownerUserId c then [l]
         else if ac_delegateUserId l = da_userId a then [l\<lparr>ac_delegateUserId := cal_ownerUserId c\<rparr>] else [])"

definition publicCollection :: "calendar \<Rightarrow> cal_actor \<Rightarrow> calendar_view" where
  "publicCollection c a = \<lparr>vw_calendarId = calendar_key c, vw_collectionId = cal_collectionId c, vw_href = cal_href c,
     vw_tenantId = cal_tenantId c, vw_ownerUserId = cal_ownerUserId c, vw_displayName = cal_displayName c,
     vw_description = cal_description c, vw_timezone = cal_timezone c, vw_color = cal_color c,
     vw_permissions = (if da_userId a = cal_ownerUserId c then [''read'', ''write'']
       else (case cal_acl c of None \<Rightarrow> [] | Some l \<Rightarrow> ac_permissions l)),
     vw_acl = publicAcl c a, vw_syncToken = cal_syncToken c, vw_createdAt = cal_createdAt c, vw_updatedAt = cal_updatedAt c\<rparr>"

definition publicObject :: "calendar \<Rightarrow> cal_object \<Rightarrow> object_view" where
  "publicObject c ob = \<lparr>ov_href = cal_href c @ encodeURIComponent (ob_objectId ob), ov_calendarId = calendar_key c,
     ov_objectId = ob_objectId ob, ov_tenantId = ob_tenantId ob, ov_ownerUserId = ob_ownerUserId ob,
     ov_uid = im_uid (ob_metadata ob), ov_etag = ob_etag ob, ov_metadata = ob_metadata ob, ov_createdAt = ob_createdAt ob,
     ov_updatedAt = ob_updatedAt ob, ov_ical = Some (ob_ical ob)\<rparr>"

definition permissionFor :: "calendar \<Rightarrow> cal_actor \<Rightarrow> string list" where
  "permissionFor c a = (if da_userId a = cal_ownerUserId c then [''read'', ''write'']
     else (case cal_acl c of None \<Rightarrow> [] | Some l \<Rightarrow> if ac_delegateUserId l = da_userId a then ac_permissions l else []))"

definition assertCalendarPermission :: "calendar \<Rightarrow> cal_actor \<Rightarrow> string \<Rightarrow> unit res" where \<comment> \<open>\<open>assertPermission\<close>\<close>
  "assertCalendarPermission c a p = needE (p \<in> set (permissionFor c a)) (calDavError ''ACL_DENIED'' 403)"

subsection \<open>Operations\<close>

type_synonym 'a cal_op = "cal_store \<Rightarrow> 'a res \<times> cal_store"

definition createCalDavStore :: "jsval \<Rightarrow> cal_store res" where
  "createCalDavStore tenant = bindE (canonicalTenantId tenant) (\<lambda>t.
     Inr \<lparr>st_tenant = t, st_collections = [], st_changes = [], st_revision = 0\<rparr>)"

definition emitAudit :: "cal_env \<Rightarrow> string \<Rightarrow> cal_actor \<Rightarrow> calendar \<Rightarrow> (string \<times> jsval) list \<Rightarrow> cal_store \<Rightarrow> unit res" where
  "emitAudit env t a c details s = (case ce_audit env \<lparr>ev_eventType = t, ev_tenantId = st_tenant s, ev_actorId = da_userId a,
       ev_calendarId = calendar_key c, ev_ownerUserId = cal_ownerUserId c, ev_details = details\<rparr> of
     None \<Rightarrow> Inr () | Some e \<Rightarrow> Inl e)"

definition find_calendar :: "cal_actor \<Rightarrow> string option \<Rightarrow> string \<Rightarrow> cal_store \<Rightarrow> calendar option res" where
  "find_calendar a owner slug s = (case owner of Some u \<Rightarrow> Inr (map_of (st_collections s) (canonicalCalendarKey u slug))
     | None \<Rightarrow> (case filter (\<lambda>c. cal_collectionId c = slug \<and> ''read'' \<in> set (permissionFor c a)) (map snd (st_collections s)) of
         [] \<Rightarrow> Inr None | [c] \<Rightarrow> Inr (Some c) | _ \<Rightarrow> Inl (calDavError ''AMBIGUOUS_CALENDAR_ID'' 409)))"

definition resolveCollection :: "jsval \<Rightarrow> jsval \<Rightarrow> cal_store \<Rightarrow> (cal_actor \<times> calendar) res" where
  "resolveCollection actor calendarId s =
     bindE (normalizeDavActor actor (st_tenant s)) (\<lambda>a.
     bindE (splitCalendarId calendarId) (\<lambda>(owner, slug).
     bindE (find_calendar a owner slug s) (\<lambda>found.
     case found of None \<Rightarrow> Inl (calDavError ''CALENDAR_NOT_FOUND'' 404)
     | Some c \<Rightarrow> if cal_tenantId c \<noteq> st_tenant s then Inl (calDavError ''CROSS_TENANT_DENIED'' 403)
         else bindE (assertCalendarPermission c a ''read'') (\<lambda>_. Inr (a, c)))))"

definition put_calendar :: "calendar \<Rightarrow> cal_store \<Rightarrow> cal_store" where
  "put_calendar c s = s\<lparr>st_collections := AList.update (calendar_key c) c (st_collections s)\<rparr>"

text \<open>The collection with its objects already changed; the result is the collection as it is then.\<close>

definition recordChange :: "cal_env \<Rightarrow> jsval \<Rightarrow> calendar \<Rightarrow> string \<Rightarrow> cal_object option \<Rightarrow> bool \<Rightarrow> calendar cal_op" where
  "recordChange env clk c i ob deleted s = (let r = st_revision s + 1;
       c1 = c\<lparr>cal_syncToken := makeToken (st_tenant s) (cal_ownerUserId c) (cal_collectionId c) r\<rparr>;
       s1 = put_calendar c1 (s\<lparr>st_revision := r, st_changes := st_changes s @ [\<lparr>lc_revision = r, lc_calendarKey = calendar_key c,
         lc_objectId = i, lc_object = ob, lc_deleted = deleted\<rparr>]\<rparr>)
     in liftE (isoDate (ce_parse env) clk) s1 (\<lambda>t. let c2 = c1\<lparr>cal_updatedAt := t\<rparr> in (Inr c2, put_calendar c2 s1)))"

definition color_pattern :: "string \<Rightarrow> bool" where
  "color_pattern s \<longleftrightarrow> length s = 7 \<and> hd s = CHR ''#'' \<and> list_all (\<lambda>c. hex_value c \<noteq> None) (tl s)"

definition calendar_color :: "jsval \<Rightarrow> string option res" where
  "calendar_color v = (if v = JNull then Inr None
     else bindE (need_str color_pattern (calDavError ''INVALID_COLLECTION'' 422) v) (\<lambda>x. Inr (Some (upper x))))"

definition createCalendarCollection :: "cal_env \<Rightarrow> jsval \<Rightarrow> jsval \<Rightarrow> calendar_view cal_op" where
  "createCalendarCollection env actor i s = (let invalid = calDavError ''INVALID_COLLECTION'' 422;
       cid = js_default (jget i ''collectionId'') (JStr ''default'') in
     liftE (normalizeDavActor actor (st_tenant s)) s (\<lambda>a.
     liftE (canonicalUserId (js_default (jget i ''ownerUserId'') (JStr (da_userId a)))) s (\<lambda>owner.
     if owner \<noteq> da_userId a then (Inl (calDavError ''ACL_DENIED'' 403), s)
     else liftE (canonicalCalendarSlug cid) s (\<lambda>slug.
     if map_of (st_collections s) (canonicalCalendarKey owner slug) \<noteq> None then (Inl (calDavError ''CALENDAR_EXISTS'' 409), s)
     else liftE (need_str (\<lambda>n. trim n \<noteq> [] \<and> length n \<le> 255) invalid (js_default (jget i ''displayName'') cid)) s (\<lambda>name.
     liftE (need_str (\<lambda>d. length d \<le> 2000) invalid (js_default (jget i ''description'') (JStr []))) s (\<lambda>desc.
     liftE (need_str tzid_ok (calDavError ''INVALID_TIMEZONE'' 422) (js_default (jget i ''timezone'') (JStr ''UTC''))) s (\<lambda>zone.
     liftE (calendar_color (js_default (jget i ''color'') JNull)) s (\<lambda>color.
     liftE (isoDate (ce_parse env) (ce_clock1 env)) s (\<lambda>t.
     let c = \<lparr>cal_tenantId = st_tenant s, cal_ownerUserId = owner, cal_collectionId = slug, cal_displayName = trim name,
           cal_description = desc, cal_timezone = zone, cal_color = color,
           cal_href = ''/dav/calendars/'' @ encodeURIComponent (st_tenant s) @ ''/'' @ encodeURIComponent owner @ ''/'' @ encodeURIComponent slug @ ''/'',
           cal_createdAt = t, cal_updatedAt = t, cal_syncToken = makeToken (st_tenant s) owner slug (st_revision s),
           cal_acl = None, cal_objects = []\<rparr>; s1 = put_calendar c s in
     liftE (emitAudit env ''caldav.collection.created'' a c [(''displayName'', JStr (cal_displayName c)), (''timezone'', JStr zone)] s1) s1 (\<lambda>_.
     (Inr (publicCollection c a), s1)))))))))))"

definition listCalendarCollections :: "jsval \<Rightarrow> cal_store \<Rightarrow> calendar_view list res" where
  "listCalendarCollections actor s = bindE (normalizeDavActor actor (st_tenant s)) (\<lambda>a.
     Inr (map (\<lambda>c. publicCollection c a) (filter (\<lambda>c. ''read'' \<in> set (permissionFor c a)) (map snd (st_collections s)))))"

definition getCalendarCollection :: "jsval \<Rightarrow> jsval \<Rightarrow> cal_store \<Rightarrow> calendar_view res" where
  "getCalendarCollection actor calendarId s = bindE (resolveCollection actor calendarId s) (\<lambda>(a, c). Inr (publicCollection c a))"

definition ACL_PERMISSIONS :: "string list" where
  "ACL_PERMISSIONS = [''read'', ''write'']"

definition acl_permissions :: "jsval \<Rightarrow> string list res" where
  "acl_permissions v = (let e = calDavError ''INVALID_ACL'' 422 in
     bindE (need_arr e (js_default v (JArr [JStr ''read'']))) (\<lambda>vs.
     if vs = [] then Inl e
     else bindE (mapE (need_str (\<lambda>p. p \<in> set ACL_PERMISSIONS) e) vs) (\<lambda>ps. let unique = dedup ps in
       Inr (if ''write'' \<in> set unique \<and> ''read'' \<notin> set unique then ''read'' # unique else unique))))"

definition setCalendarAcl :: "cal_env \<Rightarrow> jsval \<Rightarrow> jsval \<Rightarrow> calendar_view cal_op" where
  "setCalendarAcl env actor i s =
     liftE (resolveCollection actor (jget i ''calendarId'') s) s (\<lambda>(a, c).
     if da_userId a \<noteq> cal_ownerUserId c then (Inl (calDavError ''ACL_OWNER_REQUIRED'' 403), s)
     else liftE (canonicalUserId (jget i ''delegateUserId'')) s (\<lambda>d.
     if d = cal_ownerUserId c then (Inl (calDavError ''INVALID_ACL'' 422), s)
     else liftE (acl_permissions (jget i ''permissions'')) s (\<lambda>ps.
     let c1 = c\<lparr>cal_acl := Some \<lparr>ac_delegateUserId = d, ac_permissions = ps\<rparr>\<rparr>; s1 = put_calendar c1 s in
     liftE (isoDate (ce_parse env) (ce_clock1 env)) s1 (\<lambda>t. let c2 = c1\<lparr>cal_updatedAt := t\<rparr>; s2 = put_calendar c2 s1 in
     liftE (emitAudit env ''caldav.acl.updated'' a c2 [(''delegateUserId'', JStr d), (''permissions'', JArr (map JStr ps))] s2) s2 (\<lambda>_.
     (Inr (publicCollection c2 a), s2))))))"

definition revokeCalendarAcl :: "cal_env \<Rightarrow> jsval \<Rightarrow> jsval \<Rightarrow> calendar_view cal_op" where
  "revokeCalendarAcl env actor i s =
     liftE (resolveCollection actor (jget i ''calendarId'') s) s (\<lambda>(a, c).
     if da_userId a \<noteq> cal_ownerUserId c then (Inl (calDavError ''ACL_OWNER_REQUIRED'' 403), s)
     else let c1 = c\<lparr>cal_acl := None\<rparr>; s1 = put_calendar c1 s in
     liftE (isoDate (ce_parse env) (ce_clock1 env)) s1 (\<lambda>t. let c2 = c1\<lparr>cal_updatedAt := t\<rparr>; s2 = put_calendar c2 s1 in
     liftE (emitAudit env ''caldav.acl.revoked'' a c2 [] s2) s2 (\<lambda>_. (Inr (publicCollection c2 a), s2))))"

definition getCalendarEtag :: "cal_env \<Rightarrow> jsval \<Rightarrow> jsval \<Rightarrow> cal_store \<Rightarrow> (string \<times> string \<times> string) res" where
  "getCalendarEtag env actor calendarId s = bindE (resolveCollection actor calendarId s) (\<lambda>(a, c).
     Inr (calendar_key c, collectionEtag env c, da_userId a))"

text \<open>What the three writing operations begin with: the collection, the right to write it and the object's identifier.\<close>

definition writable :: "jsval \<Rightarrow> jsval \<Rightarrow> cal_store \<Rightarrow> (cal_actor \<times> calendar \<times> string) res" where
  "writable actor i s = bindE (resolveCollection actor (jget i ''calendarId'') s) (\<lambda>(a, c).
     bindE (assertCalendarPermission c a ''write'') (\<lambda>_. bindE (canonicalCalendarSlug (jget i ''objectId'')) (\<lambda>oid. Inr (a, c, oid))))"

definition object_details :: "cal_object \<Rightarrow> (string \<times> jsval) list" where
  "object_details ob = [(''objectId'', JStr (ob_objectId ob)), (''uid'', JStr (im_uid (ob_metadata ob))), (''etag'', JStr (ob_etag ob)),
     (''sizeBytes'', JInt (int (byte_length (ob_ical ob))))]"

text \<open>\<open>objects.set\<close>, \<open>recordChange\<close>, \<open>emitAudit\<close> and the view.\<close>

definition store_object :: "cal_env \<Rightarrow> string \<Rightarrow> cal_actor \<Rightarrow> calendar \<Rightarrow> cal_object \<Rightarrow> object_view cal_op" where
  "store_object env t a c ob s =
     bindS (recordChange env (ce_clock2 env) (c\<lparr>cal_objects := AList.update (ob_objectId ob) ob (cal_objects c)\<rparr>) (ob_objectId ob) (Some ob) False)
       (\<lambda>c2 s2. liftE (emitAudit env t a c2 (object_details ob) s2) s2 (\<lambda>_. (Inr (publicObject c2 ob), s2))) s"

definition createCalendarObject :: "cal_env \<Rightarrow> jsval \<Rightarrow> jsval \<Rightarrow> object_view cal_op" where
  "createCalendarObject env actor i s =
     liftE (writable actor i s) s (\<lambda>(a, c, oid).
     if map_of (cal_objects c) oid \<noteq> None then
       (Inl (if jget i ''ifNoneMatch'' = JStr ''*'' then calDavError ''PRECONDITION_FAILED'' 412 else calDavError ''OBJECT_EXISTS'' 409), s)
     else if jget i ''ifNoneMatch'' \<noteq> JUndef \<and> jget i ''ifNoneMatch'' \<noteq> JStr ''*'' then (Inl (calDavError ''INVALID_PRECONDITION'' 400), s)
     else liftE (validateICalendar (jget i ''ical'')) s (\<lambda>m.
     liftE (isoDate (ce_parse env) (ce_clock1 env)) s (\<lambda>t.
     store_object env ''caldav.object.created'' a c \<lparr>ob_tenantId = st_tenant s, ob_ownerUserId = cal_ownerUserId c, ob_objectId = oid,
       ob_uid = im_uid m, ob_ical = im_canonicalText m, ob_metadata = m,
       ob_etag = calculateEtag env (st_tenant s) (calendar_key c) oid (im_canonicalText m), ob_createdAt = t, ob_updatedAt = t\<rparr> s)))"

definition getCalendarObject :: "jsval \<Rightarrow> jsval \<Rightarrow> cal_store \<Rightarrow> object_view res" where
  "getCalendarObject actor i s = bindE (resolveCollection actor (jget i ''calendarId'') s) (\<lambda>(a, c).
     bindE (canonicalCalendarSlug (jget i ''objectId'')) (\<lambda>oid. case map_of (cal_objects c) oid of
       None \<Rightarrow> Inl (calDavError ''OBJECT_NOT_FOUND'' 404) | Some ob \<Rightarrow> Inr (publicObject c ob)))"

definition if_match :: "jsval \<Rightarrow> string \<Rightarrow> unit res" where
  "if_match v etag = (if v = JUndef then Inl (calDavError ''PRECONDITION_REQUIRED'' 428)
     else needE (v = JStr ''*'' \<or> v = JStr etag) (calDavError ''PRECONDITION_FAILED'' 412))"

definition updateCalendarObject :: "cal_env \<Rightarrow> jsval \<Rightarrow> jsval \<Rightarrow> object_view cal_op" where
  "updateCalendarObject env actor i s =
     liftE (writable actor i s) s (\<lambda>(a, c, oid).
     (case map_of (cal_objects c) oid of None \<Rightarrow> (Inl (calDavError ''OBJECT_NOT_FOUND'' 404), s)
     | Some old \<Rightarrow> liftE (if_match (jget i ''ifMatch'') (ob_etag old)) s (\<lambda>_.
       liftE (validateICalendar (jget i ''ical'')) s (\<lambda>m.
       if im_uid m \<noteq> im_uid (ob_metadata old) then (Inl (calDavError ''UID_IMMUTABLE'' 409), s)
       else liftE (isoDate (ce_parse env) (ce_clock1 env)) s (\<lambda>t.
       store_object env ''caldav.object.updated'' a c (old\<lparr>ob_ical := im_canonicalText m, ob_metadata := m,
         ob_etag := calculateEtag env (st_tenant s) (calendar_key c) oid (im_canonicalText m), ob_updatedAt := t\<rparr>) s)))))"

definition deleteCalendarObject :: "cal_env \<Rightarrow> jsval \<Rightarrow> jsval \<Rightarrow> (string \<times> string \<times> string \<times> string) cal_op" where
  "deleteCalendarObject env actor i s =
     liftE (writable actor i s) s (\<lambda>(a, c, oid).
     (case map_of (cal_objects c) oid of None \<Rightarrow> (Inl (calDavError ''OBJECT_NOT_FOUND'' 404), s)
     | Some old \<Rightarrow> liftE (if_match (jget i ''ifMatch'') (ob_etag old)) s (\<lambda>_.
       bindS (recordChange env (ce_clock2 env) (c\<lparr>cal_objects := AList.delete oid (cal_objects c)\<rparr>) oid None True)
         (\<lambda>c2 s2. liftE (emitAudit env ''caldav.object.deleted'' a c2 [(''objectId'', JStr oid), (''uid'', JStr (im_uid (ob_metadata old))),
           (''previousEtag'', JStr (ob_etag old))] s2) s2 (\<lambda>_. (Inr (calendar_key c2, oid, ob_etag old, cal_syncToken c2), s2))) s)))"

text \<open>The last change of each object, in the order of the first.\<close>

fun last_changes :: "cal_change list \<Rightarrow> (string \<times> cal_object option \<times> bool) list \<Rightarrow> (string \<times> cal_object option \<times> bool) list" where
  "last_changes [] m = m"
| "last_changes (l # ls) m = last_changes ls (AList.update (lc_objectId l) (lc_object l, lc_deleted l) m)"

definition changed_since :: "jsval \<Rightarrow> nat \<Rightarrow> calendar \<Rightarrow> cal_store \<Rightarrow> (string \<times> cal_object option \<times> bool) list" where
  "changed_since token n c s =
     (if nullish token then map (\<lambda>ob. (ob_objectId ob, Some ob, False)) (map snd (cal_objects c))
      else last_changes (filter (\<lambda>l. n < lc_revision l \<and> lc_calendarKey l = calendar_key c) (st_changes s)) [])"

fun live_objects :: "(string \<times> cal_object option \<times> bool) list \<Rightarrow> cal_object list" where
  "live_objects [] = []"
| "live_objects ((i, ob, del) # ms) = (if del then live_objects ms else (case ob of None \<Rightarrow> live_objects ms | Some x \<Rightarrow> x # live_objects ms))"

definition listCalendarObjects :: "jsval \<Rightarrow> jsval \<Rightarrow> cal_store \<Rightarrow> cal_sync res" where
  "listCalendarObjects actor i s = bindE (resolveCollection actor (jget i ''calendarId'') s) (\<lambda>(a, c).
     bindE (decodeToken (jget i ''syncToken'') (st_tenant s) (cal_ownerUserId c) (cal_collectionId c)) (\<lambda>n.
     if st_revision s < n then Inl (calDavError ''INVALID_SYNC_TOKEN'' 400)
     else let changed = changed_since (jget i ''syncToken'') n c s in
       Inr \<lparr>cv_calendarId = calendar_key c, cv_objects = map (publicObject c) (live_objects changed),
         cv_deletedObjectIds = map fst (filter (\<lambda>(_, _, del). del) changed),
         cv_syncToken = makeToken (st_tenant s) (cal_ownerUserId c) (cal_collectionId c) (st_revision s)\<rparr>))"

definition deleteCalendarCollection :: "cal_env \<Rightarrow> jsval \<Rightarrow> jsval \<Rightarrow> string cal_op" where
  "deleteCalendarCollection env actor i s =
     liftE (resolveCollection actor (jget i ''calendarId'') s) s (\<lambda>(a, c).
     if da_userId a \<noteq> cal_ownerUserId c then (Inl (calDavError ''ACL_OWNER_REQUIRED'' 403), s)
     else if cal_objects c \<noteq> [] then (Inl (calDavError ''CALENDAR_NOT_EMPTY'' 409), s)
     else if jget i ''ifMatch'' \<noteq> JUndef \<and> jget i ''ifMatch'' \<noteq> JStr ''*'' \<and> jget i ''ifMatch'' \<noteq> JStr (collectionEtag env c)
     then (Inl (calDavError ''PRECONDITION_FAILED'' 412), s)
     else (Inr (calendar_key c), s\<lparr>st_collections := AList.delete (calendar_key c) (st_collections s)\<rparr>))"

definition makeScopedToken :: "jsval \<Rightarrow> cal_store \<Rightarrow> string res" where \<comment> \<open>\<open>makeSyncToken\<close>\<close>
  "makeScopedToken i s = bindE (splitCalendarId (jget i ''calendarId'')) (\<lambda>(owner, slug).
     case owner of None \<Rightarrow> Inl (calDavError ''INVALID_CALENDAR_ID'' 422)
     | Some u \<Rightarrow> bindE (need_int (\<lambda>n. 0 \<le> n \<and> n \<le> int (st_revision s)) (calDavError ''INVALID_SYNC_TOKEN'' 400)
         (js_default (jget i ''revision'') (JInt (int (st_revision s))))) (\<lambda>n. Inr (makeToken (st_tenant s) u slug (nat n))))"

lemmas caldav_ids [code_defs] = cal_tenant_ok_def slug_ok_def canonicalTenantId_def canonicalUserId_def canonicalCalendarSlug_def
  isoDate_def ACTOR_ROLES_def normalizeDavActor_def canonicalCalendarKey_def splitCalendarId_def uri_plain_def percent_def uri_char_def
  encodeURIComponent_def hex_value_def hex_pair_def follow_bytes_def utf8_value_def decodeURIComponent_def TOKEN_PREFIX_def
  makeToken_def split_token_def decodeToken_def padded_def civil_date_def toISOString_def

lemmas caldav_ops [code_defs] = calculateEtag_def collectionEtag_def calendar_key_def publicAcl_def publicCollection_def publicObject_def
  permissionFor_def assertCalendarPermission_def createCalDavStore_def emitAudit_def find_calendar_def resolveCollection_def put_calendar_def recordChange_def
  color_pattern_def calendar_color_def createCalendarCollection_def listCalendarCollections_def getCalendarCollection_def ACL_PERMISSIONS_def
  acl_permissions_def setCalendarAcl_def revokeCalendarAcl_def getCalendarEtag_def writable_def object_details_def store_object_def
  createCalendarObject_def getCalendarObject_def if_match_def updateCalendarObject_def deleteCalendarObject_def changed_since_def
  listCalendarObjects_def deleteCalendarCollection_def makeScopedToken_def

subsection \<open>Percent encoding is undone\<close>

lemma hex_digits: "list_all (\<lambda>d. hex_value (''0123456789ABCDEF'' ! d) = Some d \<and> ''0123456789ABCDEF'' ! d \<noteq> CHR ''/'') [0..<16]"
  by code_simp

lemma hex_digit_value: "d < 16 \<Longrightarrow> hex_value (''0123456789ABCDEF'' ! d) = Some d \<and> ''0123456789ABCDEF'' ! d \<noteq> CHR ''/''"
  using hex_digits by (simp only: list_all_iff set_upt atLeastLessThan_iff) auto

lemma units_percent: "n < 256 \<Longrightarrow> uri_units (percent n @ s) = map_option (\<lambda>us. (True, n) # us) (uri_units s)"
proof -
  assume n: "n < 256"
  then have "n div 16 < 16" "n mod 16 < 16" by (simp_all add: less_mult_imp_div_less)
  then have "hex_pair [''0123456789ABCDEF'' ! (n div 16), ''0123456789ABCDEF'' ! (n mod 16)] = Some n"
    using hex_digit_value by (simp add: hex_pair_def)
  then show ?thesis by (simp add: percent_def Let_def)
qed

definition char_units :: "char \<Rightarrow> (bool \<times> nat) list" where
  "char_units c = (let n = ccode c in if uri_plain c then [(False, n)] else if n < 128 then [(True, n)]
     else [(True, 192 + n div 64), (True, 128 + n mod 64)])"

lemma ccode_lt_256: "ccode c < 256"
  by (simp add: ccode_def)

lemma units_char: "uri_units (uri_char c @ s) = map_option (\<lambda>us. char_units c @ us) (uri_units s)"
proof (cases "uri_plain c")
  case True
  moreover have "c \<noteq> CHR ''%''" using True by (auto simp: uri_plain_def char_defs)
  ultimately show ?thesis by (simp add: uri_char_def char_units_def Let_def)
next
  case False
  have n: "ccode c < 256" by (rule ccode_lt_256)
  then have "ccode c div 64 < 4" "ccode c mod 64 < 64" by (simp_all add: less_mult_imp_div_less)
  then have "192 + ccode c div 64 < 256" "128 + ccode c mod 64 < 256" by linarith+
  with False n show ?thesis
    by (cases "uri_units s") (simp_all add: uri_char_def char_units_def Let_def units_percent)
qed

lemma decode_char: "utf8_decode (char_units c @ us) = map_option (\<lambda>vs. ccode c # vs) (utf8_decode us)"
proof (cases "uri_plain c \<or> ccode c < 128")
  case True
  then show ?thesis by (auto simp: char_units_def Let_def)
next
  case False
  define n where "n = ccode c"
  have n: "128 \<le> n" "n < 256" using False ccode_lt_256 [of c] by (simp_all add: n_def)
  have d: "n div 64 = 2 \<or> n div 64 = 3" using n by linarith
  have m: "n mod 64 < 64" by simp
  have e: "n div 64 = 2 \<and> 128 + n mod 64 = n \<and> n < 192 \<or> n div 64 = 3 \<and> 192 + n mod 64 = n"
    using d mult_div_mod_eq [of 64 n] m by (elim disjE) linarith+
  have "follow_bytes (192 + n div 64) = 1" using d by (auto simp: follow_bytes_def)
  moreover have "utf8_value (192 + n div 64) [(True, 128 + n mod 64)] = Some n"
    using e m n by (elim disjE) (simp_all add: utf8_value_def Let_def)
  ultimately show ?thesis using False d by (auto simp: char_units_def Let_def n_def)
qed

lemma encode_decode: "decodeURIComponent (encodeURIComponent s) = Some (map ccode s)"
proof -
  have "\<exists>us. uri_units (encodeURIComponent s) = Some us \<and> utf8_decode us = Some (map ccode s)"
  proof (induction s)
    case Nil
    show ?case by (simp add: encodeURIComponent_def)
  next
    case (Cons c s)
    then obtain us where "uri_units (encodeURIComponent s) = Some us" "utf8_decode us = Some (map ccode s)" by blast
    then have "uri_units (encodeURIComponent (c # s)) = Some (char_units c @ us)" "utf8_decode (char_units c @ us) = Some (map ccode (c # s))"
      by (simp_all add: encodeURIComponent_def units_char decode_char)
    then show ?case by blast
  qed
  then show ?thesis by (auto simp: decodeURIComponent_def)
qed

lemma encode_no_slash: "list_all (\<lambda>c. c \<noteq> CHR ''/'') (encodeURIComponent s)"
proof (induction s)
  case Nil
  show ?case by (simp add: encodeURIComponent_def)
next
  case (Cons c s)
  have p: "list_all (\<lambda>x. x \<noteq> CHR ''/'') (percent n)" if "n < 256" for n
  proof -
    have "n div 16 < 16" "n mod 16 < 16" using that by (simp_all add: less_mult_imp_div_less)
    then show ?thesis using hex_digit_value by (simp add: percent_def Let_def)
  qed
  have "ccode c div 64 < 4" "ccode c mod 64 < 64" using ccode_lt_256 [of c] by (simp_all add: less_mult_imp_div_less)
  then have "192 + ccode c div 64 < 256" "128 + ccode c mod 64 < 256" by linarith+
  moreover have "uri_plain c \<Longrightarrow> c \<noteq> CHR ''/''" by (auto simp: uri_plain_def char_defs)
  ultimately have "list_all (\<lambda>x. x \<noteq> CHR ''/'') (uri_char c)" using p ccode_lt_256 [of c] by (auto simp: uri_char_def Let_def)
  with Cons show ?case by (simp add: encodeURIComponent_def)
qed

lemma encode_nonempty: "s \<noteq> [] \<Longrightarrow> encodeURIComponent s \<noteq> []"
  by (cases s) (auto simp: encodeURIComponent_def uri_char_def percent_def Let_def)

lemma slash_word: "list_all (\<lambda>c. c \<noteq> CHR ''/'') w \<Longrightarrow> slash_parts (w @ CHR ''/'' # r) = w # slash_parts r"
  by (rule split_by_word) simp_all

lemma split_made_token:
  assumes "t \<noteq> []" "u \<noteq> []" "c \<noteq> []"
  shows "split_token (makeToken t u c n) = Some (encodeURIComponent t, encodeURIComponent u, encodeURIComponent c, dec n)"
proof -
  have d: "list_all (\<lambda>c. c \<noteq> CHR ''/'') (dec n)"
    using dec_digits [of n] by (auto simp: list_all_iff char_defs)
  have "dec n \<noteq> []" by (subst dec.simps) simp
  moreover have "slash_parts (''sync/'' @ dec n) = [''sync'', dec n]"
    using slash_word [of "''sync''" "dec n"] d by (simp add: split_by_last)
  ultimately show ?thesis using assms
    by (simp add: split_token_def makeToken_def starts_with_def slash_word encode_no_slash encode_nonempty dec_digits)
qed

lemma decode_made_token:
  assumes "t \<noteq> []" "u \<noteq> []" "c \<noteq> []" "int n \<le> max_safe"
  shows "decodeToken (JStr (makeToken t u c n)) t u c = Inr n"
  using assms by (simp add: decodeToken_def nullish_def split_made_token encode_decode is_safe_int_def max_safe_def)

subsection \<open>Calls\<close>

datatype cal_kind = MakeCalendar | SetAcl | RevokeAcl | MakeObject | UpdateObject | DropObject | DropCalendar

datatype cal_call = CalCall (call_kind: cal_kind) (call_env: cal_env) (call_actor: jsval) (call_input: jsval)

fun cal_run :: "cal_call \<Rightarrow> cal_store \<Rightarrow> cal_store" where
  "cal_run (CalCall MakeCalendar env actor i) s = snd (createCalendarCollection env actor i s)"
| "cal_run (CalCall SetAcl env actor i) s = snd (setCalendarAcl env actor i s)"
| "cal_run (CalCall RevokeAcl env actor i) s = snd (revokeCalendarAcl env actor i s)"
| "cal_run (CalCall MakeObject env actor i) s = snd (createCalendarObject env actor i s)"
| "cal_run (CalCall UpdateObject env actor i) s = snd (updateCalendarObject env actor i s)"
| "cal_run (CalCall DropObject env actor i) s = snd (deleteCalendarObject env actor i s)"
| "cal_run (CalCall DropCalendar env actor i) s = snd (deleteCalendarCollection env actor i s)"

fun cal_runs :: "cal_call list \<Rightarrow> cal_store \<Rightarrow> cal_store" where
  "cal_runs [] s = s"
| "cal_runs (c # cs) s = cal_runs cs (cal_run c s)"

subsection \<open>The well-formed stores\<close>

definition acl_ok :: "string \<Rightarrow> cal_acl option \<Rightarrow> bool" where
  "acl_ok owner l \<longleftrightarrow> (\<forall>a. l = Some a \<longrightarrow> ac_delegateUserId a \<noteq> owner \<and> ''read'' \<in> set (ac_permissions a)
     \<and> set (ac_permissions a) \<subseteq> set ACL_PERMISSIONS \<and> distinct (ac_permissions a))"

definition calendar_ok :: "string \<Rightarrow> calendar \<Rightarrow> bool" where
  "calendar_ok tenant c \<longleftrightarrow> cal_tenantId c = tenant \<and> actor_id_ok (cal_ownerUserId c) \<and> slug_ok (cal_collectionId c)
     \<and> acl_ok (cal_ownerUserId c) (cal_acl c) \<and> distinct (map fst (cal_objects c))
     \<and> (\<forall>(i, ob) \<in> set (cal_objects c). ob_objectId ob = i)"

definition change_ok :: "nat \<Rightarrow> cal_change \<Rightarrow> bool" where
  "change_ok r l \<longleftrightarrow> lc_revision l \<le> r \<and> (lc_deleted l \<longleftrightarrow> lc_object l = None) \<and> (\<forall>ob. lc_object l = Some ob \<longrightarrow> ob_objectId ob = lc_objectId l)"

definition cal_store_ok :: "cal_store \<Rightarrow> bool" where
  "cal_store_ok s \<longleftrightarrow> cal_tenant_ok (st_tenant s) \<and> distinct (map fst (st_collections s))
     \<and> (\<forall>(k, c) \<in> set (st_collections s). k = calendar_key c \<and> calendar_ok (st_tenant s) c)
     \<and> (\<forall>l \<in> set (st_changes s). change_ok (st_revision s) l)"

abbreviation calendar_at :: "cal_store \<Rightarrow> string \<Rightarrow> calendar option" where
  "calendar_at s \<equiv> map_of (st_collections s)"

lemma stored_calendar: "cal_store_ok s \<Longrightarrow> calendar_at s k = Some c \<Longrightarrow> k = calendar_key c \<and> calendar_ok (st_tenant s) c"
  by (drule map_of_in_set) (auto simp: cal_store_ok_def)

lemma resolve_spec:
  assumes ok: "cal_store_ok s" and r: "resolveCollection actor v s = Inr (a, c)"
  shows "normalizeDavActor actor (st_tenant s) = Inr a \<and> calendar_at s (calendar_key c) = Some c \<and> ''read'' \<in> set (permissionFor c a)"
proof -
  from r obtain owner slug where a: "normalizeDavActor actor (st_tenant s) = Inr a" and read: "''read'' \<in> set (permissionFor c a)"
    and found: "find_calendar a owner slug s = Inr (Some c)"
    by (auto simp: resolveCollection_def assertCalendarPermission_def guard_iff split: option.split_asm)
  have "calendar_at s (calendar_key c) = Some c"
  proof (cases owner)
    case (Some u)
    with found have "calendar_at s (canonicalCalendarKey u slug) = Some c" by (simp add: find_calendar_def)
    with stored_calendar [OF ok this] show ?thesis by simp
  next
    case None
    define xs where "xs = filter (\<lambda>c. cal_collectionId c = slug \<and> ''read'' \<in> set (permissionFor c a)) (map snd (st_collections s))"
    from None found have "xs = [c]" by (simp add: find_calendar_def xs_def [symmetric] split: list.splits)
    moreover have "set xs \<subseteq> snd ` set (st_collections s)" by (auto simp: xs_def)
    ultimately obtain k where k: "(k, c) \<in> set (st_collections s)" by auto
    have "k = calendar_key c" "distinct (map fst (st_collections s))" using ok k unfolding cal_store_ok_def by blast+
    with k show ?thesis by simp
  qed
  with a read show ?thesis by blast
qed

subsection \<open>What a call does\<close>

definition same_head :: "calendar \<Rightarrow> calendar \<Rightarrow> bool" where
  "same_head c d \<longleftrightarrow> cal_tenantId d = cal_tenantId c \<and> cal_ownerUserId d = cal_ownerUserId c \<and> cal_collectionId d = cal_collectionId c
     \<and> cal_href d = cal_href c"

fun set_object :: "string \<Rightarrow> cal_object option \<Rightarrow> (string \<times> cal_object) list \<Rightarrow> (string \<times> cal_object) list" where
  "set_object i (Some ob) m = AList.update i ob m"
| "set_object i None m = AList.delete i m"

inductive cal_effect :: "jsval \<Rightarrow> jsval \<Rightarrow> cal_store \<Rightarrow> cal_store \<Rightarrow> bool" where
  ce_none: "cal_effect actor i s s"
| ce_book: "cal_effect actor i s (put_calendar c s)"
    if "normalizeDavActor actor (st_tenant s) = Inr a" "calendar_at s (calendar_key c) = None" "calendar_ok (st_tenant s) c"
      "cal_ownerUserId c = da_userId a" "cal_acl c = None" "cal_objects c = []"
| ce_acl: "cal_effect actor i s (put_calendar d s)"
    if "normalizeDavActor actor (st_tenant s) = Inr a" "calendar_at s (calendar_key c) = Some c" "same_head c d"
      "cal_ownerUserId c = da_userId a" "acl_ok (cal_ownerUserId c) (cal_acl d)" "cal_objects d = cal_objects c"
| ce_object: "cal_effect actor i s (put_calendar d (s\<lparr>st_revision := Suc (st_revision s), st_changes := st_changes s @
      [\<lparr>lc_revision = Suc (st_revision s), lc_calendarKey = calendar_key c, lc_objectId = oid, lc_object = ob, lc_deleted = (ob = None)\<rparr>]\<rparr>))"
    if "normalizeDavActor actor (st_tenant s) = Inr a" "calendar_at s (calendar_key c) = Some c" "same_head c d"
      "''write'' \<in> set (permissionFor c a)" "cal_acl d = cal_acl c" "cal_objects d = set_object oid ob (cal_objects c)"
      "\<And>x. ob = Some x \<Longrightarrow> ob_objectId x = oid"
      "\<And>old. map_of (cal_objects c) oid = Some old \<Longrightarrow> (jget i ''ifMatch'' = JStr ''*'' \<or> jget i ''ifMatch'' = JStr (ob_etag old))
         \<and> (\<forall>x. ob = Some x \<longrightarrow> im_uid (ob_metadata x) = im_uid (ob_metadata old))"
| ce_drop: "cal_effect actor i s (s\<lparr>st_collections := AList.delete (calendar_key c) (st_collections s)\<rparr>)"
    if "normalizeDavActor actor (st_tenant s) = Inr a" "calendar_at s (calendar_key c) = Some c"
      "cal_ownerUserId c = da_userId a" "cal_objects c = []"

inductive_cases cal_effect_cases: "cal_effect actor i s t"

lemma head_key: "same_head c d \<Longrightarrow> calendar_key d = calendar_key c"
  by (simp add: same_head_def calendar_key_def)

lemma put_put: "calendar_key d = calendar_key c \<Longrightarrow> put_calendar d (put_calendar c s) = put_calendar d s"
  by (simp add: put_calendar_def update_last)

lemma snd_audit: "P (snd (liftE (emitAudit env t a c ds s) s (\<lambda>_. (r, s)))) = P s"
  by (cases "emitAudit env t a c ds s") auto

lemma record_change_effect:
  assumes "normalizeDavActor actor (st_tenant s) = Inr a" "calendar_at s (calendar_key c) = Some c" "''write'' \<in> set (permissionFor c a)"
    and "\<And>x. ob = Some x \<Longrightarrow> ob_objectId x = oid"
    and "\<And>old. map_of (cal_objects c) oid = Some old \<Longrightarrow> (jget i ''ifMatch'' = JStr ''*'' \<or> jget i ''ifMatch'' = JStr (ob_etag old))
         \<and> (\<forall>x. ob = Some x \<longrightarrow> im_uid (ob_metadata x) = im_uid (ob_metadata old))"
  shows "cal_effect actor i s (snd (recordChange env clk (c\<lparr>cal_objects := set_object oid ob (cal_objects c)\<rparr>) oid ob (ob = None) s))"
proof -
  let ?c1 = "c\<lparr>cal_objects := set_object oid ob (cal_objects c), cal_syncToken := makeToken (st_tenant s) (cal_ownerUserId c) (cal_collectionId c) (Suc (st_revision s))\<rparr>"
  let ?s0 = "s\<lparr>st_revision := Suc (st_revision s), st_changes := st_changes s @
      [\<lparr>lc_revision = Suc (st_revision s), lc_calendarKey = calendar_key c, lc_objectId = oid, lc_object = ob, lc_deleted = (ob = None)\<rparr>]\<rparr>"
  have eff: "cal_effect actor i s (put_calendar d ?s0)"
    if "same_head c d" "cal_acl d = cal_acl c" "cal_objects d = set_object oid ob (cal_objects c)" for d
    using ce_object [where c = c and d = d, OF assms(1,2) that(1) assms(3) that(2,3) assms(4,5)] by blast
  have key: "calendar_key (c\<lparr>cal_objects := x\<rparr>) = calendar_key c" "calendar_key (c\<lparr>cal_objects := x, cal_syncToken := y\<rparr>) = calendar_key c"
    "calendar_key (c\<lparr>cal_objects := x, cal_syncToken := y, cal_updatedAt := z\<rparr>) = calendar_key c" for x y z
    by (simp_all add: calendar_key_def)
  show ?thesis
  proof (cases "isoDate (ce_parse env) clk")
    case (Inl e)
    then show ?thesis using eff [of ?c1] by (simp add: recordChange_def Let_def same_head_def key)
  next
    case (Inr t)
    then show ?thesis using eff [of "?c1\<lparr>cal_updatedAt := t\<rparr>"] by (simp add: recordChange_def Let_def same_head_def key put_put)
  qed
qed

lemma snd_bindS: "(\<And>e t. m s = (Inl e, t) \<Longrightarrow> P t) \<Longrightarrow> (\<And>x t. m s = (Inr x, t) \<Longrightarrow> P (snd (k x t))) \<Longrightarrow> P (snd (bindS m k s))"
  by (auto simp: bindS_def split: prod.splits sum.splits)

lemma bind_audit: "P (snd (m s)) \<Longrightarrow> P (snd (bindS m (\<lambda>c2 s2. liftE (emitAudit env t a c2 (ds c2) s2) s2 (\<lambda>_. (r c2, s2))) s))"
  by (rule snd_bindS) (auto simp: snd_audit)

lemma writable_spec:
  assumes "cal_store_ok s" and "writable actor i s = Inr (a, c, oid)"
  shows "normalizeDavActor actor (st_tenant s) = Inr a \<and> calendar_at s (calendar_key c) = Some c \<and> ''write'' \<in> set (permissionFor c a)"
  using assms resolve_spec by (fastforce simp: writable_def assertCalendarPermission_def)

lemma if_match_Inr: "if_match v e = Inr u \<longleftrightarrow> v = JStr ''*'' \<or> v = JStr e"
  by (auto simp: if_match_def)

text \<open>Each operation in turn, its checks first.\<close>

lemma effect_new_calendar:
  assumes "normalizeDavActor actor (st_tenant s) = Inr a" and "canonicalUserId v = Inr owner" and "\<not> owner \<noteq> da_userId a"
    and "canonicalCalendarSlug w = Inr slug" and "\<not> calendar_at s (canonicalCalendarKey owner slug) \<noteq> None"
    and "cal_tenantId c = st_tenant s" "cal_ownerUserId c = owner" "cal_collectionId c = slug" "cal_acl c = None" "cal_objects c = []"
  shows "cal_effect actor i s (put_calendar c s)"
  by (rule ce_book [OF assms(1)]) (use assms in
    \<open>simp_all add: calendar_key_def calendar_ok_def acl_ok_def canonicalUserId_def canonicalCalendarSlug_def\<close>)

lemma effect_create_calendar: "cal_effect actor i s (snd (createCalendarCollection env actor i s))"
  unfolding createCalendarCollection_def Let_def
  by (intro snd_liftE [where P = "cal_effect actor i s"] snd_if [where P = "cal_effect actor i s"]
      ; (simp only: snd_conv)?; (rule ce_none | (rule effect_new_calendar, assumption, assumption, assumption, assumption, assumption))) simp_all

lemma acl_permissions_ok: "acl_permissions v = Inr ps \<Longrightarrow> ''read'' \<in> set ps \<and> set ps \<subseteq> set ACL_PERMISSIONS \<and> distinct ps"
proof -
  assume "acl_permissions v = Inr ps"
  then obtain vs qs where vs: "vs \<noteq> []" and qs: "mapE (need_str (\<lambda>p. p \<in> set ACL_PERMISSIONS) (calDavError ''INVALID_ACL'' 422)) vs = Inr qs"
    and ps: "ps = (if ''write'' \<in> set qs \<and> ''read'' \<notin> set qs then ''read'' # dedup qs else dedup qs)"
    by (auto simp: acl_permissions_def Let_def guard_iff)
  have "qs \<noteq> []" using mapE_length [OF qs] vs by auto
  moreover have sub: "set qs \<subseteq> {''read'', ''write''}" using mapE_set [OF qs] by (auto simp: ACL_PERMISSIONS_def)
  ultimately have "''read'' \<in> set qs \<or> ''write'' \<in> set qs" by (cases qs) auto
  with sub show ?thesis unfolding ps by (auto simp: ACL_PERMISSIONS_def)
qed

lemma effect_acl:
  assumes "cal_store_ok s" and "resolveCollection actor v s = Inr (a, c)" and "\<not> da_userId a \<noteq> cal_ownerUserId c"
    and "acl_ok (cal_ownerUserId c) l"
  shows "cal_effect actor i s (put_calendar (c\<lparr>cal_acl := l\<rparr>) s)"
    and "cal_effect actor i s (put_calendar (c\<lparr>cal_acl := l, cal_updatedAt := t\<rparr>) (put_calendar (c\<lparr>cal_acl := l\<rparr>) s))"
proof -
  have r: "normalizeDavActor actor (st_tenant s) = Inr a" "calendar_at s (calendar_key c) = Some c" using resolve_spec [OF assms(1,2)] by blast+
  show "cal_effect actor i s (put_calendar (c\<lparr>cal_acl := l\<rparr>) s)"
    by (rule ce_acl [OF r]) (use assms(3,4) in \<open>simp_all add: same_head_def\<close>)
  have "put_calendar (c\<lparr>cal_acl := l, cal_updatedAt := t\<rparr>) (put_calendar (c\<lparr>cal_acl := l\<rparr>) s) = put_calendar (c\<lparr>cal_acl := l, cal_updatedAt := t\<rparr>) s"
    by (rule put_put) (simp add: calendar_key_def)
  moreover have "cal_effect actor i s (put_calendar (c\<lparr>cal_acl := l, cal_updatedAt := t\<rparr>) s)"
    by (rule ce_acl [OF r]) (use assms(3,4) in \<open>simp_all add: same_head_def\<close>)
  ultimately show "cal_effect actor i s (put_calendar (c\<lparr>cal_acl := l, cal_updatedAt := t\<rparr>) (put_calendar (c\<lparr>cal_acl := l\<rparr>) s))" by simp
qed

lemma effect_set_acl:
  assumes "cal_store_ok s"
  shows "cal_effect actor i s (snd (setCalendarAcl env actor i s))"
  unfolding setCalendarAcl_def Let_def
  by (intro snd_liftE2 [where P = "cal_effect actor i s"] snd_liftE [where P = "cal_effect actor i s"] snd_if [where P = "cal_effect actor i s"]
      ; (simp only: snd_conv)?; (rule ce_none | (rule effect_acl [OF assms], assumption, assumption)))
    (auto simp: acl_ok_def dest: acl_permissions_ok)

lemma effect_revoke_acl:
  assumes "cal_store_ok s"
  shows "cal_effect actor i s (snd (revokeCalendarAcl env actor i s))"
  unfolding revokeCalendarAcl_def Let_def
  by (intro snd_liftE2 [where P = "cal_effect actor i s"] snd_liftE [where P = "cal_effect actor i s"] snd_if [where P = "cal_effect actor i s"]
      ; (simp only: snd_conv)?; (rule ce_none | (rule effect_acl [OF assms], assumption, assumption)))
    (auto simp: acl_ok_def)

lemma effect_store_object:
  assumes "cal_store_ok s" and "writable actor i s = Inr (a, c, oid)" and "ob_objectId ob = oid"
    and "\<And>old. map_of (cal_objects c) oid = Some old \<Longrightarrow> (jget i ''ifMatch'' = JStr ''*'' \<or> jget i ''ifMatch'' = JStr (ob_etag old))
         \<and> im_uid (ob_metadata ob) = im_uid (ob_metadata old)"
  shows "cal_effect actor i s (snd (store_object env t a c ob s))"
  unfolding store_object_def
  by (rule bind_audit) (use record_change_effect [of actor s a c "Some ob" oid i] writable_spec [OF assms(1,2)] assms(3,4) in auto)

lemma effect_create_object:
  assumes "cal_store_ok s"
  shows "cal_effect actor i s (snd (createCalendarObject env actor i s))"
  unfolding createCalendarObject_def
  by (intro snd_liftE3 [where P = "cal_effect actor i s"] snd_liftE [where P = "cal_effect actor i s"] snd_if [where P = "cal_effect actor i s"]
      ; (simp only: snd_conv)?; (rule ce_none | (rule effect_store_object [OF assms], assumption))) auto

lemma stored_object: "cal_store_ok s \<Longrightarrow> calendar_at s k = Some c \<Longrightarrow> map_of (cal_objects c) i = Some ob \<Longrightarrow> ob_objectId ob = i"
  by (drule (1) stored_calendar, drule map_of_in_set) (auto simp: calendar_ok_def)

lemma effect_update_object:
  assumes "cal_store_ok s"
  shows "cal_effect actor i s (snd (updateCalendarObject env actor i s))"
  unfolding updateCalendarObject_def
proof (intro snd_liftE3 [where P = "cal_effect actor i s"] snd_liftE [where P = "cal_effect actor i s"] snd_if [where P = "cal_effect actor i s"]
      snd_option [where P = "cal_effect actor i s"]; (rule ce_none)?; (simp only: snd_conv)?; (rule ce_none)?)
  fix a c oid old u t and m :: ical_metadata
  assume w: "writable actor i s = Inr (a, c, oid)" and old: "map_of (cal_objects c) oid = Some old"
    and m: "if_match (jget i ''ifMatch'') (ob_etag old) = Inr u" and uid: "\<not> im_uid m \<noteq> im_uid (ob_metadata old)"
  have "ob_objectId old = oid" using stored_object [OF assms _ old] writable_spec [OF assms w] by blast
  then show "cal_effect actor i s (snd (store_object env ''caldav.object.updated'' a c (old\<lparr>ob_ical := im_canonicalText m, ob_metadata := m,
         ob_etag := calculateEtag env (st_tenant s) (calendar_key c) oid (im_canonicalText m), ob_updatedAt := t\<rparr>) s))"
    by (intro effect_store_object [OF assms w]) (use old m uid in \<open>auto simp: if_match_Inr\<close>)
qed

lemma effect_delete_object:
  assumes "cal_store_ok s"
  shows "cal_effect actor i s (snd (deleteCalendarObject env actor i s))"
  unfolding deleteCalendarObject_def
proof (intro snd_liftE3 [where P = "cal_effect actor i s"] snd_liftE [where P = "cal_effect actor i s"]
      snd_option [where P = "cal_effect actor i s"]; (rule ce_none)?; (simp only: snd_conv)?; (rule ce_none)?)
  fix a c oid old u
  assume w: "writable actor i s = Inr (a, c, oid)" and old: "map_of (cal_objects c) oid = Some old"
    and m: "if_match (jget i ''ifMatch'') (ob_etag old) = Inr u"
  show "cal_effect actor i s (snd (bindS (recordChange env (ce_clock2 env) (c\<lparr>cal_objects := AList.delete oid (cal_objects c)\<rparr>) oid None True)
         (\<lambda>c2 s2. liftE (emitAudit env ''caldav.object.deleted'' a c2 [(''objectId'', JStr oid), (''uid'', JStr (im_uid (ob_metadata old))),
           (''previousEtag'', JStr (ob_etag old))] s2) s2 (\<lambda>_. (Inr (calendar_key c2, oid, ob_etag old, cal_syncToken c2), s2))) s))"
    by (rule bind_audit) (use record_change_effect [of actor s a c None oid i] writable_spec [OF assms w] old m in \<open>auto simp: if_match_Inr\<close>)
qed

lemma effect_delete_calendar:
  assumes "cal_store_ok s"
  shows "cal_effect actor i s (snd (deleteCalendarCollection env actor i s))"
  unfolding deleteCalendarCollection_def
  by (intro snd_liftE2 [where P = "cal_effect actor i s"] snd_if [where P = "cal_effect actor i s"]; (rule ce_none)?; (simp only: snd_conv)?; (rule ce_none)?)
    (use resolve_spec [OF assms] in \<open>auto intro!: ce_drop\<close>)

lemma call_effect: "cal_store_ok s \<Longrightarrow> cal_effect (call_actor c) (call_input c) s (cal_run c s)"
  by (cases c; cases "call_kind c")
    (simp_all add: effect_create_calendar effect_set_acl effect_revoke_acl effect_create_object effect_update_object effect_delete_object
      effect_delete_calendar)

subsection \<open>Every store is well formed\<close>

lemma put_calendar_ok:
  assumes "cal_store_ok s" and "calendar_ok (st_tenant s) c"
  shows "cal_store_ok (put_calendar c s)"
  using assms by (auto simp: cal_store_ok_def put_calendar_def set_update_alist split: prod.splits)

lemma set_object_ok:
  assumes "\<And>x. ob = Some x \<Longrightarrow> ob_objectId x = oid" and "distinct (map fst m)" and "\<forall>(i, x) \<in> set m. ob_objectId x = i"
  shows "distinct (map fst (set_object oid ob m)) \<and> (\<forall>(i, x) \<in> set (set_object oid ob m). ob_objectId x = i)"
proof (cases ob)
  case None
  have "set (AList.delete oid m) \<subseteq> set m" by (auto simp: AList.delete_eq)
  with None assms show ?thesis by auto
next
  case (Some x)
  with assms show ?thesis by (auto simp: set_update_alist)
qed

lemma effect_ok: "cal_effect actor i s t \<Longrightarrow> cal_store_ok s \<Longrightarrow> cal_store_ok t \<and> st_tenant t = st_tenant s"
proof (induction rule: cal_effect.induct)
  case (ce_book actor s a c i)
  then show ?case using put_calendar_ok [of s c] by (simp add: put_calendar_def)
next
  case (ce_acl actor s a c d i)
  then have "calendar_ok (st_tenant s) d"
    using stored_calendar [OF ce_acl(7,2)] by (auto simp: calendar_ok_def same_head_def)
  with ce_acl show ?case using put_calendar_ok [of s d] by (simp add: put_calendar_def)
next
  case (ce_object actor s a c d oid ob i)
  let ?s = "s\<lparr>st_revision := Suc (st_revision s), st_changes := st_changes s @
      [\<lparr>lc_revision = Suc (st_revision s), lc_calendarKey = calendar_key c, lc_objectId = oid, lc_object = ob, lc_deleted = (ob = None)\<rparr>]\<rparr>"
  have "cal_store_ok ?s" using ce_object(7,9) by (auto simp: cal_store_ok_def change_ok_def)
  moreover have "calendar_ok (st_tenant s) d"
    using stored_calendar [OF ce_object(9,2)] ce_object(3,5,6) set_object_ok [of ob oid "cal_objects c", OF ce_object(7)]
    by (simp add: calendar_ok_def same_head_def)
  ultimately show ?case using put_calendar_ok [of ?s d] by (simp add: put_calendar_def)
next
  case (ce_drop actor s a c i)
  then have "set (AList.delete (calendar_key c) (st_collections s)) \<subseteq> set (st_collections s)" by (auto simp: AList.delete_eq)
  with ce_drop(5) show ?case by (auto simp: cal_store_ok_def)
qed simp

lemma run_ok: "cal_store_ok s \<Longrightarrow> cal_store_ok (cal_run c s) \<and> st_tenant (cal_run c s) = st_tenant s"
  by (rule effect_ok [OF call_effect])

lemma runs_ok: "cal_store_ok s \<Longrightarrow> cal_store_ok (cal_runs cs s) \<and> st_tenant (cal_runs cs s) = st_tenant s"
proof (induction cs s rule: cal_runs.induct)
  case (2 c cs s)
  with run_ok [of s c] show ?case by simp
qed simp

lemma created_store_ok: "createCalDavStore v = Inr s \<Longrightarrow> cal_store_ok s"
  by (auto simp: createCalDavStore_def canonicalTenantId_def cal_store_ok_def)

subsection \<open>Synchronisation\<close>

definition cal_content :: "string \<Rightarrow> cal_store \<Rightarrow> string \<Rightarrow> cal_object option" where
  "cal_content k s i = (case calendar_at s k of None \<Rightarrow> None | Some c \<Rightarrow> map_of (cal_objects c) i)"

definition calendar_entry :: "cal_change \<Rightarrow> cal_object log_entry" where
  "calendar_entry l = (lc_revision l, lc_objectId l, lc_object l)"

definition cal_log :: "string \<Rightarrow> cal_store \<Rightarrow> cal_object log_entry list" where
  "cal_log k s = map calendar_entry (filter (\<lambda>l. lc_calendarKey l = k) (st_changes s))"

definition cal_step :: "cal_store \<Rightarrow> cal_store \<Rightarrow> bool" where
  "cal_step s t \<longleftrightarrow> (\<exists>actor i. cal_effect actor i s t)"

lemma content_put: "cal_content k (put_calendar c s) = (if k = calendar_key c then map_of (cal_objects c) else cal_content k s)"
  by (auto simp: cal_content_def put_calendar_def fun_eq_iff)

lemma content_at: "calendar_at s (calendar_key c) = Some c \<Longrightarrow> cal_content (calendar_key c) s = map_of (cal_objects c)"
  by (simp add: cal_content_def fun_eq_iff)

lemma map_of_set_object: "map_of (set_object oid ob m) = (map_of m)(oid := ob)"
  by (cases ob) simp_all

lemma effect_logged: "cal_effect actor i s t \<Longrightarrow> st_revision s \<le> st_revision t \<and> (\<exists>es. cal_log k t = cal_log k s @ es
    \<and> cal_content k t = apply_log es (cal_content k s) \<and> (\<forall>e\<in>set es. st_revision s < fst e) \<and> sorted (map fst es))"
proof (induction rule: cal_effect.induct)
  case (ce_none actor i s)
  then show ?case by (simp add: exI [of _ "[]"])
next
  case (ce_book actor s a c i)
  then have "cal_content k (put_calendar c s) = cal_content k s" by (auto simp: content_put cal_content_def fun_eq_iff)
  then show ?case by (simp add: cal_log_def put_calendar_def)
next
  case (ce_acl actor s a c d i)
  then have "cal_content k (put_calendar d s) = cal_content k s" using content_at [of s c] by (auto simp: content_put head_key)
  then show ?case by (simp add: cal_log_def put_calendar_def)
next
  case (ce_object actor s a c d oid ob i)
  let ?s = "s\<lparr>st_revision := Suc (st_revision s), st_changes := st_changes s @
      [\<lparr>lc_revision = Suc (st_revision s), lc_calendarKey = calendar_key c, lc_objectId = oid, lc_object = ob, lc_deleted = (ob = None)\<rparr>]\<rparr>"
  let ?es = "if k = calendar_key c then [(Suc (st_revision s), oid, ob)] else []"
  have same: "cal_content k ?s = cal_content k s" by (simp add: cal_content_def fun_eq_iff)
  have "cal_log k (put_calendar d ?s) = cal_log k s @ ?es" by (simp add: cal_log_def put_calendar_def calendar_entry_def)
  moreover have "cal_content k (put_calendar d ?s) = apply_log ?es (cal_content k s)"
    using ce_object(6) content_at [OF ce_object(2)] by (simp add: content_put same head_key [OF ce_object(3)] map_of_set_object)
  moreover have "(\<forall>e\<in>set ?es. st_revision s < fst e) \<and> sorted (map fst ?es)" by simp
  moreover have "st_revision (put_calendar d ?s) = Suc (st_revision s)" by (simp add: put_calendar_def)
  ultimately show ?case by (metis le_SucI le_refl)
next
  case (ce_drop actor s a c i)
  then have "cal_content k (s\<lparr>st_collections := AList.delete (calendar_key c) (st_collections s)\<rparr>) = cal_content k s"
    by (auto simp: cal_content_def fun_eq_iff)
  then show ?case by (simp add: cal_log_def)
qed

interpretation cal_sync: change_log cal_store_ok cal_step st_revision "cal_log k" "cal_content k" for k
proof unfold_locales
  show "cal_store_ok t" if "cal_store_ok s" "cal_step s t" for s t
    using that effect_ok by (auto simp: cal_step_def)
  show "fst e \<le> st_revision s" if "cal_store_ok s" "e \<in> set (cal_log k s)" for s e
    using that by (auto simp: cal_store_ok_def change_ok_def cal_log_def calendar_entry_def)
  show "st_revision s \<le> st_revision t \<and> (\<exists>es. cal_log k t = cal_log k s @ es \<and> cal_content k t = apply_log es (cal_content k s)
    \<and> (\<forall>e\<in>set es. st_revision s < fst e) \<and> sorted (map fst es))" if "cal_store_ok s" "cal_step s t" for s t
    using that effect_logged by (auto simp: cal_step_def)
qed

lemma runs_steps: "cal_store_ok s \<Longrightarrow> cal_step\<^sup>*\<^sup>* s (cal_runs cs s)"
proof (induction cs s rule: cal_runs.induct)
  case (2 c cs s)
  have "cal_step s (cal_run c s)" using call_effect [OF 2(2)] by (auto simp: cal_step_def)
  with 2 run_ok show ?case by (simp add: converse_rtranclp_into_rtranclp)
qed simp

text \<open>What a client does with an answer: it drops the deleted objects and stores the others.\<close>

type_synonym object_body = "string \<times> string option \<times> ical_metadata \<times> int \<times> int"

definition view_body :: "object_view \<Rightarrow> object_body" where
  "view_body v = (ov_etag v, ov_ical v, ov_metadata v, ov_createdAt v, ov_updatedAt v)"

definition stored_body :: "cal_object \<Rightarrow> object_body" where
  "stored_body ob = (ob_etag ob, Some (ob_ical ob), ob_metadata ob, ob_createdAt ob, ob_updatedAt ob)"

definition client_update :: "cal_sync \<Rightarrow> (string \<Rightarrow> object_body option) \<Rightarrow> string \<Rightarrow> object_body option" where
  "client_update v m i = (if i \<in> set (cv_deletedObjectIds v) then None
     else case find (\<lambda>ob. ov_objectId ob = i) (cv_objects v) of None \<Rightarrow> m i | Some ob \<Rightarrow> Some (view_body ob))"

definition listing_ok :: "string \<times> cal_object option \<times> bool \<Rightarrow> bool" where
  "listing_ok e \<longleftrightarrow> (snd (snd e) \<longleftrightarrow> fst (snd e) = None) \<and> (\<forall>x. fst (snd e) = Some x \<longrightarrow> ob_objectId x = fst e)"

lemma find_none: "(\<And>x. x \<in> set xs \<Longrightarrow> \<not> P x) \<Longrightarrow> find P xs = None"
  by (induction xs) auto

lemma live_ids: "list_all listing_ok ms \<Longrightarrow> x \<in> set (live_objects ms) \<Longrightarrow> ob_objectId x \<in> set (map fst ms)"
  by (induction ms rule: live_objects.induct) (auto simp: listing_ok_def split: if_splits option.splits)

lemma find_live:
  assumes "list_all listing_ok ms" and "distinct (map fst ms)"
  shows "find (\<lambda>x. ob_objectId x = i) (live_objects ms) = (case map_of ms i of None \<Rightarrow> None | Some e \<Rightarrow> fst e)"
  using assms
proof (induction ms rule: live_objects.induct)
  case (2 j ob del ms)
  have none: "find (\<lambda>x. ob_objectId x = j) (live_objects ms) = None"
  proof (rule find_none)
    fix x assume "x \<in> set (live_objects ms)"
    then have "ob_objectId x \<in> set (map fst ms)" using "2.prems" live_ids [of ms x] by simp
    with "2.prems"(2) show "ob_objectId x \<noteq> j" by (metis distinct.simps(2) fst_conv list.simps(9))
  qed
  show ?case
  proof (cases ob)
    case None
    with 2 none show ?thesis by (auto simp: listing_ok_def)
  next
    case (Some x)
    with 2 none show ?thesis by (auto simp: listing_ok_def)
  qed
qed simp

lemma find_map_view: "find (\<lambda>v. ov_objectId v = i) (map (publicObject c) obs) = map_option (publicObject c) (find (\<lambda>x. ob_objectId x = i) obs)"
  by (induction obs) (auto simp: publicObject_def)

lemma view_body_public: "view_body (publicObject c ob) = stored_body ob"
  by (simp add: view_body_def stored_body_def publicObject_def)

lemma client_update_entries:
  assumes "list_all listing_ok ms" and "distinct (map fst ms)" and "cv_objects v = map (publicObject c) (live_objects ms)"
    and "cv_deletedObjectIds v = map fst (filter (\<lambda>(_, _, del). del) ms)"
  shows "client_update v m i = (case map_of ms i of None \<Rightarrow> m i | Some e \<Rightarrow> map_option stored_body (fst e))"
proof -
  have del: "i \<in> set (cv_deletedObjectIds v) \<longleftrightarrow> (\<exists>ob. map_of ms i = Some (ob, True))"
    using assms(2) by (force simp: assms(4))
  have ok: "listing_ok (i, e)" if "map_of ms i = Some e" for e
    using assms(1) map_of_in_set [OF that] by (auto simp: list_all_iff)
  show ?thesis
  proof (cases "map_of ms i")
    case None
    then show ?thesis using del find_live [OF assms(1,2), of i] by (simp add: client_update_def assms(3) find_map_view)
  next
    case (Some e)
    then show ?thesis using del ok [OF Some] find_live [OF assms(1,2), of i]
      by (cases e; cases "fst e") (auto simp: client_update_def assms(3) find_map_view view_body_public listing_ok_def)
  qed
qed

lemma last_changes_distinct: "distinct (map fst m) \<Longrightarrow> distinct (map fst (last_changes ls m))"
  by (induction ls m rule: last_changes.induct) auto

lemma last_changes_ok:
  "\<forall>l\<in>set ls. change_ok n l \<Longrightarrow> distinct (map fst m) \<Longrightarrow> list_all listing_ok m \<Longrightarrow> list_all listing_ok (last_changes ls m)"
proof (induction ls m rule: last_changes.induct)
  case (2 l ls m)
  have "listing_ok (lc_objectId l, lc_object l, lc_deleted l)" using 2(2) by (auto simp: change_ok_def listing_ok_def)
  then have "list_all listing_ok (AList.update (lc_objectId l) (lc_object l, lc_deleted l) m)"
    using 2(3,4) by (auto simp: list_all_iff set_update_alist)
  with 2 show ?case by simp
qed simp

lemma last_changes_apply:
  "apply_log (map calendar_entry ls) (\<lambda>i. case map_of acc i of None \<Rightarrow> m i | Some e \<Rightarrow> fst e)
    = (\<lambda>i. case map_of (last_changes ls acc) i of None \<Rightarrow> m i | Some e \<Rightarrow> fst e)"
proof (induction ls arbitrary: acc)
  case (Cons l ls)
  have "(\<lambda>i. case map_of acc i of None \<Rightarrow> m i | Some e \<Rightarrow> fst e)(lc_objectId l := lc_object l)
      = (\<lambda>i. case map_of (AList.update (lc_objectId l) (lc_object l, lc_deleted l) acc) i of None \<Rightarrow> m i | Some e \<Rightarrow> fst e)"
    by (auto simp: fun_eq_iff)
  moreover have "apply_log (map calendar_entry (l # ls)) f = apply_log (map calendar_entry ls) (f(lc_objectId l := lc_object l))" for f
    by (simp add: apply_log_def calendar_entry_def)
  ultimately show ?case using Cons [of "AList.update (lc_objectId l) (lc_object l, lc_deleted l) acc"] by (simp only: last_changes.simps)
qed simp

lemma listing_entries:
  assumes "calendar_ok tenant c"
  shows "list_all listing_ok (map (\<lambda>ob. (ob_objectId ob, Some ob, False)) (map snd (cal_objects c)))"
    and "distinct (map fst (map (\<lambda>ob. (ob_objectId ob, Some ob, False)) (map snd (cal_objects c))))"
    and "map_of (map (\<lambda>ob. (ob_objectId ob, Some ob, False)) (map snd (cal_objects c))) oid = map_option (\<lambda>ob. (Some ob, False)) (map_of (cal_objects c) oid)"
proof -
  show "list_all listing_ok (map (\<lambda>ob. (ob_objectId ob, Some ob, False)) (map snd (cal_objects c)))"
    by (simp add: list_all_iff listing_ok_def)
  have "\<forall>(i, ob) \<in> set (cal_objects c). ob_objectId ob = i" using assms by (simp add: calendar_ok_def)
  then have eq: "map (\<lambda>ob. (ob_objectId ob, Some ob, False)) (map snd (cal_objects c)) = map (\<lambda>(i, ob). (i, Some ob, False)) (cal_objects c)"
    by auto
  have fst: "map fst (map (\<lambda>(i, ob). (i, Some ob, False)) (cal_objects c)) = map fst (cal_objects c)" by auto
  then show "distinct (map fst (map (\<lambda>ob. (ob_objectId ob, Some ob, False)) (map snd (cal_objects c))))"
    unfolding eq fst using assms by (simp add: calendar_ok_def)
  show "map_of (map (\<lambda>ob. (ob_objectId ob, Some ob, False)) (map snd (cal_objects c))) oid = map_option (\<lambda>ob. (Some ob, False)) (map_of (cal_objects c) oid)"
    unfolding eq using map_of_map [of "\<lambda>ob. (Some ob, False)" "cal_objects c"] by simp
qed

lemma since_token:
  assumes ok: "cal_store_ok s" and at: "calendar_at s (calendar_key c) = Some c"
  shows "list_all listing_ok (changed_since token n c s)" and "distinct (map fst (changed_since token n c s))"
    and "nullish token \<Longrightarrow> (case map_of (changed_since token n c s) oid of None \<Rightarrow> None | Some e \<Rightarrow> fst e) = cal_content (calendar_key c) s oid"
    and "\<not> nullish token \<Longrightarrow> (case map_of (changed_since token n c s) oid of None \<Rightarrow> m oid | Some e \<Rightarrow> fst e)
      = apply_log (since n (cal_log (calendar_key c) s)) m oid"
proof -
  have c: "calendar_ok (st_tenant s) c" using stored_calendar [OF ok at] by blast
  let ?ls = "filter (\<lambda>l. n < lc_revision l \<and> lc_calendarKey l = calendar_key c) (st_changes s)"
  have ls: "\<forall>l\<in>set ?ls. change_ok (st_revision s) l" using ok by (simp add: cal_store_ok_def)
  show "list_all listing_ok (changed_since token n c s)" and "distinct (map fst (changed_since token n c s))"
    using listing_entries [OF c] last_changes_ok [OF ls, where m = "[]"] last_changes_distinct [where m = "[]" and ls = ?ls]
    unfolding changed_since_def by auto
  show "nullish token \<Longrightarrow> (case map_of (changed_since token n c s) oid of None \<Rightarrow> None | Some e \<Rightarrow> fst e) = cal_content (calendar_key c) s oid"
    using listing_entries(3) [OF c, of oid] content_at [OF at] by (cases "map_of (cal_objects c) oid") (auto simp: changed_since_def)
  have "since n (cal_log (calendar_key c) s) = map calendar_entry ?ls"
    by (simp add: since_def cal_log_def filter_map o_def calendar_entry_def) (metis (mono_tags, lifting) filter_cong)
  then show "\<not> nullish token \<Longrightarrow> (case map_of (changed_since token n c s) oid of None \<Rightarrow> m oid | Some e \<Rightarrow> fst e)
      = apply_log (since n (cal_log (calendar_key c) s)) m oid"
    using last_changes_apply [where ls = ?ls and acc = "[]" and m = m] by (simp add: changed_since_def fun_eq_iff)
qed

lemma slug_nonempty: "slug_ok s \<Longrightarrow> s \<noteq> []"
  by (auto simp: slug_ok_def head_tail_def)

lemma tenant_nonempty: "cal_tenant_ok s \<Longrightarrow> s \<noteq> []"
  by (auto simp: cal_tenant_ok_def head_tail_def)

definition stored_bodies :: "string \<Rightarrow> cal_store \<Rightarrow> string \<Rightarrow> object_body option" where
  "stored_bodies k s oid = map_option stored_body (cal_content k s oid)"

lemma since_view:
  assumes ok: "cal_store_ok s" and t: "cal_store_ok t" and steps: "cal_step\<^sup>*\<^sup>* s t" and at: "calendar_at t (calendar_key c) = Some c"
    and v: "cv_objects v = map (publicObject c) (live_objects (changed_since token n c t))"
      "cv_deletedObjectIds v = map fst (filter (\<lambda>(_, _, del). del) (changed_since token n c t))"
    and n: "nullish token \<and> m = (\<lambda>_. None) \<or> \<not> nullish token \<and> n = st_revision s \<and> m = stored_bodies (calendar_key c) s"
  shows "client_update v m = stored_bodies (calendar_key c) t"
proof
  fix oid
  let ?ch = "changed_since token n c t"
  have upd: "client_update v m oid = (case map_of ?ch oid of None \<Rightarrow> m oid | Some e \<Rightarrow> map_option stored_body (fst e))"
    by (rule client_update_entries [OF since_token(1,2) [OF t at] v])
  show "client_update v m oid = stored_bodies (calendar_key c) t oid"
  proof (cases "nullish token")
    case True
    with n since_token(3) [OF t at True, where n = n and oid = oid] show ?thesis unfolding upd stored_bodies_def by (auto split: option.splits)
  next
    case False
    have "(case map_of ?ch oid of None \<Rightarrow> cal_content (calendar_key c) s oid | Some e \<Rightarrow> fst e) = cal_content (calendar_key c) t oid"
      using since_token(4) [OF t at False, where n = n and oid = oid and m = "cal_content (calendar_key c) s"] cal_sync.sync [OF steps ok, of "calendar_key c"] n False by simp
    with n False show ?thesis unfolding upd stored_bodies_def by (auto split: option.splits)
  qed
qed

text \<open>C9  A client that holds the objects of a calendar as of some store and its sync token, or nothing at all, gets after any calls of anybody, failing clocks and a deleted and recreated calendar included, an answer that turns its copy into exactly the present objects, with the token of those.\<close>

theorem calendar_sync:
  assumes ok: "cal_store_ok s" and resolve: "resolveCollection actor (jget i ''calendarId'') (cal_runs cs s) = Inr (a, c)"
    and safe: "int (st_revision s) \<le> max_safe"
    and token: "nullish (jget i ''syncToken'') \<and> m = (\<lambda>_. None)
      \<or> jget i ''syncToken'' = JStr (makeToken (st_tenant s) (cal_ownerUserId c) (cal_collectionId c) (st_revision s)) \<and> m = stored_bodies (calendar_key c) s"
  shows "\<exists>v. listCalendarObjects actor i (cal_runs cs s) = Inr v \<and> client_update v m = stored_bodies (calendar_key c) (cal_runs cs s)
    \<and> cv_syncToken v = makeToken (st_tenant s) (cal_ownerUserId c) (cal_collectionId c) (st_revision (cal_runs cs s))"
proof -
  let ?t = "cal_runs cs s" and ?tok = "jget i ''syncToken''"
  have t: "cal_store_ok ?t" "st_tenant ?t = st_tenant s" using runs_ok [OF ok] by blast+
  have at: "calendar_at ?t (calendar_key c) = Some c" using resolve_spec [OF t(1) resolve] by blast
  have steps: "cal_step\<^sup>*\<^sup>* s ?t" by (rule runs_steps [OF ok])
  have c: "calendar_ok (st_tenant s) c" using stored_calendar [OF t(1) at] t(2) by simp
  then have ne: "st_tenant s \<noteq> []" "cal_ownerUserId c \<noteq> []" "cal_collectionId c \<noteq> []"
    using ok by (auto simp: calendar_ok_def cal_store_ok_def dest: tenant_nonempty slug_nonempty actor_id_nonempty)
  define n where "n = (if nullish ?tok then 0 else st_revision s)"
  have dec: "decodeToken ?tok (st_tenant s) (cal_ownerUserId c) (cal_collectionId c) = Inr n"
    using token decode_made_token [OF ne safe] by (auto simp: n_def decodeToken_def nullish_def)
  have le: "n \<le> st_revision ?t" using cal_sync.steps_revision [OF steps ok] by (simp add: n_def)
  obtain v where v: "listCalendarObjects actor i ?t = Inr v" "cv_objects v = map (publicObject c) (live_objects (changed_since ?tok n c ?t))"
      "cv_deletedObjectIds v = map fst (filter (\<lambda>(_, _, del). del) (changed_since ?tok n c ?t))"
      "cv_syncToken v = makeToken (st_tenant s) (cal_ownerUserId c) (cal_collectionId c) (st_revision ?t)"
    using resolve dec le t(2) by (simp add: listCalendarObjects_def Let_def)
  moreover have "client_update v m = stored_bodies (calendar_key c) ?t"
    by (rule since_view [OF ok t(1) steps at v(2,3)]) (use token in \<open>auto simp: n_def nullish_def\<close>)
  ultimately show ?thesis by blast
qed

subsection \<open>Who may change what\<close>

definition is_owner :: "calendar \<Rightarrow> cal_actor \<Rightarrow> bool" where
  "is_owner c a \<longleftrightarrow> cal_ownerUserId c = da_userId a"

definition is_delegate :: "string \<Rightarrow> calendar \<Rightarrow> cal_actor \<Rightarrow> bool" where
  "is_delegate p c a \<longleftrightarrow> (\<exists>l. cal_acl c = Some l \<and> ac_delegateUserId l = da_userId a \<and> p \<in> set (ac_permissions l))"

lemma permission_cases: "p \<in> set (permissionFor c a) \<Longrightarrow> is_owner c a \<or> is_delegate p c a"
  by (cases "cal_acl c") (auto simp: permissionFor_def is_owner_def is_delegate_def split: if_splits)

lemma effect_authorized:
  assumes "cal_effect actor i s t"
  shows "(cal_content k t = cal_content k s \<or> (\<exists>a c. normalizeDavActor actor (st_tenant s) = Inr a \<and> calendar_at s k = Some c \<and> (is_owner c a \<or> is_delegate ''write'' c a)))
    \<and> (map_option cal_acl (calendar_at t k) = map_option cal_acl (calendar_at s k)
      \<or> (\<exists>a c. normalizeDavActor actor (st_tenant s) = Inr a \<and> (calendar_at s k = Some c \<or> calendar_at t k = Some c) \<and> is_owner c a))"
  using assms
proof (induction rule: cal_effect.induct)
  case (ce_book actor s a c i)
  then have "cal_content k (put_calendar c s) = cal_content k s" by (auto simp: content_put cal_content_def fun_eq_iff)
  with ce_book show ?case by (auto simp: put_calendar_def is_owner_def)
next
  case (ce_acl actor s a c d i)
  then have "cal_content k (put_calendar d s) = cal_content k s" using content_at [of s c] by (auto simp: content_put head_key)
  with ce_acl show ?case by (auto simp: put_calendar_def is_owner_def head_key)
next
  case (ce_object actor s a c d oid ob i)
  then show ?case using permission_cases [OF ce_object(4)]
    by (auto simp: put_calendar_def head_key [OF ce_object(3)] cal_content_def fun_eq_iff)
next
  case (ce_drop actor s a c i)
  then have "cal_content k (s\<lparr>st_collections := AList.delete (calendar_key c) (st_collections s)\<rparr>) = cal_content k s"
    by (auto simp: cal_content_def fun_eq_iff)
  with ce_drop show ?case by (auto simp: is_owner_def)
qed simp

text \<open>C10  Whatever call is made, the objects of a calendar change only for an authenticated user of the tenant who owns it or is its delegate with the write permission, and its sharing and its existence change only for its owner.\<close>

theorem calendar_writes_are_authorized:
  assumes "cal_store_ok s"
  shows "(cal_content k (cal_run c s) \<noteq> cal_content k s \<longrightarrow> (\<exists>a d. normalizeDavActor (call_actor c) (st_tenant s) = Inr a \<and> calendar_at s k = Some d
      \<and> (is_owner d a \<or> is_delegate ''write'' d a)))
    \<and> (map_option cal_acl (calendar_at (cal_run c s) k) \<noteq> map_option cal_acl (calendar_at s k) \<longrightarrow>
      (\<exists>a d. normalizeDavActor (call_actor c) (st_tenant s) = Inr a \<and> (calendar_at s k = Some d \<or> calendar_at (cal_run c s) k = Some d) \<and> is_owner d a))"
  using effect_authorized [OF call_effect [OF assms], where k = k and c1 = c] by blast

text \<open>C35  A call that changes or removes a stored calendar object carries the star or the object's current ETag as If-Match, and an update keeps the UID.\<close>

theorem calendar_no_lost_update:
  assumes "cal_store_ok s" and "cal_content k s oid = Some old" and "cal_content k (cal_run c s) oid \<noteq> Some old"
  shows "(jget (call_input c) ''ifMatch'' = JStr ''*'' \<or> jget (call_input c) ''ifMatch'' = JStr (ob_etag old))
    \<and> (\<forall>new. cal_content k (cal_run c s) oid = Some new \<longrightarrow> im_uid (ob_metadata new) = im_uid (ob_metadata old))"
  using call_effect [OF assms(1), of c] assms(2,3)
proof (induction rule: cal_effect.induct)
  case (ce_object actor s a c d x ob i)
  have at: "cal_content (calendar_key c) s = map_of (cal_objects c)" by (rule content_at [OF ce_object(2)])
  have new: "cal_content k (put_calendar d (s\<lparr>st_revision := Suc (st_revision s), st_changes := st_changes s @
      [\<lparr>lc_revision = Suc (st_revision s), lc_calendarKey = calendar_key c, lc_objectId = x, lc_object = ob, lc_deleted = (ob = None)\<rparr>]\<rparr>)) oid
    = (if k = calendar_key c \<and> oid = x then ob else cal_content k s oid)"
    by (simp add: content_put head_key [OF ce_object(3)] ce_object(6) map_of_set_object at) (simp add: cal_content_def)
  have k: "k = calendar_key c \<and> oid = x" using ce_object(9,10) unfolding new by (rule_tac ccontr) simp
  have "map_of (cal_objects c) x = Some old" using ce_object(9) k by (simp add: at)
  from ce_object(8) [OF this] k show ?case unfolding new by simp
next
  case (ce_acl actor s a c d i)
  then show ?case using content_at [of s c] by (auto simp: content_put head_key split: if_splits)
next
  case (ce_book actor s a c i)
  then show ?case by (auto simp: content_put cal_content_def split: if_splits)
next
  case (ce_drop actor s a c i)
  then show ?case by (auto simp: cal_content_def split: if_splits)
qed simp






theorem calendars_ok: "createCalDavStore tenant = Inr s \<Longrightarrow> cal_store_ok (cal_runs cs s)"
  using runs_ok [OF created_store_ok] by blast







subsection \<open>Reading what was written\<close>

lemma unique_update:
  assumes "distinct (map fst m)" and "(k, c) \<in> set m" and "filter P (map snd m) = [c]" and "P c" and "P d"
  shows "filter P (map snd (AList.update k d m)) = [d]"
  using assms
proof (induction m)
  case (Cons e m)
  obtain k' c' where e: "e = (k', c')" by (cases e)
  show ?case
  proof (cases "k' = k")
    case True
    with Cons.prems(1,2) e have "c' = c" by (force simp: image_iff)
    with True Cons.prems(3,4,5) e show ?thesis by (auto split: if_splits)
  next
    case False
    then have kc: "(k, c) \<in> set m" using Cons.prems(2) e by auto
    then have "\<not> P c'" using Cons.prems(3) e by (auto simp: filter_empty_conv split: if_splits)
    with False Cons kc e show ?thesis by (auto split: if_splits)
  qed
qed simp

lemma permission_same: "same_head c d \<Longrightarrow> cal_acl d = cal_acl c \<Longrightarrow> permissionFor d a = permissionFor c a"
  by (simp add: same_head_def permissionFor_def)

lemma find_updated:
  assumes ok: "cal_store_ok s" and at: "calendar_at s (calendar_key c) = Some c" and found: "find_calendar a owner slug s = Inr (Some c)"
    and d: "same_head c d" "cal_acl d = cal_acl c" and cols: "st_collections t = AList.update (calendar_key c) d (st_collections s)"
  shows "find_calendar a owner slug t = Inr (Some d)"
proof (cases owner)
  case (Some u)
  with found have "calendar_at s (canonicalCalendarKey u slug) = Some c" by (simp add: find_calendar_def)
  then have "canonicalCalendarKey u slug = calendar_key c" using stored_calendar [OF ok] by blast
  with Some show ?thesis by (simp add: find_calendar_def cols)
next
  case None
  let ?P = "\<lambda>c. cal_collectionId c = slug \<and> ''read'' \<in> set (permissionFor c a)"
  define xs where "xs = filter ?P (map snd (st_collections s))"
  have one: "xs = [c]" using None found by (simp add: find_calendar_def xs_def [symmetric] split: list.splits)
  then have "c \<in> set xs" by simp
  then have "?P c" by (simp add: xs_def)
  have "?P d" using \<open>?P c\<close> d(1) unfolding permission_same [OF d] by (simp add: same_head_def)
  moreover have "distinct (map fst (st_collections s))" using ok by (simp add: cal_store_ok_def)
  ultimately have "filter ?P (map snd (st_collections t)) = [d]"
    unfolding cols using unique_update [OF _ map_of_in_set [OF at] one [unfolded xs_def], of d] \<open>?P c\<close> by simp
  then show ?thesis by (simp add: find_calendar_def None)
qed

lemma resolve_updated:
  assumes ok: "cal_store_ok s" and r: "resolveCollection actor v s = Inr (a, c)"
    and d: "same_head c d" "cal_acl d = cal_acl c" and cols: "st_collections t = AList.update (calendar_key c) d (st_collections s)"
    and tenant: "st_tenant t = st_tenant s"
  shows "resolveCollection actor v t = Inr (a, d)"
proof -
  have at: "calendar_at s (calendar_key c) = Some c" using resolve_spec [OF ok r] by blast
  from r obtain owner slug where 1: "normalizeDavActor actor (st_tenant s) = Inr a" "splitCalendarId v = Inr (owner, slug)"
    and found: "find_calendar a owner slug s = Inr (Some c)" and "\<not> cal_tenantId c \<noteq> st_tenant s" "''read'' \<in> set (permissionFor c a)"
    by (auto simp: resolveCollection_def assertCalendarPermission_def guard_iff split: option.split_asm)
  moreover have "cal_tenantId d = cal_tenantId c" using d(1) by (simp add: same_head_def)
  ultimately show ?thesis using find_updated [OF ok at found d cols]
    by (simp add: resolveCollection_def tenant assertCalendarPermission_def needE_def permission_same [OF d])
qed

lemma recordChange_ok:
  assumes "recordChange env clk c oid ob del s = (Inr d, t)"
  shows "\<exists>u. d = c\<lparr>cal_syncToken := makeToken (st_tenant s) (cal_ownerUserId c) (cal_collectionId c) (Suc (st_revision s)), cal_updatedAt := u\<rparr>
    \<and> st_tenant t = st_tenant s \<and> st_collections t = AList.update (calendar_key c) d (st_collections s)"
proof -
  define c1 where "c1 = c\<lparr>cal_syncToken := makeToken (st_tenant s) (cal_ownerUserId c) (cal_collectionId c) (Suc (st_revision s))\<rparr>"
  define s1 where "s1 = put_calendar c1 (s\<lparr>st_revision := Suc (st_revision s), st_changes := st_changes s @ [\<lparr>lc_revision = Suc (st_revision s),
     lc_calendarKey = calendar_key c, lc_objectId = oid, lc_object = ob, lc_deleted = del\<rparr>]\<rparr>)"
  have key: "calendar_key c1 = calendar_key c" "calendar_key (c1\<lparr>cal_updatedAt := u\<rparr>) = calendar_key c" for u
    by (simp_all add: c1_def calendar_key_def)
  from assms obtain u where d: "d = c1\<lparr>cal_updatedAt := u\<rparr>" and t: "t = put_calendar (c1\<lparr>cal_updatedAt := u\<rparr>) s1"
    by (cases "isoDate (ce_parse env) clk") (auto simp: recordChange_def Let_def c1_def [symmetric] s1_def [symmetric])
  have "st_collections t = AList.update (calendar_key c) d (st_collections s)" "st_tenant t = st_tenant s"
    by (simp_all add: t d s1_def put_calendar_def key update_last)
  then show ?thesis by (auto simp: d c1_def)
qed

lemma stored_then_read:
  assumes ok: "cal_store_ok s" and w: "writable actor i s = Inr (a, c, oid)" and id: "ob_objectId ob = oid"
    and stored: "store_object env ty a c ob s = (Inr v, t)"
  shows "getCalendarObject actor i t = Inr v"
proof -
  have r: "resolveCollection actor (jget i ''calendarId'') s = Inr (a, c)" and oid: "canonicalCalendarSlug (jget i ''objectId'') = Inr oid"
    using w by (auto simp: writable_def)
  let ?c = "c\<lparr>cal_objects := AList.update oid ob (cal_objects c)\<rparr>"
  from stored obtain d where d: "recordChange env (ce_clock2 env) ?c oid (Some ob) False s = (Inr d, t)" and v: "v = publicObject d ob"
    by (auto simp: store_object_def bindS_Inr id)
  have key: "calendar_key ?c = calendar_key c" by (simp add: calendar_key_def)
  from recordChange_ok [OF d] obtain u where u: "d = ?c\<lparr>cal_syncToken := makeToken (st_tenant s) (cal_ownerUserId ?c) (cal_collectionId ?c)
      (Suc (st_revision s)), cal_updatedAt := u\<rparr>" and t: "st_tenant t = st_tenant s" "st_collections t = AList.update (calendar_key c) d (st_collections s)"
    unfolding key by blast
  have "resolveCollection actor (jget i ''calendarId'') t = Inr (a, d)"
    by (rule resolve_updated [OF ok r _ _ t(2,1)]) (simp_all add: u same_head_def)
  with oid show ?thesis by (simp add: getCalendarObject_def v) (simp add: u)
qed

text \<open>C37  After a successful create or update the same request reads back exactly the answer of the write, whose text and metadata are those of the validated input.\<close>

theorem written_object_is_read_back:
  assumes ok: "cal_store_ok s" and w: "createCalendarObject env actor i s = (Inr v, t) \<or> updateCalendarObject env actor i s = (Inr v, t)"
  shows "getCalendarObject actor i t = Inr v \<and> validateICalendar (jget i ''ical'') = Inr (ov_metadata v)
    \<and> ov_ical v = Some (im_canonicalText (ov_metadata v))"
  using w
proof
  assume "createCalendarObject env actor i s = (Inr v, t)"
  then obtain a c oid n m where w: "writable actor i s = Inr (a, c, oid)" and m: "validateICalendar (jget i ''ical'') = Inr m"
    and st: "store_object env ''caldav.object.created'' a c \<lparr>ob_tenantId = st_tenant s, ob_ownerUserId = cal_ownerUserId c, ob_objectId = oid,
       ob_uid = im_uid m, ob_ical = im_canonicalText m, ob_metadata = m,
       ob_etag = calculateEtag env (st_tenant s) (calendar_key c) oid (im_canonicalText m), ob_createdAt = n, ob_updatedAt = n\<rparr> s = (Inr v, t)"
    by (auto simp: createCalendarObject_def guard_iff)
  then show ?thesis using stored_then_read [OF ok w _ st] by (auto simp: store_object_def bindS_Inr publicObject_def)
next
  assume "updateCalendarObject env actor i s = (Inr v, t)"
  then obtain a c oid old n m where w: "writable actor i s = Inr (a, c, oid)" and m: "validateICalendar (jget i ''ical'') = Inr m"
    and old: "map_of (cal_objects c) oid = Some old"
    and st: "store_object env ''caldav.object.updated'' a c (old\<lparr>ob_ical := im_canonicalText m, ob_metadata := m,
         ob_etag := calculateEtag env (st_tenant s) (calendar_key c) oid (im_canonicalText m), ob_updatedAt := n\<rparr>) s = (Inr v, t)"
    by (auto simp: updateCalendarObject_def guard_iff split: option.split_asm)
  have "calendar_at s (calendar_key c) = Some c" using writable_spec [OF ok w] by blast
  from stored_object [OF ok this old] have "ob_objectId old = oid" .
  then show ?thesis using stored_then_read [OF ok w _ st] m st by (auto simp: store_object_def bindS_Inr publicObject_def)
qed

subsection \<open>The theorems at a concrete store\<close>

definition exCalEnv :: cal_env where
  "exCalEnv = \<lparr>ce_clock1 = JInt 0, ce_clock2 = JInt 0, ce_parse = \<lambda>_. None, ce_sha = \<lambda>_. ''h'', ce_audit = \<lambda>_. None\<rparr>"

definition exCalActor :: "string \<Rightarrow> jsval" where
  "exCalActor u = JObj [(''tenantId'', JStr ''t''), (''userId'', JStr u), (''role'', JStr ''user'')]"

definition exCalInput :: "(string \<times> jsval) list \<Rightarrow> jsval" where
  "exCalInput kvs = JObj ([(''calendarId'', JStr ''u/default''), (''objectId'', JStr ''o'')] @ kvs)"

definition exNewObject :: jsval where
  "exNewObject = exCalInput [(''ical'', exampleCalendar)]"

definition exCalEmpty :: cal_store where
  "exCalEmpty = \<lparr>st_tenant = ''t'', st_collections = [], st_changes = [], st_revision = 0\<rparr>"

definition exCalShared :: cal_store where
  "exCalShared = cal_runs [CalCall MakeCalendar exCalEnv (exCalActor ''u'') (JObj []),
     CalCall SetAcl exCalEnv (exCalActor ''u'') (exCalInput [(''delegateUserId'', JStr ''w''), (''permissions'', JArr [JStr ''write''])])] exCalEmpty"

definition exCalStore :: cal_store where
  "exCalStore = cal_run (CalCall MakeObject exCalEnv (exCalActor ''w'') exNewObject) exCalShared"

definition exCalDrop :: cal_call where
  "exCalDrop = CalCall DropObject exCalEnv (exCalActor ''w'') (exCalInput [(''ifMatch'', JStr (CHR 0x22 # ''h'' @ [CHR 0x22]))])"

definition exCalSync :: jsval where
  "exCalSync = exCalInput [(''syncToken'', JStr (makeToken ''t'' ''u'' ''default'' 1))]"

lemma exCalEmpty_created: "createCalDavStore (JStr ''t'') = Inr exCalEmpty"
  by code_simp

lemma exCalStore_ok: "cal_store_ok exCalShared" "cal_store_ok exCalStore"
  using runs_ok run_ok created_store_ok [OF exCalEmpty_created] unfolding exCalShared_def exCalStore_def by blast+

lemma exCalStore_object: "map_option (\<lambda>ob. (ob_uid ob, ob_etag ob)) (cal_content ''u/default'' exCalStore ''o'') = Some (''u1'', CHR 0x22 # ''h'' @ [CHR 0x22])"
  by code_simp

lemma exCalStore_dropped: "map_option ob_uid (cal_content ''u/default'' (cal_run exCalDrop exCalStore) ''o'') = None"
  by code_simp

lemma exCalStore_scope: "(st_tenant exCalStore, st_revision exCalStore) = (''t'', 1)"
  by code_simp

lemma exCalDropped_resolves: "(case resolveCollection (exCalActor ''w'') (jget exCalSync ''calendarId'') (cal_runs [exCalDrop] exCalStore) of
    Inr (a, c) \<Rightarrow> (cal_ownerUserId c, cal_collectionId c) = (''u'', ''default'') | Inl _ \<Rightarrow> False)"
  by code_simp

lemma exCalStore_reads: "is_ok (getCalendarObject (exCalActor ''u'') exNewObject exCalStore)"
  by code_simp

lemma exCalStore_writes: "is_ok (fst (createCalendarObject exCalEnv (exCalActor ''w'') exNewObject exCalShared))"
  by code_simp

theorem calendars_ok_witness: "cal_store_ok (cal_runs [CalCall MakeCalendar exCalEnv (exCalActor ''u'') (JObj [])] exCalEmpty)"
  by (rule calendars_ok [OF exCalEmpty_created])

theorem calendar_sync_witness:
  "\<exists>v. listCalendarObjects (exCalActor ''w'') exCalSync (cal_runs [exCalDrop] exCalStore) = Inr v
    \<and> client_update v (stored_bodies ''u/default'' exCalStore) = stored_bodies ''u/default'' (cal_runs [exCalDrop] exCalStore)
    \<and> stored_bodies ''u/default'' exCalStore ''o'' \<noteq> None \<and> stored_bodies ''u/default'' (cal_runs [exCalDrop] exCalStore) ''o'' = None"
proof -
  obtain a c where r: "resolveCollection (exCalActor ''w'') (jget exCalSync ''calendarId'') (cal_runs [exCalDrop] exCalStore) = Inr (a, c)"
    and c: "cal_ownerUserId c = ''u''" "cal_collectionId c = ''default''"
    using exCalDropped_resolves by (auto split: sum.splits)
  have key: "calendar_key c = ''u/default''" by (simp add: calendar_key_def canonicalCalendarKey_def c)
  have scope: "st_tenant exCalStore = ''t''" "st_revision exCalStore = 1" using exCalStore_scope by simp_all
  have safe: "int (st_revision exCalStore) \<le> max_safe" by (simp add: scope max_safe_def)
  have "jget exCalSync ''syncToken'' = JStr (makeToken (st_tenant exCalStore) (cal_ownerUserId c) (cal_collectionId c) (st_revision exCalStore))"
    by (simp add: exCalSync_def exCalInput_def scope c)
  then have tok: "nullish (jget exCalSync ''syncToken'') \<and> stored_bodies (calendar_key c) exCalStore = (\<lambda>_. None)
      \<or> jget exCalSync ''syncToken'' = JStr (makeToken (st_tenant exCalStore) (cal_ownerUserId c) (cal_collectionId c) (st_revision exCalStore))
        \<and> stored_bodies (calendar_key c) exCalStore = stored_bodies (calendar_key c) exCalStore" by simp
  from calendar_sync [OF exCalStore_ok(2) r safe tok] exCalStore_object exCalStore_dropped show ?thesis
    unfolding key by (auto simp: stored_bodies_def)
qed

theorem calendar_writes_are_authorized_witness:
  "\<exists>a d. normalizeDavActor (call_actor exCalDrop) (st_tenant exCalStore) = Inr a \<and> calendar_at exCalStore ''u/default'' = Some d
    \<and> (is_owner d a \<or> is_delegate ''write'' d a)"
proof -
  have "cal_content ''u/default'' (cal_run exCalDrop exCalStore) \<noteq> cal_content ''u/default'' exCalStore"
    using exCalStore_object exCalStore_dropped by (auto dest: fun_cong [of _ _ "''o''"])
  then show ?thesis using calendar_writes_are_authorized [OF exCalStore_ok(2), of "''u/default''" exCalDrop] by blast
qed

theorem calendar_no_lost_update_witness:
  "jget (call_input exCalDrop) ''ifMatch'' = JStr ''*'' \<or> jget (call_input exCalDrop) ''ifMatch'' = JStr (CHR 0x22 # ''h'' @ [CHR 0x22])"
proof -
  obtain old where old: "cal_content ''u/default'' exCalStore ''o'' = Some old" and e: "ob_etag old = CHR 0x22 # ''h'' @ [CHR 0x22]"
    using exCalStore_object by auto
  have "cal_content ''u/default'' (cal_run exCalDrop exCalStore) ''o'' \<noteq> Some old" using exCalStore_dropped by auto
  from calendar_no_lost_update [OF exCalStore_ok(2) old this] e show ?thesis by simp
qed




theorem written_object_is_read_back_witness:
  "\<exists>v t. createCalendarObject exCalEnv (exCalActor ''w'') exNewObject exCalShared = (Inr v, t) \<and> getCalendarObject (exCalActor ''w'') exNewObject t = Inr v"
proof -
  obtain v t where "createCalendarObject exCalEnv (exCalActor ''w'') exNewObject exCalShared = (Inr v, t)"
    using exCalStore_writes by (cases "createCalendarObject exCalEnv (exCalActor ''w'') exNewObject exCalShared") (auto simp: is_ok_iff)
  with written_object_is_read_back [OF exCalStore_ok(1), of exCalEnv "exCalActor ''w''" exNewObject v t] show ?thesis by blast
qed

end
