(* ===== verification/Login.thy ===== *)
theory Login
  imports Tenant_Context
begin

section \<open>The login against an identity source\<close>

text \<open>
  \<open>src/runtime/login.ts\<close>: the packaging target, the resolver of secrets from the environment, and the
  authenticator that asks the identity source of the platform.  What that source answers is the environment
  of a call: whether a client can be built and is enabled, whether it accepts a password, and what it knows
  of a user; an error it throws is a left value.  The client is built by the first login and kept, with the
  error if there was one.
\<close>

definition PLATFORM_TARGETS :: "string list" where
  "PLATFORM_TARGETS = [''standalone'', ''cpanel'', ''plesk'']"

definition resolvePlatformTarget :: "string option \<Rightarrow> string" where
  "resolvePlatformTarget raw = (case raw of None \<Rightarrow> ''standalone'' | Some s \<Rightarrow> if s \<in> set PLATFORM_TARGETS then s else ''standalone'')"

subsection \<open>Secrets from the environment\<close>

definition secret_char :: "char \<Rightarrow> bool" where
  "secret_char c \<longleftrightarrow> is_upper c \<or> is_digit c"

text \<open>\<open>replace(/[^A-Z0-9]+/gu, '_')\<close>: every run of other characters becomes one underscore; the flag says whether
  the character before was one.\<close>

fun squeeze :: "bool \<Rightarrow> string \<Rightarrow> string" where
  "squeeze other [] = []"
| "squeeze other (c # cs) = (if secret_char c then c # squeeze False cs
     else if other then squeeze True cs else CHR ''_'' # squeeze True cs)"

definition secret_key :: "string \<Rightarrow> string" where
  "secret_key reference = ''GULOGULO_SECRET_'' @ squeeze False (upper reference)"

definition nonempty :: "string option \<Rightarrow> string option" where
  "nonempty v = (case v of Some s \<Rightarrow> if s = [] then None else Some s | None \<Rightarrow> None)"

definition resolveSecret :: "(string \<Rightarrow> string option) \<Rightarrow> string \<Rightarrow> string option" where
  "resolveSecret environment reference = (let dsn = nonempty (environment ''GULOGULO_POSTGRES_DSN'') in
     if reference = ''postgres/dsn'' \<and> dsn \<noteq> None then dsn else nonempty (environment (secret_key reference)))"

subsection \<open>Who logs in\<close>

record tenant_identity =
  ti_externalId :: "string option"
  ti_active :: bool
  ti_role :: "string option"

definition LOGIN_ROLES :: "string list" where
  "LOGIN_ROLES = [''user'', ''tenant_master'', ''monitor'']"

definition resolveLoginRole :: "tenant_identity option \<Rightarrow> string option" where
  "resolveLoginRole identity = (case identity of None \<Rightarrow> Some ''user''
     | Some i \<Rightarrow> (case ti_role i of None \<Rightarrow> Some ''user'' | Some r \<Rightarrow> if r \<in> set LOGIN_ROLES then Some r else None))"

record parsed_email =
  pe_tenantId :: string
  pe_domain :: string
  pe_username :: string

text \<open>A text cut at the last occurrence of a character.\<close>

definition cut_last :: "char \<Rightarrow> string \<Rightarrow> (string \<times> string) option" where
  "cut_last x s = (let r = rev s; d = takeWhile (\<lambda>c. c \<noteq> x) r in
     if x \<notin> set s then None else Some (rev (drop (Suc (length d)) r), rev d))"

definition parseLoginEmail :: "jsval \<Rightarrow> parsed_email option" where
  "parseLoginEmail email = (case email of JStr s \<Rightarrow> (case cut_last (CHR ''@'') (lower (trim s)) of
       None \<Rightarrow> None
     | Some (u, d) \<Rightarrow> if u = [] \<or> d = [] then None else Some \<lparr>pe_tenantId = d, pe_domain = d, pe_username = u\<rparr>)
     | _ \<Rightarrow> None)"

record session_identity =
  si_tenantId :: string
  si_domain :: string
  si_userId :: string
  si_actorId :: string
  si_role :: string

record login_env =
  le_client :: "bool res" \<comment> \<open>building the client: is it enabled\<close>
  le_authenticate :: "tenant_context \<Rightarrow> string \<Rightarrow> string \<Rightarrow> bool res"
  le_lookup :: "tenant_context \<Rightarrow> string \<Rightarrow> tenant_identity option res"

definition identityClient :: "login_env \<Rightarrow> bool res option \<Rightarrow> bool res \<times> bool res option" where
  "identityClient env cached = (case cached of Some c \<Rightarrow> (c, cached) | None \<Rightarrow> (le_client env, Some (le_client env)))"

text \<open>What follows once the password was accepted.\<close>

definition login_identity :: "login_env \<Rightarrow> tenant_context \<Rightarrow> parsed_email \<Rightarrow> session_identity option" where
  "login_identity env ctx p =
     (let identity = (case le_lookup env ctx (pe_username p) of Inl _ \<Rightarrow> None | Inr i \<Rightarrow> i) in
      if (case identity of None \<Rightarrow> False | Some i \<Rightarrow> \<not> ti_active i) then None
      else (case resolveLoginRole identity of None \<Rightarrow> None
        | Some r \<Rightarrow> let u = (case identity of None \<Rightarrow> pe_username p
              | Some i \<Rightarrow> (case ti_externalId i of None \<Rightarrow> pe_username p | Some x \<Rightarrow> x)) in
            Some \<lparr>si_tenantId = pe_tenantId p, si_domain = pe_domain p, si_userId = u, si_actorId = u, si_role = r\<rparr>))"

definition login :: "login_env \<Rightarrow> jsval \<Rightarrow> jsval \<Rightarrow> bool res option \<Rightarrow> session_identity option \<times> bool res option" where
  "login env email password cached =
     (case (parseLoginEmail email, js_str password) of
        (Some p, Some pw) \<Rightarrow>
          if pw = [] then (None, cached)
          else (case identityClient env cached of
            (Inr True, cached1) \<Rightarrow>
              (case createTenantContext (JObj [(''tenantId'', JStr (pe_tenantId p)), (''domain'', JStr (pe_domain p))]) of
                 Inl _ \<Rightarrow> (None, cached1)
               | Inr ctx \<Rightarrow> (case le_authenticate env ctx (pe_username p) pw of
                     Inr True \<Rightarrow> (login_identity env ctx p, cached1)
                   | _ \<Rightarrow> (None, cached1)))
          | (_, cached1) \<Rightarrow> (None, cached1))
      | _ \<Rightarrow> (None, cached))"

lemmas login_defs [code_defs] = PLATFORM_TARGETS_def resolvePlatformTarget_def secret_char_def secret_key_def nonempty_def
  resolveSecret_def LOGIN_ROLES_def resolveLoginRole_def cut_last_def parseLoginEmail_def identityClient_def login_identity_def login_def

subsection \<open>What a login proves\<close>

lemma login_accepted:
  assumes "login env email password cached = (Some si, cached')"
  obtains p pw ctx where "parseLoginEmail email = Some p" "password = JStr pw" "pw \<noteq> []" "fst (identityClient env cached) = Inr True"
    "createTenantContext (JObj [(''tenantId'', JStr (pe_tenantId p)), (''domain'', JStr (pe_domain p))]) = Inr ctx"
    "le_authenticate env ctx (pe_username p) pw = Inr True" "login_identity env ctx p = Some si"
  using assms
  by (auto simp: login_def split: option.split_asm if_split_asm prod.split_asm sum.split_asm bool.split_asm)

text \<open>C40  A login gives an identity only when the configured identity source is enabled and accepted the normalised address with the password given, and the identity is that of the domain of the address; a user the source knows must be active, and a role beyond user is one the source names.\<close>

theorem login_needs_identity_source:
  assumes "login env email password cached = (Some si, cached')"
  shows "\<exists>p pw ctx. parseLoginEmail email = Some p \<and> password = JStr pw \<and> pw \<noteq> [] \<and> si_tenantId si = pe_domain p \<and> si_domain si = pe_domain p
    \<and> fst (identityClient env cached) = Inr True \<and> tc_tenantId ctx = pe_domain p \<and> le_authenticate env ctx (pe_username p) pw = Inr True
    \<and> (\<forall>i. le_lookup env ctx (pe_username p) = Inr (Some i) \<longrightarrow> ti_active i \<and> (ti_role i = None \<or> ti_role i = Some (si_role si)))
    \<and> (si_role si = ''user'' \<or> si_role si \<in> {''tenant_master'', ''monitor''} \<and> (\<exists>i. le_lookup env ctx (pe_username p) = Inr (Some i) \<and> ti_role i = Some (si_role si)))
    \<and> si_actorId si = si_userId si"
proof -
  from assms obtain p pw ctx where p: "parseLoginEmail email = Some p" "password = JStr pw" "pw \<noteq> []" "fst (identityClient env cached) = Inr True"
    and ctx: "createTenantContext (JObj [(''tenantId'', JStr (pe_tenantId p)), (''domain'', JStr (pe_domain p))]) = Inr ctx"
    and auth: "le_authenticate env ctx (pe_username p) pw = Inr True" and si: "login_identity env ctx p = Some si"
    by (rule login_accepted)
  have same: "pe_tenantId p = pe_domain p" using p(1) by (auto simp: parseLoginEmail_def split: jsval.splits option.splits if_splits)
  have "tc_tenantId ctx = pe_tenantId p" using ctx by (auto simp: createTenantContext_def split: option.splits)
  moreover have "\<forall>i. le_lookup env ctx (pe_username p) = Inr (Some i) \<longrightarrow> ti_active i \<and> (ti_role i = None \<or> ti_role i = Some (si_role si))"
    using si by (auto simp: login_identity_def resolveLoginRole_def Let_def split: if_splits option.splits)
  moreover have "si_role si = ''user'' \<or> si_role si \<in> {''tenant_master'', ''monitor''} \<and> (\<exists>i. le_lookup env ctx (pe_username p) = Inr (Some i) \<and> ti_role i = Some (si_role si))"
    using si by (auto simp: login_identity_def resolveLoginRole_def LOGIN_ROLES_def Let_def split: if_splits option.splits sum.splits)
  moreover have "si_actorId si = si_userId si" "si_tenantId si = pe_tenantId p" "si_domain si = pe_domain p"
    using si by (auto simp: login_identity_def Let_def split: if_splits option.splits)
  ultimately show ?thesis using p auth same by metis
qed

text \<open>A client that could not be built once is never built again; and when the lookup fails after the password was
  accepted, the user logs in as a plain user, whether active or not.\<close>

lemma failed_client_is_kept: "fst (login env email password (Some (Inl e))) = None"
  by (simp add: login_def identityClient_def split: option.splits)

lemma lookup_failure_is_ignored: "le_lookup env ctx (pe_username p) = Inl e \<Longrightarrow>
    login_identity env ctx p = Some \<lparr>si_tenantId = pe_tenantId p, si_domain = pe_domain p, si_userId = pe_username p, si_actorId = pe_username p, si_role = ''user''\<rparr>"
  by (simp add: login_identity_def resolveLoginRole_def Let_def)

definition exLoginEnv :: login_env where
  "exLoginEnv = \<lparr>le_client = Inr True, le_authenticate = \<lambda>_ _ pw. Inr (pw = ''pw''),
     le_lookup = \<lambda>_ _. Inr (Some \<lparr>ti_externalId = Some ''ada-1'', ti_active = True, ti_role = Some ''monitor''\<rparr>)\<rparr>"

lemma exLogin: "fst (login exLoginEnv (JStr '' Ada@X.org'') (JStr ''pw'') None) = Some \<lparr>si_tenantId = ''x.org'', si_domain = ''x.org'',
    si_userId = ''ada-1'', si_actorId = ''ada-1'', si_role = ''monitor''\<rparr>"
  by code_simp

theorem login_needs_identity_source_witness:
  "\<exists>p. parseLoginEmail (JStr '' Ada@X.org'') = Some p \<and> pe_domain p = ''x.org''"
proof -
  obtain c where "login exLoginEnv (JStr '' Ada@X.org'') (JStr ''pw'') None = (Some \<lparr>si_tenantId = ''x.org'', si_domain = ''x.org'',
    si_userId = ''ada-1'', si_actorId = ''ada-1'', si_role = ''monitor''\<rparr>, c)"
    using exLogin by (metis prod.collapse)
  from login_needs_identity_source [OF this] show ?thesis by auto
qed

end
