(* ===== verification/Mfa_Gate.thy ===== *)
theory Mfa_Gate
  imports Login Totp Recovery_Codes
begin

section \<open>The second factor of a login\<close>

text \<open>
  \<open>src/runtime/mfa.ts\<close>: a login whose password was accepted is parked under a random token until every factor
  the policy demands has been satisfied.  The gate is generic in its managers, as in the code: their state is the
  type variable, and the environment of a call gives what they answer, the readings of the clock (a valid
  \<open>Date\<close>), the bytes of the random source and SHA-256 in hexadecimal.  The lists of factors are read, not changed,
  and do not call the gate.  A \<open>Set\<close> of factor types is a list.  \<open>default_env\<close> makes the environment from the
  TOTP and recovery code managers of this development.
\<close>

datatype mfa_factor = FTotp | FWebauthn
datatype mfa_mode = MDisabled | MOptional | MRequired

record mfa_policy =
  mp_totp :: mfa_mode
  mp_webauthn :: mfa_mode
  mp_recoveryCodes :: bool

fun policy_mode :: "mfa_policy \<Rightarrow> mfa_factor \<Rightarrow> mfa_mode" where
  "policy_mode p FTotp = mp_totp p"
| "policy_mode p FWebauthn = mp_webauthn p"

definition FACTOR_TYPES :: "mfa_factor list" where
  "FACTOR_TYPES = [FTotp, FWebauthn]"

record mfa_login =
  ml_identity :: session_identity
  ml_email :: string
  ml_password :: string
  ml_rememberMe :: bool

record mfa_factor_state =
  fs_type :: mfa_factor
  fs_required :: bool
  fs_enrolled :: bool
  fs_satisfied :: bool

record mfa_challenge =
  mc_token :: string
  mc_expiresAt :: int
  mc_factors :: "mfa_factor_state list"
  mc_recoveryAvailable :: bool

datatype mfa_step = StepInvalid | StepNotAllowed | StepFailed
  | StepPending mfa_challenge "string list option" | StepComplete mfa_login "string list option"

record pending_login =
  pl_token :: string
  pl_login :: mfa_login
  pl_tenantId :: string
  pl_userId :: string
  pl_expiresAt :: int
  pl_needs :: "mfa_factor list"
  pl_required :: "mfa_factor list"
  pl_enrolled :: "mfa_factor list"
  pl_satisfied :: "mfa_factor list"
  pl_failures :: int
  pl_totpEnrollment :: "string option"
  pl_recoveryIssued :: bool

text \<open>The gate: its options, the pending logins, and the state of the managers.\<close>

record 'f mfa_gate =
  mg_policy :: mfa_policy
  mg_totp :: bool
  mg_recovery :: bool
  mg_webauthn :: bool
  mg_ttl :: int
  mg_maxFailures :: int
  mg_maxPending :: int
  mg_pending :: "(string \<times> pending_login) list"
  mg_services :: 'f

text \<open>The managers: tenant, user, then what the call is about; a factor of a list with whether it can be used.\<close>

record 'f mfa_env =
  me_now :: int
  me_now2 :: int
  me_random :: bytes
  me_sha :: "string \<Rightarrow> string"
  me_totp_list :: "string \<Rightarrow> string \<Rightarrow> 'f \<Rightarrow> (string \<times> bool) list res"
  me_totp_enroll :: "string \<Rightarrow> string \<Rightarrow> 'f \<Rightarrow> (string \<times> string \<times> string) res \<times> 'f"
  me_totp_confirm :: "string \<Rightarrow> string \<Rightarrow> string \<Rightarrow> string \<Rightarrow> 'f \<Rightarrow> bool res \<times> 'f"
  me_totp_verify :: "string \<Rightarrow> string \<Rightarrow> string \<Rightarrow> string \<Rightarrow> 'f \<Rightarrow> bool res \<times> 'f"
  me_recovery_list :: "string \<Rightarrow> string \<Rightarrow> 'f \<Rightarrow> (string \<times> bool) list res"
  me_recovery_enroll :: "string \<Rightarrow> string \<Rightarrow> 'f \<Rightarrow> string list res \<times> 'f"
  me_recovery_consume :: "string \<Rightarrow> string \<Rightarrow> string \<Rightarrow> string \<Rightarrow> 'f \<Rightarrow> bool res \<times> 'f"
  me_web_list :: "string \<Rightarrow> string \<Rightarrow> 'f \<Rightarrow> (string \<times> bool) list res"
  me_web_beginRegistration :: "string \<Rightarrow> string \<Rightarrow> 'f \<Rightarrow> jsval res \<times> 'f"
  me_web_completeRegistration :: "string \<Rightarrow> string \<Rightarrow> jsval \<Rightarrow> 'f \<Rightarrow> bool res \<times> 'f"
  me_web_beginAssertion :: "string \<Rightarrow> string \<Rightarrow> 'f \<Rightarrow> jsval res \<times> 'f"
  me_web_completeAssertion :: "string \<Rightarrow> string \<Rightarrow> jsval \<Rightarrow> 'f \<Rightarrow> bool res \<times> 'f"

definition mfaUnavailable :: err where
  "mfaUnavailable = Err OtherErr ''MFA_UNAVAILABLE'' 0"

subsection \<open>Pending logins\<close>

definition mfaScopeId :: "(string \<Rightarrow> string) \<Rightarrow> string \<Rightarrow> string" where
  "mfaScopeId sha v = (if auth_id_ok (lower v) then lower v else ''x'' @ sha v)"

definition pick :: "string list \<Rightarrow> jsval \<Rightarrow> (string \<times> jsval) list" where
  "pick names source = filter (\<lambda>(_, v). v \<noteq> JUndef) (map (\<lambda>f. (f, jget source f)) names)"

definition WEBAUTHN_REGISTRATION_FIELDS :: "string list" where
  "WEBAUTHN_REGISTRATION_FIELDS = [''challenge'', ''credentialId'', ''clientDataJSON'', ''authenticatorData'', ''credentialPublicKey'',
     ''signature'', ''attestationObject'', ''label'', ''transports'']"

definition WEBAUTHN_ASSERTION_FIELDS :: "string list" where
  "WEBAUTHN_ASSERTION_FIELDS = [''challenge'', ''credentialId'', ''clientDataJSON'', ''authenticatorData'', ''signature'']"

definition put_pending :: "pending_login \<Rightarrow> 'f mfa_gate \<Rightarrow> 'f mfa_gate" where
  "put_pending e g = g\<lparr>mg_pending := AList.update (pl_token e) e (mg_pending g)\<rparr>"

definition drop_pending :: "string \<Rightarrow> 'f mfa_gate \<Rightarrow> 'f mfa_gate" where
  "drop_pending tok g = g\<lparr>mg_pending := AList.delete tok (mg_pending g)\<rparr>"

definition mfa_purge :: "int \<Rightarrow> 'f mfa_gate \<Rightarrow> 'f mfa_gate" where
  "mfa_purge now g = g\<lparr>mg_pending := filter (\<lambda>(_, e). \<not> pl_expiresAt e \<le> now) (mg_pending g)\<rparr>"

definition mfa_token_ok :: "string \<Rightarrow> bool" where
  "mfa_token_ok s \<longleftrightarrow> length s = 43 \<and> list_all url_char s"

definition mfa_lookup :: "'f mfa_env \<Rightarrow> jsval \<Rightarrow> 'f mfa_gate \<Rightarrow> pending_login option \<times> 'f mfa_gate" where
  "mfa_lookup env token g = (case js_str token of None \<Rightarrow> (None, g)
     | Some s \<Rightarrow> if \<not> mfa_token_ok s then (None, g)
         else (case map_of (mg_pending g) s of None \<Rightarrow> (None, g)
           | Some e \<Rightarrow> if pl_expiresAt e \<le> me_now env then (None, drop_pending s g) else (Some e, g)))"

text \<open>A call of a manager.\<close>

definition serve :: "('f \<Rightarrow> 'a res \<times> 'f) \<Rightarrow> 'f mfa_gate \<Rightarrow> 'a res \<times> 'f mfa_gate" where
  "serve call g = (case call (mg_services g) of (r, f) \<Rightarrow> (r, g\<lparr>mg_services := f\<rparr>))"

definition activeTotpFactor :: "'f mfa_env \<Rightarrow> pending_login \<Rightarrow> 'f mfa_gate \<Rightarrow> string option res" where
  "activeTotpFactor env e g = bindE (me_totp_list env (pl_tenantId e) (pl_userId e) (mg_services g)) (\<lambda>fs. Inr (map_option fst (find snd fs)))"

definition activeRecoveryFactor :: "'f mfa_env \<Rightarrow> pending_login \<Rightarrow> 'f mfa_gate \<Rightarrow> string option res" where
  "activeRecoveryFactor env e g = (if \<not> mg_recovery g then Inr None
     else bindE (me_recovery_list env (pl_tenantId e) (pl_userId e) (mg_services g)) (\<lambda>fs. Inr (map_option fst (find snd fs))))"

definition isEnrolled :: "'f mfa_env \<Rightarrow> mfa_factor \<Rightarrow> string \<Rightarrow> string \<Rightarrow> 'f mfa_gate \<Rightarrow> bool res" where
  "isEnrolled env ty t u g = (case ty of
       FTotp \<Rightarrow> if \<not> mg_totp g then Inr False else bindE (me_totp_list env t u (mg_services g)) (\<lambda>fs. Inr (list_ex snd fs))
     | FWebauthn \<Rightarrow> if \<not> mg_webauthn g then Inr False else bindE (me_web_list env t u (mg_services g)) (\<lambda>fs. Inr (list_ex snd fs)))"

definition recoveryEnabled :: "'f mfa_gate \<Rightarrow> bool" where
  "recoveryEnabled g \<longleftrightarrow> mp_recoveryCodes (mg_policy g) \<and> mg_recovery g"

definition challengeView :: "'f mfa_env \<Rightarrow> pending_login \<Rightarrow> 'f mfa_gate \<Rightarrow> mfa_challenge res" where
  "challengeView env e g =
     (if \<not> date_ok (pl_expiresAt e) then Inl rangeError
      else bindE (if recoveryEnabled g then bindE (activeRecoveryFactor env e g) (\<lambda>f. Inr (f \<noteq> None)) else Inr False) (\<lambda>available.
        Inr \<lparr>mc_token = pl_token e, mc_expiresAt = pl_expiresAt e,
          mc_factors = map (\<lambda>ty. \<lparr>fs_type = ty, fs_required = (ty \<in> set (pl_required e)), fs_enrolled = (ty \<in> set (pl_enrolled e)),
            fs_satisfied = (ty \<in> set (pl_satisfied e))\<rparr>) (filter (\<lambda>ty. ty \<in> set (pl_needs e)) FACTOR_TYPES),
          mc_recoveryAvailable = available\<rparr>))"

definition mayEnroll :: "pending_login \<Rightarrow> mfa_factor \<Rightarrow> bool" where
  "mayEnroll e ty \<longleftrightarrow> ty \<in> set (pl_needs e) \<and> ty \<notin> set (pl_enrolled e) \<and> list_all (\<lambda>x. x \<in> set (pl_satisfied e)) (pl_enrolled e)"

definition issueRecoveryCodes :: "'f mfa_env \<Rightarrow> pending_login \<Rightarrow> 'f mfa_gate \<Rightarrow> (string list option \<times> pending_login) res \<times> 'f mfa_gate" where
  "issueRecoveryCodes env e g =
     (if \<not> recoveryEnabled g \<or> pl_recoveryIssued e then (Inr (None, e), g)
      else liftE (activeRecoveryFactor env e g) g (\<lambda>f.
        if f \<noteq> None then (Inr (None, e), g)
        else let e1 = e\<lparr>pl_recoveryIssued := True\<rparr> in
          bindS (serve (me_recovery_enroll env (pl_tenantId e) (pl_userId e))) (\<lambda>codes g1. (Inr (Some codes, e1), g1)) (put_pending e1 g)))"

text \<open>The entry is the one stored under the token; it is read again, since it may have been changed.\<close>

definition mfa_failure :: "string \<Rightarrow> 'f mfa_gate \<Rightarrow> mfa_step \<times> 'f mfa_gate" where
  "mfa_failure tok g = (case map_of (mg_pending g) tok of None \<Rightarrow> (StepFailed, g)
     | Some e \<Rightarrow> let e1 = e\<lparr>pl_failures := pl_failures e + 1\<rparr> in
         (StepFailed, if mg_maxFailures g \<le> pl_failures e1 then drop_pending tok g else put_pending e1 g))"

definition step_failed :: "string \<Rightarrow> 'f mfa_gate \<Rightarrow> mfa_step res \<times> 'f mfa_gate" where
  "step_failed tok g = (case mfa_failure tok g of (s, g1) \<Rightarrow> (Inr s, g1))"

definition mfa_advance :: "'f mfa_env \<Rightarrow> pending_login \<Rightarrow> string list option \<Rightarrow> 'f mfa_gate \<Rightarrow> mfa_step res \<times> 'f mfa_gate" where
  "mfa_advance env e codes g =
     (if list_ex (\<lambda>ty. ty \<notin> set (pl_satisfied e)) (pl_needs e) then (bindE (challengeView env e g) (\<lambda>c. Inr (StepPending c codes)), g)
      else (Inr (StepComplete (pl_login e) codes), drop_pending (pl_token e) g))"

text \<open>\<open>try\<close> and \<open>catch\<close> around a step.\<close>

definition try_step :: "string \<Rightarrow> mfa_step res \<times> 'f mfa_gate \<Rightarrow> mfa_step \<times> 'f mfa_gate" where
  "try_step tok p = (case p of (Inl _, g) \<Rightarrow> mfa_failure tok g | (Inr s, g) \<Rightarrow> (s, g))"

definition satisfy :: "mfa_factor \<Rightarrow> pending_login \<Rightarrow> pending_login" where
  "satisfy ty e = e\<lparr>pl_satisfied := ty # pl_satisfied e\<rparr>"

definition proved :: "'f mfa_env \<Rightarrow> mfa_factor \<Rightarrow> pending_login \<Rightarrow> 'f mfa_gate \<Rightarrow> mfa_step res \<times> 'f mfa_gate" where
  "proved env ty e g = (let e1 = satisfy ty e in mfa_advance env e1 None (put_pending e1 g))"

definition newly_enrolled :: "'f mfa_env \<Rightarrow> mfa_factor \<Rightarrow> pending_login \<Rightarrow> 'f mfa_gate \<Rightarrow> mfa_step res \<times> 'f mfa_gate" where
  "newly_enrolled env ty e g = (let e1 = satisfy ty (e\<lparr>pl_enrolled := ty # pl_enrolled e\<rparr>) in
     bindS (issueRecoveryCodes env e1) (\<lambda>(codes, e2) g2. mfa_advance env e2 codes g2) (put_pending e1 g))"

subsection \<open>The operations\<close>

definition factor_demand :: "'f mfa_env \<Rightarrow> string \<Rightarrow> string \<Rightarrow> 'f mfa_gate \<Rightarrow> mfa_factor \<Rightarrow> (bool \<times> bool) res" where
  "factor_demand env t u g ty = (let mode = policy_mode (mg_policy g) ty in
     if mode = MDisabled then Inr (False, False)
     else if \<not> (case ty of FTotp \<Rightarrow> mg_totp g | FWebauthn \<Rightarrow> mg_webauthn g)
     then (if mode = MRequired then Inl mfaUnavailable else Inr (False, False))
     else (case isEnrolled env ty t u g of Inl _ \<Rightarrow> Inl mfaUnavailable
       | Inr has \<Rightarrow> Inr (mode = MRequired \<or> has, has)))"

definition factor_needs :: "'f mfa_env \<Rightarrow> string \<Rightarrow> string \<Rightarrow> 'f mfa_gate \<Rightarrow> (mfa_factor list \<times> mfa_factor list) res" where \<comment> \<open>needed and enrolled\<close>
  "factor_needs env t u g = bindE (mapE (factor_demand env t u g) FACTOR_TYPES) (\<lambda>ds. let ps = zip FACTOR_TYPES ds in
     Inr (map fst (filter (\<lambda>p. fst (snd p)) ps), map fst (filter (\<lambda>p. snd (snd p)) ps)))"

definition mfa_begin :: "'f mfa_env \<Rightarrow> mfa_login \<Rightarrow> 'f mfa_gate \<Rightarrow> mfa_challenge option res \<times> 'f mfa_gate" where
  "mfa_begin env l g = (let g1 = mfa_purge (me_now env) g; t = mfaScopeId (me_sha env) (si_tenantId (ml_identity l));
       u = mfaScopeId (me_sha env) (si_userId (ml_identity l)) in
     liftE (factor_needs env t u g1) g1 (\<lambda>(needs, enrolled).
     if needs = [] then (Inr None, g1)
     else if mg_maxPending g1 \<le> int (length (mg_pending g1)) then (Inl mfaUnavailable, g1)
     else let e = \<lparr>pl_token = base64url (me_random env), pl_login = l, pl_tenantId = t, pl_userId = u,
           pl_expiresAt = me_now2 env + mg_ttl g1, pl_needs = needs,
           pl_required = filter (\<lambda>ty. policy_mode (mg_policy g1) ty = MRequired) FACTOR_TYPES,
           pl_enrolled = enrolled, pl_satisfied = [], pl_failures = 0, pl_totpEnrollment = None, pl_recoveryIssued = False\<rparr>;
         g2 = put_pending e g1 in
       (bindE (challengeView env e g2) (\<lambda>c. Inr (Some c)), g2)))"

datatype 'a shown = ShownInvalid | ShownNotAllowed | ShownOk 'a

definition enrollTotp :: "'f mfa_env \<Rightarrow> jsval \<Rightarrow> 'f mfa_gate \<Rightarrow> (string \<times> string \<times> string) shown \<times> 'f mfa_gate" where
  "enrollTotp env token g = (case mfa_lookup env token g of (None, g1) \<Rightarrow> (ShownInvalid, g1)
     | (Some e, g1) \<Rightarrow> if \<not> mg_totp g1 \<or> \<not> mayEnroll e FTotp then (ShownNotAllowed, g1)
         else (case serve (me_totp_enroll env (pl_tenantId e) (pl_userId e)) g1 of
             (Inl _, g2) \<Rightarrow> (ShownNotAllowed, g2)
           | (Inr (i, secret, uri), g2) \<Rightarrow> (ShownOk (i, secret, uri), put_pending (e\<lparr>pl_totpEnrollment := Some i\<rparr>) g2)))"

definition verifyTotp :: "'f mfa_env \<Rightarrow> jsval \<Rightarrow> jsval \<Rightarrow> 'f mfa_gate \<Rightarrow> mfa_step \<times> 'f mfa_gate" where
  "verifyTotp env token code g = (case mfa_lookup env token g of (None, g1) \<Rightarrow> (StepInvalid, g1)
     | (Some e, g1) \<Rightarrow> (case js_str code of None \<Rightarrow> (StepNotAllowed, g1) | Some c \<Rightarrow>
         let t = pl_tenantId e; u = pl_userId e; tok = pl_token e in
         if \<not> mg_totp g1 \<or> FTotp \<notin> set (pl_needs e) \<or> FTotp \<in> set (pl_satisfied e) then (StepNotAllowed, g1)
         else try_step tok (
           if FTotp \<in> set (pl_enrolled e) then
             liftE (activeTotpFactor env e g1) g1 (\<lambda>f. case f of None \<Rightarrow> step_failed tok g1
               | Some i \<Rightarrow> bindS (serve (me_totp_verify env i t u c)) (\<lambda>ok g2. if \<not> ok then step_failed tok g2 else proved env FTotp e g2) g1)
           else (case pl_totpEnrollment e of None \<Rightarrow> (Inr StepNotAllowed, g1)
             | Some i \<Rightarrow> if \<not> mayEnroll e FTotp then (Inr StepNotAllowed, g1)
                 else bindS (serve (me_totp_confirm env i t u c)) (\<lambda>ok g2. if \<not> ok then step_failed tok g2 else newly_enrolled env FTotp e g2) g1))))"

definition verifyRecovery :: "'f mfa_env \<Rightarrow> jsval \<Rightarrow> jsval \<Rightarrow> 'f mfa_gate \<Rightarrow> mfa_step \<times> 'f mfa_gate" where
  "verifyRecovery env token code g = (case mfa_lookup env token g of (None, g1) \<Rightarrow> (StepInvalid, g1)
     | (Some e, g1) \<Rightarrow> (case js_str code of None \<Rightarrow> (StepNotAllowed, g1) | Some c \<Rightarrow>
         if \<not> recoveryEnabled g1 then (StepNotAllowed, g1)
         else (case find (\<lambda>ty. ty \<in> set (pl_needs e) \<and> ty \<in> set (pl_enrolled e) \<and> ty \<notin> set (pl_satisfied e)) FACTOR_TYPES of
           None \<Rightarrow> (StepNotAllowed, g1)
         | Some ty \<Rightarrow> try_step (pl_token e) (liftE (activeRecoveryFactor env e g1) g1 (\<lambda>f. case f of None \<Rightarrow> step_failed (pl_token e) g1
             | Some i \<Rightarrow> bindS (serve (me_recovery_consume env i (pl_tenantId e) (pl_userId e) c))
                 (\<lambda>ok g2. if \<not> ok then step_failed (pl_token e) g2 else proved env ty e g2) g1)))))"

definition webauthnOptions :: "'f mfa_env \<Rightarrow> jsval \<Rightarrow> 'f mfa_gate \<Rightarrow> (bool \<times> jsval) shown \<times> 'f mfa_gate" where \<comment> \<open>true for an assertion\<close>
  "webauthnOptions env token g = (case mfa_lookup env token g of (None, g1) \<Rightarrow> (ShownInvalid, g1)
     | (Some e, g1) \<Rightarrow>
         if \<not> mg_webauthn g1 \<or> FWebauthn \<notin> set (pl_needs e) \<or> FWebauthn \<in> set (pl_satisfied e) then (ShownNotAllowed, g1)
         else let assertion = (FWebauthn \<in> set (pl_enrolled e)) in
           if \<not> assertion \<and> \<not> mayEnroll e FWebauthn then (ShownNotAllowed, g1)
           else (case serve ((if assertion then me_web_beginAssertion env else me_web_beginRegistration env) (pl_tenantId e) (pl_userId e)) g1 of
               (Inl _, g2) \<Rightarrow> (ShownNotAllowed, g2) | (Inr v, g2) \<Rightarrow> (ShownOk (assertion, v), g2)))"

definition webauthnComplete :: "'f mfa_env \<Rightarrow> jsval \<Rightarrow> jsval \<Rightarrow> 'f mfa_gate \<Rightarrow> mfa_step \<times> 'f mfa_gate" where
  "webauthnComplete env token body g = (case mfa_lookup env token g of (None, g1) \<Rightarrow> (StepInvalid, g1)
     | (Some e, g1) \<Rightarrow>
         let t = pl_tenantId e; u = pl_userId e; tok = pl_token e in
         if \<not> mg_webauthn g1 \<or> FWebauthn \<notin> set (pl_needs e) \<or> FWebauthn \<in> set (pl_satisfied e) then (StepNotAllowed, g1)
         else try_step tok (
           if FWebauthn \<in> set (pl_enrolled e) then
             bindS (serve (me_web_completeAssertion env t u (JObj (pick WEBAUTHN_ASSERTION_FIELDS body))))
               (\<lambda>ok g2. if \<not> ok then step_failed tok g2 else proved env FWebauthn e g2) g1
           else if \<not> mayEnroll e FWebauthn then (Inr StepNotAllowed, g1)
           else bindS (serve (me_web_completeRegistration env t u (JObj (pick WEBAUTHN_REGISTRATION_FIELDS body))))
               (\<lambda>ok g2. if \<not> ok then step_failed tok g2 else newly_enrolled env FWebauthn e g2) g1))"

subsection \<open>The gate and its default managers\<close>

definition mfaPolicyFromConfig :: "jsval \<Rightarrow> mfa_policy" where
  "mfaPolicyFromConfig config = (let pure_object = (\<lambda>v. if is_object v then v else JObj []);
       contract = (if is_object (jget config ''contract'') then jget config ''contract'' else pure_object config);
       webAuth = pure_object (jget contract ''webAuth'');
       mode = (\<lambda>v. if v = JStr ''disabled'' then MDisabled else if v = JStr ''required'' then MRequired else MOptional)
     in \<lparr>mp_totp = mode (jget webAuth ''totp''), mp_webauthn = mode (jget webAuth ''webauthn''),
       mp_recoveryCodes = (jget webAuth ''recoveryCodes'' \<noteq> JBool False)\<rparr>)"

definition createMfaGate :: "mfa_policy \<Rightarrow> bool \<Rightarrow> bool \<Rightarrow> bool \<Rightarrow> 'f \<Rightarrow> 'f mfa_gate" where \<comment> \<open>with the default limits\<close>
  "createMfaGate policy totp recovery webauthn f = \<lparr>mg_policy = policy, mg_totp = totp, mg_recovery = recovery, mg_webauthn = webauthn,
     mg_ttl = 300000, mg_maxFailures = 5, mg_maxPending = 1000, mg_pending = [], mg_services = f\<rparr>"

type_synonym default_services = "totp_state \<times> recovery_state"

definition createDefaultMfaGate :: "jsval \<Rightarrow> default_services \<Rightarrow> default_services mfa_gate" where \<comment> \<open>without a WebAuthn manager\<close>
  "createDefaultMfaGate config f = (let policy = mfaPolicyFromConfig config in
     createMfaGate policy (mp_totp policy \<noteq> MDisabled) (mp_recoveryCodes policy) False f)"

definition on_totp :: "(totp_state \<Rightarrow> 'a res \<times> totp_state) \<Rightarrow> default_services \<Rightarrow> 'a res \<times> default_services" where
  "on_totp call f = (case call (fst f) of (r, t) \<Rightarrow> (r, (t, snd f)))"

definition on_recovery :: "(recovery_state \<Rightarrow> 'a res \<times> recovery_state) \<Rightarrow> default_services \<Rightarrow> 'a res \<times> default_services" where
  "on_recovery call f = (case call (snd f) of (r, t) \<Rightarrow> (r, (fst f, t)))"

text \<open>What the two managers take from outside in one call: the options, the clock and the random source; no rate
  limiter is configured.\<close>

record manager_env =
  mn_totp :: totp_options
  mn_recovery :: recovery_options
  mn_clock :: "int option"
  mn_clock2 :: "int option"
  mn_secret :: "bytes option"
  mn_ids :: "bytes option list"
  mn_codes :: "(bytes option \<times> bytes option) list"

definition noWebAuthn :: "default_services \<Rightarrow> 'a res \<times> default_services" where \<comment> \<open>not reached: the gate has no such manager\<close>
  "noWebAuthn f = (Inl mfaUnavailable, f)"

definition default_env :: "manager_env \<Rightarrow> int \<Rightarrow> int \<Rightarrow> bytes \<Rightarrow> (string \<Rightarrow> string) \<Rightarrow> default_services mfa_env" where
  "default_env m now now2 random sha = \<lparr>me_now = now, me_now2 = now2, me_random = random, me_sha = sha,
     me_totp_list = (\<lambda>t u f. bindE (totp_list (JStr t) (JStr u) (fst f)) (\<lambda>fs. Inr (map (\<lambda>x. (tf_factorId x, tf_status x = Active)) fs))),
     me_totp_enroll = (\<lambda>t u. on_totp (bindS (totp_enroll (mn_totp m) (mn_secret m) (mn_ids m) (mn_clock m) (JStr t) (JStr u) JUndef JUndef)
       (\<lambda>en st. (Inr (tf_factorId (en_factor en), en_secret en, en_otpauthUri en), st)))),
     me_totp_confirm = (\<lambda>i t u c. on_totp (bindS (totp_confirm (mn_totp m) True (mn_clock m) (mn_clock2 m) (JStr i) (JStr t) (JStr u) (JStr c))
       (\<lambda>r st. (Inr (case r of Confirmed _ \<Rightarrow> True | NotConfirmed _ _ \<Rightarrow> False), st)))),
     me_totp_verify = (\<lambda>i t u c. on_totp (bindS (totp_verify (mn_totp m) True (mn_clock m) (JStr i) (JStr t) (JStr u) (JStr c))
       (\<lambda>r st. (Inr (case r of Verified _ _ _ \<Rightarrow> True | Refused _ _ \<Rightarrow> False), st)))),
     me_recovery_list = (\<lambda>t u f. bindE (recovery_list (JStr t) (JStr u) (snd f))
       (\<lambda>fs. Inr (map (\<lambda>x. (rm_factorId x, rm_revokedAt x = None \<and> 0 < rm_remainingCodes x)) fs))),
     me_recovery_enroll = (\<lambda>t u. on_recovery (bindS (recovery_enroll (mn_recovery m) (mn_ids m) (mn_clock m) (mn_codes m) (JStr t) (JStr u) JUndef None)
       (\<lambda>(_, codes) st. (Inr codes, st)))),
     me_recovery_consume = (\<lambda>i t u c. on_recovery (bindS (recovery_consume (mn_recovery m) True (mn_clock m) (JStr i) (JStr t) (JStr u) (JStr c))
       (\<lambda>r st. (Inr (case r of Recovered _ \<Rightarrow> True | NotRecovered _ _ \<Rightarrow> False), st)))),
     me_web_list = (\<lambda>_ _ _. Inr []), me_web_beginRegistration = (\<lambda>_ _. noWebAuthn), me_web_completeRegistration = (\<lambda>_ _ _. noWebAuthn),
     me_web_beginAssertion = (\<lambda>_ _. noWebAuthn), me_web_completeAssertion = (\<lambda>_ _ _. noWebAuthn)\<rparr>"

lemmas mfa_defs [code_defs] = FACTOR_TYPES_def mfaUnavailable_def mfaScopeId_def pick_def WEBAUTHN_REGISTRATION_FIELDS_def
  WEBAUTHN_ASSERTION_FIELDS_def put_pending_def drop_pending_def mfa_purge_def mfa_token_ok_def mfa_lookup_def serve_def
  activeTotpFactor_def activeRecoveryFactor_def isEnrolled_def recoveryEnabled_def challengeView_def mayEnroll_def
  issueRecoveryCodes_def mfa_failure_def step_failed_def mfa_advance_def try_step_def satisfy_def proved_def newly_enrolled_def
  factor_demand_def factor_needs_def mfa_begin_def enrollTotp_def verifyTotp_def verifyRecovery_def webauthnOptions_def
  webauthnComplete_def mfaPolicyFromConfig_def createMfaGate_def createDefaultMfaGate_def on_totp_def on_recovery_def default_env_def

subsection \<open>Runs\<close>

text \<open>A call with its environment, or anything that happens to the managers apart from the gate.\<close>

datatype 'f mfa_op = Begin "'f mfa_env" mfa_login | EnrollTotp "'f mfa_env" jsval | VerifyTotp "'f mfa_env" jsval jsval
  | VerifyRecovery "'f mfa_env" jsval jsval | WebOptions "'f mfa_env" jsval | WebComplete "'f mfa_env" jsval jsval | Elsewhere 'f

fun mfa_run :: "'f mfa_op \<Rightarrow> 'f mfa_gate \<Rightarrow> mfa_step option \<times> 'f mfa_gate" where
  "mfa_run (Begin env l) g = (None, snd (mfa_begin env l g))"
| "mfa_run (EnrollTotp env v) g = (None, snd (enrollTotp env v g))"
| "mfa_run (VerifyTotp env v c) g = (case verifyTotp env v c g of (s, g1) \<Rightarrow> (Some s, g1))"
| "mfa_run (VerifyRecovery env v c) g = (case verifyRecovery env v c g of (s, g1) \<Rightarrow> (Some s, g1))"
| "mfa_run (WebOptions env v) g = (None, snd (webauthnOptions env v g))"
| "mfa_run (WebComplete env v b) g = (case webauthnComplete env v b g of (s, g1) \<Rightarrow> (Some s, g1))"
| "mfa_run (Elsewhere f) g = (None, g\<lparr>mg_services := f\<rparr>)"

fun mfa_runs :: "'f mfa_op list \<Rightarrow> 'f mfa_gate \<Rightarrow> 'f mfa_gate" where
  "mfa_runs [] g = g"
| "mfa_runs (c # cs) g = mfa_runs cs (snd (mfa_run c g))"

fun op_token :: "'f mfa_op \<Rightarrow> jsval" where
  "op_token (VerifyTotp env v c) = v"
| "op_token (VerifyRecovery env v c) = v"
| "op_token (WebComplete env v b) = v"
| "op_token _ = JUndef"

text \<open>A call in which a manager accepted a proof of the factor for the login under the token: a factor the user has
  is verified with its active factor (or a recovery code is consumed in its place); one the user does not have is
  confirmed as newly enrolled, which needs every factor the user has to be satisfied first.\<close>

fun factor_proved :: "mfa_factor \<Rightarrow> string \<Rightarrow> 'f mfa_op \<Rightarrow> 'f mfa_gate \<Rightarrow> bool" where
  "factor_proved ty tok (VerifyTotp env v c) g \<longleftrightarrow> ty = FTotp \<and> v = JStr tok \<and> (\<exists>e i s. map_of (mg_pending g) tok = Some e \<and> c = JStr s
     \<and> (if FTotp \<in> set (pl_enrolled e) then activeTotpFactor env e g = Inr (Some i)
          \<and> fst (me_totp_verify env i (pl_tenantId e) (pl_userId e) s (mg_services g)) = Inr True
        else pl_totpEnrollment e = Some i \<and> mayEnroll e FTotp
          \<and> fst (me_totp_confirm env i (pl_tenantId e) (pl_userId e) s (mg_services g)) = Inr True))"
| "factor_proved ty tok (VerifyRecovery env v c) g \<longleftrightarrow> v = JStr tok \<and> (\<exists>e i s. map_of (mg_pending g) tok = Some e \<and> c = JStr s
     \<and> ty \<in> set (pl_enrolled e) \<and> recoveryEnabled g \<and> activeRecoveryFactor env e g = Inr (Some i)
     \<and> fst (me_recovery_consume env i (pl_tenantId e) (pl_userId e) s (mg_services g)) = Inr True)"
| "factor_proved ty tok (WebComplete env v b) g \<longleftrightarrow> ty = FWebauthn \<and> v = JStr tok \<and> (\<exists>e. map_of (mg_pending g) tok = Some e
     \<and> (if FWebauthn \<in> set (pl_enrolled e)
        then fst (me_web_completeAssertion env (pl_tenantId e) (pl_userId e) (JObj (pick WEBAUTHN_ASSERTION_FIELDS b)) (mg_services g)) = Inr True
        else mayEnroll e FWebauthn
          \<and> fst (me_web_completeRegistration env (pl_tenantId e) (pl_userId e) (JObj (pick WEBAUTHN_REGISTRATION_FIELDS b)) (mg_services g)) = Inr True))"
| "factor_proved ty tok _ g \<longleftrightarrow> False"

subsection \<open>What a step does to the pending logins\<close>

definition gate_ok :: "'f mfa_gate \<Rightarrow> bool" where
  "gate_ok g \<longleftrightarrow> distinct (map fst (mg_pending g)) \<and> (\<forall>tok e. map_of (mg_pending g) tok = Some e \<longrightarrow> pl_token e = tok)"

definition same_login :: "pending_login \<Rightarrow> pending_login \<Rightarrow> bool" where
  "same_login e d \<longleftrightarrow> pl_token d = pl_token e \<and> pl_login d = pl_login e \<and> pl_tenantId d = pl_tenantId e \<and> pl_userId d = pl_userId e
     \<and> pl_needs d = pl_needs e \<and> set (pl_enrolled e) \<subseteq> set (pl_enrolled d)"

text \<open>The step of a call on the entry \<open>e\<close>, of which a manager has proved the factors \<open>P\<close>: other entries stay; the
  entry keeps its login and gains only those factors; a failure is counted; a completion takes it away, with no
  factor outstanding.\<close>

definition entry_step :: "pending_login \<Rightarrow> (mfa_factor \<Rightarrow> bool) \<Rightarrow> 'f mfa_gate \<Rightarrow> mfa_step option \<Rightarrow> 'f mfa_gate \<Rightarrow> bool" where
  "entry_step e P g s g' \<longleftrightarrow> gate_ok g' \<and> mg_policy g' = mg_policy g \<and> mg_maxFailures g' = mg_maxFailures g
     \<and> (\<forall>tok. tok \<noteq> pl_token e \<longrightarrow> map_of (mg_pending g') tok = map_of (mg_pending g) tok)
     \<and> (\<forall>d. map_of (mg_pending g') (pl_token e) = Some d \<longrightarrow> same_login e d \<and> (\<forall>ty\<in>set (pl_satisfied d). ty \<in> set (pl_satisfied e) \<or> P ty)
         \<and> pl_failures e + (if s = Some StepFailed then 1 else 0) \<le> pl_failures d \<and> (s = Some StepFailed \<longrightarrow> pl_failures d < mg_maxFailures g))
     \<and> (\<forall>l codes. s = Some (StepComplete l codes) \<longrightarrow> l = pl_login e \<and> map_of (mg_pending g') (pl_token e) = None
         \<and> (\<forall>ty\<in>set (pl_needs e). ty \<in> set (pl_satisfied e) \<or> P ty))"

lemma same_login_refl [simp]: "same_login e e"
  by (simp add: same_login_def)

lemma put_pending_ok: "gate_ok g \<Longrightarrow> gate_ok (put_pending e g)"
  by (auto simp: gate_ok_def put_pending_def)

lemma drop_pending_ok: "gate_ok g \<Longrightarrow> gate_ok (drop_pending tok g)"
  by (auto simp: gate_ok_def drop_pending_def)

lemma lookup_spec:
  assumes "gate_ok g" and "mfa_lookup env v g = (r, g1)"
  shows "gate_ok g1 \<and> mg_policy g1 = mg_policy g \<and> mg_maxFailures g1 = mg_maxFailures g \<and> mg_services g1 = mg_services g"
    and "\<And>e. r = Some e \<Longrightarrow> g1 = g \<and> map_of (mg_pending g) (pl_token e) = Some e \<and> v = JStr (pl_token e)"
    and "r = None \<Longrightarrow> g1 = g \<or> (\<exists>tok e. v = JStr tok \<and> map_of (mg_pending g) tok = Some e \<and> g1 = drop_pending tok g)"
  using assms drop_pending_ok [of g]
  by (auto simp: mfa_lookup_def gate_ok_def drop_pending_def split: option.splits if_splits)

text \<open>The gate in the middle of such a step, with the entry as it is then.\<close>

definition mid_step :: "pending_login \<Rightarrow> (mfa_factor \<Rightarrow> bool) \<Rightarrow> 'f mfa_gate \<Rightarrow> pending_login \<Rightarrow> 'f mfa_gate \<Rightarrow> bool" where
  "mid_step e P g d g1 \<longleftrightarrow> gate_ok g1 \<and> mg_policy g1 = mg_policy g \<and> mg_maxFailures g1 = mg_maxFailures g
     \<and> (\<forall>tok. tok \<noteq> pl_token e \<longrightarrow> map_of (mg_pending g1) tok = map_of (mg_pending g) tok)
     \<and> map_of (mg_pending g1) (pl_token e) = Some d \<and> same_login e d \<and> pl_failures d = pl_failures e
     \<and> (\<forall>ty\<in>set (pl_satisfied d). ty \<in> set (pl_satisfied e) \<or> P ty)"

definition result_step :: "pending_login \<Rightarrow> (mfa_factor \<Rightarrow> bool) \<Rightarrow> 'f mfa_gate \<Rightarrow> mfa_step res \<times> 'f mfa_gate \<Rightarrow> bool" where
  "result_step e P g p \<longleftrightarrow> (case fst p of Inl _ \<Rightarrow> \<exists>d. mid_step e P g d (snd p) | Inr s \<Rightarrow> entry_step e P g (Some s) (snd p))"

lemma result_Inl: "mid_step e P g d g1 \<Longrightarrow> result_step e P g (Inl x, g1)"
  by (auto simp: result_step_def)

lemma mid_refl: "gate_ok g \<Longrightarrow> map_of (mg_pending g) (pl_token e) = Some e \<Longrightarrow> mid_step e P g e g"
  by (simp add: mid_step_def)

lemma mid_services: "mid_step e P g d g1 \<Longrightarrow> mid_step e P g d (g1\<lparr>mg_services := f\<rparr>)"
  by (auto simp: mid_step_def gate_ok_def)

lemma mid_put: "mid_step e P g d g1 \<Longrightarrow> same_login e d' \<Longrightarrow> pl_failures d' = pl_failures e \<Longrightarrow>
    (\<And>ty. ty \<in> set (pl_satisfied d') \<Longrightarrow> ty \<in> set (pl_satisfied e) \<or> P ty) \<Longrightarrow> mid_step e P g d' (put_pending d' g1)"
  using put_pending_ok [of g1 d'] by (auto simp: mid_step_def put_pending_def same_login_def)

lemma mid_satisfied: "mid_step e P g d g1 \<Longrightarrow> ty \<in> set (pl_satisfied d) \<Longrightarrow> ty \<in> set (pl_satisfied e) \<or> P ty"
  by (auto simp: mid_step_def)

lemma failure_step:
  assumes m: "mid_step e P g d g1"
  shows "entry_step e P g (Some (fst (mfa_failure (pl_token e) g1))) (snd (mfa_failure (pl_token e) g1))"
proof -
  let ?d = "d\<lparr>pl_failures := pl_failures d + 1\<rparr>"
  have ok: "gate_ok g1" and d: "map_of (mg_pending g1) (pl_token e) = Some d" and tok: "pl_token d = pl_token e"
    using m by (simp_all add: mid_step_def same_login_def)
  show ?thesis
  proof (cases "mg_maxFailures g1 \<le> pl_failures d + 1")
    case True
    then show ?thesis using m d drop_pending_ok [OF ok] by (auto simp: mfa_failure_def Let_def entry_step_def mid_step_def drop_pending_def)
  next
    case False
    then show ?thesis using m d tok put_pending_ok [OF ok, of ?d]
      by (auto simp: mfa_failure_def Let_def entry_step_def mid_step_def put_pending_def same_login_def)
  qed
qed

lemma failed_result: "mid_step e P g d g1 \<Longrightarrow> result_step e P g (step_failed (pl_token e) g1)"
  using failure_step [of e P g d g1] by (cases "mfa_failure (pl_token e) g1") (simp add: step_failed_def result_step_def)

lemma try_result: "result_step e P g p \<Longrightarrow> entry_step e P g (Some (fst (try_step (pl_token e) p))) (snd (try_step (pl_token e) p))"
  using failure_step by (cases p; cases "fst p") (auto simp: result_step_def try_step_def)

lemma advance_result:
  assumes m: "mid_step e P g d g1"
  shows "result_step e P g (mfa_advance env d codes g1)"
proof (cases "list_ex (\<lambda>ty. ty \<notin> set (pl_satisfied d)) (pl_needs d)")
  case True
  show ?thesis
  proof (cases "challengeView env d g1")
    case (Inl x)
    with True m show ?thesis by (auto simp: mfa_advance_def result_step_def)
  next
    case (Inr c)
    with True m show ?thesis by (auto simp: mfa_advance_def result_step_def entry_step_def mid_step_def)
  qed
next
  case False
  then have all: "\<forall>ty\<in>set (pl_needs d). ty \<in> set (pl_satisfied d)" by (auto simp: list_ex_iff)
  have ok: "gate_ok g1" and tok: "pl_token d = pl_token e" using m by (simp_all add: mid_step_def same_login_def)
  show ?thesis using False all m tok drop_pending_ok [OF ok, of "pl_token e"]
    by (auto simp: mfa_advance_def result_step_def entry_step_def mid_step_def same_login_def drop_pending_def)
qed

lemma proved_result:
  assumes m: "mid_step e P g e g1" and "P ty"
  shows "result_step e P g (proved env ty e g1)"
  unfolding proved_def Let_def
  by (rule advance_result, rule mid_put [OF m]) (use assms in \<open>auto simp: satisfy_def same_login_def\<close>)

lemma serve_cases:
  obtains (Err) x f where "serve call g = (Inl x, g\<lparr>mg_services := f\<rparr>)" "call (mg_services g) = (Inl x, f)"
  | (Ok) y f where "serve call g = (Inr y, g\<lparr>mg_services := f\<rparr>)" "call (mg_services g) = (Inr y, f)"
  by (cases "call (mg_services g)"; cases "fst (call (mg_services g))") (auto simp: serve_def)

lemma newly_enrolled_result:
  assumes m: "mid_step e P g e g1" and p: "P ty"
  shows "result_step e P g (newly_enrolled env ty e g1)"
proof -
  let ?e1 = "satisfy ty (e\<lparr>pl_enrolled := ty # pl_enrolled e\<rparr>)" and ?g1 = "put_pending (satisfy ty (e\<lparr>pl_enrolled := ty # pl_enrolled e\<rparr>)) g1"
  have sat: "x \<in> set (pl_satisfied e) \<or> P x" if "x \<in> set (pl_satisfied (?e1\<lparr>pl_recoveryIssued := b\<rparr>))" for x b
    using that p by (auto simp: satisfy_def)
  have sat1: "x \<in> set (pl_satisfied e) \<or> P x" if "x \<in> set (pl_satisfied ?e1)" for x using that p by (auto simp: satisfy_def)
  have m1: "mid_step e P g ?e1 ?g1" by (rule mid_put [OF m _ _ sat1]) (auto simp: satisfy_def same_login_def)
  have m2: "mid_step e P g (?e1\<lparr>pl_recoveryIssued := True\<rparr>) (put_pending (?e1\<lparr>pl_recoveryIssued := True\<rparr>) ?g1)"
    by (rule mid_put [OF m1 _ _ sat]) (auto simp: satisfy_def same_login_def)
  show ?thesis
  proof (cases "issueRecoveryCodes env ?e1 ?g1")
    case (Pair r g2)
    have "(\<exists>x d. r = Inl x \<and> mid_step e P g d g2) \<or> (\<exists>codes d. r = Inr (codes, d) \<and> mid_step e P g d g2)"
    proof (cases "\<not> recoveryEnabled ?g1 \<or> pl_recoveryIssued ?e1")
      case True
      with Pair m1 show ?thesis by (auto simp: issueRecoveryCodes_def)
    next
      case False
      show ?thesis
      proof (cases "activeRecoveryFactor env ?e1 ?g1")
        case (Inl x)
        with False Pair m1 show ?thesis by (auto simp: issueRecoveryCodes_def)
      next
        case (Inr f)
        show ?thesis
        proof (cases f)
          case None
          show ?thesis
            by (rule serve_cases [of "me_recovery_enroll env (pl_tenantId ?e1) (pl_userId ?e1)" "put_pending (?e1\<lparr>pl_recoveryIssued := True\<rparr>) ?g1"])
              (use False Pair Inr None mid_services [OF m2] in \<open>auto simp: issueRecoveryCodes_def Let_def bindS_def\<close>)
        next
          case (Some i)
          with False Pair Inr m1 show ?thesis by (auto simp: issueRecoveryCodes_def)
        qed
      qed
    qed
    then show ?thesis
    proof (elim disjE exE conjE)
      fix x d assume "r = Inl x" "mid_step e P g d g2"
      then show ?thesis using Pair result_Inl by (simp add: newly_enrolled_def Let_def bindS_def)
    next
      fix codes d assume "r = Inr (codes, d)" "mid_step e P g d g2"
      then show ?thesis using Pair advance_result by (simp add: newly_enrolled_def Let_def bindS_def)
    qed
  qed
qed

text \<open>A manager is asked, and the answer decides between a failure and what follows.\<close>

lemma asked_result:
  assumes ok: "gate_ok g" and e: "map_of (mg_pending g) (pl_token e) = Some e"
    and k: "\<And>f. fst (call (mg_services g)) = Inr True \<Longrightarrow> result_step e P g (k (g\<lparr>mg_services := f\<rparr>))"
  shows "result_step e P g (bindS (serve call) (\<lambda>b g2. if \<not> b then step_failed (pl_token e) g2 else k g2) g)"
proof (rule serve_cases [of call g])
  fix x f assume "serve call g = (Inl x, g\<lparr>mg_services := f\<rparr>)"
  then show ?thesis using mid_services [OF mid_refl [OF ok e]] by (auto simp: bindS_def result_step_def)
next
  fix b f assume "serve call g = (Inr b, g\<lparr>mg_services := f\<rparr>)" and c: "call (mg_services g) = (Inr b, f)"
  then show ?thesis using failed_result [OF mid_services [OF mid_refl [OF ok e]]] k [of f] by (cases b) (auto simp: bindS_def)
qed

lemma not_allowed_step: "gate_ok g \<Longrightarrow> map_of (mg_pending g) (pl_token e) = Some e \<Longrightarrow> entry_step e P g (Some StepNotAllowed) g"
  by (auto simp: entry_step_def)

lemma not_allowed_result: "gate_ok g \<Longrightarrow> map_of (mg_pending g) (pl_token e) = Some e \<Longrightarrow> result_step e P g (Inr StepNotAllowed, g)"
  by (simp add: result_step_def not_allowed_step)
text \<open>The three steps that can satisfy a factor.\<close>

lemma verify_totp_step:
  assumes ok: "gate_ok g" and look: "mfa_lookup env v g = (Some e, g)" and e: "map_of (mg_pending g) (pl_token e) = Some e" and v: "v = JStr (pl_token e)"
  shows "entry_step e (\<lambda>ty. factor_proved ty (pl_token e) (VerifyTotp env v c) g) g (Some (fst (verifyTotp env v c g))) (snd (verifyTotp env v c g))"
proof (cases "js_str c = None \<or> \<not> mg_totp g \<or> FTotp \<notin> set (pl_needs e) \<or> FTotp \<in> set (pl_satisfied e)")
  case True
  then have "verifyTotp env v c g = (StepNotAllowed, g)" by (cases "js_str c") (simp_all add: verifyTotp_def look)
  then show ?thesis using not_allowed_step [OF ok e] by simp
next
  case False
  then obtain s where c: "c = JStr s" by (cases "js_str c") auto
  let ?P = "\<lambda>ty. factor_proved ty (pl_token e) (VerifyTotp env v c) g"
  let ?call = "\<lambda>i. me_totp_verify env i (pl_tenantId e) (pl_userId e) s" and ?conf = "\<lambda>i. me_totp_confirm env i (pl_tenantId e) (pl_userId e) s"
  have P: "?P FTotp" if "FTotp \<in> set (pl_enrolled e)" "activeTotpFactor env e g = Inr (Some i)" "fst (?call i (mg_services g)) = Inr True" for i
    using that e v c by auto
  have P': "?P FTotp" if "FTotp \<notin> set (pl_enrolled e)" "pl_totpEnrollment e = Some i" "mayEnroll e FTotp" "fst (?conf i (mg_services g)) = Inr True" for i
    using that e v c by auto
  have mid: "mid_step e ?P g e g" by (rule mid_refl [OF ok e])
  have "result_step e ?P g (if FTotp \<in> set (pl_enrolled e) then
             liftE (activeTotpFactor env e g) g (\<lambda>f. case f of None \<Rightarrow> step_failed (pl_token e) g
               | Some i \<Rightarrow> bindS (serve (?call i)) (\<lambda>ok g2. if \<not> ok then step_failed (pl_token e) g2 else proved env FTotp e g2) g)
           else (case pl_totpEnrollment e of None \<Rightarrow> (Inr StepNotAllowed, g)
             | Some i \<Rightarrow> if \<not> mayEnroll e FTotp then (Inr StepNotAllowed, g)
                 else bindS (serve (?conf i)) (\<lambda>ok g2. if \<not> ok then step_failed (pl_token e) g2 else newly_enrolled env FTotp e g2) g))"
  proof (cases "FTotp \<in> set (pl_enrolled e)")
    case True
    show ?thesis
    proof (cases "activeTotpFactor env e g")
      case (Inl x)
      with True mid show ?thesis by (simp add: result_Inl)
    next
      case (Inr f)
      with True mid show ?thesis
        by (cases f) (auto intro!: failed_result asked_result [OF ok e] proved_result mid_services intro: P simp del: factor_proved.simps)
    qed
  next
    case False
    then show ?thesis
      by (cases "pl_totpEnrollment e") (auto intro!: not_allowed_result [OF ok e] asked_result [OF ok e] newly_enrolled_result mid_services mid intro: P' simp del: factor_proved.simps)
  qed
  from try_result [OF this] show ?thesis using False by (simp add: verifyTotp_def look c Let_def del: factor_proved.simps)
qed

lemma verify_recovery_step:
  assumes ok: "gate_ok g" and look: "mfa_lookup env v g = (Some e, g)" and e: "map_of (mg_pending g) (pl_token e) = Some e" and v: "v = JStr (pl_token e)"
  shows "entry_step e (\<lambda>ty. factor_proved ty (pl_token e) (VerifyRecovery env v c) g) g (Some (fst (verifyRecovery env v c g))) (snd (verifyRecovery env v c g))"
proof -
  let ?find = "find (\<lambda>ty. ty \<in> set (pl_needs e) \<and> ty \<in> set (pl_enrolled e) \<and> ty \<notin> set (pl_satisfied e)) FACTOR_TYPES"
  show ?thesis
  proof (cases "js_str c = None \<or> \<not> recoveryEnabled g \<or> ?find = None")
    case True
    then have "verifyRecovery env v c g = (StepNotAllowed, g)" by (cases "js_str c") (auto simp: verifyRecovery_def look)
    then show ?thesis using not_allowed_step [OF ok e] by simp
  next
    case False
    then obtain s ty where c: "c = JStr s" and f: "?find = Some ty" and enabled: "recoveryEnabled g" by (cases "js_str c") auto
    have enrolled: "ty \<in> set (pl_enrolled e)" using find_in [OF f] by simp
    let ?P = "\<lambda>ty. factor_proved ty (pl_token e) (VerifyRecovery env v c) g"
    let ?call = "\<lambda>i. me_recovery_consume env i (pl_tenantId e) (pl_userId e) s"
    have P: "?P ty" if "activeRecoveryFactor env e g = Inr (Some i)" "fst (?call i (mg_services g)) = Inr True" for i
      using that e v c enrolled enabled by auto
    have mid: "mid_step e ?P g e g" by (rule mid_refl [OF ok e])
    have "result_step e ?P g (liftE (activeRecoveryFactor env e g) g (\<lambda>x. case x of None \<Rightarrow> step_failed (pl_token e) g
             | Some i \<Rightarrow> bindS (serve (?call i)) (\<lambda>ok g2. if \<not> ok then step_failed (pl_token e) g2 else proved env ty e g2) g))"
    proof (cases "activeRecoveryFactor env e g")
      case (Inl x)
      with mid show ?thesis by (simp add: result_Inl)
    next
      case (Inr x)
      with mid show ?thesis
        by (cases x) (auto intro!: failed_result asked_result [OF ok e] proved_result mid_services intro: P simp del: factor_proved.simps)
    qed
    from try_result [OF this] show ?thesis using False f by (simp add: verifyRecovery_def look c del: factor_proved.simps)
  qed
qed

lemma web_complete_step:
  assumes ok: "gate_ok g" and look: "mfa_lookup env v g = (Some e, g)" and e: "map_of (mg_pending g) (pl_token e) = Some e" and v: "v = JStr (pl_token e)"
  shows "entry_step e (\<lambda>ty. factor_proved ty (pl_token e) (WebComplete env v b) g) g (Some (fst (webauthnComplete env v b g))) (snd (webauthnComplete env v b g))"
proof (cases "\<not> mg_webauthn g \<or> FWebauthn \<notin> set (pl_needs e) \<or> FWebauthn \<in> set (pl_satisfied e)")
  case True
  then have "webauthnComplete env v b g = (StepNotAllowed, g)" by (simp add: webauthnComplete_def look Let_def)
  then show ?thesis using not_allowed_step [OF ok e] by simp
next
  case False
  let ?P = "\<lambda>ty. factor_proved ty (pl_token e) (WebComplete env v b) g"
  let ?a = "me_web_completeAssertion env (pl_tenantId e) (pl_userId e) (JObj (pick WEBAUTHN_ASSERTION_FIELDS b))"
  let ?r = "me_web_completeRegistration env (pl_tenantId e) (pl_userId e) (JObj (pick WEBAUTHN_REGISTRATION_FIELDS b))"
  have P: "?P FWebauthn" if "FWebauthn \<in> set (pl_enrolled e)" "fst (?a (mg_services g)) = Inr True" using that e v by simp
  have P': "?P FWebauthn" if "FWebauthn \<notin> set (pl_enrolled e)" "\<not> \<not> mayEnroll e FWebauthn" "fst (?r (mg_services g)) = Inr True"
    using that e v by simp
  have mid: "mid_step e ?P g e g" by (rule mid_refl [OF ok e])
  have "result_step e ?P g (if FWebauthn \<in> set (pl_enrolled e) then
             bindS (serve ?a) (\<lambda>ok g2. if \<not> ok then step_failed (pl_token e) g2 else proved env FWebauthn e g2) g
           else if \<not> mayEnroll e FWebauthn then (Inr StepNotAllowed, g)
           else bindS (serve ?r) (\<lambda>ok g2. if \<not> ok then step_failed (pl_token e) g2 else newly_enrolled env FWebauthn e g2) g)"
    by (simp only: if_split)
      (intro conjI impI not_allowed_result [OF ok e] asked_result [OF ok e] proved_result newly_enrolled_result mid_services mid P P'; assumption)
  from try_result [OF this] show ?thesis using False by (simp add: webauthnComplete_def look Let_def del: factor_proved.simps)
qed

subsection \<open>What any call does\<close>

definition login_scope :: "'f mfa_env \<Rightarrow> mfa_login \<Rightarrow> string \<times> string" where
  "login_scope env l = (mfaScopeId (me_sha env) (si_tenantId (ml_identity l)), mfaScopeId (me_sha env) (si_userId (ml_identity l)))"

definition issued_login :: "'f mfa_op \<Rightarrow> 'f mfa_gate \<Rightarrow> string \<Rightarrow> pending_login \<Rightarrow> bool" where
  "issued_login c g tok d \<longleftrightarrow> (\<exists>env l. c = Begin env l \<and> tok = base64url (me_random env) \<and> pl_login d = l \<and> pl_satisfied d = [] \<and> pl_failures d = 0
     \<and> (pl_tenantId d, pl_userId d) = login_scope env l
     \<and> factor_needs env (pl_tenantId d) (pl_userId d) (mfa_purge (me_now env) g) = Inr (pl_needs d, pl_enrolled d))"

definition kept_login :: "'f mfa_op \<Rightarrow> 'f mfa_gate \<Rightarrow> mfa_step option \<Rightarrow> string \<Rightarrow> pending_login \<Rightarrow> bool" where
  "kept_login c g s tok d \<longleftrightarrow> (\<exists>e. map_of (mg_pending g) tok = Some e \<and> same_login e d
     \<and> (\<forall>ty\<in>set (pl_satisfied d). ty \<in> set (pl_satisfied e) \<or> factor_proved ty tok c g)
     \<and> pl_failures e + (if s = Some StepFailed \<and> op_token c = JStr tok then 1 else 0) \<le> pl_failures d
     \<and> (s = Some StepFailed \<and> op_token c = JStr tok \<longrightarrow> pl_failures d < mg_maxFailures g))"

definition run_step :: "'f mfa_op \<Rightarrow> 'f mfa_gate \<Rightarrow> mfa_step option \<Rightarrow> 'f mfa_gate \<Rightarrow> bool" where
  "run_step c g s g' \<longleftrightarrow> gate_ok g' \<and> mg_policy g' = mg_policy g \<and> mg_maxFailures g' = mg_maxFailures g
     \<and> (\<forall>tok d. map_of (mg_pending g') tok = Some d \<longrightarrow> issued_login c g tok d \<or> kept_login c g s tok d)
     \<and> (s = Some StepFailed \<longrightarrow> (\<exists>tok e. op_token c = JStr tok \<and> map_of (mg_pending g) tok = Some e))
     \<and> (\<forall>l codes. s = Some (StepComplete l codes) \<longrightarrow> (\<exists>tok e. op_token c = JStr tok \<and> map_of (mg_pending g) tok = Some e
         \<and> l = pl_login e \<and> map_of (mg_pending g') tok = None \<and> (\<forall>ty\<in>set (pl_needs e). ty \<in> set (pl_satisfied e) \<or> factor_proved ty tok c g)))"

lemma kept_same: "map_of (mg_pending g) tok = Some d \<Longrightarrow> s = None \<or> s = Some StepInvalid \<or> op_token c \<noteq> JStr tok \<Longrightarrow> kept_login c g s tok d"
  by (auto simp: kept_login_def)

lemma quiet_step:
  assumes "gate_ok g'" "mg_policy g' = mg_policy g" "mg_maxFailures g' = mg_maxFailures g" "s = None \<or> s = Some StepInvalid"
    and "\<And>tok d. map_of (mg_pending g') tok = Some d \<Longrightarrow> map_of (mg_pending g) tok = Some d"
  shows "run_step c g s g'"
  using assms kept_same [of g _ _ s c] by (auto simp: run_step_def)

lemma entry_run_step:
  assumes "entry_step e (\<lambda>ty. factor_proved ty (pl_token e) c g) g s g'" and e: "map_of (mg_pending g) (pl_token e) = Some e"
    and "op_token c = JStr (pl_token e)"
  shows "run_step c g s g'"
  unfolding run_step_def
proof (intro conjI allI impI)
  fix tok d assume d: "map_of (mg_pending g') tok = Some d"
  show "issued_login c g tok d \<or> kept_login c g s tok d"
  proof (cases "tok = pl_token e")
    case True
    with d assms show ?thesis by (auto simp: entry_step_def kept_login_def)
  next
    case False
    with d assms have "map_of (mg_pending g) tok = Some d" by (auto simp: entry_step_def)
    from kept_same [OF this, of s c] False assms(3) show ?thesis by simp
  qed
qed (use assms in \<open>auto simp: entry_step_def\<close>)

lemma lookup_quiet:
  assumes ok: "gate_ok g" and none: "mfa_lookup env v g = (None, g1)" and s: "s = None \<or> s = Some StepInvalid"
  shows "run_step c g s g1"
  using lookup_spec [OF ok none] s by (intro quiet_step) (auto simp: drop_pending_def split: if_splits)

lemma begin_step:
  assumes ok: "gate_ok g"
  shows "run_step (Begin env l) g None (snd (mfa_begin env l g))"
proof -
  let ?g1 = "mfa_purge (me_now env) g" and ?t = "fst (login_scope env l)" and ?u = "snd (login_scope env l)"
  have sub: "map_of (mg_pending ?g1) tok = Some d \<Longrightarrow> map_of (mg_pending g) tok = Some d" for tok d
  proof -
    assume "map_of (mg_pending ?g1) tok = Some d"
    then have "(tok, d) \<in> set (mg_pending g)" by (auto simp: mfa_purge_def dest: map_of_in_set)
    then show ?thesis using ok by (simp add: gate_ok_def)
  qed
  have ok1: "gate_ok ?g1" using ok sub by (auto simp: gate_ok_def mfa_purge_def distinct_map_filter)
  have quiet: "run_step (Begin env l) g None ?g1" by (rule quiet_step [OF ok1]) (use sub in \<open>auto simp: mfa_purge_def\<close>)
  show ?thesis
  proof (cases "factor_needs env ?t ?u ?g1")
    case (Inl x)
    with quiet show ?thesis by (simp add: mfa_begin_def Let_def login_scope_def)
  next
    case (Inr p)
    obtain needs enrolled where p: "p = (needs, enrolled)" by (cases p)
    show ?thesis
    proof (cases "needs = [] \<or> mg_maxPending ?g1 \<le> int (length (mg_pending ?g1))")
      case True
      with quiet Inr p show ?thesis by (auto simp: mfa_begin_def Let_def login_scope_def)
    next
      case False
      define e where "e = \<lparr>pl_token = base64url (me_random env), pl_login = l, pl_tenantId = ?t, pl_userId = ?u,
           pl_expiresAt = me_now2 env + mg_ttl ?g1, pl_needs = needs,
           pl_required = filter (\<lambda>ty. policy_mode (mg_policy ?g1) ty = MRequired) FACTOR_TYPES,
           pl_enrolled = enrolled, pl_satisfied = [], pl_failures = 0, pl_totpEnrollment = None, pl_recoveryIssued = False\<rparr>"
      have g': "snd (mfa_begin env l g) = put_pending e ?g1"
        using False Inr p by (simp add: mfa_begin_def Let_def login_scope_def e_def)
      have new: "issued_login (Begin env l) g (pl_token e) e" using Inr p by (simp add: issued_login_def e_def login_scope_def)
      show ?thesis unfolding g' run_step_def
      proof (intro conjI allI impI)
        fix tok d assume d: "map_of (mg_pending (put_pending e ?g1)) tok = Some d"
        show "issued_login (Begin env l) g tok d \<or> kept_login (Begin env l) g None tok d"
        proof (cases "tok = pl_token e")
          case True
          with d new show ?thesis by (simp add: put_pending_def)
        next
          case False
          with d sub [of tok d] have "map_of (mg_pending g) tok = Some d" by (simp add: put_pending_def)
          from kept_same [OF this] show ?thesis by simp
        qed
      qed (use put_pending_ok [OF ok1] in \<open>auto simp: put_pending_def mfa_purge_def\<close>)
    qed
  qed
qed

lemma enroll_step:
  assumes ok: "gate_ok g"
  shows "run_step (EnrollTotp env v) g None (snd (enrollTotp env v g))"
proof (cases "mfa_lookup env v g")
  case (Pair r g1)
  show ?thesis
  proof (cases r)
    case None
    with Pair lookup_quiet [OF ok] show ?thesis by (simp add: enrollTotp_def)
  next
    case (Some e)
    with Pair lookup_spec(2) [OF ok] have g1: "g1 = g" and e: "map_of (mg_pending g) (pl_token e) = Some e" by blast+
    have same: "run_step (EnrollTotp env v) g None (g\<lparr>mg_services := f\<rparr>)" for f
      by (rule quiet_step) (use ok in \<open>auto simp: gate_ok_def\<close>)
    have id: "g\<lparr>mg_services := mg_services g\<rparr> = g" by simp
    have put: "run_step (EnrollTotp env v) g None (put_pending (e\<lparr>pl_totpEnrollment := Some i\<rparr>) (g\<lparr>mg_services := f\<rparr>))" for i f
    proof -
      have "gate_ok (g\<lparr>mg_services := f\<rparr>)" using ok by (simp add: gate_ok_def)
      from put_pending_ok [OF this] have "gate_ok (put_pending (e\<lparr>pl_totpEnrollment := Some i\<rparr>) (g\<lparr>mg_services := f\<rparr>))" .
      then show ?thesis unfolding run_step_def using e
        by (auto simp: kept_login_def put_pending_def same_login_def)
    qed
    show ?thesis
      by (rule serve_cases [of "me_totp_enroll env (pl_tenantId e) (pl_userId e)" g])
        (use Pair Some g1 same same [of "mg_services g", unfolded id] put in \<open>auto simp: enrollTotp_def split: prod.split\<close>)
  qed
qed

lemma options_step:
  assumes ok: "gate_ok g"
  shows "run_step (WebOptions env v) g None (snd (webauthnOptions env v g))"
proof (cases "mfa_lookup env v g")
  case (Pair r g1)
  show ?thesis
  proof (cases r)
    case None
    with Pair lookup_quiet [OF ok] show ?thesis by (simp add: webauthnOptions_def)
  next
    case (Some e)
    with Pair lookup_spec(2) [OF ok] have g1: "g1 = g" by blast
    have same: "run_step (WebOptions env v) g None (g\<lparr>mg_services := f\<rparr>)" for f
      by (rule quiet_step) (use ok in \<open>auto simp: gate_ok_def\<close>)
    have id: "g\<lparr>mg_services := mg_services g\<rparr> = g" by simp
    show ?thesis
      by (rule serve_cases [of "(if FWebauthn \<in> set (pl_enrolled e) then me_web_beginAssertion env else me_web_beginRegistration env) (pl_tenantId e) (pl_userId e)" g])
        (use Pair Some g1 same same [of "mg_services g", unfolded id] in \<open>auto simp: webauthnOptions_def Let_def\<close>)
  qed
qed

lemma answer_step:
  assumes ok: "gate_ok g" and none: "\<And>g1. mfa_lookup env v g = (None, g1) \<Longrightarrow> p = (StepInvalid, g1)"
    and some: "\<And>e. mfa_lookup env v g = (Some e, g) \<Longrightarrow> map_of (mg_pending g) (pl_token e) = Some e \<Longrightarrow> v = JStr (pl_token e)
      \<Longrightarrow> entry_step e (\<lambda>ty. factor_proved ty (pl_token e) c g) g (Some (fst p)) (snd p)"
    and c: "op_token c = v"
  shows "run_step c g (Some (fst p)) (snd p)"
proof (cases "mfa_lookup env v g")
  case (Pair r g1)
  show ?thesis
  proof (cases r)
    case None
    with Pair none lookup_quiet [OF ok] show ?thesis by simp
  next
    case (Some e)
    with Pair lookup_spec(2) [OF ok] have "g1 = g" and e: "map_of (mg_pending g) (pl_token e) = Some e" "v = JStr (pl_token e)" by blast+
    with Pair Some have "mfa_lookup env v g = (Some e, g)" by simp
    from entry_run_step [OF some [OF this e] e(1)] c e(2) show ?thesis by simp
  qed
qed

lemma run_step_any:
  assumes ok: "gate_ok g" and run: "mfa_run c g = (s, g')"
  shows "run_step c g s g'"
proof (cases c)
  case (Begin env l)
  with run begin_step [OF ok] show ?thesis by auto
next
  case (EnrollTotp env v)
  with run enroll_step [OF ok] show ?thesis by auto
next
  case (VerifyTotp env v x)
  have "run_step c g (Some (fst (verifyTotp env v x g))) (snd (verifyTotp env v x g))"
    unfolding VerifyTotp by (rule answer_step [OF ok, of env v]) (simp add: verifyTotp_def, rule verify_totp_step [OF ok], simp_all)
  with run VerifyTotp show ?thesis by (auto split: prod.splits)
next
  case (VerifyRecovery env v x)
  have "run_step c g (Some (fst (verifyRecovery env v x g))) (snd (verifyRecovery env v x g))"
    unfolding VerifyRecovery by (rule answer_step [OF ok, of env v]) (simp add: verifyRecovery_def, rule verify_recovery_step [OF ok], simp_all)
  with run VerifyRecovery show ?thesis by (auto split: prod.splits)
next
  case (WebOptions env v)
  with run options_step [OF ok] show ?thesis by auto
next
  case (WebComplete env v b)
  have "run_step c g (Some (fst (webauthnComplete env v b g))) (snd (webauthnComplete env v b g))"
    unfolding WebComplete by (rule answer_step [OF ok, of env v]) (simp add: webauthnComplete_def, rule web_complete_step [OF ok], simp_all)
  with run WebComplete show ?thesis by (auto split: prod.splits)
next
  case (Elsewhere f)
  with run ok show ?thesis by (auto intro!: quiet_step simp: gate_ok_def)
qed

subsection \<open>No login completes without its factors\<close>

text \<open>What the policy demands of a login when it begins.\<close>

definition factor_demanded :: "'f mfa_env \<Rightarrow> mfa_login \<Rightarrow> 'f mfa_gate \<Rightarrow> mfa_factor \<Rightarrow> bool" where
  "factor_demanded env l g ty \<longleftrightarrow> policy_mode (mg_policy g) ty = MRequired
     \<or> (policy_mode (mg_policy g) ty = MOptional \<and> isEnrolled env ty (fst (login_scope env l)) (snd (login_scope env l)) g = Inr True)"

lemma isEnrolled_purge [simp]: "isEnrolled env ty t u (mfa_purge now g) = isEnrolled env ty t u g"
  by (simp add: isEnrolled_def mfa_purge_def split: mfa_factor.split)

lemma factor_needs_demanded:
  assumes "factor_needs env (fst (login_scope env l)) (snd (login_scope env l)) (mfa_purge now g) = Inr (needs, enrolled)"
  shows "ty \<in> set needs \<longleftrightarrow> factor_demanded env l g ty"
proof -
  let ?d = "factor_demand env (fst (login_scope env l)) (snd (login_scope env l)) (mfa_purge now g)"
  from assms obtain a b where a: "?d FTotp = Inr a" and b: "?d FWebauthn = Inr b"
    and needs: "needs = map fst (filter (\<lambda>p. fst (snd p)) [(FTotp, a), (FWebauthn, b)])"
    by (auto simp: factor_needs_def FACTOR_TYPES_def Let_def)
  have d: "?d ty = Inr p \<Longrightarrow> fst p \<longleftrightarrow> factor_demanded env l g ty" for ty p
    by (cases "policy_mode (mg_policy g) ty"; cases ty)
      (auto simp: factor_demand_def factor_demanded_def Let_def mfa_purge_def isEnrolled_def split: if_splits sum.splits)
  show ?thesis using d [OF a] d [OF b] by (cases ty) (auto simp: needs)
qed

lemma mfa_runs_append: "mfa_runs (xs @ ys) g = mfa_runs ys (mfa_runs xs g)"
  by (induction xs arbitrary: g) auto

lemma runs_gate_ok: "gate_ok g \<Longrightarrow> gate_ok (mfa_runs cs g)"
proof (induction cs arbitrary: g)
  case (Cons c cs)
  from run_step_any [OF Cons.prems, of c "fst (mfa_run c g)" "snd (mfa_run c g)"] have "gate_ok (snd (mfa_run c g))"
    by (simp add: run_step_def)
  with Cons.IH show ?case by simp
qed simp

text \<open>The same proof, against the entry of this login: the entry is the login's, for the scope of its tenant and user,
  and a factor this user had when the login began (in \<open>g0\<close>) is one the entry knows, so it is not enrolled anew.\<close>

definition login_factor_proved :: "'f mfa_env \<Rightarrow> mfa_login \<Rightarrow> 'f mfa_gate \<Rightarrow> mfa_factor \<Rightarrow> string \<Rightarrow> 'f mfa_op \<Rightarrow> 'f mfa_gate \<Rightarrow> bool" where
  "login_factor_proved env l g0 ty tok x g \<longleftrightarrow> factor_proved ty tok x g
     \<and> (\<exists>e. map_of (mg_pending g) tok = Some e \<and> pl_login e = l \<and> (pl_tenantId e, pl_userId e) = login_scope env l
         \<and> (policy_mode (mg_policy g0) ty \<noteq> MDisabled \<and> isEnrolled env ty (pl_tenantId e) (pl_userId e) g0 = Inr True
            \<longrightarrow> ty \<in> set (pl_enrolled e)))"

lemma factor_needs_enrolled:
  assumes n: "factor_needs env t u (mfa_purge now g) = Inr (needs, enrolled)"
    and "policy_mode (mg_policy g) ty \<noteq> MDisabled" and "isEnrolled env ty t u g = Inr True"
  shows "ty \<in> set enrolled"
proof -
  let ?d = "factor_demand env t u (mfa_purge now g)"
  from n obtain a b where a: "?d FTotp = Inr a" and b: "?d FWebauthn = Inr b"
    and enrolled: "enrolled = map fst (filter (\<lambda>p. snd (snd p)) [(FTotp, a), (FWebauthn, b)])"
    by (auto simp: factor_needs_def FACTOR_TYPES_def Let_def)
  have d: "?d ty = Inr p \<Longrightarrow> snd p" for p using assms(2,3)
    by (cases ty) (auto simp: factor_demand_def Let_def mfa_purge_def isEnrolled_def split: if_splits sum.splits)
  show ?thesis using d [of a] d [of b] a b by (cases ty) (auto simp: enrolled)
qed

text \<open>Where a pending login comes from: the call that began it, what it was begun with, and a proof of each factor
  it has satisfied.\<close>

definition login_history :: "'f mfa_op list \<Rightarrow> 'f mfa_gate \<Rightarrow> string \<Rightarrow> pending_login \<Rightarrow> 'f mfa_op list \<Rightarrow> 'f mfa_env \<Rightarrow> 'f mfa_op list \<Rightarrow> bool" where
  "login_history cs g tok d pre env post \<longleftrightarrow> cs = pre @ Begin env (pl_login d) # post \<and> tok = base64url (me_random env)
    \<and> (pl_tenantId d, pl_userId d) = login_scope env (pl_login d)
    \<and> (\<exists>enrolled. factor_needs env (pl_tenantId d) (pl_userId d) (mfa_purge (me_now env) (mfa_runs pre g)) = Inr (pl_needs d, enrolled)
        \<and> set enrolled \<subseteq> set (pl_enrolled d))
    \<and> (\<forall>ty\<in>set (pl_satisfied d). \<exists>mid x rest. post = mid @ x # rest
        \<and> login_factor_proved env (pl_login d) (mfa_runs pre g) ty tok x (mfa_runs (pre @ Begin env (pl_login d) # mid) g))"

lemma history_proves:
  assumes h: "login_history cs g tok e pre env post" and e: "map_of (mg_pending (mfa_runs cs g)) tok = Some e"
    and "factor_proved ty tok c (mfa_runs cs g)"
  shows "login_factor_proved env (pl_login e) (mfa_runs pre g) ty tok c (mfa_runs (pre @ Begin env (pl_login e) # post) g)"
proof -
  from h obtain enrolled where cs: "cs = pre @ Begin env (pl_login e) # post" and scope: "(pl_tenantId e, pl_userId e) = login_scope env (pl_login e)"
    and n: "factor_needs env (pl_tenantId e) (pl_userId e) (mfa_purge (me_now env) (mfa_runs pre g)) = Inr (pl_needs e, enrolled)"
    and sub: "set enrolled \<subseteq> set (pl_enrolled e)"
    by (auto simp: login_history_def)
  have "ty \<in> set (pl_enrolled e)" if "policy_mode (mg_policy (mfa_runs pre g)) ty \<noteq> MDisabled"
    and "isEnrolled env ty (pl_tenantId e) (pl_userId e) (mfa_runs pre g) = Inr True"
    using factor_needs_enrolled [OF n that] sub by blast
  with assms(2,3) scope show ?thesis unfolding login_factor_proved_def cs by blast
qed

lemma last_split: "Q x mid \<Longrightarrow> \<exists>m y rest. mid @ [x] = m @ y # rest \<and> Q y m"
  by blast

lemma earlier_split: "\<exists>m y rest. post = m @ y # rest \<and> Q y m \<Longrightarrow> \<exists>m y rest. post @ [c] = m @ y # rest \<and> Q y m"
  by (metis append.assoc append_Cons)

lemma history_step:
  assumes h: "login_history cs g tok e pre env post" and e: "map_of (mg_pending (mfa_runs cs g)) tok = Some e"
    and k: "kept_login c (mfa_runs cs g) s tok d"
  shows "login_history (cs @ [c]) g tok d pre env (post @ [c])"
proof -
  from k e have same: "pl_login d = pl_login e" "pl_tenantId d = pl_tenantId e" "pl_userId d = pl_userId e" "pl_needs d = pl_needs e"
    and mono: "set (pl_enrolled e) \<subseteq> set (pl_enrolled d)"
    and sat: "\<forall>ty\<in>set (pl_satisfied d). ty \<in> set (pl_satisfied e) \<or> factor_proved ty tok c (mfa_runs cs g)"
    by (auto simp: kept_login_def same_login_def)
  let ?proved = "\<lambda>ty x mid. login_factor_proved env (pl_login e) (mfa_runs pre g) ty tok x (mfa_runs (pre @ Begin env (pl_login e) # mid) g)"
  have "\<exists>mid x rest. post @ [c] = mid @ x # rest \<and> ?proved ty x mid" if ty: "ty \<in> set (pl_satisfied d)" for ty
  proof (cases "ty \<in> set (pl_satisfied e)")
    case True
    with h have "\<exists>mid x rest. post = mid @ x # rest \<and> ?proved ty x mid" unfolding login_history_def by blast
    then show ?thesis by (rule earlier_split)
  next
    case False
    with sat ty history_proves [OF h e, of ty c] show ?thesis by (intro last_split) blast
  qed
  with h mono show ?thesis unfolding login_history_def same by auto
qed

lemma pending_history:
  assumes "gate_ok g" and "mg_pending g = []" and "map_of (mg_pending (mfa_runs cs g)) tok = Some d"
  shows "\<exists>pre env post. login_history cs g tok d pre env post"
  using assms(3)
proof (induction cs arbitrary: d rule: rev_induct)
  case Nil
  with assms(2) show ?case by simp
next
  case (snoc c cs)
  let ?g = "mfa_runs cs g"
  have "run_step c ?g (fst (mfa_run c ?g)) (snd (mfa_run c ?g))" by (rule run_step_any [OF runs_gate_ok [OF assms(1)]]) simp
  moreover have "map_of (mg_pending (snd (mfa_run c ?g))) tok = Some d" using snoc.prems by (simp add: mfa_runs_append)
  ultimately consider (new) "issued_login c ?g tok d" | (old) "kept_login c ?g (fst (mfa_run c ?g)) tok d"
    unfolding run_step_def by blast
  then show ?case
  proof cases
    case new
    then obtain env where "c = Begin env (pl_login d)" "tok = base64url (me_random env)" "pl_satisfied d = []"
      "(pl_tenantId d, pl_userId d) = login_scope env (pl_login d)"
      "factor_needs env (pl_tenantId d) (pl_userId d) (mfa_purge (me_now env) ?g) = Inr (pl_needs d, pl_enrolled d)"
      by (auto simp: issued_login_def)
    then show ?thesis by (intro exI [of _ cs] exI [of _ env] exI [of _ "[]"]) (simp add: login_history_def)
  next
    case old
    then obtain e where e: "map_of (mg_pending ?g) tok = Some e" by (auto simp: kept_login_def)
    from snoc.IH [OF e] obtain pre env post where "login_history cs g tok e pre env post" by blast
    from history_step [OF this e old] show ?thesis by blast
  qed
qed

text \<open>C4  Whatever calls are made on a gate that starts empty, and whatever its managers answer, a login is completed only under the token issued by the call that began it, after a manager accepted, for the tenant and user of that login, a proof of every factor the policy demanded when the login began; a factor that user already had is proved with that factor or a recovery code, never by enrolling a new one, and a new one is enrolled only when every factor the user has is satisfied.\<close>

theorem mfa_complete_needs_all_factors:
  assumes empty: "mg_pending g = []" and fin: "mfa_run c (mfa_runs cs g) = (Some (StepComplete l codes), g')"
  shows "\<exists>pre env post tok. cs = pre @ Begin env l # post \<and> tok = base64url (me_random env) \<and> op_token c = JStr tok
    \<and> (\<forall>ty. factor_demanded env l (mfa_runs pre g) ty \<longrightarrow>
        (\<exists>mid x rest. post @ [c] = mid @ x # rest
          \<and> login_factor_proved env l (mfa_runs pre g) ty tok x (mfa_runs (pre @ Begin env l # mid) g)))"
proof -
  have ok: "gate_ok g" using empty by (simp add: gate_ok_def)
  from run_step_any [OF runs_gate_ok [OF ok] fin] obtain tok e where tok: "op_token c = JStr tok"
    and e: "map_of (mg_pending (mfa_runs cs g)) tok = Some e" and l: "l = pl_login e"
    and all: "\<forall>ty\<in>set (pl_needs e). ty \<in> set (pl_satisfied e) \<or> factor_proved ty tok c (mfa_runs cs g)"
    unfolding run_step_def by blast
  from pending_history [OF ok empty e] obtain pre env post where h: "login_history cs g tok e pre env post" by blast
  then obtain enrolled where start: "cs = pre @ Begin env l # post" "tok = base64url (me_random env)"
    and needs: "factor_needs env (fst (login_scope env l)) (snd (login_scope env l)) (mfa_purge (me_now env) (mfa_runs pre g)) = Inr (pl_needs e, enrolled)"
    unfolding login_history_def l by (metis fst_conv snd_conv)
  let ?proved = "\<lambda>ty x mid. login_factor_proved env l (mfa_runs pre g) ty tok x (mfa_runs (pre @ Begin env l # mid) g)"
  have "\<exists>mid x rest. post @ [c] = mid @ x # rest \<and> ?proved ty x mid" if "factor_demanded env l (mfa_runs pre g) ty" for ty
  proof (cases "ty \<in> set (pl_satisfied e)")
    case True
    with h have "\<exists>mid x rest. post = mid @ x # rest \<and> ?proved ty x mid" unfolding login_history_def l by blast
    then show ?thesis by (rule earlier_split)
  next
    case False
    with that all factor_needs_demanded [OF needs, of ty] have "factor_proved ty tok c (mfa_runs cs g)" by blast
    from history_proves [OF h e this] show ?thesis unfolding l by (rule last_split)
  qed
  with start tok show ?thesis by blast
qed

theorem mfa_skipped_only_undemanded: "mfa_begin env l g = (Inr None, g') \<Longrightarrow> \<not> factor_demanded env l g ty"
  using factor_needs_demanded [of env l "me_now env" g "[]" _ ty]
  by (auto simp: mfa_begin_def Let_def login_scope_def split: if_splits)

subsection \<open>Guesses are counted\<close>

fun count_answers :: "(mfa_step \<Rightarrow> bool) \<Rightarrow> string \<Rightarrow> 'f mfa_op list \<Rightarrow> 'f mfa_gate \<Rightarrow> nat" where
  "count_answers Q tok [] g = 0"
| "count_answers Q tok (c # cs) g = (case fst (mfa_run c g) of
       Some s \<Rightarrow> if Q s \<and> op_token c = JStr tok then 1 else 0 | None \<Rightarrow> 0) + count_answers Q tok cs (snd (mfa_run c g))"

definition is_complete :: "mfa_step \<Rightarrow> bool" where
  "is_complete s \<longleftrightarrow> (case s of StepComplete _ _ \<Rightarrow> True | _ \<Rightarrow> False)"

definition reissues :: "string \<Rightarrow> 'f mfa_op \<Rightarrow> bool" where
  "reissues tok c \<longleftrightarrow> (\<exists>env l. c = Begin env l \<and> base64url (me_random env) = tok)"

lemma step_origin: "run_step c g s g' \<Longrightarrow> map_of (mg_pending g') tok = Some d \<Longrightarrow> issued_login c g tok d \<or> kept_login c g s tok d"
  unfolding run_step_def by blast

lemma not_reissued: "run_step c g s g' \<Longrightarrow> \<not> reissues tok c \<Longrightarrow> map_of (mg_pending g') tok = Some d \<Longrightarrow> kept_login c g s tok d"
  by (drule (1) step_origin) (auto simp: issued_login_def reissues_def)

lemma count_absent:
  assumes "gate_ok g" "map_of (mg_pending g) tok = None" "\<forall>c\<in>set cs. \<not> reissues tok c" "Q = (\<lambda>s. s = StepFailed) \<or> Q = is_complete"
  shows "count_answers Q tok cs g = 0"
  using assms(1-3)
proof (induction cs arbitrary: g)
  case (Cons c cs)
  obtain s g' where run: "mfa_run c g = (s, g')" by (cases "mfa_run c g")
  have step: "run_step c g s g'" by (rule run_step_any [OF Cons.prems(1) run])
  have "map_of (mg_pending g') tok = None"
    using not_reissued [OF step, of tok] Cons.prems(2,3) by (cases "map_of (mg_pending g') tok") (auto simp: kept_login_def)
  moreover have "gate_ok g'" using step by (simp add: run_step_def)
  ultimately have "count_answers Q tok cs g' = 0" using Cons.IH Cons.prems(3) by simp
  moreover have "\<not> (\<exists>x. s = Some x \<and> Q x \<and> op_token c = JStr tok)"
    using step Cons.prems(2) assms(4) by (auto simp: run_step_def is_complete_def split: mfa_step.splits)
  ultimately show ?case using run by (auto split: option.splits)
qed simp

lemma failed_bound:
  assumes "gate_ok g" "map_of (mg_pending g) tok = Some e" "\<forall>c\<in>set cs. \<not> reissues tok c"
  shows "int (count_answers (\<lambda>s. s = StepFailed) tok cs g) \<le> max 1 (mg_maxFailures g - pl_failures e)"
  using assms
proof (induction cs arbitrary: g e)
  case (Cons c cs)
  obtain s g' where run: "mfa_run c g = (s, g')" by (cases "mfa_run c g")
  have step: "run_step c g s g'" by (rule run_step_any [OF Cons.prems(1) run])
  then have ok': "gate_ok g'" and M: "mg_maxFailures g' = mg_maxFailures g" by (simp_all add: run_step_def)
  let ?f = "if s = Some StepFailed \<and> op_token c = JStr tok then 1 else (0::int)"
  have count: "int (count_answers (\<lambda>s. s = StepFailed) tok (c # cs) g) = ?f + int (count_answers (\<lambda>s. s = StepFailed) tok cs g')"
    using run by (auto split: option.splits)
  show ?case
  proof (cases "map_of (mg_pending g') tok")
    case None
    from count_absent [OF ok' this] Cons.prems(3) have "count_answers (\<lambda>s. s = StepFailed) tok cs g' = 0" by simp
    with count show ?thesis by (simp del: count_answers.simps add: max_def)
  next
    case (Some d)
    from not_reissued [OF step _ Some] Cons.prems(2,3)
    have "pl_failures e + ?f \<le> pl_failures d" and "?f = 1 \<longrightarrow> pl_failures d < mg_maxFailures g" by (auto simp: kept_login_def)
    moreover have "int (count_answers (\<lambda>s. s = StepFailed) tok cs g') \<le> max 1 (mg_maxFailures g - pl_failures d)"
      using Cons.IH [OF ok' Some] Cons.prems(3) M by simp
    ultimately show ?thesis using count by (cases "s = Some StepFailed \<and> op_token c = JStr tok") (auto simp del: count_answers.simps)
  qed
qed simp

lemma complete_once:
  assumes "gate_ok g" "\<forall>c\<in>set cs. \<not> reissues tok c"
  shows "count_answers is_complete tok cs g \<le> 1"
  using assms
proof (induction cs arbitrary: g)
  case (Cons c cs)
  obtain s g' where run: "mfa_run c g = (s, g')" by (cases "mfa_run c g")
  have step: "run_step c g s g'" by (rule run_step_any [OF Cons.prems(1) run])
  then have ok': "gate_ok g'" by (simp add: run_step_def)
  show ?case
  proof (cases "\<exists>l codes. s = Some (StepComplete l codes) \<and> op_token c = JStr tok")
    case True
    then have "map_of (mg_pending g') tok = None" using step by (auto simp: run_step_def)
    from count_absent [OF ok' this] Cons.prems(2) have "count_answers is_complete tok cs g' = 0" by simp
    with run show ?thesis by (auto split: option.splits)
  next
    case False
    then have "count_answers is_complete tok (c # cs) g = count_answers is_complete tok cs g'"
      using run by (auto simp: is_complete_def split: option.splits mfa_step.splits)
    with Cons.IH [OF ok'] Cons.prems(2) show ?thesis by simp
  qed
qed simp

text \<open>C5  However the steps of one challenge are ordered, at most maxFailures of them fail and at most one completes it, as long as the random token is not issued again.\<close>

theorem mfa_guesses_are_bounded:
  assumes ok: "gate_ok g" and fresh: "map_of (mg_pending g) (base64url (me_random env)) = None" and limit: "1 \<le> mg_maxFailures g"
    and once: "\<forall>c\<in>set cs. \<not> reissues (base64url (me_random env)) c"
  shows "int (count_answers (\<lambda>s. s = StepFailed) (base64url (me_random env)) cs (snd (mfa_begin env l g))) \<le> mg_maxFailures g
    \<and> count_answers is_complete (base64url (me_random env)) cs (snd (mfa_begin env l g)) \<le> 1"
proof -
  let ?tok = "base64url (me_random env)" and ?g = "snd (mfa_begin env l g)"
  have step: "run_step (Begin env l) g None ?g" by (rule begin_step [OF ok])
  then have ok': "gate_ok ?g" and M: "mg_maxFailures ?g = mg_maxFailures g" by (simp_all add: run_step_def)
  have "int (count_answers (\<lambda>s. s = StepFailed) ?tok cs ?g) \<le> mg_maxFailures g"
  proof (cases "map_of (mg_pending ?g) ?tok")
    case None
    from count_absent [OF ok' this once] limit show ?thesis by simp
  next
    case (Some d)
    from step_origin [OF step Some] fresh have "pl_failures d = 0" by (auto simp: issued_login_def kept_login_def)
    with failed_bound [OF ok' Some once] M limit show ?thesis by simp
  qed
  with complete_once [OF ok' once] show ?thesis by blast
qed

subsection \<open>A login with one factor\<close>

text \<open>A TOTP manager with one active factor that accepts the code 123456.\<close>

definition exGateLogin :: mfa_login where
  "exGateLogin = \<lparr>ml_identity = \<lparr>si_tenantId = ''x.org'', si_domain = ''x.org'', si_userId = ''ada'', si_actorId = ''ada'', si_role = ''monitor''\<rparr>,
     ml_email = ''ada@x.org'', ml_password = ''pw'', ml_rememberMe = False\<rparr>"

definition exGateEnv :: "unit mfa_env" where
  "exGateEnv = \<lparr>me_now = 0, me_now2 = 0, me_random = replicate 32 1, me_sha = (\<lambda>_. ''''),
     me_totp_list = (\<lambda>_ _ _. Inr [(''f1'', True)]), me_totp_enroll = (\<lambda>_ _ f. (Inl mfaUnavailable, f)),
     me_totp_confirm = (\<lambda>_ _ _ _ f. (Inr False, f)), me_totp_verify = (\<lambda>i _ _ c f. (Inr (i = ''f1'' \<and> c = ''123456''), f)),
     me_recovery_list = (\<lambda>_ _ _. Inr []), me_recovery_enroll = (\<lambda>_ _ f. (Inr [], f)), me_recovery_consume = (\<lambda>_ _ _ _ f. (Inr False, f)),
     me_web_list = (\<lambda>_ _ _. Inr []), me_web_beginRegistration = (\<lambda>_ _ f. (Inl mfaUnavailable, f)),
     me_web_completeRegistration = (\<lambda>_ _ _ f. (Inr False, f)), me_web_beginAssertion = (\<lambda>_ _ f. (Inl mfaUnavailable, f)),
     me_web_completeAssertion = (\<lambda>_ _ _ f. (Inr False, f))\<rparr>"

definition exGateToken :: string where
  "exGateToken = ''AQEBAQEBAQEBAQEBAQEBAQEBAQEBAQEBAQEBAQEBAQE''"

definition exGate :: "unit mfa_gate" where
  "exGate = createMfaGate \<lparr>mp_totp = MOptional, mp_webauthn = MOptional, mp_recoveryCodes = True\<rparr> True False False ()"

definition exWrong :: "unit mfa_op" where "exWrong = VerifyTotp exGateEnv (JStr exGateToken) (JStr ''000000'')"
definition exRight :: "unit mfa_op" where "exRight = VerifyTotp exGateEnv (JStr exGateToken) (JStr ''123456'')"

lemma exGateToken_issued: "base64url (me_random exGateEnv) = exGateToken"
  by code_simp

lemma exGate_wrong: "fst (mfa_run exWrong (mfa_runs [Begin exGateEnv exGateLogin] exGate)) = Some StepFailed"
  by code_simp

lemma exGate_completes: "fst (mfa_run exRight (mfa_runs [Begin exGateEnv exGateLogin, exWrong] exGate)) = Some (StepComplete exGateLogin None)"
  by code_simp

lemma exGate_empty: "mg_pending exGate = []" "mg_maxFailures exGate = 5"
  by (simp_all add: exGate_def createMfaGate_def)

theorem mfa_complete_needs_all_factors_witness:
  "\<exists>pre env post tok. [Begin exGateEnv exGateLogin, exWrong] = pre @ Begin env exGateLogin # post \<and> tok = base64url (me_random env)
    \<and> op_token exRight = JStr tok
    \<and> (\<forall>ty. factor_demanded env exGateLogin (mfa_runs pre exGate) ty \<longrightarrow>
        (\<exists>mid x rest. post @ [exRight] = mid @ x # rest
          \<and> login_factor_proved env exGateLogin (mfa_runs pre exGate) ty tok x (mfa_runs (pre @ Begin env exGateLogin # mid) exGate)))"
proof -
  have "mfa_run exRight (mfa_runs [Begin exGateEnv exGateLogin, exWrong] exGate)
    = (Some (StepComplete exGateLogin None), snd (mfa_run exRight (mfa_runs [Begin exGateEnv exGateLogin, exWrong] exGate)))"
    by (rule prod_eqI) (simp_all only: exGate_completes fst_conv snd_conv)
  from mfa_complete_needs_all_factors [OF exGate_empty(1) this] show ?thesis .
qed

theorem mfa_guesses_are_bounded_witness:
  "int (count_answers (\<lambda>s. s = StepFailed) exGateToken [exWrong, exWrong, exRight, exRight] (snd (mfa_begin exGateEnv exGateLogin exGate))) \<le> 5
    \<and> count_answers is_complete exGateToken [exWrong, exWrong, exRight, exRight] (snd (mfa_begin exGateEnv exGateLogin exGate)) \<le> 1"
proof -
  have once: "\<forall>c\<in>set [exWrong, exWrong, exRight, exRight]. \<not> reissues (base64url (me_random exGateEnv)) c"
    by (simp add: reissues_def exWrong_def exRight_def)
  have ok: "gate_ok exGate" and fresh: "map_of (mg_pending exGate) (base64url (me_random exGateEnv)) = None" and limit: "1 \<le> mg_maxFailures exGate"
    by (simp_all add: gate_ok_def exGate_empty)
  from mfa_guesses_are_bounded [OF ok fresh limit once, where l = exGateLogin] show ?thesis
    by (simp only: exGate_empty exGateToken_issued)
qed

subsection \<open>Identifiers that differ in case\<close>

text \<open>The comment of \<open>mfaScopeId\<close> says that no identifiers share a factor scope; those that differ in case do.\<close>

lemma mfaScopeId_ignores_case: "mfaScopeId sha ''Ada'' = mfaScopeId sha ''ada'' \<and> mfaScopeId sha ''ada'' = ''ada''"
  by (simp add: mfaScopeId_def) code_simp

end
