(* ===== verification/WebAuthn.thy ===== *)
theory WebAuthn
  imports Tenant_Context Auth_Factors
begin

section \<open>WebAuthn ceremonies\<close>

text \<open>
  \<open>src/core/auth/webauthn.ts\<close>: the manager of \<open>createWebAuthnManager\<close>, with its two maps and the audit events as
  the record \<open>web_state\<close>.  A binary field of a request is a buffer or any other value (\<open>web_value\<close>); a
  public key in bytes is a \<open>Buffer\<close>.  SHA-256,
  \<open>JSON.parse\<close> of the UTF-8 text of a buffer and the parser behind \<open>new URL\<close> are fields of the options; the answers
  of the verifier and of the two other hooks, the clock and the random bytes are those of one call (\<open>web_env\<close>).
  The hooks change nothing.  The stores are maps, so the checks for their methods always pass.
\<close>

definition webError :: "string \<Rightarrow> err" where
  "webError code = Err OtherErr code 0"

datatype web_value = WBytes bytes | WVal jsval

record web_url =
  ul_protocol :: string
  ul_username :: string
  ul_password :: string
  ul_pathname :: string
  ul_search :: string
  ul_hash :: string
  ul_origin :: string
  ul_hostname :: string

record web_credential =
  cd_credentialId :: string
  cd_tenantId :: string
  cd_userId :: string
  cd_label :: string
  cd_publicKey :: web_value
  cd_signCount :: "32 word"
  cd_createdAt :: int
  cd_lastUsedAt :: "int option"
  cd_revokedAt :: "int option"
  cd_transports :: "jsval list"

record web_challenge =
  wc_challenge :: string
  wc_type :: string
  wc_tenantId :: string
  wc_userId :: string
  wc_allowCredentials :: "string list"
  wc_createdAt :: int
  wc_expiresAt :: int

record client_data =
  ck_type :: string
  ck_challenge :: string
  ck_origin :: string

record auth_data =
  ad_bytes :: bytes
  ad_rpIdHash :: bytes
  ad_flags :: "8 word"
  ad_userVerified :: bool
  ad_signCount :: "32 word"
  ad_attested :: "bytes option"

text \<open>What the verifier is given; the fields that a ceremony does not have are \<open>None\<close>.\<close>

record verifier_payload =
  vp_operation :: string
  vp_tenantId :: string
  vp_userId :: string
  vp_credentialId :: string
  vp_clientData :: client_data
  vp_clientDataJSON :: bytes
  vp_authenticatorData :: auth_data
  vp_signature :: "bytes option"
  vp_attestationObject :: "bytes option"
  vp_credentialPublicKey :: "web_value option"
  vp_credential :: "web_credential option"
  vp_signedData :: "bytes option"

record web_options =
  wo_origins :: "string list"
  wo_rpId :: string
  wo_rpName :: string
  wo_challengeTtlMs :: int
  wo_requireUserVerification :: bool
  wo_sha :: "bytes \<Rightarrow> bytes"
  wo_json :: "bytes \<Rightarrow> jsval option"
  wo_url :: "string \<Rightarrow> web_url option"

record web_env =
  we_clock :: "int option"
  we_random :: "bytes option"
  we_verify :: "verifier_payload \<Rightarrow> jsval res"
  we_rateLimiter :: "string \<Rightarrow> jsval res" \<comment> \<open>by its key\<close>
  we_authorize :: "string \<Rightarrow> jsval \<Rightarrow> jsval res" \<comment> \<open>actor and role\<close>

record web_request =
  wr_tenantId :: jsval
  wr_userId :: jsval
  wr_actorId :: jsval
  wr_role :: jsval
  wr_displayName :: jsval
  wr_allowCredentials :: jsval
  wr_challenge :: jsval
  wr_credentialId :: jsval
  wr_clientDataJSON :: web_value
  wr_authenticatorData :: web_value
  wr_credentialPublicKey :: web_value
  wr_signature :: web_value
  wr_attestationObject :: web_value
  wr_label :: jsval
  wr_transports :: jsval
  wr_reason :: jsval

type_synonym web_fields = "(string \<times> jsval) list"

record web_state =
  wn_challenges :: "(string \<times> web_challenge) list"
  wn_credentials :: "(string \<times> web_credential) list"
  wn_audit :: "web_fields list"

subsection \<open>Fields of a request\<close>

definition FORBIDDEN_ROLES :: "string list" where
  "FORBIDDEN_ROLES = [''provider'', ''tenant_master'', ''master'', ''monitor'', ''admin'']"

definition web_assertUserActor :: "web_request \<Rightarrow> (string \<times> string) res" where
  "web_assertUserActor r =
     bindE (assertIdentityPart webError (wr_tenantId r)) (\<lambda>t. bindE (assertIdentityPart webError (wr_userId r)) (\<lambda>u.
     bindE (assertIdentityPart webError (js_default (wr_actorId r) (wr_userId r))) (\<lambda>a.
     bindE (needE (a = u \<and> js_default (wr_role r) (JStr ''user'') \<notin> set (map JStr FORBIDDEN_ROLES)) (webError ''FACTOR_SCOPE_VIOLATION'')) (\<lambda>_.
     Inr (t, u)))))"

definition challenge_ok :: "string \<Rightarrow> bool" where
  "challenge_ok s \<longleftrightarrow> 32 \<le> length s \<and> length s \<le> 256 \<and> list_all url_char s"

definition credential_id_ok :: "string \<Rightarrow> bool" where
  "credential_id_ok s \<longleftrightarrow> 16 \<le> length s \<and> length s \<le> 1024 \<and> list_all url_char s"

definition assertCredentialId :: "jsval \<Rightarrow> string res" where
  "assertCredentialId v = need_str credential_id_ok (webError ''CREDENTIAL_INVALID'') v"

definition decodeBase64Url :: "nat \<Rightarrow> nat \<Rightarrow> jsval \<Rightarrow> bytes res" where
  "decodeBase64Url lo hi v = bindE (need_str (\<lambda>s. s \<noteq> [] \<and> list_all url_char s) (webError ''MALFORMED_RESPONSE'') v) (\<lambda>s.
     let result = dec_alphabet 6 base64url_alphabet s in
     if length result < lo \<or> hi < length result then Inl (webError ''MALFORMED_RESPONSE'') else Inr result)"

fun binaryValue :: "nat \<Rightarrow> nat \<Rightarrow> web_value \<Rightarrow> bytes res" where \<comment> \<open>the length of a buffer is not checked\<close>
  "binaryValue lo hi (WBytes bs) = Inr bs"
| "binaryValue lo hi (WVal v) = decodeBase64Url lo hi v"

fun optional_binary :: "nat \<Rightarrow> web_value \<Rightarrow> bytes option res" where
  "optional_binary hi (WVal JUndef) = Inr None"
| "optional_binary hi v = bindE (binaryValue 1 hi v) (\<lambda>bs. Inr (Some bs))"

definition parse_origin :: "(string \<Rightarrow> web_url option) \<Rightarrow> jsval \<Rightarrow> web_url res" where
  "parse_origin url v = bindE (need_str (\<lambda>s. length s \<le> 512) (webError ''INVALID_ORIGIN'') v) (\<lambda>s.
     case url s of None \<Rightarrow> Inl (webError ''INVALID_ORIGIN'')
     | Some p \<Rightarrow> if ul_protocol p \<noteq> ''https:'' \<or> ul_username p \<noteq> [] \<or> ul_password p \<noteq> [] \<or> ul_pathname p \<noteq> ''/''
           \<or> ul_search p \<noteq> [] \<or> ul_hash p \<noteq> [] then Inl (webError ''INVALID_ORIGIN'') else Inr p)"

definition assertOrigin :: "(string \<Rightarrow> web_url option) \<Rightarrow> jsval \<Rightarrow> string res" where
  "assertOrigin url v = bindE (parse_origin url v) (\<lambda>p. Inr (ul_origin p))"

definition rp_label_ok :: "string \<Rightarrow> bool" where
  "rp_label_ok w \<longleftrightarrow> run_of (\<lambda>c. is_lowdig c \<or> c = CHR ''-'') 63 w \<and> is_lowdig (hd w) \<and> is_lowdig (last w)"

definition assertRpId :: "jsval \<Rightarrow> string res" where
  "assertRpId v = need_str (\<lambda>s. 1 \<le> length s \<and> length s \<le> 253 \<and> s = lower s
     \<and> list_all rp_label_ok (split_by (\<lambda>c. c = CHR ''.'') s)) (webError ''INVALID_RP_ID'') v"

definition parseClientData :: "web_options \<Rightarrow> web_value \<Rightarrow> client_data res" where
  "parseClientData opts v = bindE (binaryValue 2 16384 v) (\<lambda>bs.
     case wo_json opts bs of
       Some (JObj kvs) \<Rightarrow> (case (jget (JObj kvs) ''type'', jget (JObj kvs) ''challenge'', jget (JObj kvs) ''origin'') of
           (JStr t, JStr c, JStr g) \<Rightarrow> Inr \<lparr>ck_type = t, ck_challenge = c, ck_origin = g\<rparr>
         | _ \<Rightarrow> Inl (webError ''MALFORMED_RESPONSE''))
     | _ \<Rightarrow> Inl (webError ''MALFORMED_RESPONSE''))"

definition ascii_bytes :: "string \<Rightarrow> bytes" where \<comment> \<open>UTF-8 of characters below 128\<close>
  "ascii_bytes s = map (\<lambda>c. of_nat (ccode c)) s"

definition read_uint32 :: "bytes \<Rightarrow> nat \<Rightarrow> 32 word" where
  "read_uint32 bs i = push_bit 24 (ucast (bs ! i)) OR push_bit 16 (ucast (bs ! (i + 1))) OR push_bit 8 (ucast (bs ! (i + 2))) OR ucast (bs ! (i + 3))"

text \<open>A buffer may be shorter than 37 bytes: \<open>timingSafeEqual\<close> and \<open>readUInt32BE\<close> throw, and the flags are
  \<open>undefined\<close>, of which no bit is set.\<close>

definition parseAuthenticatorData :: "web_options \<Rightarrow> bool \<Rightarrow> web_value \<Rightarrow> auth_data res" where \<comment> \<open>true for a registration\<close>
  "parseAuthenticatorData opts registration v = bindE (binaryValue 37 16384 v) (\<lambda>bs.
     let expected = wo_sha opts (ascii_bytes (wo_rpId opts)); flags = (if 32 < length bs then bs ! 32 else 0) in
     if length (take 32 bs) \<noteq> length expected then Inl (Err JsRangeErr ''ERR_CRYPTO_TIMING_SAFE_EQUAL_LENGTH'' 0)
     else if take 32 bs \<noteq> expected then Inl (webError ''RP_ID_MISMATCH'')
     else if flags AND 0x01 = 0 then Inl (webError ''USER_PRESENCE_REQUIRED'')
     else if wo_requireUserVerification opts \<and> flags AND 0x04 = 0 then Inl (webError ''USER_VERIFICATION_REQUIRED'')
     else if registration \<and> flags AND 0x40 = 0 then Inl (webError ''ATTESTATION_REQUIRED'')
     else if length bs < 37 then Inl (Err JsRangeErr ''ERR_OUT_OF_RANGE'' 0)
     else Inr \<lparr>ad_bytes = bs, ad_rpIdHash = take 32 bs, ad_flags = flags, ad_userVerified = (flags AND 0x04 \<noteq> 0),
       ad_signCount = read_uint32 bs 33, ad_attested = (if registration then Some (drop 37 bs) else None)\<rparr>)"

definition web_label :: "jsval \<Rightarrow> string res" where
  "web_label v = (if v = JUndef then Inr ''passkey''
     else need_str (\<lambda>s. 1 \<le> length s \<and> length s \<le> 64 \<and> \<not> list_ex is_line_break s) (webError ''INVALID_LABEL'') v)"

definition verifierSucceeded :: "jsval \<Rightarrow> bool" where
  "verifierSucceeded v \<longleftrightarrow> v = JBool True \<or> jget v ''valid'' = JBool True"

fun isPublicKeyMaterial :: "web_value \<Rightarrow> bool" where
  "isPublicKeyMaterial (WBytes bs) \<longleftrightarrow> bs \<noteq> [] \<and> length bs \<le> 16384"
| "isPublicKeyMaterial (WVal v) \<longleftrightarrow> (case v of
     JObj kvs \<Rightarrow> \<not> list_ex (\<lambda>k. lower k \<in> {''d'', ''private'', ''privatekey'', ''secret'', ''secretkey'', ''pem''}) (map fst kvs)
   | JDate _ \<Rightarrow> True | _ \<Rightarrow> False)"

subsection \<open>The manager\<close>

definition rp_scope_ok :: "string \<Rightarrow> string \<Rightarrow> bool" where
  "rp_scope_ok rp host \<longleftrightarrow> lower host = rp \<or> ends_with (CHR ''.'' # rp) (lower host)"

definition one_line :: "jsval \<Rightarrow> bool" where
  "one_line v \<longleftrightarrow> (case js_str v of None \<Rightarrow> False | Some s \<Rightarrow> 1 \<le> length s \<and> length s \<le> 64 \<and> \<not> list_ex is_line_break s)"

record web_config =
  wg_expectedOrigins :: jsval
  wg_rpId :: jsval
  wg_rpName :: jsval
  wg_challengeTtlMs :: jsval
  wg_requireUserVerification :: bool
  wg_credentialVerifier :: jsval
  wg_authorizeRevocation :: jsval

definition createWebAuthnManager :: "(bytes \<Rightarrow> bytes) \<Rightarrow> (bytes \<Rightarrow> jsval option) \<Rightarrow> (string \<Rightarrow> web_url option) \<Rightarrow> web_config \<Rightarrow> (web_options \<times> web_state) res" where
  "createWebAuthnManager sha json url c =
     bindE (need_arr (webError ''INVALID_ORIGIN'') (wg_expectedOrigins c)) (\<lambda>os.
     bindE (needE (1 \<le> length os \<and> length os \<le> 8) (webError ''INVALID_ORIGIN'')) (\<lambda>_.
     bindE (mapE (assertOrigin url) os) (\<lambda>origins.
     bindE (assertRpId (wg_rpId c)) (\<lambda>rp.
     bindE (mapE (\<lambda>g. case url g of None \<Rightarrow> Inl (Err JsTypeErr ''ERR_INVALID_URL'' 0)
         | Some p \<Rightarrow> needE (rp_scope_ok rp (ul_hostname p)) (webError ''INVALID_RP_ID'')) (dedup origins)) (\<lambda>_.
     let name = js_default (wg_rpName c) (JStr ''Gulo Gulo'') in
     bindE (needE (one_line name) (webError ''INVALID_RP_ID'')) (\<lambda>_.
     bindE (need_int (\<lambda>n. 30000 \<le> n \<and> n \<le> 600000) (webError ''INVALID_TTL'') (js_default (wg_challengeTtlMs c) (JInt 300000))) (\<lambda>ttl.
     bindE (needE (wg_credentialVerifier c = JFun) (webError ''INVALID_VERIFIER'')) (\<lambda>_.
     bindE (needE (js_default (wg_authorizeRevocation c) JFun = JFun) (webError ''INVALID_AUTHORIZER'')) (\<lambda>_.
     Inr (\<lparr>wo_origins = dedup origins, wo_rpId = rp, wo_rpName = (case name of JStr s \<Rightarrow> s | _ \<Rightarrow> []), wo_challengeTtlMs = ttl,
       wo_requireUserVerification = wg_requireUserVerification c, wo_sha = sha, wo_json = json, wo_url = url\<rparr>,
       \<lparr>wn_challenges = [], wn_credentials = [], wn_audit = []\<rparr>))))))))))"

definition issueChallenge :: "web_options \<Rightarrow> web_env \<Rightarrow> string \<Rightarrow> string \<Rightarrow> string \<Rightarrow> string list \<Rightarrow> web_state \<Rightarrow> web_challenge res \<times> web_state" where
  "issueChallenge opts env ty t u allow st =
     liftE (assertRandomBytes webError (we_random env) 32) st (\<lambda>bs. liftE (readTime webError (we_clock env)) st (\<lambda>now.
       let r = \<lparr>wc_challenge = base64url bs, wc_type = ty, wc_tenantId = t, wc_userId = u, wc_allowCredentials = allow,
           wc_createdAt = now, wc_expiresAt = now + wo_challengeTtlMs opts\<rparr> in
       (Inr r, st\<lparr>wn_challenges := AList.update (base64url bs) r (wn_challenges st)\<rparr>)))"

definition consumeChallenge :: "jsval \<Rightarrow> string \<Rightarrow> string \<Rightarrow> string \<Rightarrow> int \<Rightarrow> web_state \<Rightarrow> web_challenge option \<times> web_state" where
  "consumeChallenge v ty t u now st = (case js_str v of None \<Rightarrow> (None, st)
     | Some s \<Rightarrow> if \<not> challenge_ok s then (None, st)
         else ((case map_of (wn_challenges st) s of None \<Rightarrow> None
             | Some r \<Rightarrow> if wc_type r \<noteq> ty \<or> wc_tenantId r \<noteq> t \<or> wc_userId r \<noteq> u \<or> wc_expiresAt r \<le> now then None else Some r),
           st\<lparr>wn_challenges := AList.delete s (wn_challenges st)\<rparr>))"

definition verifyClientData :: "web_options \<Rightarrow> web_value \<Rightarrow> string \<Rightarrow> string \<Rightarrow> client_data res" where
  "verifyClientData opts v ty challenge = bindE (parseClientData opts v) (\<lambda>c.
     if ck_type c \<noteq> ty \<or> ck_challenge c \<noteq> challenge then Inl (webError ''CLIENT_DATA_MISMATCH'')
     else bindE (assertOrigin (wo_url opts) (JStr (ck_origin c))) (\<lambda>g.
       if g \<notin> set (wo_origins opts) then Inl (webError ''CLIENT_DATA_MISMATCH'') else Inr c))"

definition callVerifier :: "web_env \<Rightarrow> verifier_payload \<Rightarrow> bool" where
  "callVerifier env p \<longleftrightarrow> (case we_verify env p of Inl _ \<Rightarrow> False | Inr v \<Rightarrow> verifierSucceeded v)"

definition web_log :: "web_fields \<Rightarrow> web_state \<Rightarrow> web_state" where
  "web_log e st = st\<lparr>wn_audit := wn_audit st @ [e]\<rparr>"

definition web_event :: "string \<Rightarrow> string \<Rightarrow> string \<Rightarrow> string \<Rightarrow> web_fields \<Rightarrow> int \<Rightarrow> web_fields" where
  "web_event ty t u i rest now = [(''eventType'', JStr ty), (''tenantId'', JStr t), (''userId'', JStr u), (''credentialId'', JStr i)]
     @ rest @ [(''occurredAt'', JInt now)]"

definition put_credential :: "web_credential \<Rightarrow> web_state \<Rightarrow> web_state" where
  "put_credential c st = st\<lparr>wn_credentials := AList.update (cd_credentialId c) c (wn_credentials st)\<rparr>"

subsection \<open>Registration\<close>

record registration_options =
  ro_challenge :: string
  ro_rpId :: string
  ro_rpName :: string
  ro_userHandle :: string
  ro_userName :: string
  ro_displayName :: string
  ro_timeout :: int

definition beginRegistration :: "web_options \<Rightarrow> web_env \<Rightarrow> web_request \<Rightarrow> web_state \<Rightarrow> registration_options res \<times> web_state" where
  "beginRegistration opts env r st = liftE (web_assertUserActor r) st (\<lambda>(t, u).
     liftE (needE (length u \<le> 64) (webError ''INVALID_IDENTITY'')) st (\<lambda>_.
     let name = js_default (wr_displayName r) (wr_userId r) in
     liftE (needE (one_line name) (webError ''INVALID_IDENTITY'')) st (\<lambda>_.
     bindS (issueChallenge opts env ''registration'' t u []) (\<lambda>c st1.
       (Inr \<lparr>ro_challenge = wc_challenge c, ro_rpId = wo_rpId opts, ro_rpName = wo_rpName opts, ro_userHandle = base64url (ascii_bytes u),
         ro_userName = u, ro_displayName = (case name of JStr s \<Rightarrow> s | _ \<Rightarrow> []), ro_timeout = wo_challengeTtlMs opts\<rparr>, st1)) st)))"

definition TRANSPORTS :: "string list" where
  "TRANSPORTS = [''usb'', ''nfc'', ''ble'', ''internal'', ''hybrid'']"

definition transports_ok :: "jsval \<Rightarrow> jsval list option" where
  "transports_ok v = (case js_default v (JArr []) of JArr vs \<Rightarrow> if set vs \<subseteq> set (map JStr TRANSPORTS) then Some vs else None | _ \<Rightarrow> None)"

text \<open>The inside of the try block: a refusal, or the credential to store.\<close>

definition registration_check :: "web_options \<Rightarrow> web_env \<Rightarrow> web_request \<Rightarrow> string \<Rightarrow> string \<Rightarrow> int \<Rightarrow> web_challenge \<Rightarrow> web_state \<Rightarrow> (string + web_credential) res" where
  "registration_check opts env r t u now ceremony st =
     bindE (assertCredentialId (wr_credentialId r)) (\<lambda>i.
     bindE (verifyClientData opts (wr_clientDataJSON r) ''webauthn.create'' (wc_challenge ceremony)) (\<lambda>client.
     bindE (parseAuthenticatorData opts True (wr_authenticatorData r)) (\<lambda>auth.
     if \<not> isPublicKeyMaterial (wr_credentialPublicKey r) then Inr (Inl ''PUBLIC_KEY_INVALID'')
     else if map_of (wn_credentials st) i \<noteq> None then Inr (Inl ''CREDENTIAL_ALREADY_REGISTERED'')
     else bindE (binaryValue 2 16384 (wr_clientDataJSON r)) (\<lambda>json.
     bindE (optional_binary 16384 (wr_signature r)) (\<lambda>sig.
     bindE (optional_binary 65536 (wr_attestationObject r)) (\<lambda>att.
     if \<not> callVerifier env \<lparr>vp_operation = ''registration'', vp_tenantId = t, vp_userId = u, vp_credentialId = i, vp_clientData = client,
         vp_clientDataJSON = json, vp_authenticatorData = auth, vp_signature = sig, vp_attestationObject = att,
         vp_credentialPublicKey = Some (wr_credentialPublicKey r), vp_credential = None, vp_signedData = None\<rparr>
     then Inr (Inl ''ATTESTATION_INVALID'')
     else (case transports_ok (wr_transports r) of None \<Rightarrow> Inr (Inl ''TRANSPORTS_INVALID'')
       | Some ts \<Rightarrow> bindE (web_label (wr_label r)) (\<lambda>label.
           Inr (Inr \<lparr>cd_credentialId = i, cd_tenantId = t, cd_userId = u, cd_label = label, cd_publicKey = wr_credentialPublicKey r,
             cd_signCount = ad_signCount auth, cd_createdAt = now, cd_lastUsedAt = None, cd_revokedAt = None, cd_transports = ts\<rparr>)))))))))"

definition REGISTRATION_CODES :: "string list" where
  "REGISTRATION_CODES = [''INVALID_ORIGIN'', ''RP_ID_MISMATCH'', ''CLIENT_DATA_MISMATCH'', ''MALFORMED_RESPONSE'', ''USER_PRESENCE_REQUIRED'', ''ATTESTATION_REQUIRED'']"

definition ASSERTION_CODES :: "string list" where
  "ASSERTION_CODES = [''INVALID_ORIGIN'', ''RP_ID_MISMATCH'', ''CLIENT_DATA_MISMATCH'', ''MALFORMED_RESPONSE'', ''USER_PRESENCE_REQUIRED'', ''USER_VERIFICATION_REQUIRED'']"

text \<open>The metadata of a credential leave out its public key.\<close>

definition cred_metadata :: "web_credential \<Rightarrow> web_credential" where
  "cred_metadata c = c\<lparr>cd_publicKey := WVal JUndef\<rparr>"

datatype ceremony_result = Accepted web_credential | Rejected string

definition completeRegistration :: "web_options \<Rightarrow> web_env \<Rightarrow> web_request \<Rightarrow> web_state \<Rightarrow> ceremony_result res \<times> web_state" where
  "completeRegistration opts env r st =
     liftE (assertIdentityPart webError (wr_tenantId r)) st (\<lambda>t. liftE (assertIdentityPart webError (wr_userId r)) st (\<lambda>u.
     liftE (readTime webError (we_clock env)) st (\<lambda>now.
     (case consumeChallenge (wr_challenge r) ''registration'' t u now st of
       (None, st1) \<Rightarrow> (Inr (Rejected ''CHALLENGE_INVALID''), st1)
     | (Some ceremony, st1) \<Rightarrow> (case registration_check opts env r t u now ceremony st1 of
           Inl e \<Rightarrow> (if err_code e \<in> set REGISTRATION_CODES then Inr (Rejected (err_code e)) else Inl e, st1)
         | Inr (Inl code) \<Rightarrow> (Inr (Rejected code), st1)
         | Inr (Inr c) \<Rightarrow> (Inr (Accepted (cred_metadata c)),
             web_log (web_event ''auth.webauthn.enrolled'' t u (cd_credentialId c) [] now) (put_credential c st1)))))))"

subsection \<open>Assertion\<close>

definition owned_active :: "string \<Rightarrow> string \<Rightarrow> web_credential \<Rightarrow> bool" where
  "owned_active t u c \<longleftrightarrow> cd_tenantId c = t \<and> cd_userId c = u \<and> cd_revokedAt c = None"

record assertion_options =
  ao_challenge :: string
  ao_rpId :: string
  ao_timeout :: int
  ao_userVerification :: string
  ao_allowCredentials :: "string list"

definition beginAssertion :: "web_options \<Rightarrow> web_env \<Rightarrow> web_request \<Rightarrow> web_state \<Rightarrow> assertion_options res \<times> web_state" where
  "beginAssertion opts env r st = liftE (web_assertUserActor r) st (\<lambda>(t, u).
     liftE (need_arr (webError ''CREDENTIAL_INVALID'') (js_default (wr_allowCredentials r) (JArr []))) st (\<lambda>vs.
     liftE (needE (length vs \<le> 64) (webError ''CREDENTIAL_INVALID'')) st (\<lambda>_.
     liftE (mapE assertCredentialId vs) st (\<lambda>ids.
     let eligible = (if vs \<noteq> [] then filter (\<lambda>i. case map_of (wn_credentials st) i of None \<Rightarrow> False | Some c \<Rightarrow> owned_active t u c) ids
           else map cd_credentialId (filter (owned_active t u) (map snd (wn_credentials st)))) in
     bindS (issueChallenge opts env ''assertion'' t u eligible) (\<lambda>c st1.
       (Inr \<lparr>ao_challenge = wc_challenge c, ao_rpId = wo_rpId opts, ao_timeout = wo_challengeTtlMs opts,
         ao_userVerification = (if wo_requireUserVerification opts then ''required'' else ''preferred''), ao_allowCredentials = eligible\<rparr>, st1)) st))))"

definition limiter_allows :: "jsval res \<Rightarrow> bool" where
  "limiter_allows a \<longleftrightarrow> (case a of Inl _ \<Rightarrow> False | Inr v \<Rightarrow> v = JBool True \<or> jget v ''allowed'' = JBool True)"

datatype assertion_verdict = Denied string | DeniedLogged string string | Granted web_credential "32 word"

text \<open>The inside of the try block: a refusal, with an audit event or without, or the credential and its new counter.\<close>

definition assertion_check :: "web_options \<Rightarrow> web_env \<Rightarrow> web_request \<Rightarrow> string \<Rightarrow> string \<Rightarrow> web_challenge \<Rightarrow> web_state \<Rightarrow> assertion_verdict res" where
  "assertion_check opts env r t u ceremony st =
     bindE (assertCredentialId (wr_credentialId r)) (\<lambda>i.
     if wc_allowCredentials ceremony \<noteq> [] \<and> i \<notin> set (wc_allowCredentials ceremony) then Inr (Denied ''CREDENTIAL_NOT_ALLOWED'')
     else (case map_of (wn_credentials st) i of None \<Rightarrow> Inr (Denied ''CREDENTIAL_NOT_FOUND'')
     | Some c \<Rightarrow> if cd_tenantId c \<noteq> t \<or> cd_userId c \<noteq> u then Inr (Denied ''CREDENTIAL_NOT_FOUND'')
       else if cd_revokedAt c \<noteq> None then Inr (Denied ''CREDENTIAL_REVOKED'')
       else bindE (verifyClientData opts (wr_clientDataJSON r) ''webauthn.get'' (wc_challenge ceremony)) (\<lambda>client.
       bindE (parseAuthenticatorData opts False (wr_authenticatorData r)) (\<lambda>auth.
       bindE (binaryValue 2 16384 (wr_clientDataJSON r)) (\<lambda>json.
       if \<not> limiter_allows (we_rateLimiter env (t @ '':'' @ u @ '':'' @ i)) then Inr (Denied ''RATE_LIMITED'')
       else bindE (binaryValue 1 16384 (wr_signature r)) (\<lambda>sig.
       if \<not> callVerifier env \<lparr>vp_operation = ''assertion'', vp_tenantId = t, vp_userId = u, vp_credentialId = i, vp_clientData = client,
           vp_clientDataJSON = json, vp_authenticatorData = auth, vp_signature = Some sig, vp_attestationObject = None,
           vp_credentialPublicKey = None, vp_credential = Some c, vp_signedData = Some (ad_bytes auth @ wo_sha opts json)\<rparr>
       then Inr (DeniedLogged i ''SIGNATURE_INVALID'')
       else if 0 < cd_signCount c \<and> 0 < ad_signCount auth \<and> ad_signCount auth \<le> cd_signCount c then Inr (DeniedLogged i ''SIGN_COUNT_ROLLBACK'')
       else Inr (Granted c (ad_signCount auth))))))))"

definition completeAssertion :: "web_options \<Rightarrow> web_env \<Rightarrow> web_request \<Rightarrow> web_state \<Rightarrow> ceremony_result res \<times> web_state" where
  "completeAssertion opts env r st =
     liftE (assertIdentityPart webError (wr_tenantId r)) st (\<lambda>t. liftE (assertIdentityPart webError (wr_userId r)) st (\<lambda>u.
     liftE (readTime webError (we_clock env)) st (\<lambda>now.
     (case consumeChallenge (wr_challenge r) ''assertion'' t u now st of
       (None, st1) \<Rightarrow> (Inr (Rejected ''CHALLENGE_INVALID''), st1)
     | (Some ceremony, st1) \<Rightarrow> (case assertion_check opts env r t u ceremony st1 of
           Inl e \<Rightarrow> (if err_code e \<in> set ASSERTION_CODES then Inr (Rejected (err_code e)) else Inl e, st1)
         | Inr (Denied code) \<Rightarrow> (Inr (Rejected code), st1)
         | Inr (DeniedLogged i code) \<Rightarrow> (Inr (Rejected code),
             web_log (web_event ''auth.webauthn.verification_failed'' t u i [(''reason'', JStr code)] now) st1)
         | Inr (Granted c n) \<Rightarrow> let c1 = c\<lparr>cd_signCount := n, cd_lastUsedAt := Some now\<rparr> in
             (Inr (Accepted (cred_metadata c1)), web_log (web_event ''auth.webauthn.verified'' t u (cd_credentialId c) [] now) (put_credential c1 st1)))))))"

subsection \<open>Reading and revoking credentials\<close>

definition getCredential :: "jsval \<Rightarrow> web_state \<Rightarrow> web_credential option res" where
  "getCredential v st = bindE (assertCredentialId v) (\<lambda>i. Inr (map_option cred_metadata (map_of (wn_credentials st) i)))"

definition listCredentialMetadata :: "jsval \<Rightarrow> jsval \<Rightarrow> web_state \<Rightarrow> web_credential list res" where
  "listCredentialMetadata tenant user st =
     bindE (assertIdentityPart webError tenant) (\<lambda>t. bindE (assertIdentityPart webError user) (\<lambda>u.
     Inr (map cred_metadata (filter (\<lambda>c. cd_tenantId c = t \<and> cd_userId c = u) (map snd (wn_credentials st))))))"

definition revocation_allowed :: "web_env \<Rightarrow> string \<Rightarrow> string \<Rightarrow> jsval \<Rightarrow> bool" where
  "revocation_allowed env a u role \<longleftrightarrow> (if a = u then role = JStr ''user'' else we_authorize env a role = Inr (JBool True))"

datatype revocation_result = CredentialRevoked web_credential | CredentialNotRevoked string

definition revokeCredential :: "web_options \<Rightarrow> web_env \<Rightarrow> web_request \<Rightarrow> web_state \<Rightarrow> revocation_result res \<times> web_state" where
  "revokeCredential opts env r st =
     liftE (assertIdentityPart webError (wr_tenantId r)) st (\<lambda>t. liftE (assertIdentityPart webError (wr_userId r)) st (\<lambda>u.
     liftE (assertIdentityPart webError (js_default (wr_actorId r) (wr_userId r))) st (\<lambda>a.
     liftE (assertCredentialId (wr_credentialId r)) st (\<lambda>i.
     let role = js_default (wr_role r) (JStr ''user'') in
     liftE (needE (revocation_allowed env a u role) (webError ''FACTOR_SCOPE_VIOLATION'')) st (\<lambda>_.
     (case map_of (wn_credentials st) i of None \<Rightarrow> (Inr (CredentialNotRevoked ''CREDENTIAL_NOT_FOUND''), st)
     | Some c \<Rightarrow> if cd_tenantId c \<noteq> t \<or> cd_userId c \<noteq> u then (Inr (CredentialNotRevoked ''CREDENTIAL_NOT_FOUND''), st)
         else liftE (need_str auth_reason_ok (webError ''INVALID_REASON'') (js_default (wr_reason r) (JStr ''user_request''))) st (\<lambda>why.
           liftE (readTime webError (we_clock env)) st (\<lambda>now.
             let c1 = c\<lparr>cd_revokedAt := Some now\<rparr> in
             (Inr (CredentialRevoked (cred_metadata c1)),
              web_log (web_event ''auth.webauthn.revoked'' t u i [(''actorId'', JStr a), (''actorRole'', role), (''reason'', JStr why)] now)
                (put_credential c1 st))))))))))"

subsection \<open>Authenticator data\<close>

definition write_uint32 :: "32 word \<Rightarrow> bytes" where
  "write_uint32 n = [ucast (drop_bit 24 n), ucast (drop_bit 16 n), ucast (drop_bit 8 n), ucast n]"

text \<open>The digest is 32 bytes long; the flags are an integer that is stored as a byte.\<close>

definition createAuthenticatorData :: "(bytes \<Rightarrow> bytes) \<Rightarrow> jsval \<Rightarrow> int \<Rightarrow> jsval \<Rightarrow> bytes \<Rightarrow> string res" where
  "createAuthenticatorData sha rpId flags signCount tail = bindE (assertRpId rpId) (\<lambda>rp.
     bindE (need_int (\<lambda>n. 0 \<le> n \<and> n \<le> 0xffffffff) (webError ''INVALID_COUNTER'') signCount) (\<lambda>n.
     let attested = ((word_of_int flags :: 32 word) AND 0x40 \<noteq> 0) in
     if attested \<and> length tail < 18 then Inl (webError ''MALFORMED_RESPONSE'')
     else Inr (base64url (sha (ascii_bytes rp) @ [word_of_int flags] @ write_uint32 (word_of_int n) @ (if attested then tail else [])))))"

lemmas webauthn_defs [code_defs] = webError_def FORBIDDEN_ROLES_def web_assertUserActor_def challenge_ok_def credential_id_ok_def
  assertCredentialId_def decodeBase64Url_def parse_origin_def assertOrigin_def rp_label_ok_def assertRpId_def parseClientData_def
  ascii_bytes_def read_uint32_def parseAuthenticatorData_def web_label_def verifierSucceeded_def rp_scope_ok_def one_line_def
  createWebAuthnManager_def issueChallenge_def consumeChallenge_def verifyClientData_def callVerifier_def web_log_def web_event_def
  put_credential_def beginRegistration_def TRANSPORTS_def transports_ok_def registration_check_def REGISTRATION_CODES_def ASSERTION_CODES_def
  cred_metadata_def completeRegistration_def owned_active_def beginAssertion_def limiter_allows_def assertion_check_def completeAssertion_def
  getCredential_def listCredentialMetadata_def revocation_allowed_def revokeCredential_def write_uint32_def createAuthenticatorData_def

subsection \<open>What a ceremony changes\<close>

lemma consumeChallenge_cases:
  assumes "consumeChallenge v ty t u now st = (x, st1)"
  shows "wn_credentials st1 = wn_credentials st"
    and "map_of (wn_challenges st1) tok = Some w \<Longrightarrow> map_of (wn_challenges st) tok = Some w"
    and "x = Some w \<Longrightarrow> \<exists>tok. v = JStr tok \<and> map_of (wn_challenges st) tok = Some w \<and> map_of (wn_challenges st1) tok = None
      \<and> wc_type w = ty \<and> wc_tenantId w = t \<and> wc_userId w = u \<and> now < wc_expiresAt w"
  using assms by (auto simp: consumeChallenge_def delete_conv split: option.splits if_splits)

lemma completeAssertion_cases:
  assumes "completeAssertion opts env r st = (x, st')"
  obtains (refused) "wn_credentials st' = wn_credentials st" "\<forall>m. x \<noteq> Inr (Accepted m)"
      "\<forall>tok w. map_of (wn_challenges st') tok = Some w \<longrightarrow> map_of (wn_challenges st) tok = Some w"
  | (accepted) t u now w st1 c n where "wr_tenantId r = JStr t" "wr_userId r = JStr u"
      "consumeChallenge (wr_challenge r) ''assertion'' t u now st = (Some w, st1)" "we_clock env = Some now"
      "assertion_check opts env r t u w st1 = Inr (Granted c n)"
      "x = Inr (Accepted (cred_metadata (c\<lparr>cd_signCount := n, cd_lastUsedAt := Some now\<rparr>)))"
      "wn_credentials st' = AList.update (cd_credentialId c) (c\<lparr>cd_signCount := n, cd_lastUsedAt := Some now\<rparr>) (wn_credentials st)"
      "wn_challenges st' = wn_challenges st1"
proof -
  consider (err) e where "x = Inl e" "st' = st"
    | (go) t u now where "wr_tenantId r = JStr t" "wr_userId r = JStr u" "we_clock env = Some now"
      "(case consumeChallenge (wr_challenge r) ''assertion'' t u now st of
       (None, st1) \<Rightarrow> (Inr (Rejected ''CHALLENGE_INVALID''), st1)
     | (Some ceremony, st1) \<Rightarrow> (case assertion_check opts env r t u ceremony st1 of
           Inl e \<Rightarrow> (if err_code e \<in> set ASSERTION_CODES then Inr (Rejected (err_code e)) else Inl e, st1)
         | Inr (Denied code) \<Rightarrow> (Inr (Rejected code), st1)
         | Inr (DeniedLogged i code) \<Rightarrow> (Inr (Rejected code),
             web_log (web_event ''auth.webauthn.verification_failed'' t u i [(''reason'', JStr code)] now) st1)
         | Inr (Granted c n) \<Rightarrow> let c1 = c\<lparr>cd_signCount := n, cd_lastUsedAt := Some now\<rparr> in
             (Inr (Accepted (cred_metadata c1)), web_log (web_event ''auth.webauthn.verified'' t u (cd_credentialId c) [] now) (put_credential c1 st1)))) = (x, st')"
    using assms unfolding completeAssertion_def
    by (cases "assertIdentityPart webError (wr_tenantId r)"; cases "assertIdentityPart webError (wr_userId r)"; cases "readTime webError (we_clock env)")
      auto
  then show thesis
  proof cases
    case err
    with refused show ?thesis by simp
  next
    case go
    obtain z st1 where con: "consumeChallenge (wr_challenge r) ''assertion'' t u now st = (z, st1)" by fastforce
    have same: "wn_credentials st1 = wn_credentials st" and less: "\<forall>tok w. map_of (wn_challenges st1) tok = Some w \<longrightarrow> map_of (wn_challenges st) tok = Some w"
      using consumeChallenge_cases(1,2) [OF con] by blast+
    show ?thesis
    proof (cases z)
      case None
      with go(4) con same less refused show ?thesis by auto
    next
      case (Some w)
      show ?thesis
      proof (cases "assertion_check opts env r t u w st1")
        case (Inl e)
        with go(4) con Some same less refused show ?thesis by (auto split: if_splits)
      next
        case (Inr v)
        show ?thesis
        proof (cases v)
          case (Granted c n)
          with go(4) con Some Inr same have "x = Inr (Accepted (cred_metadata (c\<lparr>cd_signCount := n, cd_lastUsedAt := Some now\<rparr>)))"
            "wn_credentials st' = AList.update (cd_credentialId c) (c\<lparr>cd_signCount := n, cd_lastUsedAt := Some now\<rparr>) (wn_credentials st)"
            "wn_challenges st' = wn_challenges st1"
            by (auto simp: Let_def web_log_def put_credential_def)
          with go(1-3) con Some Inr Granted accepted show ?thesis by blast
        qed (use go(4) con Some Inr same less refused in \<open>auto simp: web_log_def\<close>)
      qed
    qed
  qed
qed

lemma completeRegistration_cases:
  assumes "completeRegistration opts env r st = (x, st')"
  obtains (refused) "wn_credentials st' = wn_credentials st" "\<forall>m. x \<noteq> Inr (Accepted m)"
      "\<forall>tok w. map_of (wn_challenges st') tok = Some w \<longrightarrow> map_of (wn_challenges st) tok = Some w"
  | (accepted) t u now w st1 c where "wr_tenantId r = JStr t" "wr_userId r = JStr u"
      "consumeChallenge (wr_challenge r) ''registration'' t u now st = (Some w, st1)" "we_clock env = Some now"
      "registration_check opts env r t u now w st1 = Inr (Inr c)" "x = Inr (Accepted (cred_metadata c))"
      "wn_credentials st' = AList.update (cd_credentialId c) c (wn_credentials st)" "wn_challenges st' = wn_challenges st1"
proof -
  consider (err) e where "x = Inl e" "st' = st"
    | (go) t u now where "wr_tenantId r = JStr t" "wr_userId r = JStr u" "we_clock env = Some now"
      "(case consumeChallenge (wr_challenge r) ''registration'' t u now st of
       (None, st1) \<Rightarrow> (Inr (Rejected ''CHALLENGE_INVALID''), st1)
     | (Some ceremony, st1) \<Rightarrow> (case registration_check opts env r t u now ceremony st1 of
           Inl e \<Rightarrow> (if err_code e \<in> set REGISTRATION_CODES then Inr (Rejected (err_code e)) else Inl e, st1)
         | Inr (Inl code) \<Rightarrow> (Inr (Rejected code), st1)
         | Inr (Inr c) \<Rightarrow> (Inr (Accepted (cred_metadata c)),
             web_log (web_event ''auth.webauthn.enrolled'' t u (cd_credentialId c) [] now) (put_credential c st1)))) = (x, st')"
    using assms unfolding completeRegistration_def
    by (cases "assertIdentityPart webError (wr_tenantId r)"; cases "assertIdentityPart webError (wr_userId r)"; cases "readTime webError (we_clock env)")
      auto
  then show thesis
  proof cases
    case err
    with refused show ?thesis by simp
  next
    case go
    obtain z st1 where con: "consumeChallenge (wr_challenge r) ''registration'' t u now st = (z, st1)" by fastforce
    have same: "wn_credentials st1 = wn_credentials st" and less: "\<forall>tok w. map_of (wn_challenges st1) tok = Some w \<longrightarrow> map_of (wn_challenges st) tok = Some w"
      using consumeChallenge_cases(1,2) [OF con] by blast+
    show ?thesis
    proof (cases z)
      case None
      with go(4) con same less refused show ?thesis by auto
    next
      case (Some w)
      consider (e) e where "registration_check opts env r t u now w st1 = Inl e" | (no) code where "registration_check opts env r t u now w st1 = Inr (Inl code)"
        | (yes) c where "registration_check opts env r t u now w st1 = Inr (Inr c)" by (metis sum.exhaust)
      then show ?thesis
      proof cases
        case yes
        with go(4) con Some same have "x = Inr (Accepted (cred_metadata c))"
          "wn_credentials st' = AList.update (cd_credentialId c) c (wn_credentials st)" "wn_challenges st' = wn_challenges st1"
          by (auto simp: web_log_def put_credential_def)
        with go(1-3) con Some yes accepted show ?thesis by blast
      qed (use go(4) con Some same less refused in \<open>auto split: if_splits\<close>)
    qed
  qed
qed

subsection \<open>What a check has seen\<close>

text \<open>The proof of an assertion: client data for this challenge and an allowed origin, authenticator data for this relying
  party, the approval of the verifier for the stored credential, and no rollback of its counter.\<close>

definition assertion_payload :: "web_options \<Rightarrow> string \<Rightarrow> string \<Rightarrow> web_credential \<Rightarrow> client_data \<Rightarrow> auth_data \<Rightarrow> bytes \<Rightarrow> bytes \<Rightarrow> verifier_payload" where
  "assertion_payload opts t u c client auth json sig = \<lparr>vp_operation = ''assertion'', vp_tenantId = t, vp_userId = u, vp_credentialId = cd_credentialId c,
     vp_clientData = client, vp_clientDataJSON = json, vp_authenticatorData = auth, vp_signature = Some sig, vp_attestationObject = None,
     vp_credentialPublicKey = None, vp_credential = Some c, vp_signedData = Some (ad_bytes auth @ wo_sha opts json)\<rparr>"

definition assertion_proved :: "web_options \<Rightarrow> web_env \<Rightarrow> string \<Rightarrow> string \<Rightarrow> string \<Rightarrow> web_credential \<Rightarrow> 32 word \<Rightarrow> bool" where
  "assertion_proved opts env tok t u c n \<longleftrightarrow> (\<exists>client auth json sig origin.
     ck_type client = ''webauthn.get'' \<and> ck_challenge client = tok
     \<and> assertOrigin (wo_url opts) (JStr (ck_origin client)) = Inr origin \<and> origin \<in> set (wo_origins opts)
     \<and> ad_rpIdHash auth = wo_sha opts (ascii_bytes (wo_rpId opts)) \<and> ad_flags auth AND 0x01 \<noteq> 0
     \<and> (wo_requireUserVerification opts \<longrightarrow> ad_userVerified auth) \<and> ad_signCount auth = n
     \<and> callVerifier env (assertion_payload opts t u c client auth json sig))"

lemma verifyClientData_facts: "verifyClientData opts v ty tok = Inr c \<Longrightarrow> ck_type c = ty \<and> ck_challenge c = tok
    \<and> (\<exists>origin. assertOrigin (wo_url opts) (JStr (ck_origin c)) = Inr origin \<and> origin \<in> set (wo_origins opts))"
  by (auto simp: verifyClientData_def split: if_splits)

lemma parseAuthenticatorData_facts: "parseAuthenticatorData opts reg v = Inr a \<Longrightarrow> ad_rpIdHash a = wo_sha opts (ascii_bytes (wo_rpId opts))
    \<and> ad_flags a AND 0x01 \<noteq> 0 \<and> (wo_requireUserVerification opts \<longrightarrow> ad_userVerified a)"
  by (auto simp: parseAuthenticatorData_def Let_def split: if_splits)

lemma assertion_check_facts:
  assumes "assertion_check opts env r t u w st = Inr (Granted c n)"
  shows "wr_credentialId r = JStr i \<Longrightarrow> map_of (wn_credentials st) i = Some c"
    and "\<exists>i. wr_credentialId r = JStr i \<and> (wc_allowCredentials w = [] \<or> i \<in> set (wc_allowCredentials w))"
    and "owned_active t u c"
    and "wr_credentialId r = JStr (cd_credentialId c) \<Longrightarrow> assertion_proved opts env (wc_challenge w) t u c n"
    and "\<not> (0 < cd_signCount c \<and> 0 < n \<and> n \<le> cd_signCount c)"
proof -
  from assms obtain i client auth json sig where i: "wr_credentialId r = JStr i" "map_of (wn_credentials st) i = Some c"
    "wc_allowCredentials w = [] \<or> i \<in> set (wc_allowCredentials w)"
    and own: "owned_active t u c" and client: "verifyClientData opts (wr_clientDataJSON r) ''webauthn.get'' (wc_challenge w) = Inr client"
    and auth: "parseAuthenticatorData opts False (wr_authenticatorData r) = Inr auth" and n: "n = ad_signCount auth"
    and ok: "callVerifier env \<lparr>vp_operation = ''assertion'', vp_tenantId = t, vp_userId = u, vp_credentialId = i, vp_clientData = client,
           vp_clientDataJSON = json, vp_authenticatorData = auth, vp_signature = Some sig, vp_attestationObject = None,
           vp_credentialPublicKey = None, vp_credential = Some c, vp_signedData = Some (ad_bytes auth @ wo_sha opts json)\<rparr>"
    and roll: "\<not> (0 < cd_signCount c \<and> 0 < ad_signCount auth \<and> ad_signCount auth \<le> cd_signCount c)"
    by (auto simp: assertion_check_def assertCredentialId_def owned_active_def split: if_split_asm option.split_asm)
  show "wr_credentialId r = JStr j \<Longrightarrow> map_of (wn_credentials st) j = Some c" for j using i by simp
  show "\<exists>i. wr_credentialId r = JStr i \<and> (wc_allowCredentials w = [] \<or> i \<in> set (wc_allowCredentials w))" using i by blast
  show "owned_active t u c" by (rule own)
  show "\<not> (0 < cd_signCount c \<and> 0 < n \<and> n \<le> cd_signCount c)" using roll n by simp
  assume "wr_credentialId r = JStr (cd_credentialId c)"
  then have "callVerifier env (assertion_payload opts t u c client auth json sig)" using ok i(1) by (simp add: assertion_payload_def)
  moreover obtain origin where "assertOrigin (wo_url opts) (JStr (ck_origin client)) = Inr origin" "origin \<in> set (wo_origins opts)"
    "ck_type client = ''webauthn.get''" "ck_challenge client = wc_challenge w"
    using verifyClientData_facts [OF client] by blast
  ultimately show "assertion_proved opts env (wc_challenge w) t u c n"
    unfolding assertion_proved_def
    using parseAuthenticatorData_facts [OF auth] n by (intro exI [of _ client] exI [of _ auth] exI [of _ json] exI [of _ sig] exI [of _ origin]) simp
qed

lemma registration_check_facts:
  assumes "registration_check opts env r t u now w st = Inr (Inr c)"
  shows "wr_credentialId r = JStr (cd_credentialId c) \<and> cd_tenantId c = t \<and> cd_userId c = u \<and> cd_revokedAt c = None
    \<and> cd_publicKey c = wr_credentialPublicKey r \<and> map_of (wn_credentials st) (cd_credentialId c) = None"
  using assms by (auto simp: registration_check_def assertCredentialId_def split: if_split_asm option.split_asm)

subsection \<open>Runs\<close>

datatype web_op = BeginRegistration web_env web_request | CompleteRegistration web_env web_request
  | BeginAssertion web_env web_request | CompleteAssertion web_env web_request | RevokeCredential web_env web_request

fun web_run :: "web_options \<Rightarrow> web_op \<Rightarrow> web_state \<Rightarrow> web_state" where
  "web_run opts (BeginRegistration env r) st = snd (beginRegistration opts env r st)"
| "web_run opts (CompleteRegistration env r) st = snd (completeRegistration opts env r st)"
| "web_run opts (BeginAssertion env r) st = snd (beginAssertion opts env r st)"
| "web_run opts (CompleteAssertion env r) st = snd (completeAssertion opts env r st)"
| "web_run opts (RevokeCredential env r) st = snd (revokeCredential opts env r st)"

definition web_runs :: "web_options \<Rightarrow> web_op list \<Rightarrow> web_state \<Rightarrow> web_state" where
  "web_runs opts cs st = fold (web_run opts) cs st"

lemma web_runs_simps [simp]: "web_runs opts [] st = st" "web_runs opts (c # cs) st = web_runs opts cs (web_run opts c st)"
  "web_runs opts (xs @ ys) st = web_runs opts ys (web_runs opts xs st)"
  by (simp_all add: web_runs_def)

text \<open>The completion of a ceremony that was accepted: its challenge and the metadata of the credential.\<close>

fun web_accepted :: "web_options \<Rightarrow> web_op \<Rightarrow> web_state \<Rightarrow> (string \<times> web_credential) option" where
  "web_accepted opts (CompleteRegistration env r) st = (case (wr_challenge r, fst (completeRegistration opts env r st)) of
     (JStr tok, Inr (Accepted m)) \<Rightarrow> Some (tok, m) | _ \<Rightarrow> None)"
| "web_accepted opts (CompleteAssertion env r) st = (case (wr_challenge r, fst (completeAssertion opts env r st)) of
     (JStr tok, Inr (Accepted m)) \<Rightarrow> Some (tok, m) | _ \<Rightarrow> None)"
| "web_accepted opts _ st = None"

text \<open>The revocation of a credential that was carried out.\<close>

fun web_revoked :: "web_options \<Rightarrow> web_op \<Rightarrow> web_state \<Rightarrow> string option" where
  "web_revoked opts (RevokeCredential env r) st = (case fst (revokeCredential opts env r st) of
     Inr (CredentialRevoked m) \<Rightarrow> Some (cd_credentialId m) | _ \<Rightarrow> None)"
| "web_revoked opts _ st = None"

definition web_ok :: "web_state \<Rightarrow> bool" where
  "web_ok st \<longleftrightarrow> (\<forall>i c. map_of (wn_credentials st) i = Some c \<longrightarrow> cd_credentialId c = i)
     \<and> (\<forall>tok w. map_of (wn_challenges st) tok = Some w \<longrightarrow> wc_challenge w = tok)"

subsection \<open>Credentials\<close>

definition same_credential :: "web_credential \<Rightarrow> web_credential \<Rightarrow> bool" where
  "same_credential c d \<longleftrightarrow> cd_credentialId d = cd_credentialId c \<and> cd_tenantId d = cd_tenantId c \<and> cd_userId d = cd_userId c
     \<and> cd_publicKey d = cd_publicKey c \<and> (cd_revokedAt c \<noteq> None \<longrightarrow> cd_revokedAt d \<noteq> None)"

text \<open>Beginning a ceremony stores a challenge under a random token for the user of the request, or changes nothing.\<close>

definition began :: "web_options \<Rightarrow> web_env \<Rightarrow> web_request \<Rightarrow> string \<Rightarrow> web_state \<Rightarrow> web_state \<Rightarrow> bool" where
  "began opts env r ty st st' \<longleftrightarrow> st' = st \<or> (\<exists>bs t u allow now. we_random env = Some bs \<and> we_clock env = Some now
     \<and> wr_tenantId r = JStr t \<and> wr_userId r = JStr u
     \<and> st' = st\<lparr>wn_challenges := AList.update (base64url bs) \<lparr>wc_challenge = base64url bs, wc_type = ty, wc_tenantId = t, wc_userId = u,
         wc_allowCredentials = allow, wc_createdAt = now, wc_expiresAt = now + wo_challengeTtlMs opts\<rparr> (wn_challenges st)\<rparr>)"

lemma began_refl: "began opts env r ty st st"
  by (simp add: began_def)

lemma began_issue:
  assumes "web_assertUserActor r = Inr (t, u)"
  shows "began opts env r ty st (snd (bindS (issueChallenge opts env ty t u allow) (\<lambda>c st1. (Inr (f c), st1)) st))"
proof -
  have "snd (bindS (issueChallenge opts env ty t u allow) (\<lambda>c st1. (Inr (f c), st1)) st) = snd (issueChallenge opts env ty t u allow st)"
    by (cases "issueChallenge opts env ty t u allow st") (simp add: bindS_def split: sum.split)
  moreover have "wr_tenantId r = JStr t" "wr_userId r = JStr u" using assms by (auto simp: web_assertUserActor_def)
  ultimately show ?thesis by (auto simp: began_def issueChallenge_def liftE_def Let_def split: sum.split)
qed

lemma beginRegistration_began: "began opts env r ''registration'' st (snd (beginRegistration opts env r st))"
  unfolding beginRegistration_def Let_def
  by (intro snd_liftE2 [where P = "began opts env r ''registration'' st"] snd_liftE [where P = "began opts env r ''registration'' st"])
    (rule began_refl began_issue, assumption?)+

lemma beginAssertion_began: "began opts env r ''assertion'' st (snd (beginAssertion opts env r st))"
  unfolding beginAssertion_def Let_def
  by (intro snd_liftE2 [where P = "began opts env r ''assertion'' st"] snd_liftE [where P = "began opts env r ''assertion'' st"])
    (rule began_refl began_issue, assumption?)+

lemma began_credentials: "began opts env r ty st st' \<Longrightarrow> wn_credentials st' = wn_credentials st"
  by (auto simp: began_def)

lemma revoke_cases:
  assumes "revokeCredential opts env r st = (x, st')"
  obtains (refused) "st' = st" "\<forall>m. x \<noteq> Inr (CredentialRevoked m)"
  | (revoked) i c now a where "wr_credentialId r = JStr i" "map_of (wn_credentials st) i = Some c"
      "js_default (wr_actorId r) (wr_userId r) = JStr a" "wr_tenantId r = JStr (cd_tenantId c)" "wr_userId r = JStr (cd_userId c)"
      "revocation_allowed env a (cd_userId c) (js_default (wr_role r) (JStr ''user''))"
      "x = Inr (CredentialRevoked (cred_metadata (c\<lparr>cd_revokedAt := Some now\<rparr>)))"
      "wn_credentials st' = AList.update (cd_credentialId c) (c\<lparr>cd_revokedAt := Some now\<rparr>) (wn_credentials st)" "wn_challenges st' = wn_challenges st"
proof -
  consider (err) e where "x = Inl e" "st' = st" | (none) "x = Inr (CredentialNotRevoked ''CREDENTIAL_NOT_FOUND'')" "st' = st"
    | (go) a i c where "js_default (wr_actorId r) (wr_userId r) = JStr a" "wr_credentialId r = JStr i" "map_of (wn_credentials st) i = Some c"
      "wr_tenantId r = JStr (cd_tenantId c)" "wr_userId r = JStr (cd_userId c)"
      "revocation_allowed env a (cd_userId c) (js_default (wr_role r) (JStr ''user''))"
      "liftE (need_str auth_reason_ok (webError ''INVALID_REASON'') (js_default (wr_reason r) (JStr ''user_request''))) st (\<lambda>why.
           liftE (readTime webError (we_clock env)) st (\<lambda>now. let c1 = c\<lparr>cd_revokedAt := Some now\<rparr> in
             (Inr (CredentialRevoked (cred_metadata c1)), web_log (web_event ''auth.webauthn.revoked'' (cd_tenantId c) (cd_userId c) i
                [(''actorId'', JStr a), (''actorRole'', js_default (wr_role r) (JStr ''user'')), (''reason'', JStr why)] now) (put_credential c1 st)))) = (x, st')"
    using assms unfolding revokeCredential_def Let_def
    by (elim liftE_cases; force simp: assertCredentialId_def split: option.split_asm if_split_asm)
  then show thesis
  proof cases
    case go
    from go(7) show ?thesis
      by (elim liftE_cases) (use go(1-6) refused revoked in \<open>auto simp: Let_def web_log_def put_credential_def\<close>)
  qed (use refused in auto)
qed

subsection \<open>One step\<close>

lemma cred_metadata_id [simp]: "cd_credentialId (cred_metadata c) = cd_credentialId c"
  by (simp add: cred_metadata_def)

definition registers :: "web_options \<Rightarrow> web_op \<Rightarrow> web_state \<Rightarrow> web_credential \<Rightarrow> bool" where
  "registers opts x st c \<longleftrightarrow> (\<exists>env r. x = CompleteRegistration env r \<and> wr_tenantId r = JStr (cd_tenantId c) \<and> wr_userId r = JStr (cd_userId c)
     \<and> wr_credentialId r = JStr (cd_credentialId c) \<and> wr_credentialPublicKey r = cd_publicKey c
     \<and> fst (completeRegistration opts env r st) = Inr (Accepted (cred_metadata c)))"

definition begins :: "web_options \<Rightarrow> web_op \<Rightarrow> string \<Rightarrow> web_challenge \<Rightarrow> bool" where
  "begins opts x tok w \<longleftrightarrow> (\<exists>env r bs now. x = (if wc_type w = ''assertion'' then BeginAssertion env r else BeginRegistration env r)
     \<and> we_random env = Some bs \<and> tok = base64url bs \<and> we_clock env = Some now \<and> wc_expiresAt w = now + wo_challengeTtlMs opts
     \<and> wr_tenantId r = JStr (wc_tenantId w) \<and> wr_userId r = JStr (wc_userId w))"

lemma run_credential_begin:
  assumes "wn_credentials st' = wn_credentials st" "map_of (wn_credentials st') i = Some d" "P"
  shows "(\<exists>e. map_of (wn_credentials st) i = Some e \<and> same_credential e d \<and> P) \<or> Q"
  using assms by (simp add: same_credential_def)

lemma run_credential:
  assumes ok: "web_ok st" and d: "map_of (wn_credentials (web_run opts x st)) i = Some d"
  shows "(\<exists>e. map_of (wn_credentials st) i = Some e \<and> same_credential e d \<and> (web_revoked opts x st = Some i \<longrightarrow> cd_revokedAt d \<noteq> None))
    \<or> (map_of (wn_credentials st) i = None \<and> registers opts x st d)"
proof (cases x)
  case (BeginRegistration env r)
  with d show ?thesis using began_credentials [OF beginRegistration_began] by (simp add: same_credential_def)
next
  case (BeginAssertion env r)
  with d show ?thesis using began_credentials [OF beginAssertion_began] by (simp add: same_credential_def)
next
  case (CompleteRegistration env r)
  obtain y st' where run: "completeRegistration opts env r st = (y, st')" by fastforce
  from run show ?thesis
  proof (cases rule: completeRegistration_cases)
    case refused
    with d run CompleteRegistration show ?thesis by (simp add: same_credential_def)
  next
    case (accepted t u now w st1 c)
    note facts = registration_check_facts [OF accepted(5)] and old = consumeChallenge_cases(1) [OF accepted(3)]
    show ?thesis
    proof (cases "i = cd_credentialId c")
      case True
      with d run CompleteRegistration accepted(7) have "d = c" by (simp add: update_conv')
      moreover have "registers opts x st c"
        unfolding registers_def using run accepted(1,2,6) facts CompleteRegistration by auto
      ultimately show ?thesis using True facts old by simp
    next
      case False
      with d run CompleteRegistration accepted(7) show ?thesis by (simp add: update_conv' same_credential_def)
    qed
  qed
next
  case (CompleteAssertion env r)
  obtain y st' where run: "completeAssertion opts env r st = (y, st')" by fastforce
  from run show ?thesis
  proof (cases rule: completeAssertion_cases)
    case refused
    with d run CompleteAssertion show ?thesis by (simp add: same_credential_def)
  next
    case (accepted t u now w st1 c n)
    from assertion_check_facts(1,2) [OF accepted(5)] consumeChallenge_cases(1) [OF accepted(3)]
    obtain j where j: "map_of (wn_credentials st) j = Some c" by auto
    with ok have "cd_credentialId c = j" by (auto simp: web_ok_def)
    with d run CompleteAssertion accepted(7) j show ?thesis by (cases "i = j") (auto simp: update_conv' same_credential_def)
  qed
next
  case (RevokeCredential env r)
  obtain y st' where run: "revokeCredential opts env r st = (y, st')" by fastforce
  from run show ?thesis
  proof (cases rule: revoke_cases)
    case refused
    with d run RevokeCredential show ?thesis by (auto simp: same_credential_def split: sum.split_asm revocation_result.split_asm)
  next
    case (revoked j c now a)
    with ok have "cd_credentialId c = j" by (auto simp: web_ok_def)
    with d run RevokeCredential revoked(2,7,8) show ?thesis by (cases "i = j") (auto simp: update_conv' same_credential_def)
  qed
qed

lemma began_challenge:
  assumes "began opts env r ty st st'" "map_of (wn_challenges st') tok = Some w" "x = (if ty = ''assertion'' then BeginAssertion env r else BeginRegistration env r)"
  shows "map_of (wn_challenges st) tok = Some w \<or> (begins opts x tok w \<and> wc_challenge w = tok)"
proof (cases "map_of (wn_challenges st) tok = Some w")
  case False
  with assms(1,2) obtain bs t u allow now where w: "we_random env = Some bs" "we_clock env = Some now" "wr_tenantId r = JStr t" "wr_userId r = JStr u" "tok = base64url bs"
    "w = \<lparr>wc_challenge = base64url bs, wc_type = ty, wc_tenantId = t, wc_userId = u, wc_allowCredentials = allow, wc_createdAt = now,
      wc_expiresAt = now + wo_challengeTtlMs opts\<rparr>"
    by (auto simp: began_def update_conv' split: if_splits)
  then show ?thesis using assms(3) by (auto simp: begins_def)
qed simp

lemma run_challenge:
  assumes "map_of (wn_challenges (web_run opts x st)) tok = Some w"
  shows "(map_of (wn_challenges st) tok = Some w \<and> (\<forall>m. web_accepted opts x st \<noteq> Some (tok, m))) \<or> (begins opts x tok w \<and> wc_challenge w = tok)"
proof (cases x)
  case (BeginRegistration env r)
  with assms began_challenge [OF beginRegistration_began, of opts env r st tok w x] show ?thesis by auto
next
  case (BeginAssertion env r)
  with assms began_challenge [OF beginAssertion_began, of opts env r st tok w x] show ?thesis by auto
next
  case (CompleteRegistration env r)
  obtain y st' where run: "completeRegistration opts env r st = (y, st')" by fastforce
  from run show ?thesis
  proof (cases rule: completeRegistration_cases)
    case refused
    with assms run CompleteRegistration show ?thesis by (auto split: jsval.splits sum.splits ceremony_result.splits)
  next
    case (accepted t u now v st1 c)
    from consumeChallenge_cases(2,3) [OF accepted(3)] accepted(6,8) assms run CompleteRegistration show ?thesis by auto
  qed
next
  case (CompleteAssertion env r)
  obtain y st' where run: "completeAssertion opts env r st = (y, st')" by fastforce
  from run show ?thesis
  proof (cases rule: completeAssertion_cases)
    case refused
    with assms run CompleteAssertion show ?thesis by (auto split: jsval.splits sum.splits ceremony_result.splits)
  next
    case (accepted t u now v st1 c n)
    from consumeChallenge_cases(2,3) [OF accepted(3)] accepted(6,8) assms run CompleteAssertion show ?thesis by auto
  qed
next
  case (RevokeCredential env r)
  obtain y st' where run: "revokeCredential opts env r st = (y, st')" by fastforce
  from run show ?thesis
    by (cases rule: revoke_cases) (use assms run RevokeCredential in auto)
qed

lemma registers_id: "registers opts x st d \<Longrightarrow> map_of (wn_credentials (web_run opts x st)) i = Some d \<Longrightarrow> map_of (wn_credentials st) i = None \<Longrightarrow> cd_credentialId d = i"
proof -
  assume reg: "registers opts x st d" and d: "map_of (wn_credentials (web_run opts x st)) i = Some d" and new: "map_of (wn_credentials st) i = None"
  from reg obtain env r where x: "x = CompleteRegistration env r" by (auto simp: registers_def)
  obtain y st' where run: "completeRegistration opts env r st = (y, st')" by fastforce
  from run show ?thesis
    by (cases rule: completeRegistration_cases) (use x d new run in \<open>auto simp: update_conv' split: if_splits\<close>)
qed

lemma web_run_ok: "web_ok st \<Longrightarrow> web_ok (web_run opts x st)"
proof -
  assume ok: "web_ok st"
  have "cd_credentialId d = i" if d: "map_of (wn_credentials (web_run opts x st)) i = Some d" for i d
    using run_credential [OF ok d] registers_id [OF _ d] ok by (auto simp: same_credential_def web_ok_def)
  moreover have "wc_challenge w = tok" if "map_of (wn_challenges (web_run opts x st)) tok = Some w" for tok w
    using run_challenge [OF that] ok by (auto simp: web_ok_def)
  ultimately show ?thesis by (simp add: web_ok_def)
qed

lemma web_runs_ok: "web_ok st \<Longrightarrow> web_ok (web_runs opts cs st)"
  by (induction cs arbitrary: st) (simp_all add: web_run_ok)

subsection \<open>Histories\<close>

text \<open>A credential comes from an accepted registration and has not been revoked since, if it is not; a challenge was
  given out, and no completion under it has been accepted since.\<close>

definition credential_registered :: "web_options \<Rightarrow> web_op list \<Rightarrow> web_state \<Rightarrow> web_credential \<Rightarrow> bool" where
  "credential_registered opts cs st c \<longleftrightarrow> (\<exists>pre x post c0. cs = pre @ x # post \<and> registers opts x (web_runs opts pre st) c0 \<and> same_credential c0 c
     \<and> (cd_revokedAt c = None \<longrightarrow> (\<forall>mid y rest. post = mid @ y # rest \<longrightarrow>
          web_revoked opts y (web_runs opts (pre @ x # mid) st) \<noteq> Some (cd_credentialId c))))"

definition challenge_given :: "web_options \<Rightarrow> web_op list \<Rightarrow> web_state \<Rightarrow> string \<Rightarrow> web_challenge \<Rightarrow> bool" where
  "challenge_given opts cs st tok w \<longleftrightarrow> (\<exists>pre x post. cs = pre @ x # post \<and> begins opts x tok w
     \<and> (\<forall>mid y rest m. post = mid @ y # rest \<longrightarrow> web_accepted opts y (web_runs opts (pre @ x # mid) st) \<noteq> Some (tok, m)))"

lemma snoc_split: "post @ [c] = mid @ y # rest \<Longrightarrow> (rest = [] \<and> y = c \<and> mid = post) \<or> (\<exists>rest'. post = mid @ y # rest')"
  by (cases rest rule: rev_cases) auto

lemma credential_history:
  assumes "web_ok st" "wn_credentials st = []" "map_of (wn_credentials (web_runs opts cs st)) i = Some c"
  shows "credential_registered opts cs st c"
  using assms(3)
proof (induction cs arbitrary: c rule: rev_induct)
  case Nil
  with assms(2) show ?case by simp
next
  case (snoc x cs)
  let ?st = "web_runs opts cs st"
  have ok: "web_ok ?st" by (rule web_runs_ok [OF assms(1)])
  have c: "map_of (wn_credentials (web_run opts x ?st)) i = Some c" using snoc.prems by simp
  from run_credential [OF ok c] show ?case
  proof
    assume "\<exists>e. map_of (wn_credentials ?st) i = Some e \<and> same_credential e c \<and> (web_revoked opts x ?st = Some i \<longrightarrow> cd_revokedAt c \<noteq> None)"
    then obtain e where e: "map_of (wn_credentials ?st) i = Some e" "same_credential e c" "web_revoked opts x ?st = Some i \<longrightarrow> cd_revokedAt c \<noteq> None" by blast
    have id: "cd_credentialId c = i" "cd_credentialId e = i" using ok e by (auto simp: web_ok_def same_credential_def)
    from snoc.IH [OF e(1), unfolded credential_registered_def id(2)] obtain pre y post c0 where h: "cs = pre @ y # post" "registers opts y (web_runs opts pre st) c0" "same_credential c0 e"
      and r: "cd_revokedAt e = None \<longrightarrow> (\<forall>mid z rest. post = mid @ z # rest \<longrightarrow> web_revoked opts z (web_runs opts (pre @ y # mid) st) \<noteq> Some i)"
      by (elim exE conjE) (rule that)
    have same: "same_credential c0 c" using h(3) e(2) by (auto simp: same_credential_def)
    have r': "web_revoked opts z (web_runs opts (pre @ y # mid) st) \<noteq> Some i"
      if none: "cd_revokedAt c = None" and split: "post @ [x] = mid @ z # rest" for mid z rest
    proof -
      have "cd_revokedAt e = None" using none e(2) by (auto simp: same_credential_def)
      then show ?thesis using snoc_split [OF split] r e(3) none h(1) by auto
    qed
    have "cs @ [x] = pre @ y # (post @ [x])" by (simp add: h(1))
    with h(2) same r' show ?thesis unfolding credential_registered_def id(1) by blast
  next
    assume "map_of (wn_credentials ?st) i = None \<and> registers opts x ?st c"
    then show ?thesis unfolding credential_registered_def
      by (intro exI [of _ cs] exI [of _ x] exI [of _ "[]"] exI [of _ c]) (simp add: same_credential_def)
  qed
qed

lemma challenge_history:
  assumes "wn_challenges st = []" "map_of (wn_challenges (web_runs opts cs st)) tok = Some w"
  shows "challenge_given opts cs st tok w"
  using assms(2)
proof (induction cs rule: rev_induct)
  case Nil
  with assms(1) show ?case by simp
next
  case (snoc x cs)
  let ?st = "web_runs opts cs st"
  have "map_of (wn_challenges (web_run opts x ?st)) tok = Some w" using snoc.prems by simp
  from run_challenge [OF this] show ?case
  proof
    assume old: "map_of (wn_challenges ?st) tok = Some w \<and> (\<forall>m. web_accepted opts x ?st \<noteq> Some (tok, m))"
    with snoc.IH obtain pre y post where h: "cs = pre @ y # post" "begins opts y tok w"
      "\<forall>mid z rest m. post = mid @ z # rest \<longrightarrow> web_accepted opts z (web_runs opts (pre @ y # mid) st) \<noteq> Some (tok, m)"
      unfolding challenge_given_def by blast
    have "web_accepted opts z (web_runs opts (pre @ y # mid) st) \<noteq> Some (tok, m)" if "post @ [x] = mid @ z # rest" for mid z rest m
      using snoc_split [OF that] h(1,3) old by auto
    with h(1,2) show ?thesis unfolding challenge_given_def by (intro exI [of _ pre] exI [of _ y] exI [of _ "post @ [x]"]) simp
  next
    assume "begins opts x tok w \<and> wc_challenge w = tok"
    then show ?thesis unfolding challenge_given_def by (intro exI [of _ cs] exI [of _ x] exI [of _ "[]"]) simp
  qed
qed

lemma created_empty: "createWebAuthnManager sha json url cfg = Inr (opts, st) \<Longrightarrow> wn_credentials st = [] \<and> wn_challenges st = [] \<and> web_ok st"
  by (auto simp: createWebAuthnManager_def Let_def web_ok_def)

text \<open>C6  Whatever calls came before, an assertion is accepted only under an unexpired challenge that was given out for an assertion of this user and under which nothing has been accepted since, for a credential of this user with the public key of an accepted registration and not revoked since, with client data and authenticator data of this site, and with the approval of the verifier.\<close>

theorem assertion_has_a_history:
  assumes made: "createWebAuthnManager sha json url cfg = Inr (opts, st)"
    and fin: "completeAssertion opts env r (web_runs opts cs st) = (Inr (Accepted m), st')"
  shows "\<exists>tok w c now. wr_challenge r = JStr tok \<and> wr_credentialId r = JStr (cd_credentialId c) \<and> cd_credentialId m = cd_credentialId c
    \<and> wr_tenantId r = JStr (cd_tenantId c) \<and> wr_userId r = JStr (cd_userId c) \<and> we_clock env = Some now
    \<and> challenge_given opts cs st tok w \<and> wc_type w = ''assertion'' \<and> wc_tenantId w = cd_tenantId c \<and> wc_userId w = cd_userId c \<and> now < wc_expiresAt w
    \<and> (wc_allowCredentials w = [] \<or> cd_credentialId c \<in> set (wc_allowCredentials w))
    \<and> credential_registered opts cs st c \<and> cd_revokedAt c = None
    \<and> assertion_proved opts env tok (cd_tenantId c) (cd_userId c) c (cd_signCount m)"
proof -
  let ?st = "web_runs opts cs st"
  from created_empty [OF made] have empty: "wn_credentials st = []" "wn_challenges st = []" and ok: "web_ok st" by blast+
  from fin show ?thesis
  proof (cases rule: completeAssertion_cases)
    case (accepted t u now w st1 c n)
    from consumeChallenge_cases(3) [OF accepted(3) refl] obtain tok where tok: "wr_challenge r = JStr tok" "map_of (wn_challenges ?st) tok = Some w"
      "wc_type w = ''assertion''" "wc_tenantId w = t" "wc_userId w = u" "now < wc_expiresAt w" by blast
    from web_runs_ok [OF ok] tok(2) have name: "wc_challenge w = tok" by (auto simp: web_ok_def)
    from assertion_check_facts(2) [OF accepted(5)] obtain i where i: "wr_credentialId r = JStr i"
      "wc_allowCredentials w = [] \<or> i \<in> set (wc_allowCredentials w)" by blast
    from assertion_check_facts(1) [OF accepted(5) i(1)] consumeChallenge_cases(1) [OF accepted(3)] have c: "map_of (wn_credentials ?st) i = Some c" by simp
    with web_runs_ok [OF ok] have id: "cd_credentialId c = i" by (auto simp: web_ok_def)
    have own: "cd_tenantId c = t" "cd_userId c = u" "cd_revokedAt c = None" using assertion_check_facts(3) [OF accepted(5)] by (auto simp: owned_active_def)
    have "assertion_proved opts env tok t u c n" using assertion_check_facts(4) [OF accepted(5)] i(1) id name by simp
    then show ?thesis
      using tok i id own accepted(1,2,4,6) credential_history [OF ok empty(1) c] challenge_history [OF empty(2) tok(2)]
      by (intro exI [of _ tok] exI [of _ w] exI [of _ c] exI [of _ now]) (auto simp: cred_metadata_def)
  qed simp
qed

subsection \<open>Counters\<close>

text \<open>The counters of the accepted assertions of a credential, in their order.\<close>

fun accepted_count :: "web_options \<Rightarrow> string \<Rightarrow> web_op \<Rightarrow> web_state \<Rightarrow> 32 word list" where
  "accepted_count opts i (CompleteAssertion env r) st = (case fst (completeAssertion opts env r st) of
     Inr (Accepted m) \<Rightarrow> if cd_credentialId m = i then [cd_signCount m] else [] | _ \<Rightarrow> [])"
| "accepted_count opts i _ st = []"

primrec accepted_counts :: "web_options \<Rightarrow> string \<Rightarrow> web_op list \<Rightarrow> web_state \<Rightarrow> 32 word list" where
  "accepted_counts opts i [] st = []"
| "accepted_counts opts i (x # xs) st = accepted_count opts i x st @ accepted_counts opts i xs (web_run opts x st)"

lemma count_step:
  assumes ok: "web_ok st" and c: "map_of (wn_credentials st) i = Some c"
  shows "\<exists>d. map_of (wn_credentials (web_run opts x st)) i = Some d
    \<and> ((cd_signCount d = cd_signCount c \<and> accepted_count opts i x st = [])
       \<or> (accepted_count opts i x st = [cd_signCount d] \<and> \<not> (0 < cd_signCount c \<and> 0 < cd_signCount d \<and> cd_signCount d \<le> cd_signCount c)))"
proof (cases x)
  case (BeginRegistration env r)
  with c show ?thesis using began_credentials [OF beginRegistration_began] by simp
next
  case (BeginAssertion env r)
  with c show ?thesis using began_credentials [OF beginAssertion_began] by simp
next
  case (CompleteRegistration env r)
  obtain y st' where run: "completeRegistration opts env r st = (y, st')" by fastforce
  from run show ?thesis
  proof (cases rule: completeRegistration_cases)
    case (accepted t u now w st1 e)
    from registration_check_facts [OF accepted(5)] consumeChallenge_cases(1) [OF accepted(3)] c have "cd_credentialId e \<noteq> i" by auto
    with run CompleteRegistration accepted(7) c show ?thesis by (simp add: update_conv')
  qed (use run CompleteRegistration c in simp)
next
  case (CompleteAssertion env r)
  obtain y st' where run: "completeAssertion opts env r st = (y, st')" by fastforce
  from run show ?thesis
  proof (cases rule: completeAssertion_cases)
    case refused
    with run CompleteAssertion c show ?thesis by (auto split: sum.split ceremony_result.split)
  next
    case (accepted t u now w st1 e n)
    from assertion_check_facts(1,2) [OF accepted(5)] consumeChallenge_cases(1) [OF accepted(3)]
    obtain j where j: "map_of (wn_credentials st) j = Some e" by auto
    with ok have id: "cd_credentialId e = j" by (auto simp: web_ok_def)
    show ?thesis
    proof (cases "i = j")
      case True
      with c j have "e = c" by simp
      with run CompleteAssertion accepted(6,7) id True assertion_check_facts(5) [OF accepted(5)] show ?thesis
        by (simp add: update_conv' cred_metadata_def)
    next
      case False
      with run CompleteAssertion accepted(6,7) id c show ?thesis by (simp add: update_conv')
    qed
  qed
next
  case (RevokeCredential env r)
  obtain y st' where run: "revokeCredential opts env r st = (y, st')" by fastforce
  from run show ?thesis
  proof (cases rule: revoke_cases)
    case (revoked j e now a)
    with ok have "cd_credentialId e = j" by (auto simp: web_ok_def)
    with run RevokeCredential revoked(2,8) c show ?thesis by (cases "i = j") (auto simp: update_conv')
  qed (use run RevokeCredential c in simp)
qed

text \<open>C7  As long as no counter of zero is accepted, the counters of the accepted assertions of a credential strictly increase, whatever other calls are made in between.\<close>

theorem authenticator_counters_increase:
  assumes "web_ok st" "map_of (wn_credentials st) i = Some c" "0 \<notin> set (accepted_counts opts i cs st)"
  shows "sorted_wrt (<) ((if cd_signCount c = 0 then [] else [cd_signCount c]) @ accepted_counts opts i cs st)"
  using assms
proof (induction cs arbitrary: st c)
  case (Cons x cs)
  let ?st = "web_run opts x st"
  from count_step [OF Cons.prems(1,2), of opts x] obtain d where d: "map_of (wn_credentials ?st) i = Some d"
    and step: "(cd_signCount d = cd_signCount c \<and> accepted_count opts i x st = [])
       \<or> (accepted_count opts i x st = [cd_signCount d] \<and> \<not> (0 < cd_signCount c \<and> 0 < cd_signCount d \<and> cd_signCount d \<le> cd_signCount c))" by blast
  have IH: "sorted_wrt (<) ((if cd_signCount d = 0 then [] else [cd_signCount d]) @ accepted_counts opts i cs ?st)"
    using Cons.IH [OF web_run_ok [OF Cons.prems(1)] d] Cons.prems(3) by simp
  from step show ?case
  proof
    assume "cd_signCount d = cd_signCount c \<and> accepted_count opts i x st = []"
    with IH show ?thesis by (auto split: if_splits)
  next
    assume new: "accepted_count opts i x st = [cd_signCount d] \<and> \<not> (0 < cd_signCount c \<and> 0 < cd_signCount d \<and> cd_signCount d \<le> cd_signCount c)"
    with Cons.prems(3) have pos: "cd_signCount d \<noteq> 0" by auto
    show ?thesis
    proof (cases "cd_signCount c = 0")
      case True
      with IH new pos show ?thesis by simp
    next
      case False
      with new pos have less: "cd_signCount c < cd_signCount d" by (auto simp: word_gt_0 not_le)
      with IH pos have "\<forall>n\<in>set (accepted_counts opts i cs ?st). cd_signCount c < n" by (auto intro: less_trans)
      with IH new pos less False show ?thesis by simp
    qed
  qed
qed simp

subsection \<open>Authenticator data that are written are read back\<close>

lemma read_write_uint32: "length h = 33 \<Longrightarrow> read_uint32 (h @ write_uint32 n @ t) 33 = n"
proof -
  have "push_bit 24 (ucast (ucast (drop_bit 24 n) :: 8 word)) OR push_bit 16 (ucast (ucast (drop_bit 16 n) :: 8 word))
    OR push_bit 8 (ucast (ucast (drop_bit 8 n) :: 8 word)) OR ucast (ucast n :: 8 word) = n" for n :: "32 word"
  proof (rule bit_word_eqI)
    fix k assume "k < LENGTH(32)"
    then consider "k < 8" | "8 \<le> k" "k < 16" | "16 \<le> k" "k < 24" | "24 \<le> k" "k < 32" by force
    then show "bit ((push_bit 24 (ucast (ucast (drop_bit 24 n) :: 8 word)) OR push_bit 16 (ucast (ucast (drop_bit 16 n) :: 8 word))
      OR push_bit 8 (ucast (ucast (drop_bit 8 n) :: 8 word)) OR ucast (ucast n :: 8 word)) :: 32 word) k = bit n k"
      by cases (auto simp: bit_simps less_diff_conv2)
  qed
  then show "length h = 33 \<Longrightarrow> read_uint32 (h @ write_uint32 n @ t) 33 = n"
    by (simp add: read_uint32_def write_uint32_def nth_append)
qed
lemma flag_of_int: "((word_of_int f :: 32 word) AND 0x40 \<noteq> 0) = ((word_of_int f :: 8 word) AND 0x40 \<noteq> 0)"
proof -
  have a: "(w AND 0x40 \<noteq> 0) = bit w 6" for w :: "'a::len word"
    using and_exp_eq_0_iff_not_bit [of w 6] by simp
  show ?thesis by (simp add: a bit_word_of_int_iff)
qed

text \<open>C8  What createAuthenticatorData writes, parseAuthenticatorData answers in exactly one way: data over 16384 bytes are malformed; without the user presence flag (bit 0x01), without the user verification flag (0x04) where it is required, and at a registration without the attested data flag (0x40) they are refused with the code for that; in every other case the relying party hash, the flags (modulo 256), the counter and, at a registration, the attested data come back as written.\<close>

theorem authenticator_data_roundtrip:
  fixes flags :: int
  defines "fl \<equiv> word_of_int flags :: 8 word"
  assumes made: "createAuthenticatorData (wo_sha opts) (JStr (wo_rpId opts)) flags (JInt n) tail = Inr s"
    and sha: "length (wo_sha opts (ascii_bytes (wo_rpId opts))) = 32"
  shows "uint (word_of_int n :: 32 word) = n \<and> parseAuthenticatorData opts registration (WVal (JStr s)) =
     (if fl AND 0x40 \<noteq> 0 \<and> 16384 - 37 < length tail then Inl (webError ''MALFORMED_RESPONSE'')
      else if fl AND 0x01 = 0 then Inl (webError ''USER_PRESENCE_REQUIRED'')
      else if wo_requireUserVerification opts \<and> fl AND 0x04 = 0 then Inl (webError ''USER_VERIFICATION_REQUIRED'')
      else if registration \<and> fl AND 0x40 = 0 then Inl (webError ''ATTESTATION_REQUIRED'')
      else Inr \<lparr>ad_bytes = wo_sha opts (ascii_bytes (wo_rpId opts)) @ [fl] @ write_uint32 (word_of_int n) @ (if fl AND 0x40 \<noteq> 0 then tail else []),
        ad_rpIdHash = wo_sha opts (ascii_bytes (wo_rpId opts)), ad_flags = fl, ad_userVerified = (fl AND 0x04 \<noteq> 0),
        ad_signCount = word_of_int n, ad_attested = (if registration then Some tail else None)\<rparr>)"
proof -
  let ?h = "wo_sha opts (ascii_bytes (wo_rpId opts)) @ [fl]" and ?att = "fl AND 0x40 \<noteq> 0"
  define bs where "bs = ?h @ write_uint32 (word_of_int n) @ (if ?att then tail else [])"
  have s: "s = base64url bs" and n: "0 \<le> n" "n \<le> 0xffffffff"
  proof -
    from made obtain rp where rp: "assertRpId (JStr (wo_rpId opts)) = Inr rp" unfolding createAuthenticatorData_def bindE_Inr_iff by (elim exE conjE)
    then have "rp = wo_rpId opts" by (simp add: assertRpId_def)
    with rp have made': "bindE (need_int (\<lambda>n. 0 \<le> n \<and> n \<le> 0xffffffff) (webError ''INVALID_COUNTER'') (JInt n)) (\<lambda>n.
       if ?att \<and> length tail < 18 then Inl (webError ''MALFORMED_RESPONSE'')
       else Inr (base64url (wo_sha opts (ascii_bytes (wo_rpId opts)) @ [fl] @ write_uint32 (word_of_int n) @ (if ?att then tail else [])))) = Inr s"
      using made unfolding createAuthenticatorData_def flag_of_int Let_def fl_def by (simp only: bindE_simps)
    then obtain k where k: "need_int (\<lambda>n. 0 \<le> n \<and> n \<le> 0xffffffff) (webError ''INVALID_COUNTER'') (JInt n) = Inr k"
      unfolding bindE_Inr_iff by (elim exE conjE)
    then have "k = n" "0 \<le> n" "n \<le> 0xffffffff" by auto
    with made' k show "s = base64url bs" "0 \<le> n" "n \<le> 0xffffffff" unfolding bs_def k bindE_simps by (simp_all split: if_split_asm)
  qed
  have len: "length bs = 37 + (if ?att then length tail else 0)" using sha by (simp add: bs_def write_uint32_def)
  then have "bs \<noteq> []" by (cases bs) simp_all
  then have "s \<noteq> []" "list_all url_char s"
    using base64url_nonempty [of bs] base64url_chars [of bs] by (simp_all add: s list_all_iff)
  then have dec: "binaryValue 37 16384 (WVal (JStr s)) = (if 16384 < length bs then Inl (webError ''MALFORMED_RESPONSE'') else Inr bs)"
    using len by (simp add: decodeBase64Url_def s dec_base64url Let_def need_str_def)
  have big: "16384 < length bs \<longleftrightarrow> ?att \<and> 16384 - 37 < length tail" by (auto simp: len)
  have fl: "bs ! 32 = fl" "take 32 bs = wo_sha opts (ascii_bytes (wo_rpId opts))" "32 < length bs" "\<not> length bs < 37"
    using sha len by (simp_all add: bs_def nth_append)
  have count: "read_uint32 bs 33 = word_of_int n" unfolding bs_def using sha by (intro read_write_uint32) simp
  have u: "uint (word_of_int n :: 32 word) = n" using n by (simp add: uint_word_of_int)
  have tl: "drop 37 bs = (if ?att then tail else [])" using sha by (simp add: bs_def write_uint32_def)
  show ?thesis
  proof (cases "16384 < length bs")
    case True
    with u big show ?thesis unfolding parseAuthenticatorData_def dec by simp
  next
    case False
    then have "parseAuthenticatorData opts registration (WVal (JStr s)) =
     (if fl AND 0x01 = 0 then Inl (webError ''USER_PRESENCE_REQUIRED'')
      else if wo_requireUserVerification opts \<and> fl AND 0x04 = 0 then Inl (webError ''USER_VERIFICATION_REQUIRED'')
      else if registration \<and> fl AND 0x40 = 0 then Inl (webError ''ATTESTATION_REQUIRED'')
      else Inr \<lparr>ad_bytes = bs, ad_rpIdHash = wo_sha opts (ascii_bytes (wo_rpId opts)), ad_flags = fl,
        ad_userVerified = (fl AND 0x04 \<noteq> 0), ad_signCount = word_of_int n, ad_attested = (if registration then Some tail else None)\<rparr>)"
      unfolding parseAuthenticatorData_def dec by (simp add: Let_def fl count sha tl)
    moreover have "\<not> (?att \<and> 16384 - 37 < length tail)" using False big by blast
    ultimately show ?thesis using u bs_def by (simp only: if_False append_assoc)
  qed
qed

subsection \<open>A passkey\<close>

text \<open>A manager for one origin; the client data are told apart by their first byte.\<close>

definition exHash :: "bytes \<Rightarrow> bytes" where
  "exHash _ = replicate 32 7"

definition exToken1 :: string where
  "exToken1 = ''AQEBAQEBAQEBAQEBAQEBAQEBAQEBAQEBAQEBAQEBAQE''"

definition exToken2 :: string where
  "exToken2 = ''AgICAgICAgICAgICAgICAgICAgICAgICAgICAgICAgI''"

definition exJson :: "bytes \<Rightarrow> jsval option" where
  "exJson bs = Some (JObj [(''type'', JStr (if hd bs = 1 then ''webauthn.create'' else ''webauthn.get'')),
     (''challenge'', JStr (if hd bs = 1 then exToken1 else exToken2)), (''origin'', JStr ''https://x.org'')])"

definition exUrl :: "string \<Rightarrow> web_url option" where
  "exUrl s = Some \<lparr>ul_protocol = ''https:'', ul_username = [], ul_password = [], ul_pathname = ''/'', ul_search = [], ul_hash = [],
     ul_origin = s, ul_hostname = ''x.org''\<rparr>"

definition exWebConfig :: web_config where
  "exWebConfig = \<lparr>wg_expectedOrigins = JArr [JStr ''https://x.org''], wg_rpId = JStr ''x.org'', wg_rpName = JUndef, wg_challengeTtlMs = JUndef,
     wg_requireUserVerification = False, wg_credentialVerifier = JFun, wg_authorizeRevocation = JUndef\<rparr>"

definition exWebOptions :: web_options where
  "exWebOptions = \<lparr>wo_origins = [''https://x.org''], wo_rpId = ''x.org'', wo_rpName = ''Gulo Gulo'', wo_challengeTtlMs = 300000,
     wo_requireUserVerification = False, wo_sha = exHash, wo_json = exJson, wo_url = exUrl\<rparr>"

definition exWebStart :: web_state where
  "exWebStart = \<lparr>wn_challenges = [], wn_credentials = [], wn_audit = []\<rparr>"

definition exWebEnv :: "8 word \<Rightarrow> web_env" where
  "exWebEnv b = \<lparr>we_clock = Some 1000, we_random = Some (replicate 32 b), we_verify = (\<lambda>_. Inr (JBool True)),
     we_rateLimiter = (\<lambda>_. Inr (JBool True)), we_authorize = (\<lambda>_ _. Inr (JBool False))\<rparr>"

definition exCredentialId :: string where
  "exCredentialId = ''credential-000001''"

definition exWebRequest :: "8 word \<Rightarrow> string \<Rightarrow> 8 word \<Rightarrow> web_request" where \<comment> \<open>ceremony, challenge, counter\<close>
  "exWebRequest b tok n = \<lparr>wr_tenantId = JStr ''x.org'', wr_userId = JStr ''ada'', wr_actorId = JUndef, wr_role = JUndef, wr_displayName = JUndef,
     wr_allowCredentials = JUndef, wr_challenge = JStr tok, wr_credentialId = JStr exCredentialId, wr_clientDataJSON = WBytes [b, b],
     wr_authenticatorData = WBytes (exHash [] @ [0x41, 0, 0, 0, n]), wr_credentialPublicKey = WBytes [1], wr_signature = WBytes [1],
     wr_attestationObject = WVal JUndef, wr_label = JUndef, wr_transports = JUndef, wr_reason = JUndef\<rparr>"

definition exRegister :: "web_op list" where
  "exRegister = [BeginRegistration (exWebEnv 1) (exWebRequest 1 [] 0), CompleteRegistration (exWebEnv 1) (exWebRequest 1 exToken1 3)]"

definition exLoginOps :: "8 word \<Rightarrow> web_op list" where
  "exLoginOps n = [BeginAssertion (exWebEnv 2) (exWebRequest 2 [] 0), CompleteAssertion (exWebEnv 2) (exWebRequest 2 exToken2 n)]"

lemmas ex_web_defs [code_defs] = exHash_def exToken1_def exToken2_def exJson_def exUrl_def exWebConfig_def exWebOptions_def exWebStart_def
  exWebEnv_def exWebRequest_def exRegister_def exLoginOps_def exCredentialId_def

lemma exWeb_parts: "assertOrigin exUrl (JStr ''https://x.org'') = Inr ''https://x.org''" "assertRpId (JStr ''x.org'') = Inr ''x.org''"
  "one_line (JStr ''Gulo Gulo'')" "rp_scope_ok ''x.org'' ''x.org''"
  by code_simp+

lemma exWeb_created: "createWebAuthnManager exHash exJson exUrl exWebConfig = Inr (exWebOptions, exWebStart)"
proof -
  have "exUrl ''https://x.org'' \<noteq> None" "ul_hostname (the (exUrl ''https://x.org'')) = ''x.org''" by (simp_all add: exUrl_def)
  then show ?thesis
    by (auto simp: exWebOptions_def exWebStart_def createWebAuthnManager_def exWebConfig_def exWeb_parts js_default_def need_arr_def need_int_def needE_def is_safe_int_def max_safe_def Let_def)
qed


lemma exClient: "verifyClientData exWebOptions (WBytes [1, 1]) ''webauthn.create'' exToken1 = Inr \<lparr>ck_type = ''webauthn.create'', ck_challenge = exToken1, ck_origin = ''https://x.org''\<rparr>"
  "verifyClientData exWebOptions (WBytes [2, 2]) ''webauthn.get'' exToken2 = Inr \<lparr>ck_type = ''webauthn.get'', ck_challenge = exToken2, ck_origin = ''https://x.org''\<rparr>"
  by code_simp+

lemma exAuthData: "parseAuthenticatorData exWebOptions registration (WBytes (exHash [] @ [0x41, 0, 0, 0, n])) = Inr \<lparr>ad_bytes = exHash [] @ [0x41, 0, 0, 0, n],
    ad_rpIdHash = exHash [], ad_flags = 0x41, ad_userVerified = False, ad_signCount = ucast n, ad_attested = (if registration then Some [] else None)\<rparr>"
  by (simp add: parseAuthenticatorData_def exWebOptions_def exHash_def read_uint32_def nth_append)

lemma exId: "assertCredentialId (JStr exCredentialId) = Inr exCredentialId" "challenge_ok exToken1" "challenge_ok exToken2"
  "base64url (replicate 32 1) = exToken1" "base64url (replicate 32 2) = exToken2" "auth_id_ok ''x.org''" "auth_id_ok ''ada''"
  by code_simp+

definition exCredential :: web_credential where
  "exCredential = \<lparr>cd_credentialId = exCredentialId, cd_tenantId = ''x.org'', cd_userId = ''ada'', cd_label = ''passkey'', cd_publicKey = WBytes [1],
     cd_signCount = 3, cd_createdAt = 1000, cd_lastUsedAt = None, cd_revokedAt = None, cd_transports = []\<rparr>"

lemma exRegistration:
  assumes "wc_challenge w = exToken1" "map_of (wn_credentials st) exCredentialId = None"
  shows "registration_check exWebOptions (exWebEnv 1) (exWebRequest 1 exToken1 3) ''x.org'' ''ada'' 1000 w st = Inr (Inr exCredential)"
  using assms by (simp add: registration_check_def exWebRequest_def exId exClient exAuthData callVerifier_def exWebEnv_def verifierSucceeded_def
    transports_ok_def web_label_def js_default_def exCredential_def)

lemma exRegistered: "wn_challenges (web_runs exWebOptions exRegister exWebStart) = []" "wn_credentials (web_runs exWebOptions exRegister exWebStart) = [(exCredentialId, exCredential)]"
proof -
  have b: "web_run exWebOptions (BeginRegistration (exWebEnv 1) (exWebRequest 1 [] 0)) exWebStart = exWebStart\<lparr>wn_challenges := [(exToken1,
      \<lparr>wc_challenge = exToken1, wc_type = ''registration'', wc_tenantId = ''x.org'', wc_userId = ''ada'', wc_allowCredentials = [], wc_createdAt = 1000, wc_expiresAt = 301000\<rparr>)]\<rparr>"
    by (simp add: beginRegistration_def web_assertUserActor_def exWebRequest_def exWebEnv_def exWebStart_def js_default_def assertIdentityPart_def need_str_def exId
      FORBIDDEN_ROLES_def needE_def one_line_def js_str_def is_line_break_def ccode_def issueChallenge_def bindS_def assertRandomBytes_def readTime_def exWebOptions_def Let_def)
  let ?w = "\<lparr>wc_challenge = exToken1, wc_type = ''registration'', wc_tenantId = ''x.org'', wc_userId = ''ada'', wc_allowCredentials = [], wc_createdAt = 1000, wc_expiresAt = 301000\<rparr>"
  have parts: "wr_tenantId (exWebRequest 1 exToken1 3) = JStr ''x.org''" "wr_userId (exWebRequest 1 exToken1 3) = JStr ''ada''"
    "wr_challenge (exWebRequest 1 exToken1 3) = JStr exToken1" "we_clock (exWebEnv 1) = Some 1000"
    by (simp_all add: exWebRequest_def exWebEnv_def)
  have consume: "consumeChallenge (JStr exToken1) ''registration'' ''x.org'' ''ada'' 1000 (exWebStart\<lparr>wn_challenges := [(exToken1, ?w)]\<rparr>) = (Some ?w, exWebStart)"
    by (simp add: consumeChallenge_def exId exWebStart_def)
  have run: "completeRegistration exWebOptions (exWebEnv 1) (exWebRequest 1 exToken1 3) (exWebStart\<lparr>wn_challenges := [(exToken1, ?w)]\<rparr>)
    = (Inr (Accepted (cred_metadata exCredential)), web_log (web_event ''auth.webauthn.enrolled'' ''x.org'' ''ada'' exCredentialId [] 1000) (put_credential exCredential exWebStart))"
    unfolding completeRegistration_def parts using exRegistration [of ?w exWebStart]
    by (simp add: exId assertIdentityPart_def need_str_def consume exCredential_def) (simp add: exWebStart_def)
  have all: "web_runs exWebOptions exRegister exWebStart = web_log (web_event ''auth.webauthn.enrolled'' ''x.org'' ''ada'' exCredentialId [] 1000) (put_credential exCredential exWebStart)"
    unfolding exRegister_def web_runs_simps b unfolding web_run.simps run by simp
  show "wn_challenges (web_runs exWebOptions exRegister exWebStart) = []" "wn_credentials (web_runs exWebOptions exRegister exWebStart) = [(exCredentialId, exCredential)]"
    unfolding all by (simp_all add: web_log_def put_credential_def exWebStart_def exCredential_def)
qed

text \<open>The next login, on any manager that holds the credential and no challenge.\<close>

lemma exCheck:
  assumes "wc_challenge w = exToken2" "wc_allowCredentials w = [exCredentialId]" "owned_active ''x.org'' ''ada'' c" "map_of (wn_credentials st) exCredentialId = Some c"
  shows "assertion_check exWebOptions (exWebEnv 2) (exWebRequest 2 exToken2 n) ''x.org'' ''ada'' w st
    = Inr (if 0 < cd_signCount c \<and> 0 < (ucast n :: 32 word) \<and> ucast n \<le> cd_signCount c then DeniedLogged exCredentialId ''SIGN_COUNT_ROLLBACK'' else Granted c (ucast n))"
  using assms by (simp add: assertion_check_def exWebRequest_def exId exClient exAuthData callVerifier_def exWebEnv_def verifierSucceeded_def limiter_allows_def owned_active_def)

definition exLoginResult :: "8 word \<Rightarrow> web_credential \<Rightarrow> web_credential" where
  "exLoginResult n c = (if 0 < cd_signCount c \<and> 0 < (ucast n :: 32 word) \<and> ucast n \<le> cd_signCount c then c else c\<lparr>cd_signCount := ucast n, cd_lastUsedAt := Some 1000\<rparr>)"

lemma exBegin:
  assumes "wn_challenges st = []" "wn_credentials st = [(exCredentialId, c)]" "cd_credentialId c = exCredentialId" "owned_active ''x.org'' ''ada'' c"
  shows "web_run exWebOptions (BeginAssertion (exWebEnv 2) (exWebRequest 2 [] 0)) st = st\<lparr>wn_challenges := [(exToken2,
      \<lparr>wc_challenge = exToken2, wc_type = ''assertion'', wc_tenantId = ''x.org'', wc_userId = ''ada'', wc_allowCredentials = [exCredentialId], wc_createdAt = 1000, wc_expiresAt = 301000\<rparr>)]\<rparr>"
  using assms by (simp add: beginAssertion_def web_assertUserActor_def exWebRequest_def exWebEnv_def js_default_def assertIdentityPart_def need_str_def exId
      FORBIDDEN_ROLES_def needE_def need_arr_def issueChallenge_def bindS_def assertRandomBytes_def readTime_def exWebOptions_def Let_def)

lemma exComplete:
  assumes "wn_credentials st = [(exCredentialId, c)]" "cd_credentialId c = exCredentialId" "owned_active ''x.org'' ''ada'' c"
    and "wn_challenges st = [(exToken2, w)]" "wc_challenge w = exToken2" "wc_type w = ''assertion''" "wc_tenantId w = ''x.org''" "wc_userId w = ''ada''"
      "wc_allowCredentials w = [exCredentialId]" "wc_expiresAt w = 301000"
  shows "wn_challenges (snd (completeAssertion exWebOptions (exWebEnv 2) (exWebRequest 2 exToken2 n) st)) = []"
    and "wn_credentials (snd (completeAssertion exWebOptions (exWebEnv 2) (exWebRequest 2 exToken2 n) st)) = [(exCredentialId, exLoginResult n c)]"
    and "fst (completeAssertion exWebOptions (exWebEnv 2) (exWebRequest 2 exToken2 n) st) =
      Inr (if 0 < cd_signCount c \<and> 0 < (ucast n :: 32 word) \<and> ucast n \<le> cd_signCount c then Rejected ''SIGN_COUNT_ROLLBACK'' else Accepted (cred_metadata (exLoginResult n c)))"
proof -
  have parts: "wr_tenantId (exWebRequest 2 exToken2 n) = JStr ''x.org''" "wr_userId (exWebRequest 2 exToken2 n) = JStr ''ada''"
    "wr_challenge (exWebRequest 2 exToken2 n) = JStr exToken2" "we_clock (exWebEnv 2) = Some 1000"
    by (simp_all add: exWebRequest_def exWebEnv_def)
  have consume: "consumeChallenge (JStr exToken2) ''assertion'' ''x.org'' ''ada'' 1000 st = (Some w, st\<lparr>wn_challenges := []\<rparr>)"
    using assms by (simp add: consumeChallenge_def exId)
  have run: "completeAssertion exWebOptions (exWebEnv 2) (exWebRequest 2 exToken2 n) st
    = (if 0 < cd_signCount c \<and> 0 < (ucast n :: 32 word) \<and> ucast n \<le> cd_signCount c
       then (Inr (Rejected ''SIGN_COUNT_ROLLBACK''), web_log (web_event ''auth.webauthn.verification_failed'' ''x.org'' ''ada'' exCredentialId
          [(''reason'', JStr ''SIGN_COUNT_ROLLBACK'')] 1000) (st\<lparr>wn_challenges := []\<rparr>))
       else (Inr (Accepted (cred_metadata (exLoginResult n c))), web_log (web_event ''auth.webauthn.verified'' ''x.org'' ''ada'' exCredentialId [] 1000)
          (put_credential (exLoginResult n c) (st\<lparr>wn_challenges := []\<rparr>))))"
    unfolding completeAssertion_def parts using exCheck [of w c "st\<lparr>wn_challenges := []\<rparr>" n] assms
    by (simp add: exId assertIdentityPart_def need_str_def consume exLoginResult_def Let_def)
  show "wn_challenges (snd (completeAssertion exWebOptions (exWebEnv 2) (exWebRequest 2 exToken2 n) st)) = []"
    unfolding run by (simp add: web_log_def put_credential_def)
  show "wn_credentials (snd (completeAssertion exWebOptions (exWebEnv 2) (exWebRequest 2 exToken2 n) st)) = [(exCredentialId, exLoginResult n c)]"
    unfolding run using assms(1,2) by (simp add: web_log_def put_credential_def exLoginResult_def)
  show "fst (completeAssertion exWebOptions (exWebEnv 2) (exWebRequest 2 exToken2 n) st) =
      Inr (if 0 < cd_signCount c \<and> 0 < (ucast n :: 32 word) \<and> ucast n \<le> cd_signCount c then Rejected ''SIGN_COUNT_ROLLBACK'' else Accepted (cred_metadata (exLoginResult n c)))"
    unfolding run by simp
qed

lemma exLogin_step:
  assumes "wn_challenges st = []" "wn_credentials st = [(exCredentialId, c)]" "cd_credentialId c = exCredentialId" "owned_active ''x.org'' ''ada'' c"
  shows "wn_challenges (web_runs exWebOptions (exLoginOps n) st) = []"
    and "wn_credentials (web_runs exWebOptions (exLoginOps n) st) = [(exCredentialId, exLoginResult n c)]"
    and "accepted_counts exWebOptions exCredentialId (exLoginOps n @ cs) st =
      (if 0 < cd_signCount c \<and> 0 < (ucast n :: 32 word) \<and> ucast n \<le> cd_signCount c then [] else [ucast n])
        @ accepted_counts exWebOptions exCredentialId cs (web_runs exWebOptions (exLoginOps n) st)"
proof -
  let ?st = "web_run exWebOptions (BeginAssertion (exWebEnv 2) (exWebRequest 2 [] 0)) st"
  note b = exBegin [OF assms]
  have run: "web_runs exWebOptions (exLoginOps n) st = snd (completeAssertion exWebOptions (exWebEnv 2) (exWebRequest 2 exToken2 n) ?st)"
    by (simp only: exLoginOps_def web_runs_simps web_run.simps)
  have c: "wn_credentials ?st = [(exCredentialId, c)]" using assms(2) b by simp
  let ?w = "\<lparr>wc_challenge = exToken2, wc_type = ''assertion'', wc_tenantId = ''x.org'', wc_userId = ''ada'', wc_allowCredentials = [exCredentialId], wc_createdAt = 1000, wc_expiresAt = 301000\<rparr>"
  have w: "wn_challenges ?st = [(exToken2, ?w)]" using b by simp
  have complete: "wn_challenges (snd (completeAssertion exWebOptions (exWebEnv 2) (exWebRequest 2 exToken2 n) ?st)) = []"
    "wn_credentials (snd (completeAssertion exWebOptions (exWebEnv 2) (exWebRequest 2 exToken2 n) ?st)) = [(exCredentialId, exLoginResult n c)]"
    "fst (completeAssertion exWebOptions (exWebEnv 2) (exWebRequest 2 exToken2 n) ?st) =
      Inr (if 0 < cd_signCount c \<and> 0 < (ucast n :: 32 word) \<and> ucast n \<le> cd_signCount c then Rejected ''SIGN_COUNT_ROLLBACK'' else Accepted (cred_metadata (exLoginResult n c)))"
    using exComplete [OF c assms(3,4) w] by simp_all
  show "wn_challenges (web_runs exWebOptions (exLoginOps n) st) = []" unfolding run by (rule complete(1))
  show "wn_credentials (web_runs exWebOptions (exLoginOps n) st) = [(exCredentialId, exLoginResult n c)]" unfolding run by (rule complete(2))
  show "accepted_counts exWebOptions exCredentialId (exLoginOps n @ cs) st =
      (if 0 < cd_signCount c \<and> 0 < (ucast n :: 32 word) \<and> ucast n \<le> cd_signCount c then [] else [ucast n])
        @ accepted_counts exWebOptions exCredentialId cs (web_runs exWebOptions (exLoginOps n) st)"
    unfolding run exLoginOps_def append.simps accepted_counts.simps accepted_count.simps web_run.simps(4) complete(3)
    using assms(3) by (simp add: exLoginResult_def cred_metadata_def)
qed

lemma exLoginResult_facts: "cd_credentialId (exLoginResult n c) = cd_credentialId c" "owned_active t u (exLoginResult n c) = owned_active t u c"
  by (simp_all add: exLoginResult_def owned_active_def)

lemma exCredential_facts: "cd_credentialId exCredential = exCredentialId" "owned_active ''x.org'' ''ada'' exCredential" "cd_signCount exCredential = 3"
  by (simp_all add: exCredential_def owned_active_def)

text \<open>The counts of three logins after the registration.\<close>

lemma exCounts: "accepted_counts exWebOptions exCredentialId (exLoginOps a @ exLoginOps b @ exLoginOps d) (web_runs exWebOptions exRegister exWebStart)
  = (let c1 = exLoginResult a exCredential; c2 = exLoginResult b c1;
       new = (\<lambda>n c. if 0 < cd_signCount c \<and> 0 < (ucast n :: 32 word) \<and> ucast n \<le> cd_signCount c then [] else [ucast n])
     in new a exCredential @ new b c1 @ new d c2)"
proof -
  let ?s0 = "web_runs exWebOptions exRegister exWebStart"
  let ?s1 = "web_runs exWebOptions (exLoginOps a) ?s0"
  let ?s2 = "web_runs exWebOptions (exLoginOps b) ?s1"
  note f = exCredential_facts exLoginResult_facts
  have s1: "wn_challenges ?s1 = []" "wn_credentials ?s1 = [(exCredentialId, exLoginResult a exCredential)]"
    using exLogin_step(1,2) [OF exRegistered f(1,2)] by blast+
  have s2: "wn_challenges ?s2 = []" "wn_credentials ?s2 = [(exCredentialId, exLoginResult b (exLoginResult a exCredential))]"
    using exLogin_step(1,2) [OF s1] f by simp_all
  show ?thesis
    using exLogin_step(3) [OF exRegistered f(1,2)] exLogin_step(3) [OF s1] exLogin_step(3) [OF s2, where cs = "[]"] f by (simp add: Let_def)
qed

text \<open>An older counter is refused; but a counter of zero is accepted after any other and resets the stored one, and then an
  older counter is accepted again.\<close>

lemma exWeb_counts: "accepted_counts exWebOptions exCredentialId (exLoginOps 4 @ exLoginOps 2 @ exLoginOps 9) (web_runs exWebOptions exRegister exWebStart) = [4, 9]"
  by (simp add: exCounts Let_def exLoginResult_def exCredential_facts)

lemma zero_counter_resets: "accepted_counts exWebOptions exCredentialId (exLoginOps 4 @ exLoginOps 0 @ exLoginOps 2) (web_runs exWebOptions exRegister exWebStart) = [4, 0, 2]"
  by (simp add: exCounts Let_def exLoginResult_def exCredential_facts)

text \<open>The code of a missing user verification is not among those a registration answers with: it throws.\<close>

lemma registration_throws_without_verification: "''USER_VERIFICATION_REQUIRED'' \<in> set ASSERTION_CODES \<and> ''USER_VERIFICATION_REQUIRED'' \<notin> set REGISTRATION_CODES"
  by (simp add: ASSERTION_CODES_def REGISTRATION_CODES_def)

theorem assertion_has_a_history_witness:
  "\<exists>m. fst (completeAssertion exWebOptions (exWebEnv 2) (exWebRequest 2 exToken2 4)
      (web_runs exWebOptions (exRegister @ [BeginAssertion (exWebEnv 2) (exWebRequest 2 [] 0)]) exWebStart)) = Inr (Accepted m)
    \<and> cd_credentialId m = exCredentialId
    \<and> (\<exists>w. challenge_given exWebOptions (exRegister @ [BeginAssertion (exWebEnv 2) (exWebRequest 2 [] 0)]) exWebStart exToken2 w)"
proof -
  let ?cs = "exRegister @ [BeginAssertion (exWebEnv 2) (exWebRequest 2 [] 0)]" and ?m = "cred_metadata (exLoginResult 4 exCredential)"
  let ?st = "web_runs exWebOptions ?cs exWebStart"
  have "?st = (web_runs exWebOptions exRegister exWebStart)\<lparr>wn_challenges := [(exToken2,
      \<lparr>wc_challenge = exToken2, wc_type = ''assertion'', wc_tenantId = ''x.org'', wc_userId = ''ada'', wc_allowCredentials = [exCredentialId], wc_createdAt = 1000, wc_expiresAt = 301000\<rparr>)]\<rparr>"
    using exBegin [OF exRegistered exCredential_facts(1,2)] by simp
  then have "wn_credentials ?st = [(exCredentialId, exCredential)]" "wn_challenges ?st = [(exToken2,
      \<lparr>wc_challenge = exToken2, wc_type = ''assertion'', wc_tenantId = ''x.org'', wc_userId = ''ada'', wc_allowCredentials = [exCredentialId], wc_createdAt = 1000, wc_expiresAt = 301000\<rparr>)]"
    using exRegistered(2) by simp_all
  from exComplete(3) [OF this(1) exCredential_facts(1,2) this(2), of 4]
  have acc: "fst (completeAssertion exWebOptions (exWebEnv 2) (exWebRequest 2 exToken2 4) ?st) = Inr (Accepted ?m)" by (simp add: exCredential_facts)
  then obtain st' where "completeAssertion exWebOptions (exWebEnv 2) (exWebRequest 2 exToken2 4) ?st = (Inr (Accepted ?m), st')" by (metis prod.collapse)
  from assertion_has_a_history [OF exWeb_created this] obtain tok w where "wr_challenge (exWebRequest 2 exToken2 4) = JStr tok"
    "challenge_given exWebOptions ?cs exWebStart tok w" by blast
  then have "\<exists>w. challenge_given exWebOptions ?cs exWebStart exToken2 w" by (auto simp: exWebRequest_def)
  with acc show ?thesis by (auto simp: exLoginResult_facts exCredential_facts)
qed

theorem authenticator_counters_increase_witness:
  "accepted_counts exWebOptions exCredentialId (exLoginOps 4 @ exLoginOps 2 @ exLoginOps 9) (web_runs exWebOptions exRegister exWebStart) = [4, 9] \<and> sorted_wrt (<) [3, 4, 9 :: 32 word]"
proof -
  have "web_ok (web_runs exWebOptions exRegister exWebStart)" by (rule web_runs_ok) (simp add: web_ok_def exWebStart_def)
  moreover have "map_of (wn_credentials (web_runs exWebOptions exRegister exWebStart)) exCredentialId = Some exCredential" by (simp add: exRegistered)
  moreover have "0 \<notin> set (accepted_counts exWebOptions exCredentialId (exLoginOps 4 @ exLoginOps 2 @ exLoginOps 9) (web_runs exWebOptions exRegister exWebStart))"
    by (simp add: exWeb_counts)
  ultimately show ?thesis using authenticator_counters_increase [where i = exCredentialId] exWeb_counts exCredential_facts(3) by fastforce
qed

theorem authenticator_data_roundtrip_witness:
  "\<exists>s. createAuthenticatorData exHash (JStr ''x.org'') 0x41 (JInt 258) (replicate 18 5) = Inr s
    \<and> parseAuthenticatorData exWebOptions True (WVal (JStr s)) = Inr \<lparr>ad_bytes = replicate 32 7 @ [0x41, 0, 0, 1, 2] @ replicate 18 5,
        ad_rpIdHash = replicate 32 7, ad_flags = 0x41, ad_userVerified = False, ad_signCount = 258, ad_attested = Some (replicate 18 5)\<rparr>"
proof -
  have opts: "wo_sha exWebOptions = exHash" "wo_rpId exWebOptions = ''x.org''" "\<not> wo_requireUserVerification exWebOptions" by (simp_all add: exWebOptions_def)
  have four: "write_uint32 258 = [0, 0, 1, 2]" by code_simp
  obtain s where s: "createAuthenticatorData exHash (JStr ''x.org'') 0x41 (JInt 258) (replicate 18 5) = Inr s"
    by (auto simp: createAuthenticatorData_def exWeb_parts need_int_def is_safe_int_def max_safe_def)
  from authenticator_data_roundtrip [where opts = exWebOptions and flags = "0x41" and n = "258" and tail = "replicate 18 5" and s = s and registration = True] s
  have "parseAuthenticatorData exWebOptions True (WVal (JStr s)) = Inr \<lparr>ad_bytes = replicate 32 7 @ [0x41, 0, 0, 1, 2] @ replicate 18 5,
        ad_rpIdHash = replicate 32 7, ad_flags = 0x41, ad_userVerified = False, ad_signCount = 258, ad_attested = Some (replicate 18 5)\<rparr>"
    by (simp add: opts exHash_def four)
  with s show ?thesis by blast
qed

end
