(* ===== verification/Mail_Policy.thy ===== *)
theory Mail_Policy
  imports Tenant_Context
begin

section \<open>The mail policy\<close>

text \<open>
  \<open>src/core/mail/mail-policy.ts\<close>: address normalisation, the tenant's directory of mailboxes and
  aliases, the decisions on inbound mail and on submissions, the submission rate and the check of
  Sieve scripts.  The configuration captured by \<open>createMailPolicy\<close> is the record \<open>mail_policy\<close>; its
  only state is the rate windows.  The clock is an argument, the time of a valid \<open>Date\<close>.
\<close>

record mail_policy =
  mp_tenantId :: string
  mp_domain :: string
  mp_maxMessageBytes :: int
  mp_maxRecipients :: nat
  mp_maxPerMinute :: int

record mail_envelope =
  me_sender :: jsval
  me_envelopeFrom :: jsval
  me_recipients :: jsval
  me_sizeBytes :: jsval
  me_authenticatedUserId :: jsval
  me_authenticated :: jsval
  me_messageRef :: jsval
  me_users :: "jsval list option"
  me_aliases :: jsval

text \<open>\<open>byAddress\<close> maps an address to the user's id, \<open>byId\<close> a user's id to the address.\<close>

record user_directory =
  ud_byAddress :: "(string \<times> string) list"
  ud_byId :: "(string \<times> string) list"

record resolved_recipient =
  rr_address :: string
  rr_userId :: string
  rr_alias :: "string option" \<comment> \<open>\<open>via: 'alias'\<close> with the alias, else \<open>via: 'mailbox'\<close>\<close>

record resolution =
  rs_requested :: "string list"
  rs_resolved :: "resolved_recipient list"
  rs_rejected :: "(string \<times> string) list"
  rs_accepted :: bool

record inbound_decision =
  id_sender :: string
  id_resolution :: resolution

record submission_decision =
  sd_sender :: string
  sd_requested :: "string list"
  sd_resolved :: "string list"
  sd_external :: "string list"
  sd_userId :: string

record rate_result =
  ra_allowed :: bool
  ra_remaining :: int
  ra_retryAfterMs :: int

type_synonym rate_windows = "(string \<times> (int \<times> int)) list" \<comment> \<open>started at, count\<close>

record mail_audit =
  ma_eventType :: string
  ma_tenantId :: string
  ma_actorId :: "string option"
  ma_result :: string
  ma_reason :: "string option"
  ma_details :: jsval
  ma_occurredAt :: int

subsection \<open>Addresses\<close>

definition policyError :: "string \<Rightarrow> err" where
  "policyError code = Err MailPolicyErr code 0"

definition requiredString :: "jsval \<Rightarrow> string res" where
  "requiredString v = need_str (\<lambda>s. s \<noteq> []) (policyError ''INVALID_INPUT'') v"

definition local_char :: "char \<Rightarrow> bool" where
  "local_char c \<longleftrightarrow> is_alnum c \<or> one_of ''.!#$%&*+/=?^_`{|}~-'' c \<or> ccode c = 39"

definition local_part_ok :: "string \<Rightarrow> bool" where
  "local_part_ok s \<longleftrightarrow> run_of local_char 64 s"

text \<open>The two sides of the last \<open>@\<close>, and \<open>address.slice(address.lastIndexOf('@') + 1)\<close>.\<close>

definition at_sign :: "char \<Rightarrow> bool" where
  "at_sign c \<longleftrightarrow> c = CHR ''@''"

definition before_at :: "string \<Rightarrow> string" where
  "before_at s = rev (tl (dropWhile (\<lambda>c. \<not> at_sign c) (rev s)))"

definition after_at :: "string \<Rightarrow> string" where
  "after_at s = rev (takeWhile (\<lambda>c. \<not> at_sign c) (rev s))"

definition normalizeAddress :: "jsval \<Rightarrow> string res" where
  "normalizeAddress v = bindE (requiredString v) (\<lambda>s. let a = trim s in
     if \<not> list_ex at_sign a \<or> before_at a = [] \<or> after_at a = [] then Inl (policyError ''INVALID_ADDRESS'')
     else let l = before_at a; d = lower (after_at a) in
       if \<not> local_part_ok l \<or> \<not> domain_ok d then Inl (policyError ''INVALID_ADDRESS'')
       else Inr (lower l @ ''@'' @ d))"

definition normalizeAddressForTenant :: "jsval \<Rightarrow> string \<Rightarrow> string res" where
  "normalizeAddressForTenant v domain = bindE (normalizeAddress v) (\<lambda>a.
     if after_at a \<noteq> domain then Inl (policyError ''CROSS_TENANT_ADDRESS'') else Inr a)"

subsection \<open>The directory\<close>

definition addUser :: "string \<Rightarrow> user_directory \<Rightarrow> jsval \<Rightarrow> user_directory res" where
  "addUser domain d v =
     bindE (needE (is_object v \<and> (case v of JArr _ \<Rightarrow> False | _ \<Rightarrow> True)) (policyError ''INVALID_INPUT'')) (\<lambda>_.
     bindE (requiredString (jget v ''userId'')) (\<lambda>u.
     bindE (normalizeAddressForTenant (js_or_else (jget v ''address'') (jget v ''mailAddress'')) domain) (\<lambda>a.
     if jget v ''status'' \<noteq> JUndef \<and> jget v ''status'' \<noteq> JStr ''active'' then Inr d
     else if map_of (ud_byAddress d) a \<noteq> None \<or> map_of (ud_byId d) u \<noteq> None
     then Inl (policyError ''CONFLICT'')
     else Inr \<lparr>ud_byAddress = AList.update a u (ud_byAddress d), ud_byId = AList.update u a (ud_byId d)\<rparr>)))"

fun addUsers :: "string \<Rightarrow> user_directory \<Rightarrow> jsval list \<Rightarrow> user_directory res" where
  "addUsers domain d [] = Inr d"
| "addUsers domain d (v # vs) = bindE (addUser domain d v) (\<lambda>d1. addUsers domain d1 vs)"

definition normalizeUserDirectory :: "jsval list option \<Rightarrow> string \<Rightarrow> user_directory res" where
  "normalizeUserDirectory users domain =
     addUsers domain \<lparr>ud_byAddress = [], ud_byId = []\<rparr> (case users of None \<Rightarrow> [] | Some vs \<Rightarrow> vs)"

definition aliasDestination :: "user_directory \<Rightarrow> string \<Rightarrow> jsval \<Rightarrow> string res" where
  "aliasDestination d domain v =
     bindE (need_str (\<lambda>_. True) (policyError ''INVALID_ALIAS'') v) (\<lambda>s.
     case map_of (ud_byId d) s of Some a \<Rightarrow> Inr a | None \<Rightarrow> normalizeAddressForTenant v domain)"

definition normalizeAliasDestinations :: "jsval \<Rightarrow> jsval \<Rightarrow> user_directory \<Rightarrow> string \<Rightarrow> string list res" where
  "normalizeAliasDestinations destinations targetUserId d domain =
     bindE (need_arr (policyError ''INVALID_ALIAS'')
       (js_or_else destinations (JArr (if targetUserId = JUndef then [] else [targetUserId])))) (\<lambda>vs.
     bindE (needE (vs \<noteq> []) (policyError ''INVALID_ALIAS'')) (\<lambda>_.
     bindE (mapE (aliasDestination d domain) vs) (\<lambda>as.
     let unique = dedup as in
     if list_ex (\<lambda>a. map_of (ud_byAddress d) a = None) unique then Inl (policyError ''INVALID_ALIAS'')
     else Inr unique)))"

definition nth_js :: "jsval list \<Rightarrow> nat \<Rightarrow> jsval" where
  "nth_js vs n = (if n < length vs then vs ! n else JUndef)"

text \<open>An alias is an object or a pair; a \<open>Map\<close> of aliases is the list of its entries.\<close>

definition alias_value :: "jsval \<Rightarrow> jsval \<times> jsval \<times> jsval" where
  "alias_value v = (case v of JArr vs \<Rightarrow> (nth_js vs 0, nth_js vs 1, JUndef)
     | _ \<Rightarrow> (js_or_else (jget v ''address'') (jget v ''aliasAddress''), jget v ''destinations'', jget v ''targetUserId''))"

type_synonym alias_map = "(string \<times> string list) list"

definition addAlias :: "user_directory \<Rightarrow> string \<Rightarrow> alias_map \<Rightarrow> jsval \<Rightarrow> alias_map res" where
  "addAlias d domain m v =
     bindE (needE (is_object v) (policyError ''INVALID_INPUT'')) (\<lambda>_.
     case alias_value v of (address, destinations, target) \<Rightarrow>
     bindE (normalizeAddressForTenant address domain) (\<lambda>a.
     if map_of (ud_byAddress d) a \<noteq> None \<or> map_of m a \<noteq> None then Inl (policyError ''CONFLICT'')
     else bindE (normalizeAliasDestinations destinations target d domain) (\<lambda>ds. Inr (AList.update a ds m))))"

fun addAliases :: "user_directory \<Rightarrow> string \<Rightarrow> alias_map \<Rightarrow> jsval list \<Rightarrow> alias_map res" where
  "addAliases d domain m [] = Inr m"
| "addAliases d domain m (v # vs) = bindE (addAlias d domain m v) (\<lambda>m1. addAliases d domain m1 vs)"

definition normalizeAliases :: "jsval \<Rightarrow> user_directory \<Rightarrow> string \<Rightarrow> alias_map res" where
  "normalizeAliases aliases d domain =
     bindE (need_arr (policyError ''INVALID_INPUT'') (js_or_else aliases (JArr []))) (addAliases d domain [])"

definition mailDirectory :: "mail_policy \<Rightarrow> jsval list option \<Rightarrow> jsval \<Rightarrow> (user_directory \<times> alias_map) res" where
  "mailDirectory p users aliases =
     bindE (normalizeUserDirectory users (mp_domain p)) (\<lambda>d.
     bindE (normalizeAliases aliases d (mp_domain p)) (\<lambda>m. Inr (d, m)))"

subsection \<open>Decisions\<close>

definition createMailPolicy :: "jsval \<Rightarrow> jsval \<Rightarrow> jsval \<Rightarrow> jsval \<Rightarrow> jsval \<Rightarrow> mail_policy res" where
  "createMailPolicy tenantId domain maxMessageBytes maxRecipients maxPerMinute =
     bindE (requiredString domain) (\<lambda>dm.
     bindE (needE (domain_ok (lower dm)) (policyError ''INVALID_DOMAIN'')) (\<lambda>_.
     bindE (need_int (\<lambda>n. 0 < n) (policyError ''INVALID_INPUT'') (js_default maxMessageBytes (JInt 52428800))) (\<lambda>mb.
     bindE (need_int (\<lambda>n. 1 \<le> n \<and> n \<le> 1000) (policyError ''INVALID_INPUT'') (js_default maxRecipients (JInt 100))) (\<lambda>mr.
     bindE (need_int (\<lambda>n. 1 \<le> n) (policyError ''INVALID_INPUT'') (js_default maxPerMinute (JInt 60))) (\<lambda>mm.
     bindE (requiredString tenantId) (\<lambda>t.
     Inr \<lparr>mp_tenantId = t, mp_domain = lower dm, mp_maxMessageBytes = mb, mp_maxRecipients = nat mr,
          mp_maxPerMinute = mm\<rparr>))))))"

definition normalizeRecipients :: "jsval \<Rightarrow> string list res" where
  "normalizeRecipients v =
     bindE (need_arr (policyError ''NO_RECIPIENTS'') v) (\<lambda>vs.
     bindE (needE (vs \<noteq> []) (policyError ''NO_RECIPIENTS'')) (\<lambda>_.
     bindE (mapE normalizeAddress vs) (\<lambda>as. Inr (dedup as))))"

fun resolve_loop :: "string \<Rightarrow> user_directory \<Rightarrow> alias_map \<Rightarrow> string list \<Rightarrow>
    (resolved_recipient list \<times> (string \<times> string) list) res" where
  "resolve_loop domain d m [] = Inr ([], [])"
| "resolve_loop domain d m (a # as) =
     (if after_at a \<noteq> domain
      then bindE (resolve_loop domain d m as) (\<lambda>(ok, no). Inr (ok, (a, ''external_recipient'') # no))
      else (case map_of (ud_byAddress d) a of
          Some u \<Rightarrow> bindE (resolve_loop domain d m as) (\<lambda>(ok, no).
            Inr (\<lparr>rr_address = a, rr_userId = u, rr_alias = None\<rparr> # ok, no))
        | None \<Rightarrow> (case map_of m a of
            None \<Rightarrow> bindE (resolve_loop domain d m as) (\<lambda>(ok, no). Inr (ok, (a, ''unknown_recipient'') # no))
          | Some ds \<Rightarrow>
              bindE (mapE (\<lambda>x. case map_of (ud_byAddress d) x of
                  None \<Rightarrow> Inl (policyError ''INVALID_ALIAS'')
                | Some u \<Rightarrow> Inr \<lparr>rr_address = x, rr_userId = u, rr_alias = Some a\<rparr>) ds) (\<lambda>rs.
              bindE (resolve_loop domain d m as) (\<lambda>(ok, no). Inr (rs @ ok, no))))))"

definition resolveRecipients :: "mail_policy \<Rightarrow> jsval \<Rightarrow> jsval list option \<Rightarrow> jsval \<Rightarrow> resolution res" where
  "resolveRecipients p recipients users aliases =
     bindE (mailDirectory p users aliases) (\<lambda>(d, m).
     bindE (normalizeRecipients recipients) (\<lambda>req.
     if mp_maxRecipients p < length req then Inl (policyError ''RECIPIENT_LIMIT'')
     else bindE (resolve_loop (mp_domain p) d m req) (\<lambda>(ok, no).
       Inr \<lparr>rs_requested = req, rs_resolved = ok, rs_rejected = no, rs_accepted = (no = [] \<and> ok \<noteq> [])\<rparr>)))"

definition assertMessageSize :: "mail_policy \<Rightarrow> jsval \<Rightarrow> int res" where
  "assertMessageSize p v = bindE (need_int (\<lambda>n. 0 \<le> n) (policyError ''INVALID_SIZE'') v) (\<lambda>n.
     if mp_maxMessageBytes p < n then Inl (policyError ''MESSAGE_TOO_LARGE'') else Inr n)"

definition authorizeInbound :: "mail_policy \<Rightarrow> jsval \<Rightarrow> mail_envelope \<Rightarrow> inbound_decision res" where
  "authorizeInbound p ctx m =
     bindE (assertTenantContext ctx) (\<lambda>c.
     bindE (needE (tc_tenantId c = mp_tenantId p) (policyError ''CROSS_TENANT_ACCESS'')) (\<lambda>_.
     bindE (normalizeAddress (me_sender m)) (\<lambda>s.
     bindE (resolveRecipients p (me_recipients m) (me_users m) (me_aliases m)) (\<lambda>r.
     bindE (assertMessageSize p (js_or_else (me_sizeBytes m) (JInt 0))) (\<lambda>_.
     if \<not> rs_accepted r then Inl (policyError ''RECIPIENT_REJECTED'')
     else Inr \<lparr>id_sender = s, id_resolution = r\<rparr>)))))"

definition consumeSubmissionRate :: "mail_policy \<Rightarrow> int \<Rightarrow> string \<Rightarrow> rate_windows \<Rightarrow> rate_result \<times> rate_windows" where
  "consumeSubmissionRate p now u w =
     (case map_of w u of
        None \<Rightarrow> (\<lparr>ra_allowed = True, ra_remaining = mp_maxPerMinute p - 1, ra_retryAfterMs = 0\<rparr>,
                 AList.update u (now, 1) w)
      | Some (started, n) \<Rightarrow>
          if 60000 \<le> now - started
          then (\<lparr>ra_allowed = True, ra_remaining = mp_maxPerMinute p - 1, ra_retryAfterMs = 0\<rparr>,
                AList.update u (now, 1) w)
          else if mp_maxPerMinute p \<le> n
          then (\<lparr>ra_allowed = False, ra_remaining = 0, ra_retryAfterMs = max 1 (60000 - (now - started))\<rparr>, w)
          else (\<lparr>ra_allowed = True, ra_remaining = mp_maxPerMinute p - (n + 1), ra_retryAfterMs = 0\<rparr>,
                AList.update u (started, n + 1) w))"

definition is_internal :: "mail_policy \<Rightarrow> string \<Rightarrow> bool" where
  "is_internal p a \<longleftrightarrow> ends_with (''@'' @ mp_domain p) a"

text \<open>Everything \<open>authorizeSubmission\<close> checks before it counts the submission.\<close>

definition submission_checks :: "mail_policy \<Rightarrow> jsval \<Rightarrow> mail_envelope \<Rightarrow> (string \<times> string \<times> string list) res" where
  "submission_checks p ctx m =
     bindE (requiredString (me_authenticatedUserId m)) (\<lambda>u.
     bindE (assertTenantContext ctx) (\<lambda>c.
     bindE (needE (tc_role c = UserRole \<longrightarrow> tc_actorId c = Some u) (policyError ''SENDER_FORBIDDEN'')) (\<lambda>_.
     bindE (needE (tc_tenantId c = mp_tenantId p) (policyError ''CROSS_TENANT_ACCESS'')) (\<lambda>_.
     bindE (needE (me_authenticated m = JBool True) (policyError ''OPEN_RELAY_DISABLED'')) (\<lambda>_.
     bindE (normalizeAddress (js_or_else (me_sender m) (me_envelopeFrom m))) (\<lambda>s.
     bindE (needE (after_at s = mp_domain p) (policyError ''SENDER_FORBIDDEN'')) (\<lambda>_.
     bindE (mailDirectory p (me_users m) (me_aliases m)) (\<lambda>(d, al).
     bindE (needE (map_of (ud_byAddress d) s = Some u
         \<or> (case map_of al s of None \<Rightarrow> False
            | Some as \<Rightarrow> list_ex (\<lambda>a. map_of (ud_byAddress d) a = Some u) as)) (policyError ''SENDER_FORBIDDEN'')) (\<lambda>_.
     bindE (normalizeRecipients (me_recipients m)) (\<lambda>rs.
     bindE (needE (length rs \<le> mp_maxRecipients p) (policyError ''RECIPIENT_LIMIT'')) (\<lambda>_.
     bindE (if filter (is_internal p) rs = [] then Inr ()
            else bindE (resolveRecipients p (JArr (map JStr (filter (is_internal p) rs))) (me_users m) (me_aliases m)) (\<lambda>r.
              needE (rs_accepted r) (policyError ''RECIPIENT_REJECTED''))) (\<lambda>_.
     bindE (assertMessageSize p (js_or_else (me_sizeBytes m) (JInt 0))) (\<lambda>_.
     Inr (u, s, rs))))))))))))))"

definition authorizeSubmission :: "mail_policy \<Rightarrow> int \<Rightarrow> jsval \<Rightarrow> mail_envelope \<Rightarrow> rate_windows \<Rightarrow>
    submission_decision res \<times> rate_windows" where
  "authorizeSubmission p now ctx m w =
     liftE (submission_checks p ctx m) w (\<lambda>(u, s, rs).
     case consumeSubmissionRate p now u w of (rate, w1) \<Rightarrow>
       if \<not> ra_allowed rate then (Inl (policyError ''RATE_LIMITED''), w1)
       else (Inr \<lparr>sd_sender = s, sd_requested = rs, sd_resolved = filter (is_internal p) rs,
          sd_external = filter (\<lambda>a. \<not> is_internal p a) rs, sd_userId = u\<rparr>, w1))"

subsection \<open>Sieve scripts\<close>

text \<open>\<open>(?:^|p)word(?:q|$)\<close> anywhere in the text, with the flag \<open>i\<close>: \<open>at\<close> says whether the position is
  the start of the text or follows a character of \<open>p\<close>.\<close>

fun find_word :: "(char \<Rightarrow> bool) \<Rightarrow> string \<Rightarrow> (char \<Rightarrow> bool) \<Rightarrow> bool \<Rightarrow> string \<Rightarrow> bool" where
  "find_word p word q at [] = False"
| "find_word p word q at (c # cs) =
     ((at \<and> starts_with word (lower (c # cs))
         \<and> (case drop (length word) (c # cs) of [] \<Rightarrow> True | x # _ \<Rightarrow> q x))
      \<or> find_word p word q (p c) cs)"

definition space_or_colon :: "char \<Rightarrow> bool" where
  "space_or_colon c \<longleftrightarrow> is_space c \<or> c = CHR '':''"

definition space_or_semicolon :: "char \<Rightarrow> bool" where
  "space_or_semicolon c \<longleftrightarrow> is_space c \<or> c = CHR '';''"

definition forwarding :: "string \<Rightarrow> bool" where \<comment> \<open>\<open>FORWARDING_PATTERN\<close>\<close>
  "forwarding s \<longleftrightarrow> find_word space_or_colon ''redirect'' space_or_semicolon True s
     \<or> find_word is_space ''forward'' space_or_colon True s
     \<or> find_word is_space ''forwarding'' space_or_colon True s"

definition utf8_length :: "string \<Rightarrow> nat" where
  "utf8_length s = sum_list (map (\<lambda>c. if ccode c < 128 then 1 else 2) s)"

definition word_char :: "char \<Rightarrow> bool" where
  "word_char c \<longleftrightarrow> is_alnum c \<or> c = CHR ''_''"

definition sieve_actions :: "string \<Rightarrow> string list" where
  "sieve_actions s = dedup (filter (\<lambda>w. w \<in> set [''fileinto'', ''vacation'', ''keep'', ''discard'', ''stop''])
     (map lower (split_by (\<lambda>c. \<not> word_char c) s)))"

definition validateSieve :: "jsval \<Rightarrow> string list res" where
  "validateSieve v =
     bindE (need_str (\<lambda>s. s \<noteq> [] \<and> utf8_length s \<le> 65536) (policyError ''INVALID_SIEVE'') v) (\<lambda>s.
     if forwarding s then Inl (policyError ''FORWARDING_DISABLED'') else Inr (sieve_actions s))"

definition mail_audit_of :: "int \<Rightarrow> jsval \<Rightarrow> string \<Rightarrow> string \<Rightarrow> string option \<Rightarrow> jsval \<Rightarrow> mail_audit res" where
  "mail_audit_of now ctx eventType result reason details =
     bindE (assertTenantContext ctx) (\<lambda>c.
     bindE (requiredString (JStr eventType)) (\<lambda>ty.
     bindE (requiredString (JStr result)) (\<lambda>re.
     Inr \<lparr>ma_eventType = ty, ma_tenantId = tc_tenantId c, ma_actorId = tc_actorId c, ma_result = re,
          ma_reason = reason, ma_details = details, ma_occurredAt = now\<rparr>)))"

lemmas mail_policy_defs [code_defs] = policyError_def requiredString_def local_char_def local_part_ok_def
  at_sign_def before_at_def after_at_def normalizeAddress_def normalizeAddressForTenant_def addUser_def
  normalizeUserDirectory_def aliasDestination_def normalizeAliasDestinations_def nth_js_def
  alias_value_def addAlias_def normalizeAliases_def mailDirectory_def createMailPolicy_def
  normalizeRecipients_def resolveRecipients_def assertMessageSize_def authorizeInbound_def
  consumeSubmissionRate_def is_internal_def submission_checks_def authorizeSubmission_def
  space_or_colon_def space_or_semicolon_def forwarding_def utf8_length_def word_char_def sieve_actions_def validateSieve_def mail_audit_of_def

subsection \<open>Normal addresses\<close>

definition normal_address :: "string \<Rightarrow> bool" where
  "normal_address a \<longleftrightarrow> (\<exists>l d. a = l @ ''@'' @ d \<and> local_part_ok l \<and> lower l = l \<and> domain_ok d \<and> lower d = d)"

lemma is_alnum_lower_char [simp]: "is_alnum c \<Longrightarrow> is_alnum (lower_char c)"
  by (auto simp: is_alnum_def is_lower_def is_upper_def is_digit_def lower_char_def ccode_def Let_def)

lemma local_char_lower [simp]: "local_char c \<Longrightarrow> local_char (lower_char c)"
proof (unfold local_char_def, elim disjE)
  assume "is_alnum c" then show "is_alnum (lower_char c) \<or> one_of ''.!#$%&*+/=?^_`{|}~-'' (lower_char c) \<or> ccode (lower_char c) = 39"
    by simp
next
  assume c: "one_of ''.!#$%&*+/=?^_`{|}~-'' c"
  then have "lower_char c = c"
    by (auto simp: one_of_def lower_char_def ccode_def Let_def)
  with c show "is_alnum (lower_char c) \<or> one_of ''.!#$%&*+/=?^_`{|}~-'' (lower_char c) \<or> ccode (lower_char c) = 39"
    by simp
next
  assume c: "ccode c = 39"
  then have "lower_char c = c" by (simp add: lower_char_def Let_def)
  with c show "is_alnum (lower_char c) \<or> one_of ''.!#$%&*+/=?^_`{|}~-'' (lower_char c) \<or> ccode (lower_char c) = 39"
    by simp
qed

lemma local_part_ok_lower: "local_part_ok l \<Longrightarrow> local_part_ok (lower l)"
  by (auto simp: local_part_ok_def run_of_def lower_def list_all_iff)

lemma local_char_plain: "local_char c \<Longrightarrow> \<not> at_sign c \<and> \<not> is_space c"
  by (auto simp: local_char_def at_sign_def is_space_def is_alnum_def is_lower_def is_upper_def
      is_digit_def one_of_def ccode_def)

lemma set_split_by: "c \<in> set s \<Longrightarrow> p c \<or> (\<exists>w\<in>set (split_by p s). c \<in> set w)"
proof (induction p s rule: split_by.induct)
  case (1 p)
  then show ?case by simp
next
  case (2 p x xs)
  show ?case
  proof (cases "p x")
    case True
    with 2 show ?thesis by auto
  next
    case False
    obtain w ws where w: "split_by p xs = w # ws" by (cases "split_by p xs") auto
    with False 2 show ?thesis by fastforce
  qed
qed

lemma domain_char: "domain_ok d \<Longrightarrow> c \<in> set d \<Longrightarrow> \<not> at_sign c \<and> \<not> is_space c"
proof -
  assume d: "domain_ok d" "c \<in> set d"
  have dot: "\<not> at_sign (CHR ''.'') \<and> \<not> is_space (CHR ''.'')" "\<not> at_sign (CHR ''-'') \<and> \<not> is_space (CHR ''-'')"
    by (simp_all add: at_sign_def is_space_def ccode_def)
  from set_split_by [OF d(2), of "\<lambda>c. c = CHR ''.''"] show ?thesis
  proof
    assume "c = CHR ''.''" then show ?thesis using dot by simp
  next
    assume "\<exists>w\<in>set (split_by (\<lambda>c. c = CHR ''.'') d). c \<in> set w"
    then obtain w where "domain_label_ok w" "c \<in> set w" using d(1) by (auto simp: domain_ok_def list_all_iff)
    then have "is_alnum c \<or> c = CHR ''-''" by (auto simp: domain_label_ok_def run_of_def list_all_iff)
    then show ?thesis using dot local_char_plain [of c] by (auto simp: local_char_def)
  qed
qed

lemma at_parts:
  assumes "\<And>c. c \<in> set d \<Longrightarrow> \<not> at_sign c"
  shows "before_at (l @ ''@'' @ d) = l" "after_at (l @ ''@'' @ d) = d"
proof -
  have d: "\<And>c. c \<in> set (rev d) \<Longrightarrow> \<not> at_sign c" and at: "at_sign (CHR ''@'')"
    using assms by (auto simp: at_sign_def)
  have "takeWhile (\<lambda>c. \<not> at_sign c) (rev d @ CHR ''@'' # rev l) = rev d"
    "dropWhile (\<lambda>c. \<not> at_sign c) (rev d @ CHR ''@'' # rev l) = CHR ''@'' # rev l"
    by (subst takeWhile_append2, use d at in auto) (subst dropWhile_append2, use d at in auto)
  then show "before_at (l @ ''@'' @ d) = l" "after_at (l @ ''@'' @ d) = d"
    by (simp_all add: before_at_def after_at_def)
qed

lemma trim_id:
  assumes "s \<noteq> []" "\<not> is_space (hd s)" "\<not> is_space (last s)" shows "trim s = s"
proof -
  have "dropWhile is_space s = s" using assms by (cases s) auto
  moreover have "dropWhile is_space (rev s) = rev s"
    using assms by (cases "rev s") (auto simp: hd_rev [symmetric])
  ultimately show ?thesis by (simp add: trim_def)
qed

lemma normalizeAddress_normal:
  assumes "normalizeAddress v = Inr a" shows "normal_address a"
proof -
  from assms obtain l d where "local_part_ok l" "domain_ok (lower d)" "a = lower l @ ''@'' @ lower d"
    by (auto simp: normalizeAddress_def Let_def guard_iff)
  then show ?thesis unfolding normal_address_def
    using local_part_ok_lower lower_idem by blast
qed

lemma normalizeAddress_id:
  assumes "normal_address a" shows "normalizeAddress (JStr a) = Inr a"
proof -
  from assms obtain l d where a: "a = l @ ''@'' @ d" and l: "local_part_ok l" "lower l = l"
    and d: "domain_ok d" "lower d = d" unfolding normal_address_def by blast
  have ne: "l \<noteq> []" "d \<noteq> []" using l(1) d(1) by (auto simp: local_part_ok_def run_of_def domain_ok_def)
  have "\<not> is_space (hd a)" "\<not> is_space (last a)"
    using ne l(1) d(1) domain_char [of d "last d"] local_char_plain [of "hd l"]
    by (auto simp: a local_part_ok_def run_of_def list_all_iff)
  then have "trim a = a" using ne by (intro trim_id) (simp_all add: a)
  moreover have "before_at a = l" "after_at a = d"
    unfolding a using at_parts [of d l] domain_char [OF d(1)] by auto
  moreover have "list_ex at_sign a" by (simp add: a at_sign_def)
  ultimately show ?thesis using ne l d by (simp add: normalizeAddress_def requiredString_def Let_def need_str_def a)
qed

subsection \<open>Directories\<close>

definition directory_ok :: "string \<Rightarrow> user_directory \<Rightarrow> bool" where
  "directory_ok domain d \<longleftrightarrow> (\<forall>a u. map_of (ud_byAddress d) a = Some u \<longleftrightarrow> map_of (ud_byId d) u = Some a)
     \<and> (\<forall>a u. map_of (ud_byAddress d) a = Some u \<longrightarrow> normal_address a \<and> after_at a = domain)"

definition aliases_ok :: "string \<Rightarrow> user_directory \<Rightarrow> alias_map \<Rightarrow> bool" where
  "aliases_ok domain d m \<longleftrightarrow> (\<forall>a ds. map_of m a = Some ds \<longrightarrow> map_of (ud_byAddress d) a = None
     \<and> after_at a = domain \<and> ds \<noteq> [] \<and> distinct ds \<and> (\<forall>x\<in>set ds. map_of (ud_byAddress d) x \<noteq> None))"

lemma normalizeAddressForTenant_Inr:
  "normalizeAddressForTenant v domain = Inr a \<Longrightarrow> normal_address a \<and> after_at a = domain"
  by (auto simp: normalizeAddressForTenant_def guard_iff dest: normalizeAddress_normal)

lemma addUser_ok:
  assumes "addUser domain d v = Inr d1" "directory_ok domain d" shows "directory_ok domain d1"
proof -
  from assms(1) obtain u a where a: "normalizeAddressForTenant (js_or_else (jget v ''address'') (jget v ''mailAddress'')) domain = Inr a"
    and d1: "d1 = d \<or> map_of (ud_byAddress d) a = None \<and> map_of (ud_byId d) u = None \<and>
       d1 = \<lparr>ud_byAddress = AList.update a u (ud_byAddress d), ud_byId = AList.update u a (ud_byId d)\<rparr>"
    unfolding addUser_def by (auto split: if_split_asm)
  note na = normalizeAddressForTenant_Inr [OF a]
  from d1 show ?thesis
  proof
    assume "d1 = d" with assms(2) show ?thesis by simp
  next
    assume new: "map_of (ud_byAddress d) a = None \<and> map_of (ud_byId d) u = None \<and>
       d1 = \<lparr>ud_byAddress = AList.update a u (ud_byAddress d), ud_byId = AList.update u a (ud_byId d)\<rparr>"
    note old = assms(2) [unfolded directory_ok_def, THEN conjunct1]
    note oldn = assms(2) [unfolded directory_ok_def, THEN conjunct2]
    have "map_of (ud_byAddress d) b \<noteq> Some u" "map_of (ud_byId d) w \<noteq> Some a" for b w
      using old new by (metis option.distinct(1))+
    with new have "map_of (ud_byAddress d1) b = Some w \<longleftrightarrow> map_of (ud_byId d1) w = Some b" for b w
      using old by (cases "b = a"; cases "w = u") simp_all
    moreover have "map_of (ud_byAddress d1) b = Some w \<Longrightarrow> normal_address b \<and> after_at b = domain" for b w
      using new oldn na by (cases "b = a") simp_all
    ultimately show ?thesis unfolding directory_ok_def by blast
  qed
qed

lemma addUsers_ok: "addUsers domain d vs = Inr d1 \<Longrightarrow> directory_ok domain d \<Longrightarrow> directory_ok domain d1"
proof (induction domain d vs rule: addUsers.induct)
  case (2 domain d v vs)
  then obtain d2 where "addUser domain d v = Inr d2" "addUsers domain d2 vs = Inr d1" by auto
  with 2 addUser_ok show ?case by blast
qed simp

lemma normalizeAliasDestinations_ok:
  assumes "normalizeAliasDestinations ds t d domain = Inr as"
  shows "as \<noteq> [] \<and> distinct as \<and> (\<forall>x\<in>set as. map_of (ud_byAddress d) x \<noteq> None)"
proof -
  from assms obtain vs bs where vs: "vs \<noteq> []" "mapE (aliasDestination d domain) vs = Inr bs"
    and as: "as = dedup bs" "\<not> list_ex (\<lambda>a. map_of (ud_byAddress d) a = None) (dedup bs)"
    by (auto simp: normalizeAliasDestinations_def Let_def guard_iff)
  have "bs \<noteq> []" using vs mapE_length [OF vs(2)] by auto
  with as show ?thesis by (auto simp: list_ex_iff)
qed

lemma addAlias_ok:
  assumes "addAlias d domain m v = Inr m1" "aliases_ok domain d m" shows "aliases_ok domain d m1"
proof -
  obtain address destinations target where av: "alias_value v = (address, destinations, target)"
    by (cases "alias_value v")
  with assms(1) obtain a ds where a: "normalizeAddressForTenant address domain = Inr a"
    and new: "map_of (ud_byAddress d) a = None"
    and ds: "normalizeAliasDestinations destinations target d domain = Inr ds" and m1: "m1 = AList.update a ds m"
    by (auto simp: addAlias_def guard_iff)
  show ?thesis
    unfolding aliases_ok_def
  proof (intro allI impI)
    fix b es assume b: "map_of m1 b = Some es"
    show "map_of (ud_byAddress d) b = None \<and> after_at b = domain \<and> es \<noteq> [] \<and> distinct es
      \<and> (\<forall>x\<in>set es. map_of (ud_byAddress d) x \<noteq> None)"
    proof (cases "b = a")
      case True
      with b m1 have "es = ds" by simp
      with True new normalizeAddressForTenant_Inr [OF a] normalizeAliasDestinations_ok [OF ds]
      show ?thesis by blast
    next
      case False
      with b m1 have "map_of m b = Some es" by simp
      with assms(2) show ?thesis unfolding aliases_ok_def by blast
    qed
  qed
qed

lemma addAliases_ok: "addAliases d domain m vs = Inr m1 \<Longrightarrow> aliases_ok domain d m \<Longrightarrow> aliases_ok domain d m1"
proof (induction d domain m vs rule: addAliases.induct)
  case (2 d domain m v vs)
  then obtain m2 where "addAlias d domain m v = Inr m2" "addAliases d domain m2 vs = Inr m1" by auto
  with 2 addAlias_ok show ?case by blast
qed simp

lemma mailDirectory_ok:
  assumes "mailDirectory p us als = Inr (d, m)"
  shows "directory_ok (mp_domain p) d" "aliases_ok (mp_domain p) d m"
proof -
  from assms obtain vs where us: "addUsers (mp_domain p) \<lparr>ud_byAddress = [], ud_byId = []\<rparr>
      (case us of None \<Rightarrow> [] | Some vs \<Rightarrow> vs) = Inr d"
    and als: "addAliases d (mp_domain p) [] vs = Inr m"
    unfolding mailDirectory_def normalizeUserDirectory_def normalizeAliases_def by (simp) blast
  show "directory_ok (mp_domain p) d"
    by (rule addUsers_ok [OF us]) (simp add: directory_ok_def)
  show "aliases_ok (mp_domain p) d m"
    by (rule addAliases_ok [OF als]) (simp add: aliases_ok_def)
qed

subsection \<open>Resolution\<close>

lemma mapE_alias_targets:
  assumes "mapE (\<lambda>x. case map_of m x of None \<Rightarrow> Inl e | Some u \<Rightarrow> Inr \<lparr>rr_address = x, rr_userId = u, rr_alias = al\<rparr>) ds = Inr rs"
  shows "\<forall>r\<in>set rs. map_of m (rr_address r) = Some (rr_userId r) \<and> rr_address r \<in> set ds"
proof
  fix r assume "r \<in> set rs"
  from mapE_set [OF assms this] show "map_of m (rr_address r) = Some (rr_userId r) \<and> rr_address r \<in> set ds"
    by (auto split: option.split_asm)
qed

lemma resolve_loop_resolved:
  "resolve_loop domain d m as = Inr (ok, no) \<Longrightarrow> \<forall>r\<in>set ok. map_of (ud_byAddress d) (rr_address r) = Some (rr_userId r)"
proof (induction domain d m as arbitrary: ok no rule: resolve_loop.induct)
  case (2 domain d m a as)
  show ?case
  proof (cases "after_at a = domain \<and> map_of (ud_byAddress d) a = None")
    case False
    with 2 show ?thesis by (auto split: if_split_asm option.split_asm)
  next
    case True
    show ?thesis
    proof (cases "map_of m a")
      case None
      with True 2 show ?thesis by auto
    next
      case (Some ds)
      with True "2.prems" obtain rs ok1 where
        rs: "mapE (\<lambda>x. case map_of (ud_byAddress d) x of None \<Rightarrow> Inl (policyError ''INVALID_ALIAS'')
          | Some u \<Rightarrow> Inr \<lparr>rr_address = x, rr_userId = u, rr_alias = Some a\<rparr>) ds = Inr rs"
        and ok1: "resolve_loop domain d m as = Inr (ok1, no)" "ok = rs @ ok1" by auto
      have "\<forall>r\<in>set ok1. map_of (ud_byAddress d) (rr_address r) = Some (rr_userId r)"
        by (rule "2.IH"(3) [OF _ _ Some ok1(1)]) (use True in simp_all)
      with mapE_alias_targets [OF rs] ok1 show ?thesis by auto
    qed
  qed
qed simp

lemma resolve_loop_requested:
  "resolve_loop domain d m as = Inr (ok, []) \<Longrightarrow>
   \<forall>a\<in>set as. after_at a = domain \<and> (map_of (ud_byAddress d) a \<noteq> None \<or> map_of m a \<noteq> None)"
proof (induction domain d m as arbitrary: ok rule: resolve_loop.induct)
  case (2 domain d m a as)
  show ?case
  proof (cases "after_at a = domain")
    case False
    with "2.prems" show ?thesis by auto
  next
    case dom: True
    show ?thesis
    proof (cases "map_of (ud_byAddress d) a")
      case (Some u)
      with dom "2.prems" obtain ok1 where "resolve_loop domain d m as = Inr (ok1, [])" by auto
      from "2.IH"(4) [OF _ Some this] dom Some show ?thesis by simp
    next
      case none: None
      show ?thesis
      proof (cases "map_of m a")
        case None
        with none dom "2.prems" show ?thesis by auto
      next
        case (Some ds)
        with none dom "2.prems" obtain rs ok1 where
          rs: "mapE (\<lambda>x. case map_of (ud_byAddress d) x of None \<Rightarrow> Inl (policyError ''INVALID_ALIAS'')
            | Some u \<Rightarrow> Inr \<lparr>rr_address = x, rr_userId = u, rr_alias = Some a\<rparr>) ds = Inr rs"
          and ok1: "resolve_loop domain d m as = Inr (ok1, [])" by auto
        from "2.IH"(3) [OF _ none Some ok1] dom Some show ?thesis by simp
      qed
    qed
  qed
qed simp

subsection \<open>What is in the directory, and what is resolved\<close>

text \<open>An entry of the given users or aliases, what it puts into the directory, and where a requested address leads.\<close>

definition given_users :: "mail_envelope \<Rightarrow> jsval list" where
  "given_users m = (case me_users m of None \<Rightarrow> [] | Some vs \<Rightarrow> vs)"

definition given_aliases :: "mail_envelope \<Rightarrow> jsval list" where
  "given_aliases m = (case js_or_else (me_aliases m) (JArr []) of JArr vs \<Rightarrow> vs | _ \<Rightarrow> [])"

definition mailbox_entry :: "string \<Rightarrow> jsval \<Rightarrow> string \<Rightarrow> string \<Rightarrow> bool" where
  "mailbox_entry domain v a u \<longleftrightarrow> jget v ''userId'' = JStr u \<and> u \<noteq> [] \<and> (jget v ''status'' = JUndef \<or> jget v ''status'' = JStr ''active'')
     \<and> normalizeAddress (js_or_else (jget v ''address'') (jget v ''mailAddress'')) = Inr a \<and> after_at a = domain"

definition alias_entry :: "user_directory \<Rightarrow> string \<Rightarrow> jsval \<Rightarrow> string \<Rightarrow> string list \<Rightarrow> bool" where
  "alias_entry d domain v a ds \<longleftrightarrow> (case alias_value v of (address, destinations, target) \<Rightarrow>
     normalizeAddress address = Inr a \<and> after_at a = domain \<and> normalizeAliasDestinations destinations target d domain = Inr ds)"

definition recipient_targets :: "user_directory \<Rightarrow> alias_map \<Rightarrow> string \<Rightarrow> (string \<times> string option) list" where
  "recipient_targets d m a = (if map_of (ud_byAddress d) a \<noteq> None then [(a, None)]
     else (case map_of m a of None \<Rightarrow> [] | Some ds \<Rightarrow> map (\<lambda>x. (x, Some a)) ds))"

lemma forTenant_iff: "normalizeAddressForTenant v domain = Inr a \<longleftrightarrow> normalizeAddress v = Inr a \<and> after_at a = domain"
  by (auto simp: normalizeAddressForTenant_def)

lemma addUser_entry:
  assumes "addUser domain d v = Inr d1"
  shows "map_of (ud_byAddress d1) a = Some u \<longleftrightarrow> map_of (ud_byAddress d) a = Some u \<or> mailbox_entry domain v a u"
proof -
  from assms obtain w b where w: "jget v ''userId'' = JStr w" "w \<noteq> []"
    and b: "normalizeAddress (js_or_else (jget v ''address'') (jget v ''mailAddress'')) = Inr b" "after_at b = domain"
    and d1: "if jget v ''status'' \<noteq> JUndef \<and> jget v ''status'' \<noteq> JStr ''active'' then d1 = d
      else map_of (ud_byAddress d) b = None \<and> d1 = \<lparr>ud_byAddress = AList.update b w (ud_byAddress d), ud_byId = AList.update w b (ud_byId d)\<rparr>"
    unfolding addUser_def by (auto simp: requiredString_def forTenant_iff split: if_split_asm)
  have "mailbox_entry domain v a u \<longleftrightarrow> (jget v ''status'' = JUndef \<or> jget v ''status'' = JStr ''active'') \<and> a = b \<and> u = w"
    using w b by (auto simp: mailbox_entry_def)
  with d1 show ?thesis by (auto split: if_splits)
qed

lemma addUsers_entries:
  "addUsers domain d vs = Inr d1 \<Longrightarrow>
   map_of (ud_byAddress d1) a = Some u \<longleftrightarrow> map_of (ud_byAddress d) a = Some u \<or> (\<exists>v\<in>set vs. mailbox_entry domain v a u)"
proof (induction domain d vs rule: addUsers.induct)
  case (2 domain d v vs)
  then obtain d2 where v: "addUser domain d v = Inr d2" and vs: "addUsers domain d2 vs = Inr d1" by auto
  from "2.IH" [OF vs] addUser_entry [OF v, of a u] show ?case by auto
qed simp

lemma addAlias_entry:
  assumes "addAlias d domain m v = Inr m1"
  shows "map_of m1 a = Some ds \<longleftrightarrow> map_of m a = Some ds \<or> alias_entry d domain v a ds"
proof -
  obtain address destinations target where av: "alias_value v = (address, destinations, target)" by (cases "alias_value v")
  with assms obtain b es where b: "normalizeAddress address = Inr b" "after_at b = domain" "map_of m b = None"
    and es: "normalizeAliasDestinations destinations target d domain = Inr es" and m1: "m1 = AList.update b es m"
    by (auto simp: addAlias_def guard_iff forTenant_iff)
  then have "alias_entry d domain v a ds \<longleftrightarrow> a = b \<and> ds = es" by (auto simp: alias_entry_def av)
  with b(3) show ?thesis by (auto simp: m1)
qed

lemma addAliases_entries:
  "addAliases d domain m vs = Inr m1 \<Longrightarrow> map_of m1 a = Some ds \<longleftrightarrow> map_of m a = Some ds \<or> (\<exists>v\<in>set vs. alias_entry d domain v a ds)"
proof (induction d domain m vs rule: addAliases.induct)
  case (2 d domain m v vs)
  then obtain m2 where v: "addAlias d domain m v = Inr m2" and vs: "addAliases d domain m2 vs = Inr m1" by auto
  from "2.IH" [OF vs] addAlias_entry [OF v, of a ds] show ?case by auto
qed simp

lemma mailDirectory_entries:
  assumes "mailDirectory p (me_users m) (me_aliases m) = Inr (d, al)"
  shows "\<forall>a u. map_of (ud_byAddress d) a = Some u \<longleftrightarrow> (\<exists>v\<in>set (given_users m). mailbox_entry (mp_domain p) v a u)"
    and "\<forall>a ds. map_of al a = Some ds \<longleftrightarrow> (\<exists>v\<in>set (given_aliases m). alias_entry d (mp_domain p) v a ds)"
proof -
  from assms obtain vs where us: "addUsers (mp_domain p) \<lparr>ud_byAddress = [], ud_byId = []\<rparr> (given_users m) = Inr d"
    and vs: "js_or_else (me_aliases m) (JArr []) = JArr vs" and als: "addAliases d (mp_domain p) [] vs = Inr al"
    unfolding mailDirectory_def normalizeUserDirectory_def normalizeAliases_def given_users_def by auto
  show "\<forall>a u. map_of (ud_byAddress d) a = Some u \<longleftrightarrow> (\<exists>v\<in>set (given_users m). mailbox_entry (mp_domain p) v a u)"
    using addUsers_entries [OF us] by simp
  show "\<forall>a ds. map_of al a = Some ds \<longleftrightarrow> (\<exists>v\<in>set (given_aliases m). alias_entry d (mp_domain p) v a ds)"
    using addAliases_entries [OF als] by (simp add: given_aliases_def vs)
qed

lemma mapE_alias_shape:
  "mapE (\<lambda>x. case map_of m x of None \<Rightarrow> Inl e | Some u \<Rightarrow> Inr \<lparr>rr_address = x, rr_userId = u, rr_alias = al\<rparr>) ds = Inr rs
   \<Longrightarrow> map (\<lambda>r. (rr_address r, rr_alias r)) rs = map (\<lambda>x. (x, al)) ds"
  by (induction ds arbitrary: rs) (auto split: option.split_asm)

lemma resolve_loop_targets:
  "resolve_loop domain d m as = Inr (ok, []) \<Longrightarrow> map (\<lambda>r. (rr_address r, rr_alias r)) ok = concat (map (recipient_targets d m) as)"
proof (induction domain d m as arbitrary: ok rule: resolve_loop.induct)
  case (2 domain d m a as)
  have dom: "after_at a = domain" using "2.prems" by (auto split: if_split_asm)
  show ?case
  proof (cases "map_of (ud_byAddress d) a")
    case (Some u)
    with dom "2.prems" obtain ok1 where ok: "resolve_loop domain d m as = Inr (ok1, [])" "ok = \<lparr>rr_address = a, rr_userId = u, rr_alias = None\<rparr> # ok1"
      by auto
    from "2.IH"(4) [OF _ Some ok(1)] dom Some ok(2) show ?thesis by (simp add: recipient_targets_def)
  next
    case none: None
    then obtain ds where ds: "map_of m a = Some ds" using dom "2.prems" by (cases "map_of m a") auto
    with none dom "2.prems" obtain rs ok1 where
      rs: "mapE (\<lambda>x. case map_of (ud_byAddress d) x of None \<Rightarrow> Inl (policyError ''INVALID_ALIAS'')
        | Some u \<Rightarrow> Inr \<lparr>rr_address = x, rr_userId = u, rr_alias = Some a\<rparr>) ds = Inr rs"
      and ok: "resolve_loop domain d m as = Inr (ok1, [])" "ok = rs @ ok1" by auto
    from "2.IH"(3) [OF _ none ds ok(1)] dom mapE_alias_shape [OF rs] ok(2) none ds show ?thesis by (simp add: recipient_targets_def)
  qed
qed simp

lemma resolveRecipients_InrE:
  assumes "resolveRecipients p rs us als = Inr r"
  obtains d m where "mailDirectory p us als = Inr (d, m)" "normalizeRecipients rs = Inr (rs_requested r)"
    "length (rs_requested r) \<le> mp_maxRecipients p"
    "resolve_loop (mp_domain p) d m (rs_requested r) = Inr (rs_resolved r, rs_rejected r)"
    "rs_accepted r \<longleftrightarrow> rs_rejected r = [] \<and> rs_resolved r \<noteq> []"
  using assms unfolding resolveRecipients_def by (auto simp: guard_iff not_less split: prod.split_asm)

lemma normalizeRecipients_Inr:
  assumes "normalizeRecipients v = Inr as" shows "as \<noteq> [] \<and> distinct as \<and> (\<forall>a\<in>set as. normal_address a)"
proof -
  from assms obtain vs bs where vs: "vs \<noteq> []" "mapE normalizeAddress vs = Inr bs" and as: "as = dedup bs"
    by (auto simp: normalizeRecipients_def)
  have "bs \<noteq> []" using vs mapE_length [OF vs(2)] by auto
  moreover have "\<forall>a\<in>set bs. normal_address a" using mapE_set [OF vs(2)] normalizeAddress_normal by blast
  ultimately show ?thesis by (simp add: as)
qed

subsection \<open>Properties\<close>

text \<open>Normalising an address is a projection onto the normal addresses: the result is lower case, has
  a valid local part and a valid domain around its only \<open>@\<close>, and normalising it again changes nothing.\<close>

theorem normalizeAddress_idempotent:
  assumes "normalizeAddress v = Inr a"
  shows "normalizeAddress (JStr a) = Inr a \<and> (\<exists>l d. a = l @ ''@'' @ d \<and> local_part_ok l \<and> domain_ok d
     \<and> before_at a = l \<and> after_at a = d \<and> lower a = a)"
proof
  have n: "normal_address a" using assms by (rule normalizeAddress_normal)
  then show "normalizeAddress (JStr a) = Inr a" by (rule normalizeAddress_id)
  from n obtain l d where a: "a = l @ ''@'' @ d" "local_part_ok l" "lower l = l" "domain_ok d" "lower d = d"
    unfolding normal_address_def by blast
  have "lower (CHR ''@'' # d) = CHR ''@'' # lower d" by (simp add: lower_def lower_char_def ccode_def)
  then have "lower a = a" using a by (simp add: lower_def)
  moreover have "before_at a = l" "after_at a = d"
    unfolding a(1) using at_parts [of d l] domain_char [OF a(4)] by auto
  ultimately show "\<exists>l d. a = l @ ''@'' @ d \<and> local_part_ok l \<and> domain_ok d
     \<and> before_at a = l \<and> after_at a = d \<and> lower a = a" using a by blast
qed

lemma normalizeAddress_idempotent_witness:
  "normalizeAddress (JStr ''  Ada.L@T1.Test '') = Inr ''ada.l@t1.test''
   \<and> normalizeAddress (JStr ''ada.l@t1.test'') = Inr ''ada.l@t1.test''"
proof -
  have "normalizeAddress (JStr ''  Ada.L@T1.Test '') = Inr ''ada.l@t1.test''" by code_simp
  from this normalizeAddress_idempotent [OF this] show ?thesis by blast
qed

text \<open>C12  Inbound mail has no catch-all and reaches only who was asked for: when authorizeInbound accepts, the context is of the policy's tenant; the requested addresses are the normalised recipients of the envelope, within the limit, each a mailbox or an alias of the tenant's own domain; the resolved recipients are, in order, each requested mailbox itself and the destinations of each requested alias, every one with the id of its user. The mailboxes are exactly the active entries of the given users in that domain, and the aliases exactly the given ones.\<close>

theorem inbound_recipients_are_tenant_mailboxes:
  assumes "authorizeInbound p ctx m = Inr d"
  shows "(\<exists>c. assertTenantContext ctx = Inr c \<and> tc_tenantId c = mp_tenantId p)
    \<and> normal_address (id_sender d)
    \<and> (\<exists>vs as. me_recipients m = JArr vs \<and> mapE normalizeAddress vs = Inr as \<and> rs_requested (id_resolution d) = dedup as)
    \<and> (\<exists>ud al. mailDirectory p (me_users m) (me_aliases m) = Inr (ud, al)
       \<and> (\<forall>a u. map_of (ud_byAddress ud) a = Some u \<longleftrightarrow> (\<exists>v\<in>set (given_users m). mailbox_entry (mp_domain p) v a u))
       \<and> (\<forall>a ds. map_of al a = Some ds \<longleftrightarrow> (\<exists>v\<in>set (given_aliases m). alias_entry ud (mp_domain p) v a ds))
       \<and> (\<forall>a\<in>set (rs_requested (id_resolution d)). after_at a = mp_domain p
            \<and> (map_of (ud_byAddress ud) a \<noteq> None \<or> map_of al a \<noteq> None))
       \<and> map (\<lambda>r. (rr_address r, rr_alias r)) (rs_resolved (id_resolution d))
           = concat (map (recipient_targets ud al) (rs_requested (id_resolution d)))
       \<and> (\<forall>r\<in>set (rs_resolved (id_resolution d)). map_of (ud_byAddress ud) (rr_address r) = Some (rr_userId r)
            \<and> map_of (ud_byId ud) (rr_userId r) = Some (rr_address r) \<and> after_at (rr_address r) = mp_domain p))
    \<and> rs_resolved (id_resolution d) \<noteq> [] \<and> length (rs_requested (id_resolution d)) \<le> mp_maxRecipients p"
proof -
  let ?r = "id_resolution d"
  from assms obtain c where c: "assertTenantContext ctx = Inr c" "tc_tenantId c = mp_tenantId p"
    and s: "normalizeAddress (me_sender m) = Inr (id_sender d)"
    and r: "resolveRecipients p (me_recipients m) (me_users m) (me_aliases m) = Inr ?r" and acc: "rs_accepted ?r"
    unfolding authorizeInbound_def by (auto simp: guard_iff)
  from r show ?thesis
  proof (rule resolveRecipients_InrE)
    fix ud al
    assume dir: "mailDirectory p (me_users m) (me_aliases m) = Inr (ud, al)"
      and req: "normalizeRecipients (me_recipients m) = Inr (rs_requested ?r)"
      and len: "length (rs_requested ?r) \<le> mp_maxRecipients p"
      and loop: "resolve_loop (mp_domain p) ud al (rs_requested ?r) = Inr (rs_resolved ?r, rs_rejected ?r)"
      and ok: "rs_accepted ?r \<longleftrightarrow> rs_rejected ?r = [] \<and> rs_resolved ?r \<noteq> []"
    have accepted: "rs_rejected ?r = []" "rs_resolved ?r \<noteq> []" using acc ok by simp_all
    note dir_ok = mailDirectory_ok(1) [OF dir, unfolded directory_ok_def]
    have targets: "\<forall>x\<in>set (rs_resolved ?r). map_of (ud_byAddress ud) (rr_address x) = Some (rr_userId x)
            \<and> map_of (ud_byId ud) (rr_userId x) = Some (rr_address x) \<and> after_at (rr_address x) = mp_domain p"
      using resolve_loop_resolved [OF loop] dir_ok by blast
    have asked: "\<exists>vs as. me_recipients m = JArr vs \<and> mapE normalizeAddress vs = Inr as \<and> rs_requested ?r = dedup as"
      using req by (auto simp: normalizeRecipients_def)
    show ?thesis
      by (intro conjI exI [of _ ud] exI [of _ al] exI [of _ c] c asked dir targets accepted(2) len normalizeAddress_normal [OF s]
        mailDirectory_entries [OF dir] resolve_loop_requested [OF loop [unfolded accepted(1)]] resolve_loop_targets [OF loop [unfolded accepted(1)]])
  qed
qed

definition example_policy :: mail_policy where
  "example_policy = \<lparr>mp_tenantId = ''t1'', mp_domain = ''t1.test'', mp_maxMessageBytes = 1000,
     mp_maxRecipients = 10, mp_maxPerMinute = 2\<rparr>"

definition example_users :: "jsval list" where
  "example_users = [JObj [(''userId'', JStr ''ada''), (''address'', JStr ''ada@t1.test'')],
     JObj [(''userId'', JStr ''bob''), (''address'', JStr ''bob@t1.test'')]]"

definition example_envelope :: "string list \<Rightarrow> mail_envelope" where
  "example_envelope rs = \<lparr>me_sender = JStr ''ada@t1.test'', me_envelopeFrom = JUndef,
     me_recipients = JArr (map JStr rs), me_sizeBytes = JInt 10, me_authenticatedUserId = JStr ''ada'',
     me_authenticated = JBool True, me_messageRef = JStr ''ref'', me_users = Some example_users,
     me_aliases = JArr [JObj [(''address'', JStr ''all@t1.test''), (''destinations'', JArr [JStr ''ada'', JStr ''bob''])]]\<rparr>"

definition example_mail_ctx :: jsval where
  "example_mail_ctx = context_js \<lparr>tc_tenantId = ''t1'', tc_domain = ''t1.test'', tc_actorId = Some ''ada'', tc_role = UserRole\<rparr>"

lemma inbound_recipients_are_tenant_mailboxes_witness:
  "\<exists>d. authorizeInbound example_policy example_mail_ctx (example_envelope [''all@t1.test'']) = Inr d
     \<and> (\<forall>r\<in>set (rs_resolved (id_resolution d)). after_at (rr_address r) = ''t1.test'')"
proof -
  have "is_ok (authorizeInbound example_policy example_mail_ctx (example_envelope [''all@t1.test'']))" by code_simp
  then obtain d where d: "authorizeInbound example_policy example_mail_ctx (example_envelope [''all@t1.test'']) = Inr d"
    by (auto simp: is_ok_iff)
  from inbound_recipients_are_tenant_mailboxes [OF d] d show ?thesis by (auto simp: example_policy_def)
qed

text \<open>No open relay and no forged sender: a submission is accepted only from an authenticated user of
  the policy's tenant (who is the actor, when the context is a user's), with a sender address of the
  tenant's domain that is that user's own mailbox or an alias leading to it, and with every internal
  recipient known; each accepted submission is counted once.\<close>

theorem submission_is_owned:
  assumes "authorizeSubmission p now ctx m w = (Inr d, w1)"
  shows "me_authenticated m = JBool True \<and> me_authenticatedUserId m = JStr (sd_userId d)
    \<and> (\<exists>c. assertTenantContext ctx = Inr c \<and> tc_tenantId c = mp_tenantId p
         \<and> (tc_role c = UserRole \<longrightarrow> tc_actorId c = Some (sd_userId d)))
    \<and> after_at (sd_sender d) = mp_domain p
    \<and> (\<exists>ud al. mailDirectory p (me_users m) (me_aliases m) = Inr (ud, al)
         \<and> (map_of (ud_byAddress ud) (sd_sender d) = Some (sd_userId d)
            \<or> (\<exists>as. map_of al (sd_sender d) = Some as \<and> (\<exists>a\<in>set as. map_of (ud_byAddress ud) a = Some (sd_userId d)))))
    \<and> (let r = consumeSubmissionRate p now (sd_userId d) w in ra_allowed (fst r) \<and> w1 = snd r)"
proof -
  from assms obtain u s rs where chk: "submission_checks p ctx m = Inr (u, s, rs)"
    unfolding authorizeSubmission_def by auto
  obtain r w2 where r: "consumeSubmissionRate p now u w = (r, w2)" by (rule prod.exhaust)
  from assms have rest: "ra_allowed r" "w1 = w2" "d = \<lparr>sd_sender = s, sd_requested = rs,
      sd_resolved = filter (is_internal p) rs, sd_external = filter (\<lambda>a. \<not> is_internal p a) rs, sd_userId = u\<rparr>"
    by (simp_all add: authorizeSubmission_def chk r split: if_split_asm)
  have d: "sd_userId d = u" "sd_sender d = s" by (simp_all add: rest(3))
  have rate: "ra_allowed (fst (consumeSubmissionRate p now u w))" "w1 = snd (consumeSubmissionRate p now u w)"
    by (simp_all add: r rest)
  from chk obtain c ud al where "me_authenticatedUserId m = JStr u" "assertTenantContext ctx = Inr c"
    "tc_role c = UserRole \<longrightarrow> tc_actorId c = Some u" "tc_tenantId c = mp_tenantId p"
    "me_authenticated m = JBool True" "after_at s = mp_domain p"
    "mailDirectory p (me_users m) (me_aliases m) = Inr (ud, al)"
    "map_of (ud_byAddress ud) s = Some u \<or> (case map_of al s of None \<Rightarrow> False
        | Some as \<Rightarrow> list_ex (\<lambda>a. map_of (ud_byAddress ud) a = Some u) as)"
    unfolding submission_checks_def requiredString_def by (simp split: prod.split_asm) blast
  with d rate show ?thesis by (auto simp: Let_def list_ex_iff split: option.split_asm)
qed

lemma submission_is_owned_witness:
  "\<exists>d. fst (authorizeSubmission example_policy 5000 example_mail_ctx (example_envelope [''x@y.test'']) []) = Inr d
     \<and> sd_userId d = ''ada''"
proof -
  have "is_ok (fst (authorizeSubmission example_policy 5000 example_mail_ctx (example_envelope [''x@y.test'']) []))"
    by code_simp
  then obtain d w1 where d: "authorizeSubmission example_policy 5000 example_mail_ctx (example_envelope [''x@y.test'']) []
     = (Inr d, w1)" by (metis is_ok_iff surjective_pairing)
  from submission_is_owned [OF d] d show ?thesis by (auto simp: example_envelope_def)
qed

text \<open>A run of the counter of one user, with the times of the calls.\<close>

fun rate_run :: "mail_policy \<Rightarrow> string \<Rightarrow> int list \<Rightarrow> rate_windows \<Rightarrow> bool list \<times> rate_windows" where
  "rate_run p u [] w = ([], w)"
| "rate_run p u (t # ts) w = (let r = consumeSubmissionRate p t u w; rest = rate_run p u ts (snd r)
     in (ra_allowed (fst r) # fst rest, snd rest))"

lemma rate_run_in_window:
  assumes "map_of w u = Some (s, n)" "\<forall>t\<in>set ts. t - s < 60000"
  shows "length (filter (\<lambda>b. b) (fst (rate_run p u ts w))) = min (length ts) (nat (mp_maxPerMinute p - n))"
  using assms
proof (induction ts arbitrary: w n)
  case (Cons t ts)
  show ?case
  proof (cases "mp_maxPerMinute p \<le> n")
    case True
    with Cons Cons.IH [OF Cons.prems(1)] show ?thesis
      by (simp add: consumeSubmissionRate_def Let_def)
  next
    case False
    have "length (filter (\<lambda>b. b) (fst (rate_run p u ts (AList.update u (s, n + 1) w))))
        = min (length ts) (nat (mp_maxPerMinute p - (n + 1)))"
      by (rule Cons.IH) (use Cons.prems in auto)
    with False Cons.prems show ?thesis
      by (auto simp: consumeSubmissionRate_def Let_def)
  qed
qed simp

text \<open>The submission limit is exact: of the submissions a user makes within sixty seconds of the
  first one of a window, exactly the first \<open>maxMessagesPerUserPerMinute\<close> are allowed, however many there
  are and however the counters of the other users stand.\<close>

theorem rate_window_is_exact:
  assumes "map_of w u = None \<or> (\<exists>s n. map_of w u = Some (s, n) \<and> 60000 \<le> t0 - s)"
    and "\<forall>t\<in>set ts. t - t0 < 60000" and "1 \<le> mp_maxPerMinute p"
  shows "length (filter (\<lambda>b. b) (fst (rate_run p u (t0 # ts) w))) = min (Suc (length ts)) (nat (mp_maxPerMinute p))"
proof -
  have c: "consumeSubmissionRate p t0 u w = (\<lparr>ra_allowed = True, ra_remaining = mp_maxPerMinute p - 1,
      ra_retryAfterMs = 0\<rparr>, AList.update u (t0, 1) w)"
    using assms(1) by (auto simp: consumeSubmissionRate_def)
  have "length (filter (\<lambda>b. b) (fst (rate_run p u ts (AList.update u (t0, 1) w)))) = min (length ts) (nat (mp_maxPerMinute p - 1))"
    by (rule rate_run_in_window) (use assms(2) in auto)
  with assms(3) show ?thesis by (simp add: c Let_def)
qed

lemma rate_window_is_exact_witness:
  "length (filter (\<lambda>b. b) (fst (rate_run example_policy ''ada'' [5000, 5001, 6000, 64999] []))) = 2"
  using rate_window_is_exact [of "[]" "''ada''" 5000 "[5001, 6000, 64999]" example_policy]
  by (simp add: example_policy_def del: rate_run.simps)

lemma find_word_skip:
  "list_all (\<lambda>c. \<not> p c) a \<Longrightarrow> find_word p w q False (a @ r) = find_word p w q False r"
  by (induction a) simp_all

text \<open>The check that disables forwarding looks for \<open>redirect\<close> at the start of the script or after white
  space or a colon only, so a redirect written right after the brace of a block is accepted, whatever
  the address it forwards to.\<close>

theorem sieve_redirect_in_block_accepted:
  assumes a: "list_all (\<lambda>c. \<not> is_space c \<and> c \<noteq> CHR '':'') a" and len: "length a \<le> 30000"
  shows "is_ok (validateSieve (JStr (''if true {redirect '' @ [CHR 0x22] @ a @ [CHR 0x22] @ '';}'')))"
proof -
  let ?s = "''if true {redirect '' @ [CHR 0x22] @ a @ [CHR 0x22] @ '';}''"
  have b: "list_all (\<lambda>c. \<not> space_or_colon c) (CHR 0x22 # a @ [CHR 0x22])"
    "list_all (\<lambda>c. \<not> is_space c) (CHR 0x22 # a @ [CHR 0x22])"
    using a by (auto simp: list_all_iff space_or_colon_def is_space_def ccode_def)
  note skip = find_word_skip [OF b(1), where r = "'';}''"] find_word_skip [where p = is_space, OF b(2), where r = "'';}''"]
  have ch: "is_space (CHR '' '')" "space_or_colon (CHR '' '')"
    "list_all (\<lambda>c. \<not> is_space c \<and> \<not> space_or_colon c \<and> lower_char c = c) (CHR 0x22 # ''iftrue{dc;}'')"
    by (simp_all add: is_space_def space_or_colon_def ccode_def lower_char_def)
  have "\<not> find_word space_or_colon ''redirect'' space_or_semicolon True ?s"
    using skip(1) ch by (simp add: starts_with_def lower_def)
  moreover have "\<not> find_word is_space ''forward'' space_or_colon True ?s"
    "\<not> find_word is_space ''forwarding'' space_or_colon True ?s"
    using skip(2) ch by (simp_all add: starts_with_def lower_def)
  ultimately have "\<not> forwarding ?s" by (simp add: forwarding_def)
  moreover have "utf8_length ?s \<le> 65536"
  proof -
    have "utf8_length a \<le> 2 * length a" by (induction a) (auto simp: utf8_length_def)
    with len show ?thesis by (simp add: utf8_length_def ccode_def)
  qed
  ultimately show ?thesis by (simp add: validateSieve_def need_str_def)
qed

lemma sieve_redirect_in_block_accepted_witness:
  "is_ok (validateSieve (JStr (''if true {redirect '' @ [CHR 0x22] @ ''eve@evil.test'' @ [CHR 0x22] @ '';}'')))
   \<and> validateSieve (JStr (''if true { redirect '' @ [CHR 0x22] @ ''eve@evil.test'' @ [CHR 0x22] @ ''; }''))
     = Inl (policyError ''FORWARDING_DISABLED'')"
proof
  show "is_ok (validateSieve (JStr (''if true {redirect '' @ [CHR 0x22] @ ''eve@evil.test'' @ [CHR 0x22] @ '';}'')))"
    by (rule sieve_redirect_in_block_accepted) (simp_all add: is_space_def ccode_def)
  show "validateSieve (JStr (''if true { redirect '' @ [CHR 0x22] @ ''eve@evil.test'' @ [CHR 0x22] @ ''; }''))
     = Inl (policyError ''FORWARDING_DISABLED'')" 
    by (simp add: validateSieve_def need_str_def utf8_length_def forwarding_def starts_with_def
        lower_def lower_char_def is_space_def space_or_colon_def space_or_semicolon_def ccode_def)
qed

end
