(* ===== verification/Mail_Core.thy ===== *)
theory Mail_Core
  imports Quota Mail_Queue Mail_Scanners Imap_Idle Mail_Policy
begin

section \<open>The mail core\<close>

text \<open>
  \<open>src/core/mail/mail-core.ts\<close>: the orchestration of the policy, the scanners, the quota, LMTP, the
  queue and the IDLE broker.  What \<open>createMailCore\<close> is configured with is the record \<open>core_env\<close>; the
  state its collaborators keep is the record \<open>core_state\<close>, with the log of the LMTP calls made so far.
  The scanners and LMTP are external: functions to the value they answer or the error they throw,
  LMTP also of the calls made before.  The quota is an interface with a state of its own type, whose
  contract is the locale \<open>quota_gate\<close>; the clocks of one call are part of the environment.
\<close>

record lmtp_input =
  li_tenantId :: string
  li_userId :: string
  li_address :: string
  li_sizeBytes :: jsval
  li_messageRef :: jsval

record ('q, 'h) core_env =
  ce_policy :: mail_policy
  ce_rspamd :: "jsval \<Rightarrow> jsval res"
  ce_clamav :: "jsval \<Rightarrow> jsval res"
  ce_lmtp :: "lmtp_input list \<Rightarrow> lmtp_input \<Rightarrow> jsval res"
  ce_reserve :: "jsval \<Rightarrow> string \<Rightarrow> jsval \<Rightarrow> 'q \<Rightarrow> bool res \<times> 'q"
  ce_fails :: "'h \<Rightarrow> idle_event \<Rightarrow> err option"
  ce_queueId :: "string option"
  ce_policyClock :: int
  ce_queueClock :: "int option"
  ce_idleClock :: "int option"

record ('q, 'h) core_state =
  co_queue :: mail_queue
  co_idle :: "'h broker"
  co_quota :: 'q
  co_windows :: rate_windows
  co_lmtp :: "lmtp_input list"

datatype scan_status = SAccepted | SRejected | SQuarantined | SDeferred

record scan_result =
  sr_status :: scan_status
  sr_reason :: string

record core_result =
  cr_status :: string
  cr_reason :: "string option"
  cr_delivered :: "string list option"
  cr_queue :: "public_entry option"
  cr_audit :: mail_audit

definition coreError :: "string \<Rightarrow> err" where
  "coreError code = Err MailCoreErr code 0"

subsection \<open>Scanning\<close>

definition messageMetadata :: "mail_envelope \<Rightarrow> jsval" where
  "messageMetadata m = JObj [(''sender'', me_sender m), (''recipients'', me_recipients m),
     (''sizeBytes'', js_or_else (me_sizeBytes m) (JInt 0)), (''messageRef'', js_or_else (me_messageRef m) JNull)]"

definition scan :: "('q, 'h) core_env \<Rightarrow> mail_envelope \<Rightarrow> scan_result" where
  "scan env m = (case bindE (ce_rspamd env (messageMetadata m)) normalizeRspamdVerdict of
     Inl _ \<Rightarrow> \<lparr>sr_status = SDeferred, sr_reason = ''rspamd_unavailable''\<rparr>
   | Inr v \<Rightarrow>
       if rd_action v = RReject then \<lparr>sr_status = SRejected, sr_reason = ''spam_policy''\<rparr>
       else if rd_action v = RQuarantine then \<lparr>sr_status = SQuarantined, sr_reason = ''rspamd_quarantine''\<rparr>
       else if rd_action v = RSoftReject then \<lparr>sr_status = SDeferred, sr_reason = ''rspamd_soft_reject''\<rparr>
       else if rd_action v = RUnavailable then \<lparr>sr_status = SDeferred, sr_reason = ''rspamd_unavailable''\<rparr>
       else (case bindE (ce_clamav env (messageMetadata m)) normalizeClamAvVerdict of
           Inl _ \<Rightarrow> \<lparr>sr_status = SDeferred, sr_reason = ''clamav_unavailable''\<rparr>
         | Inr c \<Rightarrow>
             if cl_status c = CInfected then \<lparr>sr_status = SQuarantined, sr_reason = ''malware_detected''\<rparr>
             else if cl_status c = CUnavailable then \<lparr>sr_status = SDeferred, sr_reason = ''clamav_unavailable''\<rparr>
             else \<lparr>sr_status = SAccepted, sr_reason = ''clean''\<rparr>))"

definition scan_name :: "scan_status \<Rightarrow> string" where
  "scan_name s = (case s of SAccepted \<Rightarrow> ''accepted'' | SRejected \<Rightarrow> ''rejected''
     | SQuarantined \<Rightarrow> ''quarantined'' | SDeferred \<Rightarrow> ''deferred'')"

definition core_audit :: "('q, 'h) core_env \<Rightarrow> jsval \<Rightarrow> string \<Rightarrow> string \<Rightarrow> string \<Rightarrow> (string \<times> jsval) list \<Rightarrow> mail_audit res" where
  "core_audit env ctx eventType result reason details =
     mail_audit_of (ce_policyClock env) ctx eventType result (Some reason) (JObj details)"

definition inbound_details :: "mail_envelope \<Rightarrow> inbound_decision \<Rightarrow> (string \<times> jsval) list" where \<comment> \<open>\<open>baseDetails\<close>\<close>
  "inbound_details m auth = [(''path'', JStr ''inbound''),
     (''recipientCount'', JInt (int (length (rs_resolved (id_resolution auth))))),
     (''sizeBytes'', js_or_else (me_sizeBytes m) (JInt 0))]"

definition core_enqueue :: "('q, 'h) core_env \<Rightarrow> jsval \<Rightarrow> mail_envelope \<Rightarrow> string \<Rightarrow> ('q, 'h) core_state \<Rightarrow>
    public_entry res \<times> ('q, 'h) core_state" where
  "core_enqueue env ctx m reason s =
     (case enqueue (ce_queueId env) (ce_queueClock env) ctx (me_sender m)
         (if is_array (me_recipients m) then Some (strings_of (me_recipients m)) else None)
         (js_or_else (me_sizeBytes m) (JInt 0)) (js_or_else (me_messageRef m) JNull) (Some reason) (co_queue s) of
        (r, q) \<Rightarrow> (r, s\<lparr>co_queue := q\<rparr>))"

subsection \<open>Inbound delivery\<close>

datatype loop_result =
    Looped "string list" "string list" \<comment> \<open>addresses delivered, addresses deferred\<close>
  | LmtpFailed string

definition lmtp_input_of :: "mail_policy \<Rightarrow> mail_envelope \<Rightarrow> resolved_recipient \<Rightarrow> lmtp_input" where
  "lmtp_input_of p m r = \<lparr>li_tenantId = mp_tenantId p, li_userId = rr_userId r, li_address = rr_address r,
     li_sizeBytes = js_or_else (me_sizeBytes m) (JInt 0), li_messageRef = js_or_else (me_messageRef m) JNull\<rparr>"

text \<open>One recipient: reserve, deliver, notify.  \<open>Some b\<close> tells whether it was delivered or is to be
  deferred, \<open>None\<close> is the early return on any other status.\<close>

definition deliver_one :: "('q, 'h) core_env \<Rightarrow> jsval \<Rightarrow> mail_envelope \<Rightarrow> resolved_recipient \<Rightarrow> ('q, 'h) core_state \<Rightarrow>
    bool option res \<times> ('q, 'h) core_state" where
  "deliver_one env ctx m r s =
     (case ce_reserve env ctx (rr_userId r) (js_or_else (me_sizeBytes m) (JInt 0)) (co_quota s) of
        (Inl e, q) \<Rightarrow> (Inl e, s\<lparr>co_quota := q\<rparr>)
      | (Inr granted, q) \<Rightarrow>
          let s1 = s\<lparr>co_quota := q\<rparr> in
          if \<not> granted then (Inl (coreError ''QUOTA_EXCEEDED''), s1)
          else let i = lmtp_input_of (ce_policy env) m r; s2 = s1\<lparr>co_lmtp := co_lmtp s1 @ [i]\<rparr> in
          (case ce_lmtp env (co_lmtp s1) i of
             Inl e \<Rightarrow> (Inl e, s2)
           | Inr d \<Rightarrow>
               if jget d ''status'' = JStr ''temporary_failure'' then (Inr (Some False), s2)
               else if jget d ''status'' \<noteq> JStr ''delivered'' then (Inr None, s2)
               else (case notify (ce_fails env) (ce_idleClock env) ctx (JStr (rr_userId r))
                       (js_or_else (jget d ''mailbox'') (JStr ''INBOX'')) (JStr ''exists'')
                       (js_or_else (jget d ''uidNext'') JNull) (co_idle s2) of
                    ((Inl e, _), b) \<Rightarrow> (Inl e, s2\<lparr>co_idle := b\<rparr>)
                  | ((Inr _, _), b) \<Rightarrow> (Inr (Some True), s2\<lparr>co_idle := b\<rparr>))))"

fun deliver_loop :: "('q, 'h) core_env \<Rightarrow> jsval \<Rightarrow> mail_envelope \<Rightarrow> resolved_recipient list \<Rightarrow> ('q, 'h) core_state \<Rightarrow>
    loop_result res \<times> ('q, 'h) core_state" where
  "deliver_loop env ctx m [] s = (Inr (Looped [] []), s)"
| "deliver_loop env ctx m (r # rs) s = (case deliver_one env ctx m r s of
     (Inl e, s1) \<Rightarrow> (Inl e, s1)
   | (Inr None, s1) \<Rightarrow> (Inr (LmtpFailed (rr_address r)), s1)
   | (Inr (Some ok), s1) \<Rightarrow> (case deliver_loop env ctx m rs s1 of
         (Inr (Looped yes later), s2) \<Rightarrow> (Inr (if ok then Looped (rr_address r # yes) later
              else Looped yes (rr_address r # later)), s2)
       | (out, s2) \<Rightarrow> (out, s2)))"

definition receiveInbound :: "('q, 'h) core_env \<Rightarrow> jsval \<Rightarrow> mail_envelope \<Rightarrow> ('q, 'h) core_state \<Rightarrow>
    core_result res \<times> ('q, 'h) core_state" where
  "receiveInbound env ctx m s =
     liftE (authorizeInbound (ce_policy env) ctx m) s (\<lambda>auth.
     let sc = scan env m; base = inbound_details m auth in
     if sr_status sc = SDeferred then
       (case core_enqueue env ctx m (sr_reason sc) s of
          (Inl e, s1) \<Rightarrow> (Inl e, s1)
        | (Inr p, s1) \<Rightarrow> liftE (core_audit env ctx ''mail.delivery.failed'' ''deferred'' (sr_reason sc)
              (base @ [(''queueId'', JStr (qe_queueId p))])) s1 (\<lambda>a.
            (Inr \<lparr>cr_status = ''deferred'', cr_reason = Some (sr_reason sc), cr_delivered = None,
                  cr_queue = Some p, cr_audit = a\<rparr>, s1)))
     else if sr_status sc \<noteq> SAccepted then
       liftE (core_audit env ctx ''mail.delivery.failed'' (scan_name (sr_status sc)) (sr_reason sc) base) s (\<lambda>a.
         (Inr \<lparr>cr_status = scan_name (sr_status sc), cr_reason = Some (sr_reason sc), cr_delivered = None,
               cr_queue = None, cr_audit = a\<rparr>, s))
     else (case deliver_loop env ctx m (rs_resolved (id_resolution auth)) s of
         (Inl e, s1) \<Rightarrow> (Inl e, s1)
       | (Inr (LmtpFailed address), s1) \<Rightarrow> liftE (core_audit env ctx ''mail.delivery.failed'' ''rejected'' ''lmtp_failure''
             (base @ [(''address'', JStr address)])) s1 (\<lambda>a.
           (Inr \<lparr>cr_status = ''rejected'', cr_reason = Some ''lmtp_failure'', cr_delivered = None,
                 cr_queue = None, cr_audit = a\<rparr>, s1))
       | (Inr (Looped yes later), s1) \<Rightarrow>
           if later \<noteq> [] then
             (case core_enqueue env ctx m ''lmtp_temporary_failure'' s1 of
                (Inl e, s2) \<Rightarrow> (Inl e, s2)
              | (Inr p, s2) \<Rightarrow> liftE (core_audit env ctx ''mail.delivery.failed'' ''deferred'' ''lmtp_temporary_failure''
                    (base @ [(''queueId'', JStr (qe_queueId p))])) s2 (\<lambda>a.
                  (Inr \<lparr>cr_status = (if yes \<noteq> [] then ''partial'' else ''deferred''), cr_reason = None,
                        cr_delivered = Some yes, cr_queue = Some p, cr_audit = a\<rparr>, s2)))
           else liftE (core_audit env ctx ''mail.delivery.accepted'' ''accepted'' ''delivered'' base) s1 (\<lambda>a.
             (Inr \<lparr>cr_status = ''delivered'', cr_reason = None, cr_delivered = Some yes, cr_queue = None,
                   cr_audit = a\<rparr>, s1))))"

subsection \<open>Submission\<close>

definition submit :: "('q, 'h) core_env \<Rightarrow> jsval \<Rightarrow> mail_envelope \<Rightarrow> ('q, 'h) core_state \<Rightarrow>
    core_result res \<times> ('q, 'h) core_state" where
  "submit env ctx m s =
     (case authorizeSubmission (ce_policy env) (ce_policyClock env) ctx m (co_windows s) of
        (Inl e, w) \<Rightarrow> (Inl e, s\<lparr>co_windows := w\<rparr>)
      | (Inr auth, w) \<Rightarrow>
          let s1 = s\<lparr>co_windows := w\<rparr>; sc = scan env m in
          if sr_status sc \<noteq> SAccepted then
            liftE (core_audit env ctx ''mail.delivery.failed'' (scan_name (sr_status sc)) (sr_reason sc)
                [(''path'', JStr ''submission''), (''sizeBytes'', js_or_else (me_sizeBytes m) (JInt 0))]) s1 (\<lambda>a.
              (Inr \<lparr>cr_status = scan_name (sr_status sc), cr_reason = Some (sr_reason sc), cr_delivered = None,
                    cr_queue = None, cr_audit = a\<rparr>, s1))
          else (case core_enqueue env ctx m ''authenticated_submission'' s1 of
              (Inl e, s2) \<Rightarrow> (Inl e, s2)
            | (Inr p, s2) \<Rightarrow> liftE (core_audit env ctx ''mail.queue.enqueued'' ''accepted'' ''authenticated_submission''
                  [(''path'', JStr ''submission''), (''queueId'', JStr (qe_queueId p)),
                   (''recipientCount'', JInt (int (length (sd_requested auth))))]) s2 (\<lambda>a.
                (Inr \<lparr>cr_status = ''queued'', cr_reason = None, cr_delivered = None, cr_queue = Some p,
                      cr_audit = a\<rparr>, s2))))"

record sieve_validation =
  sv_actions :: "string list"
  sv_tenantId :: string
  sv_actorId :: jsval

definition core_validateSieve :: "mail_policy \<Rightarrow> jsval \<Rightarrow> jsval \<Rightarrow> sieve_validation res" where
  "core_validateSieve p ctx script = bindE (validateSieve script) (\<lambda>as.
     Inr \<lparr>sv_actions = as, sv_tenantId = mp_tenantId p,
          sv_actorId = (case ctx of JObj kvs \<Rightarrow>
            (if ''actorId'' \<in> set (keys kvs) then jget ctx ''actorId'' else JNull) | _ \<Rightarrow> JNull)\<rparr>)"

lemmas mail_core_defs [code_defs] = coreError_def messageMetadata_def scan_def scan_name_def
  core_audit_def inbound_details_def core_enqueue_def lmtp_input_of_def deliver_one_def receiveInbound_def submit_def
  core_validateSieve_def keys_def

subsection \<open>The scan\<close>

text \<open>What both scanners must have answered for a message to pass.\<close>

definition clean_answers :: "('q, 'h) core_env \<Rightarrow> mail_envelope \<Rightarrow> bool" where
  "clean_answers env m \<longleftrightarrow> (\<exists>v w a b. ce_rspamd env (messageMetadata m) = Inr v \<and> normalizeRspamdVerdict v = Inr a
     \<and> (rd_action a = RAccept \<or> rd_action a = RNoAction)
     \<and> ce_clamav env (messageMetadata m) = Inr w \<and> normalizeClamAvVerdict w = Inr b \<and> cl_status b = CClean)"

lemma scan_accepted: "sr_status (scan env m) = SAccepted \<Longrightarrow> clean_answers env m"
proof (cases "bindE (ce_rspamd env (messageMetadata m)) normalizeRspamdVerdict")
  case (Inl e)
  moreover assume "sr_status (scan env m) = SAccepted"
  ultimately show ?thesis by (simp add: scan_def)
next
  case (Inr a)
  assume acc: "sr_status (scan env m) = SAccepted"
  from Inr obtain v where v: "ce_rspamd env (messageMetadata m) = Inr v" "normalizeRspamdVerdict v = Inr a" by auto
  have act: "rd_action a = RAccept \<or> rd_action a = RNoAction"
    using acc Inr by (cases "rd_action a") (auto simp: scan_def)
  show ?thesis
  proof (cases "bindE (ce_clamav env (messageMetadata m)) normalizeClamAvVerdict")
    case (Inl e)
    with acc Inr act show ?thesis by (auto simp: scan_def)
  next
    case c: (Inr b)
    then obtain w where w: "ce_clamav env (messageMetadata m) = Inr w" "normalizeClamAvVerdict w = Inr b" by auto
    have "cl_status b = CClean" using acc Inr act c by (cases "cl_status b") (auto simp: scan_def)
    with v act w show ?thesis unfolding clean_answers_def by blast
  qed
qed

lemma core_enqueue_frame:
  "core_enqueue env ctx m why s = (r, s1) \<Longrightarrow> co_lmtp s1 = co_lmtp s \<and> co_quota s1 = co_quota s \<and> co_idle s1 = co_idle s"
  by (auto simp: core_enqueue_def split: prod.split_asm)

lemma core_enqueue_Inr:
  assumes "core_enqueue env ctx m why s = (Inr p, s1)"
  shows "me_sender m = JStr (qe_sender p)" "qe_recipients p = dedup (strings_of (me_recipients m))"
    "\<exists>e. map_of (mq_entries (co_queue s1)) (qe_queueId p) = Some e \<and> clonePublic e = p"
proof -
  from assms obtain q where q: "enqueue (ce_queueId env) (ce_queueClock env) ctx (me_sender m)
      (if is_array (me_recipients m) then Some (strings_of (me_recipients m)) else None)
      (js_or_else (me_sizeBytes m) (JInt 0)) (js_or_else (me_messageRef m) JNull) (Some why) (co_queue s) = (Inr p, q)"
    and s1: "co_queue s1 = q"
    by (auto simp: core_enqueue_def split: prod.split_asm)
  note pub = enqueue_public [OF q]
  show "me_sender m = JStr (qe_sender p)" by (rule pub(1))
  show "qe_recipients p = dedup (strings_of (me_recipients m))" using pub(2,3) by (simp split: if_split_asm)
  show "\<exists>e. map_of (mq_entries (co_queue s1)) (qe_queueId p) = Some e \<and> clonePublic e = p" using pub(5) s1 by simp
qed

text \<open>Every LMTP call made between two states has been charged to its user, and nothing else has.\<close>

definition size_of :: "mail_envelope \<Rightarrow> int" where
  "size_of m = (case js_or_else (me_sizeBytes m) (JInt 0) of JInt n \<Rightarrow> n | _ \<Rightarrow> 0)"

definition charge :: "mail_envelope \<Rightarrow> lmtp_input list \<Rightarrow> string \<Rightarrow> int" where
  "charge m calls w = size_of m * int (length (filter (\<lambda>i. li_userId i = w) calls))"

definition charged :: "('q \<Rightarrow> string \<Rightarrow> int) \<Rightarrow> mail_envelope \<Rightarrow> ('q, 'h) core_state \<Rightarrow> ('q, 'h) core_state \<Rightarrow> bool" where
  "charged used m s s1 \<longleftrightarrow> (\<exists>calls. co_lmtp s1 = co_lmtp s @ calls
     \<and> (\<forall>w. used (co_quota s1) w = used (co_quota s) w + charge m calls w))"

subsection \<open>The contract of the quota\<close>

text \<open>
  What delivery relies on: a granted reservation charges the user exactly the size and nobody else, a
  refused one changes nothing, and a valid quota stays valid, with no usage above its limit.
\<close>

locale quota_gate =
  fixes gate :: "jsval \<Rightarrow> string \<Rightarrow> jsval \<Rightarrow> 'q \<Rightarrow> bool res \<times> 'q"
    and used :: "'q \<Rightarrow> string \<Rightarrow> int"
    and limit :: "'q \<Rightarrow> string \<Rightarrow> int"
    and valid :: "'q \<Rightarrow> bool"
  assumes granted: "gate ctx u sz q = (Inr True, q1) \<Longrightarrow>
      \<exists>n. js_default sz (JInt 0) = JInt n \<and> 0 \<le> n \<and> (\<forall>w. used q1 w = used q w + (if w = u then n else 0) \<and> limit q1 w = limit q w)"
    and refused: "gate ctx u sz q = (r, q1) \<Longrightarrow> r \<noteq> Inr True \<Longrightarrow> q1 = q"
    and kept_valid: "valid q \<Longrightarrow> valid (snd (gate ctx u sz q))"
    and within: "valid q \<Longrightarrow> used q u \<le> limit q u"
begin

lemma charged_refl: "co_lmtp s1 = co_lmtp s \<Longrightarrow> co_quota s1 = co_quota s \<Longrightarrow> charged used m s s1"
  unfolding charged_def by (rule exI [of _ "[]"]) (simp add: charge_def)

lemma charged_trans: "charged used m s s1 \<Longrightarrow> charged used m s1 s2 \<Longrightarrow> charged used m s s2"
  unfolding charged_def
proof (elim exE conjE)
  fix xs ys
  assume "co_lmtp s1 = co_lmtp s @ xs" "co_lmtp s2 = co_lmtp s1 @ ys"
    and "\<forall>w. used (co_quota s1) w = used (co_quota s) w + charge m xs w"
      "\<forall>w. used (co_quota s2) w = used (co_quota s1) w + charge m ys w"
  then show "\<exists>calls. co_lmtp s2 = co_lmtp s @ calls
     \<and> (\<forall>w. used (co_quota s2) w = used (co_quota s) w + charge m calls w)"
    by (intro exI [of _ "xs @ ys"]) (simp add: charge_def algebra_simps)
qed

lemma deliver_one_charged:
  assumes env: "ce_reserve env = gate" and run: "deliver_one env ctx m r s = (out, s1)"
  shows "charged used m s s1 \<and> (valid (co_quota s) \<longrightarrow> valid (co_quota s1)) \<and> co_queue s1 = co_queue s"
proof -
  let ?sz = "js_or_else (me_sizeBytes m) (JInt 0)"
  obtain g q where g: "gate ctx (rr_userId r) ?sz (co_quota s) = (g, q)" by (rule prod.exhaust)
  have val: "valid (co_quota s) \<Longrightarrow> valid q" using kept_valid [of "co_quota s" ctx "rr_userId r" ?sz] g by simp
  show ?thesis
  proof (cases "g = Inr True")
    case False
    with refused [OF g] have q: "q = co_quota s" by simp
    have "s1 = s\<lparr>co_quota := q\<rparr>"
      using run False g env by (cases g) (auto simp: deliver_one_def Let_def)
    then show ?thesis using q by (simp add: charged_refl)
  next
    case True
    from granted [OF g [unfolded True]] obtain n where n0: "js_default ?sz (JInt 0) = JInt n"
      and use: "\<forall>w. used q w = used (co_quota s) w + (if w = rr_userId r then n else 0)" by blast
    have "?sz \<noteq> JUndef" by (simp add: js_or_else_def nullish_def)
    with n0 have n: "?sz = JInt n" by (simp add: js_default_def)
    have s1: "co_quota s1 = q \<and> co_lmtp s1 = co_lmtp s @ [lmtp_input_of (ce_policy env) m r] \<and> co_queue s1 = co_queue s"
      using run True g env
      by (auto simp: deliver_one_def Let_def split: sum.split_asm if_split_asm prod.split_asm)
    have "\<forall>w. used (co_quota s1) w = used (co_quota s) w + charge m [lmtp_input_of (ce_policy env) m r] w"
      using use s1 n by (simp add: charge_def size_of_def lmtp_input_of_def)
    with s1 val show ?thesis unfolding charged_def by blast
  qed
qed

lemma deliver_loop_charged:
  assumes env: "ce_reserve env = gate"
  shows "deliver_loop env ctx m rs s = (out, s1) \<Longrightarrow>
    charged used m s s1 \<and> (valid (co_quota s) \<longrightarrow> valid (co_quota s1)) \<and> co_queue s1 = co_queue s"
proof (induction rs arbitrary: s out s1)
  case Nil
  then show ?case by (simp add: charged_refl)
next
  case (Cons r rs)
  obtain o1 t where one: "deliver_one env ctx m r s = (o1, t)" by (rule prod.exhaust)
  note first = deliver_one_charged [OF env one]
  show ?case
  proof (cases "\<exists>ok. o1 = Inr (Some ok)")
    case False
    with Cons.prems one have "s1 = t" by (auto split: sum.split_asm option.split_asm)
    with first show ?thesis by simp
  next
    case True
    obtain o2 u where rest: "deliver_loop env ctx m rs t = (o2, u)" by (rule prod.exhaust)
    from True obtain ok where "o1 = Inr (Some ok)" by blast
    then have "snd (deliver_loop env ctx m (r # rs) s) = u"
      by (simp add: one rest split: sum.split loop_result.split)
    then have "s1 = u" unfolding Cons.prems by simp
    with Cons.IH [OF rest] first charged_trans [of m s t u] show ?thesis by simp
  qed
qed

lemma receive_charged:
  assumes env: "ce_reserve env = gate" and run: "receiveInbound env ctx m s = (r, s1)"
  shows "charged used m s s1 \<and> (valid (co_quota s) \<longrightarrow> valid (co_quota s1))"
proof (cases "authorizeInbound (ce_policy env) ctx m")
  case (Inl e)
  with run show ?thesis by (simp add: receiveInbound_def charged_refl)
next
  case (Inr auth)
  note run = run [unfolded receiveInbound_def Inr liftE_simps Let_def]
  have quiet: "core_enqueue env ctx m why t = (x, t1) \<Longrightarrow> charged used m t t1 \<and> co_quota t1 = co_quota t" for why t x t1
    using core_enqueue_frame [of env ctx m why t x t1] by (simp add: charged_refl)
  show ?thesis
  proof (cases "sr_status (scan env m) = SAccepted")
    case False
    with run have "s1 = s \<or> (\<exists>why x. core_enqueue env ctx m why s = (x, s1))"
      by (auto elim!: liftE_cases split: prod.split_asm sum.split_asm if_split_asm)
    with quiet show ?thesis by (auto simp: charged_refl)
  next
    case True
    obtain out t where loop: "deliver_loop env ctx m (rs_resolved (id_resolution auth)) s = (out, t)"
      by (rule prod.exhaust)
    have "s1 = t \<or> (\<exists>why x. core_enqueue env ctx m why t = (x, s1))"
      using run True loop
      by (auto elim!: liftE_cases split: prod.split_asm sum.split_asm if_split_asm loop_result.split_asm)
    with deliver_loop_charged [OF env loop] quiet charged_trans show ?thesis by metis
  qed
qed

end

subsection \<open>The quota ledger as the gate\<close>

definition ledger_reserve :: "jsval \<Rightarrow> string \<Rightarrow> jsval \<Rightarrow> ledger \<Rightarrow> bool res \<times> ledger" where
  "ledger_reserve ctx u sz l = (case reserve l ctx (JStr u) sz of
     (Inl e, l1) \<Rightarrow> (Inl e, l1)
   | (Inr (Reserved _ _ _), l1) \<Rightarrow> (Inr True, l1)
   | (Inr (NotReserved _ _), l1) \<Rightarrow> (Inr False, l1))"

lemma ledger_reserve_True:
  assumes "ledger_reserve ctx u sz l = (Inr True, l1)"
  obtains rid n where "reserve l ctx (JStr u) sz = (Inr (Reserved rid u n), l1)"
proof -
  obtain r l2 where r: "reserve l ctx (JStr u) sz = (r, l2)" by (rule prod.exhaust)
  with assms obtain rid w n where "r = Inr (Reserved rid w n)" "l2 = l1"
    by (auto simp: ledger_reserve_def split: sum.split_asm reserve_result.split_asm)
  with r have rs: "reserve l ctx (JStr u) sz = (Inr (Reserved rid w n), l1)" by simp
  have "w = u" using reserve_Reserved(1) [OF rs] by simp
  with rs show ?thesis by (intro that) simp
qed

lemma reserve_size:
  assumes "reserve l ctx v sz = (Inr (Reserved rid u n), l1)" shows "js_default sz (JInt 0) = JInt n"
  using assms unfolding reserve_def Let_def by (auto split: if_split_asm)

interpretation lq: quota_gate ledger_reserve "\<lambda>l. get0 (lg_usage l)" "\<lambda>l. get0 (lg_allocations l)" ledger_ok
proof unfold_locales
  fix ctx u sz l l1 assume "ledger_reserve ctx u sz l = (Inr True, l1)"
  then obtain rid n where rs: "reserve l ctx (JStr u) sz = (Inr (Reserved rid u n), l1)"
    by (rule ledger_reserve_True)
  show "\<exists>n. js_default sz (JInt 0) = JInt n \<and> 0 \<le> n \<and> (\<forall>w. get0 (lg_usage l1) w =
      get0 (lg_usage l) w + (if w = u then n else 0) \<and> get0 (lg_allocations l1) w = get0 (lg_allocations l) w)"
    using reserve_size [OF rs] reserve_Reserved(2,6) [OF rs] by (intro exI [of _ n]) simp
next
  fix ctx u sz l r l1
  assume r: "ledger_reserve ctx u sz l = (r, l1)" "r \<noteq> Inr True"
  obtain x l2 where x: "reserve l ctx (JStr u) sz = (x, l2)" by (rule prod.exhaust)
  with r have "l2 = l1" "\<nexists>rid u n. x = Inr (Reserved rid u n)"
    by (auto simp: ledger_reserve_def split: sum.split_asm reserve_result.split_asm)
  with reserve_other [OF x] show "l1 = l" by simp
next
  fix ctx u sz l assume "ledger_ok l"
  obtain x l2 where x: "reserve l ctx (JStr u) sz = (x, l2)" by (rule prod.exhaust)
  then have "snd (ledger_reserve ctx u sz l) = l2"
    by (simp add: ledger_reserve_def split: sum.split reserve_result.split)
  with ledger_ok_reserve [OF \<open>ledger_ok l\<close> x] show "ledger_ok (snd (ledger_reserve ctx u sz l))" by simp
next
  fix l u assume "ledger_ok l"
  then show "get0 (lg_usage l) u \<le> get0 (lg_allocations l) u" by (rule ledger_okD(11))
qed

subsection \<open>A concrete core\<close>

definition answer :: "string \<Rightarrow> string \<Rightarrow> jsval" where
  "answer k v = JObj [(k, JStr v)]"

text \<open>LMTP accepts the first \<open>n\<close> deliveries and then fails temporarily.\<close>

definition example_env :: "nat \<Rightarrow> (ledger, nat) core_env" where
  "example_env n = \<lparr>ce_policy = example_policy, ce_rspamd = (\<lambda>_. Inr (answer ''action'' ''accept'')),
     ce_clamav = (\<lambda>_. Inr (answer ''status'' ''clean'')),
     ce_lmtp = (\<lambda>calls _. Inr (answer ''status'' (if length calls < n then ''delivered'' else ''temporary_failure''))),
     ce_reserve = ledger_reserve, ce_fails = (\<lambda>_ _. None), ce_queueId = None, ce_policyClock = 5000,
     ce_queueClock = Some 5000, ce_idleClock = Some 5000\<rparr>"

definition example_core :: "(ledger, nat) core_state" where
  "example_core = \<lparr>co_queue = empty_queue, co_idle = createImapIdleBroker, co_quota = example_ledger 0 100,
     co_windows = [], co_lmtp = []\<rparr>"

subsection \<open>Properties\<close>

lemma submission_checks_context:
  "submission_checks p ctx m = Inr x \<Longrightarrow> \<exists>c. assertTenantContext ctx = Inr c"
  unfolding submission_checks_def by (simp split: prod.split_asm) blast

text \<open>C13 Delivery fails closed: if handling an inbound message made any LMTP call, the policy had accepted
  the message and both scanners had answered, Rspamd with \<open>accept\<close> or \<open>no_action\<close> and ClamAV with
  \<open>clean\<close>; a scanner that throws, is not configured or answers anything else stops the delivery.\<close>

theorem inbound_delivery_fails_closed:
  assumes "receiveInbound env ctx m s = (r, s1)" "co_lmtp s1 \<noteq> co_lmtp s"
  shows "is_ok (authorizeInbound (ce_policy env) ctx m) \<and> clean_answers env m"
proof (cases "authorizeInbound (ce_policy env) ctx m")
  case (Inl e)
  with assms show ?thesis by (simp add: receiveInbound_def)
next
  case (Inr auth)
  have "sr_status (scan env m) = SAccepted"
  proof (rule ccontr)
    assume "sr_status (scan env m) \<noteq> SAccepted"
    with assms(1) Inr have "s1 = s \<or> (\<exists>why x. core_enqueue env ctx m why s = (x, s1))"
      by (auto simp: receiveInbound_def Let_def elim!: liftE_cases split: prod.split_asm sum.split_asm if_split_asm)
    with core_enqueue_frame assms(2) show False by metis
  qed
  with scan_accepted Inr show ?thesis by (auto simp: is_ok_iff)
qed

lemma example_inbound_calls:
  "map li_userId (co_lmtp (snd (receiveInbound (example_env 1) example_mail_ctx
     (example_envelope [''ada@t1.test'', ''bob@t1.test'']) example_core))) = [''ada'', ''bob'']"
  by code_simp

lemma inbound_delivery_fails_closed_witness:
  "clean_answers (example_env 1) (example_envelope [''ada@t1.test'', ''bob@t1.test''])"
proof -
  have "co_lmtp (snd (receiveInbound (example_env 1) example_mail_ctx
     (example_envelope [''ada@t1.test'', ''bob@t1.test'']) example_core)) \<noteq> co_lmtp example_core"
    using example_inbound_calls by (auto simp: example_core_def)
  from inbound_delivery_fails_closed [OF surjective_pairing this] show ?thesis by blast
qed

text \<open>C14 What LMTP is given has been paid for: with the quota ledger as the quota, and whatever LMTP, the
  scanners and the callbacks answer or throw, each user's usage grows by exactly the size of the
  message times the LMTP calls made for that user, the ledger stays valid and no usage exceeds its
  allocation.  The charge stays when LMTP refuses or defers the message, since nothing releases it.\<close>

theorem inbound_charges_every_lmtp_call:
  assumes "ce_reserve env = ledger_reserve" "receiveInbound env ctx m s = (r, s1)" "ledger_ok (co_quota s)"
  shows "\<exists>calls. co_lmtp s1 = co_lmtp s @ calls \<and> (\<forall>u. get0 (lg_usage (co_quota s1)) u
        = get0 (lg_usage (co_quota s)) u + size_of m * int (length (filter (\<lambda>i. li_userId i = u) calls))
      \<and> get0 (lg_usage (co_quota s1)) u \<le> get0 (lg_allocations (co_quota s1)) u) \<and> ledger_ok (co_quota s1)"
  using lq.receive_charged [OF assms(1,2)] assms(3) lq.within [of "co_quota s1"]
  unfolding charged_def charge_def by blast

lemma inbound_charges_every_lmtp_call_witness:
  "\<exists>u. get0 (lg_usage (co_quota (snd (receiveInbound (example_env 1) example_mail_ctx
     (example_envelope [''ada@t1.test'', ''bob@t1.test'']) example_core)))) ''bob'' = u \<and> u = 10"
proof -
  have "ce_reserve (example_env 1) = ledger_reserve" "ledger_ok (co_quota example_core)"
    using example_ledger_ok by (simp_all add: example_env_def example_core_def)
  from inbound_charges_every_lmtp_call [OF this(1) surjective_pairing this(2), of example_mail_ctx
      "example_envelope [''ada@t1.test'', ''bob@t1.test'']"]
  obtain calls where calls: "co_lmtp (snd (receiveInbound (example_env 1) example_mail_ctx
     (example_envelope [''ada@t1.test'', ''bob@t1.test'']) example_core)) = co_lmtp example_core @ calls"
    and use: "get0 (lg_usage (co_quota (snd (receiveInbound (example_env 1) example_mail_ctx
     (example_envelope [''ada@t1.test'', ''bob@t1.test'']) example_core)))) ''bob''
       = get0 (lg_usage (co_quota example_core)) ''bob'' + size_of (example_envelope [''ada@t1.test'', ''bob@t1.test''])
         * int (length (filter (\<lambda>i. li_userId i = ''bob'') calls))" by blast
  from calls have "map li_userId calls = [''ada'', ''bob'']" using example_inbound_calls by (simp add: example_core_def)
  then have "length (filter (\<lambda>i. li_userId i = ''bob'') calls) = 1" by auto
  with use show ?thesis
    by (simp add: example_core_def example_ledger_def get0_def size_of_def example_envelope_def js_or_else_def nullish_def)
qed

text \<open>A partial delivery is queued for everybody: when some recipients were delivered and some
  deferred, the item put in the queue carries all the recipients of the message, those just delivered
  included, so working the queue off delivers to them again.\<close>

theorem partial_delivery_requeues_everyone:
  assumes "receiveInbound env ctx m s = (Inr r, s1)" "cr_status r = ''partial''"
  shows "\<exists>p yes e. cr_queue r = Some p \<and> cr_delivered r = Some yes \<and> yes \<noteq> []
    \<and> map_of (mq_entries (co_queue s1)) (qe_queueId p) = Some e \<and> clonePublic e = p
    \<and> qe_recipients p = dedup (strings_of (me_recipients m))"
proof -
  from assms(1) obtain auth where auth: "authorizeInbound (ce_policy env) ctx m = Inr auth"
    by (auto simp: receiveInbound_def)
  have acc: "sr_status (scan env m) = SAccepted"
  proof (rule ccontr)
    assume "sr_status (scan env m) \<noteq> SAccepted"
    with assms auth show False
      by (cases "sr_status (scan env m)")
         (auto simp: receiveInbound_def Let_def scan_name_def elim!: liftE_cases split: prod.split_asm sum.split_asm)
  qed
  obtain out t where loop: "deliver_loop env ctx m (rs_resolved (id_resolution auth)) s = (out, t)"
    by (rule prod.exhaust)
  note run = assms(1) [unfolded receiveInbound_def auth liftE_simps Let_def acc loop]
  obtain yes later where out: "out = Inr (Looped yes later)" "later \<noteq> []"
    using run assms(2)
    by (cases out) (auto elim!: liftE_cases split: loop_result.split_asm if_split_asm)
  obtain x u where enq: "core_enqueue env ctx m ''lmtp_temporary_failure'' t = (x, u)" by (rule prod.exhaust)
  from run out enq obtain p where p: "x = Inr p" by (cases x) auto
  from run out enq p have r: "u = s1" "cr_queue r = Some p" "cr_delivered r = Some yes" "cr_status r = (if yes \<noteq> [] then ''partial'' else ''deferred'')"
    by auto
  note q = core_enqueue_Inr [OF enq [unfolded p r(1)]]
  from q(3) obtain e where "map_of (mq_entries (co_queue s1)) (qe_queueId p) = Some e" "clonePublic e = p" by blast
  with q(2) r assms(2) show ?thesis by (auto split: if_split_asm)
qed

lemma partial_delivery_requeues_everyone_witness:
  "\<exists>p r s1. receiveInbound (example_env 1) example_mail_ctx
     (example_envelope [''ada@t1.test'', ''bob@t1.test'']) example_core = (Inr r, s1)
   \<and> cr_delivered r = Some [''ada@t1.test''] \<and> cr_queue r = Some p
   \<and> qe_recipients p = [''ada@t1.test'', ''bob@t1.test'']"
proof -
  let ?m = "example_envelope [''ada@t1.test'', ''bob@t1.test'']"
  obtain x s1 where x: "receiveInbound (example_env 1) example_mail_ctx ?m example_core = (x, s1)"
    by (rule prod.exhaust)
  have "(case fst (receiveInbound (example_env 1) example_mail_ctx ?m example_core) of Inl _ \<Rightarrow> False
     | Inr r \<Rightarrow> cr_status r = ''partial'' \<and> cr_delivered r = Some [''ada@t1.test''])" by code_simp
  then obtain r where r: "x = Inr r" "cr_status r = ''partial''" "cr_delivered r = Some [''ada@t1.test'']"
    unfolding x by (cases x) simp_all
  have "dedup (strings_of (me_recipients ?m)) = [''ada@t1.test'', ''bob@t1.test'']" by code_simp
  with partial_delivery_requeues_everyone [OF x [unfolded r(1)] r(2)] obtain p where
    "cr_queue r = Some p" "qe_recipients p = [''ada@t1.test'', ''bob@t1.test'']" by metis
  with x r show ?thesis by blast
qed

text \<open>The policy accepts \<open>envelopeFrom\<close> in place of \<open>sender\<close>, the queue does not: a submission that
  gives its sender as \<open>envelopeFrom\<close> only passes the policy and both scanners, is counted against the
  submission rate, and then fails with the queue's error.\<close>

theorem submission_by_envelope_from_fails:
  assumes "authorizeSubmission (ce_policy env) (ce_policyClock env) ctx m (co_windows s) = (Inr d, w)"
    and "sr_status (scan env m) = SAccepted" and "me_sender m = JUndef"
  shows "submit env ctx m s = (Inl (queueError ''INVALID_INPUT''), s\<lparr>co_windows := w\<rparr>)"
proof -
  from assms(1) obtain x where "submission_checks (ce_policy env) ctx m = Inr x"
    by (auto simp: authorizeSubmission_def)
  from submission_checks_context [OF this] obtain c where "assertTenantContext ctx = Inr c" ..
  then have "enqueue (ce_queueId env) (ce_queueClock env) ctx JUndef rs sz ref why q = (Inl (queueError ''INVALID_INPUT''), q)"
    for rs sz ref why q by (simp add: enqueue_def enqueue_input_def need_str_def)
  with assms show ?thesis by (simp add: submit_def Let_def core_enqueue_def)
qed

definition example_from_envelope :: mail_envelope where
  "example_from_envelope = (example_envelope [''x@y.test''])\<lparr>me_sender := JUndef, me_envelopeFrom := JStr ''ada@t1.test''\<rparr>"

lemma submission_by_envelope_from_fails_witness:
  "fst (submit (example_env 1) example_mail_ctx example_from_envelope example_core) = Inl (queueError ''INVALID_INPUT'')
   \<and> is_ok (fst (submit (example_env 1) example_mail_ctx (example_envelope [''x@y.test'']) example_core))"
proof
  have "is_ok (fst (authorizeSubmission example_policy 5000 example_mail_ctx example_from_envelope []))" by code_simp
  then obtain d w where d: "authorizeSubmission example_policy 5000 example_mail_ctx example_from_envelope [] = (Inr d, w)"
    by (metis is_ok_iff surjective_pairing)
  have "sr_status (scan (example_env 1) example_from_envelope) = SAccepted" by code_simp
  with submission_by_envelope_from_fails [of "example_env 1" example_mail_ctx example_from_envelope example_core] d
  show "fst (submit (example_env 1) example_mail_ctx example_from_envelope example_core) = Inl (queueError ''INVALID_INPUT'')"
    by (simp add: example_env_def example_core_def example_from_envelope_def)
  show "is_ok (fst (submit (example_env 1) example_mail_ctx (example_envelope [''x@y.test'']) example_core))" by code_simp
qed

end
