(* ===== verification/Spec2Isabelle.thy ===== *)
theory Spec2Isabelle
  imports Quota Delegation Admin_Tools Mail_Queue Mail_Scanners Imap_Idle Smtp_Queue_Adapter Totp Recovery_Codes Web_Sessions Csrf Session_Credentials Passwords Abuse_Guard Account_Lifecycle CardDav_Store CalDav_Store Mfa_Gate WebAuthn Mail_Policy Mail_Core
begin

text \<open>
  \<^bold>\<open>What this is.\<close>  A development beside the TypeScript sources of GuloGulo, a multi-tenant mail and
  groupware server.  It models the core logic of the program: who may do what, what is stored, what is
  sent, and what a login proves.  Every definition is translated from a file under \<open>src/\<close>; every theory
  opens with the files it models.

  \<^bold>\<open>How the parts interact.\<close>  A request carries a tenant context (\<open>integrations/tenant-context.ts\<close>).
  Administrative requests are decided by \<open>core/admin/rbac.ts\<close>, which asks the delegation store
  (\<open>core/admin/delegation.ts\<close>) whether a colleague was given access, and guards the quota ledger
  (\<open>core/admin/quota.ts\<close>) and the audit store (\<open>core/admin/admin-tools.ts\<close>).  Incoming mail passes the
  policy (\<open>core/mail/mail-policy.ts\<close>), the scanners (\<open>mail-scanners.ts\<close>), the ledger, LMTP and the IDLE
  broker (\<open>imap-idle.ts\<close>) in \<open>mail-core.ts\<close>; outgoing mail passes the policy, the scanners and the queue
  (\<open>mail-queue.ts\<close>), from which \<open>smtp-queue-adapter.ts\<close> delivers it over \<open>smtp-client.ts\<close>.  A user proves
  who they are with a password (\<open>core/auth/password-policy.ts\<close>, \<open>password-hashing.ts\<close>), a code
  (\<open>core/auth/totp.ts\<close>), a passkey (\<open>webauthn.ts\<close>) or a recovery code (\<open>recovery-codes.ts\<close>); \<open>runtime/login.ts\<close> asks the identity
  source and \<open>runtime/mfa.ts\<close> holds the login back until its factors are proved; the session that follows is kept by
  \<open>web/security/session-manager.ts\<close>, its request tokens by \<open>csrf.ts\<close>, its mail password by
  \<open>session-credential.ts\<close>.  \<open>core/ops/abuse\<close> limits how often anything may be tried.

  \<^bold>\<open>Theories.\<close>
  \<^item> \<open>JS_Base\<close>: JavaScript values of type \<open>unknown\<close>, strings and their patterns, errors and their
    sequencing (\<open>bindE\<close>, \<open>liftE\<close>, \<open>bindS\<close>), ordered maps, decimal numbers; the collection \<open>code_defs\<close>.
  \<^item> \<open>Tenant_Context\<close>, \<open>Rbac\<close>, \<open>Delegation\<close>, \<open>Quota\<close>, \<open>Admin_Tools\<close>: the administrative side.  The
    delegation store is interpreted as the contract that \<open>authorize\<close> relies on.
  \<^item> \<open>Mail_Scanners\<close>, \<open>Mail_Policy\<close>, \<open>Mail_Queue\<close>, \<open>Imap_Idle\<close>, \<open>Mail_Core\<close>: the mail side; \<open>Mail_Core\<close>
    composes the others the way the code does, with the ledger as the contract \<open>quota_gate\<close>.
  \<^item> \<open>Utf8_Text\<close>, \<open>Smtp_Client\<close>, \<open>Smtp_Queue_Adapter\<close>: bytes read as UTF-8 and the delivery of a queued item, against a server that may answer
    anything; the queue is interpreted as the contract \<open>delivery_queue\<close>, the adapter as \<open>delivery_agent\<close>.
  \<^item> \<open>Byte_Codec\<close>, \<open>Auth_Factors\<close>, \<open>Totp\<close>, \<open>Recovery_Codes\<close>, \<open>Passwords\<close>: bit groups on machine words,
    the factors of a login and the stored form of a password.  TOTP and recovery codes are two
    interpretations of the contract \<open>single_use\<close>.
  \<^item> \<open>Login\<close>, \<open>Mfa_Gate\<close>: a login of the runtime and the second factors it waits for; the gate is generic in
    its managers, of which TOTP and recovery codes are the default.
  \<^item> \<open>WebAuthn\<close>: registration and assertion of passkeys, with the history of a ceremony.
  \<^item> \<open>Web_Sessions\<close>, \<open>Csrf\<close>, \<open>Session_Credentials\<close>: the security of the web client.
  \<^item> \<open>Abuse_Limits\<close>, \<open>Abuse_Guard\<close>: the rate limiter and the lockout guard of the abuse control.
  \<^item> \<open>Account_Lifecycle\<close>: the deletion of an account (\<open>core/lifecycle/account-lifecycle.ts\<close>) as a store
    that implements an automaton of account states.
  \<^item> \<open>Text_Lines\<close>, \<open>VCard\<close>, \<open>Sync_Log\<close>, \<open>CardDav_Store\<close>: lines of a text, the vCard parser, the contract
    of a change log, and the address books (\<open>core/dav/carddav/carddav-store.ts\<close>), which interpret it.
  \<^item> \<open>ICalendar\<close>, \<open>CalDav_Store\<close>: the iCalendar parser and the calendars of
    \<open>core/dav/caldav/caldav-contract.ts\<close>, the second interpretation of the change log.

  \<^bold>\<open>State and effects.\<close>  A closure over mutable variables is a record, an operation a function from
  arguments and record to a result and the new record.  Results are sums, the left side being the error
  that is thrown; an operation that throws after it has changed something returns the changed state with
  the error.  A \<open>Map\<close> is an association list in insertion order.  A reading of a clock, the bytes of a
  random source, an answer of a service and the outcome of a hook are arguments of the operation that
  uses them, one for each call.  Functions of \<open>node:crypto\<close> (hashes, HMAC, AES-GCM, HKDF, scrypt) and
  \<open>Date.parse\<close> are parameters; what a property needs of them is a hypothesis of the property.

  \<^bold>\<open>What the lemmas show.\<close>  For each stateful component an inductive relation of reachable states and
  an invariant proved by rule induction; for each operation the facts about its successful outcome that
  the properties rest on; for loops (\<open>select_cookie\<close>, \<open>evict_oldest\<close>, \<open>resolve_loop\<close>, \<open>read_loop\<close>, the
  codecs) their equivalence with a description that has no loop.  The properties are the theorems whose
  text begins with a claim number.

  \<^bold>\<open>Bounds.\<close>  There is no fuel: every loop of the modelled code is structural recursion, or has a
  bounded number of rounds in the code itself (four candidates for a fresh identifier).

  \<^bold>\<open>Not modelled.\<close>  Sockets, TLS, files and databases (IMAP client, scanners' protocols, PostgreSQL
  stores, secret files, backups), the MIME libraries behind message parser and composer, the clients of
  LDAP and of control panels (the identity source of a login is an argument), the HTTP server with its configuration and metrics, and the user interface
  in the browser: they are input and output around the logic above.  Strings are those over the code points
  below 256; what the SMTP client decodes to a code point above stands there as one placeholder (\<open>Utf8_Text\<close>).  Messages of errors, logging and \<open>Object.freeze\<close> are left out.
\<close>

end
